(* ===== verification/Bsb_Prelude.thy ===== *)
theory Bsb_Prelude
  imports Main "HOL-Library.Word" "HOL-Library.AList" "HOL-Library.Char_ord"
    "HOL-Library.List_Lexorder" "HOL-Library.Sublist" "HOL-Library.Multiset"
begin

text \<open>
  What the component theories share: the types that stand for Go's machine integers, times and
  durations, Go maps as association lists behind a map interface, Go's comparator sorts behind an
  order interface, and the interface of a component whose operations keep an invariant.

  A \<open>time.Time\<close> is its instant, in nanoseconds after Go's zero time, together with the offset of
  its zone: the code reads the offset only to require UTC, and every comparison reads the instant.
  A \<open>time.Duration\<close> is an \<open>int\<close> and every product that Go computes in 64 bits is wrapped by
  \<open>int64\<close>. The identity of a \<open>Location\<close> and the monotonic reading of a clock are not part of a time.
\<close>

named_theorems go_time \<comment> \<open>unfolds the operations on times and durations\<close>
named_theorems go_alist \<comment> \<open>reads and sizes of association lists\<close>

subsection \<open>Machine integers\<close>

type_synonym u64 = "64 word"

definition int64 :: "int \<Rightarrow> int" where
  "int64 x = signed_take_bit 63 x"

lemma int64_id: "- (2 ^ 63) \<le> x \<Longrightarrow> x < 2 ^ 63 \<Longrightarrow> int64 x = x"
  unfolding int64_def by (rule signed_take_bit_int_eq_self) auto

lemma u64_less_Suc: "x \<noteq> - 1 \<Longrightarrow> x < x + 1" for x :: u64
  by (metis inc_less_eq_self_iff_eq linorder_not_le)

subsection \<open>Times and durations\<close>

record gotime =
  instant :: int
  zone_offset :: int

definition zero_time :: gotime where
  "zero_time = \<lparr>instant = 0, zone_offset = 0\<rparr>"

definition is_zero_time :: "gotime \<Rightarrow> bool" where
  [go_time]: "is_zero_time t \<longleftrightarrow> instant t = 0"

definition time_before :: "gotime \<Rightarrow> gotime \<Rightarrow> bool" where
  [go_time]: "time_before a b \<longleftrightarrow> instant a < instant b"

definition time_after :: "gotime \<Rightarrow> gotime \<Rightarrow> bool" where
  [go_time]: "time_after a b \<longleftrightarrow> instant b < instant a"

definition time_equal :: "gotime \<Rightarrow> gotime \<Rightarrow> bool" where
  [go_time]: "time_equal a b \<longleftrightarrow> instant a = instant b"

definition time_compare :: "gotime \<Rightarrow> gotime \<Rightarrow> int" where
  "time_compare a b = sgn (instant a - instant b)"

definition time_add :: "gotime \<Rightarrow> int \<Rightarrow> gotime" where
  [go_time]: "time_add t d = t\<lparr>instant := instant t + d\<rparr>"

text \<open>\<open>Time.Sub\<close> saturates at the bounds of a duration.\<close>

definition time_sub :: "gotime \<Rightarrow> gotime \<Rightarrow> int" where
  [go_time]: "time_sub a b = max (- (2 ^ 63)) (min (2 ^ 63 - 1) (instant a - instant b))"

definition time_utc :: "gotime \<Rightarrow> gotime" where
  [go_time]: "time_utc t = t\<lparr>zone_offset := 0\<rparr>"

definition millisecond :: int where "millisecond = 1000000"
definition second :: int where "second = 1000000000"
definition hour :: int where "hour = 3600000000000"

text \<open>\<open>time.Duration(n) * time.Millisecond\<close>, computed in 64 bits.\<close>

definition ms_duration :: "int \<Rightarrow> int" where
  "ms_duration n = int64 (n * millisecond)"

lemma ms_duration_exact:
  "\<bar>n\<bar> \<le> 9000000000000 \<Longrightarrow> ms_duration n = n * 1000000"
  unfolding ms_duration_def millisecond_def by (rule int64_id) auto

subsection \<open>Go maps\<close>

text \<open>
  A Go map is an association list with distinct keys. The interface below is all that the
  components use of it; its lemmas are proved once from the laws.
\<close>

locale go_map =
  fixes lookup :: "'m \<Rightarrow> 'k \<Rightarrow> 'v option"
    and put :: "'k \<Rightarrow> 'v \<Rightarrow> 'm \<Rightarrow> 'm"
    and remove :: "'k \<Rightarrow> 'm \<Rightarrow> 'm"
    and len :: "'m \<Rightarrow> nat"
    and wf :: "'m \<Rightarrow> bool"
  assumes lookup_put: "lookup (put k v m) = (lookup m)(k \<mapsto> v)"
    and lookup_remove: "lookup (remove k m) = (lookup m)(k := None)"
    and wf_put: "wf m \<Longrightarrow> wf (put k v m)"
    and wf_remove: "wf m \<Longrightarrow> wf (remove k m)"
    and len_card: "wf m \<Longrightarrow> len m = card (dom (lookup m))"
    and finite_dom: "finite (dom (lookup m))"
begin

lemma len_put:
  "wf m \<Longrightarrow> len (put k v m) = (if lookup m k = None then Suc (len m) else len m)"
  by (auto simp: len_card wf_put lookup_put finite_dom card_insert_if domIff)

lemma len_remove:
  "wf m \<Longrightarrow> len (remove k m) = (if lookup m k = None then len m else len m - 1)"
proof -
  assume m: "wf m"
  have d: "dom (lookup (remove k m)) = dom (lookup m) - {k}"
    by (auto simp: lookup_remove)
  show ?thesis
    using m by (auto simp: len_card wf_remove d card_Diff_singleton_if domIff)
qed

lemma lookup_put_other: "k \<noteq> k' \<Longrightarrow> lookup (put k v m) k' = lookup m k'"
  by (simp add: lookup_put)

end

abbreviation alist_wf :: "('k \<times> 'v) list \<Rightarrow> bool" where
  "alist_wf m \<equiv> distinct (map fst m)"

interpretation alist: go_map map_of AList.update AList.delete length alist_wf
proof unfold_locales
  fix k :: 'k and v :: 'v and m :: "('k \<times> 'v) list"
  show "map_of (AList.update k v m) = (map_of m)(k \<mapsto> v)" by (rule update_conv')
  show "map_of (AList.delete k m) = (map_of m)(k := None)" by (rule delete_conv')
  show "alist_wf m \<Longrightarrow> alist_wf (AList.update k v m)" by (rule distinct_update)
  show "alist_wf m \<Longrightarrow> alist_wf (AList.delete k m)" by (rule distinct_delete)
  show "alist_wf m \<Longrightarrow> length m = card (dom (map_of m))"
    by (metis distinct_card dom_map_of_conv_image_fst length_map list.set_map)
  show "finite (dom (map_of m))" by (rule finite_dom_map_of)
qed

lemmas [go_alist] = alist.lookup_put alist.lookup_remove alist.wf_put alist.wf_remove
  alist.len_put alist.len_remove

text \<open>Deleting while ranging over a Go map is a filter of the association list.\<close>

lemma map_of_filter_key:
  "alist_wf m \<Longrightarrow> map_of (filter P m) k =
     (case map_of m k of None \<Rightarrow> None | Some v \<Rightarrow> if P (k, v) then Some v else None)"
proof (induction m)
  case (Cons kv m)
  obtain k' v where kv: "kv = (k', v)" by (cases kv)
  have "map_of m k' = None"
    using Cons.prems by (simp add: kv map_of_eq_None_iff)
  moreover have "map_of (filter P m) k' = None"
    using Cons.prems by (auto simp: kv map_of_eq_None_iff)
  ultimately show ?case using Cons by (auto simp: kv split: option.splits)
qed simp

lemma alist_wf_filter: "alist_wf m \<Longrightarrow> alist_wf (filter P m)"
  by (simp add: distinct_map_filter)

lemma alist_update_keys: "fst ` set (AList.update k v m) = insert k (fst ` set m)"
  by (simp add: dom_update)

lemma set_alist_update: "set (AList.update k v m) \<subseteq> insert (k, v) (set m)"
  by (induction m) auto

lemma set_alist_delete: "set (AList.delete k m) \<subseteq> set m"
  by (auto simp: AList.delete_eq)

lemma alist_wf_perm_eq:
  assumes "alist_wf m" "alist_wf m'" "map_of m = map_of m'"
  shows "mset m = mset m'"
proof -
  have "(k, v) \<in> set m \<longleftrightarrow> (k, v) \<in> set m'" for k v
    using map_of_eq_Some_iff [OF assms(1)] map_of_eq_Some_iff [OF assms(2)] assms(3) by metis
  then have "set m = set m'" by auto
  then show ?thesis using assms by (simp add: set_eq_iff_mset_eq_distinct distinct_map)
qed

subsection \<open>Go's comparator sorts\<close>

text \<open>
  \<open>slices.SortStableFunc\<close> and \<open>slices.SortFunc\<close> with a comparator that returns a negative, zero or
  positive integer, as a stable insertion sort. \<open>SortFunc\<close> is not stable, and its result is
  determined only where the comparator separates the elements: that case is \<open>keyed_comparator\<close>.
\<close>

fun insert_by :: "('a \<Rightarrow> 'a \<Rightarrow> int) \<Rightarrow> 'a \<Rightarrow> 'a list \<Rightarrow> 'a list" where
  "insert_by c x [] = [x]"
| "insert_by c x (y # ys) = (if c x y \<le> 0 then x # y # ys else y # insert_by c x ys)"

fun sort_by :: "('a \<Rightarrow> 'a \<Rightarrow> int) \<Rightarrow> 'a list \<Rightarrow> 'a list" where
  "sort_by c [] = []"
| "sort_by c (x # xs) = insert_by c x (sort_by c xs)"

lemma mset_insert_by [simp]: "mset (insert_by c x xs) = add_mset x (mset xs)"
  by (induction xs) auto

lemma mset_sort_by [simp]: "mset (sort_by c xs) = mset xs"
  by (induction xs) auto

lemma set_sort_by [simp]: "set (sort_by c xs) = set xs"
  using mset_sort_by [of c xs] by (metis set_mset_mset)

lemma length_sort_by [simp]: "length (sort_by c xs) = length xs"
  using mset_sort_by [of c xs] by (metis size_mset)

lemma sort_by_Nil_iff [simp]: "sort_by c xs = [] \<longleftrightarrow> xs = []"
  using length_sort_by [of c xs] by (metis length_0_conv)

locale comparator =
  fixes cmp :: "'a \<Rightarrow> 'a \<Rightarrow> int"
  assumes cmp_antisym: "cmp x y \<le> 0 \<longleftrightarrow> 0 \<le> cmp y x"
    and cmp_trans: "cmp x y \<le> 0 \<Longrightarrow> cmp y z \<le> 0 \<Longrightarrow> cmp x z \<le> 0"
begin

lemma cmp_total: "\<not> cmp x y \<le> 0 \<Longrightarrow> cmp y x \<le> 0"
  using cmp_antisym [of y x] by linarith

lemma sorted_insert_by:
  "sorted_wrt (\<lambda>x y. cmp x y \<le> 0) xs \<Longrightarrow> sorted_wrt (\<lambda>x y. cmp x y \<le> 0) (insert_by cmp x xs)"
proof (induction xs)
  case (Cons y ys)
  have "set (insert_by cmp x ys) = insert x (set ys)"
    by (metis mset_insert_by set_mset_add_mset_insert set_mset_mset)
  with Cons show ?case by (auto dest: cmp_total intro: cmp_trans)
qed simp

lemma sorted_sort_by: "sorted_wrt (\<lambda>x y. cmp x y \<le> 0) (sort_by cmp xs)"
  by (induction xs) (auto intro: sorted_insert_by)

lemma hd_sort_by_least: "x \<in> set xs \<Longrightarrow> cmp (hd (sort_by cmp xs)) x \<le> 0"
proof -
  assume x: "x \<in> set xs"
  obtain y ys where s: "sort_by cmp xs = y # ys"
    using x by (cases "sort_by cmp xs") auto
  have "x \<in> set (y # ys)" using x by (simp flip: s)
  moreover have "cmp y y \<le> 0" using cmp_total [of y y] by blast
  ultimately show ?thesis using sorted_sort_by [of xs] by (auto simp: s)
qed

text \<open>What a prefix of the sorted list takes is below everything it leaves.\<close>

lemma take_sort_by_least:
  assumes "x \<in> set (take n (sort_by cmp xs))" "y \<in> set (drop n (sort_by cmp xs))"
  shows "cmp x y \<le> 0"
proof -
  have "sorted_wrt (\<lambda>x y. cmp x y \<le> 0) (take n (sort_by cmp xs) @ drop n (sort_by cmp xs))"
    by (simp add: sorted_sort_by)
  then show ?thesis using assms by (simp only: sorted_wrt_append)
qed

end

locale keyed_comparator = comparator +
  fixes key :: "'a \<Rightarrow> 'k"
  assumes cmp_key: "cmp x y = 0 \<Longrightarrow> key x = key y"
begin

lemma sorted_mset_unique:
  assumes "sorted_wrt (\<lambda>x y. cmp x y \<le> 0) xs" "sorted_wrt (\<lambda>x y. cmp x y \<le> 0) ys"
    and "mset xs = mset ys" "distinct (map key xs)"
  shows "xs = ys"
  using assms
proof (induction xs arbitrary: ys)
  case (Cons x xs)
  from Cons.prems(3) obtain y ys' where ys: "ys = y # ys'" by (cases ys) auto
  have x: "x \<in> set ys" and y: "y \<in> set (x # xs)"
    using mset_eq_setD [OF Cons.prems(3)] by (auto simp: ys)
  have "x = y"
  proof (rule ccontr)
    assume ne: "x \<noteq> y"
    with x y have "x \<in> set ys'" "y \<in> set xs" by (auto simp: ys)
    then have "cmp x y \<le> 0" "cmp y x \<le> 0" using Cons.prems(1,2) by (auto simp: ys)
    then have "key x = key y" using cmp_antisym [of y x] by (intro cmp_key) linarith
    moreover have "key x \<notin> key ` set xs" using Cons.prems(4) by simp
    ultimately show False using \<open>y \<in> set xs\<close> by auto
  qed
  with Cons.prems show ?case by (auto simp: ys intro: Cons.IH)
qed simp

theorem sort_by_perm_invariant:
  assumes "mset xs = mset ys" "distinct (map key xs)"
  shows "sort_by cmp xs = sort_by cmp ys"
proof (rule sorted_mset_unique [OF sorted_sort_by sorted_sort_by])
  show "mset (sort_by cmp xs) = mset (sort_by cmp ys)" using assms(1) by simp
  have "mset (map key (sort_by cmp xs)) = mset (map key xs)" by simp
  then show "distinct (map key (sort_by cmp xs))"
    using assms(2) by (metis mset_eq_imp_distinct_iff)
qed

end

subsection \<open>Components that keep an invariant\<close>

text \<open>
  A component is a state and operations on it; which operation comes next is up to its callers. The
  laws say that a state can start the component and that one operation keeps the invariant.
\<close>

locale guarded_component =
  fixes initial :: "'s \<Rightarrow> bool"
    and apply_op :: "'op \<Rightarrow> 's \<Rightarrow> 's"
    and inv :: "'s \<Rightarrow> bool"
  assumes initial_inv: "initial s \<Longrightarrow> inv s"
    and apply_inv: "inv s \<Longrightarrow> inv (apply_op op s)"
begin

lemma run_inv: "inv s \<Longrightarrow> inv (fold apply_op ops s)"
  by (induction ops arbitrary: s) (auto intro: apply_inv)

lemma reachable_inv: "initial s \<Longrightarrow> inv (fold apply_op ops s)"
  by (rule run_inv) (rule initial_inv)

end

end
