(* ===== verification/Identifier.thy ===== *)
theory Identifier
  imports Bsb_Prelude
begin

text \<open>
  \<open>internal/identifier/identifier.go\<close>: validation of identifiers at trust boundaries and the encoding
  of an identity as one string. The parts of Go's \<open>unicode/utf8\<close>, \<open>unicode\<close>, \<open>strings\<close> and \<open>net/url\<close>
  that the code calls are modelled over byte strings. The main results are that \<open>Encode\<close> is
  injective on all part lists, and that a prefix of an encoded identity up to a separator names
  exactly the first parts.
\<close>

subsection \<open>Runes of a byte string\<close>

datatype rune = Rune nat | BadByte

text \<open>\<open>utf8.DecodeRuneInString\<close>: the first rune and its width; an invalid encoding is one bad byte.\<close>

definition cont_byte :: "nat \<Rightarrow> nat \<Rightarrow> nat \<Rightarrow> bool" where
  "cont_byte lo hi b \<longleftrightarrow> lo \<le> b \<and> b \<le> hi"

fun DecodeRune :: "nat list \<Rightarrow> rune \<times> nat" where
  "DecodeRune [] = (BadByte, 0)"
| "DecodeRune (b0 # bs) =
     (if b0 < 128 then (Rune b0, 1)
      else if 194 \<le> b0 \<and> b0 \<le> 223 then
        (case bs of b1 # _ \<Rightarrow>
           if cont_byte 128 191 b1 then (Rune ((b0 - 192) * 64 + (b1 - 128)), 2) else (BadByte, 1)
         | _ \<Rightarrow> (BadByte, 1))
      else if 224 \<le> b0 \<and> b0 \<le> 239 then
        (case bs of b1 # b2 # _ \<Rightarrow>
           if cont_byte (if b0 = 224 then 160 else 128) (if b0 = 237 then 159 else 191) b1
              \<and> cont_byte 128 191 b2
           then (Rune ((b0 - 224) * 4096 + (b1 - 128) * 64 + (b2 - 128)), 3) else (BadByte, 1)
         | _ \<Rightarrow> (BadByte, 1))
      else if 240 \<le> b0 \<and> b0 \<le> 244 then
        (case bs of b1 # b2 # b3 # _ \<Rightarrow>
           if cont_byte (if b0 = 240 then 144 else 128) (if b0 = 244 then 143 else 191) b1
              \<and> cont_byte 128 191 b2 \<and> cont_byte 128 191 b3
           then (Rune ((b0 - 240) * 262144 + (b1 - 128) * 4096 + (b2 - 128) * 64 + (b3 - 128)), 4)
           else (BadByte, 1)
         | _ \<Rightarrow> (BadByte, 1))
      else (BadByte, 1))"

lemma DecodeRune_width: "bs \<noteq> [] \<Longrightarrow> 0 < snd (DecodeRune bs)"
  by (cases bs) (auto split: list.splits)

function runes :: "nat list \<Rightarrow> rune list" where
  "runes bs = (if bs = [] then [] else fst (DecodeRune bs) # runes (drop (snd (DecodeRune bs)) bs))"
  by pat_completeness auto
termination
  by (relation "measure length") (use DecodeRune_width in auto)

declare runes.simps [simp del]

definition bytes_of :: "string \<Rightarrow> nat list" where
  "bytes_of s = map of_char s"

definition ValidString :: "string \<Rightarrow> bool" where
  "ValidString s \<longleftrightarrow> BadByte \<notin> set (runes (bytes_of s))"

text \<open>\<open>unicode.IsSpace\<close> and \<open>unicode.IsControl\<close>; an invalid byte is ranged over as U+FFFD.\<close>

fun IsSpace :: "rune \<Rightarrow> bool" where
  "IsSpace BadByte = False"
| "IsSpace (Rune r) =
     (r \<in> {9, 10, 11, 12, 13, 32, 133, 160, 5760, 8232, 8233, 8239, 8287, 12288}
      \<or> (8192 \<le> r \<and> r \<le> 8202))"

fun IsControl :: "rune \<Rightarrow> bool" where
  "IsControl BadByte = False"
| "IsControl (Rune r) = (r < 32 \<or> (127 \<le> r \<and> r < 160))"

text \<open>\<open>strings.TrimSpace(s) == ""\<close>: nothing but white space.\<close>

definition blank_string :: "string \<Rightarrow> bool" where
  "blank_string s \<longleftrightarrow> list_all IsSpace (runes (bytes_of s))"

subsection \<open>Validate\<close>

datatype identifier_error = EmptyIdentifier | IdentifierTooLong | IdentifierNotUTF8 | IdentifierControl

definition MaxBytes :: nat where "MaxBytes = 128"

definition Validate :: "string \<Rightarrow> identifier_error option" where
  "Validate v =
     (if blank_string v then Some EmptyIdentifier
      else if length v > MaxBytes then Some IdentifierTooLong
      else if \<not> ValidString v then Some IdentifierNotUTF8
      else if list_ex IsControl (runes (bytes_of v)) then Some IdentifierControl
      else None)"

subsection \<open>Encode\<close>

text \<open>\<open>url.PathEscape\<close>: the bytes a path segment keeps, and \<open>%XY\<close> for every other byte.\<close>

definition unreserved :: "char list" where
  "unreserved = ''abcdefghijklmnopqrstuvwxyzABCDEFGHIJKLMNOPQRSTUVWXYZ0123456789-_.~$&+:=@''"

definition shouldEscape :: "char \<Rightarrow> bool" where
  "shouldEscape c \<longleftrightarrow> c \<notin> set unreserved"

definition upperhex :: "nat \<Rightarrow> char" where
  "upperhex n = ''0123456789ABCDEF'' ! n"

definition escape_byte :: "char \<Rightarrow> string" where
  "escape_byte c =
     (if shouldEscape c
      then [CHR ''%'', upperhex (of_char c div 16), upperhex (of_char c mod 16)]
      else [c])"

definition PathEscape :: "string \<Rightarrow> string" where
  "PathEscape s = concat (map escape_byte s)"

fun join_slash :: "string list \<Rightarrow> string" where
  "join_slash [] = ''''"
| "join_slash [p] = p"
| "join_slash (p # q # ps) = p @ CHR ''/'' # join_slash (q # ps)"

definition Encode :: "string list \<Rightarrow> string option" where
  "Encode parts = (if parts = [] then None else Some (join_slash (map PathEscape parts)))"

subsection \<open>The encoding is injective\<close>

lemma char_parts_bound: "(of_char c :: nat) div 16 < 16" "(of_char c :: nat) mod 16 < 16"
proof -
  have "(of_char c :: nat) < 256" by simp
  then show "(of_char c :: nat) div 16 < 16" by (simp add: div_less_iff_less_mult)
qed simp

lemma upperhex_inject: "m < 16 \<Longrightarrow> n < 16 \<Longrightarrow> upperhex m = upperhex n \<longleftrightarrow> m = n"
  unfolding upperhex_def by (subst nth_eq_iff_index_eq) auto

lemma escape_hex_inject:
  assumes "upperhex (of_char c div 16) = upperhex (of_char d div 16)"
    and "upperhex (of_char c mod 16) = upperhex (of_char d mod 16)"
  shows "c = d"
proof -
  have "(of_char c :: nat) div 16 = of_char d div 16" "(of_char c :: nat) mod 16 = of_char d mod 16"
    using assms by (simp_all add: upperhex_inject char_parts_bound)
  then have "(of_char c :: nat) = of_char d" by (metis div_mult_mod_eq)
  then show ?thesis by simp
qed

lemma shouldEscape_reserved: "shouldEscape (CHR ''%'')" "shouldEscape (CHR ''/'')"
  by (simp_all add: shouldEscape_def unreserved_def)

text \<open>The escapes of single bytes form a prefix code.\<close>

lemma escape_byte_prefix_code:
  "escape_byte c @ xs = escape_byte d @ ys \<Longrightarrow> c = d \<and> xs = ys"
  using shouldEscape_reserved
  by (auto simp: escape_byte_def split: if_splits dest: escape_hex_inject)

lemma escape_byte_nonempty: "escape_byte c \<noteq> []"
  by (simp add: escape_byte_def)

lemma PathEscape_simps [simp]:
  "PathEscape [] = []" "PathEscape (c # s) = escape_byte c @ PathEscape s"
  by (simp_all add: PathEscape_def)

lemma PathEscape_inject: "PathEscape s = PathEscape t \<longleftrightarrow> s = t"
proof
  assume "PathEscape s = PathEscape t"
  then show "s = t"
  proof (induction s arbitrary: t)
    case Nil
    then show ?case by (cases t) (auto simp: escape_byte_nonempty)
  next
    case (Cons c s)
    then obtain d t' where t: "t = d # t'" by (cases t) (auto simp: escape_byte_nonempty)
    with Cons.prems have "c = d \<and> PathEscape s = PathEscape t'"
      by (auto dest: escape_byte_prefix_code)
    with Cons.IH t show ?case by simp
  qed
qed simp

lemma upperhex_no_slash: "n < 16 \<Longrightarrow> upperhex n \<noteq> CHR ''/''"
proof -
  assume "n < 16"
  then have "upperhex n \<in> set ''0123456789ABCDEF''"
    unfolding upperhex_def by (intro nth_mem) simp
  then show ?thesis by auto
qed

lemma PathEscape_no_slash: "CHR ''/'' \<notin> set (PathEscape s)"
proof (induction s)
  case (Cons c s)
  have "CHR ''/'' \<notin> set (escape_byte c)"
    using upperhex_no_slash [OF char_parts_bound(1)] upperhex_no_slash [OF char_parts_bound(2)]
      shouldEscape_reserved(2)
    by (auto simp: escape_byte_def) metis+
  with Cons show ?case by simp
qed simp

lemma split_at_slash:
  assumes "CHR ''/'' \<notin> set p" "CHR ''/'' \<notin> set q"
  shows "p @ CHR ''/'' # xs = q @ CHR ''/'' # ys \<longleftrightarrow> p = q \<and> xs = ys"
  using assms by (auto simp: append_eq_append_conv2 Cons_eq_append_conv append_eq_Cons_conv)

lemma join_slash_inject:
  assumes "ps \<noteq> []" "qs \<noteq> []"
    and "\<And>p. p \<in> set ps \<Longrightarrow> CHR ''/'' \<notin> set p" "\<And>q. q \<in> set qs \<Longrightarrow> CHR ''/'' \<notin> set q"
    and "join_slash ps = join_slash qs"
  shows "ps = qs"
  using assms
proof (induction ps arbitrary: qs rule: join_slash.induct)
  case (2 p)
  then show ?case by (cases qs rule: join_slash.cases) auto
next
  case (3 p q ps)
  have p: "CHR ''/'' \<notin> set p" using "3.prems"(3) by simp
  show ?case
  proof (cases qs rule: join_slash.cases)
    case (2 a)
    then show ?thesis using "3.prems"(4,5) by auto
  next
    case (3 a b cs)
    then have "p = a \<and> join_slash (q # ps) = join_slash (b # cs)"
      using "3.prems"(4,5) p by (simp add: split_at_slash)
    moreover have "q # ps = b # cs"
      using "3.prems"(3,4) 3 calculation by (intro "3.IH") auto
    ultimately show ?thesis using 3 by simp
  qed (use "3.prems" in simp)
qed simp

lemma Encode_inject_aux:
  assumes "Encode ps = Some s" "Encode qs = Some s"
  shows "ps = qs"
proof -
  have "map PathEscape ps = map PathEscape qs"
    using assms PathEscape_no_slash
    by (intro join_slash_inject) (auto simp: Encode_def split: if_splits)
  moreover have "inj PathEscape" by (simp add: inj_def PathEscape_inject)
  ultimately show ?thesis by (simp add: inj_map_eq_map)
qed

lemma join_slash_prefix2:
  "prefix (join_slash (map PathEscape [p, i]) @ [CHR ''/'']) (join_slash (map PathEscape (p' # i' # q # qs)))
     \<longleftrightarrow> p = p' \<and> i = i'"
  using PathEscape_no_slash by (auto simp: prefix_def split_at_slash PathEscape_inject)

text \<open>The encoding of identifier parts is injective: two lists of parts have the same encoded
  string only if they are the same list, whatever bytes the parts contain (slashes, percent signs and
  empty parts included). Only the empty list has no encoding.\<close>

theorem encode_injective: "Encode ps = Encode qs \<longleftrightarrow> ps = qs"
proof
  assume eq: "Encode ps = Encode qs"
  show "ps = qs"
  proof (cases "Encode ps")
    case None
    then show ?thesis using eq by (auto simp: Encode_def split: if_splits)
  next
    case (Some s)
    then show ?thesis using eq by (auto intro: Encode_inject_aux)
  qed
qed simp

text \<open>The prefix test by which the daemon finds what belongs to one plugin instance is exact: the
  encoded plugin and instance followed by a slash is a prefix of a longer encoded identifier exactly
  when that identifier has the same plugin and instance. No name can be chosen so that one instance
  reaches into another one's state.\<close>

theorem encode_scope_exact:
  "prefix (the (Encode [p, i]) @ ''/'') (the (Encode (p' # i' # q # qs))) \<longleftrightarrow> p = p' \<and> i = i'"
  using join_slash_prefix2 [of p i p' i' q qs] by (simp add: Encode_def)

end
