(* ===== verification/Protocol.thy ===== *)
theory Protocol
  imports Identifier
begin

text \<open>
  \<open>sdk/protocol\<close>: the observations, scenes and session inputs that cross the plugin boundary, with
  their validation. A Go string type with named constants is a datatype with one constructor per
  constant and one for every other string; a pointer field is an option. A \<open>Validate\<close> method is the
  list of the checks that fail, in the order of the code (\<open>errors.Join\<close> of an empty list is nil), so
  that a value is accepted exactly when the list is empty.
\<close>

subsection \<open>Identifiers and timestamps (validation.go)\<close>

definition validateIdentifier :: "string \<Rightarrow> identifier_error option" where
  "validateIdentifier v =
     (if blank_string v then Some EmptyIdentifier
      else if length v > 128 then Some IdentifierTooLong
      else if \<not> ValidString v then Some IdentifierNotUTF8
      else if list_ex IsControl (runes (bytes_of v)) then Some IdentifierControl
      else None)"

datatype timestamp_error = TimestampMissing | TimestampNotUTC

definition validateOptionalTimestamp :: "gotime \<Rightarrow> timestamp_error option" where
  "validateOptionalTimestamp t =
     (if is_zero_time t then None
      else if zone_offset t \<noteq> 0 then Some TimestampNotUTC else None)"

definition validateRequiredTimestamp :: "gotime \<Rightarrow> timestamp_error option" where
  "validateRequiredTimestamp t =
     (if is_zero_time t then Some TimestampMissing else validateOptionalTimestamp t)"

definition countTrue :: "bool list \<Rightarrow> nat" where
  "countTrue bs = length (filter id bs)"

definition MaxSceneElements :: nat where "MaxSceneElements = 64"
definition MaxTextBytes :: nat where "MaxTextBytes = 512"
definition MaxBusyTimerDuration :: int where "MaxBusyTimerDuration = 24 * hour"
definition MaxSessionInputBytes :: nat where "MaxSessionInputBytes = 16384"

subsection \<open>Patterns (observations.go)\<close>

definition lower_alnum :: "char list" where "lower_alnum = ''abcdefghijklmnopqrstuvwxyz0123456789''"
definition upper_alpha :: "char list" where "upper_alpha = ''ABCDEFGHIJKLMNOPQRSTUVWXYZ''"

text \<open>One character of the first class, then at most \<open>n\<close> of the second.\<close>

fun match_head_tail :: "char list \<Rightarrow> char list \<Rightarrow> nat \<Rightarrow> string \<Rightarrow> bool" where
  "match_head_tail h t n [] = False"
| "match_head_tail h t n (c # cs) = (c \<in> set h \<and> length cs \<le> n \<and> set cs \<subseteq> set t)"

definition reasonCodePattern :: "string \<Rightarrow> bool" where
  "reasonCodePattern = match_head_tail lower_alnum (lower_alnum @ ''._-'') 63"

definition themePattern :: "string \<Rightarrow> bool" where
  "themePattern = match_head_tail lower_alnum (lower_alnum @ ''_-'') 63"

definition stockNamePattern :: "string \<Rightarrow> bool" where
  "stockNamePattern v \<longleftrightarrow>
     list_ex (\<lambda>ext. suffix ext v \<and>
       match_head_tail lower_alnum (lower_alnum @ ''_-'') 54 (take (length v - length ext) v))
     [''.image'', ''.anim'', ''.snd'']"

definition relativeAssetPathPattern :: "string \<Rightarrow> bool" where
  "relativeAssetPathPattern v =
     match_head_tail (upper_alpha @ lower_alnum) (upper_alpha @ lower_alnum @ ''._/-'') (length v) v"

definition colorPattern :: "string \<Rightarrow> bool" where
  "colorPattern v \<longleftrightarrow>
     (case v of [] \<Rightarrow> False
      | c # cs \<Rightarrow> c = CHR ''#'' \<and> length cs = 8 \<and> set cs \<subseteq> set ''ABCDEFabcdef0123456789'')"

subsection \<open>Assets (presentation.go)\<close>

text \<open>\<open>path.Clean\<close> of the Go library, over the segments between slashes.\<close>

fun split_slash :: "string \<Rightarrow> string list" where
  "split_slash [] = [[]]"
| "split_slash (c # cs) =
     (if c = CHR ''/'' then [] # split_slash cs
      else (case split_slash cs of [] \<Rightarrow> [[c]] | p # ps \<Rightarrow> (c # p) # ps))"

fun clean_segments :: "bool \<Rightarrow> string list \<Rightarrow> string list \<Rightarrow> string list" where
  "clean_segments rooted out [] = rev out"
| "clean_segments rooted out (p # ps) =
     (if p = '''' \<or> p = ''.'' then clean_segments rooted out ps
      else if p = ''..'' then
        (case out of q # qs \<Rightarrow>
           if q \<noteq> ''..'' then clean_segments rooted qs ps else clean_segments rooted (p # out) ps
         | [] \<Rightarrow> clean_segments rooted (if rooted then [] else [p]) ps)
      else clean_segments rooted (p # out) ps)"

definition path_Clean :: "string \<Rightarrow> string" where
  "path_Clean v =
     (let rooted = (take 1 v = ''/''); body = join_slash (clean_segments rooted [] (split_slash v))
      in if rooted then CHR ''/'' # body else if body = '''' then ''.'' else body)"

record AssetRef =
  PackagePath :: string
  StockName :: string

datatype presentation_error =
  PackagePathInvalid | AssetNotExactlyOne | StockNameInvalid | AudioNeedsStock | StockExtension
| BadIdentifier identifier_error | BadTimestamp timestamp_error | AudioExpired | AudioOutlives
| SceneSize | DuplicateElement | BadDisplay | OutOfBounds | NotOnePayload | TextTooLong
| MarqueeSpeed | BadFont | BadColor | BadAlign | BadWidth | BadRectangle | CountdownPast | BadShowHours

definition ValidatePackagePath :: "string \<Rightarrow> presentation_error list" where
  "ValidatePackagePath v =
     (if length v > 255 \<or> path_Clean v \<noteq> v \<or> prefix ''/'' v \<or> CHR 92 \<in> set v
         \<or> \<not> relativeAssetPathPattern v
      then [PackagePathInvalid] else [])"

definition asset_Validate :: "AssetRef \<Rightarrow> presentation_error list" where
  "asset_Validate a =
     (if (PackagePath a = '''') = (StockName a = '''') then [AssetNotExactlyOne]
      else if PackagePath a \<noteq> '''' then ValidatePackagePath (PackagePath a)
      else if \<not> stockNamePattern (StockName a) then [StockNameInvalid] else [])"

subsection \<open>Scenes (presentation.go)\<close>

datatype Display = DisplayFront | DisplayBack | OtherDisplay string
datatype CountdownShowHours = ShowHoursWhenNonZero | ShowHoursAlways | OtherShowHours string

record Marquee =
  PixelsPerMinute :: "32 word"
  StartDelayMilliseconds :: "32 word"
  RepeatDelayMilliseconds :: "32 word"

record TextElement =
  text_Value :: string
  text_Font :: string
  text_Color :: string
  text_Align :: string
  text_Width :: int
  text_Marquee :: "Marquee option"

record AnimationElement =
  anim_Asset :: AssetRef
  anim_Loop :: bool

record RectangleElement =
  rect_Width :: int
  rect_Height :: int
  rect_Color :: string

record CountdownElement =
  EndsAtUnixSeconds :: int
  ShowHours :: CountdownShowHours
  countdown_Color :: string
  countdown_Align :: string

record Element =
  el_ID :: string
  el_Display :: Display
  el_X :: int
  el_Y :: int
  el_Text :: "TextElement option"
  el_Image :: "AssetRef option"
  el_Animation :: "AnimationElement option"
  el_Rectangle :: "RectangleElement option"
  el_Countdown :: "CountdownElement option"

type_synonym Scene = "Element list"

definition identifier_errors :: "string \<Rightarrow> presentation_error list" where
  "identifier_errors v = (case validateIdentifier v of None \<Rightarrow> [] | Some e \<Rightarrow> [BadIdentifier e])"

definition required_time_errors :: "gotime \<Rightarrow> presentation_error list" where
  "required_time_errors t = (case validateRequiredTimestamp t of None \<Rightarrow> [] | Some e \<Rightarrow> [BadTimestamp e])"

definition validFont :: "string \<Rightarrow> bool" where
  "validFont v \<longleftrightarrow> v \<in> {''tiny'', ''small'', ''normal'', ''condensed'', ''bold'', ''large'', ''extra_large'', ''global''}"

definition validAlign :: "string \<Rightarrow> bool" where
  "validAlign v \<longleftrightarrow> v \<in> {'''', ''top_left'', ''top_mid'', ''top_right'', ''mid_left'', ''center'',
     ''mid_right'', ''bottom_left'', ''bottom_mid'', ''bottom_right''}"

definition display_size :: "Display \<Rightarrow> int \<times> int" where
  "display_size d = (if d = DisplayBack then (160, 80) else (72, 16))"

definition require :: "bool \<Rightarrow> presentation_error \<Rightarrow> presentation_error list" where
  "require ok e = (if ok then [] else [e])"

definition placement_errors :: "Element \<Rightarrow> presentation_error list" where
  "placement_errors el =
     (if el_Display el \<noteq> DisplayFront \<and> el_Display el \<noteq> DisplayBack then [BadDisplay]
      else let (width, height) = display_size (el_Display el)
           in require (0 \<le> el_X el \<and> el_X el < width \<and> 0 \<le> el_Y el \<and> el_Y el < height) OutOfBounds)"

definition text_errors :: "TextElement \<Rightarrow> presentation_error list" where
  "text_errors t =
     require (length (text_Value t) \<le> MaxTextBytes \<and> ValidString (text_Value t)) TextTooLong
     @ (case text_Marquee t of None \<Rightarrow> [] | Some m \<Rightarrow> require (PixelsPerMinute m \<noteq> 0) MarqueeSpeed)
     @ require (validFont (text_Font t)) BadFont
     @ require (text_Color t = '''' \<or> colorPattern (text_Color t)) BadColor
     @ require (validAlign (text_Align t)) BadAlign
     @ require (0 \<le> text_Width t \<and> text_Width t \<le> 2 ^ 32 - 1) BadWidth"

definition asset_errors :: "string \<Rightarrow> AssetRef \<Rightarrow> presentation_error list" where
  "asset_errors ext a =
     (case asset_Validate a of
        [] \<Rightarrow> require (StockName a = '''' \<or> suffix ext (StockName a)) StockExtension
      | es \<Rightarrow> es)"

definition rectangle_errors :: "RectangleElement \<Rightarrow> presentation_error list" where
  "rectangle_errors r =
     require (0 < rect_Width r \<and> rect_Width r \<le> 2 ^ 31 - 1
              \<and> 0 < rect_Height r \<and> rect_Height r \<le> 2 ^ 31 - 1) BadRectangle
     @ require (colorPattern (rect_Color r)) BadColor"

definition countdown_errors :: "CountdownElement \<Rightarrow> presentation_error list" where
  "countdown_errors c =
     require (0 < EndsAtUnixSeconds c) CountdownPast
     @ require (ShowHours c = ShowHoursWhenNonZero \<or> ShowHours c = ShowHoursAlways) BadShowHours
     @ require (colorPattern (countdown_Color c)) BadColor
     @ require (validAlign (countdown_Align c)) BadAlign"

definition optional :: "('a \<Rightarrow> 'e list) \<Rightarrow> 'a option \<Rightarrow> 'e list" where
  "optional f p = (case p of None \<Rightarrow> [] | Some x \<Rightarrow> f x)"

definition element_Validate :: "Element \<Rightarrow> presentation_error list" where
  "element_Validate el =
     identifier_errors (el_ID el)
     @ placement_errors el
     @ require (countTrue [el_Text el \<noteq> None, el_Image el \<noteq> None, el_Animation el \<noteq> None,
          el_Rectangle el \<noteq> None, el_Countdown el \<noteq> None] = 1) NotOnePayload
     @ optional text_errors (el_Text el)
     @ optional (asset_errors ''.image'') (el_Image el)
     @ optional (\<lambda>a. asset_errors ''.anim'' (anim_Asset a)) (el_Animation el)
     @ optional rectangle_errors (el_Rectangle el)
     @ optional countdown_errors (el_Countdown el)"

text \<open>The loop over the elements keeps the set of the identifiers it has seen.\<close>

fun scene_loop :: "string set \<Rightarrow> Element list \<Rightarrow> presentation_error list" where
  "scene_loop ids [] = []"
| "scene_loop ids (el # els) =
     element_Validate el @ require (el_ID el \<notin> ids) DuplicateElement
     @ scene_loop (insert (el_ID el) ids) els"

definition scene_Validate :: "Scene \<Rightarrow> presentation_error list" where
  "scene_Validate s =
     (if length s = 0 \<or> length s > MaxSceneElements then [SceneSize] else scene_loop {} s)"

record AudioCue =
  audio_ID :: string
  audio_Asset :: AssetRef
  audio_ExpiresAt :: gotime

definition audio_Validate :: "AudioCue \<Rightarrow> gotime \<Rightarrow> gotime \<Rightarrow> presentation_error list" where
  "audio_Validate a now validUntil =
     identifier_errors (audio_ID a)
     @ (case asset_Validate (audio_Asset a) of
          [] \<Rightarrow> if PackagePath (audio_Asset a) \<noteq> '''' then [AudioNeedsStock]
               else require (StockName (audio_Asset a) = '''' \<or> suffix ''.snd'' (StockName (audio_Asset a)))
                      StockExtension
        | es \<Rightarrow> es)
     @ (case required_time_errors (audio_ExpiresAt a) of
          [] \<Rightarrow> require (is_zero_time now \<or> time_after (audio_ExpiresAt a) now) AudioExpired
               @ require (is_zero_time validUntil \<or> \<not> time_after (audio_ExpiresAt a) validUntil) AudioOutlives
        | es \<Rightarrow> es)"

subsection \<open>Observations (observations.go)\<close>

record InstanceRef =
  ref_ID :: string
  ref_Generation :: u64

datatype Disposition = DispositionSnapshot | DispositionNotable | DispositionActionable
  | DispositionResolved | OtherDisposition string

datatype Impact = ImpactLow | ImpactNormal | ImpactNotable | ImpactCritical | OtherImpact string

record Observation =
  obs_Instance :: InstanceRef
  obs_Channel :: string
  obs_Key :: string
  obs_Revision :: u64
  obs_Disposition :: Disposition
  obs_Impact :: Impact
  obs_ReasonCode :: string
  obs_ObservedAt :: gotime
  obs_UpdatedAt :: gotime
  obs_ValidUntil :: gotime
  obs_Scene :: "Scene option"
  obs_BusyTimer :: "string option"
  obs_Audio :: "AudioCue option"

datatype observation_error =
  InstanceGeneration | BadName identifier_error | RevisionZero | UnsupportedDisposition
| UnsupportedImpact | BadReasonCode | BadTime timestamp_error | ResolvedPresentation
| ValidUntilPast | NotOnePresentation | BadPresentation presentation_error | BadTheme | TimerTooLong

fun supported_disposition :: "Disposition \<Rightarrow> bool" where
  "supported_disposition (OtherDisposition _) = False"
| "supported_disposition _ = True"

fun supported_impact :: "Impact \<Rightarrow> bool" where
  "supported_impact (OtherImpact _) = False"
| "supported_impact _ = True"

definition demand :: "bool \<Rightarrow> observation_error \<Rightarrow> observation_error list" where
  "demand ok e = (if ok then [] else [e])"

definition name_errors :: "string \<Rightarrow> observation_error list" where
  "name_errors v = (case validateIdentifier v of None \<Rightarrow> [] | Some e \<Rightarrow> [BadName e])"

definition time_errors :: "gotime \<Rightarrow> observation_error list" where
  "time_errors t = (case validateRequiredTimestamp t of None \<Rightarrow> [] | Some e \<Rightarrow> [BadTime e])"

definition ref_Validate :: "InstanceRef \<Rightarrow> observation_error list" where
  "ref_Validate r =
     (case name_errors (ref_ID r) of [] \<Rightarrow> demand (ref_Generation r \<noteq> 0) InstanceGeneration | es \<Rightarrow> es)"

definition unresolved_errors :: "Observation \<Rightarrow> gotime \<Rightarrow> observation_error list" where
  "unresolved_errors v now =
     (case time_errors (obs_ValidUntil v) of
        [] \<Rightarrow> demand (time_after (obs_ValidUntil v) now) ValidUntilPast
      | es \<Rightarrow> es)
     @ demand ((obs_Scene v = None) \<noteq> (obs_BusyTimer v = None)) NotOnePresentation
     @ optional (\<lambda>s. map BadPresentation (scene_Validate s)) (obs_Scene v)
     @ optional (\<lambda>theme. demand (themePattern theme) BadTheme
          @ demand (time_sub (obs_ValidUntil v) now \<le> MaxBusyTimerDuration) TimerTooLong) (obs_BusyTimer v)
     @ optional (\<lambda>a. map BadPresentation (audio_Validate a now (obs_ValidUntil v))) (obs_Audio v)"

definition observation_Validate :: "Observation \<Rightarrow> gotime \<Rightarrow> observation_error list" where
  "observation_Validate v now =
     ref_Validate (obs_Instance v)
     @ name_errors (obs_Channel v) @ name_errors (obs_Key v)
     @ demand (obs_Revision v \<noteq> 0) RevisionZero
     @ demand (supported_disposition (obs_Disposition v)) UnsupportedDisposition
     @ demand (supported_impact (obs_Impact v)) UnsupportedImpact
     @ demand (reasonCodePattern (obs_ReasonCode v)) BadReasonCode
     @ time_errors (obs_ObservedAt v) @ time_errors (obs_UpdatedAt v)
     @ (if obs_Disposition v = DispositionResolved
        then demand (obs_Scene v = None \<and> obs_BusyTimer v = None \<and> obs_Audio v = None) ResolvedPresentation
        else unresolved_errors v now)"

subsection \<open>Session input (input.go, validation.go)\<close>

datatype Button = ButtonOK | ButtonBack | ButtonStart | OtherButton string
datatype ButtonAction = ButtonPress | ButtonRelease | OtherButtonAction string

record ButtonInput =
  bi_Button :: Button
  bi_Action :: ButtonAction

record SessionInput =
  in_Button :: "ButtonInput option"
  in_Encoder :: "int option" \<comment> \<open>the delta, an \<open>int32\<close>\<close>

record SessionInputRequest =
  req_Sequence :: u64
  req_OccurredAt :: gotime
  req_Instance :: InstanceRef
  req_SessionToken :: string
  req_Input :: SessionInput

datatype SessionInputDisposition = SessionInputConsumed | SessionInputNotConsumed | OtherInputDisposition string

datatype input_error =
  SequenceZero | BadRequestPart observation_error | NotOneInput | UnsupportedButton | UnsupportedAction
| EncoderZero | UnencodableInput | InputTooLarge | UnsupportedInputDisposition

definition result_Validate :: "SessionInputDisposition \<Rightarrow> input_error option" where
  "result_Validate d =
     (case d of SessionInputConsumed \<Rightarrow> None | SessionInputNotConsumed \<Rightarrow> None
      | OtherInputDisposition _ \<Rightarrow> Some UnsupportedInputDisposition)"

definition input_Validate :: "SessionInput \<Rightarrow> input_error option" where
  "input_Validate i =
     (if (in_Button i = None) = (in_Encoder i = None) then Some NotOneInput
      else case in_Button i of
        Some b \<Rightarrow>
          (case bi_Button b of OtherButton _ \<Rightarrow> Some UnsupportedButton
           | _ \<Rightarrow> (case bi_Action b of OtherButtonAction _ \<Rightarrow> Some UnsupportedAction | _ \<Rightarrow> None))
      | None \<Rightarrow> if in_Encoder i = Some 0 then Some EncoderZero else None)"

definition validateSessionRequest :: "InstanceRef \<Rightarrow> string \<Rightarrow> observation_error list" where
  "validateSessionRequest r token = ref_Validate r @ name_errors token"

text \<open>\<open>wire\<close> is the length of \<open>json.Marshal\<close> of the request, None where marshalling fails.\<close>

definition request_Validate ::
  "(SessionInputRequest \<Rightarrow> nat option) \<Rightarrow> SessionInputRequest \<Rightarrow> input_error list" where
  "request_Validate wire r =
     (if req_Sequence r = 0 then [SequenceZero] else [])
     @ map BadRequestPart (time_errors (req_OccurredAt r))
     @ map BadRequestPart (validateSessionRequest (req_Instance r) (req_SessionToken r))
     @ (case input_Validate (req_Input r) of None \<Rightarrow> [] | Some e \<Rightarrow> [e])
     @ (case wire r of None \<Rightarrow> [UnencodableInput]
        | Some n \<Rightarrow> if n > MaxSessionInputBytes then [InputTooLarge] else [])"

subsection \<open>What an accepted value satisfies\<close>

named_theorems validation \<comment> \<open>unfolds the lists of failed checks\<close>

lemmas [validation] = require_def demand_def optional_def identifier_errors_def name_errors_def
  time_errors_def required_time_errors_def

text \<open>Unfolds every check of a concrete value, for evaluation by the simplifier.\<close>

lemmas validate_eval = observation_Validate_def unresolved_errors_def ref_Validate_def require_def demand_def
  optional_def identifier_errors_def name_errors_def time_errors_def required_time_errors_def
  validateIdentifier_def blank_string_def ValidString_def bytes_of_def runes.simps
  validateRequiredTimestamp_def validateOptionalTimestamp_def reasonCodePattern_def themePattern_def
  lower_alnum_def MaxBusyTimerDuration_def hour_def element_Validate_def placement_errors_def display_size_def
  countTrue_def text_errors_def colorPattern_def validFont_def validAlign_def rectangle_errors_def
  MaxTextBytes_def MaxSceneElements_def

lemma validateIdentifier_eq: "validateIdentifier v = Identifier.Validate v"
  by (simp add: validateIdentifier_def Identifier.Validate_def MaxBytes_def)

lemma validateIdentifier_None:
  "validateIdentifier v = None \<longleftrightarrow>
     \<not> blank_string v \<and> length v \<le> 128 \<and> ValidString v \<and> \<not> list_ex IsControl (runes (bytes_of v))"
  by (auto simp: validateIdentifier_def)

lemma blank_Nil: "blank_string []"
  by (simp add: blank_string_def bytes_of_def runes.simps)

lemma valid_identifier_nonempty: "validateIdentifier v = None \<Longrightarrow> v \<noteq> []"
  by (auto simp: validateIdentifier_None blank_Nil)

lemma scene_loop_Nil_iff:
  "scene_loop ids els = [] \<longleftrightarrow>
     (\<forall>el\<in>set els. element_Validate el = []) \<and> distinct (map el_ID els) \<and> el_ID ` set els \<inter> ids = {}"
  by (induction els arbitrary: ids) (auto simp: validation)

lemma countTrue_one_exclusive:
  "countTrue [a, b, c, d, e] = 1 \<longleftrightarrow>
     (a \<or> b \<or> c \<or> d \<or> e) \<and> \<not> (a \<and> b) \<and> \<not> (a \<and> c) \<and> \<not> (a \<and> d) \<and> \<not> (a \<and> e) \<and> \<not> (b \<and> c)
     \<and> \<not> (b \<and> d) \<and> \<not> (b \<and> e) \<and> \<not> (c \<and> d) \<and> \<not> (c \<and> e) \<and> \<not> (d \<and> e)"
  by (auto simp: countTrue_def)

lemma element_in_bounds:
  assumes "element_Validate el = []"
  shows "0 \<le> el_X el" "el_X el < fst (display_size (el_Display el))"
    "0 \<le> el_Y el" "el_Y el < snd (display_size (el_Display el))"
    "el_Display el = DisplayFront \<or> el_Display el = DisplayBack"
  using assms by (auto simp: element_Validate_def placement_errors_def validation
      split: if_splits prod.splits)

lemma element_one_payload:
  "element_Validate el = [] \<Longrightarrow>
     countTrue [el_Text el \<noteq> None, el_Image el \<noteq> None, el_Animation el \<noteq> None,
       el_Rectangle el \<noteq> None, el_Countdown el \<noteq> None] = 1"
  by (simp add: element_Validate_def validation split: if_splits)

lemma element_ID_valid: "element_Validate el = [] \<Longrightarrow> validateIdentifier (el_ID el) = None"
  by (auto simp: element_Validate_def validation split: option.splits)

text \<open>A scene is accepted exactly when it has between 1 and 64 elements, no two elements share
  an identifier, and each element is accepted on its own; and then every element lies inside the
  pixel rectangle of the front or back display and carries exactly one payload.\<close>

theorem scene_accepted:
  "scene_Validate s = [] \<longleftrightarrow>
     1 \<le> length s \<and> length s \<le> 64 \<and> distinct (map el_ID s) \<and>
     (\<forall>el\<in>set s. element_Validate el = [] \<and>
        el_Display el \<in> {DisplayFront, DisplayBack} \<and>
        0 \<le> el_X el \<and> el_X el < fst (display_size (el_Display el)) \<and>
        0 \<le> el_Y el \<and> el_Y el < snd (display_size (el_Display el)) \<and>
        countTrue [el_Text el \<noteq> None, el_Image el \<noteq> None, el_Animation el \<noteq> None,
          el_Rectangle el \<noteq> None, el_Countdown el \<noteq> None] = 1)"
proof -
  have "element_Validate el = [] \<longleftrightarrow> element_Validate el = [] \<and>
      el_Display el \<in> {DisplayFront, DisplayBack} \<and>
      0 \<le> el_X el \<and> el_X el < fst (display_size (el_Display el)) \<and>
      0 \<le> el_Y el \<and> el_Y el < snd (display_size (el_Display el)) \<and>
      countTrue [el_Text el \<noteq> None, el_Image el \<noteq> None, el_Animation el \<noteq> None,
        el_Rectangle el \<noteq> None, el_Countdown el \<noteq> None] = 1" for el
    using element_in_bounds [of el] element_one_payload [of el] by blast
  moreover have "scene_Validate s = [] \<longleftrightarrow> 1 \<le> length s \<and> length s \<le> 64 \<and> distinct (map el_ID s) \<and>
      (\<forall>el\<in>set s. element_Validate el = [])"
    by (auto simp: scene_Validate_def scene_loop_Nil_iff MaxSceneElements_def Suc_le_eq)
  ultimately show ?thesis by metis
qed

definition demo_badge :: Element where
  "demo_badge = \<lparr>el_ID = ''badge'', el_Display = DisplayFront, el_X = 71, el_Y = 15, el_Text = None,
     el_Image = None, el_Animation = None,
     el_Rectangle = Some \<lparr>rect_Width = 1, rect_Height = 1, rect_Color = ''#00FF00FF''\<rparr>,
     el_Countdown = None\<rparr>"

lemma demo_badge_valid: "element_Validate demo_badge = []"
  by (simp add: validate_eval demo_badge_def)

theorem scene_accepted_witness:
  "scene_Validate [demo_badge] = [] \<and> scene_Validate [demo_badge, demo_badge] \<noteq> []"
  using scene_accepted [of "[demo_badge]"] scene_accepted [of "[demo_badge, demo_badge]"] demo_badge_valid
  by (auto simp: demo_badge_def display_size_def countTrue_def)

lemma observation_accepted_names:
  assumes "observation_Validate v now = []"
  shows "validateIdentifier (ref_ID (obs_Instance v)) = None" "validateIdentifier (obs_Channel v) = None"
    "validateIdentifier (obs_Key v) = None" "ref_Generation (obs_Instance v) \<noteq> 0" "obs_Revision v \<noteq> 0"
  using assms by (auto simp: observation_Validate_def ref_Validate_def validation
      split: option.splits list.splits if_splits)

lemma observation_accepted_future:
  assumes "observation_Validate v now = []" "obs_Disposition v \<noteq> DispositionResolved"
  shows "instant now < instant (obs_ValidUntil v)" "\<not> is_zero_time (obs_ValidUntil v)"
    "(obs_Scene v = None) \<noteq> (obs_BusyTimer v = None)"
  using assms by (auto simp: observation_Validate_def unresolved_errors_def validation time_after_def
      validateRequiredTimestamp_def split: option.splits list.splits if_splits)

end
