(* ===== verification/Presentation.thy ===== *)
theory Presentation
  imports Protocol
begin

text \<open>
  \<open>internal/presentation\<close>: the candidate for the display (model.go) and the arbiter that chooses one
  (arbiter.go). The lemmas show that the arbiter's order is a comparator, that the winner is the best
  eligible candidate unless the current one is still held and may not be interrupted, and that the
  choice does not depend on the order in which candidates are listed.
\<close>

subsection \<open>Policies, bands and priorities (model.go)\<close>

datatype Policy = PolicyAttention | PolicyInteractive | PolicyWhenRelevant | PolicyRotation
  | OtherPolicy string

datatype Band = BandCriticalActionable | BandInteractive | BandActionable | BandRelevant | BandRotation
  | OtherBand string

definition BandFor :: "Policy \<Rightarrow> Impact \<Rightarrow> Band" where
  "BandFor policy impact =
     (case policy of
        PolicyAttention \<Rightarrow> if impact = ImpactCritical then BandCriticalActionable else BandActionable
      | PolicyInteractive \<Rightarrow> BandInteractive
      | PolicyWhenRelevant \<Rightarrow> BandRelevant
      | PolicyRotation \<Rightarrow> BandRotation
      | OtherPolicy _ \<Rightarrow> OtherBand '''')"

definition comparePriority :: "int \<Rightarrow> int \<Rightarrow> int" where
  "comparePriority l r = (if l < r then -1 else if l > r then 1 else 0)"

fun bandPriority :: "Band \<Rightarrow> int" where
  "bandPriority BandCriticalActionable = 5"
| "bandPriority BandInteractive = 4"
| "bandPriority BandActionable = 3"
| "bandPriority BandRelevant = 2"
| "bandPriority BandRotation = 1"
| "bandPriority (OtherBand _) = 0"

fun impactPriority :: "Impact \<Rightarrow> int" where
  "impactPriority ImpactCritical = 4"
| "impactPriority ImpactNotable = 3"
| "impactPriority ImpactNormal = 2"
| "impactPriority ImpactLow = 1"
| "impactPriority (OtherImpact _) = 0"

definition CompareBand :: "Band \<Rightarrow> Band \<Rightarrow> int" where
  "CompareBand l r = comparePriority (bandPriority l) (bandPriority r)"

definition CompareImpact :: "Impact \<Rightarrow> Impact \<Rightarrow> int" where
  "CompareImpact l r = comparePriority (impactPriority l) (impactPriority r)"

subsection \<open>Identities (model.go)\<close>

record Identity =
  id_PluginID :: string
  id_InstanceID :: string
  id_Channel :: string
  id_Key :: string

text \<open>\<open>Identity.String\<close> drops the error of \<open>Encode\<close>, which four parts never give.\<close>

definition identity_String :: "Identity \<Rightarrow> string" where
  "identity_String i =
     (case Encode [id_PluginID i, id_InstanceID i, id_Channel i, id_Key i] of None \<Rightarrow> '''' | Some s \<Rightarrow> s)"

lemma identity_String_inject [simp]: "identity_String i = identity_String j \<longleftrightarrow> i = j"
proof
  assume eq: "identity_String i = identity_String j"
  let ?p = "\<lambda>i. [id_PluginID i, id_InstanceID i, id_Channel i, id_Key i]"
  have "Encode (?p i) = Some (identity_String i)" "Encode (?p j) = Some (identity_String i)"
    using eq by (simp_all add: identity_String_def Encode_def)
  then have "?p i = ?p j" by (rule Encode_inject_aux)
  then show "i = j" by simp
qed simp

text \<open>An identity has three separators, so its string is never empty.\<close>

lemma identity_String_nonempty [simp]: "identity_String i \<noteq> []" "[] \<noteq> identity_String i"
  by (auto simp: identity_String_def Encode_def)

subsection \<open>Candidates (model.go)\<close>

record Candidate =
  cd_PluginID :: string
  cd_InstanceID :: string
  cd_Channel :: string
  cd_Key :: string
  cd_Revision :: u64
  cd_Generation :: u64
  cd_Policy :: Policy
  cd_Band :: Band
  cd_Impact :: Impact
  cd_AdmissionSequence :: u64
  cd_Reason :: string
  cd_CreatedAt :: gotime
  cd_UpdatedAt :: gotime
  cd_ExpiresAt :: gotime
  cd_HoldMS :: int
  cd_CooldownMS :: int
  cd_RequiresAck :: bool
  cd_Acknowledged :: bool
  cd_DevicePriority :: int
  cd_Scene :: Scene
  cd_BusyTimer :: "string option"
  cd_AudioCue :: "AudioCue option"

definition cd_Identity :: "Candidate \<Rightarrow> Identity" where
  "cd_Identity c = \<lparr>id_PluginID = cd_PluginID c, id_InstanceID = cd_InstanceID c,
     id_Channel = cd_Channel c, id_Key = cd_Key c\<rparr>"

definition cd_ID :: "Candidate \<Rightarrow> string" where
  "cd_ID c = identity_String (cd_Identity c)"

definition cd_Hold :: "Candidate \<Rightarrow> int" where
  "cd_Hold c =
     (if cd_HoldMS c > 0 then ms_duration (cd_HoldMS c)
      else case cd_Policy c of
        PolicyAttention \<Rightarrow> 8 * second | PolicyRotation \<Rightarrow> 8 * second
      | PolicyWhenRelevant \<Rightarrow> 6 * second | _ \<Rightarrow> 0)"

definition cd_Cooldown :: "Candidate \<Rightarrow> int" where
  "cd_Cooldown c =
     (if cd_CooldownMS c > 0 then ms_duration (cd_CooldownMS c)
      else case cd_Policy c of
        PolicyAttention \<Rightarrow> 30 * second | PolicyWhenRelevant \<Rightarrow> 60 * second | _ \<Rightarrow> 0)"

definition EffectiveDevicePriority :: "Candidate \<Rightarrow> int" where
  "EffectiveDevicePriority c =
     (if 1 \<le> cd_DevicePriority c \<and> cd_DevicePriority c \<le> 100 then cd_DevicePriority c
      else case cd_Policy c of
        PolicyAttention \<Rightarrow> 100 | PolicyInteractive \<Rightarrow> 100
      | PolicyWhenRelevant \<Rightarrow> 60 | PolicyRotation \<Rightarrow> 20 | OtherPolicy _ \<Rightarrow> 0)"

definition cd_Eligible :: "Candidate \<Rightarrow> gotime \<Rightarrow> bool" where
  "cd_Eligible c now \<longleftrightarrow>
     (if \<not> is_zero_time (cd_ExpiresAt c) \<and> \<not> time_before now (cd_ExpiresAt c) then False
      else if cd_Policy c = PolicyAttention \<and> cd_RequiresAck c \<and> cd_Acknowledged c then False
      else True)"

datatype candidate_error =
  CandidateName identifier_error | UnsupportedPolicy | UnsupportedBand | CandidateImpact | BandMismatch
| CandidateRevision | CandidateGeneration | CandidateAdmission | CandidatePriority | NegativeDuration
| CandidateNotOnePresentation | CandidateTheme | CandidatePresentation presentation_error

definition cd_require :: "bool \<Rightarrow> candidate_error \<Rightarrow> candidate_error list" where
  "cd_require ok e = (if ok then [] else [e])"

fun validPolicy :: "Policy \<Rightarrow> bool" where
  "validPolicy (OtherPolicy _) = False"
| "validPolicy _ = True"

fun validBand :: "Band \<Rightarrow> bool" where
  "validBand (OtherBand _) = False"
| "validBand _ = True"

definition cd_name_errors :: "string \<Rightarrow> candidate_error list" where
  "cd_name_errors v = (case Identifier.Validate v of None \<Rightarrow> [] | Some e \<Rightarrow> [CandidateName e])"

definition cd_Validate :: "Candidate \<Rightarrow> candidate_error list" where
  "cd_Validate c =
     concat (map cd_name_errors [cd_PluginID c, cd_InstanceID c, cd_Channel c, cd_Key c])
     @ cd_require (validPolicy (cd_Policy c)) UnsupportedPolicy
     @ cd_require (validBand (cd_Band c)) UnsupportedBand
     @ cd_require (supported_impact (cd_Impact c)) CandidateImpact
     @ cd_require (validPolicy (cd_Policy c) \<and> validBand (cd_Band c) \<and> supported_impact (cd_Impact c)
          \<longrightarrow> cd_Band c = BandFor (cd_Policy c) (cd_Impact c)) BandMismatch
     @ cd_require (cd_Revision c \<noteq> 0) CandidateRevision
     @ cd_require (cd_Generation c \<noteq> 0) CandidateGeneration
     @ cd_require (cd_AdmissionSequence c \<noteq> 0) CandidateAdmission
     @ cd_require (0 \<le> cd_DevicePriority c \<and> cd_DevicePriority c \<le> 100) CandidatePriority
     @ cd_require (0 \<le> cd_HoldMS c \<and> 0 \<le> cd_CooldownMS c) NegativeDuration
     @ cd_require ((cd_Scene c \<noteq> []) \<noteq> (cd_BusyTimer c \<noteq> None)) CandidateNotOnePresentation
     @ optional (\<lambda>theme. cd_require (themePattern theme) CandidateTheme) (cd_BusyTimer c)
     @ (if cd_Scene c \<noteq> [] then map CandidatePresentation (scene_Validate (cd_Scene c)) else [])
     @ optional (\<lambda>a. map CandidatePresentation (audio_Validate a (cd_UpdatedAt c) (cd_ExpiresAt c)))
         (cd_AudioCue c)"

subsection \<open>The arbiter (arbiter.go)\<close>

record History =
  CurrentID :: string
  CurrentSince :: gotime
  LastShown :: "(string \<times> gotime) list"

text \<open>Reading a missing key of \<open>map[string]time.Time\<close> gives the zero time.\<close>

definition last_shown :: "History \<Rightarrow> string \<Rightarrow> gotime" where
  "last_shown h i = (case map_of (LastShown h) i of None \<Rightarrow> zero_time | Some t \<Rightarrow> t)"

definition findEligible :: "Candidate list \<Rightarrow> string \<Rightarrow> gotime \<Rightarrow> Candidate option" where
  "findEligible cs i now = find (\<lambda>c. cd_ID c = i \<and> cd_Eligible c now) cs"

definition better :: "Candidate \<Rightarrow> Candidate \<Rightarrow> bool" where
  "better a b =
     (if CompareBand (cd_Band a) (cd_Band b) \<noteq> 0 then CompareBand (cd_Band a) (cd_Band b) > 0
      else if CompareImpact (cd_Impact a) (cd_Impact b) \<noteq> 0 then CompareImpact (cd_Impact a) (cd_Impact b) > 0
      else if cd_AdmissionSequence a \<noteq> cd_AdmissionSequence b
        then cd_AdmissionSequence a < cd_AdmissionSequence b
      else cd_ID a < cd_ID b)"

definition better_cmp :: "Candidate \<Rightarrow> Candidate \<Rightarrow> int" where
  "better_cmp l r = (if better l r then -1 else if better r l then 1 else 0)"

definition mayInterrupt :: "Candidate \<Rightarrow> Candidate \<Rightarrow> bool" where
  "mayInterrupt nxt cur =
     (if CompareBand (cd_Band nxt) (cd_Band cur) \<noteq> 0 then CompareBand (cd_Band nxt) (cd_Band cur) > 0
      else cd_Band nxt = BandActionable \<and> CompareImpact (cd_Impact nxt) (cd_Impact cur) > 0)"

definition cooling_down :: "History \<Rightarrow> gotime \<Rightarrow> Candidate \<Rightarrow> bool" where
  "cooling_down h now c \<longleftrightarrow>
     cd_ID c \<noteq> CurrentID h \<and> \<not> is_zero_time (last_shown h (cd_ID c))
     \<and> time_before now (time_add (last_shown h (cd_ID c)) (cd_Cooldown c))"

definition select_eligible :: "Candidate list \<Rightarrow> History \<Rightarrow> gotime \<Rightarrow> Candidate list" where
  "select_eligible cs h now = filter (\<lambda>c. cd_Eligible c now \<and> \<not> cooling_down h now c) cs"

definition within_hold :: "History \<Rightarrow> gotime \<Rightarrow> Candidate \<Rightarrow> bool" where
  "within_hold h now c \<longleftrightarrow> time_before now (time_add (CurrentSince h) (cd_Hold c))"

definition presentation_Select :: "Candidate list \<Rightarrow> History \<Rightarrow> gotime \<Rightarrow> Candidate option" where
  "presentation_Select cs h now =
     (case sort_by better_cmp (select_eligible cs h now) of
        [] \<Rightarrow> None
      | winner # _ \<Rightarrow>
          (case findEligible cs (CurrentID h) now of
             Some current \<Rightarrow>
               if within_hold h now current \<and> \<not> mayInterrupt winner current then Some current else Some winner
           | None \<Rightarrow> Some winner))"

subsection \<open>The order of the arbiter\<close>

text \<open>The lexicographic rank that \<open>better\<close> compares.\<close>

definition outranks :: "Candidate \<Rightarrow> Candidate \<Rightarrow> bool" where
  "outranks a b \<longleftrightarrow>
     bandPriority (cd_Band a) > bandPriority (cd_Band b)
     \<or> bandPriority (cd_Band a) = bandPriority (cd_Band b) \<and>
        (impactPriority (cd_Impact a) > impactPriority (cd_Impact b)
         \<or> impactPriority (cd_Impact a) = impactPriority (cd_Impact b) \<and>
           (cd_AdmissionSequence a < cd_AdmissionSequence b
            \<or> cd_AdmissionSequence a = cd_AdmissionSequence b \<and> cd_ID a < cd_ID b))"

lemma better_outranks: "better a b = outranks a b"
  by (auto simp: better_def outranks_def CompareBand_def CompareImpact_def comparePriority_def)

lemma outranks_trans: "outranks a b \<Longrightarrow> outranks b c \<Longrightarrow> outranks a c"
  unfolding outranks_def by (elim disjE conjE) (auto intro: less_trans)

lemma outranks_linear: "outranks a b \<or> outranks b a \<or> cd_ID a = cd_ID b"
  unfolding outranks_def by (metis linorder_neqE linorder_neqE_linordered_idom)

lemma outranks_irrefl: "\<not> outranks a a"
  by (simp add: outranks_def)

lemma not_outranks_trans:
  assumes "\<not> outranks b a" "\<not> outranks c b"
  shows "\<not> outranks c a"
proof
  assume "outranks c a"
  then show False using assms unfolding outranks_def by (elim disjE conjE) auto
qed

lemma better_cmp_le: "better_cmp a b \<le> 0 \<longleftrightarrow> \<not> outranks b a"
  using outranks_trans outranks_irrefl by (auto simp: better_cmp_def better_outranks)

interpretation arbiter: keyed_comparator better_cmp cd_ID
proof unfold_locales
  fix x y z :: Candidate
  show "better_cmp x y \<le> 0 \<longleftrightarrow> 0 \<le> better_cmp y x"
    by (auto simp: better_cmp_def better_outranks dest: outranks_trans simp: outranks_irrefl)
  show "better_cmp x y \<le> 0 \<Longrightarrow> better_cmp y z \<le> 0 \<Longrightarrow> better_cmp x z \<le> 0"
    by (auto simp: better_cmp_le dest: not_outranks_trans)
  show "better_cmp x y = 0 \<Longrightarrow> cd_ID x = cd_ID y"
    using outranks_linear [of x y] by (auto simp: better_cmp_def better_outranks split: if_splits)
qed

subsection \<open>What the arbiter selects\<close>

abbreviation eligible_set :: "Candidate list \<Rightarrow> History \<Rightarrow> gotime \<Rightarrow> Candidate set" where
  "eligible_set cs h now \<equiv> set (select_eligible cs h now)"

lemma findEligible_SomeD:
  "findEligible cs i now = Some c \<Longrightarrow> c \<in> set cs \<and> cd_ID c = i \<and> cd_Eligible c now"
  by (auto simp: findEligible_def find_Some_iff)

lemma current_in_eligible:
  "findEligible cs (CurrentID h) now = Some c \<Longrightarrow> c \<in> eligible_set cs h now"
  by (auto simp: select_eligible_def cooling_down_def dest: findEligible_SomeD)

lemma best_eligible:
  assumes "sort_by better_cmp (select_eligible cs h now) = b # bs"
  shows "b \<in> eligible_set cs h now" and "c \<in> eligible_set cs h now \<Longrightarrow> \<not> outranks c b"
proof -
  show "b \<in> eligible_set cs h now"
    using assms by (metis list.set_intros(1) set_sort_by)
  show "\<not> outranks c b" if "c \<in> eligible_set cs h now"
    using arbiter.hd_sort_by_least [OF that] by (simp add: assms better_cmp_le)
qed

lemma mayInterrupt_best:
  assumes "mayInterrupt c cur" "\<not> outranks c b"
  shows "mayInterrupt b cur"
proof -
  have "cd_Band b = BandActionable" if "bandPriority (cd_Band b) = 3"
    using that by (cases "cd_Band b") auto
  then show ?thesis
    using assms
    by (auto simp: mayInterrupt_def outranks_def CompareBand_def CompareImpact_def comparePriority_def
        split: if_splits)
qed

lemma Select_cases:
  assumes "presentation_Select cs h now = Some w"
  obtains (best) "w \<in> eligible_set cs h now" "\<forall>c\<in>eligible_set cs h now. \<not> outranks c w"
  | (held) "w \<in> eligible_set cs h now" "cd_ID w = CurrentID h" "within_hold h now w"
      "\<forall>c\<in>eligible_set cs h now. \<not> mayInterrupt c w"
proof -
  obtain b bs where b: "sort_by better_cmp (select_eligible cs h now) = b # bs"
    using assms by (auto simp: presentation_Select_def split: list.splits)
  show ?thesis
  proof (cases "w = b")
    case True
    with best_eligible [OF b] show ?thesis by (auto intro: best)
  next
    case False
    then obtain cur where cur: "findEligible cs (CurrentID h) now = Some cur" "w = cur"
      "within_hold h now cur" "\<not> mayInterrupt b cur"
      using assms by (auto simp: presentation_Select_def b split: option.splits if_splits)
    have "\<not> mayInterrupt c w" if "c \<in> eligible_set cs h now" for c
      using that cur(2,4) best_eligible(2) [OF b] mayInterrupt_best by blast
    then show ?thesis
      using cur(2,3) current_in_eligible [OF cur(1)] findEligible_SomeD [OF cur(1)]
      by (intro held) auto
  qed
qed

text \<open>(C1) The arbiter's decision. What it selects is one of the offered candidates, is eligible at
  \<open>now\<close> and is not cooling down; and either no eligible candidate outranks it (band, then impact, then
  admission order, then identifier), or it is the current presentation inside its hold and no
  eligible candidate may interrupt it.\<close>

theorem arbiter_winner:
  assumes "presentation_Select cs h now = Some w"
  shows "w \<in> set cs \<and> cd_Eligible w now \<and> \<not> cooling_down h now w \<and>
    ((\<forall>c\<in>eligible_set cs h now. \<not> outranks c w) \<or>
     cd_ID w = CurrentID h \<and> within_hold h now w \<and> (\<forall>c\<in>eligible_set cs h now. \<not> mayInterrupt c w))"
  using assms by (cases rule: Select_cases) (auto simp: select_eligible_def)

definition demo_call :: Candidate where
  "demo_call = \<lparr>cd_PluginID = ''calls'', cd_InstanceID = ''desk'', cd_Channel = ''line'', cd_Key = ''ring'',
     cd_Revision = 1, cd_Generation = 1, cd_Policy = PolicyAttention, cd_Band = BandActionable,
     cd_Impact = ImpactNormal, cd_AdmissionSequence = 2, cd_Reason = '''', cd_CreatedAt = zero_time,
     cd_UpdatedAt = zero_time, cd_ExpiresAt = zero_time, cd_HoldMS = 0, cd_CooldownMS = 0,
     cd_RequiresAck = False, cd_Acknowledged = False, cd_DevicePriority = 0, cd_Scene = [],
     cd_BusyTimer = Some ''busy'', cd_AudioCue = None\<rparr>"

definition demo_clock :: Candidate where
  "demo_clock = demo_call\<lparr>cd_Key := ''clock'', cd_Policy := PolicyRotation, cd_Band := BandRotation,
     cd_AdmissionSequence := 1\<rparr>"

definition demo_history :: History where
  "demo_history = \<lparr>CurrentID = cd_ID demo_clock, CurrentSince = zero_time, LastShown = []\<rparr>"

lemma demo_candidates:
  "cd_Band demo_call = BandActionable" "cd_Band demo_clock = BandRotation"
  "cd_Eligible demo_call zero_time" "cd_Eligible demo_clock zero_time"
  "\<not> cooling_down demo_history zero_time c" "cd_ID demo_call \<noteq> cd_ID demo_clock"
  "CurrentID demo_history = cd_ID demo_clock"
  by (simp_all add: demo_call_def demo_clock_def demo_history_def cd_Eligible_def cooling_down_def last_shown_def
      cd_ID_def cd_Identity_def is_zero_time_def zero_time_def)

lemma demo_ranking: "outranks demo_call demo_clock" "\<not> outranks demo_clock demo_call"
  "mayInterrupt demo_call demo_clock"
  by (simp_all add: outranks_def demo_candidates mayInterrupt_def CompareBand_def comparePriority_def)

lemma demo_interrupted: "presentation_Select [demo_clock, demo_call] demo_history zero_time = Some demo_call"
  by (simp add: presentation_Select_def select_eligible_def demo_candidates better_cmp_def better_outranks
      demo_ranking findEligible_def)

theorem arbiter_winner_witness:
  "\<not> outranks demo_clock demo_call \<and> demo_call \<in> set [demo_clock, demo_call]"
  using arbiter_winner [OF demo_interrupted] demo_candidates(6)
  by (auto simp: select_eligible_def demo_candidates)

lemma Select_None_iff: "presentation_Select cs h now = None \<longleftrightarrow> select_eligible cs h now = []"
  by (auto simp: presentation_Select_def split: list.splits option.splits)

text \<open>The arbiter selects something exactly when an eligible candidate is offered: it returns
  no candidate, which clears the display, only if every candidate is expired, acknowledged or cooling
  down.\<close>

theorem arbiter_selects_iff:
  "presentation_Select cs h now \<noteq> None \<longleftrightarrow>
     list_ex (\<lambda>c. cd_Eligible c now \<and> \<not> cooling_down h now c) cs"
  by (auto simp: Select_None_iff select_eligible_def filter_empty_conv list_ex_iff)

lemma not_mayInterrupt_band: "\<not> mayInterrupt c w \<Longrightarrow> bandPriority (cd_Band c) \<le> bandPriority (cd_Band w)"
  by (auto simp: mayInterrupt_def CompareBand_def comparePriority_def split: if_splits)

lemma Select_band_maximal:
  assumes "presentation_Select cs h now = Some w" "c \<in> eligible_set cs h now"
  shows "bandPriority (cd_Band c) \<le> bandPriority (cd_Band w)"
  using assms by (cases rule: Select_cases) (auto simp: outranks_def dest: not_mayInterrupt_band)

text \<open>(C13) A hold never delays a higher band: no eligible candidate that is not in its own cooldown, counted from when it was
  last shown, has a higher band than the one selected. In particular such a critical actionable candidate is
  shown at once or another critical one is.\<close>

theorem arbiter_band_maximal:
  assumes "presentation_Select cs h now = Some w" "c \<in> set cs" "cd_Eligible c now" "\<not> cooling_down h now c"
  shows "bandPriority (cd_Band c) \<le> bandPriority (cd_Band w)"
  using assms by (intro Select_band_maximal) (auto simp: select_eligible_def)

theorem arbiter_band_maximal_witness:
  "bandPriority (cd_Band demo_clock) \<le> bandPriority (cd_Band demo_call)"
  by (rule arbiter_band_maximal [OF demo_interrupted])
    (simp_all add: demo_candidates)

lemma find_perm_distinct:
  assumes "mset xs = mset ys" "distinct (map f xs)"
  shows "find (\<lambda>x. f x = i \<and> P x) xs = find (\<lambda>x. f x = i \<and> P x) ys"
proof -
  have d: "distinct (map f ys)"
    using assms by (metis mset_eq_imp_distinct_iff mset_map)
  have "find (\<lambda>x. f x = i \<and> P x) zs = Some z \<longleftrightarrow> z \<in> set zs \<and> f z = i \<and> P z"
    if "distinct (map f zs)" for zs z
    using that by (induction zs) (auto simp: image_iff)
  then have "find (\<lambda>x. f x = i \<and> P x) xs = Some z \<longleftrightarrow> find (\<lambda>x. f x = i \<and> P x) ys = Some z" for z
    using assms(2) d mset_eq_setD [OF assms(1)] by simp
  then show ?thesis by (metis option.exhaust)
qed

text \<open>(C39) The decision does not depend on the order in which the candidates are listed: for
  candidates with distinct identifiers, permuting the list leaves the selection unchanged.\<close>

theorem arbiter_order_independent:
  assumes "mset cs = mset cs'" "distinct (map cd_ID cs)"
  shows "presentation_Select cs h now = presentation_Select cs' h now"
proof -
  have "sort_by better_cmp (select_eligible cs h now) = sort_by better_cmp (select_eligible cs' h now)"
    unfolding select_eligible_def
    using assms by (intro arbiter.sort_by_perm_invariant) (auto simp: distinct_map_filter)
  moreover have "findEligible cs (CurrentID h) now = findEligible cs' (CurrentID h) now"
    unfolding findEligible_def by (rule find_perm_distinct [OF assms])
  ultimately show ?thesis by (simp only: presentation_Select_def)
qed

theorem arbiter_order_independent_witness:
  "presentation_Select [demo_call, demo_clock] demo_history zero_time = Some demo_call"
  using arbiter_order_independent [of "[demo_clock, demo_call]" "[demo_call, demo_clock]" demo_history zero_time]
    demo_candidates(6)
  by (simp add: demo_interrupted add_mset_commute eq_commute)

end
