(* ===== verification/ObservationStore.thy ===== *)
theory ObservationStore
  imports Presentation
begin

text \<open>
  \<open>internal/observation/store.go\<close>: the store of the latest unresolved observation of each identity.
  Every method runs under the store's mutex, so it is one function on the state; the buffered channel
  of capacity one that wakes the engine is the flag \<open>st_changes\<close>. The clock reading and the lookup of
  the current generation are arguments. Copying a value (\<open>cloneObservation\<close>) is the identity on
  immutable values and is left out.
\<close>

subsection \<open>State\<close>

record Source =
  src_PluginID :: string
  src_Generation :: u64

record ObsRecord =
  rec_PluginID :: string
  rec_Generation :: u64
  rec_AdmissionSequence :: u64
  rec_Observation :: Observation

type_synonym exclusionKey = "Identity \<times> u64"

record exclusionState =
  ex_through :: u64
  ex_reserved :: u64

definition rec_Identity :: "ObsRecord \<Rightarrow> Identity" where
  "rec_Identity r = \<lparr>id_PluginID = rec_PluginID r, id_InstanceID = ref_ID (obs_Instance (rec_Observation r)),
     id_Channel = obs_Channel (rec_Observation r), id_Key = obs_Key (rec_Observation r)\<rparr>"

definition rec_ID :: "ObsRecord \<Rightarrow> string" where
  "rec_ID r = identity_String (rec_Identity r)"

record Store =
  st_records :: "(Identity \<times> ObsRecord) list"
  st_watermarks :: "(exclusionKey \<times> exclusionState) list"
  st_changes :: bool
  st_sequence :: u64
  st_rejections :: u64
  st_rejectedAt :: gotime
  st_rejected :: string

datatype store_error = InvalidObservation "observation_error list" | ErrStaleGeneration | ErrStaleRevision
  | ErrNotFound | ErrCapacity

text \<open>\<open>s.generation\<close> may be nil; otherwise it looks up the generation of an instance.\<close>

type_synonym Generation = "string \<Rightarrow> string \<Rightarrow> u64 option"

definition globalCapacity :: nat where "globalCapacity = 2048"
definition pluginCapacity :: nat where "pluginCapacity = 512"
definition pluginInstanceCapacity :: nat where "pluginInstanceCapacity = 256"
definition pluginInstanceChannelCapacity :: nat where "pluginInstanceChannelCapacity = 128"

definition NewStore :: Store where
  "NewStore = \<lparr>st_records = [], st_watermarks = [], st_changes = False, st_sequence = 0,
     st_rejections = 0, st_rejectedAt = zero_time, st_rejected = ''''\<rparr>"

subsection \<open>Operations\<close>

definition notify :: "Store \<Rightarrow> Store" where
  "notify s = s\<lparr>st_changes := True\<rparr>"

definition Signal :: "Store \<Rightarrow> Store" where
  "Signal s = notify s"

text \<open>The engine's receive from \<open>Changes()\<close> empties the channel.\<close>

definition Drain :: "Store \<Rightarrow> Store" where
  "Drain s = s\<lparr>st_changes := False\<rparr>"

definition live_at :: "gotime \<Rightarrow> ObsRecord \<Rightarrow> bool" where
  "live_at now r \<longleftrightarrow> time_after (obs_ValidUntil (rec_Observation r)) now"

definition pruneLocked :: "gotime \<Rightarrow> Store \<Rightarrow> bool \<times> Store" where
  "pruneLocked now s =
     (list_ex (\<lambda>(i, r). \<not> live_at now r) (st_records s),
      s\<lparr>st_records := filter (\<lambda>(i, r). live_at now r) (st_records s)\<rparr>)"

text \<open>Pruning as every caller does it: a change counts as one mutation.\<close>

definition prune_counted :: "gotime \<Rightarrow> Store \<Rightarrow> bool \<times> Store" where
  "prune_counted now s =
     (let (pruned, s') = pruneLocked now s
      in (pruned, if pruned then s'\<lparr>st_sequence := st_sequence s' + 1\<rparr> else s'))"

definition notify_if :: "bool \<Rightarrow> Store \<Rightarrow> Store" where
  "notify_if b s = (if b then notify s else s)"

text \<open>The counters of the two loops of \<open>atCapacityLocked\<close>, for the identities in a scope.\<close>

definition scope_count :: "(Identity \<Rightarrow> bool) \<Rightarrow> Store \<Rightarrow> nat" where
  "scope_count P s =
     length (filter (\<lambda>(k, _). P (fst k)) (st_watermarks s))
     + length (filter (\<lambda>(i, r). map_of (st_watermarks s) (i, rec_Generation r) = None \<and> P i) (st_records s))"

definition same_plugin :: "Identity \<Rightarrow> Identity \<Rightarrow> bool" where
  "same_plugin c i \<longleftrightarrow> id_PluginID i = id_PluginID c"

definition same_instance :: "Identity \<Rightarrow> Identity \<Rightarrow> bool" where
  "same_instance c i \<longleftrightarrow> same_plugin c i \<and> id_InstanceID i = id_InstanceID c"

definition same_channel :: "Identity \<Rightarrow> Identity \<Rightarrow> bool" where
  "same_channel c i \<longleftrightarrow> same_instance c i \<and> id_Channel i = id_Channel c"

definition atCapacityLocked :: "exclusionKey \<Rightarrow> Store \<Rightarrow> bool" where
  "atCapacityLocked cand s =
     (if map_of (st_records s) (fst cand) \<noteq> None then False
      else if map_of (st_watermarks s) cand \<noteq> None then False
      else scope_count (\<lambda>_. True) s \<ge> globalCapacity
        \<or> scope_count (same_plugin (fst cand)) s \<ge> pluginCapacity
        \<or> scope_count (same_instance (fst cand)) s \<ge> pluginInstanceCapacity
        \<or> scope_count (same_channel (fst cand)) s \<ge> pluginInstanceChannelCapacity)"

definition source_stale :: "Generation option \<Rightarrow> Source \<Rightarrow> Observation \<Rightarrow> bool" where
  "source_stale gen src v \<longleftrightarrow>
     src_PluginID src = '''' \<or> src_Generation src = 0
     \<or> (case gen of None \<Rightarrow> False
        | Some g \<Rightarrow> g (src_PluginID src) (ref_ID (obs_Instance v)) \<noteq> Some (src_Generation src))"

definition Publish ::
  "Generation option \<Rightarrow> gotime \<Rightarrow> Source \<Rightarrow> Observation \<Rightarrow> Store \<Rightarrow> store_error option \<times> Store" where
  "Publish gen now src v s =
     (if observation_Validate v now \<noteq> [] then (Some (InvalidObservation (observation_Validate v now)), s)
      else if source_stale gen src v then (Some ErrStaleGeneration, s)
      else
        let r = \<lparr>rec_PluginID = src_PluginID src, rec_Generation = src_Generation src,
                  rec_AdmissionSequence = 0, rec_Observation = v\<rparr>;
            i = rec_Identity r;
            (pruned, s1) = prune_counted now s;
            current = map_of (st_records s1) i
        in if (case current of None \<Rightarrow> False | Some c \<Rightarrow> obs_Revision v < obs_Revision (rec_Observation c))
           then (Some ErrStaleRevision, notify_if pruned s1)
           else if (case current of None \<Rightarrow> False | Some c \<Rightarrow> obs_Revision v = obs_Revision (rec_Observation c))
           then (if current \<noteq> None \<and> v = rec_Observation (the current)
                 then (None, notify_if pruned s1) else (Some ErrStaleRevision, notify_if pruned s1))
           else if current = None \<and> obs_Disposition v \<noteq> DispositionResolved
                   \<and> atCapacityLocked (i, src_Generation src) s1
           then (Some ErrCapacity,
                 notify_if pruned (s1\<lparr>st_rejections := st_rejections s1 + 1,
                   st_rejectedAt := time_utc now, st_rejected := ''observation_capacity''\<rparr>))
           else (None, notify
             ((if obs_Disposition v = DispositionResolved
               then s1\<lparr>st_records := AList.delete i (st_records s1)\<rparr>
               else s1\<lparr>st_records := AList.update i (r\<lparr>rec_AdmissionSequence := st_sequence s1 + 1\<rparr>) (st_records s1)\<rparr>)
              \<lparr>st_sequence := st_sequence s1 + 1\<rparr>)))"

definition Withdraw :: "Identity \<Rightarrow> Store \<Rightarrow> store_error option \<times> Store" where
  "Withdraw i s =
     (if map_of (st_records s) i = None then (Some ErrNotFound, s)
      else (None, notify (s\<lparr>st_records := AList.delete i (st_records s), st_sequence := st_sequence s + 1\<rparr>)))"

definition instance_through :: "string \<Rightarrow> string \<Rightarrow> u64 \<Rightarrow> Identity \<Rightarrow> u64 \<Rightarrow> bool" where
  "instance_through p inst t i g \<longleftrightarrow> id_PluginID i = p \<and> id_InstanceID i = inst \<and> g \<le> t"

definition WithdrawInstance :: "string \<Rightarrow> string \<Rightarrow> u64 \<Rightarrow> Store \<Rightarrow> Store" where
  "WithdrawInstance p inst t s =
     (let removed = list_ex (\<lambda>(i, r). instance_through p inst t i (rec_Generation r)) (st_records s);
          s' = s\<lparr>st_records := filter (\<lambda>(i, r). \<not> instance_through p inst t i (rec_Generation r)) (st_records s),
                 st_watermarks := filter (\<lambda>((i, g), _). \<not> instance_through p inst t i g) (st_watermarks s)\<rparr>
      in if removed then notify (s'\<lparr>st_sequence := st_sequence s + 1\<rparr>) else s')"

definition WithdrawGeneration :: "string \<Rightarrow> u64 \<Rightarrow> Store \<Rightarrow> Store" where
  "WithdrawGeneration p g s =
     (let mine = (\<lambda>(i, r). rec_PluginID r = p \<and> rec_Generation r = g);
          s' = s\<lparr>st_records := filter (\<lambda>x. \<not> mine x) (st_records s)\<rparr>
      in if list_ex mine (st_records s) then notify (s'\<lparr>st_sequence := st_sequence s + 1\<rparr>) else s')"

definition excluded :: "Store \<Rightarrow> Identity \<Rightarrow> ObsRecord \<Rightarrow> bool" where
  "excluded s i r \<longleftrightarrow>
     (case map_of (st_watermarks s) (i, rec_Generation r) of None \<Rightarrow> False
      | Some e \<Rightarrow> obs_Revision (rec_Observation r) \<le> ex_through e)"

definition string_cmp :: "string \<Rightarrow> string \<Rightarrow> int" where
  "string_cmp a b = (if a < b then -1 else if a > b then 1 else 0)"

definition visible_records :: "Store \<Rightarrow> ObsRecord list" where
  "visible_records s = map snd (filter (\<lambda>(i, r). \<not> excluded s i r) (st_records s))"

definition SnapshotWithSequence :: "gotime \<Rightarrow> Store \<Rightarrow> (ObsRecord list \<times> u64) \<times> Store" where
  "SnapshotWithSequence now s =
     (let (pruned, s1) = prune_counted now s
      in ((sort_by (\<lambda>l r. string_cmp (rec_ID l) (rec_ID r)) (visible_records s1), st_sequence s1),
          notify_if pruned s1))"

definition Snapshot :: "gotime \<Rightarrow> Store \<Rightarrow> ObsRecord list \<times> Store" where
  "Snapshot now s = (case SnapshotWithSequence now s of ((rs, _), s') \<Rightarrow> (rs, s'))"

definition read_watermark :: "Store \<Rightarrow> exclusionKey \<Rightarrow> exclusionState" where
  "read_watermark s k =
     (case map_of (st_watermarks s) k of None \<Rightarrow> \<lparr>ex_through = 0, ex_reserved = 0\<rparr> | Some e \<Rightarrow> e)"

definition excludeThroughLocked :: "Identity \<Rightarrow> u64 \<Rightarrow> u64 \<Rightarrow> Store \<Rightarrow> Store" where
  "excludeThroughLocked i g rv s =
     (let e = read_watermark s (i, g);
          e1 = (if rv > ex_through e then e\<lparr>ex_through := rv\<rparr> else e);
          e2 = (if ex_reserved e1 = rv then e1\<lparr>ex_reserved := 0\<rparr> else e1)
      in s\<lparr>st_watermarks := AList.update (i, g) e2 (st_watermarks s)\<rparr>)"

definition live_exact :: "Store \<Rightarrow> Identity \<Rightarrow> u64 \<Rightarrow> u64 \<Rightarrow> bool" where
  "live_exact s i g rv \<longleftrightarrow>
     (case map_of (st_records s) i of None \<Rightarrow> False
      | Some r \<Rightarrow> rec_Generation r = g \<and> obs_Revision (rec_Observation r) = rv)"

definition ExcludeRevisionWithoutSignal :: "Identity \<Rightarrow> u64 \<Rightarrow> u64 \<Rightarrow> Store \<Rightarrow> bool \<times> Store" where
  "ExcludeRevisionWithoutSignal i g rv s =
     (if \<not> live_exact s i g rv then (False, s) else (True, excludeThroughLocked i g rv s))"

definition ReserveExactRevisionWithoutSignal :: "Identity \<Rightarrow> u64 \<Rightarrow> u64 \<Rightarrow> Store \<Rightarrow> bool \<times> Store" where
  "ReserveExactRevisionWithoutSignal i g rv s =
     (if \<not> live_exact s i g rv then (False, s)
      else (True, s\<lparr>st_watermarks :=
              AList.update (i, g) ((read_watermark s (i, g))\<lparr>ex_reserved := rv\<rparr>) (st_watermarks s)\<rparr>))"

definition ReleaseExactRevisionReservationWithoutSignal :: "Identity \<Rightarrow> u64 \<Rightarrow> u64 \<Rightarrow> Store \<Rightarrow> Store" where
  "ReleaseExactRevisionReservationWithoutSignal i g rv s =
     (case map_of (st_watermarks s) (i, g) of None \<Rightarrow> s
      | Some e \<Rightarrow>
          if ex_reserved e \<noteq> rv then s
          else if ex_through e = 0 then s\<lparr>st_watermarks := AList.delete (i, g) (st_watermarks s)\<rparr>
          else s\<lparr>st_watermarks := AList.update (i, g) (e\<lparr>ex_reserved := 0\<rparr>) (st_watermarks s)\<rparr>)"

definition ExcludeExactRevisionWithoutSignal ::
  "Generation option \<Rightarrow> Identity \<Rightarrow> u64 \<Rightarrow> u64 \<Rightarrow> Store \<Rightarrow> bool \<times> Store" where
  "ExcludeExactRevisionWithoutSignal gen i g rv s =
     (if id_PluginID i = '''' \<or> id_InstanceID i = '''' \<or> id_Channel i = '''' \<or> id_Key i = '''' \<or> g = 0 \<or> rv = 0
      then (False, s)
      else if (case gen of None \<Rightarrow> False | Some f \<Rightarrow> f (id_PluginID i) (id_InstanceID i) \<noteq> Some g)
      then (False, s)
      else
        let reserved = (case map_of (st_watermarks s) (i, g) of None \<Rightarrow> False | Some e \<Rightarrow> ex_reserved e = rv)
        in if \<not> reserved \<and> \<not> live_exact s i g rv then (False, s)
           else (True, excludeThroughLocked i g rv s))"

record StoreDiagnostics =
  LiveCount :: nat
  CapacityRejections :: u64
  LastRejectionAt :: gotime
  LastRejectionCode :: string

definition Diagnostics :: "gotime \<Rightarrow> Store \<Rightarrow> StoreDiagnostics \<times> Store" where
  "Diagnostics now s =
     (let (pruned, s1) = prune_counted now s
      in (\<lparr>LiveCount = length (st_records s1), CapacityRejections = st_rejections s1,
           LastRejectionAt = st_rejectedAt s1, LastRejectionCode = st_rejected s1\<rparr>, notify_if pruned s1))"

subsection \<open>Sequences of operations\<close>

datatype store_op =
  OpPublish gotime Source Observation | OpWithdraw Identity | OpWithdrawInstance string string u64
| OpWithdrawGeneration string u64 | OpSnapshot gotime | OpExclude Identity u64 u64
| OpReserve Identity u64 u64 | OpRelease Identity u64 u64 | OpExcludeExact Identity u64 u64
| OpDiagnostics gotime | OpSignal | OpDrain

fun store_apply :: "Generation option \<Rightarrow> store_op \<Rightarrow> Store \<Rightarrow> Store" where
  "store_apply gen (OpPublish now src v) s = snd (Publish gen now src v s)"
| "store_apply gen (OpWithdraw i) s = snd (Withdraw i s)"
| "store_apply gen (OpWithdrawInstance p inst t) s = WithdrawInstance p inst t s"
| "store_apply gen (OpWithdrawGeneration p g) s = WithdrawGeneration p g s"
| "store_apply gen (OpSnapshot now) s = snd (Snapshot now s)"
| "store_apply gen (OpExclude i g rv) s = snd (ExcludeRevisionWithoutSignal i g rv s)"
| "store_apply gen (OpReserve i g rv) s = snd (ReserveExactRevisionWithoutSignal i g rv s)"
| "store_apply gen (OpRelease i g rv) s = ReleaseExactRevisionReservationWithoutSignal i g rv s"
| "store_apply gen (OpExcludeExact i g rv) s = snd (ExcludeExactRevisionWithoutSignal gen i g rv s)"
| "store_apply gen (OpDiagnostics now) s = snd (Diagnostics now s)"
| "store_apply gen OpSignal s = Signal s"
| "store_apply gen OpDrain s = Drain s"

subsection \<open>The invariant\<close>

text \<open>
  The identities a store tracks are those of its records and of its watermarks. The capacity check
  counts watermarks and untracked records, which is at least the number of tracked identities in the
  scope, so the bounds hold for tracked identities although a generation change may leave one
  identity with several watermarks.
\<close>

definition tracked :: "Store \<Rightarrow> Identity set" where
  "tracked s = fst ` set (st_records s) \<union> (fst \<circ> fst) ` set (st_watermarks s)"

definition scope_bound :: "(Identity \<Rightarrow> bool) \<Rightarrow> nat \<Rightarrow> Store \<Rightarrow> bool" where
  "scope_bound P n s \<longleftrightarrow> card {i \<in> tracked s. P i} \<le> n"

definition record_ok :: "Identity \<times> ObsRecord \<Rightarrow> bool" where
  "record_ok = (\<lambda>(i, r). rec_Identity r = i \<and> rec_PluginID r \<noteq> [] \<and> rec_Generation r \<noteq> 0
     \<and> obs_Revision (rec_Observation r) \<noteq> 0 \<and> obs_Disposition (rec_Observation r) \<noteq> DispositionResolved)"

definition store_wf :: "Store \<Rightarrow> bool" where
  "store_wf s \<longleftrightarrow> alist_wf (st_records s) \<and> alist_wf (st_watermarks s) \<and> list_all record_ok (st_records s)"

definition store_bounds :: "Store \<Rightarrow> bool" where
  "store_bounds s \<longleftrightarrow> scope_bound (\<lambda>_. True) globalCapacity s
     \<and> (\<forall>c. scope_bound (same_plugin c) pluginCapacity s
         \<and> scope_bound (same_instance c) pluginInstanceCapacity s
         \<and> scope_bound (same_channel c) pluginInstanceChannelCapacity s)"

definition store_inv :: "Store \<Rightarrow> bool" where
  "store_inv s \<longleftrightarrow> store_wf s \<and> store_bounds s"

lemma finite_tracked [simp]: "finite (tracked s)"
  by (simp add: tracked_def)

lemma tracked_count: "card {i \<in> tracked s. P i} \<le> scope_count P s"
proof -
  let ?W = "filter (\<lambda>(k, _). P (fst k)) (st_watermarks s)"
  let ?R = "filter (\<lambda>(i, r). map_of (st_watermarks s) (i, rec_Generation r) = None \<and> P i) (st_records s)"
  have "{i \<in> tracked s. P i} \<subseteq> (fst \<circ> fst) ` set ?W \<union> fst ` set ?R"
  proof
    fix i assume i: "i \<in> {i \<in> tracked s. P i}"
    then consider r where "(i, r) \<in> set (st_records s)" | g e where "((i, g), e) \<in> set (st_watermarks s)"
      by (auto simp: tracked_def)
    then show "i \<in> (fst \<circ> fst) ` set ?W \<union> fst ` set ?R"
    proof cases
      case 1
      show ?thesis
      proof (cases "map_of (st_watermarks s) (i, rec_Generation r)")
        case None
        with 1 i have "(i, r) \<in> set ?R" by simp
        then show ?thesis by force
      next
        case (Some e)
        then have "((i, rec_Generation r), e) \<in> set ?W" using i by (auto dest: map_of_SomeD)
        then show ?thesis by force
      qed
    next
      case 2
      then have "((i, g), e) \<in> set ?W" using i by simp
      then show ?thesis by force
    qed
  qed
  then have "card {i \<in> tracked s. P i} \<le> card ((fst \<circ> fst) ` set ?W \<union> fst ` set ?R)"
    by (intro card_mono) auto
  also have "\<dots> \<le> card ((fst \<circ> fst) ` set ?W) + card (fst ` set ?R)" by (rule card_Un_le)
  also have "\<dots> \<le> length ?W + length ?R"
    by (intro add_mono order.trans [OF card_image_le card_length]) auto
  finally show ?thesis by (simp add: scope_count_def)
qed

lemma scope_bound_mono: "tracked s' \<subseteq> tracked s \<Longrightarrow> scope_bound P n s \<Longrightarrow> scope_bound P n s'"
  unfolding scope_bound_def by (erule order.trans [rotated]) (auto intro: card_mono)

lemma store_bounds_mono: "tracked s' \<subseteq> tracked s \<Longrightarrow> store_bounds s \<Longrightarrow> store_bounds s'"
  by (auto simp: store_bounds_def intro: scope_bound_mono)

lemma scope_bound_insert:
  assumes "scope_bound P n s" "tracked s' \<subseteq> insert i (tracked s)" "P i \<Longrightarrow> scope_count P s < n"
  shows "scope_bound P n s'"
proof (cases "P i")
  case True
  have "card {j \<in> tracked s'. P j} \<le> card (insert i {j \<in> tracked s. P j})"
    using assms(2) by (intro card_mono) auto
  also have "\<dots> \<le> Suc (card {j \<in> tracked s. P j})" by (rule card_insert_le_m1) simp_all
  also have "\<dots> \<le> n" using tracked_count [of s P] assms(3) [OF True] by simp
  finally show ?thesis by (simp add: scope_bound_def)
next
  case False
  then have "{j \<in> tracked s'. P j} \<subseteq> {j \<in> tracked s. P j}" using assms(2) by auto
  then have "card {j \<in> tracked s'. P j} \<le> card {j \<in> tracked s. P j}" by (intro card_mono) auto
  then show ?thesis using assms(1) by (simp add: scope_bound_def)
qed

text \<open>A scope is determined by any identity in it.\<close>

lemma same_scope_eq:
  "same_plugin c i \<Longrightarrow> same_plugin c = same_plugin i"
  "same_instance c i \<Longrightarrow> same_instance c = same_instance i"
  "same_channel c i \<Longrightarrow> same_channel c = same_channel i"
  by (auto simp: same_plugin_def same_instance_def same_channel_def fun_eq_iff)

lemma store_bounds_admit:
  assumes "store_bounds s" "tracked s' \<subseteq> insert i (tracked s)"
    and "i \<in> tracked s \<or> \<not> atCapacityLocked (i, g) s"
  shows "store_bounds s'"
proof (cases "i \<in> tracked s")
  case True
  then show ?thesis using assms(1,2) by (intro store_bounds_mono [of s' s]) auto
next
  case False
  then have "map_of (st_records s) i = None" "map_of (st_watermarks s) (i, g) = None"
    by (force simp: tracked_def map_of_eq_None_iff)+
  then have room: "scope_count (\<lambda>_. True) s < globalCapacity" "scope_count (same_plugin i) s < pluginCapacity"
      "scope_count (same_instance i) s < pluginInstanceCapacity"
      "scope_count (same_channel i) s < pluginInstanceChannelCapacity"
    using assms(3) False by (auto simp: atCapacityLocked_def)
  then show ?thesis
    using assms(1,2) scope_bound_insert same_scope_eq unfolding store_bounds_def by metis
qed

subsection \<open>Every operation keeps the invariant\<close>

lemma notify_simps [simp]:
  "st_records (notify s) = st_records s" "st_watermarks (notify s) = st_watermarks s"
  "st_records (notify_if b s) = st_records s" "st_watermarks (notify_if b s) = st_watermarks s"
  "st_sequence (notify s) = st_sequence s" "st_sequence (notify_if b s) = st_sequence s"
  by (simp_all add: notify_def notify_if_def)

lemma notify_changes: "st_changes (notify s)" "st_changes (notify_if b s) \<longleftrightarrow> b \<or> st_changes s"
  by (simp_all add: notify_def notify_if_def)

lemma prune_counted_simps [simp]:
  "st_records (snd (prune_counted now s)) = filter (\<lambda>(i, r). live_at now r) (st_records s)"
  "st_watermarks (snd (prune_counted now s)) = st_watermarks s"
  by (simp_all add: prune_counted_def pruneLocked_def)

text \<open>An operation that only filters records or rewrites watermarks of tracked identities.\<close>

lemma store_inv_shrink:
  assumes "store_inv s" "alist_wf (st_records s')" "alist_wf (st_watermarks s')"
    and "set (st_records s') \<subseteq> set (st_records s)" "tracked s' \<subseteq> tracked s"
  shows "store_inv s'"
  using assms by (auto simp: store_inv_def store_wf_def list_all_iff intro: store_bounds_mono)

lemma store_inv_wf: "store_inv s \<Longrightarrow> alist_wf (st_records s) \<and> alist_wf (st_watermarks s)"
  by (simp add: store_inv_def store_wf_def)

lemma store_inv_filter_records:
  assumes "store_inv s" "st_records s' = filter P (st_records s)" "st_watermarks s' = st_watermarks s"
  shows "store_inv s'"
  using assms store_inv_wf [OF assms(1)]
  by (intro store_inv_shrink [OF assms(1)]) (auto simp: alist_wf_filter tracked_def)

lemma store_inv_same: "store_inv s \<Longrightarrow> st_records s' = st_records s \<Longrightarrow> st_watermarks s' = st_watermarks s
  \<Longrightarrow> store_inv s'"
  using store_inv_filter_records [of s s' "\<lambda>_. True"] by simp

lemma prune_counted_inv: "store_inv s \<Longrightarrow> store_inv (snd (prune_counted now s))"
  by (rule store_inv_filter_records [where s = s]) simp_all

lemma tracked_record: "map_of (st_records s) i = Some r \<Longrightarrow> i \<in> tracked s"
  by (force simp: tracked_def dest: map_of_SomeD)

lemma tracked_watermark: "map_of (st_watermarks s) (i, g) = Some e \<Longrightarrow> i \<in> tracked s"
  by (force simp: tracked_def dest: map_of_SomeD)

lemma live_exact_tracked: "live_exact s i g rv \<Longrightarrow> i \<in> tracked s"
  by (auto simp: live_exact_def split: option.splits intro: tracked_record)

lemma set_update_watermark:
  "(fst \<circ> fst) ` set (AList.update (i, g) e ws) \<subseteq> insert i ((fst \<circ> fst) ` set ws)"
proof -
  have "fst ` set (AList.update (i, g) e ws) = insert (i, g) (fst ` set ws)" by (rule alist_update_keys)
  then show ?thesis by (metis (no_types, lifting) fst_conv image_comp image_insert order.refl)
qed

lemma store_inv_update_watermark:
  assumes "store_inv s" "i \<in> tracked s"
  shows "store_inv (s\<lparr>st_watermarks := AList.update (i, g) e (st_watermarks s)\<rparr>)"
proof -
  have "tracked (s\<lparr>st_watermarks := AList.update (i, g) e (st_watermarks s)\<rparr>) \<subseteq> insert i (tracked s)"
    using set_update_watermark [of i g e "st_watermarks s"] by (auto simp: tracked_def)
  then show ?thesis
    using assms store_inv_wf [OF assms(1)]
    by (intro store_inv_shrink [OF assms(1)]) (auto intro: distinct_update)
qed

lemma excludeThrough_inv: "store_inv s \<Longrightarrow> i \<in> tracked s \<Longrightarrow> store_inv (excludeThroughLocked i g rv s)"
  by (simp add: excludeThroughLocked_def Let_def store_inv_update_watermark)

lemma Release_inv: "store_inv s \<Longrightarrow> store_inv (ReleaseExactRevisionReservationWithoutSignal i g rv s)"
proof -
  assume s: "store_inv s"
  have "set (AList.delete (i, g) (st_watermarks s)) \<subseteq> set (st_watermarks s)"
    by (rule set_alist_delete)
  then have "store_inv (s\<lparr>st_watermarks := AList.delete (i, g) (st_watermarks s)\<rparr>)"
    using store_inv_wf [OF s]
    by (intro store_inv_shrink [OF s]) (auto simp: tracked_def intro: distinct_delete)
  then show ?thesis
    using s by (auto simp: ReleaseExactRevisionReservationWithoutSignal_def split: option.splits
        intro!: store_inv_update_watermark tracked_watermark)
qed

lemma Withdraw_inv: "store_inv s \<Longrightarrow> store_inv (snd (Withdraw i s))"
  by (auto simp: Withdraw_def AList.delete_eq intro!: store_inv_filter_records [where s = s])

lemma WithdrawInstance_simps:
  "st_records (WithdrawInstance p inst t s) =
     filter (\<lambda>(i, r). \<not> instance_through p inst t i (rec_Generation r)) (st_records s)"
  "st_watermarks (WithdrawInstance p inst t s) =
     filter (\<lambda>((i, g), _). \<not> instance_through p inst t i g) (st_watermarks s)"
  by (simp_all add: WithdrawInstance_def Let_def)

lemma WithdrawInstance_inv:
  assumes "store_inv s"
  shows "store_inv (WithdrawInstance p inst t s)"
proof (rule store_inv_shrink [OF assms])
  show "alist_wf (st_records (WithdrawInstance p inst t s))" "alist_wf (st_watermarks (WithdrawInstance p inst t s))"
    using store_inv_wf [OF assms] by (simp_all only: WithdrawInstance_simps alist_wf_filter)
qed (auto simp: WithdrawInstance_simps tracked_def)

lemma WithdrawGeneration_simps:
  "st_records (WithdrawGeneration p g s) =
     filter (\<lambda>x. \<not> (case x of (i, r) \<Rightarrow> rec_PluginID r = p \<and> rec_Generation r = g)) (st_records s)"
  "st_watermarks (WithdrawGeneration p g s) = st_watermarks s"
  by (simp_all add: WithdrawGeneration_def Let_def)

lemma WithdrawGeneration_inv: "store_inv s \<Longrightarrow> store_inv (WithdrawGeneration p g s)"
  by (rule store_inv_filter_records [OF _ WithdrawGeneration_simps])

lemma Publish_admit_inv:
  assumes s: "store_inv s" and i: "i \<in> tracked s \<or> \<not> atCapacityLocked (i, g) s" and r: "record_ok (i, r)"
    and s': "st_records s' = AList.update i r (st_records s)" "st_watermarks s' = st_watermarks s"
  shows "store_inv s'"
proof -
  have "fst ` set (AList.update i r (st_records s)) = insert i (fst ` set (st_records s))"
    by (rule alist_update_keys)
  then have "tracked s' \<subseteq> insert i (tracked s)" by (auto simp: tracked_def s')
  then have "store_bounds s'"
    using s i by (auto simp: store_inv_def intro: store_bounds_admit)
  moreover have "set (AList.update i r (st_records s)) \<subseteq> insert (i, r) (set (st_records s))"
    by (rule set_alist_update)
  then have "list_all record_ok (st_records s')"
    using s r by (auto simp: s' store_inv_def store_wf_def list_all_iff)
  ultimately show ?thesis
    using store_inv_wf [OF s] by (simp add: store_inv_def store_wf_def s' distinct_update)
qed

text \<open>The branches of \<open>Publish\<close>.\<close>

definition admitted_record :: "Source \<Rightarrow> Observation \<Rightarrow> u64 \<Rightarrow> ObsRecord" where
  "admitted_record src v n = \<lparr>rec_PluginID = src_PluginID src, rec_Generation = src_Generation src,
     rec_AdmissionSequence = n, rec_Observation = v\<rparr>"

definition target_identity :: "Source \<Rightarrow> Observation \<Rightarrow> Identity" where
  "target_identity src v = \<lparr>id_PluginID = src_PluginID src, id_InstanceID = ref_ID (obs_Instance v),
     id_Channel = obs_Channel v, id_Key = obs_Key v\<rparr>"

lemma admitted_record_simps [simp]:
  "rec_Identity (admitted_record src v n) = target_identity src v"
  "rec_Observation (admitted_record src v n) = v" "rec_Generation (admitted_record src v n) = src_Generation src"
  "rec_PluginID (admitted_record src v n) = src_PluginID src"
  "rec_AdmissionSequence (admitted_record src v n) = n"
  by (simp_all add: admitted_record_def rec_Identity_def target_identity_def)

lemma Publish_branches:
  fixes gen now src v s
  defines "s1 \<equiv> snd (prune_counted now s)" and "i \<equiv> target_identity src v"
  obtains
    (refused) e where "Publish gen now src v s = (Some e, s)"
  | (stale) c s' where "map_of (st_records s1) i = Some c" "obs_Revision v \<le> obs_Revision (rec_Observation c)"
      "v \<noteq> rec_Observation c" "Publish gen now src v s = (Some ErrStaleRevision, s')"
      "st_records s' = st_records s1" "st_watermarks s' = st_watermarks s1" "st_sequence s' = st_sequence s1"
      "fst (prune_counted now s) \<Longrightarrow> st_changes s'"
  | (repeated) c s' where "map_of (st_records s1) i = Some c" "v = rec_Observation c"
      "Publish gen now src v s = (None, s')"
      "st_records s' = st_records s1" "st_watermarks s' = st_watermarks s1" "st_sequence s' = st_sequence s1"
      "fst (prune_counted now s) \<Longrightarrow> st_changes s'"
  | (full) s' where "map_of (st_records s1) i = None" "obs_Disposition v \<noteq> DispositionResolved"
      "atCapacityLocked (i, src_Generation src) s1" "Publish gen now src v s = (Some ErrCapacity, s')"
      "st_records s' = st_records s1" "st_watermarks s' = st_watermarks s1" "st_sequence s' = st_sequence s1"
      "fst (prune_counted now s) \<Longrightarrow> st_changes s'"
  | (resolved) s' where "observation_Validate v now = []" "\<not> source_stale gen src v"
      "\<forall>c. map_of (st_records s1) i = Some c \<longrightarrow> obs_Revision (rec_Observation c) < obs_Revision v"
      "obs_Disposition v = DispositionResolved" "Publish gen now src v s = (None, s')"
      "st_records s' = AList.delete i (st_records s1)" "st_watermarks s' = st_watermarks s1"
      "st_sequence s' = st_sequence s1 + 1" "st_changes s'"
  | (admitted) s' where "observation_Validate v now = []" "\<not> source_stale gen src v"
      "\<forall>c. map_of (st_records s1) i = Some c \<longrightarrow> obs_Revision (rec_Observation c) < obs_Revision v"
      "obs_Disposition v \<noteq> DispositionResolved"
      "map_of (st_records s1) i \<noteq> None \<or> \<not> atCapacityLocked (i, src_Generation src) s1"
      "Publish gen now src v s = (None, s')"
      "st_records s' = AList.update i (admitted_record src v (st_sequence s1 + 1)) (st_records s1)"
      "st_watermarks s' = st_watermarks s1" "st_sequence s' = st_sequence s1 + 1" "st_changes s'"
proof -
  obtain pruned where p: "prune_counted now s = (pruned, s1)" by (simp add: s1_def prod_eq_iff)
  have i: "rec_Identity \<lparr>rec_PluginID = src_PluginID src, rec_Generation = src_Generation src,
      rec_AdmissionSequence = 0, rec_Observation = v\<rparr> = i"
    by (simp add: i_def rec_Identity_def target_identity_def)
  note unfold = Publish_def Let_def p i split_beta fst_conv snd_conv notify_changes
  show ?thesis
  proof (cases "observation_Validate v now \<noteq> [] \<or> source_stale gen src v")
    case True
    then have "\<exists>e. Publish gen now src v s = (Some e, s)" by (auto simp: Publish_def)
    then show ?thesis using refused by blast
  next
    case ok: False
    show ?thesis
    proof (cases "map_of (st_records s1) i")
      case None
      then show ?thesis
        using ok
        by (cases "obs_Disposition v = DispositionResolved"; cases "atCapacityLocked (i, src_Generation src) s1")
          (auto simp: unfold admitted_record_def intro: full resolved admitted)
    next
      case (Some c)
      consider "obs_Revision (rec_Observation c) < obs_Revision v" | "v = rec_Observation c"
        | "v \<noteq> rec_Observation c" "obs_Revision v \<le> obs_Revision (rec_Observation c)"
        by fastforce
      then show ?thesis
      proof cases
        case 1
        show ?thesis
        proof (cases "obs_Disposition v = DispositionResolved")
          case True
          show ?thesis
            by (rule resolved [of "snd (Publish gen now src v s)"]) (use ok Some 1 True in \<open>auto simp: unfold\<close>)
        next
          case False
          show ?thesis
            by (rule admitted [of "snd (Publish gen now src v s)"])
              (use ok Some 1 False in \<open>auto simp: unfold admitted_record_def\<close>)
        qed
      next
        case 2
        show ?thesis
          by (rule repeated [of c "snd (Publish gen now src v s)"]) (use ok Some 2 [symmetric] in \<open>simp_all add: unfold\<close>)
      next
        case 3
        show ?thesis
          by (rule stale [of c "snd (Publish gen now src v s)"]) (use ok Some 3 in \<open>auto simp: unfold\<close>)
      qed
    qed
  qed
qed

lemma admitted_record_ok:
  assumes "observation_Validate v now = []" "\<not> source_stale gen src v" "obs_Disposition v \<noteq> DispositionResolved"
  shows "record_ok (target_identity src v, admitted_record src v n)"
  using assms observation_accepted_names(5) [OF assms(1)] by (auto simp: record_ok_def source_stale_def)

lemma Publish_inv:
  assumes "store_inv s"
  shows "store_inv (snd (Publish gen now src v s))"
proof -
  note s1 = prune_counted_inv [OF assms, of now]
  show ?thesis
  proof (cases rule: Publish_branches [of gen now src v s])
    case (resolved s')
    then show ?thesis
      using s1 by (auto simp: AList.delete_eq intro!: store_inv_filter_records [OF s1])
  next
    case (admitted s')
    have "store_inv s'"
      using admitted by (intro Publish_admit_inv [OF s1 _ _ admitted(7,8)] admitted_record_ok)
        (auto intro: tracked_record)
    then show ?thesis by (simp add: admitted(6))
  qed (use assms s1 in \<open>auto intro: store_inv_same\<close>)
qed

lemma Snapshot_state [simp]: "snd (Snapshot now s) = notify_if (fst (prune_counted now s)) (snd (prune_counted now s))"
  by (simp add: Snapshot_def SnapshotWithSequence_def Let_def split_beta)

lemma notify_if_inv [simp]: "store_inv (notify_if b s) \<longleftrightarrow> store_inv s"
  using store_inv_same [of s "notify_if b s"] store_inv_same [of "notify_if b s" s] by auto

interpretation store: guarded_component "\<lambda>s. s = NewStore" "store_apply gen" store_inv
proof unfold_locales
  fix s :: Store and op :: store_op
  show "s = NewStore \<Longrightarrow> store_inv s"
    by (simp add: store_inv_def store_wf_def store_bounds_def scope_bound_def tracked_def NewStore_def)
  assume s: "store_inv s"
  note s1 = prune_counted_inv [OF s]
  show "store_inv (store_apply gen op s)"
  proof (cases op)
    case (OpExcludeExact i g rv)
    then show ?thesis
      using s by (auto simp: ExcludeExactRevisionWithoutSignal_def Let_def split: option.splits
          intro!: excludeThrough_inv dest: live_exact_tracked tracked_watermark)
  qed (use s s1 in \<open>auto simp: Publish_inv Withdraw_inv WithdrawInstance_inv WithdrawGeneration_inv Release_inv
      ExcludeRevisionWithoutSignal_def ReserveExactRevisionWithoutSignal_def Diagnostics_def Let_def split_beta
      Signal_def Drain_def intro: store_inv_same excludeThrough_inv store_inv_update_watermark live_exact_tracked\<close>)
qed

subsection \<open>Capacity\<close>

lemma reachable_store_inv: "store_inv (fold (store_apply gen) ops NewStore)"
  by (rule store.reachable_inv) simp

lemma scope_records_bound:
  assumes "store_inv s" "scope_bound P n s"
  shows "length (filter (\<lambda>(i, r). P i) (st_records s)) \<le> n"
proof -
  let ?F = "filter (\<lambda>(i, r). P i) (st_records s)"
  have "length ?F = card (fst ` set ?F)"
    using alist_wf_filter store_inv_wf [OF assms(1)] by (metis distinct_card length_map list.set_map)
  also have "\<dots> \<le> card {i \<in> tracked s. P i}"
    by (intro card_mono) (auto simp: tracked_def intro!: rev_image_eqI)
  finally show ?thesis using assms(2) by (simp add: scope_bound_def)
qed

text \<open>(C10) Capacity. Whatever sequence of publications, withdrawals, exclusions and reservations a
  store goes through, it never holds more than 2048 live observations, 512 of one plugin, 256 of one
  app instance and 128 of one channel of an instance.\<close>

theorem store_capacity:
  fixes gen ops
  defines "s \<equiv> fold (store_apply gen) ops NewStore"
  shows "length (st_records s) \<le> 2048
    \<and> length (filter (\<lambda>(i, r). same_plugin c i) (st_records s)) \<le> 512
    \<and> length (filter (\<lambda>(i, r). same_instance c i) (st_records s)) \<le> 256
    \<and> length (filter (\<lambda>(i, r). same_channel c i) (st_records s)) \<le> 128"
proof -
  have inv: "store_inv s" unfolding s_def by (rule reachable_store_inv)
  have b: "scope_bound (\<lambda>_. True) 2048 s" "scope_bound (same_plugin c) 512 s"
      "scope_bound (same_instance c) 256 s" "scope_bound (same_channel c) 128 s"
    using inv by (simp_all add: store_inv_def store_bounds_def globalCapacity_def pluginCapacity_def
        pluginInstanceCapacity_def pluginInstanceChannelCapacity_def)
  show ?thesis
    using b [THEN scope_records_bound [OF inv]] by simp
qed

subsection \<open>Snapshots\<close>

lemma string_cmp_le: "string_cmp a b \<le> 0 \<longleftrightarrow> a \<le> b"
  by (auto simp: string_cmp_def)

interpretation by_ID: keyed_comparator "\<lambda>l r. string_cmp (rec_ID l) (rec_ID r)" rec_ID
  by unfold_locales (auto simp: string_cmp_def split: if_splits)

lemma set_visible:
  assumes "store_wf s"
  shows "r \<in> set (visible_records s) \<longleftrightarrow>
    map_of (st_records s) (rec_Identity r) = Some r \<and> \<not> excluded s (rec_Identity r) r"
proof -
  have "(i, r) \<in> set (st_records s) \<longleftrightarrow> i = rec_Identity r \<and> map_of (st_records s) (rec_Identity r) = Some r" for i
    using assms by (auto simp: store_wf_def list_all_iff record_ok_def)
  then show ?thesis by (auto simp: visible_records_def image_iff)
qed

lemma distinct_visible_ID:
  assumes "store_wf s"
  shows "distinct (map rec_ID (visible_records s))"
proof -
  let ?V = "filter (\<lambda>(i, r). \<not> excluded s i r) (st_records s)"
  have "map rec_ID (visible_records s) = map identity_String (map fst ?V)"
    using assms by (auto simp: visible_records_def store_wf_def list_all_iff record_ok_def rec_ID_def)
  moreover have "distinct (map fst ?V)" using assms by (simp add: store_wf_def alist_wf_filter)
  ultimately show ?thesis by (simp add: distinct_map inj_on_def)
qed

lemma pruned_wf: "store_inv s \<Longrightarrow> store_wf (snd (prune_counted now s))"
  using prune_counted_inv by (auto simp: store_inv_def)

lemma pruned_lookup:
  assumes "store_inv s"
  shows "map_of (st_records (snd (prune_counted now s))) i = Some r \<longleftrightarrow>
    map_of (st_records s) i = Some r \<and> live_at now r"
  using store_inv_wf [OF assms]
  by (auto simp: map_of_filter_key simp del: map_of_eq_Some_iff split: option.splits)

lemma Snapshot_list:
  "fst (Snapshot now s) =
     sort_by (\<lambda>l r. string_cmp (rec_ID l) (rec_ID r)) (visible_records (snd (prune_counted now s)))"
  by (simp add: Snapshot_def SnapshotWithSequence_def Let_def split_beta)

lemma in_Snapshot_iff:
  assumes "store_inv s"
  shows "r \<in> set (fst (Snapshot now s)) \<longleftrightarrow>
    map_of (st_records s) (rec_Identity r) = Some r \<and> live_at now r \<and> \<not> excluded s (rec_Identity r) r"
  using pruned_lookup [OF assms] by (auto simp: Snapshot_list set_visible [OF pruned_wf [OF assms]] excluded_def)

lemma Snapshot_strictly_sorted:
  assumes "store_inv s"
  shows "sorted_wrt (<) (map rec_ID (fst (Snapshot now s)))"
proof -
  let ?S = "fst (Snapshot now s)"
  have "sorted_wrt (\<lambda>l r. rec_ID l \<le> rec_ID r) ?S"
    using by_ID.sorted_sort_by by (simp add: Snapshot_list string_cmp_le)
  moreover have "mset (map rec_ID ?S) = mset (map rec_ID (visible_records (snd (prune_counted now s))))"
    by (simp add: Snapshot_list)
  then have "distinct (map rec_ID ?S)"
    using distinct_visible_ID [OF pruned_wf [OF assms]] mset_eq_imp_distinct_iff by metis
  ultimately show ?thesis
    by (simp add: sorted_map strict_sorted_iff)
qed

text \<open>A snapshot of a reachable store is the enumeration, in strictly increasing order of the
  encoded identity, of exactly the observations that are stored, not expired and not excluded at
  their revision. The random iteration order of Go maps therefore never shows in a snapshot.\<close>

theorem snapshot_exact:
  fixes gen ops now
  defines "s \<equiv> fold (store_apply gen) ops NewStore"
  shows "sorted_wrt (<) (map rec_ID (fst (Snapshot now s))) \<and>
    set (fst (Snapshot now s)) =
      {r. map_of (st_records s) (rec_Identity r) = Some r \<and> live_at now r \<and> \<not> excluded s (rec_Identity r) r}"
  using reachable_store_inv [of gen ops] by (auto simp: s_def in_Snapshot_iff Snapshot_strictly_sorted)

subsection \<open>Publishing\<close>

text \<open>An accepted publication of an unresolved observation is in every later snapshot taken
  before its expiry while nothing else happens, unless that revision was excluded; and it never
  replaces a live observation of the same identity that has a newer revision.\<close>

theorem publish_visible:
  fixes gen ops
  defines "s \<equiv> fold (store_apply gen) ops NewStore"
  assumes "Publish gen now src v s = (None, s')" "obs_Disposition v \<noteq> DispositionResolved"
    and "time_after (obs_ValidUntil v) later"
    and "\<And>g e. map_of (st_watermarks s) (target_identity src v, g) = Some e \<Longrightarrow> ex_through e < obs_Revision v"
  shows "(\<exists>r\<in>set (fst (Snapshot later s')). rec_Identity r = target_identity src v \<and> rec_Observation r = v) \<and>
    (\<forall>c. map_of (st_records s) (target_identity src v) = Some c \<and> live_at now c \<longrightarrow>
       obs_Revision (rec_Observation c) \<le> obs_Revision v)"
proof -
  let ?i = "target_identity src v"
  have inv: "store_inv s" unfolding s_def by (rule reachable_store_inv)
  have inv': "store_inv s'" using Publish_inv [OF inv, of gen now src v] assms(2) by simp
  have stored: "\<exists>r. map_of (st_records s') ?i = Some r \<and> rec_Identity r = ?i \<and> rec_Observation r = v
      \<and> st_watermarks s' = st_watermarks s \<and>
      (\<forall>c. map_of (st_records (snd (prune_counted now s))) ?i = Some c \<longrightarrow>
         obs_Revision (rec_Observation c) \<le> obs_Revision v)"
  proof (cases rule: Publish_branches [of gen now src v s])
    case (repeated c t)
    then have "(?i, c) \<in> set (st_records (snd (prune_counted now s)))" by (auto dest: map_of_SomeD)
    then have "rec_Identity c = ?i"
      using pruned_wf [OF inv, of now] by (auto simp: store_wf_def list_all_iff record_ok_def)
    with repeated assms(2) show ?thesis by auto
  qed (use assms(2,3) in \<open>auto simp: update_conv'\<close>)
  then obtain r where r: "map_of (st_records s') ?i = Some r" "rec_Identity r = ?i" "rec_Observation r = v"
    and w: "st_watermarks s' = st_watermarks s" by blast
  have "\<not> excluded s' ?i r"
    using assms(5) by (auto simp: excluded_def w r(3) not_le split: option.splits)
  then have "r \<in> set (fst (Snapshot later s'))"
    using r assms(4) by (simp add: in_Snapshot_iff [OF inv'] live_at_def)
  then show ?thesis using r stored pruned_lookup [OF inv, of now ?i] by blast
qed

definition demo_observation :: Observation where
  "demo_observation = \<lparr>obs_Instance = \<lparr>ref_ID = ''desk'', ref_Generation = 1\<rparr>, obs_Channel = ''status'',
     obs_Key = ''busy'', obs_Revision = 1, obs_Disposition = DispositionActionable, obs_Impact = ImpactNormal,
     obs_ReasonCode = ''on_air'', obs_ObservedAt = \<lparr>instant = 10, zone_offset = 0\<rparr>,
     obs_UpdatedAt = \<lparr>instant = 10, zone_offset = 0\<rparr>, obs_ValidUntil = \<lparr>instant = 1000, zone_offset = 0\<rparr>,
     obs_Scene = None, obs_BusyTimer = Some ''busy'', obs_Audio = None\<rparr>"

definition demo_source :: Source where
  "demo_source = \<lparr>src_PluginID = ''calendar'', src_Generation = 1\<rparr>"

definition demo_time :: gotime where
  "demo_time = \<lparr>instant = 20, zone_offset = 0\<rparr>"

lemma demo_valid: "observation_Validate demo_observation demo_time = []"
  by (simp add: validate_eval go_time demo_observation_def demo_time_def)

lemma demo_publish: "fst (Publish None demo_time demo_source demo_observation NewStore) = None"
  by (simp add: Publish_def Let_def demo_valid source_stale_def demo_source_def prune_counted_def pruneLocked_def
      NewStore_def atCapacityLocked_def scope_count_def globalCapacity_def pluginCapacity_def
      pluginInstanceCapacity_def pluginInstanceChannelCapacity_def)

theorem publish_visible_witness:
  "\<exists>r\<in>set (fst (Snapshot demo_time (snd (Publish None demo_time demo_source demo_observation NewStore)))).
     rec_Observation r = demo_observation"
proof -
  have p: "Publish None demo_time demo_source demo_observation (fold (store_apply None) [] NewStore) =
      (None, snd (Publish None demo_time demo_source demo_observation NewStore))"
    using demo_publish by (simp add: prod_eq_iff)
  show ?thesis
    using publish_visible [OF p, of demo_time]
    by (auto simp: demo_observation_def demo_time_def NewStore_def time_after_def)
qed

subsection \<open>Exclusion\<close>

text \<open>An exclusion is a tombstone for a revision of one generation of an identity.\<close>

definition tombstoned :: "Identity \<Rightarrow> u64 \<Rightarrow> u64 \<Rightarrow> Store \<Rightarrow> bool" where
  "tombstoned i g rv s \<longleftrightarrow> (\<exists>e. map_of (st_watermarks s) (i, g) = Some e \<and> rv \<le> ex_through e)"

text \<open>Only deleting the app instance through that generation removes a tombstone.\<close>

fun spares :: "Identity \<Rightarrow> u64 \<Rightarrow> store_op \<Rightarrow> bool" where
  "spares i g (OpWithdrawInstance p inst t) = (\<not> instance_through p inst t i g)"
| "spares i g _ = True"

lemma excludeThrough_tombstones: "tombstoned i g rv (excludeThroughLocked i g rv s)"
  by (auto simp: tombstoned_def excludeThroughLocked_def Let_def update_conv')

lemma excludeThrough_keeps:
  "tombstoned i g rv s \<Longrightarrow> tombstoned i g rv (excludeThroughLocked j h n s)"
  by (auto simp: tombstoned_def excludeThroughLocked_def Let_def update_conv' read_watermark_def
      intro: order.trans less_imp_le)

lemma Reserve_keeps:
  "tombstoned i g rv s \<Longrightarrow> tombstoned i g rv (snd (ReserveExactRevisionWithoutSignal j h n s))"
  by (auto simp: tombstoned_def ReserveExactRevisionWithoutSignal_def update_conv' read_watermark_def)

lemma Release_keeps:
  "tombstoned i g rv s \<Longrightarrow> rv \<noteq> 0 \<Longrightarrow> tombstoned i g rv (ReleaseExactRevisionReservationWithoutSignal j h n s)"
  by (auto simp: tombstoned_def ReleaseExactRevisionReservationWithoutSignal_def update_conv' delete_conv'
      split: option.splits)

lemma WithdrawInstance_keeps:
  assumes "store_inv s" "tombstoned i g rv s" "\<not> instance_through p inst t i g"
  shows "tombstoned i g rv (WithdrawInstance p inst t s)"
  using assms store_inv_wf [OF assms(1)]
  by (auto simp: tombstoned_def WithdrawInstance_simps map_of_filter_key simp del: map_of_eq_Some_iff)

lemma Publish_watermarks: "st_watermarks (snd (Publish gen now src v s)) = st_watermarks s"
  by (cases rule: Publish_branches [of gen now src v s]) auto

lemma op_keeps_tombstone:
  assumes "store_inv s" "tombstoned i g rv s" "rv \<noteq> 0" "spares i g op"
  shows "tombstoned i g rv (store_apply gen op s)"
proof -
  have same: "st_watermarks s' = st_watermarks s \<Longrightarrow> tombstoned i g rv s'" for s'
    using assms(2) by (simp add: tombstoned_def)
  show ?thesis
  proof (cases op)
    case (OpExcludeExact j h n)
    then show ?thesis
      using assms(2) by (auto simp: ExcludeExactRevisionWithoutSignal_def Let_def excludeThrough_keeps)
  qed (use assms in \<open>auto simp: Publish_watermarks Withdraw_def WithdrawGeneration_simps Signal_def Drain_def
      Diagnostics_def Let_def split_beta ExcludeRevisionWithoutSignal_def
      intro: same excludeThrough_keeps Reserve_keeps Release_keeps WithdrawInstance_keeps\<close>)
qed

lemma run_keeps_tombstone:
  assumes "store_inv s" "tombstoned i g rv s" "rv \<noteq> 0" "list_all (spares i g) ops"
  shows "tombstoned i g rv (fold (store_apply gen) ops s)"
  using assms
  by (induction ops arbitrary: s) (auto intro: op_keeps_tombstone store.apply_inv)


definition demo_identity :: Identity where
  "demo_identity = \<lparr>id_PluginID = ''calendar'', id_InstanceID = ''desk'', id_Channel = ''status'', id_Key = ''busy''\<rparr>"

definition demo_published :: Store where
  "demo_published = NewStore\<lparr>st_records := [(demo_identity, admitted_record demo_source demo_observation 1)],
     st_changes := True, st_sequence := 1\<rparr>"

definition demo_dismissed :: Store where
  "demo_dismissed = demo_published\<lparr>st_watermarks := [((demo_identity, 1), \<lparr>ex_through = 1, ex_reserved = 0\<rparr>)]\<rparr>"

definition demo_next :: Observation where
  "demo_next = demo_observation\<lparr>obs_Revision := 2\<rparr>"

lemma demo_next_valid: "observation_Validate demo_next demo_time = []"
  by (simp add: validate_eval go_time demo_next_def demo_observation_def demo_time_def)

lemmas demo_eval = Publish_def Let_def source_stale_def demo_source_def prune_counted_def pruneLocked_def
  NewStore_def atCapacityLocked_def scope_count_def globalCapacity_def pluginCapacity_def
  pluginInstanceCapacity_def pluginInstanceChannelCapacity_def rec_Identity_def demo_identity_def
  admitted_record_def notify_def notify_if_def

lemma demo_published_eq: "Publish None demo_time demo_source demo_observation NewStore = (None, demo_published)"
  by (simp add: demo_eval demo_valid demo_published_def) (simp add: demo_observation_def)

lemma demo_dismissed_eq:
  "ExcludeExactRevisionWithoutSignal None demo_identity 1 1 demo_published = (True, demo_dismissed)"
  by (simp add: ExcludeExactRevisionWithoutSignal_def excludeThroughLocked_def read_watermark_def live_exact_def
      demo_dismissed_def demo_published_def demo_eval demo_observation_def)

definition demo_updated :: Store where
  "demo_updated = demo_dismissed\<lparr>st_records := [(demo_identity, admitted_record demo_source demo_next 2)],
     st_sequence := 2\<rparr>"

lemma demo_live [simp]: "live_at demo_time (admitted_record demo_source demo_observation 1)"
  "live_at demo_time (admitted_record demo_source demo_next 2)"
  by (simp_all add: demo_next_def demo_observation_def live_at_def time_after_def demo_time_def admitted_record_def)

lemma demo_dismissed_pruned: "prune_counted demo_time demo_dismissed = (False, demo_dismissed)"
  by (simp add: prune_counted_def pruneLocked_def demo_dismissed_def demo_published_def)

lemma demo_next_identity:
  "rec_Identity \<lparr>rec_PluginID = src_PluginID demo_source, rec_Generation = src_Generation demo_source,
     rec_AdmissionSequence = 0, rec_Observation = demo_next\<rparr> = demo_identity"
  by (simp add: rec_Identity_def demo_identity_def demo_source_def demo_next_def demo_observation_def)

lemma demo_next_fields: "obs_Revision demo_next = 2" "obs_Disposition demo_next = DispositionActionable"
  "map_of (st_records demo_dismissed) demo_identity = Some (admitted_record demo_source demo_observation 1)"
  "obs_Revision demo_observation = 1"
  "\<not> source_stale None demo_source demo_next"
  by (simp_all add: demo_next_def demo_observation_def source_stale_def admitted_record_def demo_source_def
      demo_dismissed_def demo_published_def)

lemma demo_updated_eq: "Publish None demo_time demo_source demo_next demo_dismissed = (None, demo_updated)"
  by (simp add: Publish_def Let_def demo_next_valid demo_next_identity demo_dismissed_pruned demo_next_fields)
    (simp add: demo_updated_def demo_dismissed_def demo_published_def notify_def admitted_record_def)

lemma demo_updated_pruned: "prune_counted demo_time demo_updated = (False, demo_updated)"
  by (simp add: prune_counted_def pruneLocked_def demo_updated_def)

lemma demo_next_shown:
  "admitted_record demo_source demo_next 2 \<in>
     set (fst (Snapshot demo_time (snd (Publish None demo_time demo_source demo_next demo_dismissed))))"
proof -
  have "\<not> excluded demo_updated demo_identity (admitted_record demo_source demo_next 2)"
    by (simp add: excluded_def demo_updated_def demo_dismissed_def read_watermark_def admitted_record_def
        demo_next_fields demo_source_def word_le_nat_alt)
  then have "visible_records demo_updated = [admitted_record demo_source demo_next 2]"
    by (simp add: visible_records_def excluded_def) (simp add: demo_updated_def)
  then show ?thesis by (simp add: Snapshot_list demo_updated_eq demo_updated_pruned)
qed


subsection \<open>Waking the engine\<close>

lemma not_pruned_same: "\<not> fst (prune_counted now s) \<Longrightarrow> snd (prune_counted now s) = s"
  by (simp add: prune_counted_def pruneLocked_def list_ex_iff split_beta filter_id_conv)

lemma pruned_sequence: "fst (prune_counted now s) \<Longrightarrow> st_sequence (snd (prune_counted now s)) = st_sequence s + 1"
  by (simp add: prune_counted_def pruneLocked_def Let_def)

text \<open>What the engine needs of an operation that changes the records.\<close>

definition announced :: "Store \<Rightarrow> Store \<Rightarrow> bool" where
  "announced s s' \<longleftrightarrow> st_changes s' \<and> (st_sequence s' = st_sequence s + 1 \<or> st_sequence s' = st_sequence s + 2)"

lemma prune_announced:
  assumes "st_records (snd (prune_counted now s)) \<noteq> st_records s" "st_sequence s' = st_sequence (snd (prune_counted now s))"
    and "fst (prune_counted now s) \<Longrightarrow> st_changes s'"
  shows "announced s s'"
proof -
  have "fst (prune_counted now s)" using assms(1) not_pruned_same by metis
  then show ?thesis using assms(2,3) by (simp add: announced_def pruned_sequence)
qed

lemma publish_announced:
  assumes "st_sequence s' = st_sequence (snd (prune_counted now s)) + 1" "st_changes s'"
  shows "announced s s'"
  using assms not_pruned_same [of now s] pruned_sequence [of now s]
  by (cases "fst (prune_counted now s)") (auto simp: announced_def)

lemma Publish_announced:
  assumes "st_records (snd (Publish gen now src v s)) \<noteq> st_records s"
  shows "announced s (snd (Publish gen now src v s))"
  using assms
  by (cases rule: Publish_branches [of gen now src v s])
    (auto intro: prune_announced publish_announced simp del: prune_counted_simps)

text \<open>No lost wake-up: an operation that changes the stored records advances the mutation sequence
  (by one, or by two when it also pruned) and leaves a signal for the engine, which compares the
  sequence with the one it last processed. An operation that leaves the sequence alone changes no
  record.\<close>

theorem store_change_announced:
  assumes "st_records (store_apply gen op s) \<noteq> st_records s"
  shows "st_changes (store_apply gen op s) \<and>
    (st_sequence (store_apply gen op s) = st_sequence s + 1 \<or> st_sequence (store_apply gen op s) = st_sequence s + 2)"
proof -
  have "announced s (store_apply gen op s)"
  proof (cases op)
    case (OpSnapshot now)
    then show ?thesis using assms by (intro prune_announced [of now]) (auto simp: notify_changes)
  next
    case (OpDiagnostics now)
    then show ?thesis using assms
      by (intro prune_announced [of now]) (auto simp: notify_changes Diagnostics_def Let_def split_beta)
  next
    case (OpWithdrawInstance p inst t)
    then show ?thesis using assms
      by (auto simp: WithdrawInstance_def Let_def announced_def notify_changes list_ex_iff filter_id_conv
          split: if_splits)
  next
    case (OpWithdrawGeneration p g)
    then show ?thesis using assms
      by (auto simp: WithdrawGeneration_def Let_def announced_def notify_changes list_ex_iff filter_id_conv
          split: if_splits)
  next
    case (OpRelease i g rv)
    then show ?thesis using assms
      by (auto simp: ReleaseExactRevisionReservationWithoutSignal_def split: option.splits if_splits)
  qed (use assms Publish_announced in \<open>auto simp: Withdraw_def announced_def notify_changes Signal_def Drain_def
      ExcludeRevisionWithoutSignal_def ReserveExactRevisionWithoutSignal_def excludeThroughLocked_def Let_def
      ExcludeExactRevisionWithoutSignal_def split: if_splits\<close>)
  then show ?thesis by (simp add: announced_def)
qed

theorem store_change_announced_witness:
  "st_changes (store_apply None (OpPublish demo_time demo_source demo_observation) NewStore)"
proof -
  have "st_records (store_apply None (OpPublish demo_time demo_source demo_observation) NewStore) \<noteq> st_records NewStore"
    by (simp add: demo_published_eq) (simp add: demo_published_def NewStore_def)
  then show ?thesis using store_change_announced by blast
qed

end
