(* ===== verification/Attention.thy ===== *)
theory Attention
  imports ObservationStore
begin

text \<open>
  \<open>internal/attention/selector.go\<close>: which stored observations may be presented, what the arbiter
  selects among them, and the explanation given for every one of them. The resolver, which turns a
  record into the rule of its app, is an argument, as it is in the code; \<open>Policies\<close> defines the
  daemon's own. The lemmas show that what is selected satisfies every condition of its rule, that every
  record gets an explanation, that exactly the selected record is explained as selected, and bounds on
  the jittered rotation.
\<close>

unbundle bit_operations_syntax

subsection \<open>Rules and evaluations\<close>

datatype Reason = ReasonSelected | ReasonDisabled | ReasonAssetsPending | ReasonStale | ReasonExpired
  | ReasonResolved | ReasonNotActionableForAttention | ReasonNotRelevant | ReasonNotDue | ReasonAcknowledged
  | ReasonCooldownUntil | ReasonHeldByCurrent | ReasonLowerBand | ReasonLowerImpact | ReasonFairnessWait
  | ReasonForegroundInactive | ReasonBlockedByAtomicExecution
  | NoReason \<comment> \<open>the empty string\<close>

record Rule =
  ru_Enabled :: bool
  ru_AssetsReady :: bool
  ru_Policy :: Policy
  ru_DevicePriority :: int
  ru_HoldMS :: int
  ru_CooldownMS :: int
  ru_RequiresAck :: bool
  ru_Acknowledged :: bool
  ru_Foreground :: bool
  ru_RotationIntervalMS :: int
  ru_RotationJitterPercent :: int
  ru_BlockedByAtomicExecution :: bool

type_synonym Resolver = "ObsRecord \<Rightarrow> Rule \<times> bool"

record Evaluation =
  ev_ObservationID :: string
  ev_PluginID :: string
  ev_InstanceID :: string
  ev_Channel :: string
  ev_Policy :: Policy
  ev_Disposition :: Disposition
  ev_Impact :: Impact
  ev_Band :: Band
  ev_ReasonCode :: string
  ev_Reason :: Reason
  ev_EvaluatedAt :: gotime
  ev_CooldownUntil :: gotime
  ev_NextDue :: gotime

definition ineligibleReason :: "Rule \<Rightarrow> Disposition \<Rightarrow> Reason" where
  "ineligibleReason rule disposition =
     (case ru_Policy rule of
        PolicyAttention \<Rightarrow>
          if disposition \<noteq> DispositionActionable then ReasonNotActionableForAttention else NoReason
      | PolicyInteractive \<Rightarrow> if \<not> ru_Foreground rule then ReasonForegroundInactive else NoReason
      | PolicyWhenRelevant \<Rightarrow>
          if disposition \<noteq> DispositionNotable \<and> disposition \<noteq> DispositionActionable
          then ReasonNotRelevant else NoReason
      | PolicyRotation \<Rightarrow>
          if disposition \<noteq> DispositionNotable \<and> disposition \<noteq> DispositionActionable
          then ReasonNotRelevant else NoReason
      | OtherPolicy _ \<Rightarrow> ReasonDisabled)"

definition derive :: "ObsRecord \<Rightarrow> Rule \<Rightarrow> Candidate" where
  "derive r rule =
     (let v = rec_Observation r
      in \<lparr>cd_PluginID = rec_PluginID r, cd_InstanceID = ref_ID (obs_Instance v), cd_Channel = obs_Channel v,
          cd_Key = obs_Key v, cd_Revision = obs_Revision v, cd_Generation = rec_Generation r,
          cd_Policy = ru_Policy rule, cd_Band = BandFor (ru_Policy rule) (obs_Impact v),
          cd_Impact = obs_Impact v, cd_AdmissionSequence = rec_AdmissionSequence r,
          cd_Reason = obs_ReasonCode v, cd_CreatedAt = obs_ObservedAt v, cd_UpdatedAt = obs_UpdatedAt v,
          cd_ExpiresAt = obs_ValidUntil v, cd_HoldMS = ru_HoldMS rule, cd_CooldownMS = ru_CooldownMS rule,
          cd_RequiresAck = ru_RequiresAck rule, cd_Acknowledged = ru_Acknowledged rule,
          cd_DevicePriority = ru_DevicePriority rule,
          cd_Scene = (case obs_Scene v of None \<Rightarrow> [] | Some scene \<Rightarrow> scene),
          cd_BusyTimer = obs_BusyTimer v, cd_AudioCue = obs_Audio v\<rparr>)"

subsection \<open>Rotation\<close>

text \<open>\<open>hash/fnv\<close>'s 64-bit FNV-1a.\<close>

definition fnv64a :: "string \<Rightarrow> u64" where
  "fnv64a s = fold (\<lambda>c h. (h XOR of_char c) * 1099511628211) s 14695981039346656037"

definition clampJitter :: "int \<Rightarrow> int" where
  "clampJitter p = (if p < 0 then 0 else if p > 50 then 50 else p)"

definition rotationNextDue :: "string \<Rightarrow> gotime \<Rightarrow> int \<Rightarrow> int \<Rightarrow> gotime" where
  "rotationNextDue i lastShown intervalMS jitterPercent =
     (if is_zero_time lastShown then zero_time
      else let interval = ms_duration intervalMS
      in if interval \<le> 0 then lastShown
      else let jitter = clampJitter jitterPercent
      in if jitter = 0 then time_add lastShown interval
      else let maximumBasisPoints = jitter * 100;
               span = 2 * maximumBasisPoints + 1;
               offsetBasisPoints = uint (fnv64a i) mod span - maximumBasisPoints
      in time_add lastShown (int64 (interval + (interval div 10000) * offsetBasisPoints)))"

subsection \<open>Selection\<close>

definition start_evaluation :: "gotime \<Rightarrow> ObsRecord \<Rightarrow> Rule \<Rightarrow> Evaluation" where
  "start_evaluation now r rule =
     (let v = rec_Observation r
      in \<lparr>ev_ObservationID = rec_ID r, ev_PluginID = rec_PluginID r, ev_InstanceID = ref_ID (obs_Instance v),
          ev_Channel = obs_Channel v, ev_Policy = ru_Policy rule, ev_Disposition = obs_Disposition v,
          ev_Impact = obs_Impact v, ev_Band = OtherBand '''', ev_ReasonCode = obs_ReasonCode v,
          ev_Reason = NoReason, ev_EvaluatedAt = now, ev_CooldownUntil = zero_time, ev_NextDue = zero_time\<rparr>)"

text \<open>The body of the loop of \<open>Select\<close>: the evaluation of one record, and the candidate if it is eligible.\<close>

definition evaluate :: "Resolver \<Rightarrow> History \<Rightarrow> gotime \<Rightarrow> ObsRecord \<Rightarrow> Evaluation \<times> Candidate option" where
  "evaluate resolve h now r =
     (let v = rec_Observation r; (rule, exists) = resolve r; ev = start_evaluation now r rule;
          refuse = (\<lambda>reason. (ev\<lparr>ev_Reason := reason\<rparr>, None))
      in if \<not> exists \<or> \<not> ru_Enabled rule then refuse ReasonDisabled
      else if \<not> ru_AssetsReady rule then refuse ReasonAssetsPending
      else if obs_Disposition v = DispositionResolved then refuse ReasonResolved
      else if is_zero_time (obs_ValidUntil v) \<or> \<not> time_before now (obs_ValidUntil v) then refuse ReasonExpired
      else if ru_RequiresAck rule \<and> ru_Acknowledged rule then refuse ReasonAcknowledged
      else if ru_BlockedByAtomicExecution rule then refuse ReasonBlockedByAtomicExecution
      else if ineligibleReason rule (obs_Disposition v) \<noteq> NoReason
        then refuse (ineligibleReason rule (obs_Disposition v))
      else
        let c = derive r rule; shown = last_shown h (cd_ID c);
            rotation = (ru_Policy rule = PolicyRotation);
            due = rotationNextDue (cd_ID c) shown (ru_RotationIntervalMS rule) (ru_RotationJitterPercent rule);
            ev = ev\<lparr>ev_Band := cd_Band c, ev_NextDue := (if rotation then due else zero_time)\<rparr>
        in if rotation \<and> \<not> (cd_ID c = CurrentID h \<and> within_hold h now c)
              \<and> \<not> is_zero_time due \<and> time_before now due
           then (ev\<lparr>ev_Reason := ReasonNotDue\<rparr>, None)
           else if cd_ID c \<noteq> CurrentID h \<and> \<not> is_zero_time shown \<and> time_before now (time_add shown (cd_Cooldown c))
           then (ev\<lparr>ev_Reason := ReasonCooldownUntil, ev_CooldownUntil := time_add shown (cd_Cooldown c)\<rparr>, None)
           else (ev, Some c))"

text \<open>The evaluations, and the eligible candidates each with its index.\<close>

fun scan :: "Resolver \<Rightarrow> History \<Rightarrow> gotime \<Rightarrow> nat \<Rightarrow> ObsRecord list \<Rightarrow> Evaluation list \<times> (Candidate \<times> nat) list" where
  "scan resolve h now n [] = ([], [])"
| "scan resolve h now n (r # rs) =
     (let (ev, c) = evaluate resolve h now r; (evs, eligible) = scan resolve h now (Suc n) rs
      in (ev # evs, case c of None \<Rightarrow> eligible | Some c \<Rightarrow> (c, n) # eligible))"

definition outcome_reason :: "History \<Rightarrow> gotime \<Rightarrow> Candidate \<Rightarrow> Candidate \<Rightarrow> Reason" where
  "outcome_reason h now sel c =
     (if cd_ID c = cd_ID sel then ReasonSelected
      else if CompareBand (cd_Band c) (cd_Band sel) < 0 then ReasonLowerBand
      else if CompareImpact (cd_Impact c) (cd_Impact sel) < 0 then ReasonLowerImpact
      else if cd_ID sel = CurrentID h \<and> within_hold h now sel then ReasonHeldByCurrent
      else ReasonFairnessWait)"

fun mark :: "History \<Rightarrow> gotime \<Rightarrow> Candidate \<Rightarrow> Candidate \<times> nat \<Rightarrow> Evaluation list \<Rightarrow> Evaluation list" where
  "mark h now sel (c, n) evs = evs[n := (evs ! n)\<lparr>ev_Reason := outcome_reason h now sel c\<rparr>]"

definition attention_Select ::
  "ObsRecord list \<Rightarrow> Resolver \<Rightarrow> History \<Rightarrow> gotime \<Rightarrow> Candidate option \<times> Evaluation list" where
  "attention_Select records resolve h now =
     (let (evs, eligible) = scan resolve h now 0 records
      in case presentation_Select (map fst eligible) h now of
           None \<Rightarrow> (None, evs)
         | Some sel \<Rightarrow> (Some sel, fold (mark h now sel) eligible evs))"

subsection \<open>The selection as one pass over the records\<close>

text \<open>The candidates that a list of records offers, and the final evaluation of one record.\<close>

definition offered :: "Resolver \<Rightarrow> History \<Rightarrow> gotime \<Rightarrow> ObsRecord list \<Rightarrow> Candidate list" where
  "offered resolve h now records = List.map_filter (\<lambda>r. snd (evaluate resolve h now r)) records"

definition explained :: "Resolver \<Rightarrow> History \<Rightarrow> gotime \<Rightarrow> Candidate \<Rightarrow> ObsRecord \<Rightarrow> Evaluation" where
  "explained resolve h now sel r =
     (case evaluate resolve h now r of
        (ev, None) \<Rightarrow> ev
      | (ev, Some c) \<Rightarrow> ev\<lparr>ev_Reason := outcome_reason h now sel c\<rparr>)"

lemma scan_evaluations: "fst (scan resolve h now n rs) = map (\<lambda>r. fst (evaluate resolve h now r)) rs"
  by (induction rs arbitrary: n) (auto simp: Let_def split_beta)

lemma scan_eligible: "map fst (snd (scan resolve h now n rs)) = offered resolve h now rs"
  by (induction rs arbitrary: n)
    (auto simp: Let_def split_beta offered_def List.map_filter_simps split: option.splits)

lemma fold_mark_Cons:
  assumes "\<forall>(c, m)\<in>set es. 0 < m"
  shows "fold (mark h now sel) es (e # evs) = e # fold (mark h now sel) (map (\<lambda>(c, n). (c, n - 1)) es) evs"
  using assms
proof (induction es arbitrary: evs)
  case (Cons x es)
  then show ?case by (cases x; cases "snd x") auto
qed simp

lemma scan_shift:
  "snd (scan resolve h now (Suc n) rs) = map (\<lambda>(c, m). (c, Suc m)) (snd (scan resolve h now n rs))"
  by (induction rs arbitrary: n) (auto simp: Let_def split_beta split: option.splits)

lemma scan_fold:
  "fold (mark h now sel) (snd (scan resolve h now 0 rs)) (fst (scan resolve h now 0 rs)) =
     map (explained resolve h now sel) rs"
proof (induction rs)
  case (Cons r rs)
  obtain ev c where e: "evaluate resolve h now r = (ev, c)" by fastforce
  obtain evs es where s: "scan resolve h now (Suc 0) rs = (evs, es)" by fastforce
  have "\<forall>(c, m)\<in>set es. 0 < m"
    using scan_shift [of resolve h now 0 rs] by (auto simp: s)
  note shift = fold_mark_Cons [OF this, of h now sel]
  have "map (\<lambda>(c, n). (c, n - 1)) es = snd (scan resolve h now 0 rs)"
    using scan_shift [of resolve h now 0 rs] by (simp add: s comp_def split_beta)
  moreover have "evs = fst (scan resolve h now 0 rs)"
    using scan_evaluations [of resolve h now "Suc 0" rs] by (simp add: scan_evaluations s)
  ultimately show ?case
    using Cons by (cases c) (simp_all add: explained_def e s shift)
qed simp

lemma attention_Select_eq:
  "attention_Select records resolve h now =
     (case presentation_Select (offered resolve h now records) h now of
        None \<Rightarrow> (None, map (\<lambda>r. fst (evaluate resolve h now r)) records)
      | Some sel \<Rightarrow> (Some sel, map (explained resolve h now sel) records))"
  using scan_fold [of h now _ resolve records]
  by (auto simp: attention_Select_def Let_def split_beta scan_eligible scan_evaluations split: option.splits)

subsection \<open>What may be presented\<close>

text \<open>
  The specification of eligibility: the conditions on a record and its rule under which it is offered
  to the arbiter.
\<close>

definition policy_admits :: "Rule \<Rightarrow> Disposition \<Rightarrow> bool" where
  "policy_admits rule d \<longleftrightarrow>
     (case ru_Policy rule of
        PolicyAttention \<Rightarrow> d = DispositionActionable
      | PolicyInteractive \<Rightarrow> ru_Foreground rule
      | PolicyWhenRelevant \<Rightarrow> d \<in> {DispositionNotable, DispositionActionable}
      | PolicyRotation \<Rightarrow> d \<in> {DispositionNotable, DispositionActionable}
      | OtherPolicy _ \<Rightarrow> False)"

definition rotation_due :: "History \<Rightarrow> gotime \<Rightarrow> Rule \<Rightarrow> Candidate \<Rightarrow> bool" where
  "rotation_due h now rule c \<longleftrightarrow>
     (let due = rotationNextDue (cd_ID c) (last_shown h (cd_ID c)) (ru_RotationIntervalMS rule)
                  (ru_RotationJitterPercent rule)
      in cd_ID c = CurrentID h \<and> within_hold h now c \<or> is_zero_time due \<or> \<not> time_before now due)"

definition may_present :: "Resolver \<Rightarrow> History \<Rightarrow> gotime \<Rightarrow> ObsRecord \<Rightarrow> bool" where
  "may_present resolve h now r \<longleftrightarrow>
     (let (rule, exists) = resolve r; v = rec_Observation r; c = derive r rule
      in exists \<and> ru_Enabled rule \<and> ru_AssetsReady rule
         \<and> obs_Disposition v \<noteq> DispositionResolved
         \<and> \<not> is_zero_time (obs_ValidUntil v) \<and> time_before now (obs_ValidUntil v)
         \<and> \<not> (ru_RequiresAck rule \<and> ru_Acknowledged rule)
         \<and> \<not> ru_BlockedByAtomicExecution rule
         \<and> policy_admits rule (obs_Disposition v)
         \<and> (ru_Policy rule \<noteq> PolicyRotation \<or> rotation_due h now rule c)
         \<and> \<not> cooling_down h now c)"

lemma policy_admits_iff: "ineligibleReason rule d = NoReason \<longleftrightarrow> policy_admits rule d"
  by (auto simp: ineligibleReason_def policy_admits_def split: Policy.splits)

lemma evaluate_iff:
  "snd (evaluate resolve h now r) =
     (if may_present resolve h now r then Some (derive r (fst (resolve r))) else None)"
proof -
  obtain rule exists where "resolve r = (rule, exists)" by fastforce
  then show ?thesis
    unfolding evaluate_def may_present_def Let_def policy_admits_iff rotation_due_def cooling_down_def
    by (simp split del: if_split split: if_splits) blast
qed

abbreviation arbiter_reasons :: "Reason set" where
  "arbiter_reasons \<equiv>
     {ReasonSelected, ReasonLowerBand, ReasonLowerImpact, ReasonHeldByCurrent, ReasonFairnessWait}"

lemma ineligibleReason_other: "ineligibleReason rule d \<notin> arbiter_reasons"
  by (auto simp: ineligibleReason_def split: Policy.splits if_splits)

lemma evaluate_ID: "ev_ObservationID (fst (evaluate resolve h now r)) = rec_ID r"
  by (simp add: evaluate_def start_evaluation_def Let_def split_beta)

lemma evaluate_reason:
  assumes "snd (evaluate resolve h now r) = None"
  shows "ev_Reason (fst (evaluate resolve h now r)) \<notin> insert NoReason arbiter_reasons"
proof -
  obtain rule exists where "resolve r = (rule, exists)" by fastforce
  then show ?thesis
    using assms ineligibleReason_other [of rule "obs_Disposition (rec_Observation r)"]
    unfolding evaluate_def Let_def by (auto split: if_splits)
qed

lemma set_offered:
  "set (offered resolve h now records) =
     (\<lambda>r. derive r (fst (resolve r))) ` {r \<in> set records. may_present resolve h now r}"
  by (induction records) (auto simp: offered_def List.map_filter_simps evaluate_iff)

lemma derive_ID [simp]: "cd_ID (derive r rule) = rec_ID r"
  by (simp add: cd_ID_def rec_ID_def cd_Identity_def rec_Identity_def derive_def Let_def)

lemma may_present_eligible:
  assumes "may_present resolve h now r"
  shows "cd_Eligible (derive r (fst (resolve r))) now" "\<not> cooling_down h now (derive r (fst (resolve r)))"
  using assms by (simp_all add: may_present_def cd_Eligible_def derive_def Let_def split_beta)

lemma fst_attention_Select:
  "fst (attention_Select records resolve h now) = presentation_Select (offered resolve h now records) h now"
  by (simp add: attention_Select_eq split: option.splits)

text \<open>Something is selected for the display exactly when some stored observation may be presented:
  its app is enabled and its assets are ready, it is unresolved, unexpired, not acknowledged and not
  blocked by an atomic execution, its policy admits its disposition, and neither the rotation nor the
  cooldown makes it wait. The arbiter behind the filter never refuses all of what the filter offers.\<close>

theorem attention_selects_iff:
  "fst (attention_Select records resolve h now) = None \<longleftrightarrow>
     list_all (\<lambda>r. \<not> may_present resolve h now r) records"
proof -
  have "select_eligible (offered resolve h now records) h now = offered resolve h now records"
    unfolding select_eligible_def by (rule filter_True) (auto simp: set_offered may_present_eligible)
  then have "fst (attention_Select records resolve h now) = None \<longleftrightarrow> offered resolve h now records = []"
    by (simp only: fst_attention_Select Select_None_iff)
  moreover have "offered resolve h now records = [] \<longleftrightarrow> {r \<in> set records. may_present resolve h now r} = {}"
    unfolding set_empty [symmetric] set_offered by simp
  ultimately show ?thesis by (auto simp: list_all_iff)
qed

text \<open>What is selected is sound: it is the candidate derived from one of the stored records, that
  record may be presented, and no record that may be presented has a higher band.\<close>

theorem attention_selected_sound:
  assumes "fst (attention_Select records resolve h now) = Some c"
  shows "\<exists>r\<in>set records. may_present resolve h now r \<and> c = derive r (fst (resolve r)) \<and>
    (\<forall>r'\<in>set records. may_present resolve h now r' \<longrightarrow>
       bandPriority (BandFor (ru_Policy (fst (resolve r'))) (obs_Impact (rec_Observation r')))
         \<le> bandPriority (cd_Band c))"
proof -
  have sel: "presentation_Select (offered resolve h now records) h now = Some c"
    using assms by (simp only: fst_attention_Select)
  then have "c \<in> set (offered resolve h now records)"
    by (cases rule: Select_cases) (auto simp: select_eligible_def)
  then obtain r where r: "r \<in> set records" "may_present resolve h now r" "c = derive r (fst (resolve r))"
    by (auto simp: set_offered)
  have "bandPriority (BandFor (ru_Policy (fst (resolve r'))) (obs_Impact (rec_Observation r')))
      \<le> bandPriority (cd_Band c)" if "r' \<in> set records" "may_present resolve h now r'" for r'
  proof -
    have "derive r' (fst (resolve r')) \<in> eligible_set (offered resolve h now records) h now"
      using that may_present_eligible [OF that(2)] by (auto simp: select_eligible_def set_offered)
    from Select_band_maximal [OF sel this] show ?thesis by (simp add: derive_def Let_def)
  qed
  with r show ?thesis by blast
qed

lemma explained_reason:
  "ev_ObservationID (explained resolve h now sel r) = rec_ID r"
  "ev_Reason (explained resolve h now sel r) \<in> arbiter_reasons \<longleftrightarrow> may_present resolve h now r"
  "ev_Reason (explained resolve h now sel r) \<noteq> NoReason"
  "ev_Reason (explained resolve h now sel r) = ReasonSelected \<longleftrightarrow>
     may_present resolve h now r \<and> rec_ID r = cd_ID sel"
  using evaluate_iff [of resolve h now r] evaluate_reason [of resolve h now r] evaluate_ID [of resolve h now r]
  by (auto simp: explained_def outcome_reason_def split: option.splits prod.splits if_splits)

lemma none_may_present:
  assumes "presentation_Select (offered resolve h now records) h now = None" "r \<in> set records"
  shows "\<not> may_present resolve h now r"
    "ev_Reason (fst (evaluate resolve h now r)) \<notin> insert NoReason arbiter_reasons"
proof -
  show "\<not> may_present resolve h now r"
    using assms may_present_eligible [of resolve h now r]
    by (auto simp: Select_None_iff select_eligible_def filter_empty_conv set_offered)
  then show "ev_Reason (fst (evaluate resolve h now r)) \<notin> insert NoReason arbiter_reasons"
    by (intro evaluate_reason) (simp add: evaluate_iff)
qed

text \<open>Every stored observation is explained: the evaluations are in the order of the records, one
  for each, under the record's identifier; no reason is left empty; and the reason is one of the
  arbiter's outcomes exactly when the record may be presented.\<close>

theorem attention_explains:
  "list_all2 (\<lambda>r e. ev_ObservationID e = rec_ID r \<and> ev_Reason e \<noteq> NoReason \<and>
      (may_present resolve h now r \<longleftrightarrow> ev_Reason e \<in> arbiter_reasons))
     records (snd (attention_Select records resolve h now))"
proof (cases "presentation_Select (offered resolve h now records) h now")
  case None
  with none_may_present show ?thesis
    by (auto simp: attention_Select_eq list.rel_map evaluate_ID intro!: list.rel_refl_strong)
next
  case (Some sel)
  then show ?thesis
    using explained_reason [of resolve h now sel]
    by (simp add: attention_Select_eq list.rel_map list.rel_refl_strong)
qed

lemma map_filter_key_unique:
  assumes "distinct (map f xs)" "x \<in> set xs" "P x"
  shows "map f (filter (\<lambda>y. P y \<and> f y = f x) xs) = [f x]"
  using assms
proof (induction xs)
  case (Cons y ys)
  show ?case
  proof (cases "y = x")
    case True
    then have "filter (\<lambda>y. P y \<and> f y = f x) ys = []"
      using Cons.prems by (auto simp: filter_empty_conv) (metis image_eqI)
    then show ?thesis using True Cons.prems by simp
  next
    case False
    then have "f y \<noteq> f x" "x \<in> set ys" using Cons.prems by auto
    then show ?thesis using Cons by simp
  qed
qed simp

text \<open>Exactly the selected observation is explained as selected: for records with distinct
  identifiers the evaluations whose reason is "selected" are one, that of the selected candidate, or
  none when nothing is selected.\<close>

theorem attention_selected_unique:
  assumes "distinct (map rec_ID records)"
  shows "map ev_ObservationID (filter (\<lambda>e. ev_Reason e = ReasonSelected)
      (snd (attention_Select records resolve h now))) =
    (case fst (attention_Select records resolve h now) of None \<Rightarrow> [] | Some c \<Rightarrow> [cd_ID c])"
proof (cases "presentation_Select (offered resolve h now records) h now")
  case None
  then have "filter (\<lambda>e. ev_Reason e = ReasonSelected) (map (\<lambda>r. fst (evaluate resolve h now r)) records) = []"
    using none_may_present [OF None] by (auto simp: filter_empty_conv)
  then show ?thesis by (simp add: attention_Select_eq None)
next
  case (Some sel)
  then have "sel \<in> set (offered resolve h now records)"
    by (cases rule: Select_cases) (auto simp: select_eligible_def)
  then obtain r where r: "r \<in> set records" "may_present resolve h now r" "cd_ID sel = rec_ID r"
    by (auto simp: set_offered)
  have "map ev_ObservationID (filter (\<lambda>e. ev_Reason e = ReasonSelected) (map (explained resolve h now sel) records))
      = map rec_ID (filter (\<lambda>x. may_present resolve h now x \<and> rec_ID x = rec_ID r) records)"
    by (simp add: filter_map comp_def explained_reason(1,4) r(3))
  also have "\<dots> = [rec_ID r]"
    by (rule map_filter_key_unique [where P = "may_present resolve h now", OF assms r(1,2)])
  finally show ?thesis using r(3) by (simp add: attention_Select_eq Some)
qed

definition demo_rule :: Rule where
  "demo_rule = \<lparr>ru_Enabled = True, ru_AssetsReady = True, ru_Policy = PolicyAttention, ru_DevicePriority = 0,
     ru_HoldMS = 0, ru_CooldownMS = 0, ru_RequiresAck = True, ru_Acknowledged = False, ru_Foreground = False,
     ru_RotationIntervalMS = 0, ru_RotationJitterPercent = 0, ru_BlockedByAtomicExecution = False\<rparr>"

definition demo_record :: ObsRecord where
  "demo_record = admitted_record demo_source demo_observation 1"

definition idle :: History where
  "idle = \<lparr>CurrentID = '''', CurrentSince = zero_time, LastShown = []\<rparr>"

lemma demo_may_present: "may_present (\<lambda>_. (demo_rule, True)) idle demo_time demo_record"
  by (simp add: may_present_def demo_rule_def demo_record_def admitted_record_def demo_observation_def demo_time_def
      policy_admits_def cooling_down_def last_shown_def idle_def go_time zero_time_def)

lemma demo_selected:
  "fst (attention_Select [demo_record] (\<lambda>_. (demo_rule, True)) idle demo_time) = Some (derive demo_record demo_rule)"
proof -
  have o: "offered (\<lambda>_. (demo_rule, True)) idle demo_time [demo_record] = [derive demo_record demo_rule]"
    by (simp add: offered_def List.map_filter_simps evaluate_iff demo_may_present)
  have "select_eligible [derive demo_record demo_rule] idle demo_time = [derive demo_record demo_rule]"
    using may_present_eligible [OF demo_may_present] by (simp add: select_eligible_def)
  then show ?thesis
    by (simp add: fst_attention_Select o presentation_Select_def findEligible_def)
qed

theorem attention_selected_sound_witness:
  "may_present (\<lambda>_. (demo_rule, True)) idle demo_time demo_record"
  using attention_selected_sound [OF demo_selected] by simp

theorem attention_selected_unique_witness:
  "map ev_ObservationID (filter (\<lambda>e. ev_Reason e = ReasonSelected)
      (snd (attention_Select [demo_record] (\<lambda>_. (demo_rule, True)) idle demo_time))) = [rec_ID demo_record]"
  using attention_selected_unique [of "[demo_record]" "\<lambda>_. (demo_rule, True)" idle demo_time]
  by (simp add: demo_selected)

subsection \<open>The jitter of the rotation\<close>

lemma jitter_bound:
  fixes x interval j :: int
  assumes "0 < interval" "0 < j" "j \<le> 50"
  shows "\<bar>(interval div 10000) * (x mod (2 * (j * 100) + 1) - j * 100)\<bar> \<le> (interval div 10000) * 5000"
proof -
  have "0 \<le> x mod (2 * (j * 100) + 1)" "x mod (2 * (j * 100) + 1) \<le> 2 * (j * 100)"
    using assms pos_mod_bound [of "2 * (j * 100) + 1" x] by simp_all
  then have "\<bar>x mod (2 * (j * 100) + 1) - j * 100\<bar> \<le> 5000" using assms by linarith
  then show ?thesis using assms by (simp add: abs_mult mult_left_mono)
qed

text \<open>The rotation's jitter is bounded whatever percentage is configured: for an interval that fits
  a duration with room for the jitter, the next turn is at least half an interval and at most one and a
  half intervals after the last one, and an instance that was never shown is due at once.\<close>

theorem rotation_due_bounds:
  assumes "0 < intervalMS" "intervalMS \<le> 6000000000000"
  shows "is_zero_time shown \<and> rotationNextDue i shown intervalMS jitterPercent = zero_time \<or>
    instant shown + intervalMS * 500000 \<le> instant (rotationNextDue i shown intervalMS jitterPercent) \<and>
    instant (rotationNextDue i shown intervalMS jitterPercent) \<le> instant shown + intervalMS * 1500000"
proof -
  define interval where "interval = intervalMS * 1000000"
  have ms: "ms_duration intervalMS = interval"
    unfolding interval_def by (rule ms_duration_exact) (use assms in linarith)
  have pos: "0 < interval" and small: "interval \<le> 6000000000000000000"
    using assms by (auto simp: interval_def)
  have half: "(interval div 10000) * 5000 \<le> intervalMS * 500000" by (simp add: interval_def)
  define jitter where "jitter = clampJitter jitterPercent"
  define off where "off = (interval div 10000) * (uint (fnv64a i) mod (2 * (jitter * 100) + 1) - jitter * 100)"
  have j: "0 \<le> jitter" "jitter \<le> 50" by (auto simp: jitter_def clampJitter_def)
  show ?thesis
  proof (cases "jitter = 0 \<or> is_zero_time shown")
    case True
    then show ?thesis
      using pos assms by (auto simp: rotationNextDue_def Let_def ms jitter_def [symmetric] time_add_def interval_def)
  next
    case False
    then have "\<bar>off\<bar> \<le> intervalMS * 500000"
      unfolding off_def using jitter_bound [OF pos, of jitter "uint (fnv64a i)"] j half by linarith
    moreover from this have "int64 (interval + off) = interval + off"
      using pos small by (intro int64_id) (auto simp: interval_def)
    moreover have "rotationNextDue i shown intervalMS jitterPercent = time_add shown (int64 (interval + off))"
      using False pos by (simp add: rotationNextDue_def Let_def ms jitter_def off_def)
    ultimately show ?thesis by (auto simp: time_add_def interval_def)
  qed
qed

theorem rotation_due_bounds_witness:
  "instant (rotationNextDue ''clock'' \<lparr>instant = 1, zone_offset = 0\<rparr> 60000 90) \<le> 90000000001"
  using rotation_due_bounds [of 60000 "\<lparr>instant = 1, zone_offset = 0\<rparr>" "''clock''" 90]
  by (simp add: is_zero_time_def)

end
