(* ===== verification/Configuration.thy ===== *)
theory Configuration
  imports Presentation
begin

text \<open>
  The desired state (\<open>internal/config/store.go\<close>): the document, its plugins and its apps, the generation
  that a replacement assigns to each app, and the daemon's table of current generations
  (\<open>internal/daemon/config.go\<close>). A nil slice or map is None, so that \<open>reflect.DeepEqual\<close> is modelled with
  its distinction between nil and empty; a Go map is an association list whose order does not count.
\<close>

subsection \<open>The document\<close>

type_synonym 'a slice = "'a list option"

datatype ExecutionMode = ExecutionModeResident | ExecutionModeInteractive | OtherExecutionMode string
datatype OperationKind = OperationQuery | OperationCommand | OtherOperationKind string

record OperationDescriptor =
  op_ID :: string
  op_Kind :: OperationKind

record AssetDeclaration =
  asset_Source :: string
  asset_SHA256 :: string
  asset_Size :: int
  asset_MediaType :: string

record SchemaDeclaration =
  schema_Source :: string
  schema_SHA256 :: string
  schema_Size :: int

record Plugin =
  pl_ID :: string
  pl_Version :: string
  pl_Executable :: string
  pl_SHA256 :: string
  pl_ProtocolVersion :: string
  pl_ExecutionModes :: "ExecutionMode slice"
  pl_Channels :: "string slice"
  pl_Operations :: "OperationDescriptor slice"
  pl_ConfigSchema :: "SchemaDeclaration option"
  pl_PackageRoot :: string
  pl_Assets :: "AssetDeclaration slice"

record PolicyConfig =
  pc_Policy :: Policy
  pc_DevicePriority :: int
  pc_HoldMS :: int
  pc_CooldownMS :: int
  pc_RequiresAck :: bool
  pc_ActivationInput :: string
  pc_ActivationAction :: string
  pc_RotationIntervalMS :: int
  pc_RotationJitterPercent :: int

record App =
  app_ID :: string
  app_PluginID :: string
  app_Generation :: u64
  app_Enabled :: bool
  app_LaunchAction :: string
  app_Config :: "char slice"
  app_Secrets :: "(string \<times> string) slice"
  app_Policies :: "(string \<times> PolicyConfig) slice"

record Device =
  dev_BaseURL :: string
  dev_AccessTokenSecret :: string

record Document =
  doc_Version :: int
  doc_Generation :: u64
  doc_Device :: Device
  doc_Plugins :: "(string \<times> Plugin) list"
  doc_Apps :: "(string \<times> App) list"

definition app_policy :: "App \<Rightarrow> string \<Rightarrow> PolicyConfig option" where
  "app_policy app channel = (case app_Policies app of None \<Rightarrow> None | Some m \<Rightarrow> map_of m channel)"

subsection \<open>Generations of apps\<close>

text \<open>\<open>reflect.DeepEqual\<close> of two maps: both nil, or neither and the same entries.\<close>

definition same_map :: "('k \<times> 'v) slice \<Rightarrow> ('k \<times> 'v) slice \<Rightarrow> bool" where
  "same_map a b =
     (case (a, b) of (None, None) \<Rightarrow> True | (Some m, Some m') \<Rightarrow> set m = set m' | _ \<Rightarrow> False)"

definition sameAppConfiguration :: "App \<Rightarrow> App \<Rightarrow> bool" where
  "sameAppConfiguration l r \<longleftrightarrow>
     app_ID l = app_ID r \<and> app_PluginID l = app_PluginID r \<and> app_Enabled l = app_Enabled r
     \<and> app_LaunchAction l = app_LaunchAction r \<and> app_Config l = app_Config r
     \<and> same_map (app_Secrets l) (app_Secrets r) \<and> same_map (app_Policies l) (app_Policies r)"

text \<open>A missing app reads as the zero \<open>App\<close>, whose plugin is the one with the empty identifier.\<close>

definition assigned_generation :: "Document option \<Rightarrow> Document \<Rightarrow> string \<Rightarrow> App \<Rightarrow> u64" where
  "assigned_generation previous nxt i app =
     (case previous of
        None \<Rightarrow> doc_Generation nxt
      | Some prev \<Rightarrow>
          (case map_of (doc_Apps prev) i of
             None \<Rightarrow> doc_Generation nxt
           | Some oldApp \<Rightarrow>
               (case (map_of (doc_Plugins prev) (app_PluginID oldApp), map_of (doc_Plugins nxt) (app_PluginID app)) of
                  (Some oldPlugin, Some newPlugin) \<Rightarrow>
                    if sameAppConfiguration oldApp app \<and> oldPlugin = newPlugin
                    then app_Generation oldApp else doc_Generation nxt
                | _ \<Rightarrow> doc_Generation nxt)))"

definition assignAppGenerations :: "Document option \<Rightarrow> Document \<Rightarrow> Document" where
  "assignAppGenerations previous nxt =
     nxt\<lparr>doc_Apps := map (\<lambda>(i, app). (i, app\<lparr>app_Generation := assigned_generation previous nxt i app\<rparr>)) (doc_Apps nxt)\<rparr>"

subsection \<open>The daemon's live view\<close>

type_synonym Generations = "((string \<times> string) \<times> u64) list"

definition generations_Lookup :: "Generations \<Rightarrow> string \<Rightarrow> string \<Rightarrow> u64 option" where
  "generations_Lookup g p i = map_of g (p, i)"

definition generations_matches :: "Generations \<Rightarrow> string \<Rightarrow> string \<Rightarrow> u64 \<Rightarrow> bool" where
  "generations_matches g p i n = (case generations_Lookup g p i of None \<Rightarrow> False | Some c \<Rightarrow> c = n)"

text \<open>What the readers of \<open>LiveState\<close> use of it.\<close>

record LiveState =
  live_loaded :: bool
  live_document :: Document
  live_generations :: Generations

definition current_app :: "LiveState \<Rightarrow> string \<Rightarrow> InstanceRef \<Rightarrow> App option" where
  "current_app live p target =
     (case map_of (doc_Apps (live_document live)) (ref_ID target) of
        None \<Rightarrow> None
      | Some app \<Rightarrow>
          if live_loaded live \<and> app_PluginID app = p
             \<and> generations_matches (live_generations live) p (ref_ID target) (ref_Generation target)
          then Some app else None)"

end
