(* ===== verification/Sessions.thy ===== *)
theory Sessions
  imports Configuration ObservationStore
begin

text \<open>
  \<open>internal/daemon/session_owner.go\<close>: the coordinator that owns the interactive foreground, and
  \<open>session_runtime.go\<close>, which couples it to its effects. Every method of the coordinator runs under
  one mutex, so each is one function on the state. The callback that tells the input broker of a
  transition is the list of changes an operation returns.
\<close>

subsection \<open>State\<close>

record lifecycleState =
  lc_sequence :: u64
  lc_errorCode :: string
  lc_errorAt :: gotime
  lc_fallbackAfterSequence :: u64

record sessionSource =
  ss_pluginID :: string
  ss_instanceID :: string
  ss_channel :: string
  ss_key :: string
  ss_generation :: u64
  ss_revision :: u64

text \<open>An admission and a termination name one session: plugin, instance, generation and token.\<close>

record sessionRef =
  sr_pluginID :: string
  sr_instanceID :: string
  sr_generation :: u64
  sr_token :: string

definition no_session :: sessionRef where
  "no_session = \<lparr>sr_pluginID = '''', sr_instanceID = '''', sr_generation = 0, sr_token = ''''\<rparr>"

text \<open>The four fields of the foreground and the four of the pending session are each one \<open>sessionRef\<close>.\<close>

record Coordinator =
  co_foreground :: sessionRef
  co_source :: "sessionSource option"
  co_executing :: bool
  co_pending :: sessionRef
  co_nextSession :: u64
  co_criticalIdentity :: string
  co_criticalSequence :: u64
  co_lifecycles :: "(string \<times> lifecycleState) list"

datatype foregroundState = foregroundIdle | foregroundPending | foregroundInteractive | foregroundExecuting
  | foregroundCriticalOwned

datatype SessionChange = SessionChanged | SessionCanceled string InstanceRef string
  | SessionCompleted string InstanceRef string

definition NewSessionCoordinator :: Coordinator where
  "NewSessionCoordinator = \<lparr>co_foreground = no_session, co_source = None, co_executing = False,
     co_pending = no_session, co_nextSession = 0, co_criticalIdentity = '''', co_criticalSequence = 0,
     co_lifecycles = []\<rparr>"

definition clearForegroundLocked :: "Coordinator \<Rightarrow> Coordinator" where
  "clearForegroundLocked s = s\<lparr>co_foreground := no_session, co_source := None, co_executing := False\<rparr>"

definition clearPendingLocked :: "Coordinator \<Rightarrow> Coordinator" where
  "clearPendingLocked s = s\<lparr>co_pending := no_session\<rparr>"

definition pendingMatchesAdmission :: "Coordinator \<Rightarrow> sessionRef \<Rightarrow> bool" where
  "pendingMatchesAdmission s a \<longleftrightarrow> co_pending s = a"

definition stateLocked :: "Coordinator \<Rightarrow> foregroundState" where
  "stateLocked s =
     (if co_criticalIdentity s \<noteq> '''' then foregroundCriticalOwned
      else if co_executing s then foregroundExecuting
      else if sr_instanceID (co_pending s) \<noteq> '''' then foregroundPending
      else if sr_instanceID (co_foreground s) \<noteq> '''' then foregroundInteractive
      else foregroundIdle)"

subsection \<open>Tokens\<close>

text \<open>\<open>%d\<close>, most significant digit first.\<close>

fun decimal :: "nat \<Rightarrow> string" where
  "decimal n =
     (if n < 10 then [''0123456789'' ! n] else decimal (n div 10) @ [''0123456789'' ! (n mod 10)])"

declare decimal.simps [simp del]

definition session_token :: "u64 \<Rightarrow> string" where
  "session_token n = ''interactive-'' @ decimal (unat n)"

subsection \<open>Admission and promotion\<close>

definition session_begin :: "string \<Rightarrow> string \<Rightarrow> u64 \<Rightarrow> Coordinator \<Rightarrow> sessionRef option \<times> Coordinator" where
  "session_begin p i g s =
     (if co_criticalIdentity s \<noteq> '''' \<or> co_executing s then (None, s)
      else let n = co_nextSession s + 1;
               a = \<lparr>sr_pluginID = p, sr_instanceID = i, sr_generation = g, sr_token = session_token n\<rparr>
           in (Some a, s\<lparr>co_nextSession := n, co_pending := a\<rparr>))"

definition session_cancel :: "sessionRef \<Rightarrow> Coordinator \<Rightarrow> Coordinator" where
  "session_cancel a s = (if pendingMatchesAdmission s a then clearPendingLocked s else s)"

definition session_promote ::
  "sessionRef \<Rightarrow> string \<Rightarrow> sessionSource option \<Rightarrow> Coordinator \<Rightarrow> sessionRef option \<times> Coordinator" where
  "session_promote a p src s =
     (if \<not> pendingMatchesAdmission s a \<or> p \<noteq> sr_pluginID a then (None, s)
      else let s = clearPendingLocked s
           in (Some (co_foreground s),
               s\<lparr>co_foreground := a\<lparr>sr_pluginID := p\<rparr>, co_source := src, co_executing := False\<rparr>))"

subsection \<open>Ending sessions\<close>

definition session_detach :: "App \<Rightarrow> Coordinator \<Rightarrow> (sessionRef \<times> bool) \<times> Coordinator" where
  "session_detach app s =
     (let pendingMine = (sr_instanceID (co_pending s) = app_ID app \<and> sr_pluginID (co_pending s) = app_PluginID app);
          s1 = (if pendingMine then clearPendingLocked s else s);
          mine = (sr_instanceID (co_foreground s1) = app_ID app \<and> sr_pluginID (co_foreground s1) = app_PluginID app)
      in if mine then ((co_foreground s1, True), clearForegroundLocked s1)
         else ((no_session, pendingMine), s1))"

definition session_clear :: "string \<Rightarrow> string \<Rightarrow> Coordinator \<Rightarrow> sessionRef option \<times> Coordinator" where
  "session_clear expected token s =
     (let names = (\<lambda>x. (expected = '''' \<or> sr_instanceID x = expected) \<and> (token = '''' \<or> sr_token x = token));
          s1 = (if names (co_pending s) \<and> sr_instanceID (co_pending s) \<noteq> '''' then clearPendingLocked s else s)
      in if \<not> names (co_foreground s) \<or> sr_instanceID (co_foreground s1) = '''' then (None, s1)
         else (Some (co_foreground s1), clearForegroundLocked s1))"

definition session_invalidate :: "sessionRef \<Rightarrow> Coordinator \<Rightarrow> bool \<times> Coordinator" where
  "session_invalidate v s =
     (let pendingChanged = (co_pending s = v); foregroundChanged = (co_foreground s = v);
          s1 = (if pendingChanged then clearPendingLocked s else s);
          s2 = (if foregroundChanged then clearForegroundLocked s1 else s1)
      in (pendingChanged \<or> foregroundChanged, s2))"

definition session_complete :: "sessionRef \<Rightarrow> bool \<Rightarrow> Coordinator \<Rightarrow> (bool \<times> bool) \<times> Coordinator" where
  "session_complete v pendingEligible s =
     (let foregroundChanged = (co_foreground s = v); pendingChanged = (pendingEligible \<and> co_pending s = v);
          s1 = (if pendingChanged then clearPendingLocked s else s);
          s2 = (if foregroundChanged then clearForegroundLocked s1 else s1)
      in ((foregroundChanged, pendingChanged \<or> foregroundChanged), s2))"

definition configurationChanged :: "Document \<Rightarrow> Coordinator \<Rightarrow> Coordinator" where
  "configurationChanged doc s =
     (let pendingStillCurrent =
            (case map_of (doc_Apps doc) (sr_instanceID (co_pending s)) of
               None \<Rightarrow> False
             | Some app \<Rightarrow> app_Enabled app \<and> app_PluginID app = sr_pluginID (co_pending s)
                          \<and> app_Generation app = sr_generation (co_pending s))
      in if sr_instanceID (co_pending s) \<noteq> '''' \<and> \<not> pendingStillCurrent then clearPendingLocked s else s)"

subsection \<open>Reading the foreground\<close>

definition foregroundSnapshot :: "Coordinator \<Rightarrow> string \<times> string" where
  "foregroundSnapshot s = (sr_instanceID (co_foreground s), sr_token (co_foreground s))"

definition inputForegroundSnapshot :: "Coordinator \<Rightarrow> string \<times> u64 \<times> string" where
  "inputForegroundSnapshot s =
     (if co_executing s \<or> co_criticalIdentity s \<noteq> '''' then ('''', 0, '''')
      else (sr_instanceID (co_foreground s), sr_generation (co_foreground s), sr_token (co_foreground s)))"

definition attentionState :: "Coordinator \<Rightarrow> ObsRecord \<Rightarrow> bool \<times> bool" where
  "attentionState s r =
     (let v = rec_Observation r
      in (sr_instanceID (co_foreground s) = ref_ID (obs_Instance v),
          co_source s = Some \<lparr>ss_pluginID = rec_PluginID r, ss_instanceID = ref_ID (obs_Instance v),
            ss_channel = obs_Channel v, ss_key = obs_Key v, ss_generation = rec_Generation r,
            ss_revision = obs_Revision v\<rparr>))"

definition beginLauncherAdmission :: "Coordinator \<Rightarrow> u64 option" where
  "beginLauncherAdmission s =
     (if co_criticalIdentity s \<noteq> '''' \<or> co_executing s then None else Some (co_criticalSequence s))"

definition launcherAdmissionCurrent :: "u64 \<Rightarrow> Coordinator \<Rightarrow> bool" where
  "launcherAdmissionCurrent n s \<longleftrightarrow>
     co_criticalIdentity s = '''' \<and> \<not> co_executing s \<and> co_criticalSequence s = n"

definition criticalOwned :: "Coordinator \<Rightarrow> bool" where
  "criticalOwned s \<longleftrightarrow> co_criticalIdentity s \<noteq> ''''"

definition blocksCritical :: "Coordinator \<Rightarrow> bool" where
  "blocksCritical s \<longleftrightarrow> co_executing s"

subsection \<open>Atomic execution and critical presentation\<close>

datatype session_error = SessionCanceledError | SessionGenerationMismatch | SessionNotActive
  | SessionInvalidArgument "observation_error list"

definition session_of :: "string \<Rightarrow> InstanceRef \<Rightarrow> string \<Rightarrow> sessionRef" where
  "session_of p r token =
     \<lparr>sr_pluginID = p, sr_instanceID = ref_ID r, sr_generation = ref_Generation r, sr_token = token\<rparr>"

text \<open>\<open>canceled\<close> is \<open>ctx.Err() != nil\<close>.\<close>

definition beginExecution ::
  "bool \<Rightarrow> string \<Rightarrow> InstanceRef \<Rightarrow> string \<Rightarrow> Coordinator \<Rightarrow> session_error option \<times> Coordinator" where
  "beginExecution canceled p r token s =
     (let f = co_foreground s
      in if co_criticalIdentity s \<noteq> '''' then (Some SessionCanceledError, s)
      else if sr_pluginID f = p \<and> sr_instanceID f = ref_ID r \<and> sr_token f = token
              \<and> sr_generation f \<noteq> ref_Generation r
        then (Some SessionGenerationMismatch, s)
      else if co_executing s \<or> sr_pluginID f \<noteq> p \<or> sr_instanceID f \<noteq> ref_ID r
              \<or> sr_generation f \<noteq> ref_Generation r \<or> sr_token f \<noteq> token
        then (Some SessionNotActive, s)
      else if canceled then (Some SessionCanceledError, s)
      else (None, (clearPendingLocked s)\<lparr>co_executing := True\<rparr>))"

definition acquireCritical :: "string \<Rightarrow> Coordinator \<Rightarrow> sessionRef option \<times> Coordinator" where
  "acquireCritical identity s =
     (if co_executing s then (None, s)
      else if co_criticalIdentity s \<noteq> ''''
        then (Some no_session,
              s\<lparr>co_criticalSequence := co_criticalSequence s + 1, co_criticalIdentity := identity\<rparr>)
      else (Some (co_foreground s),
            (clearForegroundLocked (clearPendingLocked s))
              \<lparr>co_criticalSequence := co_criticalSequence s + 1, co_criticalIdentity := identity\<rparr>))"

definition releaseCritical :: "Coordinator \<Rightarrow> bool \<times> Coordinator" where
  "releaseCritical s =
     (if co_criticalIdentity s = '''' then (False, s) else (True, s\<lparr>co_criticalIdentity := ''''\<rparr>))"

definition BeginExecution ::
  "bool \<Rightarrow> LiveState \<Rightarrow> string \<Rightarrow> InstanceRef \<Rightarrow> string \<Rightarrow> Coordinator
     \<Rightarrow> (session_error option \<times> SessionChange list) \<times> Coordinator" where
  "BeginExecution canceled live p r token s =
     (if validateSessionRequest r token \<noteq> []
        then ((Some (SessionInvalidArgument (validateSessionRequest r token)), []), s)
      else case current_app live p r of
        None \<Rightarrow> ((Some SessionGenerationMismatch, []), s)
      | Some app \<Rightarrow>
          if \<not> app_Enabled app then ((Some SessionGenerationMismatch, []), s)
          else (case beginExecution canceled p r token s of
                  (Some e, s') \<Rightarrow> ((Some e, []), s')
                | (None, s') \<Rightarrow> ((None, [SessionChanged]), s')))"

definition PluginSessionInvalidated :: "sessionRef \<Rightarrow> Coordinator \<Rightarrow> SessionChange list \<times> Coordinator" where
  "PluginSessionInvalidated v s =
     (case session_invalidate v s of
        (False, s') \<Rightarrow> ([], s')
      | (True, s') \<Rightarrow>
          ([SessionCanceled (sr_pluginID v)
              \<lparr>ref_ID = sr_instanceID v, ref_Generation = sr_generation v\<rparr> (sr_token v)], s'))"

definition PluginSessionCompleted ::
  "LiveState \<Rightarrow> string \<Rightarrow> InstanceRef \<Rightarrow> string \<Rightarrow> Coordinator \<Rightarrow> SessionChange list \<times> Coordinator" where
  "PluginSessionCompleted live p r token s =
     (if p = '''' \<or> ref_ID r = '''' \<or> token = '''' then ([], s)
      else case session_complete (session_of p r token) (current_app live p r \<noteq> None) s of
        ((_, changed), s') \<Rightarrow> (if changed then [SessionCompleted p r token] else [], s'))"

subsection \<open>Lifecycle diagnostics\<close>

definition zero_lifecycle :: lifecycleState where
  "zero_lifecycle = \<lparr>lc_sequence = 0, lc_errorCode = '''', lc_errorAt = zero_time, lc_fallbackAfterSequence = 0\<rparr>"

definition lifecycle_of :: "Coordinator \<Rightarrow> string \<Rightarrow> lifecycleState" where
  "lifecycle_of s p = (case map_of (co_lifecycles s) p of None \<Rightarrow> zero_lifecycle | Some l \<Rightarrow> l)"

definition lifecycleBaseline :: "string \<Rightarrow> Coordinator \<Rightarrow> u64" where
  "lifecycleBaseline p s = lc_sequence (lifecycle_of s p)"

text \<open>\<open>clock\<close> is the reading of \<open>time.Now\<close>, used when the given time is zero.\<close>

definition recordLifecycleFallback :: "gotime \<Rightarrow> string \<Rightarrow> u64 \<Rightarrow> gotime \<Rightarrow> Coordinator \<Rightarrow> Coordinator" where
  "recordLifecycleFallback clock p baseline at s =
     (let at = (if is_zero_time at then time_utc clock else time_utc at); l = lifecycle_of s p
      in if lc_sequence l \<le> baseline
         then s\<lparr>co_lifecycles := AList.update p
                (l\<lparr>lc_errorCode := ''end_session_failed'', lc_errorAt := at, lc_fallbackAfterSequence := baseline\<rparr>)
                (co_lifecycles s)\<rparr>
         else s)"

record SessionCleanup =
  cl_PluginID :: string
  cl_Sequence :: u64
  cl_At :: gotime
  cl_PendingCount :: int
  cl_ErrorCode :: string

definition PluginSessionCleanup :: "gotime \<Rightarrow> SessionCleanup \<Rightarrow> Coordinator \<Rightarrow> Coordinator" where
  "PluginSessionCleanup clock v s =
     (if cl_PluginID v = '''' \<or> cl_Sequence v = 0 then s
      else let at = (if is_zero_time (cl_At v) then time_utc clock else time_utc (cl_At v));
               l = lifecycle_of s (cl_PluginID v)
      in if cl_Sequence v \<le> lc_sequence l
            \<or> lc_fallbackAfterSequence l \<noteq> 0 \<and> cl_Sequence v \<le> lc_fallbackAfterSequence l then s
      else let failed = (cl_PendingCount v > 0 \<and> cl_ErrorCode v = ''end_session_failed'')
      in s\<lparr>co_lifecycles := AList.update (cl_PluginID v)
            \<lparr>lc_sequence = cl_Sequence v,
              lc_errorCode = (if failed then ''end_session_failed'' else ''''),
              lc_errorAt = (if failed then at else zero_time), lc_fallbackAfterSequence = 0\<rparr>
            (co_lifecycles s)\<rparr>)"

text \<open>The latest error, the larger plugin identifier among equals; the order of the map does not count.\<close>

definition later_error :: "string \<times> lifecycleState \<Rightarrow> string \<times> string \<times> gotime \<Rightarrow> string \<times> string \<times> gotime" where
  "later_error e acc =
     (case (e, acc) of ((p, l), (selected, code, at)) \<Rightarrow>
        if lc_errorCode l = '''' then acc
        else if is_zero_time at \<or> time_after (lc_errorAt l) at \<or> time_equal (lc_errorAt l) at \<and> selected < p
        then (p, lc_errorCode l, lc_errorAt l) else acc)"

record SessionDiagnostics =
  sd_ActiveInstanceID :: string
  sd_State :: foregroundState
  sd_LastLifecycleErrorCode :: string
  sd_LastLifecycleErrorAt :: gotime

definition session_Diagnostics :: "Coordinator \<Rightarrow> SessionDiagnostics" where
  "session_Diagnostics s =
     (case fold later_error (co_lifecycles s) ('''', '''', zero_time) of (_, code, at) \<Rightarrow>
        \<lparr>sd_ActiveInstanceID = sr_instanceID (co_foreground s), sd_State = stateLocked s,
          sd_LastLifecycleErrorCode = code, sd_LastLifecycleErrorAt = at\<rparr>)"

subsection \<open>Effects (session\_runtime.go)\<close>

text \<open>
  What the runtime asks of the other components: to drop the dispatcher's input contexts, to cancel the
  queued input of a session, and to end it in its plugin.
\<close>

datatype session_effect = InvalidateContexts | CancelInput string InstanceRef string
  | EndPluginSession string InstanceRef string

text \<open>
  \<open>failed\<close> is whether the plugin's \<open>EndSession\<close> returns an error, and \<open>clock\<close> the time read then. The
  code reads the baseline before the call and records the fallback after it; no other operation on
  the coordinator comes between in this model of one call.
\<close>

definition endSession :: "bool \<Rightarrow> gotime \<Rightarrow> sessionRef \<Rightarrow> Coordinator \<Rightarrow> session_effect list \<times> Coordinator" where
  "endSession failed clock t s =
     (if sr_pluginID t = '''' \<or> sr_instanceID t = '''' \<or> sr_generation t = 0 \<or> sr_token t = '''' then ([], s)
      else let target = \<lparr>ref_ID = sr_instanceID t, ref_Generation = sr_generation t\<rparr>;
               baseline = lifecycleBaseline (sr_pluginID t) s
      in ([CancelInput (sr_pluginID t) target (sr_token t), EndPluginSession (sr_pluginID t) target (sr_token t)],
          if failed then recordLifecycleFallback clock (sr_pluginID t) baseline (time_utc clock) s else s))"

definition runtime_AcquireCritical ::
  "bool \<Rightarrow> gotime \<Rightarrow> Candidate \<Rightarrow> Coordinator \<Rightarrow> (bool \<times> session_effect list) \<times> Coordinator" where
  "runtime_AcquireCritical failed clock c s =
     (case acquireCritical (cd_ID c) s of
        (None, s') \<Rightarrow> ((False, []), s')
      | (Some t, s') \<Rightarrow>
          if sr_pluginID t \<noteq> ''''
          then (case endSession failed clock t s' of (es, s'') \<Rightarrow> ((True, InvalidateContexts # es), s''))
          else ((True, [InvalidateContexts]), s'))"

definition runtime_ClearForeground ::
  "bool \<Rightarrow> gotime \<Rightarrow> string \<Rightarrow> string \<Rightarrow> Coordinator \<Rightarrow> (bool \<times> session_effect list) \<times> Coordinator" where
  "runtime_ClearForeground failed clock expected token s =
     (case session_clear expected token s of
        (None, s') \<Rightarrow> ((False, []), s')
      | (Some t, s') \<Rightarrow>
          if sr_pluginID t \<noteq> ''''
          then (case endSession failed clock t s' of (es, s'') \<Rightarrow> ((True, es), s''))
          else ((True, []), s'))"

definition ClearForegroundSessionContext ::
  "bool \<Rightarrow> gotime \<Rightarrow> string \<Rightarrow> string \<Rightarrow> Coordinator \<Rightarrow> session_effect list \<times> Coordinator" where
  "ClearForegroundSessionContext failed clock expected token s =
     (if expected = '''' \<or> token = '''' then ([], s)
      else case runtime_ClearForeground failed clock expected token s of ((_, es), s') \<Rightarrow> (es, s'))"

definition runtime_Detach ::
  "bool \<Rightarrow> gotime \<Rightarrow> App \<Rightarrow> Coordinator \<Rightarrow> (bool \<times> session_effect list) \<times> Coordinator" where
  "runtime_Detach failed clock app s =
     (case session_detach app s of ((t, changed), s') \<Rightarrow>
        if sr_pluginID t \<noteq> ''''
        then (case endSession failed clock t s' of (es, s'') \<Rightarrow> ((changed, es), s''))
        else ((changed, []), s'))"

subsection \<open>The coordinator as a state machine\<close>

datatype session_op =
    OpBegin string string u64 | OpCancel sessionRef | OpPromote sessionRef string "sessionSource option"
  | OpDetach App | OpClear string string | OpInvalidated sessionRef
  | OpCompleted LiveState string InstanceRef string | OpConfiguration Document
  | OpExecute bool LiveState string InstanceRef string | OpAcquire Candidate | OpReleaseCritical
  | OpFallback gotime string u64 gotime | OpCleanup gotime SessionCleanup

definition session_apply :: "session_op \<Rightarrow> Coordinator \<Rightarrow> Coordinator" where
  "session_apply op s =
     (case op of
        OpBegin p i g \<Rightarrow> snd (session_begin p i g s)
      | OpCancel a \<Rightarrow> session_cancel a s
      | OpPromote a p src \<Rightarrow> snd (session_promote a p src s)
      | OpDetach app \<Rightarrow> snd (session_detach app s)
      | OpClear expected token \<Rightarrow> snd (session_clear expected token s)
      | OpInvalidated v \<Rightarrow> snd (PluginSessionInvalidated v s)
      | OpCompleted live p r token \<Rightarrow> snd (PluginSessionCompleted live p r token s)
      | OpConfiguration doc \<Rightarrow> configurationChanged doc s
      | OpExecute canceled live p r token \<Rightarrow> snd (BeginExecution canceled live p r token s)
      | OpAcquire c \<Rightarrow> snd (acquireCritical (cd_ID c) s)
      | OpReleaseCritical \<Rightarrow> snd (releaseCritical s)
      | OpFallback clock p baseline at \<Rightarrow> recordLifecycleFallback clock p baseline at s
      | OpCleanup clock v \<Rightarrow> PluginSessionCleanup clock v s)"

definition session_issues :: "session_op \<Rightarrow> Coordinator \<Rightarrow> sessionRef list" where
  "session_issues op s =
     (case op of
        OpBegin p i g \<Rightarrow> (case fst (session_begin p i g s) of None \<Rightarrow> [] | Some a \<Rightarrow> [a])
      | _ \<Rightarrow> [])"

text \<open>An admission is cancelled or promoted only by the caller that received it from \<open>begin\<close>.\<close>

definition op_allowed :: "sessionRef list \<Rightarrow> session_op \<Rightarrow> bool" where
  "op_allowed issued op =
     (case op of OpCancel a \<Rightarrow> a \<in> set issued | OpPromote a p src \<Rightarrow> a \<in> set issued | _ \<Rightarrow> True)"

text \<open>The reachable coordinators, with the admissions issued so far, oldest first.\<close>

inductive session_reach :: "Coordinator \<Rightarrow> sessionRef list \<Rightarrow> bool" where
  start: "session_reach NewSessionCoordinator []"
| step: "session_reach s issued \<Longrightarrow> op_allowed issued op \<Longrightarrow>
    session_reach (session_apply op s) (issued @ session_issues op s)"

subsection \<open>The invariant\<close>

definition issued_ok :: "Coordinator \<Rightarrow> sessionRef list \<Rightarrow> bool" where
  "issued_ok s issued \<longleftrightarrow>
     co_nextSession s = of_nat (length issued) \<and>
     map sr_token issued = map (\<lambda>k. session_token (of_nat (Suc k))) [0..<length issued]"

definition session_inv :: "Coordinator \<Rightarrow> sessionRef list \<Rightarrow> bool" where
  "session_inv s issued \<longleftrightarrow>
     issued_ok s issued \<and>
     co_pending s \<in> insert no_session (set issued) \<and>
     co_foreground s \<in> insert no_session (set issued) \<and>
     (co_foreground s = no_session \<longrightarrow> \<not> co_executing s) \<and>
     (co_executing s \<longrightarrow> co_pending s = no_session \<and> co_criticalIdentity s = '''') \<and>
     (co_criticalIdentity s \<noteq> '''' \<longrightarrow> co_pending s = no_session \<and> co_foreground s = no_session)"

lemma session_token_nonempty [simp]: "session_token n \<noteq> ''''" "'''' \<noteq> session_token n"
  by (simp_all add: session_token_def)

lemma issued_token_nonempty:
  assumes "issued_ok s issued" "a \<in> set issued"
  shows "sr_token a \<noteq> ''''"
proof -
  have "sr_token a \<in> (\<lambda>k. session_token (of_nat (Suc k))) ` {0..<length issued}"
    using assms unfolding issued_ok_def by (metis image_eqI set_map set_upt)
  then show ?thesis by auto
qed

lemma no_session_not_issued: "issued_ok s issued \<Longrightarrow> no_session \<notin> set issued"
  using issued_token_nonempty by (fastforce simp: no_session_def)

lemma cd_ID_nonempty [simp]: "cd_ID c \<noteq> ''''"
  by (simp add: cd_ID_def)

lemma issued_ok_begin:
  assumes "issued_ok s issued" "session_begin p i g s = (Some a, s')"
  shows "issued_ok s' (issued @ [a])"
proof -
  have "s' = s\<lparr>co_nextSession := of_nat (Suc (length issued)), co_pending := a\<rparr>"
    and "sr_token a = session_token (of_nat (Suc (length issued)))"
    using assms by (auto simp: session_begin_def issued_ok_def Let_def add.commute split: if_splits)
  then show ?thesis using assms(1) by (simp add: issued_ok_def)
qed

lemma session_invI:
  assumes "issued_ok s issued" "co_pending s \<in> insert no_session (set issued)"
    "co_foreground s \<in> insert no_session (set issued)"
    "co_executing s \<Longrightarrow> co_foreground s \<noteq> no_session \<and> co_pending s = no_session \<and> co_criticalIdentity s = ''''"
    "co_criticalIdentity s \<noteq> '''' \<Longrightarrow> co_pending s = no_session \<and> co_foreground s = no_session"
  shows "session_inv s issued"
  using assms unfolding session_inv_def by blast

lemma session_invD:
  assumes "session_inv s issued"
  shows "issued_ok s issued" "co_pending s \<in> insert no_session (set issued)"
    "co_foreground s \<in> insert no_session (set issued)"
    "co_executing s \<Longrightarrow> co_foreground s \<noteq> no_session \<and> co_pending s = no_session \<and> co_criticalIdentity s = ''''"
    "co_criticalIdentity s \<noteq> '''' \<Longrightarrow> co_pending s = no_session \<and> co_foreground s = no_session"
  using assms unfolding session_inv_def by blast+

lemma issued_ok_same: "issued_ok s issued \<Longrightarrow> co_nextSession s' = co_nextSession s \<Longrightarrow> issued_ok s' issued"
  by (simp add: issued_ok_def)

lemma begin_inv:
  assumes "session_inv s issued"
  shows "session_inv (snd (session_begin p i g s)) (issued @ session_issues (OpBegin p i g) s)"
proof (cases "fst (session_begin p i g s)")
  case None
  then have "snd (session_begin p i g s) = s" by (auto simp: session_begin_def Let_def split: if_splits)
  then show ?thesis using assms None by (simp add: session_issues_def)
next
  case (Some a)
  obtain s' where b: "session_begin p i g s = (Some a, s')" using Some by (cases "session_begin p i g s") auto
  then have s': "co_pending s' = a" "co_foreground s' = co_foreground s" "\<not> co_executing s'"
      "co_criticalIdentity s' = ''''"
    by (auto simp: session_begin_def Let_def split: if_splits)
  have "session_inv s' (issued @ [a])"
    using s' session_invD(3) [OF assms] by (intro session_invI issued_ok_begin [OF session_invD(1) [OF assms] b]) auto
  then show ?thesis by (simp add: session_issues_def b)
qed

text \<open>Most operations only clear: the pending session, the foreground, or the critical owner.\<close>

definition narrows :: "Coordinator \<Rightarrow> Coordinator \<Rightarrow> bool" where
  "narrows s s' \<longleftrightarrow>
     co_nextSession s' = co_nextSession s \<and> co_criticalSequence s' = co_criticalSequence s \<and>
     (co_pending s' = co_pending s \<or> co_pending s' = no_session) \<and>
     (co_foreground s' = co_foreground s \<and> co_executing s' = co_executing s
      \<or> co_foreground s' = no_session \<and> \<not> co_executing s') \<and>
     (co_criticalIdentity s' = co_criticalIdentity s \<or> co_criticalIdentity s' = '''')"

lemma narrows_inv:
  assumes "session_inv s issued" "narrows s s'"
  shows "session_inv s' issued"
proof (rule session_invI)
  note n = assms(2) [unfolded narrows_def]
  note inv = session_invD [OF assms(1)]
  show "issued_ok s' issued" using issued_ok_same [OF inv(1)] n by blast
  show "co_pending s' \<in> insert no_session (set issued)" using inv(2) n by auto
  show "co_foreground s' \<in> insert no_session (set issued)" using inv(3) n by auto
  show "co_foreground s' \<noteq> no_session \<and> co_pending s' = no_session \<and> co_criticalIdentity s' = ''''"
    if "co_executing s'" using inv(4) n that by metis
  show "co_pending s' = no_session \<and> co_foreground s' = no_session" if "co_criticalIdentity s' \<noteq> ''''"
    using inv(5) n that by metis
qed

lemma narrows_refl [simp]: "narrows s s"
  by (simp add: narrows_def)

lemma narrows_clear:
  "narrows s (clearPendingLocked s)" "narrows s (clearForegroundLocked s)"
  "narrows s (clearForegroundLocked (clearPendingLocked s))"
  by (simp_all add: narrows_def clearPendingLocked_def clearForegroundLocked_def)

fun clearing_op :: "session_op \<Rightarrow> bool" where
  "clearing_op (OpBegin _ _ _) = False"
| "clearing_op (OpPromote _ _ _) = False"
| "clearing_op (OpExecute _ _ _ _ _) = False"
| "clearing_op (OpAcquire _) = False"
| "clearing_op _ = True"

lemma clearing_narrows:
  assumes "clearing_op op"
  shows "narrows s (session_apply op s)"
proof (cases op)
  case (OpDetach app)
  then show ?thesis by (simp add: session_apply_def session_detach_def Let_def narrows_clear)
next
  case (OpClear e k)
  then show ?thesis by (simp add: session_apply_def session_clear_def Let_def narrows_clear)
next
  case (OpInvalidated v)
  then show ?thesis
    by (simp add: session_apply_def PluginSessionInvalidated_def session_invalidate_def Let_def narrows_clear
        split: bool.splits)
next
  case (OpCompleted live p r k)
  then show ?thesis
    by (simp add: session_apply_def PluginSessionCompleted_def session_complete_def Let_def narrows_clear)
next
  case (OpConfiguration doc)
  then show ?thesis by (simp add: session_apply_def configurationChanged_def Let_def narrows_clear)
next
  case (OpFallback c p n at)
  then show ?thesis by (simp add: session_apply_def recordLifecycleFallback_def Let_def narrows_def)
next
  case (OpCleanup c v)
  then show ?thesis by (simp add: session_apply_def PluginSessionCleanup_def Let_def narrows_def)
qed (use assms in \<open>simp_all add: session_apply_def session_cancel_def releaseCritical_def narrows_clear narrows_def
    clearPendingLocked_def\<close>)

lemma promote_inv:
  assumes "session_inv s issued" "a \<in> set issued"
  shows "session_inv (snd (session_promote a p src s)) issued"
proof (cases "co_pending s = a \<and> p = sr_pluginID a")
  case True
  have "a \<noteq> no_session" using no_session_not_issued [OF session_invD(1) [OF assms(1)]] assms(2) by auto
  then have "\<not> co_executing s" "co_criticalIdentity s = ''''" using session_invD(4,5) [OF assms(1)] True by auto
  then show ?thesis
    using True assms(2) issued_ok_same [OF session_invD(1) [OF assms(1)]]
    by (intro session_invI)
      (auto simp: session_promote_def pendingMatchesAdmission_def clearPendingLocked_def Let_def)
next
  case False
  then show ?thesis using assms(1) by (auto simp: session_promote_def pendingMatchesAdmission_def)
qed

lemma execute_cases:
  obtains (refused) "snd (BeginExecution canceled live p r token s) = s"
    "fst (fst (BeginExecution canceled live p r token s)) \<noteq> None"
  | (admitted) "fst (fst (BeginExecution canceled live p r token s)) = None" "co_criticalIdentity s = ''''"
    "\<not> co_executing s" "co_foreground s = session_of p r token" "token \<noteq> ''''"
    "snd (BeginExecution canceled live p r token s) = (clearPendingLocked s)\<lparr>co_executing := True\<rparr>"
proof (cases "fst (fst (BeginExecution canceled live p r token s))")
  case None
  then have "validateSessionRequest r token = []"
    by (auto simp: BeginExecution_def split: if_splits)
  then have "validateIdentifier token = None"
    by (auto simp: validateSessionRequest_def validation split: option.splits)
  then have "token \<noteq> ''''" by (rule valid_identifier_nonempty)
  moreover have "fst (beginExecution canceled p r token s) = None"
      "snd (BeginExecution canceled live p r token s) = snd (beginExecution canceled p r token s)"
    using None by (auto simp: BeginExecution_def split: if_splits option.splits prod.splits)
  ultimately show ?thesis
    using None by (intro admitted) (auto simp: beginExecution_def Let_def session_of_def split: if_splits)
next
  case (Some e)
  then show ?thesis
    by (intro refused)
      (auto simp: BeginExecution_def beginExecution_def Let_def split: if_splits option.splits prod.splits)
qed

lemma execute_inv:
  assumes "session_inv s issued"
  shows "session_inv (snd (BeginExecution canceled live p r token s)) issued"
proof (cases rule: execute_cases [of canceled live p r token s])
  case refused
  then show ?thesis using assms by simp
next
  case admitted
  have "co_foreground s \<noteq> no_session" using admitted(4,5) by (auto simp: session_of_def no_session_def)
  then show ?thesis
    unfolding admitted(6) using admitted(2) session_invD [OF assms] issued_ok_same [OF session_invD(1) [OF assms]]
    by (intro session_invI) (auto simp: clearPendingLocked_def)
qed

lemma acquire_inv:
  assumes "session_inv s issued"
  shows "session_inv (snd (acquireCritical i s)) issued"
  using session_invD [OF assms] issued_ok_same [OF session_invD(1) [OF assms]]
  by (intro session_invI)
    (auto simp: acquireCritical_def clearPendingLocked_def clearForegroundLocked_def split: if_splits)

lemma session_step_inv:
  assumes "session_inv s issued" "op_allowed issued op"
  shows "session_inv (session_apply op s) (issued @ session_issues op s)"
proof (cases op)
  case (OpBegin p i g)
  then show ?thesis using begin_inv [OF assms(1)] by (simp add: session_apply_def)
next
  case (OpPromote a p src)
  then show ?thesis
    using promote_inv [OF assms(1)] assms(2) by (simp add: session_apply_def session_issues_def op_allowed_def)
next
  case (OpExecute canceled live p r token)
  then show ?thesis using execute_inv [OF assms(1)] by (simp add: session_apply_def session_issues_def)
next
  case (OpAcquire c)
  then show ?thesis using acquire_inv [OF assms(1)] by (simp add: session_apply_def session_issues_def)
qed (use narrows_inv [OF assms(1) clearing_narrows, of op] in \<open>simp_all add: session_issues_def\<close>)

lemma session_reach_inv: "session_reach s issued \<Longrightarrow> session_inv s issued"
proof (induction rule: session_reach.induct)
  case start
  show ?case by (simp add: session_inv_def NewSessionCoordinator_def issued_ok_def)
next
  case (step s issued op)
  then show ?case by (intro session_step_inv)
qed

subsection \<open>Exclusive ownership\<close>

text \<open>(C2) The foreground has one owner. In every reachable coordinator an atomic execution and a
  critical presentation exclude each other; a critical owner leaves neither a foreground nor a pending
  session; and an execution belongs to the foreground session, one that was admitted, with nothing
  pending that could replace it.\<close>

theorem session_exclusion:
  assumes "session_reach s issued"
  shows "\<not> (co_executing s \<and> criticalOwned s) \<and>
    (criticalOwned s \<longrightarrow> co_foreground s = no_session \<and> co_pending s = no_session) \<and>
    (co_executing s \<longrightarrow> co_foreground s \<in> set issued \<and> co_pending s = no_session)"
  using session_invD [OF session_reach_inv [OF assms]] by (auto simp: criticalOwned_def)

definition demo_ref :: InstanceRef where
  "demo_ref = \<lparr>ref_ID = ''desk'', ref_Generation = 1\<rparr>"

definition demo_begun :: Coordinator where
  "demo_begun = session_apply (OpBegin ''calls'' ''desk'' 1) NewSessionCoordinator"

definition demo_admission :: sessionRef where
  "demo_admission = session_of ''calls'' demo_ref ''interactive-1''"

definition demo_interactive :: Coordinator where
  "demo_interactive = session_apply (OpPromote demo_admission ''calls'' None) demo_begun"

lemma demo_begun_eq: "demo_begun = NewSessionCoordinator\<lparr>co_nextSession := 1, co_pending := demo_admission\<rparr>"
  "session_issues (OpBegin ''calls'' ''desk'' 1) NewSessionCoordinator = [demo_admission]"
  by (simp_all add: demo_begun_def session_apply_def session_begin_def NewSessionCoordinator_def demo_admission_def
      session_of_def demo_ref_def session_token_def decimal.simps Let_def session_issues_def)

lemma demo_interactive_eq:
  "demo_interactive = NewSessionCoordinator\<lparr>co_nextSession := 1, co_foreground := demo_admission\<rparr>"
  by (simp add: demo_interactive_def demo_begun_eq session_apply_def session_promote_def pendingMatchesAdmission_def
      clearPendingLocked_def Let_def NewSessionCoordinator_def) (simp add: demo_admission_def session_of_def)

lemma demo_begun_reach: "session_reach demo_begun [demo_admission]"
  using session_reach.step [OF session_reach.start, of "OpBegin ''calls'' ''desk'' 1"]
  by (simp add: op_allowed_def demo_begun_eq(2) flip: demo_begun_def)

lemma demo_interactive_reach: "session_reach demo_interactive [demo_admission]"
  using session_reach.step [OF demo_begun_reach, of "OpPromote demo_admission ''calls'' None"]
  by (simp add: op_allowed_def session_issues_def flip: demo_interactive_def)

theorem session_exclusion_witness:
  "\<not> (co_executing demo_interactive \<and> criticalOwned demo_interactive)"
  using session_exclusion [OF demo_interactive_reach] by simp

subsection \<open>Tokens are never reused\<close>

lemma digit_inject: "m < 10 \<Longrightarrow> n < 10 \<Longrightarrow> ''0123456789'' ! m = ''0123456789'' ! n \<longleftrightarrow> m = n"
  by (rule nth_eq_iff_index_eq) simp_all

lemma decimal_nonempty: "decimal n \<noteq> []"
  by (simp add: decimal.simps [of n])

lemma decimal_inject: "decimal m = decimal n \<Longrightarrow> m = n"
proof (induction m arbitrary: n rule: decimal.induct)
  case (1 m)
  have small: "k < 10" if "decimal m = decimal n" "l < 10" "{k, l} = {m, n}" for k l
    using that decimal_nonempty [of "k div 10"]
    by (auto simp: doubleton_eq_iff decimal.simps [of m] decimal.simps [of n] split: if_splits)
  show ?case
  proof (cases "m < 10")
    case True
    then have "n < 10" using small [OF "1.prems", of m n] by auto
    then show ?thesis using True "1.prems" by (simp add: decimal.simps [of m] decimal.simps [of n] digit_inject)
  next
    case False
    then have n: "\<not> n < 10" using small [OF "1.prems", of n m] by auto
    have "decimal (m div 10) = decimal (n div 10)" "m mod 10 = n mod 10"
      using False n "1.prems" by (simp_all add: decimal.simps [of m] decimal.simps [of n] digit_inject)
    moreover from this(1) have "m div 10 = n div 10" using False by (intro "1.IH") auto
    ultimately show ?thesis by (metis div_mult_mod_eq)
  qed
qed

lemma session_token_inject: "session_token m = session_token n \<longleftrightarrow> m = n"
  by (auto simp: session_token_def word_unat_eq_iff dest: decimal_inject)

lemma issued_distinct:
  assumes "issued_ok s issued" "length issued < 2 ^ 64"
  shows "distinct (map sr_token issued)"
proof -
  have "inj_on (\<lambda>k. session_token (of_nat (Suc k))) {0..<length issued}"
  proof (rule inj_onI)
    fix x y assume xy: "x \<in> {0..<length issued}" "y \<in> {0..<length issued}"
      and "session_token (of_nat (Suc x)) = session_token (of_nat (Suc y))"
    then have "unat (of_nat (Suc x) :: u64) = unat (of_nat (Suc y) :: u64)"
      by (simp only: session_token_inject)
    then show "x = y" using xy assms(2) by (simp add: unat_of_nat del: of_nat_Suc)
  qed
  then show ?thesis using assms(1) by (simp add: issued_ok_def distinct_map del: of_nat_Suc)
qed

text \<open>The states reachable from a given one, in which the list of issued admissions only grows.\<close>

inductive session_steps :: "Coordinator \<Rightarrow> sessionRef list \<Rightarrow> Coordinator \<Rightarrow> sessionRef list \<Rightarrow> bool" where
  none: "session_steps s issued s issued"
| more: "session_steps s issued s' issued' \<Longrightarrow> op_allowed issued' op \<Longrightarrow>
    session_steps s issued (session_apply op s') (issued' @ session_issues op s')"

lemma session_steps_reach: "session_steps s issued s' issued' \<Longrightarrow> session_reach s issued \<Longrightarrow> session_reach s' issued'"
  by (induction rule: session_steps.induct) (auto intro: session_reach.step)

lemma session_steps_prefix: "session_steps s issued s' issued' \<Longrightarrow> prefix issued issued'"
  by (induction rule: session_steps.induct) auto

text \<open>One step shows a session only if it was shown or pending before, or is newly issued.\<close>

lemma session_apply_shown:
  assumes "session_inv s issued" "op_allowed issued op" "a \<notin> set (session_issues op s)" "a \<in> set issued"
    and "co_pending s \<noteq> a" "co_foreground s \<noteq> a"
  shows "co_pending (session_apply op s) \<noteq> a" "co_foreground (session_apply op s) \<noteq> a"
proof -
  have a: "a \<noteq> no_session" using no_session_not_issued [OF session_invD(1) [OF assms(1)]] assms(4) by auto
  have "co_pending (session_apply op s) \<noteq> a \<and> co_foreground (session_apply op s) \<noteq> a"
  proof (cases op)
    case (OpBegin p i g)
    then show ?thesis
      using assms(3,5,6) by (auto simp: session_apply_def session_issues_def session_begin_def Let_def split: if_splits)
  next
    case (OpPromote b p src)
    then show ?thesis
      using assms(5,6) a
      by (auto simp: session_apply_def session_promote_def pendingMatchesAdmission_def clearPendingLocked_def Let_def)
  next
    case (OpExecute canceled live p r token)
    then show ?thesis
      using assms(5,6) a execute_cases [of canceled live p r token s]
      by (fastforce simp: session_apply_def clearPendingLocked_def)
  next
    case (OpAcquire c)
    then show ?thesis
      using assms(5,6) a by (simp add: session_apply_def acquireCritical_def clearPendingLocked_def clearForegroundLocked_def)
  qed (use clearing_narrows [of op s] assms(5,6) a in \<open>auto simp: narrows_def\<close>)
  then show "co_pending (session_apply op s) \<noteq> a" "co_foreground (session_apply op s) \<noteq> a" by auto
qed

lemma ended_stays_ended:
  assumes "session_steps s issued s' issued'" "session_reach s issued" "a \<in> set issued"
    and "co_pending s \<noteq> a" "co_foreground s \<noteq> a" "length issued' < 2 ^ 64"
  shows "co_pending s' \<noteq> a \<and> co_foreground s' \<noteq> a"
  using assms
proof (induction rule: session_steps.induct)
  case (more s issued s' issued' op)
  have len: "length issued' < 2 ^ 64" using more.prems(5) by simp
  have inv: "session_inv s' issued'"
    using session_reach_inv [OF session_steps_reach [OF more.hyps(1) more.prems(1)]] .
  have a: "a \<in> set issued'" using set_mono_prefix [OF session_steps_prefix [OF more.hyps(1)]] more.prems(2) by auto
  have "issued_ok (session_apply op s') (issued' @ session_issues op s')"
    by (rule session_invD(1) [OF session_step_inv [OF inv more.hyps(2)]])
  from issued_distinct [OF this more.prems(5)] a have "a \<notin> set (session_issues op s')" by auto
  then show ?case
    using session_apply_shown [OF inv more.hyps(2) _ a] more.IH [OF more.prems(1-4) len] by blast
qed simp

text \<open>An ended session never comes back. Once an admitted session is neither pending nor in the
  foreground, no sequence of operations makes its token pending or foreground again: tokens are fresh
  (the counter of \<open>interactive-%d\<close> does not wrap within 2^64 admissions), and only a pending session
  is promoted. So a late message about it can match no live session.\<close>

theorem ended_session_stays_ended:
  assumes "session_reach s issued" "a \<in> set issued" "co_pending s \<noteq> a" "co_foreground s \<noteq> a"
    and "session_steps s issued s' issued'" "length issued' < 2 ^ 64"
  shows "sr_token (co_pending s') \<noteq> sr_token a \<and> sr_token (co_foreground s') \<noteq> sr_token a"
proof -
  have inv: "session_inv s' issued'"
    using session_reach_inv [OF session_steps_reach [OF assms(5,1)]] .
  have a: "a \<in> set issued'" using set_mono_prefix [OF session_steps_prefix [OF assms(5)]] assms(2) by auto
  have inj: "inj_on sr_token (set issued')"
    using issued_distinct [OF session_invD(1) [OF inv] assms(6)] by (simp add: distinct_map)
  have same: "b = a" if "b \<in> insert no_session (set issued')" "sr_token b = sr_token a" for b
    using that inj_onD [OF inj that(2) _ a] issued_token_nonempty [OF session_invD(1) [OF inv] a]
    by (auto simp: no_session_def)
  show ?thesis
    using ended_stays_ended [OF assms(5,1-4,6)] same [OF session_invD(2) [OF inv]] same [OF session_invD(3) [OF inv]]
    by blast
qed

definition demo_cleared :: Coordinator where
  "demo_cleared = session_apply (OpClear ''desk'' '''') demo_interactive"

lemma demo_cleared_eq: "demo_cleared = NewSessionCoordinator\<lparr>co_nextSession := 1\<rparr>"
  by (simp add: demo_cleared_def demo_interactive_eq session_apply_def session_clear_def clearForegroundLocked_def
      demo_admission_def session_of_def demo_ref_def NewSessionCoordinator_def no_session_def Let_def)

lemma demo_cleared_reach: "session_reach demo_cleared [demo_admission]"
  using session_reach.step [OF demo_interactive_reach, of "OpClear ''desk'' ''''"]
  by (simp add: op_allowed_def session_issues_def flip: demo_cleared_def)

lemma demo_restarted: "session_steps demo_cleared [demo_admission] (session_apply (OpBegin ''calls'' ''desk'' 1) demo_cleared)
    ([demo_admission] @ session_issues (OpBegin ''calls'' ''desk'' 1) demo_cleared)"
  by (rule session_steps.more [OF session_steps.none]) (simp add: op_allowed_def)

theorem ended_session_stays_ended_witness:
  "sr_token (co_pending (session_apply (OpBegin ''calls'' ''desk'' 1) demo_cleared)) \<noteq> ''interactive-1''"
proof -
  have "no_session \<noteq> demo_admission" by (simp add: no_session_def demo_admission_def session_of_def)
  then have "co_pending demo_cleared \<noteq> demo_admission" "co_foreground demo_cleared \<noteq> demo_admission"
    by (simp_all add: demo_cleared_eq NewSessionCoordinator_def)
  moreover have "length ([demo_admission] @ session_issues (OpBegin ''calls'' ''desk'' 1) demo_cleared) < 2 ^ 64"
    by (simp add: session_issues_def split: option.splits)
  ultimately show ?thesis
    using ended_session_stays_ended [OF demo_cleared_reach _ _ _ demo_restarted]
    by (simp add: demo_admission_def session_of_def)
qed

subsection \<open>Critical takeover\<close>

text \<open>The number of operations of a run that take the foreground for a critical presentation.\<close>

fun acquisitions :: "session_op list \<Rightarrow> Coordinator \<Rightarrow> nat" where
  "acquisitions [] s = 0"
| "acquisitions (op # ops) s =
     (case op of OpAcquire c \<Rightarrow> if fst (acquireCritical (cd_ID c) s) = None then 0 else 1 | _ \<Rightarrow> 0)
     + acquisitions ops (session_apply op s)"

lemma acquisitions_bound: "acquisitions ops s \<le> length ops"
  by (induction ops s rule: acquisitions.induct) (auto split: session_op.splits)

lemma critical_sequence_step:
  "co_criticalSequence (session_apply op s) =
     co_criticalSequence s
     + (case op of OpAcquire c \<Rightarrow> if fst (acquireCritical (cd_ID c) s) = None then 0 else 1 | _ \<Rightarrow> 0)"
proof (cases op)
  case (OpBegin p i g)
  then show ?thesis by (simp add: session_apply_def session_begin_def Let_def)
next
  case (OpPromote a p src)
  then show ?thesis by (simp add: session_apply_def session_promote_def clearPendingLocked_def Let_def)
next
  case (OpExecute canceled live p r token)
  then show ?thesis
    by (cases rule: execute_cases [of canceled live p r token s])
      (simp_all add: session_apply_def clearPendingLocked_def)
next
  case (OpAcquire c)
  then show ?thesis
    by (simp add: session_apply_def acquireCritical_def clearForegroundLocked_def clearPendingLocked_def)
qed (use clearing_narrows [of op s] in \<open>simp_all add: narrows_def\<close>)

lemma critical_sequence_run:
  "co_criticalSequence (fold session_apply ops s) = co_criticalSequence s + of_nat (acquisitions ops s)"
proof (induction ops arbitrary: s)
  case (Cons op ops)
  then show ?case
    by (simp add: critical_sequence_step split: session_op.splits)
qed simp

text \<open>The launcher's admission check detects every critical takeover: if an admission obtained
  before a run of operations is still current after it, then no operation of the run took the
  foreground for a critical presentation, not even one that has been released again. (The sequence
  number is 64 bits wide; the run is shorter than 2^64.)\<close>

theorem launcher_admission_sound:
  assumes "beginLauncherAdmission s = Some n" "launcherAdmissionCurrent n (fold session_apply ops s)"
    and "length ops < 2 ^ 64"
  shows "acquisitions ops s = 0 \<and> stateLocked (fold session_apply ops s) \<noteq> foregroundCriticalOwned
    \<and> stateLocked (fold session_apply ops s) \<noteq> foregroundExecuting"
proof -
  have "of_nat (acquisitions ops s) = (0 :: u64)"
    using assms(1,2) critical_sequence_run [of ops s]
    by (auto simp: beginLauncherAdmission_def launcherAdmissionCurrent_def split: if_splits)
  then have "2 ^ 64 dvd acquisitions ops s" by (simp add: word_of_nat_eq_0_iff)
  moreover have "acquisitions ops s < 2 ^ 64" using acquisitions_bound [of ops s] assms(3) by linarith
  ultimately have "acquisitions ops s = 0" by (meson dvd_imp_le gr0I linorder_not_le)
  then show ?thesis
    using assms(2) by (auto simp: launcherAdmissionCurrent_def stateLocked_def)
qed

theorem launcher_admission_sound_witness:
  "acquisitions [OpBegin ''calls'' ''desk'' 1] NewSessionCoordinator = 0"
  using launcher_admission_sound [of NewSessionCoordinator 0 "[OpBegin ''calls'' ''desk'' 1]"]
  by (simp add: beginLauncherAdmission_def launcherAdmissionCurrent_def NewSessionCoordinator_def session_apply_def
      session_begin_def Let_def)

text \<open>A critical presentation takes over completely or not at all. The runtime refuses it exactly
  while an atomic execution runs, and then changes nothing. Otherwise it owns the foreground
  afterwards: no session is left pending or in the foreground, input goes nowhere, the dispatcher's
  contexts are invalidated first, and the session that held the foreground has its queued input
  cancelled before its plugin is told to end it.\<close>

theorem critical_takeover:
  assumes "session_reach s issued"
  shows "case runtime_AcquireCritical failed clock c s of ((acquired, effects), s') \<Rightarrow>
    acquired = (\<not> co_executing s) \<and>
    (if acquired
     then stateLocked s' = foregroundCriticalOwned \<and> co_foreground s' = no_session \<and> co_pending s' = no_session \<and>
       inputForegroundSnapshot s' = ('''', 0, '''') \<and>
       effects = InvalidateContexts # fst (endSession failed clock (co_foreground s) s)
     else s' = s \<and> effects = [])"
proof (cases "co_executing s")
  case True
  then show ?thesis by (simp add: runtime_AcquireCritical_def acquireCritical_def)
next
  case False
  obtain t s1 where a: "acquireCritical (cd_ID c) s = (Some t, s1)"
    using False by (cases "co_criticalIdentity s = ''''") (simp_all add: acquireCritical_def)
  have t: "t = co_foreground s"
    using a False session_invD(5) [OF session_reach_inv [OF assms]]
    by (auto simp: acquireCritical_def no_session_def split: if_splits)
  have s1: "co_criticalIdentity s1 \<noteq> ''''" "co_foreground s1 = no_session" "co_pending s1 = no_session"
    using a False session_invD(5) [OF session_reach_inv [OF assms]]
    by (auto simp: acquireCritical_def clearForegroundLocked_def clearPendingLocked_def split: if_splits)
  have e: "fst (endSession failed clock t s1) = fst (endSession failed clock t s)"
    "co_criticalIdentity (snd (endSession failed clock t s1)) = co_criticalIdentity s1"
    "co_foreground (snd (endSession failed clock t s1)) = co_foreground s1"
    "co_pending (snd (endSession failed clock t s1)) = co_pending s1"
    by (simp_all add: endSession_def recordLifecycleFallback_def Let_def)
  have "sr_pluginID t = '''' \<Longrightarrow> fst (endSession failed clock t s) = []" by (simp add: endSession_def)
  then show ?thesis
    using False s1 e by (auto simp: runtime_AcquireCritical_def a t stateLocked_def inputForegroundSnapshot_def
        split: prod.splits)
qed

theorem critical_takeover_witness:
  "snd (fst (runtime_AcquireCritical False demo_time demo_call demo_interactive)) =
     [InvalidateContexts, CancelInput ''calls'' demo_ref ''interactive-1'',
      EndPluginSession ''calls'' demo_ref ''interactive-1'']"
  using critical_takeover [OF demo_interactive_reach, of False demo_time demo_call]
  by (simp add: demo_interactive_eq NewSessionCoordinator_def endSession_def demo_admission_def session_of_def
      demo_ref_def Let_def split: prod.splits)

end
