(* ===== verification/Policies.thy ===== *)
theory Policies
  imports Attention Sessions
begin

text \<open>
  \<open>internal/daemon/policy_resolver.go\<close>: the daemon's resolver, which turns a stored observation and the
  live state into the rule that attention applies. The readiness of a package's assets is an interface
  of the resolver and is an argument here. The lemmas connect attention with the sessions: what the
  daemon selects comes from an enabled app of the current generation, and nothing critical is selected
  while a session executes.
\<close>

subsection \<open>Packages of assets (reconciler\_assets.go)\<close>

record Package =
  pk_PluginID :: string
  pk_Version :: string
  pk_Root :: string
  pk_Enabled :: bool
  pk_Assets :: "AssetDeclaration slice"

definition zero_package :: Package where
  "zero_package = \<lparr>pk_PluginID = '''', pk_Version = '''', pk_Root = '''', pk_Enabled = False, pk_Assets = None\<rparr>"

text \<open>\<open>filepath.Dir\<close>: the cleaned path up to and including the last slash.\<close>

definition filepath_Dir :: "string \<Rightarrow> string" where
  "filepath_Dir v = path_Clean (rev (dropWhile (\<lambda>c. c \<noteq> CHR ''/'') (rev v)))"

definition assetPackage :: "Document \<Rightarrow> string \<Rightarrow> Package \<times> bool" where
  "assetPackage doc p =
     (case map_of (doc_Plugins doc) p of
        None \<Rightarrow> (zero_package, False)
      | Some plugin \<Rightarrow>
          (\<lparr>pk_PluginID = pl_ID plugin, pk_Version = pl_Version plugin,
            pk_Root = (if pl_PackageRoot plugin = '''' then filepath_Dir (pl_Executable plugin) else pl_PackageRoot plugin),
            pk_Enabled = list_ex (\<lambda>(_, app). app_PluginID app = p \<and> app_Enabled app) (doc_Apps doc),
            pk_Assets = pl_Assets plugin\<rparr>, True))"

subsection \<open>The resolver\<close>

definition zero_rule :: Rule where
  "zero_rule = \<lparr>ru_Enabled = False, ru_AssetsReady = False, ru_Policy = OtherPolicy '''', ru_DevicePriority = 0,
     ru_HoldMS = 0, ru_CooldownMS = 0, ru_RequiresAck = False, ru_Acknowledged = False, ru_Foreground = False,
     ru_RotationIntervalMS = 0, ru_RotationJitterPercent = 0, ru_BlockedByAtomicExecution = False\<rparr>"

definition Resolve :: "(Package \<Rightarrow> bool) \<Rightarrow> LiveState \<Rightarrow> Coordinator \<Rightarrow> Resolver" where
  "Resolve ready live s r =
     (let v = rec_Observation r; doc = live_document live
      in if \<not> live_loaded live then (zero_rule, False)
      else case map_of (doc_Apps doc) (ref_ID (obs_Instance v)) of
        None \<Rightarrow> (zero_rule, False)
      | Some app \<Rightarrow>
          if app_PluginID app \<noteq> rec_PluginID r then (zero_rule, False)
          else (case app_policy app (obs_Channel v) of
            None \<Rightarrow> (zero_rule, False)
          | Some policy \<Rightarrow>
              let generationCurrent =
                    generations_matches (live_generations live) (rec_PluginID r) (app_ID app) (rec_Generation r);
                  package = fst (assetPackage doc (app_PluginID app));
                  (foreground, suppressed) = attentionState s r
              in (\<lparr>ru_Enabled = (app_Enabled app \<and> generationCurrent \<and> \<not> suppressed),
                    ru_AssetsReady = ready package, ru_Policy = pc_Policy policy,
                    ru_DevicePriority = pc_DevicePriority policy, ru_HoldMS = pc_HoldMS policy,
                    ru_CooldownMS = pc_CooldownMS policy, ru_RequiresAck = pc_RequiresAck policy,
                    ru_Acknowledged = False, ru_Foreground = foreground,
                    ru_RotationIntervalMS = pc_RotationIntervalMS policy,
                    ru_RotationJitterPercent = pc_RotationJitterPercent policy,
                    ru_BlockedByAtomicExecution =
                      (pc_Policy policy = PolicyAttention \<and> obs_Disposition v = DispositionActionable
                       \<and> obs_Impact v = ImpactCritical \<and> blocksCritical s)\<rparr>, True)))"

lemma Resolve_enabled:
  assumes "snd (Resolve ready live s r)" "ru_Enabled (fst (Resolve ready live s r))"
  obtains app policy where "live_loaded live"
    "map_of (doc_Apps (live_document live)) (ref_ID (obs_Instance (rec_Observation r))) = Some app"
    "app_PluginID app = rec_PluginID r" "app_Enabled app"
    "generations_matches (live_generations live) (rec_PluginID r) (app_ID app) (rec_Generation r)"
    "app_policy app (obs_Channel (rec_Observation r)) = Some policy"
    "\<not> snd (attentionState s r)" "ru_Policy (fst (Resolve ready live s r)) = pc_Policy policy"
    "ru_Foreground (fst (Resolve ready live s r)) = fst (attentionState s r)"
    "ru_BlockedByAtomicExecution (fst (Resolve ready live s r)) \<longleftrightarrow>
       pc_Policy policy = PolicyAttention \<and> obs_Disposition (rec_Observation r) = DispositionActionable
       \<and> obs_Impact (rec_Observation r) = ImpactCritical \<and> blocksCritical s"
  using assms by (auto simp: Resolve_def zero_rule_def Let_def split_beta split: if_splits option.splits)

lemma may_present_enabled:
  assumes "may_present resolve h now r"
  shows "snd (resolve r)" "ru_Enabled (fst (resolve r))" "\<not> ru_BlockedByAtomicExecution (fst (resolve r))"
    "policy_admits (fst (resolve r)) (obs_Disposition (rec_Observation r))"
  using assms by (auto simp: may_present_def Let_def split_beta)

lemma selected_record:
  assumes "fst (attention_Select records resolve h now) = Some c"
  obtains r where "r \<in> set records" "may_present resolve h now r" "c = derive r (fst (resolve r))"
proof -
  have "presentation_Select (offered resolve h now records) h now = Some c"
    using assms by (simp only: fst_attention_Select)
  then have "c \<in> set (offered resolve h now records)"
    by (cases rule: Select_cases) (auto simp: select_eligible_def)
  then show ?thesis using that by (auto simp: set_offered)
qed

text \<open>Nothing critical interrupts an atomic execution: while a session executes, what the daemon's
  rules select is never in the critical band, whatever is stored. (The coordinator would refuse it too;
  here it is not even offered, so that it does not hide the next best candidate.)\<close>

theorem no_critical_during_execution:
  assumes "fst (attention_Select records (Resolve ready live s) h now) = Some c" "co_executing s"
  shows "cd_Band c \<noteq> BandCriticalActionable"
proof
  assume critical: "cd_Band c = BandCriticalActionable"
  obtain r where r: "may_present (Resolve ready live s) h now r" "c = derive r (fst (Resolve ready live s r))"
    using assms(1) by (rule selected_record)
  note p = may_present_enabled [OF r(1)]
  have "BandFor (ru_Policy (fst (Resolve ready live s r))) (obs_Impact (rec_Observation r)) = BandCriticalActionable"
    using critical by (simp add: r(2) derive_def Let_def)
  then have "ru_Policy (fst (Resolve ready live s r)) = PolicyAttention" "obs_Impact (rec_Observation r) = ImpactCritical"
    by (auto simp: BandFor_def split: Policy.splits if_splits)
  moreover from this have "obs_Disposition (rec_Observation r) = DispositionActionable"
    using p(4) by (simp add: policy_admits_def)
  ultimately show False
    using p(3) assms(2) by (cases rule: Resolve_enabled [OF p(1,2)]) (simp add: blocksCritical_def)
qed

text \<open>(C34) What the daemon selects is current: the configuration is loaded, the candidate's instance is
  an enabled app of the candidate's plugin, its generation is the one in force, the app has a policy for
  the channel and the candidate carries it, and it is not the observation that the foreground session
  was opened from. An interactive candidate belongs to the foreground instance.\<close>

theorem selected_is_current:
  assumes "fst (attention_Select records (Resolve ready live s) h now) = Some c"
  shows "\<exists>app policy. live_loaded live \<and>
    map_of (doc_Apps (live_document live)) (cd_InstanceID c) = Some app \<and> app_PluginID app = cd_PluginID c \<and>
    app_Enabled app \<and>
    generations_matches (live_generations live) (cd_PluginID c) (app_ID app) (cd_Generation c) \<and>
    app_policy app (cd_Channel c) = Some policy \<and> cd_Policy c = pc_Policy policy \<and>
    co_source s \<noteq> Some \<lparr>ss_pluginID = cd_PluginID c, ss_instanceID = cd_InstanceID c, ss_channel = cd_Channel c,
      ss_key = cd_Key c, ss_generation = cd_Generation c, ss_revision = cd_Revision c\<rparr> \<and>
    (cd_Policy c = PolicyInteractive \<longrightarrow> sr_instanceID (co_foreground s) = cd_InstanceID c)"
proof -
  obtain r where r: "may_present (Resolve ready live s) h now r" "c = derive r (fst (Resolve ready live s r))"
    using assms by (rule selected_record)
  note p = may_present_enabled [OF r(1)]
  show ?thesis
    using p(4) by (cases rule: Resolve_enabled [OF p(1,2)])
      (auto simp: r(2) derive_def attentionState_def policy_admits_def Let_def)
qed

definition demo_plugin_policy :: PolicyConfig where
  "demo_plugin_policy = \<lparr>pc_Policy = PolicyAttention, pc_DevicePriority = 0, pc_HoldMS = 0, pc_CooldownMS = 0,
     pc_RequiresAck = False, pc_ActivationInput = '''', pc_ActivationAction = '''', pc_RotationIntervalMS = 0,
     pc_RotationJitterPercent = 0\<rparr>"

definition demo_app :: App where
  "demo_app = \<lparr>app_ID = ''desk'', app_PluginID = ''calendar'', app_Generation = 1, app_Enabled = True,
     app_LaunchAction = '''', app_Config = None, app_Secrets = None,
     app_Policies = Some [(''status'', demo_plugin_policy)]\<rparr>"

definition demo_live :: LiveState where
  "demo_live = \<lparr>live_loaded = True,
     live_document = \<lparr>doc_Version = 1, doc_Generation = 1,
       doc_Device = \<lparr>dev_BaseURL = '''', dev_AccessTokenSecret = ''''\<rparr>, doc_Plugins = [],
       doc_Apps = [(''desk'', demo_app)]\<rparr>,
     live_generations = [((''calendar'', ''desk''), 1)]\<rparr>"

definition demo_executing :: Coordinator where
  "demo_executing = demo_interactive\<lparr>co_executing := True\<rparr>"

lemma demo_record_fields:
  "rec_PluginID demo_record = ''calendar''" "rec_Generation demo_record = 1"
  "obs_Instance (rec_Observation demo_record) = \<lparr>ref_ID = ''desk'', ref_Generation = 1\<rparr>"
  "obs_Channel (rec_Observation demo_record) = ''status''" "obs_Impact (rec_Observation demo_record) = ImpactNormal"
  "obs_Disposition (rec_Observation demo_record) = DispositionActionable"
  by (simp_all add: demo_record_def admitted_record_def demo_source_def demo_observation_def)

lemma demo_resolved:
  "Resolve (\<lambda>_. True) demo_live demo_executing demo_record = (demo_rule\<lparr>ru_RequiresAck := False, ru_Foreground := True\<rparr>, True)"
  by (simp add: Resolve_def demo_live_def demo_record_fields demo_app_def app_policy_def attentionState_def
      demo_executing_def demo_interactive_eq NewSessionCoordinator_def generations_matches_def generations_Lookup_def
      demo_plugin_policy_def demo_rule_def demo_admission_def session_of_def demo_ref_def)

lemma demo_current_selected:
  "fst (attention_Select [demo_record] (Resolve (\<lambda>_. True) demo_live demo_executing) idle demo_time) =
     Some (derive demo_record (demo_rule\<lparr>ru_RequiresAck := False, ru_Foreground := True\<rparr>))"
proof -
  let ?rule = "demo_rule\<lparr>ru_RequiresAck := False, ru_Foreground := True\<rparr>"
  let ?resolve = "Resolve (\<lambda>_. True) demo_live demo_executing"
  have m: "may_present ?resolve idle demo_time demo_record"
    unfolding may_present_def demo_resolved
    by (simp add: demo_record_fields policy_admits_def demo_rule_def cooling_down_def last_shown_def idle_def
        is_zero_time_def zero_time_def)
      (simp add: demo_record_def admitted_record_def demo_observation_def demo_time_def go_time)
  have o: "offered ?resolve idle demo_time [demo_record] = [derive demo_record ?rule]"
    by (simp add: offered_def List.map_filter_simps evaluate_iff m demo_resolved)
  have "select_eligible [derive demo_record ?rule] idle demo_time = [derive demo_record ?rule]"
    using may_present_eligible [OF m] by (simp add: select_eligible_def demo_resolved)
  then show ?thesis
    by (simp add: fst_attention_Select o presentation_Select_def findEligible_def)
qed

theorem no_critical_during_execution_witness:
  "cd_Band (derive demo_record (demo_rule\<lparr>ru_RequiresAck := False, ru_Foreground := True\<rparr>)) \<noteq> BandCriticalActionable"
  by (rule no_critical_during_execution [OF demo_current_selected]) (simp add: demo_executing_def)

theorem selected_is_current_witness: "\<exists>app. map_of (doc_Apps (live_document demo_live)) ''desk'' = Some app \<and> app_Enabled app"
  using selected_is_current [OF demo_current_selected]
  by (auto simp: derive_def demo_record_fields Let_def)

end
