(* ===== verification/LocalState.thy ===== *)
theory LocalState
  imports Bsb_Prelude
begin

text \<open>
  \<open>internal/localstate\<close>: the atomic replacement and removal of a small state file. The file system is
  modelled as POSIX documents it: a directory maps names to files, a rename replaces an entry at once,
  a file's bytes survive a crash once the file has been synchronised, and after a crash the directory is the
  one last synchronised or any later one. Every system call may fail, a failed write may have written a
  part, and a failed synchronisation of a directory leaves it open which directory survives. The code
  runs as a sequence of disks, one after every call, so that a crash at any point can be spoken about.
\<close>

subsection \<open>Disks\<close>

datatype CommitOutcome = NotCommitted | Committed | CommittedDurabilityUncertain

definition IsCommitted :: "CommitOutcome \<Rightarrow> bool" where
  "IsCommitted outcome \<longleftrightarrow> outcome = Committed \<or> outcome = CommittedDurabilityUncertain"

record inode =
  ino_data :: string
  ino_synced :: bool

type_synonym directory = "(string \<times> nat) list"

record Disk =
  dk_inodes :: "inode list"
  dk_dir :: directory
  dk_dirs :: "directory list" \<comment> \<open>the directories that a crash may leave\<close>

definition set_dir :: "directory \<Rightarrow> Disk \<Rightarrow> Disk" where
  "set_dir dir d = d\<lparr>dk_dir := dir, dk_dirs := dk_dirs d @ [dir]\<rparr>"

definition read_file :: "string \<Rightarrow> Disk \<Rightarrow> string option" where
  "read_file path d = map_option (\<lambda>i. ino_data (dk_inodes d ! i)) (map_of (dk_dir d) path)"

text \<open>What a reader may find at a path after a crash: nothing is known of bytes that were not synchronised.\<close>

definition crash_reads :: "Disk \<Rightarrow> string \<Rightarrow> string option \<Rightarrow> bool" where
  "crash_reads d path r \<longleftrightarrow>
     (\<exists>dir\<in>set (dk_dirs d).
        case map_of dir path of
          None \<Rightarrow> r = None
        | Some i \<Rightarrow> r \<noteq> None \<and> (ino_synced (dk_inodes d ! i) \<longrightarrow> r = Some (ino_data (dk_inodes d ! i))))"

subsection \<open>System calls\<close>

text \<open>Which calls fail. A failing write stops after some bytes.\<close>

record faults =
  fl_mkdirAll :: bool
  fl_createTemp :: bool
  fl_chmod :: bool
  fl_encode :: "nat option"
  fl_syncFile :: bool
  fl_closeFile :: bool
  fl_rename :: bool
  fl_openDirectory :: bool
  fl_syncDirectory :: bool
  fl_closeDirectory :: bool
  fl_remove :: bool

definition create_file :: "string \<Rightarrow> Disk \<Rightarrow> Disk" where
  "create_file tmp d =
     set_dir (AList.update tmp (length (dk_inodes d)) (dk_dir d)) (d\<lparr>dk_inodes := dk_inodes d @ [\<lparr>ino_data = '''', ino_synced = False\<rparr>]\<rparr>)"

definition write_file :: "nat \<Rightarrow> string \<Rightarrow> Disk \<Rightarrow> Disk" where
  "write_file i bytes d = d\<lparr>dk_inodes := (dk_inodes d)[i := \<lparr>ino_data = bytes, ino_synced = False\<rparr>]\<rparr>"

definition sync_file :: "nat \<Rightarrow> Disk \<Rightarrow> Disk" where
  "sync_file i d = d\<lparr>dk_inodes := (dk_inodes d)[i := (dk_inodes d ! i)\<lparr>ino_synced := True\<rparr>]\<rparr>"

definition rename_file :: "string \<Rightarrow> string \<Rightarrow> nat \<Rightarrow> Disk \<Rightarrow> Disk" where
  "rename_file tmp path i d = set_dir (AList.update path i (AList.delete tmp (dk_dir d))) d"

definition sync_directory :: "Disk \<Rightarrow> Disk" where
  "sync_directory d = d\<lparr>dk_dirs := [dk_dir d]\<rparr>"

definition remove_file :: "string \<Rightarrow> Disk \<Rightarrow> Disk" where
  "remove_file path d = set_dir (AList.delete path (dk_dir d)) d"

subsection \<open>Replacement\<close>

type_synonym commit_result = "(CommitOutcome \<times> bool) \<times> Disk list"

text \<open>The deferred clean-up of a replacement that was not promoted: the temporary file is removed.\<close>

definition clean_up :: "faults \<Rightarrow> string \<Rightarrow> Disk list \<Rightarrow> commit_result" where
  "clean_up fl tmp ds = ((NotCommitted, True), if fl_remove fl then ds else ds @ [remove_file tmp (last ds)])"

text \<open>The synchronisation of the directory after the change, which both operations share.\<close>

definition sync_parent :: "faults \<Rightarrow> Disk list \<Rightarrow> commit_result" where
  "sync_parent fl ds =
     (if fl_openDirectory fl \<or> fl_syncDirectory fl then ((CommittedDurabilityUncertain, True), ds)
      else let ds' = ds @ [sync_directory (last ds)]
           in if fl_closeDirectory fl then ((CommittedDurabilityUncertain, True), ds') else ((Committed, False), ds'))"

text \<open>\<open>tmp\<close> is the name that \<open>CreateTemp\<close> picked.\<close>

definition replaceJSON :: "faults \<Rightarrow> string \<Rightarrow> string \<Rightarrow> string \<Rightarrow> Disk \<Rightarrow> commit_result" where
  "replaceJSON fl path tmp bytes d =
     (let i = length (dk_inodes d);
          d1 = create_file tmp d;
          d2 = write_file i (case fl_encode fl of None \<Rightarrow> bytes | Some n \<Rightarrow> take n bytes) d1;
          d3 = sync_file i d2;
          d4 = rename_file tmp path i d3
      in if fl_mkdirAll fl \<or> fl_createTemp fl then ((NotCommitted, True), [d])
         else if fl_chmod fl then clean_up fl tmp [d, d1]
         else if fl_encode fl \<noteq> None \<or> fl_syncFile fl then clean_up fl tmp [d, d1, d2]
         else if fl_closeFile fl \<or> fl_rename fl then clean_up fl tmp [d, d1, d2, d3]
         else sync_parent fl [d, d1, d2, d3, d4])"

definition RemoveAndSync :: "faults \<Rightarrow> string \<Rightarrow> Disk \<Rightarrow> commit_result" where
  "RemoveAndSync fl path d =
     (if map_of (dk_dir d) path = None then ((NotCommitted, False), [d])
      else if fl_remove fl then ((NotCommitted, True), [d])
      else sync_parent fl [d, remove_file path d])"

subsection \<open>What a replacement leaves\<close>

text \<open>Every directory a crash may leave has, at the path, nothing or a synchronised file.\<close>

definition solid :: "string \<Rightarrow> Disk \<Rightarrow> bool" where
  "solid path d \<longleftrightarrow> dk_dir d \<in> set (dk_dirs d) \<and>
     (\<forall>dir\<in>set (dk_dirs d). \<forall>i. map_of dir path = Some i \<longrightarrow> i < length (dk_inodes d) \<and> ino_synced (dk_inodes d ! i))"

text \<open>Files that are created later do not change what a solid path reads.\<close>

lemma map_of_update: "map_of (AList.update k v m) q = (if q = k then Some v else map_of m q)"
  by (simp add: update_conv')

lemma map_of_delete: "map_of (AList.delete k m) q = (if q = k then None else map_of m q)"
  by (simp add: delete_conv')

lemmas disk_ops = create_file_def write_file_def sync_file_def rename_file_def sync_directory_def remove_file_def set_dir_def

text \<open>The disks up to the rename: new files come after the old ones, and the path is untouched.\<close>

definition extends :: "string \<Rightarrow> Disk \<Rightarrow> Disk \<Rightarrow> bool" where
  "extends path d e \<longleftrightarrow>
     (\<exists>ns. dk_inodes e = dk_inodes d @ ns) \<and> map_of (dk_dir e) path = map_of (dk_dir d) path \<and>
     (\<exists>dirs. dk_dirs e = dk_dirs d @ dirs \<and> (\<forall>dir\<in>set dirs. map_of dir path = map_of (dk_dir d) path)) \<and> dk_dir e \<in> set (dk_dirs e)"

lemma extends_reads:
  assumes "solid path d" "extends path d e"
  shows "solid path e" "crash_reads e path r \<longleftrightarrow> crash_reads d path r" "read_file path e = read_file path d"
proof -
  obtain ns where ns: "dk_inodes e = dk_inodes d @ ns" using assms(2) by (auto simp: extends_def)
  obtain dirs where dirs: "dk_dirs e = dk_dirs d @ dirs" "\<forall>dir\<in>set dirs. map_of dir path = map_of (dk_dir d) path"
    using assms(2) by (auto simp: extends_def)
  have cur: "dk_dir d \<in> set (dk_dirs d)" "map_of (dk_dir e) path = map_of (dk_dir d) path" "dk_dir e \<in> set (dk_dirs e)"
    using assms by (auto simp: solid_def extends_def)
  have old: "map_of dir path = Some i \<Longrightarrow> i < length (dk_inodes d) \<and> ino_synced (dk_inodes d ! i)" if "dir \<in> set (dk_dirs d)" for dir i
    using assms(1) that by (auto simp: solid_def)
  have any: "\<exists>dir'\<in>set (dk_dirs d). map_of dir path = map_of dir' path" if "dir \<in> set (dk_dirs e)" for dir
    using that dirs cur(1) by auto
  show "solid path e"
    unfolding solid_def using cur(3) any old by (fastforce simp: ns nth_append)
  have same: "dk_inodes e ! i = dk_inodes d ! i" if "dir \<in> set (dk_dirs d)" "map_of dir path = Some i" for dir i
    using old [OF that] by (simp add: ns nth_append)
  show "read_file path e = read_file path d"
    using same [OF cur(1)] by (auto simp: read_file_def cur(2) split: option.splits intro!: option.map_cong0)
  show "crash_reads e path r \<longleftrightarrow> crash_reads d path r"
  proof
    assume "crash_reads e path r"
    then obtain dir where "dir \<in> set (dk_dirs e)"
      and r: "case map_of dir path of None \<Rightarrow> r = None
        | Some i \<Rightarrow> r \<noteq> None \<and> (ino_synced (dk_inodes e ! i) \<longrightarrow> r = Some (ino_data (dk_inodes e ! i)))"
      unfolding crash_reads_def by blast
    then obtain dir' where "dir' \<in> set (dk_dirs d)" "map_of dir path = map_of dir' path" using any by blast
    then show "crash_reads d path r" using r same unfolding crash_reads_def by (force split: option.splits)
  next
    assume "crash_reads d path r"
    then show "crash_reads e path r" using same unfolding crash_reads_def dirs(1) by (force split: option.splits)
  qed
qed

lemma extends_refl: "dk_dir d \<in> set (dk_dirs d) \<Longrightarrow> extends path d d"
  by (simp add: extends_def)

lemma extends_create: "extends path d e \<Longrightarrow> tmp \<noteq> path \<Longrightarrow> extends path d (create_file tmp e)"
  by (auto simp: extends_def disk_ops map_of_update)

lemma extends_inode:
  assumes "extends path d e" "length (dk_inodes d) \<le> i" "i < length (dk_inodes e)"
  shows "extends path d (e\<lparr>dk_inodes := (dk_inodes e)[i := x]\<rparr>)"
  using assms by (auto simp: extends_def list_update_append)

lemma extends_remove: "extends path d e \<Longrightarrow> tmp \<noteq> path \<Longrightarrow> extends path d (remove_file tmp e)"
  by (auto simp: extends_def disk_ops map_of_delete)

text \<open>The disks of a replacement before the rename.\<close>

lemma before_rename:
  assumes "dk_dir d \<in> set (dk_dirs d)" "tmp \<noteq> path"
  defines "i \<equiv> length (dk_inodes d)"
  shows "extends path d (create_file tmp d)" "extends path d (write_file i bytes (create_file tmp d))"
    "extends path d (sync_file i (write_file i bytes (create_file tmp d)))"
proof -
  have l: "length (dk_inodes (create_file tmp d)) = Suc i" "length (dk_inodes (write_file i bytes (create_file tmp d))) = Suc i"
    by (simp_all add: disk_ops i_def)
  show 1: "extends path d (create_file tmp d)" by (rule extends_create [OF extends_refl [OF assms(1)] assms(2)])
  show 2: "extends path d (write_file i bytes (create_file tmp d))"
    unfolding write_file_def by (rule extends_inode [OF 1]) (simp_all add: l i_def [symmetric])
  show "extends path d (sync_file i (write_file i bytes (create_file tmp d)))"
    unfolding sync_file_def by (rule extends_inode [OF 2]) (simp_all add: l i_def [symmetric])
qed

text \<open>The rename: the new bytes are one more possibility, and the only one once the directory is synchronised.\<close>

lemma rename_reads:
  assumes "solid path e" "i < length (dk_inodes e)" "dk_inodes e ! i = \<lparr>ino_data = bytes, ino_synced = True\<rparr>"
  shows "crash_reads (rename_file tmp path i e) path r \<longleftrightarrow> crash_reads e path r \<or> r = Some bytes"
    "read_file path (rename_file tmp path i e) = Some bytes" "solid path (rename_file tmp path i e)"
    "crash_reads (sync_directory (rename_file tmp path i e)) path r \<longleftrightarrow> r = Some bytes"
    "read_file path (sync_directory (rename_file tmp path i e)) = Some bytes"
    "solid path (sync_directory (rename_file tmp path i e))"
  using assms by (auto simp: crash_reads_def read_file_def solid_def disk_ops map_of_update map_of_delete split: option.splits)

text \<open>The two ways a replacement ends.\<close>

definition abandoned :: "string \<Rightarrow> Disk \<Rightarrow> commit_result \<Rightarrow> bool" where
  "abandoned path d result \<longleftrightarrow> fst result = (NotCommitted, True) \<and> snd result \<noteq> [] \<and> (\<forall>e\<in>set (snd result). extends path d e)"

definition promoted :: "string \<Rightarrow> string \<Rightarrow> Disk \<Rightarrow> commit_result \<Rightarrow> bool" where
  "promoted path bytes d result \<longleftrightarrow>
     (\<exists>es e. (\<forall>x\<in>set es. extends path d x) \<and>
        (\<forall>r. crash_reads e path r \<longleftrightarrow> crash_reads d path r \<or> r = Some bytes) \<and> read_file path e = Some bytes \<and> solid path e \<and>
        (result = ((CommittedDurabilityUncertain, True), es @ [e]) \<or>
         (\<exists>s. (\<forall>r. crash_reads s path r \<longleftrightarrow> r = Some bytes) \<and> read_file path s = Some bytes \<and> solid path s \<and>
            (result = ((CommittedDurabilityUncertain, True), es @ [e, s]) \<or> result = ((Committed, False), es @ [e, s])))))"

lemma clean_up_abandoned:
  assumes "es \<noteq> []" "\<forall>e\<in>set es. extends path d e" "tmp \<noteq> path"
  shows "abandoned path d (clean_up fl tmp es)"
  using assms extends_remove [OF _ assms(3), of d] by (auto simp: abandoned_def clean_up_def)

lemma replaceJSON_ends:
  assumes "solid path d" "tmp \<noteq> path"
  shows "abandoned path d (replaceJSON fl path tmp bytes d) \<or> promoted path bytes d (replaceJSON fl path tmp bytes d)"
proof -
  let ?i = "length (dk_inodes d)"
  let ?d2 = "write_file ?i (case fl_encode fl of None \<Rightarrow> bytes | Some n \<Rightarrow> take n bytes) (create_file tmp d)"
  let ?d4 = "rename_file tmp path ?i (sync_file ?i ?d2)"
  have dir: "dk_dir d \<in> set (dk_dirs d)" using assms(1) by (simp add: solid_def)
  have ext: "\<forall>e\<in>{d, create_file tmp d, ?d2, sync_file ?i ?d2}. extends path d e"
    using before_rename [OF dir assms(2)] extends_refl [OF dir] by blast
  have stopped: "abandoned path d (replaceJSON fl path tmp bytes d)"
    if "fl_mkdirAll fl \<or> fl_createTemp fl \<or> fl_chmod fl \<or> fl_encode fl \<noteq> None \<or> fl_syncFile fl \<or> fl_closeFile fl \<or> fl_rename fl"
  proof (cases "fl_mkdirAll fl \<or> fl_createTemp fl")
    case True
    then show ?thesis using ext by (simp add: replaceJSON_def Let_def abandoned_def)
  next
    case False
    define es where "es = (if fl_chmod fl then [d, create_file tmp d]
      else if fl_encode fl \<noteq> None \<or> fl_syncFile fl then [d, create_file tmp d, ?d2] else [d, create_file tmp d, ?d2, sync_file ?i ?d2])"
    have "replaceJSON fl path tmp bytes d = clean_up fl tmp es"
      using that False by (auto simp: replaceJSON_def Let_def es_def)
    moreover have "es \<noteq> []" "\<forall>e\<in>set es. extends path d e" using ext by (auto simp: es_def)
    ultimately show ?thesis using clean_up_abandoned [OF _ _ assms(2)] by metis
  qed
  show ?thesis
  proof (cases "fl_mkdirAll fl \<or> fl_createTemp fl \<or> fl_chmod fl \<or> fl_encode fl \<noteq> None \<or> fl_syncFile fl \<or> fl_closeFile fl \<or> fl_rename fl")
    case False
    then have r: "replaceJSON fl path tmp bytes d = sync_parent fl ([d, create_file tmp d, ?d2, sync_file ?i ?d2] @ [?d4])"
      by (simp add: replaceJSON_def Let_def)
    have "dk_inodes (sync_file ?i ?d2) ! ?i = \<lparr>ino_data = bytes, ino_synced = True\<rparr>" "?i < length (dk_inodes (sync_file ?i ?d2))"
      using False by (simp_all add: disk_ops)
    note ren = rename_reads [OF extends_reads(1) [OF assms(1)] this(2,1), of tmp]
    have e3: "extends path d (sync_file ?i ?d2)" using ext by blast
    have c: "crash_reads (sync_file ?i ?d2) path x \<longleftrightarrow> crash_reads d path x" for x by (rule extends_reads(2) [OF assms(1) e3])
    have "promoted path bytes d (replaceJSON fl path tmp bytes d)"
      unfolding promoted_def
    proof (intro exI [where x = "[d, create_file tmp d, ?d2, sync_file ?i ?d2]"] exI [where x = ?d4] conjI)
      show "replaceJSON fl path tmp bytes d = ((CommittedDurabilityUncertain, True), [d, create_file tmp d, ?d2, sync_file ?i ?d2] @ [?d4]) \<or>
        (\<exists>s. (\<forall>r. crash_reads s path r \<longleftrightarrow> r = Some bytes) \<and> read_file path s = Some bytes \<and> solid path s \<and>
          (replaceJSON fl path tmp bytes d = ((CommittedDurabilityUncertain, True), [d, create_file tmp d, ?d2, sync_file ?i ?d2] @ [?d4, s]) \<or>
           replaceJSON fl path tmp bytes d = ((Committed, False), [d, create_file tmp d, ?d2, sync_file ?i ?d2] @ [?d4, s])))"
        using ren(4,5,6) [OF e3] unfolding r by (auto simp: sync_parent_def Let_def)
    qed (use ext ren(1,2,3) [OF e3] c in auto)
    then show ?thesis by blast
  qed (use stopped in blast)
qed

lemma replaceJSON_spec:
  assumes "solid path d" "tmp \<noteq> path" "replaceJSON fl path tmp bytes d = ((outcome, err), ds)"
  shows "(\<forall>e\<in>set ds. crash_reads e path r \<longrightarrow> crash_reads d path r \<or> r = Some bytes) \<and>
    (outcome = NotCommitted \<longrightarrow> read_file path (last ds) = read_file path d \<and> (crash_reads (last ds) path r \<longleftrightarrow> crash_reads d path r)) \<and>
    (IsCommitted outcome \<longrightarrow> read_file path (last ds) = Some bytes) \<and>
    (outcome = Committed \<longrightarrow> (crash_reads (last ds) path r \<longleftrightarrow> r = Some bytes)) \<and>
    (err \<longleftrightarrow> outcome \<noteq> Committed) \<and> solid path (last ds)"
  using replaceJSON_ends [OF assms(1,2), of fl bytes]
proof
  assume "abandoned path d (replaceJSON fl path tmp bytes d)"
  then have o: "outcome = NotCommitted" "err" "ds \<noteq> []" "\<forall>e\<in>set ds. extends path d e" by (auto simp: abandoned_def assms(3))
  then have "extends path d (last ds)" by simp
  then show ?thesis using o extends_reads [OF assms(1)] by (auto simp: IsCommitted_def)
next
  assume "promoted path bytes d (replaceJSON fl path tmp bytes d)"
  then obtain es e where es: "\<forall>x\<in>set es. extends path d x"
    and e: "\<And>r. crash_reads e path r \<longleftrightarrow> crash_reads d path r \<or> r = Some bytes" "read_file path e = Some bytes" "solid path e"
    and ends: "((outcome, err), ds) = ((CommittedDurabilityUncertain, True), es @ [e]) \<or>
      (\<exists>s. (\<forall>r. crash_reads s path r \<longleftrightarrow> r = Some bytes) \<and> read_file path s = Some bytes \<and> solid path s \<and>
        (((outcome, err), ds) = ((CommittedDurabilityUncertain, True), es @ [e, s]) \<or> ((outcome, err), ds) = ((Committed, False), es @ [e, s])))"
    unfolding promoted_def assms(3) by blast
  have old: "crash_reads x path r \<longleftrightarrow> crash_reads d path r" if "x \<in> set es" for x using extends_reads(2) [OF assms(1)] es that by blast
  show ?thesis using ends e old by (auto simp: IsCommitted_def)
qed

text \<open>(C9) A replacement is atomic whatever fails and whenever the machine stops: a crash after any of its
  system calls leaves the complete old file or the complete new one; the reported outcome is true, in that
  a replacement that is not committed changed nothing at the path, a committed one is what readers find, and a
  committed one without reservation survives every crash; an error comes exactly with the other
  outcomes; and the path is left ready for the next replacement.\<close>

theorem replace_crash_safe:
  assumes "solid path d" "tmp \<noteq> path" "replaceJSON fl path tmp bytes d = ((outcome, err), ds)"
  shows "(\<forall>e\<in>set ds. crash_reads e path r \<longrightarrow> crash_reads d path r \<or> r = Some bytes) \<and>
    (outcome = NotCommitted \<longrightarrow> read_file path (last ds) = read_file path d \<and> (crash_reads (last ds) path r \<longleftrightarrow> crash_reads d path r)) \<and>
    (IsCommitted outcome \<longrightarrow> read_file path (last ds) = Some bytes) \<and>
    (outcome = Committed \<longrightarrow> (crash_reads (last ds) path r \<longleftrightarrow> r = Some bytes)) \<and>
    (err \<longleftrightarrow> outcome \<noteq> Committed) \<and> solid path (last ds)"
  by (rule replaceJSON_spec [OF assms])

lemma remove_reads:
  assumes "solid path e"
  shows "crash_reads (remove_file path e) path r \<longleftrightarrow> crash_reads e path r \<or> r = None"
    "read_file path (remove_file path e) = None" "solid path (remove_file path e)"
    "crash_reads (sync_directory (remove_file path e)) path r \<longleftrightarrow> r = None"
    "read_file path (sync_directory (remove_file path e)) = None"
    "solid path (sync_directory (remove_file path e))"
  using assms by (auto simp: crash_reads_def read_file_def solid_def disk_ops map_of_delete split: option.splits)

text \<open>The removal of a file keeps the same promises, with nothing in place of the new bytes.\<close>

theorem remove_crash_safe:
  assumes "solid path d" "RemoveAndSync fl path d = ((outcome, err), ds)"
  shows "(\<forall>e\<in>set ds. crash_reads e path r \<longrightarrow> crash_reads d path r \<or> r = None) \<and>
    (outcome = NotCommitted \<longrightarrow> last ds = d) \<and> (IsCommitted outcome \<longrightarrow> read_file path (last ds) = None) \<and>
    (outcome = Committed \<longrightarrow> (crash_reads (last ds) path r \<longleftrightarrow> r = None)) \<and> solid path (last ds)"
proof -
  have "ds = [d] \<and> outcome = NotCommitted \<or>
      ds = [d, remove_file path d] \<and> outcome = CommittedDurabilityUncertain \<or>
      ds = [d, remove_file path d, sync_directory (remove_file path d)] \<and> IsCommitted outcome"
    using assms(2) by (auto simp: RemoveAndSync_def sync_parent_def Let_def IsCommitted_def split: if_splits)
  then show ?thesis using remove_reads [OF assms(1)] assms(1) by (auto simp: IsCommitted_def)
qed

definition no_faults :: faults where
  "no_faults = \<lparr>fl_mkdirAll = False, fl_createTemp = False, fl_chmod = False, fl_encode = None, fl_syncFile = False,
     fl_closeFile = False, fl_rename = False, fl_openDirectory = False, fl_syncDirectory = False, fl_closeDirectory = False,
     fl_remove = False\<rparr>"

definition demo_disk :: Disk where
  "demo_disk = \<lparr>dk_inodes = [\<lparr>ino_data = ''old'', ino_synced = True\<rparr>], dk_dir = [(''state'', 0)], dk_dirs = [[(''state'', 0)]]\<rparr>"

theorem replace_crash_safe_witness:
  "\<not> crash_reads (last (snd (replaceJSON no_faults ''state'' ''tmp'' ''new'' demo_disk))) ''state'' (Some ''old'') \<and>
   fst (replaceJSON (no_faults\<lparr>fl_encode := Some 1\<rparr>) ''state'' ''tmp'' ''new'' demo_disk) = (NotCommitted, True) \<and>
   read_file ''state'' (last (snd (replaceJSON (no_faults\<lparr>fl_encode := Some 1\<rparr>) ''state'' ''tmp'' ''new'' demo_disk))) = Some ''old''"
proof -
  have s: "solid ''state'' demo_disk" by (simp add: solid_def demo_disk_def)
  have o: "fst (replaceJSON no_faults ''state'' ''tmp'' ''new'' demo_disk) = (Committed, False)"
    "fst (replaceJSON (no_faults\<lparr>fl_encode := Some 1\<rparr>) ''state'' ''tmp'' ''new'' demo_disk) = (NotCommitted, True)"
    by (simp_all add: replaceJSON_def no_faults_def Let_def sync_parent_def clean_up_def)
  have c: "replaceJSON no_faults ''state'' ''tmp'' ''new'' demo_disk =
      ((Committed, False), snd (replaceJSON no_faults ''state'' ''tmp'' ''new'' demo_disk))"
    "replaceJSON (no_faults\<lparr>fl_encode := Some 1\<rparr>) ''state'' ''tmp'' ''new'' demo_disk =
      ((NotCommitted, True), snd (replaceJSON (no_faults\<lparr>fl_encode := Some 1\<rparr>) ''state'' ''tmp'' ''new'' demo_disk))"
    by (simp_all flip: o)
  show ?thesis
    using replace_crash_safe [OF s _ c(1), of "Some ''old''"] replace_crash_safe [OF s _ c(2), of None] o
    by (simp add: read_file_def demo_disk_def)
qed

end
