(* ===== verification/AttentionState.thy ===== *)
theory AttentionState
  imports Attention LocalState
begin

text \<open>
  The durable scheduling state: its file format (\<open>internal/attention/state.go\<close>) and the bounded tables
  of last presentations and acknowledgements in the engine (\<open>internal/daemon/attention_state.go\<close>). A Go
  map is an association list, and a loop over a map that deletes the entries it visits is a filter. The
  lemmas show the capacity bound, which entries are evicted, and that a saved document restores what it
  was made from.
\<close>

subsection \<open>The document (attention/state.go)\<close>

record StateIdentity =
  sid_PluginID :: string
  sid_InstanceID :: string
  sid_Generation :: u64
  sid_Channel :: string
  sid_Key :: string

record AcknowledgementState =
  ak_Identity :: StateIdentity
  ak_ObservedAt :: gotime
  ak_TouchedAt :: gotime

record LastShownState =
  ls_Identity :: StateIdentity
  ls_ShownAt :: gotime

record StateDocument =
  sdoc_Version :: int
  sdoc_Acknowledgements :: "AcknowledgementState list"
  sdoc_LastShown :: "LastShownState list"

definition StateVersion :: int where "StateVersion = 1"
definition MaxStateEntries :: nat where "MaxStateEntries = 2048"
definition maxStateBytes :: nat where "maxStateBytes = 2097152"

datatype state_error = StateName identifier_error | StateGenerationZero | StateVersionUnsupported
  | StateTooManyEntries | AcknowledgementInvalid | AcknowledgementDuplicated | LastShownInvalid
  | LastShownDuplicated

definition sid_Validate :: "StateIdentity \<Rightarrow> state_error list" where
  "sid_Validate i =
     concat (map (\<lambda>v. case Identifier.Validate v of None \<Rightarrow> [] | Some e \<Rightarrow> [StateName e])
       [sid_PluginID i, sid_InstanceID i, sid_Channel i, sid_Key i])
     @ (if sid_Generation i = 0 then [StateGenerationZero] else [])"

definition sid_key :: "StateIdentity \<Rightarrow> string" where
  "sid_key i =
     (case Encode [sid_PluginID i, sid_InstanceID i, sid_Channel i, sid_Key i] of None \<Rightarrow> '''' | Some s \<Rightarrow> s)"

text \<open>The two loops keep the set of the keys they have seen and stop at the first fault.\<close>

fun check_acknowledgements :: "string set \<Rightarrow> AcknowledgementState list \<Rightarrow> state_error option" where
  "check_acknowledgements seen [] = None"
| "check_acknowledgements seen (e # es) =
     (if sid_Validate (ak_Identity e) \<noteq> [] \<or> is_zero_time (ak_ObservedAt e) \<or> is_zero_time (ak_TouchedAt e)
        then Some AcknowledgementInvalid
      else if sid_key (ak_Identity e) \<in> seen then Some AcknowledgementDuplicated
      else check_acknowledgements (insert (sid_key (ak_Identity e)) seen) es)"

fun check_last_shown :: "string set \<Rightarrow> LastShownState list \<Rightarrow> state_error option" where
  "check_last_shown seen [] = None"
| "check_last_shown seen (e # es) =
     (if sid_Validate (ls_Identity e) \<noteq> [] \<or> is_zero_time (ls_ShownAt e) then Some LastShownInvalid
      else if sid_key (ls_Identity e) \<in> seen then Some LastShownDuplicated
      else check_last_shown (insert (sid_key (ls_Identity e)) seen) es)"

definition validateStateDocument :: "StateDocument \<Rightarrow> state_error option" where
  "validateStateDocument d =
     (if sdoc_Version d \<noteq> StateVersion then Some StateVersionUnsupported
      else if length (sdoc_Acknowledgements d) + length (sdoc_LastShown d) > MaxStateEntries
        then Some StateTooManyEntries
      else case check_acknowledgements {} (sdoc_Acknowledgements d) of
        Some e \<Rightarrow> Some e
      | None \<Rightarrow> check_last_shown {} (sdoc_LastShown d))"

definition sortStateDocument :: "StateDocument \<Rightarrow> StateDocument" where
  "sortStateDocument d =
     d\<lparr>sdoc_Acknowledgements :=
         sort_by (\<lambda>l r. string_cmp (sid_key (ak_Identity l)) (sid_key (ak_Identity r))) (sdoc_Acknowledgements d),
       sdoc_LastShown :=
         sort_by (\<lambda>l r. string_cmp (sid_key (ls_Identity l)) (sid_key (ls_Identity r))) (sdoc_LastShown d)\<rparr>"

subsection \<open>The store of the document\<close>

record StateStoreStatus =
  ss_Phase :: string
  ss_LastErrorCode :: string
  ss_LastReadAt :: gotime
  ss_LastWriteAt :: gotime
  ss_Failures :: u64

text \<open>
  What \<open>Load\<close> finds at its path: nothing, something it cannot open as a regular file, bytes that do
  not decode as one document, or a document and the size of the file.
\<close>

datatype state_file = StateMissing | StateUnreadable | StateUndecodable | StateFile StateDocument nat

definition failLocked :: "string \<Rightarrow> StateStoreStatus \<Rightarrow> StateStoreStatus" where
  "failLocked code s = s\<lparr>ss_Phase := ''degraded'', ss_LastErrorCode := code, ss_Failures := ss_Failures s + 1\<rparr>"

definition state_Load :: "gotime \<Rightarrow> state_file \<Rightarrow> StateStoreStatus \<Rightarrow> StateDocument option \<times> StateStoreStatus" where
  "state_Load clock file s =
     (let now = time_utc clock;
          loaded = s\<lparr>ss_Phase := ''loaded'', ss_LastErrorCode := '''', ss_LastReadAt := now\<rparr>
      in case file of
        StateMissing \<Rightarrow>
          (Some \<lparr>sdoc_Version = StateVersion, sdoc_Acknowledgements = [], sdoc_LastShown = []\<rparr>, loaded)
      | StateUnreadable \<Rightarrow> (None, failLocked ''attention_state_read_failed'' s)
      | StateUndecodable \<Rightarrow> (None, failLocked ''attention_state_corrupt'' s)
      | StateFile d bytes \<Rightarrow>
          if bytes > maxStateBytes then (None, failLocked ''attention_state_corrupt'' s)
          else if sdoc_Version d \<noteq> StateVersion then (None, failLocked ''attention_state_incompatible'' s)
          else if validateStateDocument d \<noteq> None then (None, failLocked ''attention_state_corrupt'' s)
          else (Some d, loaded))"

text \<open>\<open>replace\<close> is \<open>localstate.ReplaceJSON\<close>: the outcome, and whether it comes with an error.\<close>

definition state_Save ::
  "(StateDocument \<Rightarrow> CommitOutcome \<times> bool) \<Rightarrow> gotime \<Rightarrow> StateDocument \<Rightarrow> StateStoreStatus
     \<Rightarrow> (CommitOutcome \<times> bool) \<times> StateDocument option \<times> StateStoreStatus" where
  "state_Save replace clock d s =
     (let d = (if sdoc_Version d = 0 then d\<lparr>sdoc_Version := StateVersion\<rparr> else d)
      in if validateStateDocument d \<noteq> None
           then ((NotCommitted, True), None, failLocked ''attention_state_invalid'' s)
      else let d = sortStateDocument d; (outcome, failed) = replace d
      in if failed
           then ((outcome, True), Some d,
                 failLocked (if outcome = CommittedDurabilityUncertain
                   then ''attention_state_durability_uncertain'' else ''attention_state_write_failed'') s)
         else ((outcome, False), Some d,
               s\<lparr>ss_Phase := ''loaded'', ss_LastErrorCode := '''', ss_LastWriteAt := time_utc clock\<rparr>))"

subsection \<open>The tables of the engine (daemon/attention\_state.go)\<close>

record ackState =
  as_identity :: StateIdentity
  as_generation :: u64
  as_observedAt :: gotime
  as_touchedAt :: gotime

record lastShownMetadata =
  lm_identity :: StateIdentity
  lm_persistent :: bool

record stateStats =
  sa_RestoredEntries :: u64
  sa_DiscardedEntries :: u64
  sa_PrunedEntries :: u64
  sa_LastShownTTLPruned :: u64
  sa_LastShownCapacityEvictions :: u64
  sa_AcknowledgementTTLPruned :: u64
  sa_AcknowledgementCapacityEvictions :: u64
  sa_SupersededAcknowledgementsPruned :: u64
  sa_LastPrunedAt :: gotime

text \<open>\<open>at_LastShown\<close> is the map \<open>LastShown\<close> of the engine's history.\<close>

record attentionState =
  at_LastShown :: "(string \<times> gotime) list"
  at_lastShownState :: "(string \<times> lastShownMetadata) list"
  at_acknowledged :: "(string \<times> ackState) list"
  at_capacity :: int
  at_ttl :: int
  at_stats :: stateStats

definition zero_stats :: stateStats where
  "zero_stats = \<lparr>sa_RestoredEntries = 0, sa_DiscardedEntries = 0, sa_PrunedEntries = 0, sa_LastShownTTLPruned = 0,
     sa_LastShownCapacityEvictions = 0, sa_AcknowledgementTTLPruned = 0, sa_AcknowledgementCapacityEvictions = 0,
     sa_SupersededAcknowledgementsPruned = 0, sa_LastPrunedAt = zero_time\<rparr>"

definition new_attentionState :: attentionState where
  "new_attentionState = \<lparr>at_LastShown = [], at_lastShownState = [], at_acknowledged = [], at_capacity = 2048,
     at_ttl = 48 * hour, at_stats = zero_stats\<rparr>"

definition live_record :: "ObsRecord list \<Rightarrow> string \<Rightarrow> ObsRecord option" where
  "live_record records = map_of (rev (map (\<lambda>r. (rec_ID r, r)) records))"

definition state_expired :: "int \<Rightarrow> gotime \<Rightarrow> gotime \<Rightarrow> bool" where
  "state_expired ttl now at \<longleftrightarrow> ttl \<le> 0 \<or> \<not> time_after (time_add at ttl) now"

definition victim_cmp :: "string \<times> gotime \<Rightarrow> string \<times> gotime \<Rightarrow> int" where
  "victim_cmp l r =
     (if time_compare (snd l) (snd r) \<noteq> 0 then time_compare (snd l) (snd r) else string_cmp (fst l) (fst r))"

text \<open>The eviction loop: delete victims in order until the map fits.\<close>

fun evict_until :: "int \<Rightarrow> (string \<times> gotime) list \<Rightarrow> (string \<times> 'v) list \<Rightarrow> nat \<times> (string \<times> 'v) list" where
  "evict_until capacity [] m = (0, m)"
| "evict_until capacity (v # vs) m =
     (if int (length m) \<le> capacity then (0, m)
      else case evict_until capacity vs (AList.delete (fst v) m) of (n, m') \<Rightarrow> (Suc n, m'))"

definition pruneLastShownCapacity ::
  "(string \<times> gotime) list \<Rightarrow> (string \<Rightarrow> ObsRecord option) \<Rightarrow> int \<Rightarrow> nat \<times> (string \<times> gotime) list" where
  "pruneLastShownCapacity values live capacity =
     (if capacity \<le> 0 \<or> int (length values) \<le> capacity then (0, values)
      else evict_until capacity (sort_by victim_cmp (filter (\<lambda>(i, _). live i = None) values)) values)"

definition pruneAcknowledgementsWithLive ::
  "(string \<Rightarrow> ObsRecord option) \<Rightarrow> gotime \<Rightarrow> attentionState \<Rightarrow> attentionState" where
  "pruneAcknowledgementsWithLive live now s =
     (let expired = (\<lambda>(i, a). state_expired (at_ttl s) now (as_touchedAt a));
          stale = (\<lambda>(i, a). case live i of None \<Rightarrow> False
                    | Some r \<Rightarrow> as_generation a \<noteq> rec_Generation r
                               \<or> \<not> time_equal (as_observedAt a) (obs_ObservedAt (rec_Observation r)));
          acks = at_acknowledged s;
          ttlPruned = length (filter expired acks);
          superseded = length (filter (\<lambda>e. \<not> expired e \<and> stale e) acks);
          acks1 = filter (\<lambda>e. \<not> expired e \<and> \<not> stale e) acks;
          victims = map (\<lambda>(i, a). (i, as_touchedAt a)) (filter (\<lambda>(i, _). live i = None) acks1);
          (evictions, acks2) =
            (if at_capacity s > 0 \<and> int (length acks1) > at_capacity s
             then evict_until (at_capacity s) (sort_by victim_cmp victims) acks1 else (0, acks1));
          st = at_stats s
      in s\<lparr>at_acknowledged := acks2,
           at_stats := (if ttlPruned \<noteq> 0 \<or> superseded \<noteq> 0 \<or> evictions \<noteq> 0
             then st\<lparr>sa_AcknowledgementTTLPruned := sa_AcknowledgementTTLPruned st + of_nat ttlPruned,
                     sa_SupersededAcknowledgementsPruned := sa_SupersededAcknowledgementsPruned st + of_nat superseded,
                     sa_AcknowledgementCapacityEvictions := sa_AcknowledgementCapacityEvictions st + of_nat evictions,
                     sa_LastPrunedAt := time_utc now\<rparr>
             else st)\<rparr>)"

subsection \<open>The combined bound\<close>

record combinedStateVictim =
  cv_id :: string
  cv_at :: gotime
  cv_ack :: bool
  cv_isLive :: bool

definition combined_cmp :: "combinedStateVictim \<Rightarrow> combinedStateVictim \<Rightarrow> int" where
  "combined_cmp l r =
     (if cv_isLive l \<noteq> cv_isLive r then (if \<not> cv_isLive l then -1 else 1)
      else if time_compare (cv_at l) (cv_at r) \<noteq> 0 then time_compare (cv_at l) (cv_at r)
      else if cv_ack l \<noteq> cv_ack r then (if \<not> cv_ack l then -1 else 1)
      else string_cmp (cv_id l) (cv_id r))"

definition combined_victims ::
  "(string \<Rightarrow> ObsRecord option) \<Rightarrow> (string \<times> gotime) list \<Rightarrow> (string \<times> ackState) list \<Rightarrow> combinedStateVictim list" where
  "combined_victims live shown acks =
     map (\<lambda>(i, at). \<lparr>cv_id = i, cv_at = at, cv_ack = False, cv_isLive = live i \<noteq> None\<rparr>) shown
     @ map (\<lambda>(i, a). \<lparr>cv_id = i, cv_at = as_touchedAt a, cv_ack = True, cv_isLive = live i \<noteq> None\<rparr>) acks"

type_synonym tables = "(string \<times> gotime) list \<times> (string \<times> lastShownMetadata) list \<times> (string \<times> ackState) list"

definition evict_one :: "combinedStateVictim \<Rightarrow> tables \<Rightarrow> tables" where
  "evict_one v t =
     (case t of (shown, meta, acks) \<Rightarrow>
        if cv_ack v then (shown, meta, AList.delete (cv_id v) acks)
        else (AList.delete (cv_id v) shown, AList.delete (cv_id v) meta, acks))"

text \<open>The victims that exceed the capacity, in order of eviction; none without a positive capacity.\<close>

definition chosen_victims ::
  "int \<Rightarrow> (string \<Rightarrow> ObsRecord option) \<Rightarrow> (string \<times> gotime) list \<Rightarrow> (string \<times> ackState) list \<Rightarrow> combinedStateVictim list" where
  "chosen_victims capacity live shown acks =
     (let remaining = int (length shown) + int (length acks) - capacity
      in if capacity \<le> 0 \<or> remaining \<le> 0 then []
         else take (nat remaining) (sort_by combined_cmp (combined_victims live shown acks)))"

definition pruneCombinedState :: "(string \<Rightarrow> ObsRecord option) \<Rightarrow> gotime \<Rightarrow> attentionState \<Rightarrow> attentionState" where
  "pruneCombinedState live now s =
     (case chosen_victims (at_capacity s) live (at_LastShown s) (at_acknowledged s) of
        [] \<Rightarrow> s
      | vs \<Rightarrow>
          (case fold evict_one vs (at_LastShown s, at_lastShownState s, at_acknowledged s) of (shown, meta, acks) \<Rightarrow>
             let st = at_stats s
             in s\<lparr>at_LastShown := shown, at_lastShownState := meta, at_acknowledged := acks,
                  at_stats := st\<lparr>
                    sa_AcknowledgementCapacityEvictions :=
                      sa_AcknowledgementCapacityEvictions st + of_nat (length (filter cv_ack vs)),
                    sa_LastShownCapacityEvictions :=
                      sa_LastShownCapacityEvictions st + of_nat (length (filter (\<lambda>v. \<not> cv_ack v) vs)),
                    sa_LastPrunedAt := time_utc now\<rparr>\<rparr>))"

definition syncLastShownState :: "attentionState \<Rightarrow> attentionState" where
  "syncLastShownState s =
     s\<lparr>at_lastShownState := filter (\<lambda>(i, _). map_of (at_LastShown s) i \<noteq> None) (at_lastShownState s)\<rparr>"

definition pruneState :: "ObsRecord list \<Rightarrow> gotime \<Rightarrow> attentionState \<Rightarrow> bool \<times> attentionState" where
  "pruneState records now s =
     (let before = length (at_LastShown s) + length (at_acknowledged s);
          live = live_record records;
          expired = (\<lambda>i. case map_of (at_LastShown s) i of None \<Rightarrow> False | Some at \<Rightarrow> state_expired (at_ttl s) now at);
          shown = filter (\<lambda>(i, _). \<not> expired i) (at_LastShown s);
          meta = filter (\<lambda>(i, _). \<not> expired i) (at_lastShownState s);
          ttlPruned = length (at_LastShown s) - length shown;
          (evictions, shown2) = pruneLastShownCapacity shown live (at_capacity s);
          s1 = syncLastShownState (s\<lparr>at_LastShown := shown2, at_lastShownState := meta\<rparr>);
          st = at_stats s;
          s2 = (if ttlPruned \<noteq> 0 \<or> evictions \<noteq> 0
                then s1\<lparr>at_stats := st\<lparr>
                       sa_LastShownTTLPruned := sa_LastShownTTLPruned st + of_nat ttlPruned,
                       sa_LastShownCapacityEvictions := sa_LastShownCapacityEvictions st + of_nat evictions,
                       sa_LastPrunedAt := time_utc now\<rparr>\<rparr>
                else s1);
          s3 = pruneCombinedState live now (pruneAcknowledgementsWithLive live now s2)
      in (length (at_LastShown s3) + length (at_acknowledged s3) \<noteq> before, s3))"

text \<open>The same bound on tables that have not been installed yet, with the numbers of evictions.\<close>

definition boundProposedAcknowledgements ::
  "int \<Rightarrow> ObsRecord list \<Rightarrow> tables \<Rightarrow> (nat \<times> nat) \<times> tables" where
  "boundProposedAcknowledgements capacity records t =
     (case t of (shown, meta, proposed) \<Rightarrow>
        let vs = chosen_victims capacity (live_record records) shown proposed
        in ((length (filter cv_ack vs), length (filter (\<lambda>v. \<not> cv_ack v) vs)), fold evict_one vs t))"

subsection \<open>Saving and restoring\<close>

definition record_state_identity :: "ObsRecord \<Rightarrow> u64 \<Rightarrow> StateIdentity" where
  "record_state_identity r g =
     \<lparr>sid_PluginID = rec_PluginID r, sid_InstanceID = ref_ID (obs_Instance (rec_Observation r)), sid_Generation = g,
       sid_Channel = obs_Channel (rec_Observation r), sid_Key = obs_Key (rec_Observation r)\<rparr>"

definition document_last_shown ::
  "Resolver \<Rightarrow> (string \<Rightarrow> ObsRecord option) \<Rightarrow> (string \<times> lastShownMetadata) list \<Rightarrow> string \<times> gotime
     \<Rightarrow> LastShownState option" where
  "document_last_shown resolve live meta e =
     (case e of (i, shownAt) \<Rightarrow>
        (case map_of meta i of
           Some m \<Rightarrow> if lm_persistent m then Some \<lparr>ls_Identity = lm_identity m, ls_ShownAt = time_utc shownAt\<rparr> else None
         | None \<Rightarrow>
             (case live i of
                None \<Rightarrow> None
              | Some r \<Rightarrow>
                  (case resolve r of (rule, valid) \<Rightarrow>
                     if \<not> valid \<or> ru_Policy rule = PolicyInteractive then None
                     else Some \<lparr>ls_Identity = record_state_identity r (rec_Generation r),
                                ls_ShownAt = time_utc shownAt\<rparr>))))"

definition document_acknowledgement ::
  "(string \<Rightarrow> ObsRecord option) \<Rightarrow> string \<times> ackState \<Rightarrow> AcknowledgementState option" where
  "document_acknowledgement live e =
     (case e of (i, a) \<Rightarrow>
        let entry = (\<lambda>identity. Some \<lparr>ak_Identity = identity, ak_ObservedAt = time_utc (as_observedAt a),
                        ak_TouchedAt = time_utc (as_touchedAt a)\<rparr>)
        in if sid_PluginID (as_identity a) = ''''
           then (case live i of None \<Rightarrow> None | Some r \<Rightarrow> entry (record_state_identity r (as_generation a)))
           else entry (as_identity a))"

definition stateDocumentFrom :: "Resolver \<Rightarrow> ObsRecord list \<Rightarrow> tables \<Rightarrow> StateDocument" where
  "stateDocumentFrom resolve records t =
     (case t of (shown, meta, acks) \<Rightarrow>
        let live = live_record records
        in \<lparr>sdoc_Version = StateVersion,
            sdoc_Acknowledgements = List.map_filter (document_acknowledgement live) acks,
            sdoc_LastShown = List.map_filter (document_last_shown resolve live meta) shown\<rparr>)"

abbreviation tables_of :: "attentionState \<Rightarrow> tables" where
  "tables_of s \<equiv> (at_LastShown s, at_lastShownState s, at_acknowledged s)"

definition stateIdentityID :: "StateIdentity \<Rightarrow> string" where
  "stateIdentityID i =
     identity_String \<lparr>id_PluginID = sid_PluginID i, id_InstanceID = sid_InstanceID i,
       id_Channel = sid_Channel i, id_Key = sid_Key i\<rparr>"

definition discard :: "attentionState \<Rightarrow> attentionState" where
  "discard s = s\<lparr>at_stats := (at_stats s)\<lparr>sa_DiscardedEntries := sa_DiscardedEntries (at_stats s) + 1\<rparr>\<rparr>"

definition restoreStateIdentity ::
  "Generation option \<Rightarrow> StateIdentity \<Rightarrow> gotime \<Rightarrow> gotime \<Rightarrow> attentionState \<Rightarrow> bool \<times> attentionState" where
  "restoreStateIdentity gen i at now s =
     (if time_after at now then (False, discard s)
      else if state_expired (at_ttl s) now at
        then (False, s\<lparr>at_stats := (at_stats s)\<lparr>sa_PrunedEntries := sa_PrunedEntries (at_stats s) + 1\<rparr>\<rparr>)
      else case gen of
        None \<Rightarrow> (False, discard s)
      | Some f \<Rightarrow>
          if f (sid_PluginID i) (sid_InstanceID i) \<noteq> Some (sid_Generation i) then (False, discard s) else (True, s))"

definition restored :: "attentionState \<Rightarrow> attentionState" where
  "restored s = s\<lparr>at_stats := (at_stats s)\<lparr>sa_RestoredEntries := sa_RestoredEntries (at_stats s) + 1\<rparr>\<rparr>"

definition restore_last_shown ::
  "Generation option \<Rightarrow> gotime \<Rightarrow> LastShownState \<Rightarrow> attentionState \<Rightarrow> attentionState" where
  "restore_last_shown gen now e s =
     (case restoreStateIdentity gen (ls_Identity e) (ls_ShownAt e) now s of
        (False, s') \<Rightarrow> s'
      | (True, s') \<Rightarrow>
          let i = stateIdentityID (ls_Identity e)
          in restored (s'\<lparr>at_LastShown := AList.update i (time_utc (ls_ShownAt e)) (at_LastShown s'),
               at_lastShownState := AList.update i \<lparr>lm_identity = ls_Identity e, lm_persistent = True\<rparr>
                 (at_lastShownState s')\<rparr>))"

definition restore_acknowledgement ::
  "Generation option \<Rightarrow> gotime \<Rightarrow> AcknowledgementState \<Rightarrow> attentionState \<Rightarrow> attentionState" where
  "restore_acknowledgement gen now e s =
     (if time_after (ak_ObservedAt e) now then discard s
      else case restoreStateIdentity gen (ak_Identity e) (ak_TouchedAt e) now s of
        (False, s') \<Rightarrow> s'
      | (True, s') \<Rightarrow>
          restored (s'\<lparr>at_acknowledged := AList.update (stateIdentityID (ak_Identity e))
            \<lparr>as_identity = ak_Identity e, as_generation = sid_Generation (ak_Identity e),
              as_observedAt = time_utc (ak_ObservedAt e), as_touchedAt = time_utc (ak_TouchedAt e)\<rparr>
            (at_acknowledged s')\<rparr>))"

text \<open>\<open>loaded\<close> is the result of \<open>Load\<close>. The flag says whether the state is persisted again.\<close>

definition restoreAttentionState ::
  "Generation option \<Rightarrow> gotime \<Rightarrow> StateDocument option \<Rightarrow> attentionState \<Rightarrow> bool \<times> attentionState" where
  "restoreAttentionState gen clock loaded s =
     (case loaded of
        None \<Rightarrow> (False, s)
      | Some d \<Rightarrow>
          let now = time_utc clock;
              s1 = fold (restore_last_shown gen now) (sdoc_LastShown d) s;
              s2 = fold (restore_acknowledgement gen now) (sdoc_Acknowledgements d) s1
          in (sa_DiscardedEntries (at_stats s2) \<noteq> 0 \<or> sa_PrunedEntries (at_stats s2) \<noteq> 0, s2))"

subsection \<open>What an eviction removes\<close>

abbreviation vkey :: "combinedStateVictim \<Rightarrow> bool \<times> string" where
  "vkey v \<equiv> (cv_ack v, cv_id v)"

lemma time_compare_le: "time_compare a b \<le> 0 \<longleftrightarrow> instant a \<le> instant b"
  by (simp add: time_compare_def sgn_if)

lemma time_compare_zero: "time_compare a b = 0 \<longleftrightarrow> instant a = instant b"
  by (simp add: time_compare_def sgn_if)

lemma time_compare_ge: "0 \<le> time_compare a b \<longleftrightarrow> instant b \<le> instant a"
  by (simp add: time_compare_def sgn_if)

lemma string_cmp_zero: "string_cmp a b = 0 \<longleftrightarrow> a = b"
  by (auto simp: string_cmp_def)

lemma string_cmp_ge: "0 \<le> string_cmp a b \<longleftrightarrow> b \<le> a"
  by (auto simp: string_cmp_def)

text \<open>The order of eviction: absent before live, older before newer, shown before acknowledged.\<close>

lemma combined_cmp_le:
  "combined_cmp l r \<le> 0 \<longleftrightarrow>
     (\<not> cv_isLive l \<and> cv_isLive r \<or> cv_isLive l = cv_isLive r \<and>
       (instant (cv_at l) < instant (cv_at r) \<or> instant (cv_at l) = instant (cv_at r) \<and>
         (\<not> cv_ack l \<and> cv_ack r \<or> cv_ack l = cv_ack r \<and> cv_id l \<le> cv_id r)))"
  by (auto simp: combined_cmp_def time_compare_le time_compare_zero string_cmp_le)

interpretation eviction: keyed_comparator combined_cmp vkey
proof unfold_locales
  fix x y z :: combinedStateVictim
  show "combined_cmp x y \<le> 0 \<longleftrightarrow> 0 \<le> combined_cmp y x"
    unfolding combined_cmp_le by (auto simp: combined_cmp_def time_compare_ge time_compare_zero string_cmp_ge)
  show "combined_cmp x y \<le> 0 \<Longrightarrow> combined_cmp y z \<le> 0 \<Longrightarrow> combined_cmp x z \<le> 0"
    unfolding combined_cmp_le by (elim disjE conjE) auto
  show "combined_cmp x y = 0 \<Longrightarrow> vkey x = vkey y"
    by (auto simp: combined_cmp_def time_compare_zero string_cmp_zero split: if_splits)
qed

lemma fold_evict_one:
  "fold evict_one vs (shown, meta, acks) =
     (filter (\<lambda>(i, _). (False, i) \<notin> vkey ` set vs) shown, filter (\<lambda>(i, _). (False, i) \<notin> vkey ` set vs) meta,
      filter (\<lambda>(i, _). (True, i) \<notin> vkey ` set vs) acks)"
proof (induction vs arbitrary: shown meta acks)
  case (Cons v vs)
  then show ?case
    by (cases "cv_ack v") (auto simp: evict_one_def AList.delete_eq split_beta intro!: filter_cong)
qed (simp add: split_beta)

lemma combined_victims_filter:
  "combined_victims live (filter (\<lambda>(i, _). (False, i) \<notin> K) shown) (filter (\<lambda>(i, _). (True, i) \<notin> K) acks) =
     filter (\<lambda>v. vkey v \<notin> K) (combined_victims live shown acks)"
proof -
  have "map (\<lambda>(i, at). \<lparr>cv_id = i, cv_at = at, cv_ack = False, cv_isLive = live i \<noteq> None\<rparr>)
      (filter (\<lambda>(i, _). (False, i) \<notin> K) shown) =
    filter (\<lambda>v. vkey v \<notin> K)
      (map (\<lambda>(i, at). \<lparr>cv_id = i, cv_at = at, cv_ack = False, cv_isLive = live i \<noteq> None\<rparr>) shown)"
    by (induction shown) auto
  moreover have "map (\<lambda>(i, a). \<lparr>cv_id = i, cv_at = as_touchedAt a, cv_ack = True, cv_isLive = live i \<noteq> None\<rparr>)
      (filter (\<lambda>(i, _). (True, i) \<notin> K) acks) =
    filter (\<lambda>v. vkey v \<notin> K)
      (map (\<lambda>(i, a). \<lparr>cv_id = i, cv_at = as_touchedAt a, cv_ack = True, cv_isLive = live i \<noteq> None\<rparr>) acks)"
    by (induction acks) auto
  ultimately show ?thesis by (simp add: combined_victims_def)
qed

lemma distinct_combined_victims:
  assumes "alist_wf shown" "alist_wf acks"
  shows "distinct (map vkey (combined_victims live shown acks))"
proof -
  have "map vkey (combined_victims live shown acks) = map (Pair False) (map fst shown) @ map (Pair True) (map fst acks)"
    by (simp add: combined_victims_def split_beta)
  then show ?thesis using assms by (auto simp: distinct_map inj_on_def)
qed

lemma length_combined_victims: "length (combined_victims live shown acks) = length shown + length acks"
  by (simp add: combined_victims_def)

lemma filter_not_in_take:
  assumes "distinct (map f xs)"
  shows "filter (\<lambda>x. f x \<notin> f ` set (take n xs)) xs = drop n xs"
proof -
  have d: "f ` set (take n xs) \<inter> f ` set (drop n xs) = {}"
    using assms by (metis append_take_drop_id distinct_append map_append set_map)
  have "filter (\<lambda>x. f x \<notin> f ` set (take n xs)) (take n xs @ drop n xs) = drop n xs"
    using d by (auto simp: filter_empty_conv filter_id_conv simp del: append_take_drop_id)
  then show ?thesis by simp
qed

text \<open>What is kept is, up to order, the sorted list of victims without the ones chosen.\<close>

lemma kept_victims:
  assumes "alist_wf shown" "alist_wf acks" "fold evict_one (chosen_victims capacity live shown acks) (shown, meta, acks) = (shown', meta', acks')"
  shows "\<exists>n. mset (combined_victims live shown' acks') = mset (drop n (sort_by combined_cmp (combined_victims live shown acks)))
    \<and> chosen_victims capacity live shown acks = take n (sort_by combined_cmp (combined_victims live shown acks))
    \<and> (capacity > 0 \<longrightarrow> int (length shown + length acks - n) \<le> capacity)"
proof -
  let ?V = "combined_victims live shown acks"
  let ?S = "sort_by combined_cmp ?V"
  define n where "n = (if capacity \<le> 0 then 0 else nat (int (length shown) + int (length acks) - capacity))"
  have c: "chosen_victims capacity live shown acks = take n ?S"
    by (auto simp: chosen_victims_def n_def Let_def)
  have "mset (map vkey ?S) = mset (map vkey ?V)" by simp
  then have d: "distinct (map vkey ?S)"
    using distinct_combined_victims [OF assms(1,2)] mset_eq_imp_distinct_iff by metis
  have "combined_victims live shown' acks' = filter (\<lambda>v. vkey v \<notin> vkey ` set (take n ?S)) ?V"
    using assms(3) by (auto simp: c fold_evict_one combined_victims_filter)
  then have "mset (combined_victims live shown' acks') = mset (filter (\<lambda>v. vkey v \<notin> vkey ` set (take n ?S)) ?S)"
    by simp
  then have "mset (combined_victims live shown' acks') = mset (drop n ?S)"
    by (simp only: filter_not_in_take [OF d])
  moreover have "capacity > 0 \<longrightarrow> int (length shown + length acks - n) \<le> capacity"
    by (auto simp: n_def)
  ultimately show ?thesis using c by blast
qed

definition state_wf :: "attentionState \<Rightarrow> bool" where
  "state_wf s \<longleftrightarrow> alist_wf (at_LastShown s) \<and> alist_wf (at_lastShownState s) \<and> alist_wf (at_acknowledged s)"

lemma pruneCombined_tables:
  "tables_of (pruneCombinedState live now s) =
     fold evict_one (chosen_victims (at_capacity s) live (at_LastShown s) (at_acknowledged s)) (tables_of s)"
  by (simp add: pruneCombinedState_def Let_def split: list.splits prod.splits)

lemma pruneCombined_bounded:
  assumes "state_wf s" "0 < at_capacity s"
  shows "int (length (at_LastShown (pruneCombinedState live now s))
    + length (at_acknowledged (pruneCombinedState live now s))) \<le> at_capacity s"
proof -
  let ?s = "pruneCombinedState live now s"
  have wf: "alist_wf (at_LastShown s)" "alist_wf (at_acknowledged s)" using assms(1) by (auto simp: state_wf_def)
  obtain n where n: "mset (combined_victims live (at_LastShown ?s) (at_acknowledged ?s)) =
      mset (drop n (sort_by combined_cmp (combined_victims live (at_LastShown s) (at_acknowledged s))))"
    "int (length (at_LastShown s) + length (at_acknowledged s) - n) \<le> at_capacity s"
    using kept_victims [OF wf pruneCombined_tables [symmetric]] assms(2) by blast
  from arg_cong [where f = size, OF n(1)]
  have "length (at_LastShown ?s) + length (at_acknowledged ?s) = length (at_LastShown s) + length (at_acknowledged s) - n"
    by (simp add: length_combined_victims)
  with n(2) show ?thesis by simp
qed

lemma evict_until_wf: "alist_wf m \<Longrightarrow> alist_wf (snd (evict_until capacity vs m))"
  by (induction vs arbitrary: m) (auto simp: split_beta alist.wf_remove)

lemma state_wf_acknowledgements: "state_wf s \<Longrightarrow> state_wf (pruneAcknowledgementsWithLive live now s)"
  by (simp add: state_wf_def pruneAcknowledgementsWithLive_def Let_def split_beta evict_until_wf alist_wf_filter)

lemma capacity_acknowledgements [simp]: "at_capacity (pruneAcknowledgementsWithLive live now s) = at_capacity s"
  by (simp add: pruneAcknowledgementsWithLive_def Let_def split_beta)

lemma pruneLastShownCapacity_wf: "alist_wf m \<Longrightarrow> alist_wf (snd (pruneLastShownCapacity m live capacity))"
  by (simp add: pruneLastShownCapacity_def evict_until_wf)

lemma attention_state_fits:
  assumes "state_wf s" "0 < at_capacity s"
  shows "int (length (at_LastShown (snd (pruneState records now s)))
    + length (at_acknowledged (snd (pruneState records now s)))) \<le> at_capacity s"
proof -
  obtain s1 where s1: "snd (pruneState records now s) = pruneCombinedState (live_record records) now
      (pruneAcknowledgementsWithLive (live_record records) now s1)" "state_wf s1" "at_capacity s1 = at_capacity s"
    using assms(1)
    by (auto simp: pruneState_def Let_def split_beta syncLastShownState_def state_wf_def alist_wf_filter
        pruneLastShownCapacity_wf)
  then show ?thesis
    using pruneCombined_bounded [OF state_wf_acknowledgements [OF s1(2)]] assms(2) by simp
qed

lemma length_map_filter_le: "length (List.map_filter f xs) \<le> length xs"
  by (induction xs) (auto simp: List.map_filter_simps split: option.splits)

text \<open>The durable scheduling state is bounded: after every pruning pass the last presentations and
  the acknowledgements together fit the capacity, whatever the tables held before, and the document
  made from them never has more entries than its format allows (the daemon's capacity is 2048).\<close>

theorem attention_state_bounded:
  assumes "state_wf s" "0 < at_capacity s" "at_capacity s \<le> int MaxStateEntries"
    and "snd (pruneState records now s) = s'"
  shows "int (length (at_LastShown s') + length (at_acknowledged s')) \<le> at_capacity s \<and>
    length (sdoc_Acknowledgements (stateDocumentFrom resolve records (tables_of s')))
      + length (sdoc_LastShown (stateDocumentFrom resolve records (tables_of s'))) \<le> MaxStateEntries"
proof -
  have "int (length (at_LastShown s') + length (at_acknowledged s')) \<le> at_capacity s"
    using attention_state_fits [OF assms(1,2), of records now] assms(4) by simp
  moreover have "length (sdoc_Acknowledgements (stateDocumentFrom resolve records (tables_of s')))
      \<le> length (at_acknowledged s')"
    "length (sdoc_LastShown (stateDocumentFrom resolve records (tables_of s'))) \<le> length (at_LastShown s')"
    by (simp_all add: stateDocumentFrom_def length_map_filter_le Let_def)
  ultimately show ?thesis using assms(3) by linarith
qed

theorem attention_state_bounded_witness:
  "int (length (at_LastShown (snd (pruneState [] demo_time new_attentionState)))) \<le> 2048"
proof -
  have "state_wf new_attentionState" "0 < at_capacity new_attentionState"
    "at_capacity new_attentionState \<le> int MaxStateEntries" "at_capacity new_attentionState = 2048"
    by (simp_all add: state_wf_def new_attentionState_def MaxStateEntries_def)
  then show ?thesis
    using attention_state_bounded [of new_attentionState "[]" demo_time, OF _ _ _ refl] by fastforce
qed

text \<open>Evictions for capacity take the least valuable entries first: whatever the combined bound
  evicts is absent from the store or else everything that is kept is live; and between two entries that
  are both live or both absent the one that is evicted is not the newer one.\<close>

theorem eviction_order:
  assumes "state_wf s" "v \<in> set (chosen_victims (at_capacity s) live (at_LastShown s) (at_acknowledged s))"
    and "w \<in> set (combined_victims live (at_LastShown (pruneCombinedState live now s))
      (at_acknowledged (pruneCombinedState live now s)))"
  shows "(cv_isLive v \<longrightarrow> cv_isLive w) \<and> (cv_isLive v = cv_isLive w \<longrightarrow> instant (cv_at v) \<le> instant (cv_at w))"
proof -
  have wf: "alist_wf (at_LastShown s)" "alist_wf (at_acknowledged s)" using assms(1) by (auto simp: state_wf_def)
  let ?S = "sort_by combined_cmp (combined_victims live (at_LastShown s) (at_acknowledged s))"
  obtain n where n: "mset (combined_victims live (at_LastShown (pruneCombinedState live now s))
        (at_acknowledged (pruneCombinedState live now s))) = mset (drop n ?S)"
    "chosen_victims (at_capacity s) live (at_LastShown s) (at_acknowledged s) = take n ?S"
    using kept_victims [OF wf pruneCombined_tables [symmetric]] by blast
  have "w \<in> set (drop n ?S)" using assms(3) mset_eq_setD [OF n(1)] by simp
  with assms(2) have "combined_cmp v w \<le> 0"
    by (intro eviction.take_sort_by_least) (simp_all add: n(2))
  then show ?thesis by (auto simp: combined_cmp_le)
qed

lemma length_le_of_dom:
  assumes "alist_wf m" "dom (map_of m) \<subseteq> dom (map_of m')"
  shows "length m \<le> length m'"
proof -
  have "length m = card (dom (map_of m))" using assms(1) by (rule alist.len_card)
  also have "\<dots> \<le> card (dom (map_of m'))" using assms(2) by (intro card_mono) (auto simp: finite_dom_map_of)
  also have "\<dots> \<le> length m'" by (metis card_length dom_map_of_conv_image_fst length_map set_map)
  finally show ?thesis .
qed

text \<open>The combined bound can evict state of observations that are still live. When every entry
  belongs to a stored observation and there are more entries than the capacity, pruning drops an entry
  of a live observation. The store admits as many observations as the capacity, 2048, and each of
  them may have both an entry as shown and an acknowledgement, so the capacity does not retain every
  live entry.\<close>

theorem live_state_evicted:
  assumes "state_wf s" "0 < at_capacity s"
    and "at_capacity s < int (length (at_LastShown s) + length (at_acknowledged s))"
    and "\<forall>i\<in>dom (map_of (at_LastShown s)) \<union> dom (map_of (at_acknowledged s)). live_record records i \<noteq> None"
  shows "\<exists>i. live_record records i \<noteq> None \<and>
    (map_of (at_LastShown s) i \<noteq> None \<and> map_of (at_LastShown (snd (pruneState records now s))) i = None \<or>
     map_of (at_acknowledged s) i \<noteq> None \<and> map_of (at_acknowledged (snd (pruneState records now s))) i = None)"
proof (rule ccontr)
  let ?s = "snd (pruneState records now s)"
  assume none: "\<not> ?thesis"
  have live: "live_record records i \<noteq> None"
    if "map_of (at_LastShown s) i \<noteq> None \<or> map_of (at_acknowledged s) i \<noteq> None" for i
    using assms(4) that by blast
  have "map_of (at_LastShown ?s) i \<noteq> None" if "map_of (at_LastShown s) i \<noteq> None" for i
    using none live [OF disjI1 [OF that]] that by metis
  then have "length (at_LastShown s) \<le> length (at_LastShown ?s)"
    using assms(1) by (intro length_le_of_dom subsetI) (simp_all only: state_wf_def domIff not_False_eq_True)
  moreover have "map_of (at_acknowledged ?s) i \<noteq> None" if "map_of (at_acknowledged s) i \<noteq> None" for i
    using none live [OF disjI2 [OF that]] that by metis
  then have "length (at_acknowledged s) \<le> length (at_acknowledged ?s)"
    using assms(1) by (intro length_le_of_dom subsetI) (simp_all only: state_wf_def domIff not_False_eq_True)
  ultimately show False
    using attention_state_fits [OF assms(1,2), of records now] assms(3) by linarith
qed


definition demo_state :: attentionState where
  "demo_state = new_attentionState\<lparr>at_LastShown := [(rec_ID demo_record, demo_time)],
     at_acknowledged := [(rec_ID demo_record, \<lparr>as_identity = record_state_identity demo_record 1, as_generation = 1,
       as_observedAt = obs_ObservedAt demo_observation, as_touchedAt = demo_time\<rparr>)], at_capacity := 1\<rparr>"

lemma demo_state_live: "live_record [demo_record] (rec_ID demo_record) = Some demo_record"
  by (simp add: live_record_def)

theorem live_state_evicted_witness:
  "map_of (at_LastShown (snd (pruneState [demo_record] demo_time demo_state))) (rec_ID demo_record) = None \<or>
   map_of (at_acknowledged (snd (pruneState [demo_record] demo_time demo_state))) (rec_ID demo_record) = None"
proof -
  have k: "map_of (at_LastShown demo_state) i \<noteq> None \<Longrightarrow> i = rec_ID demo_record"
    "map_of (at_acknowledged demo_state) i \<noteq> None \<Longrightarrow> i = rec_ID demo_record" for i
    by (auto simp: demo_state_def split: if_splits)
  have "\<forall>i\<in>dom (map_of (at_LastShown demo_state)) \<union> dom (map_of (at_acknowledged demo_state)).
      live_record [demo_record] i \<noteq> None"
    using k demo_state_live by blast
  moreover have "state_wf demo_state" "0 < at_capacity demo_state"
    "at_capacity demo_state < int (length (at_LastShown demo_state) + length (at_acknowledged demo_state))"
    by (simp_all add: state_wf_def demo_state_def new_attentionState_def)
  ultimately show ?thesis
    using live_state_evicted [of demo_state "[demo_record]" demo_time] k by metis
qed

theorem eviction_order_witness:
  "\<exists>v\<in>set (chosen_victims 1 (live_record [demo_record]) (at_LastShown demo_state) (at_acknowledged demo_state)).
     \<forall>w\<in>set (combined_victims (live_record [demo_record])
         (at_LastShown (pruneCombinedState (live_record [demo_record]) demo_time demo_state))
         (at_acknowledged (pruneCombinedState (live_record [demo_record]) demo_time demo_state))). cv_isLive w"
proof -
  let ?live = "live_record [demo_record]"
  have c: "at_capacity demo_state = 1" and wf: "state_wf demo_state"
    by (simp_all add: state_wf_def demo_state_def new_attentionState_def)
  have len: "length (combined_victims ?live (at_LastShown demo_state) (at_acknowledged demo_state)) = 2"
    by (simp add: length_combined_victims demo_state_def)
  then have "length (chosen_victims 1 ?live (at_LastShown demo_state) (at_acknowledged demo_state)) = 1"
    by (simp add: chosen_victims_def Let_def demo_state_def)
  then obtain v where v: "v \<in> set (chosen_victims 1 ?live (at_LastShown demo_state) (at_acknowledged demo_state))"
    by (metis length_greater_0_conv list.set_sel(1) less_one)
  have "set (chosen_victims 1 ?live (at_LastShown demo_state) (at_acknowledged demo_state))
      \<subseteq> set (combined_victims ?live (at_LastShown demo_state) (at_acknowledged demo_state))"
    by (auto simp: chosen_victims_def Let_def dest: in_set_takeD)
  with v have "cv_isLive v" by (auto simp: combined_victims_def demo_state_def demo_state_live)
  then show ?thesis using v eviction_order [OF wf, of v ?live _ demo_time] by (auto simp: c)
qed

subsection \<open>Saving and loading\<close>

lemma check_acknowledgements_None:
  "check_acknowledgements seen es = None \<longleftrightarrow>
     (\<forall>e\<in>set es. sid_Validate (ak_Identity e) = [] \<and> \<not> is_zero_time (ak_ObservedAt e) \<and> \<not> is_zero_time (ak_TouchedAt e))
     \<and> distinct (map (\<lambda>e. sid_key (ak_Identity e)) es) \<and> (\<lambda>e. sid_key (ak_Identity e)) ` set es \<inter> seen = {}"
  by (induction es arbitrary: seen) auto

lemma check_last_shown_None:
  "check_last_shown seen es = None \<longleftrightarrow>
     (\<forall>e\<in>set es. sid_Validate (ls_Identity e) = [] \<and> \<not> is_zero_time (ls_ShownAt e))
     \<and> distinct (map (\<lambda>e. sid_key (ls_Identity e)) es) \<and> (\<lambda>e. sid_key (ls_Identity e)) ` set es \<inter> seen = {}"
  by (induction es arbitrary: seen) auto

lemma distinct_map_sort_by [simp]: "distinct (map f (sort_by c xs)) \<longleftrightarrow> distinct (map f xs)"
proof -
  have "mset (map f (sort_by c xs)) = mset (map f xs)" by simp
  then show ?thesis by (rule mset_eq_imp_distinct_iff)
qed

lemma validate_None:
  "validateStateDocument d = None \<longleftrightarrow>
     sdoc_Version d = StateVersion \<and>
     length (sdoc_Acknowledgements d) + length (sdoc_LastShown d) \<le> MaxStateEntries \<and>
     check_acknowledgements {} (sdoc_Acknowledgements d) = None \<and> check_last_shown {} (sdoc_LastShown d) = None"
  by (auto simp: validateStateDocument_def split: option.splits)

lemma validate_sorted: "validateStateDocument (sortStateDocument d) = None \<longleftrightarrow> validateStateDocument d = None"
  by (simp add: validate_None sortStateDocument_def check_acknowledgements_None check_last_shown_None)

text \<open>A saved state document can be loaded again: whatever \<open>Save\<close> hands to the atomic replacement,
  \<open>Load\<close> accepts and returns, provided that the file is within the read limit. \<open>Save\<close> does not check
  that limit: a document whose encoding is larger is written, and then refused as corrupt.\<close>

theorem saved_document_loads:
  assumes "state_Save replace clock d status = (result, Some d', status')"
  shows "fst (state_Load clock' (StateFile d' bytes) status'') = (if bytes \<le> maxStateBytes then Some d' else None)"
proof -
  define d0 where "d0 = (if sdoc_Version d = 0 then d\<lparr>sdoc_Version := StateVersion\<rparr> else d)"
  have valid: "validateStateDocument d0 = None" and d': "d' = sortStateDocument d0"
    using assms by (auto simp: state_Save_def Let_def d0_def [symmetric] split: if_splits prod.splits)
  then have "validateStateDocument d' = None" by (simp add: validate_sorted)
  moreover from this have "sdoc_Version d' = StateVersion" by (auto simp: validateStateDocument_def split: if_splits)
  ultimately show ?thesis by (simp add: state_Load_def Let_def)
qed

definition demo_document :: StateDocument where
  "demo_document = \<lparr>sdoc_Version = 0, sdoc_Acknowledgements = [],
     sdoc_LastShown = [\<lparr>ls_Identity = record_state_identity demo_record 1, ls_ShownAt = demo_time\<rparr>]\<rparr>"

definition fresh_status :: StateStoreStatus where
  "fresh_status = \<lparr>ss_Phase = ''unavailable'', ss_LastErrorCode = '''', ss_LastReadAt = zero_time,
     ss_LastWriteAt = zero_time, ss_Failures = 0\<rparr>"

lemma demo_document_saved:
  "\<exists>status'. state_Save (\<lambda>_. (Committed, False)) demo_time demo_document fresh_status =
     ((Committed, False), Some (demo_document\<lparr>sdoc_Version := 1\<rparr>), status')"
  by (simp add: state_Save_def demo_document_def validateStateDocument_def sortStateDocument_def StateVersion_def
      MaxStateEntries_def sid_Validate_def record_state_identity_def demo_record_def admitted_record_def
      demo_source_def demo_observation_def demo_time_def is_zero_time_def Identifier.Validate_def MaxBytes_def
      blank_string_def ValidString_def bytes_of_def runes.simps)

theorem saved_document_loads_witness:
  "fst (state_Load demo_time (StateFile (demo_document\<lparr>sdoc_Version := 1\<rparr>) 400) fresh_status) =
     Some (demo_document\<lparr>sdoc_Version := 1\<rparr>)"
proof -
  obtain status' where s: "state_Save (\<lambda>_. (Committed, False)) demo_time demo_document fresh_status =
      ((Committed, False), Some (demo_document\<lparr>sdoc_Version := 1\<rparr>), status')"
    using demo_document_saved by blast
  show ?thesis using saved_document_loads [OF s, of demo_time 400 fresh_status] by (simp add: maxStateBytes_def)
qed

subsection \<open>A restart keeps acknowledgements\<close>

definition restorable :: "Generation option \<Rightarrow> gotime \<Rightarrow> int \<Rightarrow> AcknowledgementState \<Rightarrow> bool" where
  "restorable gen now ttl e \<longleftrightarrow>
     \<not> time_after (ak_ObservedAt e) now \<and> \<not> time_after (ak_TouchedAt e) now \<and>
     \<not> state_expired ttl now (ak_TouchedAt e) \<and>
     (case gen of None \<Rightarrow> False
      | Some f \<Rightarrow> f (sid_PluginID (ak_Identity e)) (sid_InstanceID (ak_Identity e)) = Some (sid_Generation (ak_Identity e)))"

definition restored_ack :: "AcknowledgementState \<Rightarrow> ackState" where
  "restored_ack e = \<lparr>as_identity = ak_Identity e, as_generation = sid_Generation (ak_Identity e),
     as_observedAt = time_utc (ak_ObservedAt e), as_touchedAt = time_utc (ak_TouchedAt e)\<rparr>"

lemma restore_acknowledgement_effect:
  "at_acknowledged (restore_acknowledgement gen now e s) =
     (if restorable gen now (at_ttl s) e
      then AList.update (stateIdentityID (ak_Identity e)) (restored_ack e) (at_acknowledged s) else at_acknowledged s)"
  "at_ttl (restore_acknowledgement gen now e s) = at_ttl s"
  by (simp_all add: restore_acknowledgement_def restoreStateIdentity_def restorable_def restored_ack_def discard_def
      restored_def split: option.splits)

lemma restore_last_shown_effect [simp]:
  "at_acknowledged (restore_last_shown gen now e s) = at_acknowledged s" "at_ttl (restore_last_shown gen now e s) = at_ttl s"
  by (simp_all add: restore_last_shown_def restoreStateIdentity_def discard_def restored_def Let_def split: option.splits)

lemma fold_restore_last_shown [simp]:
  "at_acknowledged (fold (restore_last_shown gen now) es s) = at_acknowledged s"
  "at_ttl (fold (restore_last_shown gen now) es s) = at_ttl s"
  by (induction es arbitrary: s) simp_all

lemma fold_restore_other:
  "i \<notin> (\<lambda>e. stateIdentityID (ak_Identity e)) ` set es \<Longrightarrow>
     map_of (at_acknowledged (fold (restore_acknowledgement gen now) es s)) i = map_of (at_acknowledged s) i"
  by (induction es arbitrary: s) (auto simp: restore_acknowledgement_effect update_conv')

lemma fold_restore_acknowledgement:
  assumes "distinct (map (\<lambda>e. stateIdentityID (ak_Identity e)) es)" "e \<in> set es" "restorable gen now (at_ttl s) e"
  shows "map_of (at_acknowledged (fold (restore_acknowledgement gen now) es s)) (stateIdentityID (ak_Identity e)) =
    Some (restored_ack e)"
  using assms
proof (induction es arbitrary: s)
  case (Cons x es)
  show ?case
  proof (cases "x = e")
    case True
    then have "stateIdentityID (ak_Identity e) \<notin> (\<lambda>e. stateIdentityID (ak_Identity e)) ` set es"
      using Cons.prems(1) by simp
    then show ?thesis
      using True Cons.prems(3) by (simp add: fold_restore_other restore_acknowledgement_effect update_conv')
  next
    case False
    then show ?thesis using Cons by (simp add: restore_acknowledgement_effect(2))
  qed
qed simp

text \<open>Every acknowledgement is stored under its own identity and generation, as \<open>Acknowledge\<close> makes it.\<close>

definition acks_consistent :: "attentionState \<Rightarrow> bool" where
  "acks_consistent s \<longleftrightarrow>
     list_all (\<lambda>(i, a). stateIdentityID (as_identity a) = i \<and> sid_Generation (as_identity a) = as_generation a
       \<and> sid_PluginID (as_identity a) \<noteq> '''') (at_acknowledged s)"

definition ack_entry :: "ackState \<Rightarrow> AcknowledgementState" where
  "ack_entry a = \<lparr>ak_Identity = as_identity a, ak_ObservedAt = time_utc (as_observedAt a),
     ak_TouchedAt = time_utc (as_touchedAt a)\<rparr>"

lemma document_acknowledgements:
  assumes "acks_consistent s"
  shows "sdoc_Acknowledgements (stateDocumentFrom resolve records (tables_of s)) =
    map (\<lambda>(i, a). ack_entry a) (at_acknowledged s)"
proof -
  have "List.map_filter (document_acknowledgement live) acks = map (\<lambda>(i, a). ack_entry a) acks"
    if "list_all (\<lambda>(i, a). sid_PluginID (as_identity a) \<noteq> '''') acks" for live acks
    using that
    by (induction acks) (auto simp: List.map_filter_simps document_acknowledgement_def ack_entry_def Let_def)
  moreover have "list_all (\<lambda>(i, a). sid_PluginID (as_identity a) \<noteq> '''') (at_acknowledged s)"
    using assms by (auto simp: acks_consistent_def list_all_iff)
  ultimately show ?thesis by (simp add: stateDocumentFrom_def Let_def)
qed

text \<open>Acknowledgements survive a restart. If the engine's state is saved and the document that was
  written is loaded (within the read limit) by a fresh engine, then every acknowledgement whose app
  generation is still current, and that is neither expired nor dated after the clock, is back under the
  same identifier with the same generation and the same instants.\<close>

theorem acknowledgement_survives_restart:
  assumes "state_wf s" "acks_consistent s" "map_of (at_acknowledged s) i = Some a"
    and "state_Save replace clock (stateDocumentFrom resolve records (tables_of s)) status = (result, Some d, status')"
    and "bytes \<le> maxStateBytes"
    and "f (sid_PluginID (as_identity a)) (sid_InstanceID (as_identity a)) = Some (as_generation a)"
    and "\<not> time_after (as_observedAt a) now" "\<not> time_after (as_touchedAt a) now"
    and "\<not> state_expired (at_ttl new_attentionState) now (as_touchedAt a)"
  shows "map_of (at_acknowledged (snd (restoreAttentionState (Some f) now
      (fst (state_Load clock' (StateFile d bytes) status'')) new_attentionState))) i =
    Some (a\<lparr>as_observedAt := time_utc (as_observedAt a), as_touchedAt := time_utc (as_touchedAt a)\<rparr>)"
proof -
  let ?doc = "stateDocumentFrom resolve records (tables_of s)"
  have v: "sdoc_Version ?doc = StateVersion" by (simp add: stateDocumentFrom_def Let_def)
  have saved: "d = sortStateDocument ?doc" "validateStateDocument ?doc = None"
    using assms(4) by (auto simp: state_Save_def Let_def v StateVersion_def split: if_splits prod.splits)
  then have "validateStateDocument d = None" by (simp add: validate_sorted)
  moreover have "sdoc_Version d = StateVersion" by (simp add: saved(1) sortStateDocument_def v)
  ultimately have load: "fst (state_Load clock' (StateFile d bytes) status'') = Some d"
    using assms(5) by (simp add: state_Load_def Let_def)
  have ia: "(i, a) \<in> set (at_acknowledged s)" using assms(3) by (rule map_of_SomeD)
  have ids: "stateIdentityID (as_identity a) = i" "sid_Generation (as_identity a) = as_generation a"
    using assms(2) ia by (auto simp: acks_consistent_def list_all_iff)
  have keys: "map (\<lambda>e. stateIdentityID (ak_Identity e)) (map (\<lambda>(i, a). ack_entry a) (at_acknowledged s))
      = map fst (at_acknowledged s)"
    using assms(2) by (auto simp: acks_consistent_def list_all_iff ack_entry_def)
  have "distinct (map (\<lambda>e. stateIdentityID (ak_Identity e)) (sdoc_Acknowledgements ?doc))"
    using assms(1) by (simp only: document_acknowledgements [OF assms(2)] keys state_wf_def)
  then have dist: "distinct (map (\<lambda>e. stateIdentityID (ak_Identity e)) (sdoc_Acknowledgements d))"
    by (simp add: saved(1) sortStateDocument_def)
  have mem: "ack_entry a \<in> set (sdoc_Acknowledgements d)"
    using ia by (force simp: saved(1) sortStateDocument_def document_acknowledgements [OF assms(2)])
  have rest: "restorable (Some f) (time_utc now) (at_ttl new_attentionState) (ack_entry a)"
    using assms(6-9) ids by (simp add: restorable_def ack_entry_def state_expired_def go_time)
  have "restored_ack (ack_entry a) = a\<lparr>as_observedAt := time_utc (as_observedAt a), as_touchedAt := time_utc (as_touchedAt a)\<rparr>"
    by (simp add: restored_ack_def ack_entry_def ids(2) time_utc_def)
  moreover have "stateIdentityID (ak_Identity (ack_entry a)) = i" by (simp add: ack_entry_def ids(1))
  ultimately show ?thesis
    using fold_restore_acknowledgement [OF dist mem] rest by (simp add: load restoreAttentionState_def Let_def)
qed

lemma demo_identity_valid: "sid_Validate (record_state_identity demo_record 1) = []"
  by (simp add: sid_Validate_def record_state_identity_def demo_record_def admitted_record_def demo_source_def
      demo_observation_def Identifier.Validate_def MaxBytes_def blank_string_def ValidString_def bytes_of_def
      runes.simps)

lemma demo_state_document:
  "stateDocumentFrom (\<lambda>_. (demo_rule, True)) [] (tables_of demo_state) =
     \<lparr>sdoc_Version = 1, sdoc_Acknowledgements = [\<lparr>ak_Identity = record_state_identity demo_record 1,
        ak_ObservedAt = \<lparr>instant = 10, zone_offset = 0\<rparr>, ak_TouchedAt = demo_time\<rparr>], sdoc_LastShown = []\<rparr>"
  by (simp add: stateDocumentFrom_def demo_state_def new_attentionState_def List.map_filter_simps
      document_acknowledgement_def document_last_shown_def live_record_def StateVersion_def)
    (simp add: record_state_identity_def demo_record_def admitted_record_def demo_source_def demo_observation_def
      time_utc_def demo_time_def)

lemma demo_state_saved:
  "\<exists>d status'. state_Save (\<lambda>_. (Committed, False)) demo_time
     (stateDocumentFrom (\<lambda>_. (demo_rule, True)) [] (tables_of demo_state)) fresh_status =
     ((Committed, False), Some d, status')"
  by (simp add: demo_state_document state_Save_def validateStateDocument_def sortStateDocument_def StateVersion_def
      MaxStateEntries_def demo_identity_valid demo_time_def is_zero_time_def)

theorem acknowledgement_survives_restart_witness:
  "\<exists>d. map_of (at_acknowledged (snd (restoreAttentionState (Some (\<lambda>_ _. Some 1)) demo_time
      (fst (state_Load demo_time (StateFile d 400) fresh_status)) new_attentionState))) (rec_ID demo_record) \<noteq> None"
proof -
  obtain d status' where saved: "state_Save (\<lambda>_. (Committed, False)) demo_time
      (stateDocumentFrom (\<lambda>_. (demo_rule, True)) [] (tables_of demo_state)) fresh_status =
      ((Committed, False), Some d, status')"
    using demo_state_saved by blast
  have wf: "state_wf demo_state" by (simp add: state_wf_def demo_state_def new_attentionState_def)
  have cons: "acks_consistent demo_state"
    by (simp add: acks_consistent_def demo_state_def stateIdentityID_def record_state_identity_def rec_ID_def rec_Identity_def)
      (simp add: demo_record_def admitted_record_def demo_source_def)
  have a: "map_of (at_acknowledged demo_state) (rec_ID demo_record) = Some \<lparr>as_identity = record_state_identity demo_record 1,
      as_generation = 1, as_observedAt = obs_ObservedAt demo_observation, as_touchedAt = demo_time\<rparr>"
    by (simp add: demo_state_def)
  have "400 \<le> maxStateBytes" by (simp add: maxStateBytes_def)
  then show ?thesis
    using acknowledgement_survives_restart [OF wf cons a saved, of 400 "\<lambda>_ _. Some 1" demo_time demo_time fresh_status]
    by (auto simp: demo_observation_def demo_time_def new_attentionState_def state_expired_def go_time hour_def)
qed

end
