(* ===== verification/Engine.thy ===== *)
theory Engine
  imports AttentionState Sessions
begin

text \<open>
  \<open>internal/daemon/engine.go\<close>: the state machine between the observation store, attention, the foreground
  coordinator and the display. The engine holds \<open>stepMu\<close> for the whole of an operation, so each is one
  function on the state; the store and the coordinator it calls are part of that state. The store has a lock of its
  own: between the calls that a step makes to it, plugins publish and withdraw and others wake the engine; what they do
  is part of the surroundings (\<open>env_during\<close>, \<open>env_between\<close>). The coordinator is not changed by others during a step. The renderer,
  which is behind an interface, is an oracle: an arbitrary function of the number of earlier calls and
  of its argument. The log of the calls to the renderer, of the recorded traces and of the documents
  handed to the state store are kept in the state, so that a property can speak about them. The loop of
  \<open>step\<close> has fuel: once others leave the store alone, the capacity of the store bounds the rounds that follow.
\<close>

subsection \<open>State\<close>

datatype DeliveryOutcome = OutcomeDrawn | OutcomeCleared | OutcomeUnchanged | OutcomeFirmwareSuppressed
  | OutcomeDeviceUnavailable | OutcomeAssetMissing | OutcomeInvalidPresentation | OtherOutcome string

text \<open>An error of the renderer, up to what \<open>errors.Is\<close> asks of it.\<close>

datatype render_error = ErrInvalidPresentation | ErrCanceled | ErrDevice

type_synonym render_result = "DeliveryOutcome \<times> render_error option"

datatype engine_error = ErrInvalidRendererResult | RenderFailed render_error

record BackPresentation =
  bp_identity :: Identity
  bp_id :: string
  bp_generation :: u64
  bp_revision :: u64

record Trace =
  tr_At :: gotime
  tr_SelectedID :: string
  tr_Outcome :: DeliveryOutcome
  tr_Evaluations :: "Evaluation list"

definition zero_identity :: Identity where
  "zero_identity = \<lparr>id_PluginID = '''', id_InstanceID = '''', id_Channel = '''', id_Key = ''''\<rparr>"

definition no_back :: BackPresentation where
  "no_back = \<lparr>bp_identity = zero_identity, bp_id = '''', bp_generation = 0, bp_revision = 0\<rparr>"

record Engine =
  en_store :: Store
  en_sessions :: Coordinator
  en_currentID :: string
  en_currentSince :: gotime
  en_att :: attentionState
  en_lastRevision :: u64
  en_lastGeneration :: u64
  en_lastIdentity :: Identity
  en_criticalOwned :: bool
  en_cooldownUntil :: gotime
  en_cooldownReason :: string
  en_cooldownKept :: BackPresentation
  en_localSequence :: u64
  en_renders :: "(Candidate option \<times> render_result) list"
  en_traces :: "Trace list"
  en_saved :: "StateDocument list"
  en_effects :: "session_effect list"

text \<open>
  What others do while a step runs: an operation of the store, or a wake-up of the engine, which needs no lock. Only the
  loop of the engine receives from the channel of the store.
\<close>

datatype other_op = OtherStore "Generation option" store_op | OtherWake

text \<open>
  The surroundings of the engine: the daemon's resolver, which reads the sessions; the renderer; the
  clock of the store at each of its readings; the current generation of an instance; whether a
  plugin fails to end a session; and what others do during the call of the renderer with this number, up to the step's
  next call to the store, and right after the exclusion of the observation that it refused.
\<close>

record Env =
  env_resolve :: "Coordinator \<Rightarrow> Resolver"
  env_render :: "nat \<Rightarrow> Candidate option \<Rightarrow> render_result"
  env_clock :: "nat \<Rightarrow> gotime"
  env_generation :: "Generation option"
  env_endFailed :: bool
  env_during :: "nat \<Rightarrow> other_op list"
  env_between :: "nat \<Rightarrow> other_op list"

definition newEngine :: "Store \<Rightarrow> Coordinator \<Rightarrow> Engine" where
  "newEngine store sessions = \<lparr>en_store = store, en_sessions = sessions, en_currentID = '''',
     en_currentSince = zero_time, en_att = new_attentionState, en_lastRevision = 0, en_lastGeneration = 0,
     en_lastIdentity = zero_identity, en_criticalOwned = False, en_cooldownUntil = zero_time,
     en_cooldownReason = '''', en_cooldownKept = no_back, en_localSequence = 0, en_renders = [],
     en_traces = [], en_saved = [], en_effects = []\<rparr>"

definition en_history :: "Engine \<Rightarrow> History" where
  "en_history e = \<lparr>CurrentID = en_currentID e, CurrentSince = en_currentSince e, LastShown = at_LastShown (en_att e)\<rparr>"

definition back_valid :: "BackPresentation \<Rightarrow> bool" where
  "back_valid p \<longleftrightarrow>
     bp_id p \<noteq> '''' \<and> id_PluginID (bp_identity p) \<noteq> '''' \<and> bp_generation p \<noteq> 0 \<and> bp_revision p \<noteq> 0"

definition back_matches :: "BackPresentation \<Rightarrow> string \<Rightarrow> Identity \<Rightarrow> u64 \<Rightarrow> u64 \<Rightarrow> bool" where
  "back_matches p i ident g rv \<longleftrightarrow>
     back_valid p \<and> bp_id p = i \<and> bp_identity p = ident \<and> bp_generation p = g \<and> bp_revision p = rv"

text \<open>The claim to the display: what was last delivered.\<close>

definition en_claim :: "Engine \<Rightarrow> BackPresentation" where
  "en_claim e = \<lparr>bp_identity = en_lastIdentity e, bp_id = en_currentID e, bp_generation = en_lastGeneration e,
     bp_revision = en_lastRevision e\<rparr>"

subsection \<open>Parts of a step\<close>

definition resolveRecord :: "Env \<Rightarrow> Engine \<Rightarrow> Resolver" where
  "resolveRecord env e r =
     (case env_resolve env (en_sessions e) r of (rule, ok) \<Rightarrow>
        if \<not> ok then (rule, False)
        else (rule\<lparr>ru_Acknowledged :=
                (case map_of (at_acknowledged (en_att e)) (rec_ID r) of
                   None \<Rightarrow> False
                 | Some a \<Rightarrow> as_generation a = rec_Generation r
                            \<and> time_equal (as_observedAt a) (obs_ObservedAt (rec_Observation r)))\<rparr>, True))"

definition engine_render :: "Env \<Rightarrow> Candidate option \<Rightarrow> Engine \<Rightarrow> render_result \<times> Engine" where
  "engine_render env c e =
     (let result = env_render env (length (en_renders e)) c
      in (result, e\<lparr>en_renders := en_renders e @ [(c, result)]\<rparr>))"

definition renderFailureOutcome :: "DeliveryOutcome \<Rightarrow> DeliveryOutcome" where
  "renderFailureOutcome outcome =
     (if outcome \<in> {OutcomeDeviceUnavailable, OutcomeAssetMissing, OutcomeInvalidPresentation} then outcome
      else OutcomeDeviceUnavailable)"

text \<open>True when the result respects the renderer's contract.\<close>

definition validateRenderResult :: "Candidate option \<Rightarrow> render_result \<Rightarrow> bool" where
  "validateRenderResult c result =
     (case result of
        (outcome, Some err) \<Rightarrow> outcome \<in> {OutcomeDeviceUnavailable, OutcomeAssetMissing, OutcomeInvalidPresentation}
      | (outcome, None) \<Rightarrow>
          if c = None then outcome = OutcomeCleared \<or> outcome = OutcomeUnchanged
          else outcome \<in> {OutcomeDrawn, OutcomeUnchanged, OutcomeFirmwareSuppressed})"

definition engine_record :: "gotime \<Rightarrow> Candidate option \<times> Evaluation list \<Rightarrow> DeliveryOutcome \<Rightarrow> Engine \<Rightarrow> Engine" where
  "engine_record now decision outcome e =
     e\<lparr>en_traces := en_traces e @
         [\<lparr>tr_At = time_utc now, tr_SelectedID = (case fst decision of None \<Rightarrow> '''' | Some c \<Rightarrow> cd_ID c),
           tr_Outcome = outcome, tr_Evaluations = snd decision\<rparr>]\<rparr>"

definition engine_acquireCritical :: "Env \<Rightarrow> Candidate \<Rightarrow> Engine \<Rightarrow> bool \<times> Engine" where
  "engine_acquireCritical env c e =
     (case runtime_AcquireCritical (env_endFailed env) (env_clock env (length (en_renders e))) c (en_sessions e) of
        ((acquired, effects), s) \<Rightarrow>
          (acquired, e\<lparr>en_sessions := s, en_effects := en_effects e @ effects,
             en_criticalOwned := (if acquired then True else en_criticalOwned e)\<rparr>))"

definition engine_releaseCritical :: "Engine \<Rightarrow> Engine" where
  "engine_releaseCritical e =
     (if \<not> en_criticalOwned e then e
      else e\<lparr>en_sessions := snd (releaseCritical (en_sessions e)), en_criticalOwned := False\<rparr>)"

definition forget_delivery :: "Engine \<Rightarrow> Engine" where
  "forget_delivery e = e\<lparr>en_lastRevision := 0, en_lastGeneration := 0, en_lastIdentity := zero_identity\<rparr>"

definition clearRenderedSelection :: "Engine \<Rightarrow> Engine" where
  "clearRenderedSelection e =
     engine_releaseCritical (forget_delivery (e\<lparr>en_currentID := '''', en_currentSince := zero_time\<rparr>))"

definition presentationCooldownActive :: "gotime \<Rightarrow> Engine \<Rightarrow> bool \<times> Engine" where
  "presentationCooldownActive now e =
     (if is_zero_time (en_cooldownUntil e) then (False, e)
      else if time_before now (en_cooldownUntil e) then (True, e)
      else (False, e\<lparr>en_cooldownUntil := zero_time, en_cooldownReason := '''', en_cooldownKept := no_back\<rparr>))"

definition containsExactRecord :: "ObsRecord list \<Rightarrow> BackPresentation \<Rightarrow> bool" where
  "containsExactRecord records p =
     list_ex (\<lambda>r. back_matches p (rec_ID r) (rec_Identity r) (rec_Generation r) (obs_Revision (rec_Observation r))) records"

definition persistState :: "Env \<Rightarrow> ObsRecord list \<Rightarrow> Engine \<Rightarrow> Engine" where
  "persistState env records e =
     e\<lparr>en_saved := en_saved e @
         [stateDocumentFrom (env_resolve env (en_sessions e)) records (tables_of (en_att e))]\<rparr>"

definition engine_pruneState :: "ObsRecord list \<Rightarrow> gotime \<Rightarrow> Engine \<Rightarrow> bool \<times> Engine" where
  "engine_pruneState records now e =
     (case pruneState records now (en_att e) of (changed, s) \<Rightarrow> (changed, e\<lparr>en_att := s\<rparr>))"

definition signalLocalChange :: "Engine \<Rightarrow> Engine" where
  "signalLocalChange e = e\<lparr>en_localSequence := en_localSequence e + 1, en_store := Signal (en_store e)\<rparr>"

fun other_apply :: "other_op \<Rightarrow> Engine \<Rightarrow> Engine" where
  "other_apply (OtherStore gen OpDrain) e = e"
| "other_apply (OtherStore gen op) e = e\<lparr>en_store := store_apply gen op (en_store e)\<rparr>"
| "other_apply OtherWake e = signalLocalChange e"

definition others :: "other_op list \<Rightarrow> Engine \<Rightarrow> Engine" where
  "others ops e = fold other_apply ops e"

text \<open>Clearing the display, which two branches of a step and \<open>DismissForBack\<close> share.\<close>

definition render_clear ::
  "Env \<Rightarrow> gotime \<Rightarrow> Candidate option \<times> Evaluation list \<Rightarrow> Engine \<Rightarrow> engine_error option \<times> Engine" where
  "render_clear env now decision e =
     (case engine_render env None e of (result, e1) \<Rightarrow>
        if \<not> validateRenderResult None result
          then (Some ErrInvalidRendererResult, engine_record now decision OutcomeDeviceUnavailable e1)
        else case snd result of
          Some err \<Rightarrow> (Some (RenderFailed err), engine_record now decision (renderFailureOutcome (fst result)) e1)
        | None \<Rightarrow> (None, engine_record now decision (fst result) (clearRenderedSelection e1)))"

subsection \<open>The step\<close>

definition delivered :: "Env \<Rightarrow> gotime \<Rightarrow> ObsRecord list \<Rightarrow> Candidate \<Rightarrow> Engine \<Rightarrow> Engine" where
  "delivered env now records winner e =
     (let e1 = (if cd_Band winner \<noteq> BandCriticalActionable then engine_releaseCritical e else e);
          e2 = (if cd_ID winner \<noteq> en_currentID e1 then e1\<lparr>en_currentID := cd_ID winner, en_currentSince := now\<rparr> else e1);
          att = en_att e2;
          e3 = e2\<lparr>en_att := att\<lparr>
                 at_LastShown := AList.update (cd_ID winner) now (at_LastShown att),
                 at_lastShownState := AList.update (cd_ID winner)
                   \<lparr>lm_identity = \<lparr>sid_PluginID = cd_PluginID winner, sid_InstanceID = cd_InstanceID winner,
                        sid_Generation = cd_Generation winner, sid_Channel = cd_Channel winner, sid_Key = cd_Key winner\<rparr>,
                     lm_persistent = (cd_Policy winner \<noteq> PolicyInteractive)\<rparr> (at_lastShownState att)\<rparr>\<rparr>;
          e4 = persistState env records (snd (engine_pruneState records now e3))
      in e4\<lparr>en_lastRevision := cd_Revision winner, en_lastGeneration := cd_Generation winner,
            en_lastIdentity := cd_Identity winner\<rparr>)"

text \<open>
  Rendering the winner. \<open>Inr\<close> is the \<open>continue\<close> of the loop: the presentation was invalid and its
  revision has been excluded.
\<close>

definition render_winner ::
  "Env \<Rightarrow> gotime \<Rightarrow> ObsRecord list \<Rightarrow> Candidate option \<times> Evaluation list \<Rightarrow> Candidate \<Rightarrow> Engine
     \<Rightarrow> (engine_error option \<times> Engine) + Engine" where
  "render_winner env now records decision winner e =
     (case engine_render env (Some winner) e of (result, e0) \<Rightarrow>
        let e1 = others (env_during env (length (en_renders e))) e0;
            exclude = ExcludeRevisionWithoutSignal (cd_Identity winner) (cd_Generation winner) (cd_Revision winner) (en_store e1);
            e2 = e1\<lparr>en_store := snd exclude\<rparr>
        in if \<not> validateRenderResult (Some winner) result
          then Inl (Some ErrInvalidRendererResult, engine_record now decision OutcomeDeviceUnavailable e1)
        else case snd result of
          Some err \<Rightarrow>
            if err = ErrInvalidPresentation \<and> fst exclude
            then Inr (engine_record now decision OutcomeInvalidPresentation e2)
            else Inl (Some (RenderFailed err), engine_record now decision (renderFailureOutcome (fst result)) e1)
        | None \<Rightarrow>
            if fst result = OutcomeFirmwareSuppressed
            then Inl (None, engine_record now decision (fst result) (clearRenderedSelection e2))
            else Inl (None, engine_record now decision (fst result) (delivered env now records winner e1)))"

definition step_once ::
  "Env \<Rightarrow> gotime \<Rightarrow> ObsRecord list \<Rightarrow> Engine \<Rightarrow> (engine_error option \<times> Engine) + Engine" where
  "step_once env now records e0 =
     (let decision = attention_Select records (resolveRecord env e0) (en_history e0) now;
          (cooling, e) = presentationCooldownActive now e0;
          idle = (en_currentID e = '''' \<and> \<not> en_criticalOwned e);
          unchanged = Inl (None, engine_record now decision OutcomeUnchanged e)
      in case fst decision of
           None \<Rightarrow>
             if cooling \<and> back_matches (en_cooldownKept e) (en_currentID e) (en_lastIdentity e) (en_lastGeneration e) (en_lastRevision e)
                \<and> containsExactRecord records (en_cooldownKept e) then unchanged
             else if idle then unchanged
             else Inl (render_clear env now decision e)
         | Some winner \<Rightarrow>
             if cooling \<and> cd_Band winner \<noteq> BandCriticalActionable then
               if back_matches (en_cooldownKept e) (en_currentID e) (en_lastIdentity e) (en_lastGeneration e) (en_lastRevision e)
                  \<and> containsExactRecord records (en_cooldownKept e) then unchanged
               else if idle then unchanged
               else Inl (render_clear env now decision e)
             else if \<not> (en_criticalOwned e \<and> cd_Band winner \<noteq> BandCriticalActionable)
                     \<and> cd_ID winner = en_currentID e \<and> cd_Generation winner = en_lastGeneration e
                     \<and> cd_Revision winner = en_lastRevision e then unchanged
             else if cd_Band winner = BandCriticalActionable then
               (case engine_acquireCritical env winner e of
                  (False, e1) \<Rightarrow> Inl (None, engine_record now decision OutcomeUnchanged e1)
                | (True, e1) \<Rightarrow> render_winner env now records decision winner e1)
             else render_winner env now records decision winner e)"

text \<open>\<open>evaluationSequence\<close>: the sequences of the store and of the engine that a step has processed.\<close>

type_synonym evaluationSequence = "u64 \<times> u64"

fun step_loop ::
  "nat \<Rightarrow> Env \<Rightarrow> gotime \<Rightarrow> ObsRecord list \<Rightarrow> evaluationSequence \<Rightarrow> Engine
     \<Rightarrow> (evaluationSequence \<times> engine_error option \<times> Engine) option" where
  "step_loop 0 env now records processed e = None"
| "step_loop (Suc fuel) env now records processed e =
     (case step_once env now records e of
        Inl (err, e') \<Rightarrow> Some (processed, err, e')
      | Inr e1 \<Rightarrow>
          let e' = others (env_between env (length (en_renders e1))) e1 in
          (case SnapshotWithSequence (env_clock env (length (en_renders e'))) (en_store e') of
             ((records', sequence'), store) \<Rightarrow>
               step_loop fuel env now records' (sequence', snd processed) (e'\<lparr>en_store := store\<rparr>)))"

text \<open>
  The sequences that were processed, the error, and the new state. Others may also act between the snapshot and the
  reading of the engine's own sequence.
\<close>

definition engine_step :: "nat \<Rightarrow> Env \<Rightarrow> gotime \<Rightarrow> Engine \<Rightarrow> (evaluationSequence \<times> engine_error option \<times> Engine) option" where
  "engine_step fuel env now e =
     (case SnapshotWithSequence (env_clock env (length (en_renders e))) (en_store e) of
        ((records, sequence), store) \<Rightarrow>
          let e0 = others (env_between env (length (en_renders e))) (e\<lparr>en_store := store\<rparr>) in
          (case engine_pruneState records now e0 of (changed, e1) \<Rightarrow>
             step_loop fuel env now records (sequence, en_localSequence e0) (if changed then persistState env records e1 else e1)))"

subsection \<open>The Back key\<close>

definition CaptureBackPresentation :: "Engine \<Rightarrow> BackPresentation \<times> Engine" where
  "CaptureBackPresentation e =
     (let p = en_claim e
      in (p, if back_valid p
             then e\<lparr>en_store := snd (ReserveExactRevisionWithoutSignal (bp_identity p) (bp_generation p) (bp_revision p) (en_store e))\<rparr>
             else e))"

definition owns_claim :: "BackPresentation \<Rightarrow> Engine \<Rightarrow> bool" where
  "owns_claim p e = back_matches p (en_currentID e) (en_lastIdentity e) (en_lastGeneration e) (en_lastRevision e)"

text \<open>
  \<open>ReconcileConsumedBack\<close> up to the call of \<open>Reconcile\<close>, which is a step; the flag says whether it
  invalidates the canvas and reconciles. The callback \<open>invalidate\<close> belongs to the device.
\<close>

definition ReconcileConsumedBack :: "BackPresentation \<Rightarrow> Engine \<Rightarrow> bool \<times> Engine" where
  "ReconcileConsumedBack p e =
     (let e1 = (if back_valid p
                then e\<lparr>en_store := ReleaseExactRevisionReservationWithoutSignal (bp_identity p) (bp_generation p) (bp_revision p) (en_store e)\<rparr>
                else e)
      in if \<not> owns_claim p e1 then (False, e1) else (True, forget_delivery e1))"

definition cooldownReason :: "string \<Rightarrow> string" where
  "cooldownReason reason =
     (if reason \<in> {''back_not_consumed'', ''back_session_input_failed'', ''back_no_session''} then reason
      else ''back_fallback'')"

definition defaultPresentationCooldown :: int where
  "defaultPresentationCooldown = 30 * second"

definition DismissForBack ::
  "Env \<Rightarrow> gotime \<Rightarrow> BackPresentation \<Rightarrow> string \<Rightarrow> Engine \<Rightarrow> engine_error option \<times> Engine" where
  "DismissForBack env clock p reason e =
     (let now = time_utc clock;
          e1 = e\<lparr>en_cooldownUntil := time_add now defaultPresentationCooldown, en_cooldownReason := cooldownReason reason\<rparr>;
          e2 = (if back_valid p
                then e1\<lparr>en_store := snd (ExcludeExactRevisionWithoutSignal (env_generation env) (bp_identity p)
                       (bp_generation p) (bp_revision p) (en_store e1))\<rparr>
                else e1)
      in if \<not> owns_claim p e2
         then (None, signalLocalChange (e2\<lparr>en_cooldownKept := en_claim e2\<rparr>))
         else case render_clear env now (None, []) (e2\<lparr>en_cooldownKept := no_back\<rparr>) of
           (err, e3) \<Rightarrow> (err, signalLocalChange e3))"

subsection \<open>Acknowledgement\<close>

datatype ack_error = ErrObservationNotFound | ErrObservationNotAcknowledgeable | AckSaveFailed | AckNotConfirmed

text \<open>\<open>save\<close> is the state store's \<open>Save\<close>: its outcome, and whether it returns an error.\<close>

definition Acknowledge ::
  "Env \<Rightarrow> (StateDocument \<Rightarrow> CommitOutcome \<times> bool) \<Rightarrow> gotime \<Rightarrow> string \<Rightarrow> Engine \<Rightarrow> ack_error option \<times> Engine" where
  "Acknowledge env save clock i e0 =
     (case Snapshot (env_clock env (length (en_renders e0))) (en_store e0) of
        (records, store) \<Rightarrow>
          let e = e0\<lparr>en_store := store\<rparr>; resolve = env_resolve env (en_sessions e)
          in case find (\<lambda>r. rec_ID r = i) records of
               None \<Rightarrow> (Some ErrObservationNotFound, e)
             | Some r \<Rightarrow>
                 if \<not> snd (resolve r) \<or> \<not> ru_RequiresAck (fst (resolve r))
                 then (Some ErrObservationNotAcknowledgeable, e)
                 else let now = time_utc clock;
                          e1 = snd (engine_pruneState records now e);
                          att = en_att e1;
                          a = \<lparr>as_identity = record_state_identity r (rec_Generation r), as_generation = rec_Generation r,
                               as_observedAt = obs_ObservedAt (rec_Observation r), as_touchedAt = now\<rparr>;
                          ((ackEvictions, shownEvictions), (shown, meta, proposed)) =
                            boundProposedAcknowledgements (at_capacity att) records
                              (at_LastShown att, at_lastShownState att, AList.update i a (at_acknowledged att));
                          doc = stateDocumentFrom resolve records (shown, meta, proposed);
                          (outcome, failed) = save doc;
                          e2 = e1\<lparr>en_saved := en_saved e1 @ [doc]\<rparr>;
                          st = at_stats att
                      in if failed then (Some AckSaveFailed, e2)
                         else if outcome \<noteq> Committed then (Some AckNotConfirmed, e2)
                         else (None, signalLocalChange (e2\<lparr>en_att := att\<lparr>at_LastShown := shown, at_lastShownState := meta,
                                at_acknowledged := proposed,
                                at_stats := st\<lparr>
                                  sa_AcknowledgementCapacityEvictions := sa_AcknowledgementCapacityEvictions st + of_nat ackEvictions,
                                  sa_LastShownCapacityEvictions := sa_LastShownCapacityEvictions st + of_nat shownEvictions,
                                  sa_LastPrunedAt := (if ackEvictions \<noteq> 0 \<or> shownEvictions \<noteq> 0 then now else sa_LastPrunedAt st)\<rparr>\<rparr>\<rparr>)))"

subsection \<open>Other operations\<close>

definition Wake :: "Engine \<Rightarrow> Engine" where
  "Wake e = signalLocalChange e"

definition InvalidateRenderedSelection :: "Engine \<Rightarrow> Engine" where
  "InvalidateRenderedSelection e = Wake (forget_delivery e)"

definition SelectedObservation :: "Env \<Rightarrow> Engine \<Rightarrow> ObsRecord option \<times> Engine" where
  "SelectedObservation env e =
     (if en_currentID e = '''' \<or> en_lastGeneration e = 0 \<or> en_lastRevision e = 0 then (None, e)
      else case Snapshot (env_clock env (length (en_renders e))) (en_store e) of
        (records, store) \<Rightarrow>
          (find (\<lambda>r. rec_ID r = en_currentID e \<and> rec_Generation r = en_lastGeneration e
                    \<and> obs_Revision (rec_Observation r) = en_lastRevision e) records,
           e\<lparr>en_store := store\<rparr>))"

text \<open>\<open>identifier.Encode\<close> of two parts never fails.\<close>

definition instance_prefix :: "string \<Rightarrow> string \<Rightarrow> string" where
  "instance_prefix p i = (case Encode [p, i] of None \<Rightarrow> '''' | Some s \<Rightarrow> s) @ ''/''"

definition RemoveInstance :: "Env \<Rightarrow> string \<Rightarrow> string \<Rightarrow> u64 \<Rightarrow> Engine \<Rightarrow> Engine" where
  "RemoveInstance env p i through e0 =
     (let e = e0\<lparr>en_store := WithdrawInstance p i through (en_store e0)\<rparr>;
          pre = instance_prefix p i; att = en_att e;
          gone = (\<lambda>k. prefix pre k \<and> map_of (at_LastShown att) k \<noteq> None
                   \<and> (case map_of (at_lastShownState att) k of None \<Rightarrow> True
                      | Some m \<Rightarrow> \<not> sid_Generation (lm_identity m) > through));
          e1 = e\<lparr>en_att := att\<lparr>
                 at_LastShown := filter (\<lambda>(k, _). \<not> gone k) (at_LastShown att),
                 at_lastShownState := filter (\<lambda>(k, _). \<not> gone k) (at_lastShownState att),
                 at_acknowledged := filter (\<lambda>(k, a). \<not> (as_generation a \<le> through \<and> prefix pre k)) (at_acknowledged att)\<rparr>\<rparr>
      in case Snapshot (env_clock env (length (en_renders e1))) (en_store e1) of
           (records, store) \<Rightarrow> persistState env records (e1\<lparr>en_store := store\<rparr>))"

record CooldownDiagnostics =
  cg_Active :: bool
  cg_Until :: gotime
  cg_RemainingMS :: int
  cg_Reason :: string

definition PresentationCooldownStatus :: "gotime \<Rightarrow> Engine \<Rightarrow> CooldownDiagnostics \<times> Engine" where
  "PresentationCooldownStatus clock e =
     (case presentationCooldownActive (time_utc clock) e of
        (False, e1) \<Rightarrow> (\<lparr>cg_Active = False, cg_Until = zero_time, cg_RemainingMS = 0, cg_Reason = ''''\<rparr>, e1)
      | (True, e1) \<Rightarrow>
          (\<lparr>cg_Active = True, cg_Until = en_cooldownUntil e1,
             cg_RemainingMS = time_sub (en_cooldownUntil e1) (time_utc clock) div millisecond,
             cg_Reason = en_cooldownReason e1\<rparr>, e1))"

subsection \<open>The next deadline\<close>

definition consider_deadline :: "gotime \<Rightarrow> gotime \<Rightarrow> gotime \<Rightarrow> gotime" where
  "consider_deadline now t nxt =
     (if is_zero_time t \<or> \<not> time_after t now then nxt
      else if is_zero_time nxt \<or> time_before t nxt then t else nxt)"

definition deadlines :: "gotime \<Rightarrow> ObsRecord list \<Rightarrow> bool \<Rightarrow> Candidate option \<times> Evaluation list \<Rightarrow> Engine \<Rightarrow> gotime list" where
  "deadlines now records cooling decision e =
     map (\<lambda>r. obs_ValidUntil (rec_Observation r)) records
     @ (if at_ttl (en_att e) > 0
        then map (\<lambda>(_, t). time_add t (at_ttl (en_att e))) (at_LastShown (en_att e))
             @ map (\<lambda>(_, a). time_add (as_touchedAt a) (at_ttl (en_att e))) (at_acknowledged (en_att e))
        else [])
     @ (if cooling then [en_cooldownUntil e] else [])
     @ concat (map (\<lambda>ev. ev_CooldownUntil ev # (if ev_Reason ev = ReasonNotDue then [ev_NextDue ev] else [])) (snd decision))
     @ (case fst decision of None \<Rightarrow> []
        | Some c \<Rightarrow> if cd_ID c = en_currentID e then [time_add (en_currentSince e) (cd_Hold c)] else [])"

definition NextDeadline :: "Env \<Rightarrow> gotime \<Rightarrow> Engine \<Rightarrow> gotime \<times> Engine" where
  "NextDeadline env now e0 =
     (case Snapshot (env_clock env (length (en_renders e0))) (en_store e0) of
        (records, store) \<Rightarrow>
          (case engine_pruneState records now (e0\<lparr>en_store := store\<rparr>) of (changed, e1) \<Rightarrow>
             let e2 = (if changed then persistState env records e1 else e1);
                 (cooling, e3) = presentationCooldownActive now e2;
                 decision = attention_Select records (resolveRecord env e3) (en_history e3) now
             in (fold (consider_deadline now) (deadlines now records cooling decision e3) zero_time, e3)))"

subsection \<open>What the parts of a step leave alone\<close>

named_theorems engine_frame \<comment> \<open>fields that an operation of the engine does not change\<close>

lemma cooldown_frame [engine_frame]:
  "en_store (snd (presentationCooldownActive now e)) = en_store e"
  "en_sessions (snd (presentationCooldownActive now e)) = en_sessions e"
  "en_currentID (snd (presentationCooldownActive now e)) = en_currentID e"
  "en_currentSince (snd (presentationCooldownActive now e)) = en_currentSince e"
  "en_att (snd (presentationCooldownActive now e)) = en_att e"
  "en_lastRevision (snd (presentationCooldownActive now e)) = en_lastRevision e"
  "en_lastGeneration (snd (presentationCooldownActive now e)) = en_lastGeneration e"
  "en_lastIdentity (snd (presentationCooldownActive now e)) = en_lastIdentity e"
  "en_criticalOwned (snd (presentationCooldownActive now e)) = en_criticalOwned e"
  "en_renders (snd (presentationCooldownActive now e)) = en_renders e"
  "fst (presentationCooldownActive now e) \<longleftrightarrow>
     \<not> is_zero_time (en_cooldownUntil e) \<and> time_before now (en_cooldownUntil e)"
  by (simp_all add: presentationCooldownActive_def)

lemma acquire_frame [engine_frame]:
  "en_store (snd (engine_acquireCritical env c e)) = en_store e"
  "en_currentID (snd (engine_acquireCritical env c e)) = en_currentID e"
  "en_cooldownUntil (snd (engine_acquireCritical env c e)) = en_cooldownUntil e"
  "en_renders (snd (engine_acquireCritical env c e)) = en_renders e"
  by (simp_all add: engine_acquireCritical_def split: prod.splits)

lemma record_frame [engine_frame]:
  "en_store (engine_record now d outcome e) = en_store e"
  "en_sessions (engine_record now d outcome e) = en_sessions e"
  "en_currentID (engine_record now d outcome e) = en_currentID e"
  "en_lastRevision (engine_record now d outcome e) = en_lastRevision e"
  "en_lastGeneration (engine_record now d outcome e) = en_lastGeneration e"
  "en_lastIdentity (engine_record now d outcome e) = en_lastIdentity e"
  "en_criticalOwned (engine_record now d outcome e) = en_criticalOwned e"
  "en_cooldownUntil (engine_record now d outcome e) = en_cooldownUntil e"
  "en_renders (engine_record now d outcome e) = en_renders e"
  by (simp_all add: engine_record_def)

lemma release_frame [engine_frame]:
  "en_store (engine_releaseCritical e) = en_store e"
  "en_currentID (engine_releaseCritical e) = en_currentID e"
  "en_att (engine_releaseCritical e) = en_att e"
  "en_lastRevision (engine_releaseCritical e) = en_lastRevision e"
  "en_lastGeneration (engine_releaseCritical e) = en_lastGeneration e"
  "en_lastIdentity (engine_releaseCritical e) = en_lastIdentity e"
  "en_cooldownUntil (engine_releaseCritical e) = en_cooldownUntil e"
  "en_renders (engine_releaseCritical e) = en_renders e"
  "\<not> en_criticalOwned (engine_releaseCritical e)"
  by (simp_all add: engine_releaseCritical_def)

lemma clear_frame [engine_frame]:
  "en_store (clearRenderedSelection e) = en_store e"
  "en_currentID (clearRenderedSelection e) = ''''"
  "en_lastRevision (clearRenderedSelection e) = 0"
  "en_lastGeneration (clearRenderedSelection e) = 0"
  "en_lastIdentity (clearRenderedSelection e) = zero_identity"
  "en_cooldownUntil (clearRenderedSelection e) = en_cooldownUntil e"
  "en_renders (clearRenderedSelection e) = en_renders e"
  "\<not> en_criticalOwned (clearRenderedSelection e)"
  by (simp_all add: clearRenderedSelection_def forget_delivery_def engine_frame)

text \<open>What others do changes the store and the engine's own sequence only.\<close>

definition other_store :: "other_op list \<Rightarrow> Store \<Rightarrow> Store" where
  "other_store ops s = fold (\<lambda>op s. case op of OtherWake \<Rightarrow> Signal s | OtherStore gen x \<Rightarrow> if x = OpDrain then s else store_apply gen x s) ops s"

lemma other_apply_eq: "\<exists>n. other_apply op e = e\<lparr>en_store := other_store [op] (en_store e), en_localSequence := n\<rparr>"
proof (cases op)
  case (OtherStore gen x)
  then show ?thesis by (cases x) (auto simp: other_store_def intro: exI [where x = "en_localSequence e"])
next
  case OtherWake
  then show ?thesis by (intro exI [where x = "en_localSequence e + 1"]) (simp add: other_store_def signalLocalChange_def)
qed

lemma others_eq: "\<exists>n. others ops e = e\<lparr>en_store := other_store ops (en_store e), en_localSequence := n\<rparr>"
proof (induction ops arbitrary: e)
  case Nil
  then show ?case by (intro exI [where x = "en_localSequence e"]) (simp add: others_def other_store_def)
next
  case (Cons op ops)
  obtain n where n: "other_apply op e = e\<lparr>en_store := other_store [op] (en_store e), en_localSequence := n\<rparr>" using other_apply_eq by blast
  obtain m where "others ops (other_apply op e) = (other_apply op e)\<lparr>en_store := other_store ops (en_store (other_apply op e)), en_localSequence := m\<rparr>"
    using Cons.IH by blast
  then have "others (op # ops) e = e\<lparr>en_store := other_store (op # ops) (en_store e), en_localSequence := m\<rparr>"
    by (simp add: n others_def other_store_def)
  then show ?case by blast
qed

lemma others_frame [simp]:
  "en_store (others ops e) = other_store ops (en_store e)" "en_sessions (others ops e) = en_sessions e"
  "en_currentID (others ops e) = en_currentID e" "en_currentSince (others ops e) = en_currentSince e" "en_att (others ops e) = en_att e"
  "en_lastRevision (others ops e) = en_lastRevision e" "en_lastGeneration (others ops e) = en_lastGeneration e"
  "en_lastIdentity (others ops e) = en_lastIdentity e" "en_criticalOwned (others ops e) = en_criticalOwned e"
  "en_cooldownUntil (others ops e) = en_cooldownUntil e" "en_cooldownReason (others ops e) = en_cooldownReason e"
  "en_cooldownKept (others ops e) = en_cooldownKept e" "en_renders (others ops e) = en_renders e" "en_traces (others ops e) = en_traces e"
  "en_saved (others ops e) = en_saved e" "en_effects (others ops e) = en_effects e"
  using others_eq [of ops e] by auto

lemma others_Nil [simp]: "others [] e = e" "other_store [] s = s"
  by (simp_all add: others_def other_store_def)

lemma other_store_inv: "store_inv s \<Longrightarrow> store_inv (other_store ops s)"
proof (induction ops arbitrary: s)
  case (Cons op ops)
  have "store_inv (other_store [op] s)"
    using Cons.prems store.apply_inv [of s] store.apply_inv [of s None OpSignal] by (auto simp: other_store_def split: other_op.splits)
  then show ?case using Cons.IH by (simp add: other_store_def)
qed simp

subsection \<open>The loop of a step ends\<close>

lemma excluded_tombstoned: "excluded s i r \<longleftrightarrow> tombstoned i (rec_Generation r) (obs_Revision (rec_Observation r)) s"
  by (auto simp: excluded_def tombstoned_def split: option.splits)

text \<open>Excluding a visible record leaves fewer visible records.\<close>

lemma exclude_decreases:
  assumes "store_inv s" "r \<in> set (visible_records s)"
  shows "length (visible_records (excludeThroughLocked (rec_Identity r) (rec_Generation r) (obs_Revision (rec_Observation r)) s))
    < length (visible_records s)"
proof -
  let ?s = "excludeThroughLocked (rec_Identity r) (rec_Generation r) (obs_Revision (rec_Observation r)) s"
  have wf: "store_wf s" using assms(1) by (simp add: store_inv_def)
  have rec: "st_records ?s = st_records s" by (simp add: excludeThroughLocked_def Let_def)
  have r: "map_of (st_records s) (rec_Identity r) = Some r" "\<not> excluded s (rec_Identity r) r"
    using assms(2) set_visible [OF wf] by auto
  have more: "excluded s i x \<Longrightarrow> excluded ?s i x" for i x
    using excludeThrough_keeps by (simp add: excluded_tombstoned)
  have "length (filter (\<lambda>(i, x). \<not> excluded ?s i x) xs) \<le> length (filter (\<lambda>(i, x). \<not> excluded s i x) xs)
    \<and> ((rec_Identity r, r) \<in> set xs \<longrightarrow>
       length (filter (\<lambda>(i, x). \<not> excluded ?s i x) xs) < length (filter (\<lambda>(i, x). \<not> excluded s i x) xs))" for xs
  proof (induction xs)
    case (Cons x xs)
    have "excluded ?s (rec_Identity r) r" by (simp add: excluded_tombstoned excludeThrough_tombstones)
    with Cons r(2) more show ?case by (auto simp: split_beta)
  qed simp
  moreover have "(rec_Identity r, r) \<in> set (st_records s)" using r(1) by (rule map_of_SomeD)
  ultimately show ?thesis by (simp add: visible_records_def rec)
qed

text \<open>A snapshot lists visible records of the store it leaves, and no more than the store had.\<close>

lemma snapshot_visible:
  assumes "SnapshotWithSequence now s = ((records, sequence), s')" "store_inv s"
  shows "set records = set (visible_records s')" "store_inv s'"
    "length (visible_records s') \<le> length (visible_records s)" "length (visible_records s') \<le> length (st_records s')"
proof -
  let ?p = "snd (prune_counted now s)"
  have s': "s' = notify_if (fst (prune_counted now s)) ?p"
    and records: "records = sort_by (\<lambda>l r. string_cmp (rec_ID l) (rec_ID r)) (visible_records ?p)"
    using assms(1) by (auto simp: SnapshotWithSequence_def Let_def split_beta)
  have same: "st_records s' = st_records ?p" "st_watermarks s' = st_watermarks ?p" by (simp_all add: s')
  then have vis: "visible_records s' = visible_records ?p" by (simp add: visible_records_def excluded_def)
  then show "set records = set (visible_records s')" by (simp add: records)
  show "store_inv s'" using prune_counted_inv [OF assms(2), of now] by (simp add: s')
  have ex: "excluded s' i r = excluded s i r" for i r by (simp add: excluded_def same)
  have "filter (\<lambda>(i, r). \<not> excluded s i r) (filter (\<lambda>(i, r). live_at now r) (st_records s)) =
      filter (\<lambda>(i, r). live_at now r) (filter (\<lambda>(i, r). \<not> excluded s i r) (st_records s))"
    by (simp add: conj_commute split_beta)
  then show "length (visible_records s') \<le> length (visible_records s)"
    by (simp add: visible_records_def ex same del: filter_filter)
  show "length (visible_records s') \<le> length (st_records s')" by (simp add: visible_records_def)
qed

lemma derive_fields [simp]:
  "cd_Identity (derive r rule) = rec_Identity r" "cd_Generation (derive r rule) = rec_Generation r"
  "cd_Revision (derive r rule) = obs_Revision (rec_Observation r)"
  by (simp_all add: derive_def cd_Identity_def rec_Identity_def Let_def)

lemma selected_from_records:
  assumes "fst (attention_Select records resolve h now) = Some c"
  obtains r where "r \<in> set records" "c = derive r (fst (resolve r))"
proof -
  have "presentation_Select (offered resolve h now records) h now = Some c"
    using assms by (simp only: fst_attention_Select)
  then have "c \<in> set (offered resolve h now records)"
    by (cases rule: Select_cases) (auto simp: select_eligible_def)
  then show ?thesis using that by (auto simp: set_offered)
qed

lemma render_winner_continue:
  assumes "render_winner env now records d w e = Inr e'"
  shows "en_store e' = excludeThroughLocked (cd_Identity w) (cd_Generation w) (cd_Revision w)
      (other_store (env_during env (length (en_renders e))) (en_store e))"
    "en_cooldownUntil e' = en_cooldownUntil e"
    "live_exact (other_store (env_during env (length (en_renders e))) (en_store e)) (cd_Identity w) (cd_Generation w) (cd_Revision w)"
    "en_renders e' = en_renders e @ [(Some w, env_render env (length (en_renders e)) (Some w))]"
  using assms
  by (auto simp: render_winner_def engine_render_def ExcludeRevisionWithoutSignal_def engine_record_def Let_def
      split: if_splits option.splits)

text \<open>How one round of the loop can go on: the winner was rendered, was invalid, and is now excluded.\<close>

lemma step_once_continue:
  assumes "step_once env now records e = Inr e'"
  obtains w where "fst (attention_Select records (resolveRecord env e) (en_history e) now) = Some w"
    "en_store e' = excludeThroughLocked (cd_Identity w) (cd_Generation w) (cd_Revision w)
      (other_store (env_during env (length (en_renders e))) (en_store e))"
    "live_exact (other_store (env_during env (length (en_renders e))) (en_store e)) (cd_Identity w) (cd_Generation w) (cd_Revision w)"
    "fst (presentationCooldownActive now e) \<Longrightarrow> cd_Band w = BandCriticalActionable"
    "en_renders e' = en_renders e @ [(Some w, env_render env (length (en_renders e)) (Some w))]"
    "en_cooldownUntil e' = en_cooldownUntil (snd (presentationCooldownActive now e))"
proof (cases "fst (attention_Select records (resolveRecord env e) (en_history e) now)")
  case None
  then show ?thesis using assms by (auto simp: step_once_def Let_def split_beta split: if_splits)
next
  case (Some w)
  let ?c = "snd (presentationCooldownActive now e)"
  let ?d = "attention_Select records (resolveRecord env e) (en_history e) now"
  consider (critical) "cd_Band w = BandCriticalActionable"
      "render_winner env now records ?d w (snd (engine_acquireCritical env w ?c)) = Inr e'"
    | (other) "\<not> fst (presentationCooldownActive now e)" "render_winner env now records ?d w ?c = Inr e'"
    using assms Some by (auto simp: step_once_def Let_def split_beta split: if_splits bool.splits)
  then show ?thesis
  proof cases
    case critical
    from render_winner_continue [OF critical(2)] critical(1) Some show ?thesis
      by (intro that) (simp_all add: engine_frame)
  next
    case other
    from render_winner_continue [OF other(2)] other(1) Some show ?thesis
      by (intro that) (simp_all add: engine_frame)
  qed
qed

lemma step_once_continue_inv:
  assumes "step_once env now records e = Inr e'" "store_inv (en_store e)"
  shows "store_inv (en_store e') \<and> length (en_renders e') = Suc (length (en_renders e))"
  using assms(1)
proof (rule step_once_continue)
  fix w assume "en_store e' = excludeThroughLocked (cd_Identity w) (cd_Generation w) (cd_Revision w)
      (other_store (env_during env (length (en_renders e))) (en_store e))"
    "live_exact (other_store (env_during env (length (en_renders e))) (en_store e)) (cd_Identity w) (cd_Generation w) (cd_Revision w)"
    "en_renders e' = en_renders e @ [(Some w, env_render env (length (en_renders e)) (Some w))]"
  then show ?thesis using excludeThrough_inv [OF other_store_inv [OF assms(2)] live_exact_tracked] by simp
qed

text \<open>Others leave the store alone from this call of the renderer on.\<close>

definition undisturbed_from :: "Env \<Rightarrow> nat \<Rightarrow> bool" where
  "undisturbed_from env n \<longleftrightarrow> (\<forall>m\<ge>n. env_during env m = [] \<and> env_between env m = [])"

lemma step_loop_returns:
  assumes "undisturbed_from env (length (en_renders e))" "store_inv (en_store e)" "set records = set (visible_records (en_store e))"
    and "length (visible_records (en_store e)) < fuel"
  shows "step_loop fuel env now records processed e \<noteq> None"
  using assms
proof (induction fuel arbitrary: records processed e)
  case (Suc fuel)
  have calm: "env_during env m = []" "env_between env m = []" if "length (en_renders e) \<le> m" for m
    using Suc.prems(1) that by (auto simp: undisturbed_from_def)
  show ?case
  proof (cases "step_once env now records e")
    case (Inr e')
    then obtain w where w: "fst (attention_Select records (resolveRecord env e) (en_history e) now) = Some w"
      "en_store e' = excludeThroughLocked (cd_Identity w) (cd_Generation w) (cd_Revision w) (en_store e)"
      by (rule step_once_continue) (simp add: calm(1))
    obtain r where r: "r \<in> set records" "w = derive r (fst (resolveRecord env e r))"
      using w(1) by (rule selected_from_records)
    have less: "length (visible_records (en_store e')) < length (visible_records (en_store e))"
      using exclude_decreases [OF Suc.prems(2), of r] r Suc.prems(3) by (simp add: w(2))
    have inv: "store_inv (en_store e')" "length (en_renders e') = Suc (length (en_renders e))"
      using step_once_continue_inv [OF Inr Suc.prems(2)] by simp_all
    obtain records' sequence' s where snap:
      "SnapshotWithSequence (env_clock env (length (en_renders e'))) (en_store e') = ((records', sequence'), s)"
      by (metis surj_pair)
    note v = snapshot_visible [OF snap inv(1)]
    have "step_loop fuel env now records' (sequence', snd processed) (e'\<lparr>en_store := s\<rparr>) \<noteq> None"
      using v less Suc.prems(1,4) inv(2) by (intro Suc.IH) (auto simp: undisturbed_from_def)
    moreover have "others (env_between env (length (en_renders e'))) e' = e'" using calm(2) [of "length (en_renders e')"] inv(2) by simp
    ultimately show ?thesis by (simp add: Inr snap Let_def)
  qed auto
qed simp

lemma store_inv_capacity: "store_inv s \<Longrightarrow> length (visible_records s) \<le> 2048"
proof -
  assume inv: "store_inv s"
  have "length (st_records s) \<le> 2048"
    using scope_records_bound [OF inv, of "\<lambda>_. True" 2048] inv by (simp add: store_inv_def store_bounds_def globalCapacity_def split_def)
  then show ?thesis using le_trans [OF length_filter_le] by (simp add: visible_records_def)
qed

text \<open>However the store was changed meanwhile, the loop ends within a bounded number of rounds after that.\<close>

lemma step_loop_settles:
  assumes "undisturbed_from env n" "store_inv (en_store e)" "n - length (en_renders e) + 2050 \<le> fuel"
  shows "step_loop fuel env now records processed e \<noteq> None"
  using assms
proof (induction fuel arbitrary: records processed e)
  case (Suc fuel)
  show ?case
  proof (cases "step_once env now records e")
    case (Inr e1)
    define e' where "e' = others (env_between env (length (en_renders e1))) e1"
    have inv: "store_inv (en_store e1)" "length (en_renders e1) = Suc (length (en_renders e))"
      using step_once_continue_inv [OF Inr Suc.prems(2)] by simp_all
    then have inv': "store_inv (en_store e')" "length (en_renders e') = Suc (length (en_renders e))"
      by (simp_all add: e'_def other_store_inv)
    obtain records' sequence' s where snap:
      "SnapshotWithSequence (env_clock env (length (en_renders e'))) (en_store e') = ((records', sequence'), s)"
      by (metis surj_pair)
    note v = snapshot_visible [OF snap inv'(1)]
    have "step_loop fuel env now records' (sequence', snd processed) (e'\<lparr>en_store := s\<rparr>) \<noteq> None"
    proof (cases "n \<le> length (en_renders e')")
      case True
      then have "undisturbed_from env (length (en_renders (e'\<lparr>en_store := s\<rparr>)))" using Suc.prems(1) by (simp add: undisturbed_from_def)
      then show ?thesis
        by (rule step_loop_returns) (use v store_inv_capacity [OF v(2)] Suc.prems(3) in \<open>simp_all\<close>)
    next
      case False
      then show ?thesis using Suc.prems v inv' by (intro Suc.IH) simp_all
    qed
    then show ?thesis by (simp add: Inr snap e'_def [symmetric] Let_def)
  qed auto
qed simp

lemma engine_step_loop:
  assumes "SnapshotWithSequence (env_clock env (length (en_renders e))) (en_store e) = ((records, sequence), s)"
  obtains e1 where "\<And>fuel. engine_step fuel env now e = step_loop fuel env now records (sequence, en_localSequence e1) e1"
    "en_store e1 = other_store (env_between env (length (en_renders e))) s" "en_renders e1 = en_renders e" "en_claim e1 = en_claim e"
    "en_cooldownUntil e1 = en_cooldownUntil e" "en_sessions e1 = en_sessions e"
proof -
  define e0 where "e0 = others (env_between env (length (en_renders e))) (e\<lparr>en_store := s\<rparr>)"
  obtain changed e1 where p: "engine_pruneState records now e0 = (changed, e1)" by fastforce
  let ?e = "if changed then persistState env records e1 else e1"
  have e1: "e1 = e0\<lparr>en_att := en_att e1\<rparr>" using p by (auto simp: engine_pruneState_def split: prod.splits)
  have same: "en_localSequence ?e = en_localSequence e0" "en_store ?e = en_store e0" "en_renders ?e = en_renders e0" "en_claim ?e = en_claim e0"
      "en_cooldownUntil ?e = en_cooldownUntil e0" "en_sessions ?e = en_sessions e0"
    by (subst e1, simp add: persistState_def en_claim_def)+
  have "engine_step fuel env now e = step_loop fuel env now records (sequence, en_localSequence ?e) ?e" for fuel
    by (simp add: engine_step_def assms p e0_def [symmetric] Let_def same(1))
  then show thesis by (rule that) (simp_all only: same, simp_all add: e0_def en_claim_def)
qed

lemma engine_step_returns:
  assumes "store_inv (en_store e)" "undisturbed_from env n" "n - length (en_renders e) + 2050 \<le> fuel"
  shows "\<exists>processed err e'. engine_step fuel env now e = Some (processed, err, e')"
proof -
  obtain records sequence s where snap:
    "SnapshotWithSequence (env_clock env (length (en_renders e))) (en_store e) = ((records, sequence), s)"
    by (metis surj_pair)
  obtain e1 where e1: "engine_step fuel env now e = step_loop fuel env now records (sequence, en_localSequence e1) e1"
    "en_store e1 = other_store (env_between env (length (en_renders e))) s" "en_renders e1 = en_renders e"
    using engine_step_loop [OF snap] by metis
  have "store_inv (en_store e1)" using snapshot_visible(2) [OF snap assms(1)] by (simp add: e1(2) other_store_inv)
  then have "step_loop fuel env now records (sequence, en_localSequence e1) e1 \<noteq> None"
    using assms(2,3) by (intro step_loop_settles) (simp_all add: e1(3))
  then show ?thesis using e1(1) by auto
qed

subsection \<open>What a step renders, and what it then claims\<close>

definition candidate_claim :: "Candidate \<Rightarrow> BackPresentation" where
  "candidate_claim c = \<lparr>bp_identity = cd_Identity c, bp_id = cd_ID c, bp_generation = cd_Generation c,
     bp_revision = cd_Revision c\<rparr>"

text \<open>
  The claim that follows from a call of the renderer: a failed call or one that breaks the contract
  leaves it, a clear or a suppressed candidate ends it, and a delivered candidate takes it.
\<close>

definition claim_step :: "Candidate option \<times> render_result \<Rightarrow> BackPresentation \<Rightarrow> BackPresentation" where
  "claim_step call p =
     (case call of (c, result) \<Rightarrow>
        if \<not> validateRenderResult c result \<or> snd result \<noteq> None then p
        else case c of None \<Rightarrow> no_back
        | Some w \<Rightarrow> if fst result = OutcomeFirmwareSuppressed then no_back else candidate_claim w)"

lemma claim_clear [simp]: "en_claim (clearRenderedSelection e) = no_back"
  by (simp add: en_claim_def no_back_def engine_frame)

lemma claim_record [simp]: "en_claim (engine_record now d outcome e) = en_claim e"
  by (simp add: en_claim_def engine_record_def)

lemma claim_renders [simp]: "en_claim (e\<lparr>en_renders := x\<rparr>) = en_claim e"
  by (simp add: en_claim_def)

lemma claim_frame [simp]:
  "en_claim (others ops e) = en_claim e"
  "en_claim (e\<lparr>en_store := s\<rparr>) = en_claim e" "en_claim (snd (presentationCooldownActive now e)) = en_claim e"
  "en_claim (snd (engine_acquireCritical env c e)) = en_claim e" "en_claim (persistState env records e) = en_claim e"
  "en_claim (snd (engine_pruneState records now e)) = en_claim e"
  by (simp_all add: en_claim_def engine_frame engine_acquireCritical_def persistState_def engine_pruneState_def split_beta)

lemma delivered_frame:
  "en_renders (delivered env now records w e) = en_renders e" "en_claim (delivered env now records w e) = candidate_claim w"
  "en_store (delivered env now records w e) = en_store e"
  "en_cooldownUntil (delivered env now records w e) = en_cooldownUntil e"
  by (simp_all add: delivered_def Let_def engine_frame persistState_def engine_pruneState_def split_beta en_claim_def
      candidate_claim_def)

lemma render_clear_effect:
  assumes "render_clear env now d e = (err, e')"
  shows "en_renders e' = en_renders e @ [(None, env_render env (length (en_renders e)) None)]"
    "en_claim e' = claim_step (None, env_render env (length (en_renders e)) None) (en_claim e)"
  using assms
  by (auto simp: render_clear_def engine_render_def Let_def claim_step_def engine_frame split: if_splits option.splits)

lemma render_winner_effect:
  assumes "render_winner env now records d w e = Inl (err, e')"
  shows "en_renders e' = en_renders e @ [(Some w, env_render env (length (en_renders e)) (Some w))]"
    "en_claim e' = claim_step (Some w, env_render env (length (en_renders e)) (Some w)) (en_claim e)"
  using assms
  by (auto simp: render_winner_def engine_render_def Let_def claim_step_def engine_frame delivered_frame
      split: if_splits option.splits)

lemma render_winner_claim_continue:
  assumes "render_winner env now records d w e = Inr e'"
  shows "en_claim e' = claim_step (Some w, env_render env (length (en_renders e)) (Some w)) (en_claim e)"
  using assms
  by (auto simp: render_winner_def engine_render_def Let_def claim_step_def split: if_splits option.splits)

text \<open>A call is admissible when it clears, or presents the selected candidate, critical during a cooldown.\<close>

definition may_render :: "gotime \<Rightarrow> gotime \<Rightarrow> Candidate option \<Rightarrow> bool" where
  "may_render until now c =
     (case c of None \<Rightarrow> True
      | Some w \<Rightarrow> is_zero_time until \<or> \<not> time_before now until \<or> cd_Band w = BandCriticalActionable)"

definition round_effect :: "gotime \<Rightarrow> Engine \<Rightarrow> Engine \<Rightarrow> bool" where
  "round_effect now e e' \<longleftrightarrow>
     (\<exists>calls. en_renders e' = en_renders e @ calls \<and> en_claim e' = fold claim_step calls (en_claim e) \<and>
       list_all (\<lambda>(c, _). may_render (en_cooldownUntil e) now c) calls)"

lemma round_effect_same: "en_renders e' = en_renders e \<Longrightarrow> en_claim e' = en_claim e \<Longrightarrow> round_effect now e e'"
  by (auto simp: round_effect_def intro: exI [where x = "[]"])

lemma round_effect_call:
  "en_renders e' = en_renders e @ [(c, result)] \<Longrightarrow> en_claim e' = claim_step (c, result) (en_claim e)
     \<Longrightarrow> may_render (en_cooldownUntil e) now c \<Longrightarrow> round_effect now e e'"
  by (auto simp: round_effect_def intro: exI [where x = "[(c, result)]"])

lemma step_once_winner:
  assumes "fst (attention_Select records (resolveRecord env e) (en_history e) now) = Some w"
    and "step_once env now records e = out"
  obtains (unchanged) e1 where "out = Inl (None, engine_record now (attention_Select records (resolveRecord env e) (en_history e) now)
        OutcomeUnchanged e1)" "e1 = snd (presentationCooldownActive now e)
        \<or> e1 = snd (engine_acquireCritical env w (snd (presentationCooldownActive now e)))"
  | (cleared) "out = Inl (render_clear env now (attention_Select records (resolveRecord env e) (en_history e) now)
        (snd (presentationCooldownActive now e)))"
  | (rendered) e1 where "out = render_winner env now records (attention_Select records (resolveRecord env e) (en_history e) now) w e1"
      "may_render (en_cooldownUntil e) now (Some w)"
      "e1 = snd (presentationCooldownActive now e) \<and> cd_Band w \<noteq> BandCriticalActionable
        \<or> e1 = snd (engine_acquireCritical env w (snd (presentationCooldownActive now e)))
          \<and> fst (engine_acquireCritical env w (snd (presentationCooldownActive now e)))"
  using assms
  by (auto simp: step_once_def Let_def split_beta may_render_def cooldown_frame(11) split: if_splits bool.splits)

lemma may_render_cooled [simp]:
  "may_render (en_cooldownUntil (snd (presentationCooldownActive now e))) now c = may_render (en_cooldownUntil e) now c"
  by (auto simp: presentationCooldownActive_def may_render_def is_zero_time_def zero_time_def split: option.splits)

lemma step_once_none:
  assumes "fst (attention_Select records (resolveRecord env e) (en_history e) now) = None"
  shows "step_once env now records e = Inl (None, engine_record now (attention_Select records (resolveRecord env e) (en_history e) now)
      OutcomeUnchanged (snd (presentationCooldownActive now e)))
    \<or> step_once env now records e = Inl (render_clear env now (attention_Select records (resolveRecord env e) (en_history e) now)
      (snd (presentationCooldownActive now e)))"
  using assms by (auto simp: step_once_def Let_def split_beta)

lemma clear_round:
  assumes "render_clear env now d (snd (presentationCooldownActive now e)) = (err, e')"
  shows "round_effect now e e'"
  by (rule round_effect_call [where c = None])
    (simp_all add: render_clear_effect [OF assms] may_render_def engine_frame)

lemma step_once_effect:
  assumes "step_once env now records e = out" "out = Inl (err, e') \<or> out = Inr e'"
  shows "round_effect now e e'"
proof (cases "fst (attention_Select records (resolveRecord env e) (en_history e) now)")
  case None
  from step_once_none [OF None] show ?thesis
  proof
    assume "step_once env now records e = Inl (None, engine_record now
      (attention_Select records (resolveRecord env e) (en_history e) now) OutcomeUnchanged (snd (presentationCooldownActive now e)))"
    then show ?thesis using assms by (intro round_effect_same) (auto simp: engine_frame)
  next
    assume "step_once env now records e = Inl (render_clear env now
      (attention_Select records (resolveRecord env e) (en_history e) now) (snd (presentationCooldownActive now e)))"
    then show ?thesis using assms by (intro clear_round [of env now _ e err]) auto
  qed
next
  case (Some w)
  let ?c = "snd (presentationCooldownActive now e)"
  show ?thesis
    using Some assms(1)
  proof (cases rule: step_once_winner)
    case (unchanged e1)
    then show ?thesis using assms(2) by (auto intro!: round_effect_same simp: engine_frame)
  next
    case cleared
    then show ?thesis using assms(2) by (intro clear_round [of env now _ e err]) auto
  next
    case (rendered e1)
    have e1: "en_renders e1 = en_renders e" "en_claim e1 = en_claim e" using rendered(3) by (auto simp: engine_frame)
    have "en_renders e' = en_renders e1 @ [(Some w, env_render env (length (en_renders e1)) (Some w))]
        \<and> en_claim e' = claim_step (Some w, env_render env (length (en_renders e1)) (Some w)) (en_claim e1)"
      using rendered(1) assms(2) render_winner_effect render_winner_continue(4) render_winner_claim_continue by metis
    then show ?thesis using rendered(2) e1 by (auto intro: round_effect_call)
  qed
qed

lemma round_effect_trans:
  assumes "round_effect now e e1" "round_effect now e1 e2"
    and "\<And>c. may_render (en_cooldownUntil e1) now c = may_render (en_cooldownUntil e) now c"
  shows "round_effect now e e2"
proof -
  obtain xs ys where "en_renders e1 = en_renders e @ xs" "en_claim e1 = fold claim_step xs (en_claim e)"
    "list_all (\<lambda>(c, _). may_render (en_cooldownUntil e) now c) xs"
    "en_renders e2 = en_renders e1 @ ys" "en_claim e2 = fold claim_step ys (en_claim e1)"
    "list_all (\<lambda>(c, _). may_render (en_cooldownUntil e1) now c) ys"
    using assms(1,2) by (auto simp: round_effect_def)
  then have "en_renders e2 = en_renders e @ (xs @ ys) \<and> en_claim e2 = fold claim_step (xs @ ys) (en_claim e)
    \<and> list_all (\<lambda>(c, _). may_render (en_cooldownUntil e) now c) (xs @ ys)"
    by (simp add: assms(3))
  then show ?thesis unfolding round_effect_def by blast
qed

lemma round_effect_store [simp]: "round_effect now (e\<lparr>en_store := s\<rparr>) e' = round_effect now e e'"
  by (simp add: round_effect_def)

lemma step_loop_effect:
  "step_loop fuel env now records processed e = Some (processed', err, e') \<Longrightarrow> round_effect now e e'"
proof (induction fuel arbitrary: records processed e)
  case (Suc fuel)
  show ?case
  proof (cases "step_once env now records e")
    case (Inl res)
    then show ?thesis using Suc.prems step_once_effect [OF Inl, of err e'] by (auto split: prod.splits)
  next
    case (Inr e1)
    let ?e2 = "others (env_between env (length (en_renders e1))) e1"
    obtain records' sequence1 s where snap:
      "SnapshotWithSequence (env_clock env (length (en_renders ?e2))) (en_store ?e2) = ((records', sequence1), s)"
      by (metis surj_pair)
    have "step_loop fuel env now records' (sequence1, snd processed) (?e2\<lparr>en_store := s\<rparr>) = Some (processed', err, e')"
      using Suc.prems snap by (simp add: Inr Let_def)
    from Suc.IH [OF this] have rest: "round_effect now e1 e'" by (simp add: round_effect_def)
    have "may_render (en_cooldownUntil e1) now c = may_render (en_cooldownUntil e) now c" for c
      by (rule step_once_continue [OF Inr]) simp
    then show ?thesis using step_once_effect [OF Inr, of err e1] rest by (auto intro: round_effect_trans)
  qed
qed simp

lemma engine_step_effect:
  assumes "engine_step fuel env now e = Some (processed, err, e')"
  shows "round_effect now e e'"
proof -
  obtain records sequence s where snap:
    "SnapshotWithSequence (env_clock env (length (en_renders e))) (en_store e) = ((records, sequence), s)"
    by (metis surj_pair)
  obtain e1 where e1: "engine_step fuel env now e = step_loop fuel env now records (sequence, en_localSequence e1) e1"
    "en_renders e1 = en_renders e" "en_claim e1 = en_claim e" "en_cooldownUntil e1 = en_cooldownUntil e"
    using engine_step_loop [OF snap] by metis
  have "round_effect now e1 e'" using assms e1(1) by (intro step_loop_effect) simp
  then show ?thesis by (simp add: round_effect_def e1)
qed

text \<open>(C11) During the cooldown that a Back press starts, a step presents nothing but critical
  actionable candidates: every call to the renderer either clears the display or carries a candidate of
  the critical band.\<close>

theorem cooldown_gate:
  assumes "engine_step fuel env now e = Some (sequence, err, e')"
    and "\<not> is_zero_time (en_cooldownUntil e)" "time_before now (en_cooldownUntil e)"
  shows "\<exists>calls. en_renders e' = en_renders e @ calls \<and>
    list_all (\<lambda>(c, result). case c of None \<Rightarrow> True | Some w \<Rightarrow> cd_Band w = BandCriticalActionable) calls"
proof -
  obtain calls where "en_renders e' = en_renders e @ calls" "list_all (\<lambda>(c, _). may_render (en_cooldownUntil e) now c) calls"
    using engine_step_effect [OF assms(1)] by (auto simp: round_effect_def)
  moreover have "may_render (en_cooldownUntil e) now c \<longleftrightarrow>
      (case c of None \<Rightarrow> True | Some w \<Rightarrow> cd_Band w = BandCriticalActionable)" for c
    using assms(2,3) by (auto simp: may_render_def split: option.splits)
  ultimately show ?thesis by auto
qed

text \<open>(C5) The engine's claim about the display is exact. Whatever the renderer answers, after a step the
  claimed identity, generation and revision are those of the last candidate that the renderer delivered
  in that step, no claim if the last delivery cleared the display or was suppressed by the firmware,
  and the claim from before if nothing was delivered. Failed calls and answers that break the
  renderer's contract do not change it.\<close>

theorem claim_exact:
  assumes "engine_step fuel env now e = Some (sequence, err, e')"
  shows "\<exists>calls. en_renders e' = en_renders e @ calls \<and> en_claim e' = fold claim_step calls (en_claim e)"
  using engine_step_effect [OF assms] by (auto simp: round_effect_def)

subsection \<open>Removing an instance\<close>

lemma instance_prefix_iff:
  "prefix (instance_prefix p i) (identity_String x) \<longleftrightarrow> id_PluginID x = p \<and> id_InstanceID x = i"
  using join_slash_prefix2 [of p i "id_PluginID x" "id_InstanceID x" "id_Channel x" "[id_Key x]"]
  by (auto simp: instance_prefix_def identity_String_def Encode_def)

lemma RemoveInstance_tables:
  "at_LastShown (en_att (RemoveInstance env p i through e)) =
     filter (\<lambda>(k, _). \<not> (prefix (instance_prefix p i) k \<and> map_of (at_LastShown (en_att e)) k \<noteq> None
        \<and> (case map_of (at_lastShownState (en_att e)) k of None \<Rightarrow> True | Some m \<Rightarrow> \<not> sid_Generation (lm_identity m) > through)))
       (at_LastShown (en_att e))"
  "at_acknowledged (en_att (RemoveInstance env p i through e)) =
     filter (\<lambda>(k, a). \<not> (as_generation a \<le> through \<and> prefix (instance_prefix p i) k)) (at_acknowledged (en_att e))"
  by (simp_all add: RemoveInstance_def Let_def persistState_def split_beta)

text \<open>Removing an app instance through a generation removes exactly its scheduling state: for every
  identity, its acknowledgement is dropped if and only if the identity belongs to that plugin and
  instance and the acknowledgement is of that generation or an older one; and likewise for the last
  presentation, whose generation is in its metadata. No other instance loses anything, whatever the
  names are.\<close>

theorem remove_instance_exact:
  assumes "state_wf (en_att e)" "e' = RemoveInstance env p i through e"
  shows "map_of (at_acknowledged (en_att e')) (identity_String x) =
      (case map_of (at_acknowledged (en_att e)) (identity_String x) of None \<Rightarrow> None
       | Some a \<Rightarrow> if id_PluginID x = p \<and> id_InstanceID x = i \<and> as_generation a \<le> through then None else Some a) \<and>
    map_of (at_LastShown (en_att e')) (identity_String x) =
      (if id_PluginID x = p \<and> id_InstanceID x = i \<and>
          (case map_of (at_lastShownState (en_att e)) (identity_String x) of None \<Rightarrow> True
           | Some m \<Rightarrow> sid_Generation (lm_identity m) \<le> through)
       then None else map_of (at_LastShown (en_att e)) (identity_String x))"
proof -
  have wf: "alist_wf (at_LastShown (en_att e))" "alist_wf (at_acknowledged (en_att e))"
    using assms(1) by (auto simp: state_wf_def)
  show ?thesis
    by (auto simp: assms(2) RemoveInstance_tables map_of_filter_key [OF wf(1)] map_of_filter_key [OF wf(2)]
        instance_prefix_iff not_less split: option.splits)
qed

definition demo_env :: Env where
  "demo_env = \<lparr>env_resolve = (\<lambda>_ _. (demo_rule, True)),
     env_render = (\<lambda>_ c. (if c = None then OutcomeCleared else OutcomeDrawn, None)),
     env_clock = (\<lambda>_. demo_time), env_generation = None, env_endFailed = False,
     env_during = (\<lambda>_. []), env_between = (\<lambda>_. [])\<rparr>"

lemma demo_undisturbed: "undisturbed_from demo_env n"
  by (simp add: undisturbed_from_def demo_env_def)

definition demo_engine :: Engine where
  "demo_engine = newEngine demo_published NewSessionCoordinator"

lemma demo_published_pruned: "prune_counted demo_time demo_published = (False, demo_published)"
  by (simp add: prune_counted_def pruneLocked_def demo_published_def)

lemma demo_published_visible: "visible_records demo_published = [demo_record]"
  by (simp add: visible_records_def demo_published_def excluded_def NewStore_def demo_record_def)

lemma demo_acknowledged:
  "map_of (at_acknowledged demo_state) (identity_String (rec_Identity demo_record)) =
     Some \<lparr>as_identity = record_state_identity demo_record 1, as_generation = 1,
       as_observedAt = obs_ObservedAt demo_observation, as_touchedAt = demo_time\<rparr>"
  by (simp add: demo_state_def rec_ID_def)

theorem remove_instance_exact_witness:
  "map_of (at_acknowledged (en_att (RemoveInstance demo_env ''calendar'' ''desk'' 1
     (demo_engine\<lparr>en_att := demo_state\<rparr>)))) (rec_ID demo_record) = None"
proof -
  have wf: "state_wf (en_att (demo_engine\<lparr>en_att := demo_state\<rparr>))"
    by (simp add: state_wf_def demo_state_def new_attentionState_def)
  have "id_PluginID (rec_Identity demo_record) = ''calendar''" "id_InstanceID (rec_Identity demo_record) = ''desk''"
    by (simp_all add: rec_Identity_def demo_record_def admitted_record_def demo_source_def demo_observation_def)
  then show ?thesis
    using remove_instance_exact [OF wf refl, of demo_env "''calendar''" "''desk''" 1 "rec_Identity demo_record"]
    by (simp add: demo_acknowledged rec_ID_def)
qed

subsection \<open>Deadlines\<close>

lemma consider_deadline_later: "is_zero_time (consider_deadline now t nxt) \<Longrightarrow> is_zero_time nxt"
  by (auto simp: consider_deadline_def split: if_splits)

lemma consider_bounds:
  assumes "is_zero_time nxt \<or> time_after nxt now"
  shows "is_zero_time (consider_deadline now t nxt) \<or> time_after (consider_deadline now t nxt) now"
    and "\<not> is_zero_time nxt \<Longrightarrow> \<not> is_zero_time (consider_deadline now t nxt) \<and> instant (consider_deadline now t nxt) \<le> instant nxt"
    and "\<not> is_zero_time t \<Longrightarrow> time_after t now \<Longrightarrow>
      \<not> is_zero_time (consider_deadline now t nxt) \<and> instant (consider_deadline now t nxt) \<le> instant t"
  using assms by (auto simp: consider_deadline_def time_before_def)

lemma fold_consider:
  assumes "is_zero_time nxt \<or> time_after nxt now"
  shows "(is_zero_time (fold (consider_deadline now) ts nxt) \<or> time_after (fold (consider_deadline now) ts nxt) now)
    \<and> (\<not> is_zero_time nxt \<longrightarrow> \<not> is_zero_time (fold (consider_deadline now) ts nxt)
        \<and> instant (fold (consider_deadline now) ts nxt) \<le> instant nxt)
    \<and> (\<forall>t\<in>set ts. \<not> is_zero_time t \<and> time_after t now \<longrightarrow>
        \<not> is_zero_time (fold (consider_deadline now) ts nxt) \<and> instant (fold (consider_deadline now) ts nxt) \<le> instant t)"
  using assms
proof (induction ts arbitrary: nxt)
  case (Cons t ts)
  note c = consider_bounds [OF Cons.prems, of t]
  note f = Cons.IH [OF c(1)]
  show ?case
  proof (intro conjI impI ballI)
    show "is_zero_time (fold (consider_deadline now) (t # ts) nxt) \<or> time_after (fold (consider_deadline now) (t # ts) nxt) now"
      using f by simp
    show "\<not> is_zero_time (fold (consider_deadline now) (t # ts) nxt)"
      "instant (fold (consider_deadline now) (t # ts) nxt) \<le> instant nxt" if "\<not> is_zero_time nxt"
      using f c(2) [OF that] by auto
    fix x assume x: "x \<in> set (t # ts)" "\<not> is_zero_time x \<and> time_after x now"
    then show "\<not> is_zero_time (fold (consider_deadline now) (t # ts) nxt)"
      "instant (fold (consider_deadline now) (t # ts) nxt) \<le> instant x"
      using f c(3) by fastforce+
  qed
qed simp

text \<open>No expiry is slept through: the deadline up to which the engine sleeps is absent or lies in
  the future, and it is not later than the expiry of any stored visible observation or than the end of
  the presentation cooldown.\<close>

theorem deadline_sound:
  assumes "NextDeadline env now e = (t, e')"
    and "r \<in> set (fst (Snapshot (env_clock env (length (en_renders e))) (en_store e)))"
    and "time_after (obs_ValidUntil (rec_Observation r)) now" "\<not> is_zero_time (obs_ValidUntil (rec_Observation r))"
  shows "time_after t now \<and> instant t \<le> instant (obs_ValidUntil (rec_Observation r)) \<and>
    (\<not> is_zero_time (en_cooldownUntil e) \<and> time_before now (en_cooldownUntil e) \<longrightarrow> instant t \<le> instant (en_cooldownUntil e))"
proof -
  obtain records s where snap: "Snapshot (env_clock env (length (en_renders e))) (en_store e) = (records, s)" by fastforce
  obtain changed e1 where p: "engine_pruneState records now (e\<lparr>en_store := s\<rparr>) = (changed, e1)" by fastforce
  define e2 where "e2 = (if changed then persistState env records e1 else e1)"
  define ts where "ts = deadlines now records (fst (presentationCooldownActive now e2))
    (attention_Select records (resolveRecord env (snd (presentationCooldownActive now e2)))
      (en_history (snd (presentationCooldownActive now e2))) now) (snd (presentationCooldownActive now e2))"
  have t: "t = fold (consider_deadline now) ts zero_time"
    using assms(1) by (cases changed) (auto simp: NextDeadline_def snap p e2_def ts_def Let_def split_beta)
  have until: "en_cooldownUntil e2 = en_cooldownUntil e"
    using p by (auto simp: e2_def engine_pruneState_def persistState_def split: prod.splits)
  have "is_zero_time zero_time \<or> time_after zero_time now" by (simp add: is_zero_time_def zero_time_def)
  note f = fold_consider [OF this, of ts, folded t]
  have "obs_ValidUntil (rec_Observation r) \<in> set ts" using assms(2) by (auto simp: ts_def deadlines_def snap)
  moreover have "en_cooldownUntil e \<in> set ts"
    if "\<not> is_zero_time (en_cooldownUntil e)" "time_before now (en_cooldownUntil e)"
    using that until by (simp add: ts_def deadlines_def presentationCooldownActive_def)
  ultimately show ?thesis using f assms(3,4) by (auto simp: time_after_def time_before_def)
qed

theorem deadline_sound_witness: "instant (fst (NextDeadline demo_env demo_time demo_engine)) \<le> 1000"
proof -
  have stored: "demo_record \<in> set (fst (Snapshot demo_time demo_published))"
    by (simp add: Snapshot_list demo_published_pruned demo_published_visible)
  show ?thesis
    using deadline_sound [OF surjective_pairing, of demo_record demo_env demo_engine demo_time] stored
    by (simp add: demo_env_def demo_engine_def newEngine_def demo_record_def admitted_record_def demo_observation_def
        demo_time_def time_after_def is_zero_time_def)
qed

subsection \<open>Witnesses of the properties of a step\<close>

lemma demo_published_inv: "store_inv demo_published"
  using reachable_store_inv [of None "[OpPublish demo_time demo_source demo_observation]"]
  by (simp add: demo_published_eq)

lemma demo_step: "\<exists>processed err e'. engine_step 2050 demo_env demo_time (demo_engine\<lparr>en_cooldownUntil := t\<rparr>) = Some (processed, err, e')"
  using demo_published_inv
  by (intro engine_step_returns [OF _ demo_undisturbed [of 0]]) (simp_all add: demo_engine_def newEngine_def)

theorem cooldown_gate_witness:
  "\<exists>processed err e'. engine_step 2050 demo_env demo_time (demo_engine\<lparr>en_cooldownUntil := \<lparr>instant = 100, zone_offset = 0\<rparr>\<rparr>)
      = Some (processed, err, e') \<and>
    list_all (\<lambda>(c, result). case c of None \<Rightarrow> True | Some w \<Rightarrow> cd_Band w = BandCriticalActionable) (en_renders e')"
proof -
  let ?e = "demo_engine\<lparr>en_cooldownUntil := \<lparr>instant = 100, zone_offset = 0\<rparr>\<rparr>"
  obtain processed err e' where s: "engine_step 2050 demo_env demo_time ?e = Some (processed, err, e')"
    using demo_step by blast
  have "en_renders ?e = []" by (simp add: demo_engine_def newEngine_def)
  then show ?thesis
    using cooldown_gate [OF s] s by (simp add: demo_time_def is_zero_time_def time_before_def)
qed

theorem claim_exact_witness:
  "\<exists>processed err e'. engine_step 2050 demo_env demo_time (demo_engine\<lparr>en_cooldownUntil := zero_time\<rparr>) = Some (processed, err, e')
    \<and> en_claim e' = fold claim_step (en_renders e') no_back"
proof -
  let ?e = "demo_engine\<lparr>en_cooldownUntil := zero_time\<rparr>"
  obtain processed err e' where s: "engine_step 2050 demo_env demo_time ?e = Some (processed, err, e')"
    using demo_step by blast
  have "en_renders ?e = []" "en_claim ?e = no_back" by (simp_all add: demo_engine_def newEngine_def en_claim_def no_back_def)
  then show ?thesis using claim_exact [OF s] s by auto
qed

subsection \<open>The Back key\<close>

lemma render_clear_frame:
  "en_store (snd (render_clear env now d e)) = en_store e" "en_cooldownUntil (snd (render_clear env now d e)) = en_cooldownUntil e"
  "fst (render_clear env now d e) = None \<Longrightarrow> en_claim (snd (render_clear env now d e)) = no_back
     \<and> \<not> en_criticalOwned (snd (render_clear env now d e))"
  by (auto simp: render_clear_def engine_render_def Let_def engine_frame split: option.splits if_splits)

lemma signal_frame [simp]:
  "en_cooldownUntil (signalLocalChange e) = en_cooldownUntil e" "en_claim (signalLocalChange e) = en_claim e"
  "en_criticalOwned (signalLocalChange e) = en_criticalOwned e" "en_store (signalLocalChange e) = Signal (en_store e)"
  by (simp_all add: signalLocalChange_def en_claim_def)

lemma tombstoned_signal [simp]: "tombstoned i g rv (Signal s) = tombstoned i g rv s"
  by (simp add: tombstoned_def Signal_def notify_def)

lemma ExcludeExact_live:
  assumes "live_exact s i g rv" "id_PluginID i \<noteq> ''''" "id_InstanceID i \<noteq> ''''" "id_Channel i \<noteq> ''''" "id_Key i \<noteq> ''''"
    and "g \<noteq> 0" "rv \<noteq> 0" "case gen of None \<Rightarrow> True | Some f \<Rightarrow> f (id_PluginID i) (id_InstanceID i) = Some g"
  shows "tombstoned i g rv (snd (ExcludeExactRevisionWithoutSignal gen i g rv s))"
  using assms
  by (auto simp: ExcludeExactRevisionWithoutSignal_def Let_def excludeThrough_tombstones split: option.splits if_splits)

lemma DismissForBack_store:
  assumes "back_valid p"
  shows "en_store (snd (DismissForBack env clock p reason e)) =
    Signal (snd (ExcludeExactRevisionWithoutSignal (env_generation env) (bp_identity p) (bp_generation p) (bp_revision p) (en_store e)))"
  using assms by (simp add: DismissForBack_def Let_def split_beta render_clear_frame)

lemma DismissForBack_cooldown:
  "en_cooldownUntil (snd (DismissForBack env clock p reason e)) = time_add (time_utc clock) defaultPresentationCooldown"
  by (simp add: DismissForBack_def Let_def split_beta render_clear_frame)

lemma DismissForBack_cleared:
  assumes "back_valid p" "owns_claim p e" "fst (DismissForBack env clock p reason e) = None"
  shows "en_claim (snd (DismissForBack env clock p reason e)) = no_back
    \<and> \<not> en_criticalOwned (snd (DismissForBack env clock p reason e))"
  using assms by (simp add: DismissForBack_def Let_def split_beta owns_claim_def render_clear_frame)

lemma DismissForBack_inv:
  assumes "store_inv (en_store e)" "back_valid p"
  shows "store_inv (en_store (snd (DismissForBack env clock p reason e)))"
  using store.apply_inv [OF store.apply_inv [OF assms(1), of "env_generation env"
      "OpExcludeExact (bp_identity p) (bp_generation p) (bp_revision p)"], of "env_generation env" OpSignal]
  by (simp add: DismissForBack_store [OF assms(2)])

lemma tombstone_hides:
  assumes "store_inv s" "tombstoned i g rv s" "rv \<noteq> 0" "list_all (spares i g) ops"
    and "r \<in> set (fst (Snapshot now (fold (store_apply gen) ops s)))" "rec_Identity r = i" "rec_Generation r = g"
  shows "rv < obs_Revision (rec_Observation r)"
proof -
  have "\<not> excluded (fold (store_apply gen) ops s) i r"
    using assms(5,6) in_Snapshot_iff [OF store.run_inv [OF assms(1)]] by blast
  then show ?thesis
    using run_keeps_tombstone [OF assms(1-4), of gen] assms(7)
    by (auto simp: tombstoned_def excluded_def not_le)
qed

text \<open>Dismissing a presentation with Back works at once and for good. The cooldown runs for thirty
  seconds from the press; the captured revision, if it is still the stored one of the current
  generation, is excluded from every later snapshot, through whatever operations that do not remove
  its instance; and if the capture still owned the display and the renderer cleared it, the engine
  claims nothing and holds no critical foreground.\<close>

theorem back_dismisses:
  assumes "DismissForBack env clock p reason e = (err, e')" "store_inv (en_store e)" "back_valid p"
    and "live_exact (en_store e) (bp_identity p) (bp_generation p) (bp_revision p)"
    and "id_InstanceID (bp_identity p) \<noteq> ''''" "id_Channel (bp_identity p) \<noteq> ''''" "id_Key (bp_identity p) \<noteq> ''''"
    and "case env_generation env of None \<Rightarrow> True
      | Some f \<Rightarrow> f (id_PluginID (bp_identity p)) (id_InstanceID (bp_identity p)) = Some (bp_generation p)"
  shows "instant (en_cooldownUntil e') = instant clock + 30000000000 \<and>
    (\<forall>ops r now. list_all (spares (bp_identity p) (bp_generation p)) ops \<longrightarrow>
       r \<in> set (fst (Snapshot now (fold (store_apply (env_generation env)) ops (en_store e')))) \<longrightarrow>
       rec_Identity r = bp_identity p \<longrightarrow> rec_Generation r = bp_generation p \<longrightarrow>
       bp_revision p < obs_Revision (rec_Observation r)) \<and>
    (owns_claim p e \<longrightarrow> err = None \<longrightarrow> en_claim e' = no_back \<and> \<not> en_criticalOwned e')"
proof -
  have e': "e' = snd (DismissForBack env clock p reason e)" "err = fst (DismissForBack env clock p reason e)"
    by (simp_all add: assms(1))
  have parts: "id_PluginID (bp_identity p) \<noteq> ''''" "bp_generation p \<noteq> 0" "bp_revision p \<noteq> 0"
    using assms(3) by (simp_all add: back_valid_def)
  have inv: "store_inv (en_store e')" unfolding e' by (rule DismissForBack_inv [OF assms(2,3)])
  have "tombstoned (bp_identity p) (bp_generation p) (bp_revision p) (en_store e')"
    unfolding e' DismissForBack_store [OF assms(3)] tombstoned_signal
    by (rule ExcludeExact_live [OF assms(4) parts(1) assms(5-7) parts(2,3) assms(8)])
  note hides = tombstone_hides [OF inv this parts(3)]
  have "instant (en_cooldownUntil e') = instant clock + 30000000000"
    by (simp add: e' DismissForBack_cooldown defaultPresentationCooldown_def go_time second_def)
  then show ?thesis using hides DismissForBack_cleared [OF assms(3), of e env clock reason, folded e'] by blast
qed

definition demo_back :: BackPresentation where
  "demo_back = \<lparr>bp_identity = demo_identity, bp_id = identity_String demo_identity, bp_generation = 1, bp_revision = 1\<rparr>"

theorem back_dismisses_witness:
  "demo_record \<notin> set (fst (Snapshot demo_time (en_store (snd (DismissForBack demo_env demo_time demo_back
     ''back_no_session'' demo_engine)))))"
proof -
  have "identity_String demo_identity \<noteq> ''''" by code_simp
  then have valid: "back_valid demo_back" by (simp add: back_valid_def demo_back_def demo_identity_def)
  have live: "live_exact (en_store demo_engine) (bp_identity demo_back) (bp_generation demo_back) (bp_revision demo_back)"
    by (simp add: demo_engine_def newEngine_def live_exact_def demo_published_def demo_back_def NewStore_def
        demo_source_def demo_observation_def admitted_record_def)
  have inv: "store_inv (en_store demo_engine)" by (simp add: demo_engine_def newEngine_def demo_published_inv)
  have fields: "bp_identity demo_back = demo_identity" "bp_generation demo_back = 1" "bp_revision demo_back = 1"
    by (simp_all add: demo_back_def)
  have gen: "env_generation demo_env = None" by (simp add: demo_env_def)
  have parts: "id_InstanceID demo_identity \<noteq> ''''" "id_Channel demo_identity \<noteq> ''''" "id_Key demo_identity \<noteq> ''''"
    by (simp_all add: demo_identity_def)
  have no_gen: "case (None :: Generation option) of None \<Rightarrow> True | Some f \<Rightarrow>
      f (id_PluginID demo_identity) (id_InstanceID demo_identity) = Some 1" by simp
  note dismissed = back_dismisses [OF surjective_pairing inv valid live, of demo_env demo_time "''back_no_session''",
      unfolded fields gen, OF parts no_gen, THEN conjunct2, THEN conjunct1]
  have r: "rec_Identity demo_record = demo_identity" "rec_Generation demo_record = 1"
    "obs_Revision (rec_Observation demo_record) = 1"
    by (simp_all add: rec_Identity_def demo_record_def admitted_record_def demo_source_def demo_observation_def demo_identity_def)
  show ?thesis using dismissed [rule_format, where ops = "[]" and r = demo_record and now = demo_time] r by auto
qed

subsection \<open>Acknowledging\<close>

lemma evict_until_subset: "set (snd (evict_until capacity vs m)) \<subseteq> set m"
proof (induction vs arbitrary: m)
  case (Cons v vs)
  have "set (AList.delete (fst v) m) \<subseteq> set m" by (auto simp: AList.delete_eq)
  with Cons [of "AList.delete (fst v) m"] show ?case by (auto simp: split_beta)
qed simp

lemma pruneLastShown_subset: "set (snd (pruneLastShownCapacity m live capacity)) \<subseteq> set m"
  using evict_until_subset by (auto simp: pruneLastShownCapacity_def)

lemma pruneAcknowledgements_subset:
  "set (at_acknowledged (pruneAcknowledgementsWithLive live now s)) \<subseteq> set (at_acknowledged s)"
  by (auto simp: pruneAcknowledgementsWithLive_def Let_def split_beta dest: subsetD [OF evict_until_subset])

lemma pruneCombined_subset:
  "set (at_LastShown (pruneCombinedState live now s)) \<subseteq> set (at_LastShown s)"
  "set (at_acknowledged (pruneCombinedState live now s)) \<subseteq> set (at_acknowledged s)"
  using pruneCombined_tables [of live now s] by (auto simp: fold_evict_one)

lemma pruneState_parts:
  "\<exists>s1. snd (pruneState records now s) = pruneCombinedState (live_record records) now
      (pruneAcknowledgementsWithLive (live_record records) now s1) \<and>
    set (at_LastShown s1) \<subseteq> set (at_LastShown s) \<and> at_acknowledged s1 = at_acknowledged s \<and>
    at_capacity s1 = at_capacity s \<and> (state_wf s \<longrightarrow> state_wf s1)"
  unfolding pruneState_def Let_def split_beta snd_conv
  by (intro exI conjI, rule refl)
    (auto simp: syncLastShownState_def state_wf_def alist_wf_filter pruneLastShownCapacity_wf
      dest: subsetD [OF pruneLastShown_subset])

lemma pruneCombined_wf: "state_wf s \<Longrightarrow> state_wf (pruneCombinedState live now s)"
  using pruneCombined_tables [of live now s] by (simp add: fold_evict_one state_wf_def alist_wf_filter)

lemma pruneCombined_capacity [simp]: "at_capacity (pruneCombinedState live now s) = at_capacity s"
  by (simp add: pruneCombinedState_def Let_def split: list.splits prod.splits)

lemma pruneState_facts:
  "set (at_LastShown (snd (pruneState records now s))) \<subseteq> set (at_LastShown s)"
  "set (at_acknowledged (snd (pruneState records now s))) \<subseteq> set (at_acknowledged s)"
  "at_capacity (snd (pruneState records now s)) = at_capacity s"
  "state_wf s \<Longrightarrow> state_wf (snd (pruneState records now s))"
proof -
  let ?live = "live_record records"
  obtain s1 where s1: "snd (pruneState records now s) = pruneCombinedState ?live now (pruneAcknowledgementsWithLive ?live now s1)"
    "set (at_LastShown s1) \<subseteq> set (at_LastShown s)" "at_acknowledged s1 = at_acknowledged s"
    "at_capacity s1 = at_capacity s" "state_wf s \<longrightarrow> state_wf s1"
    using pruneState_parts by blast
  have shown: "at_LastShown (pruneAcknowledgementsWithLive ?live now s1) = at_LastShown s1"
    by (simp add: pruneAcknowledgementsWithLive_def Let_def split_beta)
  show "set (at_LastShown (snd (pruneState records now s))) \<subseteq> set (at_LastShown s)"
    unfolding s1(1) using pruneCombined_subset(1) s1(2) shown by fastforce
  show "set (at_acknowledged (snd (pruneState records now s))) \<subseteq> set (at_acknowledged s)"
    unfolding s1(1) using pruneCombined_subset(2) pruneAcknowledgements_subset s1(3) by fastforce
  show "at_capacity (snd (pruneState records now s)) = at_capacity s" by (simp add: s1)
  show "state_wf s \<Longrightarrow> state_wf (snd (pruneState records now s))"
    unfolding s1(1) using s1(5) by (intro pruneCombined_wf state_wf_acknowledgements) simp
qed

text \<open>The newest entry of a live observation is never a victim.\<close>

lemma newest_live_kept:
  assumes "alist_wf shown" "alist_wf acks" "0 < capacity" "map_of acks i = Some a" "live i \<noteq> None"
    and "\<forall>(k, t)\<in>set shown. instant t < instant (as_touchedAt a)"
    and "\<forall>(k, b)\<in>set acks. k \<noteq> i \<longrightarrow> instant (as_touchedAt b) < instant (as_touchedAt a)"
  shows "(True, i) \<notin> vkey ` set (chosen_victims capacity live shown acks)"
proof
  assume "(True, i) \<in> vkey ` set (chosen_victims capacity live shown acks)"
  then obtain v where v: "v \<in> set (chosen_victims capacity live shown acks)" "cv_ack v" "cv_id v = i" by force
  let ?V = "combined_victims live shown acks"
  let ?S = "sort_by combined_cmp ?V"
  obtain n where n: "chosen_victims capacity live shown acks = take n ?S" "int (length shown + length acks - n) \<le> capacity"
    "length shown + length acks = 0 \<or> n < length shown + length acks"
    using v(1) assms(3)
    by (auto simp: chosen_victims_def Let_def split: if_splits intro!: that)
  have S: "length ?S = length shown + length acks" by (simp add: length_combined_victims)
  moreover have "?S \<noteq> []" using v(1) n(1) by auto
  ultimately have "n < length ?S" using n(3) by auto
  then obtain w where w: "w \<in> set (drop n ?S)" by (metis drop_eq_Nil last_in_set not_le)
  have cmp: "combined_cmp v w \<le> 0" using v(1) w by (intro eviction.take_sort_by_least) (simp_all add: n(1))
  have inV: "v \<in> set ?V" "w \<in> set ?V"
    using v(1) w by (auto simp: n(1) dest: in_set_takeD in_set_dropD)
  have av: "cv_at v = as_touchedAt a" "cv_isLive v"
    using inV(1) v(2,3) assms(1,4,5) map_of_is_SomeI [OF assms(2)] by (auto simp: combined_victims_def)
  have "mset (map vkey ?S) = mset (map vkey ?V)" by simp
  then have d: "distinct (map vkey (take n ?S @ drop n ?S))"
    using distinct_combined_victims [OF assms(1,2)] mset_eq_imp_distinct_iff by (metis append_take_drop_id)
  then have "vkey w \<noteq> vkey v" using v(1) w unfolding n(1) map_append distinct_append by fastforce
  then have "instant (cv_at w) < instant (as_touchedAt a)"
    using inV(2) v(2,3) assms(6,7) by (auto simp: combined_victims_def split: prod.splits)
  with cmp av show False by (auto simp: combined_cmp_le)
qed

text \<open>The entry that an acknowledgement proposes, and the tables before it.\<close>

definition ack_of :: "gotime \<Rightarrow> ObsRecord \<Rightarrow> ackState" where
  "ack_of now r = \<lparr>as_identity = record_state_identity r (rec_Generation r), as_generation = rec_Generation r,
     as_observedAt = obs_ObservedAt (rec_Observation r), as_touchedAt = now\<rparr>"

lemma Acknowledge_success:
  assumes "Acknowledge env save clock i e = (None, e')"
  obtains r records att where "find (\<lambda>r. rec_ID r = i) records = Some r"
    "records = fst (Snapshot (env_clock env (length (en_renders e))) (en_store e))"
    "att = snd (pruneState records (time_utc clock) (en_att e))"
    "at_acknowledged (en_att e') = snd (snd (fold evict_one
       (chosen_victims (at_capacity att) (live_record records) (at_LastShown att)
         (AList.update i (ack_of (time_utc clock) r) (at_acknowledged att)))
       (at_LastShown att, at_lastShownState att, AList.update i (ack_of (time_utc clock) r) (at_acknowledged att))))"
    "save (last (en_saved e')) = (Committed, False)" "en_sessions e' = en_sessions e"
proof -
  obtain records s where snap: "Snapshot (env_clock env (length (en_renders e))) (en_store e) = (records, s)" by fastforce
  obtain r where r: "find (\<lambda>r. rec_ID r = i) records = Some r"
    using assms by (cases "find (\<lambda>r. rec_ID r = i) records") (auto simp: Acknowledge_def snap)
  show ?thesis
    using that [OF r _ refl] assms
    by (auto simp: Acknowledge_def snap r Let_def split_beta engine_pruneState_def boundProposedAcknowledgements_def
        ack_of_def signalLocalChange_def prod_eq_iff split: if_splits)
qed

lemma find_live: "find (\<lambda>r. rec_ID r = i) records = Some r \<Longrightarrow> live_record records i \<noteq> None"
  by (induction records) (auto simp: live_record_def map_add_def split: if_splits option.splits)

lemma acknowledged_kept:
  assumes "Acknowledge env save clock i e = (None, e')" "state_wf (en_att e)" "0 < at_capacity (en_att e)"
    and "\<forall>(k, t)\<in>set (at_LastShown (en_att e)). instant t < instant clock"
    and "\<forall>(k, a)\<in>set (at_acknowledged (en_att e)). instant (as_touchedAt a) < instant clock"
  obtains r where "r \<in> set (fst (Snapshot (env_clock env (length (en_renders e))) (en_store e)))" "rec_ID r = i"
    "map_of (at_acknowledged (en_att e')) i = Some (ack_of (time_utc clock) r)"
    "save (last (en_saved e')) = (Committed, False)" "en_sessions e' = en_sessions e"
  using assms(1)
proof (rule Acknowledge_success)
  fix r records att
  assume r: "find (\<lambda>r. rec_ID r = i) records = Some r"
    and records: "records = fst (Snapshot (env_clock env (length (en_renders e))) (en_store e))"
    and att: "att = snd (pruneState records (time_utc clock) (en_att e))"
    and acks: "at_acknowledged (en_att e') = snd (snd (fold evict_one
       (chosen_victims (at_capacity att) (live_record records) (at_LastShown att)
         (AList.update i (ack_of (time_utc clock) r) (at_acknowledged att)))
       (at_LastShown att, at_lastShownState att, AList.update i (ack_of (time_utc clock) r) (at_acknowledged att))))"
    and rest: "save (last (en_saved e')) = (Committed, False)" "en_sessions e' = en_sessions e"
  let ?a = "ack_of (time_utc clock) r"
  let ?acks = "AList.update i ?a (at_acknowledged att)"
  note facts = pruneState_facts [where records = records and now = "time_utc clock" and s = "en_att e", folded att]
  have wf: "alist_wf (at_LastShown att)" "alist_wf (at_acknowledged att)"
    using facts(4) assms(2) by (auto simp: state_wf_def)
  then have wf': "alist_wf ?acks" by (simp add: distinct_update)
  have touched: "instant (as_touchedAt ?a) = instant clock" by (simp add: ack_of_def go_time)
  have "(True, i) \<notin> vkey ` set (chosen_victims (at_capacity att) (live_record records) (at_LastShown att) ?acks)"
  proof (rule newest_live_kept [OF wf(1) wf'])
    show "0 < at_capacity att" using facts(3) assms(3) by simp
    show "map_of ?acks i = Some ?a" by (simp add: update_conv')
    show "live_record records i \<noteq> None" using r by (rule find_live)
    show "\<forall>(k, t)\<in>set (at_LastShown att). instant t < instant (as_touchedAt ?a)"
      using facts(1) assms(4) unfolding touched by blast
    show "\<forall>(k, b)\<in>set ?acks. k \<noteq> i \<longrightarrow> instant (as_touchedAt b) < instant (as_touchedAt ?a)"
    proof (intro ballI, clarify)
      fix k b assume "(k, b) \<in> set ?acks" "k \<noteq> i"
      then have "map_of (at_acknowledged att) k = Some b" using map_of_is_SomeI [OF wf'] by (fastforce simp: update_conv')
      then show "instant (as_touchedAt b) < instant (as_touchedAt ?a)"
        using facts(2) assms(5) unfolding touched by (blast dest: map_of_SomeD)
    qed
  qed
  then have "map_of (at_acknowledged (en_att e')) i = Some ?a"
    by (simp add: acks fold_evict_one map_of_filter_key [OF wf'] update_conv')
  moreover have "r \<in> set records" "rec_ID r = i" using r by (auto simp: find_Some_iff)
  ultimately show ?thesis using that rest records by blast
qed

text \<open>(C24) A confirmed acknowledgement silences its observation for as long as it is kept. When \<open>Acknowledge\<close> succeeds, the
  state store has committed the document, and the table has the entry of a stored observation with the identifier, although
  the capacity may force an eviction in the same operation: the fresh entry is never the victim, provided the clock
  has advanced since the other entries were recorded. In every state whose table still has that entry, no observation of
  that identity, generation and observation time whose policy asks for an acknowledgement may be presented. Later
  operations may evict the entry for lack of room.\<close>

theorem acknowledge_effective:
  assumes "Acknowledge env save clock i e = (None, e')" "state_wf (en_att e)" "0 < at_capacity (en_att e)"
    and "\<forall>(k, t)\<in>set (at_LastShown (en_att e)). instant t < instant clock"
    and "\<forall>(k, a)\<in>set (at_acknowledged (en_att e)). instant (as_touchedAt a) < instant clock"
  shows "save (last (en_saved e')) = (Committed, False) \<and>
    (\<exists>r\<in>set (fst (Snapshot (env_clock env (length (en_renders e))) (en_store e))). rec_ID r = i \<and>
      map_of (at_acknowledged (en_att e')) i = Some (ack_of (time_utc clock) r) \<and>
      (\<forall>env' later x h now. map_of (at_acknowledged (en_att later)) i = Some (ack_of (time_utc clock) r) \<and>
         rec_ID x = i \<and> rec_Generation x = rec_Generation r \<and>
         time_equal (obs_ObservedAt (rec_Observation r)) (obs_ObservedAt (rec_Observation x)) \<and>
         ru_RequiresAck (fst (env_resolve env' (en_sessions later) x)) \<longrightarrow>
         \<not> may_present (resolveRecord env' later) h now x))"
  using assms
proof (rule acknowledged_kept)
  fix r
  assume r: "r \<in> set (fst (Snapshot (env_clock env (length (en_renders e))) (en_store e)))" "rec_ID r = i"
    and ack: "map_of (at_acknowledged (en_att e')) i = Some (ack_of (time_utc clock) r)"
    and rest: "save (last (en_saved e')) = (Committed, False)"
  have "\<not> may_present (resolveRecord env' later) h now x"
    if "map_of (at_acknowledged (en_att later)) i = Some (ack_of (time_utc clock) r)" "rec_ID x = i" "rec_Generation x = rec_Generation r"
      "time_equal (obs_ObservedAt (rec_Observation r)) (obs_ObservedAt (rec_Observation x))"
      "ru_RequiresAck (fst (env_resolve env' (en_sessions later) x))" for env' later x h now
    using that
    by (auto simp: may_present_def resolveRecord_def ack_of_def Let_def split: prod.splits if_splits)
  then show ?thesis using r ack rest by blast
qed

theorem acknowledge_effective_witness:
  "\<forall>h now. \<not> may_present (resolveRecord demo_env
     (snd (Acknowledge demo_env (\<lambda>_. (Committed, False)) demo_time (rec_ID demo_record) demo_engine))) h now demo_record"
proof -
  have snap: "Snapshot demo_time demo_published = ([demo_record], demo_published)"
    by (simp add: prod_eq_iff Snapshot_list demo_published_pruned demo_published_visible notify_if_def)
  have ok: "fst (Acknowledge demo_env (\<lambda>_. (Committed, False)) demo_time (rec_ID demo_record) demo_engine) = None"
    by (simp add: Acknowledge_def demo_engine_def newEngine_def demo_env_def snap Let_def split_beta demo_rule_def)
  have wf: "state_wf (en_att demo_engine)" "0 < at_capacity (en_att demo_engine)"
    "at_LastShown (en_att demo_engine) = []" "at_acknowledged (en_att demo_engine) = []"
    by (simp_all add: demo_engine_def newEngine_def new_attentionState_def state_wf_def)
  have env: "fst (Snapshot (env_clock demo_env (length (en_renders demo_engine))) (en_store demo_engine)) = [demo_record]"
    "ru_RequiresAck (fst (env_resolve demo_env sessions x))" for x sessions
    by (simp_all add: demo_env_def demo_engine_def newEngine_def snap demo_rule_def)
  obtain e' where e': "Acknowledge demo_env (\<lambda>_. (Committed, False)) demo_time (rec_ID demo_record) demo_engine = (None, e')"
    using ok by (cases "Acknowledge demo_env (\<lambda>_. (Committed, False)) demo_time (rec_ID demo_record) demo_engine") simp
  have "\<forall>h now. \<not> may_present (resolveRecord demo_env e') h now demo_record"
    using acknowledge_effective [OF e' wf(1,2)] env wf(3,4) by (simp add: time_equal_def)
  then show ?thesis by (simp add: e')
qed

end
