(* ===== verification/System.thy ===== *)
theory System
  imports Engine
begin

text \<open>
  The engine together with the observation store, the foreground coordinator and everyone else who
  calls them: plugins publish and withdraw, the input dispatcher handles Back, an administrator
  acknowledges and removes apps, sessions begin and end. Every operation of the engine is shown to be a
  sequence of operations of the store and of the coordinator, so that what was proved about these
  components holds of the whole; and the loop \<open>Run\<close>, which decides when the engine takes a step, is
  modelled as a step relation over that system.
\<close>

subsection \<open>Runs of the components\<close>

text \<open>An operation of the store by anyone but the loop that receives from its channel.\<close>

definition store_move :: "Store \<Rightarrow> Store \<Rightarrow> bool" where
  "store_move s s' \<longleftrightarrow> (\<exists>gen op. op \<noteq> OpDrain \<and> s' = store_apply gen op s)"

abbreviation store_path :: "Store \<Rightarrow> Store \<Rightarrow> bool" where
  "store_path \<equiv> store_move\<^sup>*\<^sup>*"

text \<open>The operations of the coordinator that the engine causes.\<close>

fun critical_op :: "session_op \<Rightarrow> bool" where
  "critical_op (OpAcquire c) = True"
| "critical_op OpReleaseCritical = True"
| "critical_op _ = False"

definition engine_session_move :: "Coordinator \<Rightarrow> Coordinator \<Rightarrow> bool" where
  "engine_session_move s s' \<longleftrightarrow>
     (\<exists>op. (critical_op op \<or> (\<exists>clock p b t. op = OpFallback clock p b t)) \<and> s' = session_apply op s)"

abbreviation session_path :: "Coordinator \<Rightarrow> Coordinator \<Rightarrow> bool" where
  "session_path \<equiv> engine_session_move\<^sup>*\<^sup>*"

lemma store_path_op: "op \<noteq> OpDrain \<Longrightarrow> store_path s (store_apply gen op s)"
  by (rule r_into_rtranclp) (auto simp: store_move_def)

lemma store_path_inv: "store_path s s' \<Longrightarrow> store_inv s \<Longrightarrow> store_inv s'"
  by (induction rule: rtranclp_induct) (auto simp: store_move_def intro: store.apply_inv)

lemma session_path_op: "critical_op op \<Longrightarrow> session_path s (session_apply op s)"
  by (rule r_into_rtranclp) (auto simp: engine_session_move_def)

lemma session_path_fallback: "session_path s (recordLifecycleFallback clock p b t s)"
  by (rule r_into_rtranclp)
    (auto simp: engine_session_move_def session_apply_def intro!: exI [where x = "OpFallback clock p b t"])

lemma session_path_reach: "session_path s s' \<Longrightarrow> session_reach s issued \<Longrightarrow> session_reach s' issued"
proof (induction rule: rtranclp_induct)
  case (step s1 s2)
  from step.hyps(2) obtain op where op: "critical_op op \<or> (\<exists>clock p b t. op = OpFallback clock p b t)" "s2 = session_apply op s1"
    unfolding engine_session_move_def by blast
  then have "op_allowed issued op" "session_issues op s1 = []"
    by (auto simp: op_allowed_def session_issues_def split: session_op.splits)
  with session_reach.step [OF step.IH [OF step.prems], of op] op(2) show ?case by simp
qed

subsection \<open>What every operation of the engine preserves\<close>

text \<open>The engine and the coordinator agree on who owns the foreground.\<close>

definition agreed :: "Engine \<Rightarrow> bool" where
  "agreed e \<longleftrightarrow> (en_criticalOwned e \<longleftrightarrow> criticalOwned (en_sessions e))"

definition tables_ok :: "attentionState \<Rightarrow> bool" where
  "tables_ok a \<longleftrightarrow> state_wf a \<and> at_capacity a = 2048 \<and> length (at_LastShown a) + length (at_acknowledged a) \<le> 2048"

definition evolves :: "Engine \<Rightarrow> Engine \<Rightarrow> bool" where
  "evolves e e' \<longleftrightarrow> store_path (en_store e) (en_store e') \<and> session_path (en_sessions e) (en_sessions e') \<and>
     (agreed e \<longrightarrow> agreed e') \<and> (tables_ok (en_att e) \<longrightarrow> tables_ok (en_att e'))"

lemma evolves_refl [simp]: "evolves e e"
  by (simp add: evolves_def)

lemma evolves_trans: "evolves e e1 \<Longrightarrow> evolves e1 e2 \<Longrightarrow> evolves e e2"
  by (auto simp: evolves_def)

lemma evolves_same:
  "en_store e' = en_store e \<Longrightarrow> en_sessions e' = en_sessions e \<Longrightarrow> en_att e' = en_att e \<Longrightarrow>
     en_criticalOwned e' = en_criticalOwned e \<Longrightarrow> evolves e e'"
  by (simp add: evolves_def agreed_def)

lemma evolves_store:
  "store_path (en_store e) s \<Longrightarrow> evolves e (e\<lparr>en_store := s\<rparr>)"
  by (simp add: evolves_def agreed_def)

lemma evolves_record: "evolves e (engine_record now d outcome e)"
  by (rule evolves_same) (simp_all add: engine_record_def)

lemma evolves_persist: "evolves e (persistState env records e)"
  by (rule evolves_same) (simp_all add: persistState_def)

lemma evolves_cooldown: "evolves e (snd (presentationCooldownActive now e))"
  by (rule evolves_same) (simp_all add: engine_frame)

lemma evolves_release: "evolves e (engine_releaseCritical e)"
proof -
  have "session_path (en_sessions e) (snd (releaseCritical (en_sessions e)))"
    using session_path_op [of OpReleaseCritical] by (simp add: session_apply_def)
  then show ?thesis
    by (auto simp: evolves_def engine_releaseCritical_def agreed_def criticalOwned_def releaseCritical_def)
qed

lemma acquire_sessions:
  "session_path s (snd (runtime_AcquireCritical failed clock c s))"
  "fst (fst (runtime_AcquireCritical failed clock c s)) \<longleftrightarrow> \<not> co_executing s"
  "\<not> co_executing s \<Longrightarrow> criticalOwned (snd (runtime_AcquireCritical failed clock c s))"
  "co_executing s \<Longrightarrow> snd (runtime_AcquireCritical failed clock c s) = s"
proof -
  have path: "session_path s (snd (acquireCritical (cd_ID c) s))"
    using session_path_op [of "OpAcquire c" s] by (simp add: session_apply_def)
  have ended: "session_path s1 (snd (endSession failed clock t s1))"
    "criticalOwned (snd (endSession failed clock t s1)) = criticalOwned s1" for t s1
    by (simp add: endSession_def Let_def session_path_fallback)
      (simp add: endSession_def Let_def criticalOwned_def recordLifecycleFallback_def)
  have acq: "fst (acquireCritical (cd_ID c) s) = None \<longleftrightarrow> co_executing s"
    "\<not> co_executing s \<Longrightarrow> criticalOwned (snd (acquireCritical (cd_ID c) s))"
    "co_executing s \<Longrightarrow> snd (acquireCritical (cd_ID c) s) = s"
    by (simp_all add: acquireCritical_def criticalOwned_def)
  show "session_path s (snd (runtime_AcquireCritical failed clock c s))"
    using path ended(1) by (simp add: runtime_AcquireCritical_def split_beta split: option.splits) (meson rtranclp_trans)
  show "fst (fst (runtime_AcquireCritical failed clock c s)) \<longleftrightarrow> \<not> co_executing s"
    using acq(1) by (auto simp: runtime_AcquireCritical_def split: prod.splits option.splits)
  show "criticalOwned (snd (runtime_AcquireCritical failed clock c s))" if "\<not> co_executing s"
    using acq(1,2) ended(2) that by (auto simp: runtime_AcquireCritical_def split_beta split: option.splits)
  show "snd (runtime_AcquireCritical failed clock c s) = s" if "co_executing s"
    using acq(1,3) that by (auto simp: runtime_AcquireCritical_def split: prod.splits option.splits)
qed

lemma evolves_acquire: "evolves e (snd (engine_acquireCritical env c e))"
  using acquire_sessions [where s = "en_sessions e" and failed = "env_endFailed env"
      and clock = "env_clock env (length (en_renders e))" and c = c]
  by (auto simp: evolves_def engine_acquireCritical_def agreed_def split_beta)

lemma evolves_clear: "evolves e (clearRenderedSelection e)"
  unfolding clearRenderedSelection_def
  by (rule evolves_trans [OF _ evolves_release]) (simp add: evolves_same forget_delivery_def)

lemma evolves_prune:
  assumes "state_wf (en_att e) \<Longrightarrow> at_capacity (en_att e) = 2048 \<Longrightarrow> state_wf a \<and> at_capacity a = 2048"
  shows "evolves e (e\<lparr>en_att := snd (pruneState records now a)\<rparr>)"
proof -
  have "tables_ok (snd (pruneState records now a))" if "tables_ok (en_att e)"
    using assms that attention_state_fits [of a records now] pruneState_facts(3,4) [where s = a and records = records and now = now]
    by (auto simp: tables_ok_def)
  then show ?thesis by (simp add: evolves_def agreed_def)
qed

lemma evolves_pruneState: "evolves e (snd (engine_pruneState records now e))"
  using evolves_prune [of e "en_att e" records now] by (simp add: engine_pruneState_def split_beta)

lemma state_wf_update:
  assumes "state_wf a"
  shows "state_wf (a\<lparr>at_LastShown := AList.update i t (at_LastShown a), at_lastShownState := AList.update i m (at_lastShownState a)\<rparr>)"
  using assms by (simp add: state_wf_def distinct_update)

lemma evolves_delivered: "evolves e (delivered env now records w e)"
proof -
  define e1 where "e1 = (if cd_Band w \<noteq> BandCriticalActionable then engine_releaseCritical e else e)"
  define e2 where "e2 = (if cd_ID w \<noteq> en_currentID e1 then e1\<lparr>en_currentID := cd_ID w, en_currentSince := now\<rparr> else e1)"
  define a where "a = (en_att e2)\<lparr>
      at_LastShown := AList.update (cd_ID w) now (at_LastShown (en_att e2)),
      at_lastShownState := AList.update (cd_ID w)
        \<lparr>lm_identity = \<lparr>sid_PluginID = cd_PluginID w, sid_InstanceID = cd_InstanceID w,
             sid_Generation = cd_Generation w, sid_Channel = cd_Channel w, sid_Key = cd_Key w\<rparr>,
          lm_persistent = (cd_Policy w \<noteq> PolicyInteractive)\<rparr> (at_lastShownState (en_att e2))\<rparr>"
  define e3 where "e3 = e2\<lparr>en_att := snd (pruneState records now a)\<rparr>"
  have "evolves e e1" by (simp add: e1_def evolves_release)
  moreover have "evolves e1 e2" by (rule evolves_same) (simp_all add: e2_def)
  moreover have "evolves e2 e3"
    unfolding e3_def by (rule evolves_prune) (simp add: a_def state_wf_update)
  moreover have "evolves e3 (delivered env now records w e)"
    by (rule evolves_same)
      (simp_all add: delivered_def Let_def e3_def a_def e2_def e1_def engine_pruneState_def persistState_def split_beta)
  ultimately show ?thesis by (blast intro: evolves_trans)
qed

lemma evolves_render: "evolves e (snd (engine_render env c e))"
  by (rule evolves_same) (simp_all add: engine_render_def Let_def)

lemma evolves_render_clear: "evolves e (snd (render_clear env now d e))"
proof -
  obtain result e1 where r: "engine_render env None e = (result, e1)" by fastforce
  then have "evolves e e1" using evolves_render [of e env None] by simp
  then show ?thesis
    using evolves_trans [OF _ evolves_clear, of e e1]
    by (simp add: render_clear_def r evolves_trans [OF _ evolves_record] split: option.splits)
qed

lemma evolves_exclude: "evolves e (e\<lparr>en_store := snd (ExcludeRevisionWithoutSignal i g rv (en_store e))\<rparr>)"
  using store_path_op [of "OpExclude i g rv" "en_store e" None] by (intro evolves_store) simp

lemma store_path_others: "store_path s (other_store ops s)"
proof (induction ops arbitrary: s)
  case (Cons op ops)
  have "store_path s (other_store [op] s)"
    using store_path_op [of OpSignal s None] by (auto simp: other_store_def intro: store_path_op split: other_op.splits)
  then show ?case using Cons.IH [of "other_store [op] s"] by (auto simp: other_store_def)
qed simp

lemma evolves_others: "evolves e (others ops e)"
  by (simp add: evolves_def agreed_def store_path_others)

lemma evolves_render_winner:
  assumes "render_winner env now records d w e = Inl (err, e') \<or> render_winner env now records d w e = Inr e'"
  shows "evolves e e'"
proof -
  obtain result e0 where r: "engine_render env (Some w) e = (result, e0)" by fastforce
  define e1 where "e1 = others (env_during env (length (en_renders e))) e0"
  let ?e2 = "e1\<lparr>en_store := snd (ExcludeRevisionWithoutSignal (cd_Identity w) (cd_Generation w) (cd_Revision w) (en_store e1))\<rparr>"
  have "evolves e e0" using r evolves_render [of e env "Some w"] by simp
  then have 1: "evolves e e1" unfolding e1_def by (rule evolves_trans [OF _ evolves_others])
  have 2: "evolves e ?e2" using 1 evolves_exclude by (rule evolves_trans)
  have "e' = engine_record now d OutcomeDeviceUnavailable e1
      \<or> e' = engine_record now d OutcomeInvalidPresentation ?e2
      \<or> e' = engine_record now d (renderFailureOutcome (fst result)) e1
      \<or> e' = engine_record now d (fst result) (clearRenderedSelection ?e2)
      \<or> e' = engine_record now d (fst result) (delivered env now records w e1)"
    using assms unfolding render_winner_def r prod.case Let_def e1_def [symmetric] by (auto split: if_splits option.splits)
  then show ?thesis
    using 1 2 evolves_trans [OF 2 evolves_clear] evolves_trans [OF 1 evolves_delivered]
    by (elim disjE) (simp_all add: evolves_trans [OF _ evolves_record])
qed

lemma evolves_step_once:
  assumes "step_once env now records e = out" "out = Inl (err, e') \<or> out = Inr e'"
  shows "evolves e e'"
proof (cases "fst (attention_Select records (resolveRecord env e) (en_history e) now)")
  case None
  let ?d = "attention_Select records (resolveRecord env e) (en_history e) now"
  let ?c = "snd (presentationCooldownActive now e)"
  have "e' = engine_record now ?d OutcomeUnchanged ?c \<or> e' = snd (render_clear env now ?d ?c)"
    using step_once_none [OF None] assms by (auto simp: prod_eq_iff)
  then show ?thesis
    using evolves_trans [OF evolves_cooldown evolves_record] evolves_trans [OF evolves_cooldown evolves_render_clear] by metis
next
  case (Some w)
  let ?c = "snd (presentationCooldownActive now e)"
  have a: "evolves e (snd (engine_acquireCritical env w ?c))" by (rule evolves_trans [OF evolves_cooldown evolves_acquire])
  show ?thesis
    using Some assms(1)
  proof (cases rule: step_once_winner)
    case (unchanged e1)
    then have "evolves e e1" using a evolves_cooldown by blast
    then show ?thesis using unchanged(1) assms(2) by (auto intro: evolves_trans evolves_record)
  next
    case cleared
    then show ?thesis
      using assms(2) evolves_trans [OF evolves_cooldown evolves_render_clear] by (metis Inl_Inr_False Inl_inject snd_conv)
  next
    case (rendered e1)
    then have "evolves e e1" using a evolves_cooldown by blast
    then show ?thesis using rendered(1) assms(2) evolves_render_winner by (metis evolves_trans)
  qed
qed

lemma Snapshot_SnapshotWithSequence:
  "snd (SnapshotWithSequence now s) = snd (Snapshot now s)" "fst (fst (SnapshotWithSequence now s)) = fst (Snapshot now s)"
  by (simp_all add: Snapshot_def split_beta)

lemma store_path_snapshot: "store_path s (snd (Snapshot now s))"
  using store_path_op [of "OpSnapshot now"] by simp

lemma evolves_snapshot:
  "SnapshotWithSequence now (en_store e) = (r, s) \<Longrightarrow> evolves e (e\<lparr>en_store := s\<rparr>)"
  by (metis evolves_store store_path_snapshot Snapshot_SnapshotWithSequence(1) snd_conv)

lemma evolves_step_loop:
  "step_loop fuel env now records processed e = Some (processed', err, e') \<Longrightarrow> evolves e e'"
proof (induction fuel arbitrary: records processed e)
  case (Suc fuel)
  show ?case
  proof (cases "step_once env now records e")
    case (Inl res)
    then show ?thesis using Suc.prems evolves_step_once [OF Inl, of err e'] by (auto split: prod.splits)
  next
    case (Inr e1)
    let ?e2 = "others (env_between env (length (en_renders e1))) e1"
    obtain records' sequence1 s where snap:
      "SnapshotWithSequence (env_clock env (length (en_renders ?e2))) (en_store ?e2) = ((records', sequence1), s)"
      by (metis surj_pair)
    have "step_loop fuel env now records' (sequence1, snd processed) (?e2\<lparr>en_store := s\<rparr>) = Some (processed', err, e')"
      using Suc.prems snap by (simp add: Inr Let_def)
    then show ?thesis
      using Suc.IH evolves_snapshot [OF snap] evolves_others evolves_step_once [OF Inr, of err e1] by (blast intro: evolves_trans)
  qed
qed simp

lemma evolves_engine_step:
  assumes "engine_step fuel env now e = Some (processed, err, e')"
  shows "evolves e e'"
proof -
  obtain records sequence s where snap:
    "SnapshotWithSequence (env_clock env (length (en_renders e))) (en_store e) = ((records, sequence), s)"
    by (metis surj_pair)
  define e0 where "e0 = others (env_between env (length (en_renders e))) (e\<lparr>en_store := s\<rparr>)"
  obtain changed e1 where p: "engine_pruneState records now e0 = (changed, e1)" by fastforce
  let ?e = "if changed then persistState env records e1 else e1"
  have "evolves e e0" unfolding e0_def by (rule evolves_trans [OF evolves_snapshot [OF snap] evolves_others])
  then have "evolves e e1" using evolves_trans [OF _ evolves_pruneState [of e0 records now]] p by simp
  then have "evolves e ?e" using evolves_persist by (auto intro: evolves_trans)
  moreover have "evolves ?e e'" using assms by (intro evolves_step_loop) (simp add: engine_step_def snap p e0_def [symmetric] Let_def)
  ultimately show ?thesis by (rule evolves_trans)
qed

lemma evolves_signal: "evolves e (signalLocalChange e)"
proof -
  have "store_path (en_store e) (Signal (en_store e))" using store_path_op [of OpSignal "en_store e" None] by simp
  then show ?thesis by (simp add: evolves_def agreed_def signalLocalChange_def)
qed

lemma evolves_capture: "evolves e (snd (CaptureBackPresentation e))"
  using evolves_store [OF store_path_op [of "OpReserve (bp_identity (en_claim e)) (bp_generation (en_claim e))
      (bp_revision (en_claim e))" "en_store e" None]]
  by (simp add: CaptureBackPresentation_def Let_def)

lemma evolves_consumed: "evolves e (snd (ReconcileConsumedBack p e))"
proof -
  let ?e1 = "if back_valid p
    then e\<lparr>en_store := ReleaseExactRevisionReservationWithoutSignal (bp_identity p) (bp_generation p) (bp_revision p) (en_store e)\<rparr> else e"
  have "evolves e ?e1"
    using evolves_store [OF store_path_op [of "OpRelease (bp_identity p) (bp_generation p) (bp_revision p)" "en_store e" None]]
    by simp
  moreover have "evolves ?e1 (snd (ReconcileConsumedBack p e))"
    by (rule evolves_same) (simp_all add: ReconcileConsumedBack_def Let_def forget_delivery_def)
  ultimately show ?thesis by (rule evolves_trans)
qed

lemma evolves_dismiss: "evolves e (snd (DismissForBack env clock p reason e))"
proof -
  define e1 where "e1 = e\<lparr>en_cooldownUntil := time_add (time_utc clock) defaultPresentationCooldown,
    en_cooldownReason := cooldownReason reason\<rparr>"
  define e2 where "e2 = (if back_valid p
    then e1\<lparr>en_store := snd (ExcludeExactRevisionWithoutSignal (env_generation env) (bp_identity p)
           (bp_generation p) (bp_revision p) (en_store e1))\<rparr> else e1)"
  have "evolves e e1" by (rule evolves_same) (simp_all add: e1_def)
  moreover have "evolves e1 e2"
    using evolves_store [OF store_path_op [of "OpExcludeExact (bp_identity p) (bp_generation p) (bp_revision p)" "en_store e1"
        "env_generation env"]] by (simp add: e2_def)
  moreover have "evolves e2 (e2\<lparr>en_cooldownKept := k\<rparr>)" for k by (rule evolves_same) simp_all
  ultimately have kept: "evolves e (e2\<lparr>en_cooldownKept := k\<rparr>)" for k by (blast intro: evolves_trans)
  have "snd (DismissForBack env clock p reason e) = signalLocalChange (e2\<lparr>en_cooldownKept := en_claim e2\<rparr>)
      \<or> snd (DismissForBack env clock p reason e) =
        signalLocalChange (snd (render_clear env (time_utc clock) (None, []) (e2\<lparr>en_cooldownKept := no_back\<rparr>)))"
    by (simp add: DismissForBack_def Let_def e1_def e2_def split_beta)
  then show ?thesis
    using evolves_trans [OF kept evolves_signal]
      evolves_trans [OF evolves_trans [OF kept evolves_render_clear] evolves_signal] by metis
qed

lemma bounded_tables_fit:
  assumes "alist_wf shown" "alist_wf acks" "0 < capacity"
    and "fold evict_one (chosen_victims capacity live shown acks) (shown, meta, acks) = (shown', meta', acks')"
  shows "int (length shown' + length acks') \<le> capacity"
proof -
  obtain n where n: "mset (combined_victims live shown' acks') = mset (drop n (sort_by combined_cmp (combined_victims live shown acks)))"
    "int (length shown + length acks - n) \<le> capacity"
    using kept_victims [OF assms(1,2,4)] assms(3) by blast
  from arg_cong [where f = size, OF n(1)] have "length shown' + length acks' = length shown + length acks - n"
    by (simp add: length_combined_victims)
  with n(2) show ?thesis by simp
qed

lemma evolves_snapshot_plain: "Snapshot now (en_store e) = (r, s) \<Longrightarrow> evolves e (e\<lparr>en_store := s\<rparr>)"
  by (metis evolves_store store_path_snapshot snd_conv)

lemma evolves_acknowledge: "evolves e (snd (Acknowledge env save clock i e))"
proof -
  obtain records s where snap: "Snapshot (env_clock env (length (en_renders e))) (en_store e) = (records, s)" by fastforce
  define e1 where "e1 = snd (engine_pruneState records (time_utc clock) (e\<lparr>en_store := s\<rparr>))"
  have 0: "evolves e (e\<lparr>en_store := s\<rparr>)" by (rule evolves_snapshot_plain [OF snap])
  have 1: "evolves e e1" unfolding e1_def by (rule evolves_trans [OF 0 evolves_pruneState])
  show ?thesis
  proof (cases "find (\<lambda>r. rec_ID r = i) records")
    case None
    then show ?thesis using 0 by (simp add: Acknowledge_def snap)
  next
    case (Some r)
    let ?att = "en_att e1"
    let ?acks = "AList.update i (ack_of (time_utc clock) r) (at_acknowledged ?att)"
    obtain shown meta acks where f: "fold evict_one (chosen_victims (at_capacity ?att) (live_record records) (at_LastShown ?att) ?acks)
        (at_LastShown ?att, at_lastShownState ?att, ?acks) = (shown, meta, acks)" by (metis surj_pair)
    have ok: "tables_ok (?att\<lparr>at_LastShown := shown, at_lastShownState := meta, at_acknowledged := acks, at_stats := st\<rparr>)"
      if "tables_ok ?att" for st
    proof -
      have wf: "alist_wf (at_LastShown ?att)" "alist_wf (at_lastShownState ?att)" "alist_wf ?acks" "at_capacity ?att = 2048"
        using that by (auto simp: tables_ok_def state_wf_def distinct_update)
      have "int (length shown + length acks) \<le> 2048" using bounded_tables_fit [OF wf(1,3) _ f] wf(4) by simp
      moreover have "alist_wf shown" "alist_wf meta" "alist_wf acks"
        using f wf(1-3) by (auto simp: fold_evict_one alist_wf_filter)
      ultimately show ?thesis using wf(4) by (simp add: tables_ok_def state_wf_def)
    qed
    have "evolves e1 (e1\<lparr>en_saved := x, en_att := ?att\<lparr>at_LastShown := shown, at_lastShownState := meta,
        at_acknowledged := acks, at_stats := st\<rparr>\<rparr>)" for x st
      using ok by (simp add: evolves_def agreed_def)
    note 2 = evolves_trans [OF 1 evolves_trans [OF this evolves_signal]]
    have "evolves e1 (e1\<lparr>en_saved := x\<rparr>)" for x by (rule evolves_same) simp_all
    note 3 = evolves_trans [OF 1 this]
    show ?thesis
      using 0 2 3 f
      by (simp add: Acknowledge_def snap Some Let_def split_beta boundProposedAcknowledgements_def ack_of_def [symmetric]
          e1_def [symmetric])
  qed
qed

lemma filters_fit: "length xs + length ys \<le> n \<Longrightarrow> length (filter P xs) + length (filter Q ys) \<le> n"
  by (meson add_le_mono le_trans length_filter_le)

lemma evolves_remove: "evolves e (RemoveInstance env p i through e)"
proof -
  define e1 where "e1 = e\<lparr>en_store := WithdrawInstance p i through (en_store e)\<rparr>"
  obtain e2 records s where e2: "RemoveInstance env p i through e = persistState env records (e2\<lparr>en_store := s\<rparr>)"
    "Snapshot (env_clock env (length (en_renders e2))) (en_store e2) = (records, s)"
    "en_store e2 = en_store e1" "en_sessions e2 = en_sessions e1" "en_criticalOwned e2 = en_criticalOwned e1"
    "tables_ok (en_att e1) \<Longrightarrow> tables_ok (en_att e2)"
  proof -
    let ?gone = "\<lambda>k. prefix (instance_prefix p i) k \<and> map_of (at_LastShown (en_att e)) k \<noteq> None
        \<and> (case map_of (at_lastShownState (en_att e)) k of None \<Rightarrow> True | Some m \<Rightarrow> \<not> sid_Generation (lm_identity m) > through)"
    let ?a = "(en_att e)\<lparr>at_LastShown := filter (\<lambda>(k, _). \<not> ?gone k) (at_LastShown (en_att e)),
        at_lastShownState := filter (\<lambda>(k, _). \<not> ?gone k) (at_lastShownState (en_att e)),
        at_acknowledged := filter (\<lambda>(k, a). \<not> (as_generation a \<le> through \<and> prefix (instance_prefix p i) k))
          (at_acknowledged (en_att e))\<rparr>"
    obtain records s where snap: "Snapshot (env_clock env (length (en_renders e))) (WithdrawInstance p i through (en_store e)) = (records, s)"
      by fastforce
    have "tables_ok ?a" if "tables_ok (en_att e)"
      using that by (simp add: tables_ok_def state_wf_def alist_wf_filter filters_fit)
    then show ?thesis
      by (intro that [of records s "e1\<lparr>en_att := ?a\<rparr>"]) (simp_all add: RemoveInstance_def Let_def snap e1_def)
  qed
  have "evolves e e1" unfolding e1_def
    using evolves_store [OF store_path_op [of "OpWithdrawInstance p i through" "en_store e" None]] by simp
  moreover have "evolves e1 e2" using e2 by (simp add: evolves_def agreed_def)
  ultimately show ?thesis
    unfolding e2(1) using evolves_snapshot_plain [OF e2(2)] evolves_persist by (blast intro: evolves_trans)
qed

lemma evolves_deadline: "evolves e (snd (NextDeadline env now e))"
proof -
  obtain records s where snap: "Snapshot (env_clock env (length (en_renders e))) (en_store e) = (records, s)" by fastforce
  obtain changed e1 where p: "engine_pruneState records now (e\<lparr>en_store := s\<rparr>) = (changed, e1)" by fastforce
  let ?e = "if changed then persistState env records e1 else e1"
  have "evolves e e1" using evolves_trans [OF evolves_snapshot_plain [OF snap] evolves_pruneState [of _ records now]] p by simp
  then have "evolves e ?e" using evolves_persist by (auto intro: evolves_trans)
  then have "evolves e (snd (presentationCooldownActive now ?e))" by (rule evolves_trans [OF _ evolves_cooldown])
  then show ?thesis by (cases changed) (simp_all add: NextDeadline_def snap p Let_def split_beta)
qed

subsection \<open>The system\<close>

text \<open>\<open>NewEngine\<close>: an engine on an empty store that has restored its durable state.\<close>

definition NewEngine :: "Env \<Rightarrow> gotime \<Rightarrow> state_file \<Rightarrow> StateStoreStatus \<Rightarrow> Engine" where
  "NewEngine env clock file status =
     (let e = newEngine NewStore NewSessionCoordinator;
          (changed, att) = restoreAttentionState (env_generation env) clock (fst (state_Load clock file status)) (en_att e);
          e1 = e\<lparr>en_att := att\<rparr>
      in if changed
         then (case Snapshot (env_clock env 0) (en_store e1) of
                 (records, store) \<Rightarrow> persistState env records (e1\<lparr>en_store := store\<rparr>))
         else e1)"

text \<open>Everything that others do to the engine, the store and the coordinator.\<close>

datatype system_op = SysStore "Generation option" store_op | SysSession session_op | SysCapture
  | SysConsumed BackPresentation | SysDismiss Env gotime BackPresentation string
  | SysAcknowledge Env "StateDocument \<Rightarrow> CommitOutcome \<times> bool" gotime string
  | SysWake | SysInvalidate | SysSelected Env | SysRemove Env string string u64 | SysStatus gotime
  | SysDeadline Env gotime

fun system_apply :: "system_op \<Rightarrow> Engine \<Rightarrow> Engine" where
  "system_apply (SysStore gen op) e = e\<lparr>en_store := store_apply gen op (en_store e)\<rparr>"
| "system_apply (SysSession op) e = e\<lparr>en_sessions := session_apply op (en_sessions e)\<rparr>"
| "system_apply SysCapture e = snd (CaptureBackPresentation e)"
| "system_apply (SysConsumed p) e = snd (ReconcileConsumedBack p e)"
| "system_apply (SysDismiss env clock p reason) e = snd (DismissForBack env clock p reason e)"
| "system_apply (SysAcknowledge env save clock i) e = snd (Acknowledge env save clock i e)"
| "system_apply SysWake e = Wake e"
| "system_apply SysInvalidate e = InvalidateRenderedSelection e"
| "system_apply (SysSelected env) e = snd (SelectedObservation env e)"
| "system_apply (SysRemove env p i through) e = RemoveInstance env p i through e"
| "system_apply (SysStatus clock) e = snd (PresentationCooldownStatus clock e)"
| "system_apply (SysDeadline env now) e = snd (NextDeadline env now e)"

text \<open>Only the loop drains the channel, and only the engine takes and gives back the critical foreground.\<close>

definition system_allowed :: "sessionRef list \<Rightarrow> system_op \<Rightarrow> bool" where
  "system_allowed issued op =
     (case op of SysStore gen s \<Rightarrow> s \<noteq> OpDrain
      | SysSession s \<Rightarrow> \<not> critical_op s \<and> op_allowed issued s | _ \<Rightarrow> True)"

definition system_issues :: "system_op \<Rightarrow> Engine \<Rightarrow> sessionRef list" where
  "system_issues op e = (case op of SysSession s \<Rightarrow> session_issues s (en_sessions e) | _ \<Rightarrow> [])"

definition system_inv :: "Engine \<Rightarrow> sessionRef list \<Rightarrow> bool" where
  "system_inv e issued \<longleftrightarrow> store_inv (en_store e) \<and> session_reach (en_sessions e) issued \<and> agreed e \<and> tables_ok (en_att e)"

lemma evolves_inv: "evolves e e' \<Longrightarrow> system_inv e issued \<Longrightarrow> system_inv e' issued"
  by (auto simp: evolves_def system_inv_def store_path_inv session_path_reach)

lemma evolves_status: "evolves e (snd (PresentationCooldownStatus clock e))"
  using evolves_cooldown [of e "time_utc clock"] by (cases "presentationCooldownActive (time_utc clock) e"; cases "fst (presentationCooldownActive (time_utc clock) e)")
    (simp_all add: PresentationCooldownStatus_def)

lemma evolves_selected: "evolves e (snd (SelectedObservation env e))"
  using evolves_store [OF store_path_snapshot] by (simp add: SelectedObservation_def split_beta)

lemma evolves_invalidate: "evolves e (InvalidateRenderedSelection e)"
  unfolding InvalidateRenderedSelection_def Wake_def
  by (rule evolves_trans [OF _ evolves_signal]) (simp add: evolves_same forget_delivery_def)

lemma session_op_critical:
  "\<not> critical_op op \<Longrightarrow> co_criticalIdentity (session_apply op s) = co_criticalIdentity s"
  by (cases op)
    (simp_all add: session_apply_def session_begin_def session_cancel_def session_promote_def session_detach_def
      session_clear_def PluginSessionInvalidated_def session_invalidate_def PluginSessionCompleted_def session_complete_def
      configurationChanged_def BeginExecution_def beginExecution_def recordLifecycleFallback_def PluginSessionCleanup_def
      clearForegroundLocked_def clearPendingLocked_def Let_def split_beta split: option.splits prod.splits)

lemma evolves_system_op: "system_allowed issued op \<Longrightarrow> (\<nexists>s. op = SysSession s) \<Longrightarrow> evolves e (system_apply op e)"
  by (cases op) (auto simp: system_allowed_def Wake_def evolves_capture evolves_consumed evolves_dismiss evolves_acknowledge
      evolves_signal evolves_invalidate evolves_selected evolves_remove evolves_status evolves_deadline
      intro: evolves_store store_path_op)

lemma system_op_inv:
  assumes "system_inv e issued" "system_allowed issued op"
  shows "system_inv (system_apply op e) (issued @ system_issues op e)"
proof (cases "\<exists>s. op = SysSession s")
  case True
  then obtain s where s: "op = SysSession s" "\<not> critical_op s" "op_allowed issued s"
    using assms(2) by (auto simp: system_allowed_def)
  then show ?thesis
    using assms(1) session_reach.step [of "en_sessions e" issued s] session_op_critical [of s "en_sessions e"]
    by (simp add: system_inv_def system_issues_def agreed_def criticalOwned_def)
next
  case False
  then have "system_issues op e = []" by (cases op) (auto simp: system_issues_def)
  then show ?thesis using evolves_inv [OF evolves_system_op [OF assms(2)]] False assms(1) by simp
qed

subsection \<open>Reachable states\<close>

text \<open>Steps of the engine, in which others may interfere, and operations of everyone else, in any order.\<close>

inductive system_reach :: "Engine \<Rightarrow> sessionRef list \<Rightarrow> bool" where
  start: "system_reach (NewEngine env clock file status) []"
| engine: "system_reach e issued \<Longrightarrow> engine_step fuel env now e = Some (processed, err, e') \<Longrightarrow> system_reach e' issued"
| other: "system_reach e issued \<Longrightarrow> system_allowed issued op \<Longrightarrow>
    system_reach (system_apply op e) (issued @ system_issues op e)"

lemma update_length: "length (AList.update k v m) \<le> Suc (length m)"
  by (induction m) auto

lemma restore_identity_tables:
  "restoreStateIdentity gen i t now s = (b, s') \<Longrightarrow>
     at_LastShown s' = at_LastShown s \<and> at_lastShownState s' = at_lastShownState s \<and> at_acknowledged s' = at_acknowledged s
     \<and> at_capacity s' = at_capacity s"
  by (auto simp: restoreStateIdentity_def discard_def split: if_splits option.splits)

lemma restore_last_shown_tables:
  "state_wf s \<Longrightarrow> state_wf (restore_last_shown gen now x s)"
  "length (at_LastShown (restore_last_shown gen now x s)) \<le> Suc (length (at_LastShown s))"
  "at_capacity (restore_last_shown gen now x s) = at_capacity s"
  by (auto simp: restore_last_shown_def Let_def restored_def state_wf_def distinct_update update_length le_SucI
      dest!: restore_identity_tables split: prod.splits bool.splits)

lemma restore_acknowledgement_tables:
  "state_wf s \<Longrightarrow> state_wf (restore_acknowledgement gen now x s)"
  "length (at_acknowledged (restore_acknowledgement gen now x s)) \<le> Suc (length (at_acknowledged s))"
  "at_LastShown (restore_acknowledgement gen now x s) = at_LastShown s"
  "at_capacity (restore_acknowledgement gen now x s) = at_capacity s"
  by (auto simp: restore_acknowledgement_def Let_def restored_def discard_def state_wf_def distinct_update update_length le_SucI
      dest!: restore_identity_tables split: prod.splits bool.splits)

lemma fold_restore_last_shown_tables:
  "state_wf s \<Longrightarrow> state_wf (fold (restore_last_shown gen now) es s)"
  "length (at_LastShown (fold (restore_last_shown gen now) es s)) \<le> length es + length (at_LastShown s)"
  "at_capacity (fold (restore_last_shown gen now) es s) = at_capacity s"
proof (induction es arbitrary: s)
  case (Cons x es)
  note r = restore_last_shown_tables [where gen = gen and now = now and x = x]
  { case 1 then show ?case using Cons.IH(1) r(1) by simp
  next case 2 then show ?case using Cons.IH(2) [of "restore_last_shown gen now x s"] r(2) [of s] by simp
  next case 3 then show ?case using Cons.IH(3) r(3) by simp }
qed simp_all

lemma fold_restore_acknowledgement_tables:
  "state_wf s \<Longrightarrow> state_wf (fold (restore_acknowledgement gen now) es s)"
  "length (at_acknowledged (fold (restore_acknowledgement gen now) es s)) \<le> length es + length (at_acknowledged s)"
  "at_LastShown (fold (restore_acknowledgement gen now) es s) = at_LastShown s"
  "at_capacity (fold (restore_acknowledgement gen now) es s) = at_capacity s"
proof (induction es arbitrary: s)
  case (Cons x es)
  note r = restore_acknowledgement_tables [where gen = gen and now = now and x = x]
  { case 1 then show ?case using Cons.IH(1) r(1) by simp
  next case 2 then show ?case using Cons.IH(2) [of "restore_acknowledgement gen now x s"] r(2) [of s] by simp
  next case 3 then show ?case using Cons.IH(3) r(3) by simp
  next case 4 then show ?case using Cons.IH(4) r(4) by simp }
qed simp_all

lemma loaded_entries:
  "fst (state_Load clock file status) = Some d \<Longrightarrow> length (sdoc_Acknowledgements d) + length (sdoc_LastShown d) \<le> 2048"
  by (auto simp: state_Load_def Let_def validate_None MaxStateEntries_def split: state_file.splits if_splits)

lemma restored_tables_ok:
  "tables_ok (snd (restoreAttentionState gen clock (fst (state_Load clock file status)) new_attentionState))"
proof (cases "fst (state_Load clock file status)")
  case None
  then show ?thesis by (simp add: restoreAttentionState_def tables_ok_def state_wf_def new_attentionState_def)
next
  case (Some d)
  let ?s1 = "fold (restore_last_shown gen (time_utc clock)) (sdoc_LastShown d) new_attentionState"
  let ?s2 = "fold (restore_acknowledgement gen (time_utc clock)) (sdoc_Acknowledgements d) ?s1"
  have new: "state_wf new_attentionState" "at_LastShown new_attentionState = []" "at_acknowledged new_attentionState = []"
    "at_capacity new_attentionState = 2048" by (simp_all add: state_wf_def new_attentionState_def)
  note s1 = fold_restore_last_shown_tables [where s = new_attentionState and gen = gen and now = "time_utc clock" and es = "sdoc_LastShown d"]
  note s2 = fold_restore_acknowledgement_tables [where s = ?s1 and gen = gen and now = "time_utc clock" and es = "sdoc_Acknowledgements d"]
  have "state_wf ?s2" "at_capacity ?s2 = 2048" "length (at_LastShown ?s2) + length (at_acknowledged ?s2) \<le> 2048"
    using s1 s2 new loaded_entries [OF Some] by simp_all
  then show ?thesis by (simp add: restoreAttentionState_def Some Let_def tables_ok_def)
qed

lemma NewEngine_inv: "system_inv (NewEngine env clock file status) []"
proof -
  let ?e = "newEngine NewStore NewSessionCoordinator"
  obtain changed att where r: "restoreAttentionState (env_generation env) clock (fst (state_Load clock file status))
      new_attentionState = (changed, att)" by fastforce
  have "tables_ok att" using restored_tables_ok r by (metis snd_conv)
  then have inv: "system_inv (?e\<lparr>en_att := att\<rparr>) []"
    using reachable_store_inv [of None "[]"] session_reach.start
    by (simp add: system_inv_def newEngine_def agreed_def criticalOwned_def NewSessionCoordinator_def)
  obtain records s where snap: "Snapshot (env_clock env 0) (en_store (?e\<lparr>en_att := att\<rparr>)) = (records, s)" by fastforce
  have att: "en_att ?e = new_attentionState" by (simp add: newEngine_def)
  have "NewEngine env clock file status =
    (if changed then persistState env records ((?e\<lparr>en_att := att\<rparr>)\<lparr>en_store := s\<rparr>) else ?e\<lparr>en_att := att\<rparr>)"
    unfolding NewEngine_def Let_def att r by (simp only: prod.case snap)
  then show ?thesis
    using inv evolves_inv [OF evolves_trans [OF evolves_snapshot_plain [OF snap] evolves_persist] inv] by simp
qed

lemma system_reach_inv: "system_reach e issued \<Longrightarrow> system_inv e issued"
  by (induction rule: system_reach.induct)
    (auto simp: NewEngine_inv intro: evolves_inv evolves_engine_step system_op_inv)

text \<open>(C12) The engine does not hang in a step. In every reachable state, whatever the renderer answers and whatever others
  publish, withdraw or wake meanwhile, the loop of a step ends at most 2050 rounds after the last round during which
  the store was changed by others, where every round is a call of the renderer: every round that continues has excluded a
  visible observation, and the store holds at most 2048. Only new publications can keep a step going.\<close>

theorem system_step_returns:
  assumes "system_reach e issued"
    and "\<forall>m\<ge>n. env_during env m = [] \<and> env_between env m = []" "n - length (en_renders e) + 2050 \<le> fuel"
  shows "\<exists>processed err e'. engine_step fuel env now e = Some (processed, err, e')"
proof (rule engine_step_returns [OF _ _ assms(3)])
  show "store_inv (en_store e)" using system_reach_inv [OF assms(1)] by (simp add: system_inv_def)
  show "undisturbed_from env n" using assms(2) by (simp add: undisturbed_from_def)
qed

definition first_engine :: Engine where
  "first_engine = NewEngine demo_env demo_time StateMissing fresh_status"

lemma first_reach: "system_reach first_engine []"
  by (simp add: first_engine_def system_reach.start)

text \<open>An observation is published while the engine renders for the first time.\<close>

definition busy_env :: Env where
  "busy_env = demo_env\<lparr>env_during := (\<lambda>n. if n = 0 then [OtherStore None (OpPublish demo_time demo_source demo_observation)] else [])\<rparr>"

theorem system_step_returns_witness:
  "\<exists>processed err e'. engine_step 2051 busy_env demo_time first_engine = Some (processed, err, e')"
  by (rule system_step_returns [OF first_reach, where n = 1]) (simp_all add: busy_env_def demo_env_def)

text \<open>(C3) The engine and the coordinator never disagree about the critical foreground: in every reachable
  state the engine believes it owns it if and only if the coordinator has granted it. So the two-object
  protocol neither leaks the foreground nor shows a critical presentation without it, and an atomic
  execution and the engine's ownership exclude each other.\<close>

theorem critical_ownership_agrees:
  assumes "system_reach e issued"
  shows "(en_criticalOwned e \<longleftrightarrow> criticalOwned (en_sessions e)) \<and> \<not> (en_criticalOwned e \<and> co_executing (en_sessions e))"
proof -
  have inv: "agreed e" "session_inv (en_sessions e) issued"
    using system_reach_inv [OF assms] session_reach_inv by (simp_all add: system_inv_def)
  have "co_executing (en_sessions e) \<Longrightarrow> co_criticalIdentity (en_sessions e) = ''''"
    using inv(2) unfolding session_inv_def by blast
  then show ?thesis using inv(1) by (auto simp: agreed_def criticalOwned_def)
qed

theorem critical_ownership_agrees_witness: "\<not> (en_criticalOwned first_engine \<and> co_executing (en_sessions first_engine))"
  using critical_ownership_agrees [OF first_reach] by blast

text \<open>Memory stays bounded in every reachable state: at most 2048 observations are stored, at most 512
  of one plugin, and the scheduling tables together never exceed 2048 entries, not even right after a
  restart.\<close>

theorem system_bounded:
  assumes "system_reach e issued"
  shows "length (st_records (en_store e)) \<le> 2048 \<and>
    length (filter (\<lambda>(i, r). id_PluginID i = p) (st_records (en_store e))) \<le> 512 \<and>
    length (at_LastShown (en_att e)) + length (at_acknowledged (en_att e)) \<le> 2048"
proof -
  have inv: "store_inv (en_store e)" "tables_ok (en_att e)" using system_reach_inv [OF assms] by (simp_all add: system_inv_def)
  have b: "scope_bound (\<lambda>_. True) 2048 (en_store e)"
    "scope_bound (same_plugin \<lparr>id_PluginID = p, id_InstanceID = '''', id_Channel = '''', id_Key = ''''\<rparr>) 512 (en_store e)"
    using inv(1) by (simp_all add: store_inv_def store_bounds_def globalCapacity_def pluginCapacity_def)
  have "same_plugin \<lparr>id_PluginID = p, id_InstanceID = '''', id_Channel = '''', id_Key = ''''\<rparr> = (\<lambda>i. id_PluginID i = p)"
    by (auto simp: same_plugin_def fun_eq_iff)
  with b [THEN scope_records_bound [OF inv(1)]] inv(2) show ?thesis by (simp add: tables_ok_def split_def)
qed

theorem system_bounded_witness: "length (st_records (en_store (system_apply (SysStore None
    (OpPublish demo_time demo_source demo_observation)) first_engine))) \<le> 2048"
proof -
  have "system_reach (system_apply (SysStore None (OpPublish demo_time demo_source demo_observation)) first_engine) ([] @ [])"
    using system_reach.other [OF first_reach, of "SysStore None (OpPublish demo_time demo_source demo_observation)"]
    by (simp add: system_allowed_def system_issues_def)
  from system_bounded [OF this] show ?thesis by blast
qed

subsection \<open>Critical presentations wait for atomic executions\<close>

lemma session_path_executing: "session_path s s' \<Longrightarrow> co_executing s \<Longrightarrow> co_executing s'"
proof (induction rule: rtranclp_induct)
  case (step s1 s2)
  then obtain op where op: "critical_op op \<or> (\<exists>clock p b t. op = OpFallback clock p b t)" "s2 = session_apply op s1"
    unfolding engine_session_move_def by blast
  then show ?case
    using step by (cases op) (auto simp: session_apply_def acquireCritical_def releaseCritical_def recordLifecycleFallback_def Let_def)
qed

definition ordinary_call :: "Candidate option \<times> render_result \<Rightarrow> bool" where
  "ordinary_call call = (case fst call of None \<Rightarrow> True | Some w \<Rightarrow> cd_Band w \<noteq> BandCriticalActionable)"

definition ordinary_calls :: "Engine \<Rightarrow> Engine \<Rightarrow> bool" where
  "ordinary_calls e e' \<longleftrightarrow> (\<exists>calls. en_renders e' = en_renders e @ calls \<and> list_all ordinary_call calls)"

lemma ordinary_same: "en_renders e' = en_renders e \<Longrightarrow> ordinary_calls e e'"
  by (auto simp: ordinary_calls_def intro: exI [where x = "[]"])

lemma ordinary_single: "en_renders e' = en_renders e @ [call] \<Longrightarrow> ordinary_call call \<Longrightarrow> ordinary_calls e e'"
  by (auto simp: ordinary_calls_def intro: exI [where x = "[call]"])

lemma ordinary_trans: "ordinary_calls e e1 \<Longrightarrow> ordinary_calls e1 e2 \<Longrightarrow> ordinary_calls e e2"
  by (auto simp: ordinary_calls_def)

lemma ordinary_clear: "ordinary_calls e (snd (render_clear env now d (snd (presentationCooldownActive now e))))"
  using render_clear_effect(1) [OF prod.collapse [symmetric], of env now d "snd (presentationCooldownActive now e)"]
  by (intro ordinary_single) (auto simp: engine_frame ordinary_call_def)

lemma step_once_ordinary:
  assumes "step_once env now records e = out" "out = Inl (err, e') \<or> out = Inr e'" "co_executing (en_sessions e)"
  shows "ordinary_calls e e'"
proof (cases "fst (attention_Select records (resolveRecord env e) (en_history e) now)")
  case None
  let ?d = "attention_Select records (resolveRecord env e) (en_history e) now"
  let ?c = "snd (presentationCooldownActive now e)"
  have "e' = engine_record now ?d OutcomeUnchanged ?c \<or> e' = snd (render_clear env now ?d ?c)"
    using step_once_none [OF None] assms(1,2) by (auto simp: prod_eq_iff)
  then show ?thesis
  proof
    assume "e' = engine_record now ?d OutcomeUnchanged ?c"
    then show ?thesis by (intro ordinary_same) (simp add: engine_frame)
  qed (simp only: ordinary_clear)
next
  case (Some w)
  show ?thesis
    using Some assms(1)
  proof (cases rule: step_once_winner)
    case (unchanged e1)
    then show ?thesis using assms(2) by (auto intro!: ordinary_same simp: engine_frame)
  next
    case cleared
    then show ?thesis using assms(2) ordinary_clear by (metis Inl_Inr_False Inl_inject snd_conv)
  next
    case (rendered e1)
    have "\<not> fst (engine_acquireCritical env w (snd (presentationCooldownActive now e)))"
      using assms(3) acquire_sessions(2) by (simp add: engine_acquireCritical_def split_beta engine_frame)
    then have "cd_Band w \<noteq> BandCriticalActionable" "en_renders e1 = en_renders e"
      using rendered(3) by (auto simp: engine_frame)
    moreover have "en_renders e' = en_renders e1 @ [(Some w, env_render env (length (en_renders e1)) (Some w))]"
      using rendered(1) assms(2) render_winner_effect(1) render_winner_continue(4) by metis
    ultimately show ?thesis by (auto intro!: ordinary_single simp: ordinary_call_def)
  qed
qed

lemma step_loop_ordinary:
  "step_loop fuel env now records processed e = Some (processed', err, e') \<Longrightarrow> co_executing (en_sessions e) \<Longrightarrow> ordinary_calls e e'"
proof (induction fuel arbitrary: records processed e)
  case (Suc fuel)
  show ?case
  proof (cases "step_once env now records e")
    case (Inl res)
    then show ?thesis using Suc.prems step_once_ordinary [OF Inl, of err e'] by (auto split: prod.splits)
  next
    case (Inr e1)
    let ?e2 = "others (env_between env (length (en_renders e1))) e1"
    obtain records' sequence1 s where snap:
      "SnapshotWithSequence (env_clock env (length (en_renders ?e2))) (en_store ?e2) = ((records', sequence1), s)"
      by (metis surj_pair)
    have "co_executing (en_sessions e1)"
      using evolves_step_once [OF Inr, of err e1] Suc.prems(2) session_path_executing by (auto simp: evolves_def)
    moreover have "step_loop fuel env now records' (sequence1, snd processed) (?e2\<lparr>en_store := s\<rparr>) = Some (processed', err, e')"
      using Suc.prems snap by (simp add: Inr Let_def)
    ultimately have "ordinary_calls (?e2\<lparr>en_store := s\<rparr>) e'" using Suc.IH by simp
    then have "ordinary_calls e1 e'" by (simp add: ordinary_calls_def)
    then show ?thesis
      using step_once_ordinary [OF Inr, of err e1] Suc.prems(2) by (blast intro: ordinary_trans)
  qed
qed simp

text \<open>(C35) While a plugin executes atomically, the engine presents nothing critical, whatever the resolver
  says and however many rounds the step takes: every call of the renderer clears the display or shows a
  candidate of a lower band, and the execution is still in place after the step.\<close>

theorem critical_waits_for_execution:
  assumes "engine_step fuel env now e = Some (processed, err, e')" "co_executing (en_sessions e)"
  shows "co_executing (en_sessions e') \<and> (\<exists>calls. en_renders e' = en_renders e @ calls \<and>
    list_all (\<lambda>(c, result). case c of None \<Rightarrow> True | Some w \<Rightarrow> cd_Band w \<noteq> BandCriticalActionable) calls)"
proof -
  obtain records sequence s where snap:
    "SnapshotWithSequence (env_clock env (length (en_renders e))) (en_store e) = ((records, sequence), s)"
    by (metis surj_pair)
  obtain e1 where e1: "engine_step fuel env now e = step_loop fuel env now records (sequence, en_localSequence e1) e1"
    "en_renders e1 = en_renders e" "en_sessions e1 = en_sessions e"
    using engine_step_loop [OF snap] by metis
  have "ordinary_calls e1 e'" using assms e1 by (intro step_loop_ordinary) simp_all
  then have "ordinary_calls e e'" by (simp add: ordinary_calls_def e1(2))
  moreover have "co_executing (en_sessions e')"
    using evolves_engine_step [OF assms(1)] assms(2) session_path_executing by (auto simp: evolves_def)
  ultimately show ?thesis by (simp add: ordinary_calls_def ordinary_call_def [abs_def] split_def)
qed

theorem critical_waits_for_execution_witness:
  "\<exists>processed err e'. engine_step 2050 demo_env demo_time
      (demo_engine\<lparr>en_sessions := NewSessionCoordinator\<lparr>co_executing := True\<rparr>\<rparr>) = Some (processed, err, e')
    \<and> co_executing (en_sessions e')"
proof -
  let ?e = "demo_engine\<lparr>en_sessions := NewSessionCoordinator\<lparr>co_executing := True\<rparr>\<rparr>"
  have "\<exists>processed err e'. engine_step 2050 demo_env demo_time ?e = Some (processed, err, e')"
    using demo_published_inv by (intro engine_step_returns [OF _ demo_undisturbed [of 0]]) (simp_all add: demo_engine_def newEngine_def)
  then obtain processed err e' where s: "engine_step 2050 demo_env demo_time ?e = Some (processed, err, e')" by blast
  then show ?thesis using critical_waits_for_execution [OF s] by auto
qed

subsection \<open>The loop\<close>

text \<open>
  \<open>Run\<close>: the state of the loop is the engine, the sequences that the last step processed, when to retry,
  the deadline of the timer, and where the loop is: about to arm the timer, waiting, at the two readings that follow a
  receive, or about to take a step. Others act between any two of these. The delay of a retry is a parameter.
\<close>

datatype run_phase = Arming | Waiting | CheckingStore | CheckingLocal | Stepping

record Runner =
  rn_engine :: Engine
  rn_store :: u64
  rn_local :: u64
  rn_retryAt :: gotime
  rn_deadline :: gotime
  rn_phase :: run_phase

text \<open>A step and what the loop remembers of it; \<open>again\<close> says whether the error asks for another attempt.\<close>

definition run_step :: "(engine_error \<Rightarrow> bool) \<Rightarrow> int \<Rightarrow> nat \<Rightarrow> Env \<Rightarrow> gotime \<Rightarrow> gotime \<Rightarrow> Engine \<Rightarrow> Runner option" where
  "run_step again delay fuel env now after e =
     (case engine_step fuel env now e of None \<Rightarrow> None
      | Some (processed, err, e') \<Rightarrow>
          Some \<lparr>rn_engine = e', rn_store = fst processed, rn_local = snd processed,
            rn_retryAt = (case err of None \<Rightarrow> zero_time | Some x \<Rightarrow> if again x then time_add after delay else zero_time),
            rn_deadline = zero_time, rn_phase = Arming\<rparr>)"

text \<open>The first step of the loop retries after every error, the later ones not after a cancellation.\<close>

definition run_first :: "int \<Rightarrow> nat \<Rightarrow> Env \<Rightarrow> gotime \<Rightarrow> gotime \<Rightarrow> Engine \<Rightarrow> Runner option" where
  "run_first = run_step (\<lambda>_. True)"

definition run_next :: "int \<Rightarrow> nat \<Rightarrow> Env \<Rightarrow> gotime \<Rightarrow> gotime \<Rightarrow> Engine \<Rightarrow> Runner option" where
  "run_next = run_step (\<lambda>x. x \<noteq> RenderFailed ErrCanceled)"

text \<open>Arming the timer.\<close>

definition run_arm :: "Env \<Rightarrow> gotime \<Rightarrow> Runner \<Rightarrow> Runner" where
  "run_arm env now rn =
     (case NextDeadline env now (rn_engine rn) of (t, e) \<Rightarrow>
        rn\<lparr>rn_engine := e, rn_phase := Waiting,
           rn_deadline := (if \<not> is_zero_time (rn_retryAt rn) \<and> (is_zero_time t \<or> time_before (rn_retryAt rn) t)
             then rn_retryAt rn else t)\<rparr>)"

text \<open>Receiving from the channel, the reading of the store's sequence, and that of the engine's own with the deadline.\<close>

definition run_receive :: "Runner \<Rightarrow> Runner" where
  "run_receive rn = rn\<lparr>rn_engine := (rn_engine rn)\<lparr>en_store := Drain (en_store (rn_engine rn))\<rparr>, rn_phase := CheckingStore\<rparr>"

definition run_check_store :: "Runner \<Rightarrow> Runner" where
  "run_check_store rn =
     rn\<lparr>rn_phase := (if st_sequence (en_store (rn_engine rn)) > rn_store rn then Stepping else CheckingLocal)\<rparr>"

definition run_check_local :: "gotime \<Rightarrow> Runner \<Rightarrow> Runner" where
  "run_check_local clock rn =
     rn\<lparr>rn_phase := (if en_localSequence (rn_engine rn) > rn_local rn
         \<or> (\<not> is_zero_time (rn_deadline rn) \<and> \<not> time_after (rn_deadline rn) clock) then Stepping else Arming)\<rparr>"

text \<open>The loop among the operations of everyone else. The two counters are assumed not to wrap around.\<close>

definition counters_kept :: "Runner \<Rightarrow> bool" where
  "counters_kept rn \<longleftrightarrow> rn_store rn \<le> st_sequence (en_store (rn_engine rn)) \<and> rn_local rn \<le> en_localSequence (rn_engine rn)"

inductive run_reach :: "int \<Rightarrow> Runner \<Rightarrow> sessionRef list \<Rightarrow> bool" for delay where
  first: "system_reach e issued \<Longrightarrow> run_first delay fuel env now after e = Some rn \<Longrightarrow> counters_kept rn \<Longrightarrow> run_reach delay rn issued"
| other: "run_reach delay rn issued \<Longrightarrow> system_allowed issued op \<Longrightarrow> e' = system_apply op (rn_engine rn) \<Longrightarrow>
    counters_kept (rn\<lparr>rn_engine := e'\<rparr>) \<Longrightarrow> run_reach delay (rn\<lparr>rn_engine := e'\<rparr>) (issued @ system_issues op (rn_engine rn))"
| arm: "run_reach delay rn issued \<Longrightarrow> rn_phase rn = Arming \<Longrightarrow> counters_kept (run_arm env now rn) \<Longrightarrow>
    run_reach delay (run_arm env now rn) issued"
| receive: "run_reach delay rn issued \<Longrightarrow> rn_phase rn = Waiting \<Longrightarrow> st_changes (en_store (rn_engine rn)) \<Longrightarrow>
    run_reach delay (run_receive rn) issued"
| check_store: "run_reach delay rn issued \<Longrightarrow> rn_phase rn = CheckingStore \<Longrightarrow> run_reach delay (run_check_store rn) issued"
| check_local: "run_reach delay rn issued \<Longrightarrow> rn_phase rn = CheckingLocal \<Longrightarrow> run_reach delay (run_check_local clock rn) issued"
| timer: "run_reach delay rn issued \<Longrightarrow> rn_phase rn = Waiting \<Longrightarrow> \<not> is_zero_time (rn_deadline rn) \<Longrightarrow>
    \<not> time_after (rn_deadline rn) clock \<Longrightarrow> run_reach delay (rn\<lparr>rn_phase := Stepping\<rparr>) issued"
| step: "run_reach delay rn issued \<Longrightarrow> rn_phase rn = Stepping \<Longrightarrow> run_next delay fuel env now after (rn_engine rn) = Some rn' \<Longrightarrow>
    counters_kept rn' \<Longrightarrow> run_reach delay rn' issued"

text \<open>What changes the store's sequence or the engine's own leaves a signal in the channel.\<close>

definition signalled :: "Engine \<Rightarrow> Engine \<Rightarrow> bool" where
  "signalled e e' \<longleftrightarrow> st_changes (en_store e') \<or>
     (\<not> st_changes (en_store e) \<and> st_sequence (en_store e') = st_sequence (en_store e) \<and> en_localSequence e' = en_localSequence e)"

lemma prune_signals:
  "st_changes (notify_if (fst (prune_counted now s)) (snd (prune_counted now s))) \<or>
     (\<not> st_changes s \<and> st_sequence (snd (prune_counted now s)) = st_sequence s)"
  by (auto simp: prune_counted_def pruneLocked_def Let_def notify_if_def notify_def)

lemma Publish_signals:
  "st_changes (snd (Publish gen now src v s)) \<or> (\<not> st_changes s \<and> st_sequence (snd (Publish gen now src v s)) = st_sequence s)"
  using prune_signals [of now s]
  unfolding Publish_def Let_def split_beta
  by (simp add: notify_changes split del: if_split split: if_splits)

lemma store_op_signals:
  assumes "op \<noteq> OpDrain"
  shows "st_changes (store_apply gen op s) \<or> (\<not> st_changes s \<and> st_sequence (store_apply gen op s) = st_sequence s)"
  using assms
  by (cases op) (use Publish_signals in \<open>auto simp: Withdraw_def WithdrawInstance_def WithdrawGeneration_def notify_if_def notify_def Signal_def
      prune_counted_def pruneLocked_def
      ExcludeRevisionWithoutSignal_def ReserveExactRevisionWithoutSignal_def excludeThroughLocked_def Let_def split_beta
      ReleaseExactRevisionReservationWithoutSignal_def Diagnostics_def
      ExcludeExactRevisionWithoutSignal_def split: if_splits option.splits\<close>)

lemma store_path_signals:
  "store_path s s' \<Longrightarrow> st_changes s' \<or> (\<not> st_changes s \<and> st_sequence s' = st_sequence s)"
  by (induction rule: rtranclp_induct) (auto simp: store_move_def dest: store_op_signals)

lemma evolves_signalled:
  "evolves e e' \<Longrightarrow> en_localSequence e' = en_localSequence e \<or> st_changes (en_store e') \<Longrightarrow> signalled e e'"
  unfolding evolves_def signalled_def using store_path_signals by blast

lemma signalled_refl [simp]: "signalled e e"
  by (simp add: signalled_def)

lemma signalled_trans [trans]: "signalled e e1 \<Longrightarrow> signalled e1 e2 \<Longrightarrow> signalled e e2"
  by (auto simp: signalled_def)

lemma other_signalled: "signalled e (other_apply op e)"
proof (cases op)
  case (OtherStore gen x)
  then have "x \<noteq> OpDrain \<Longrightarrow> other_apply op e = e\<lparr>en_store := store_apply gen x (en_store e)\<rparr>" by (cases x) auto
  then show ?thesis using OtherStore store_op_signals [of x gen "en_store e"] by (cases "x = OpDrain") (auto simp: signalled_def)
next
  case OtherWake
  then show ?thesis by (simp add: signalled_def signalLocalChange_def Signal_def notify_changes)
qed

lemma others_signalled: "signalled e (others ops e)"
proof (induction ops arbitrary: e)
  case (Cons op ops)
  then show ?case using signalled_trans [OF other_signalled [of e op]] by (simp add: others_def)
qed simp

text \<open>What a step does itself leaves the sequences and the channel alone, up to the snapshots.\<close>

lemma frame_sequences [simp]:
  "en_localSequence (snd (presentationCooldownActive now e)) = en_localSequence e"
  "en_localSequence (snd (engine_acquireCritical env c e)) = en_localSequence e"
  "en_localSequence (engine_record now d outcome e) = en_localSequence e"
  "en_localSequence (persistState env records e) = en_localSequence e"
  "en_localSequence (snd (engine_pruneState records now e)) = en_localSequence e"
  "en_localSequence (engine_releaseCritical e) = en_localSequence e"
  "en_localSequence (clearRenderedSelection e) = en_localSequence e"
  "en_localSequence (delivered env now records w e) = en_localSequence e"
  by (simp_all add: presentationCooldownActive_def engine_acquireCritical_def engine_record_def persistState_def
      engine_pruneState_def clearRenderedSelection_def forget_delivery_def engine_releaseCritical_def delivered_def Let_def
      split_beta)

lemma exclude_sequence [simp]:
  "st_sequence (snd (ExcludeRevisionWithoutSignal i g rv s)) = st_sequence s" "st_changes (snd (ExcludeRevisionWithoutSignal i g rv s)) = st_changes s"
  by (simp_all add: ExcludeRevisionWithoutSignal_def excludeThroughLocked_def Let_def)

definition same_sequences :: "Engine \<Rightarrow> Engine \<Rightarrow> bool" where
  "same_sequences e e' \<longleftrightarrow> st_sequence (en_store e') = st_sequence (en_store e) \<and> st_changes (en_store e') = st_changes (en_store e) \<and>
     en_localSequence e' = en_localSequence e"

lemma same_signalled: "same_sequences e e' \<Longrightarrow> signalled e e'"
  by (auto simp: same_sequences_def signalled_def)

lemma render_clear_sequences: "same_sequences e (snd (render_clear env now d e))"
  by (auto simp: same_sequences_def render_clear_def engine_render_def Let_def engine_frame split: option.splits)

lemma render_winner_signalled:
  assumes "render_winner env now records d w e = Inl (err, e') \<or> render_winner env now records d w e = Inr e'"
  shows "signalled e e'"
proof -
  define e0 where "e0 = snd (engine_render env (Some w) e)"
  define e1 where "e1 = others (env_during env (length (en_renders e))) e0"
  have "same_sequences e1 e'"
    using assms by (auto simp: same_sequences_def render_winner_def Let_def engine_frame delivered_frame e1_def e0_def split_beta
        split: if_splits option.splits)
  moreover have "same_sequences e e0" by (simp add: same_sequences_def e0_def engine_render_def Let_def)
  ultimately show ?thesis using others_signalled [of e0 "env_during env (length (en_renders e))"]
    by (auto simp: e1_def [symmetric] dest!: same_signalled intro: signalled_trans)
qed

lemma step_once_signalled:
  assumes "step_once env now records e = out" "out = Inl (err, e') \<or> out = Inr e'"
  shows "signalled e e'"
proof (cases "fst (attention_Select records (resolveRecord env e) (en_history e) now)")
  case None
  let ?d = "attention_Select records (resolveRecord env e) (en_history e) now"
  let ?c = "snd (presentationCooldownActive now e)"
  have "e' = engine_record now ?d OutcomeUnchanged ?c \<or> e' = snd (render_clear env now ?d ?c)"
    using step_once_none [OF None] assms by (auto simp: prod_eq_iff)
  then show ?thesis
    using render_clear_sequences [of ?c env now ?d] by (intro same_signalled) (auto simp: same_sequences_def engine_frame)
next
  case (Some w)
  show ?thesis
    using Some assms(1)
  proof (cases rule: step_once_winner)
    case (unchanged e1)
    then show ?thesis using assms(2) by (intro same_signalled) (auto simp: same_sequences_def engine_frame)
  next
    case cleared
    then show ?thesis
      using assms(2) render_clear_sequences [of "snd (presentationCooldownActive now e)" env now
          "attention_Select records (resolveRecord env e) (en_history e) now"]
      by (intro same_signalled) (auto simp: same_sequences_def engine_frame)
  next
    case (rendered e1)
    then have "same_sequences e e1" by (auto simp: same_sequences_def engine_frame)
    moreover have "signalled e1 e'" using rendered(1) assms(2) render_winner_signalled by metis
    ultimately show ?thesis using same_signalled signalled_trans by blast
  qed
qed

text \<open>The sequences that a step reports are current, or a signal is in the channel.\<close>

definition seen :: "evaluationSequence \<Rightarrow> Engine \<Rightarrow> bool" where
  "seen processed e \<longleftrightarrow>
     st_changes (en_store e) \<or> fst processed = st_sequence (en_store e) \<and> snd processed = en_localSequence e"

lemma seen_signalled: "seen processed e \<Longrightarrow> signalled e e' \<Longrightarrow> seen processed e'"
  by (auto simp: seen_def signalled_def)

lemma snapshot_sequence: "SnapshotWithSequence now s = ((records, sequence), s') \<Longrightarrow> st_sequence s' = sequence"
  by (auto simp: SnapshotWithSequence_def Let_def split_beta notify_if_def notify_def)

lemma snapshot_path: "SnapshotWithSequence now s = ((records, sequence), s') \<Longrightarrow> store_path s s'"
  by (metis store_path_snapshot Snapshot_SnapshotWithSequence(1) snd_conv)

text \<open>
  A step ends with a decision on the snapshot whose sequence it reports. The snapshot has everything from before the step,
  and what came after it is in the channel.
\<close>

definition decided :: "Env \<Rightarrow> gotime \<Rightarrow> Store \<Rightarrow> evaluationSequence \<Rightarrow> Engine \<Rightarrow> bool" where
  "decided env now start processed e' \<longleftrightarrow>
     (\<exists>clock s records s' e err. store_path start s \<and> SnapshotWithSequence clock s = ((records, fst processed), s') \<and>
        store_path s' (en_store e) \<and> seen processed e \<and> step_once env now records e = Inl (err, e'))"

lemma step_loop_decided:
  assumes "step_loop fuel env now records processed e = Some (processed', err, e')"
    and "store_path start s" "SnapshotWithSequence clock s = ((records, fst processed), s')" "store_path s' (en_store e)" "seen processed e"
  shows "decided env now start processed' e'"
  using assms
proof (induction fuel arbitrary: records processed e clock s s')
  case (Suc fuel)
  show ?case
  proof (cases "step_once env now records e")
    case (Inl res)
    then have "processed' = processed" "step_once env now records e = Inl (err, e')" using Suc.prems(1) by (auto split: prod.splits)
    then show ?thesis unfolding decided_def using Suc.prems(2-5) by blast
  next
    case (Inr e1)
    define e2 where "e2 = others (env_between env (length (en_renders e1))) e1"
    obtain records2 sequence2 s2 where snap:
      "SnapshotWithSequence (env_clock env (length (en_renders e2))) (en_store e2) = ((records2, sequence2), s2)"
      by (metis surj_pair)
    have loop: "step_loop fuel env now records2 (sequence2, snd processed) (e2\<lparr>en_store := s2\<rparr>) = Some (processed', err, e')"
      using Suc.prems(1) snap by (simp add: Inr Let_def e2_def)
    have "evolves e e2" unfolding e2_def
      by (rule evolves_trans [OF evolves_step_once [OF Inr, of err e1] evolves_others]) simp
    then have path: "store_path start (en_store e2)"
      using Suc.prems(2,4) snapshot_path [OF Suc.prems(3)] by (auto simp: evolves_def)
    have "seen processed e2" unfolding e2_def
      by (rule seen_signalled [OF seen_signalled [OF Suc.prems(5) step_once_signalled [OF Inr, of err e1]] others_signalled]) simp
    then have now_seen: "seen (sequence2, snd processed) (e2\<lparr>en_store := s2\<rparr>)"
      using store_path_signals [OF snapshot_path [OF snap]] snapshot_sequence [OF snap] by (auto simp: seen_def)
    have snap': "SnapshotWithSequence (env_clock env (length (en_renders e2))) (en_store e2)
        = ((records2, fst (sequence2, snd processed)), s2)" by (simp add: snap)
    have here: "store_path s2 (en_store (e2\<lparr>en_store := s2\<rparr>))" by simp
    show ?thesis by (rule Suc.IH [OF loop path snap' here now_seen])
  qed
qed simp

lemma engine_step_decided:
  assumes "engine_step fuel env now e = Some (processed, err, e')"
  shows "decided env now (en_store e) processed e'"
proof -
  obtain records sequence s where snap:
    "SnapshotWithSequence (env_clock env (length (en_renders e))) (en_store e) = ((records, sequence), s)"
    by (metis surj_pair)
  obtain e1 where e1: "engine_step fuel env now e = step_loop fuel env now records (sequence, en_localSequence e1) e1"
    "en_store e1 = other_store (env_between env (length (en_renders e))) s"
    using engine_step_loop [OF snap] by metis
  have path: "store_path s (en_store e1)" unfolding e1(2) by (rule store_path_others)
  then have "seen (sequence, en_localSequence e1) e1"
    using store_path_signals [OF path] snapshot_sequence [OF snap] by (auto simp: seen_def)
  moreover have "step_loop fuel env now records (sequence, en_localSequence e1) e1 = Some (processed, err, e')" using assms e1(1) by simp
  moreover have "store_path (en_store e) (en_store e)"
    "SnapshotWithSequence (env_clock env (length (en_renders e))) (en_store e) = ((records, fst (sequence, en_localSequence e1)), s)"
    by (simp_all add: snap)
  ultimately show ?thesis using step_loop_decided path by blast
qed

lemma decided_seen: "decided env now start processed e' \<Longrightarrow> seen processed e'"
  unfolding decided_def using seen_signalled step_once_signalled by blast

subsection \<open>No lost wake-up\<close>

definition run_inv :: "Runner \<Rightarrow> bool" where
  "run_inv rn \<longleftrightarrow>
     counters_kept rn \<and>
     (\<not> st_changes (en_store (rn_engine rn)) \<longrightarrow>
        (rn_phase rn \<in> {Arming, Waiting, CheckingLocal} \<longrightarrow> rn_store rn = st_sequence (en_store (rn_engine rn))) \<and>
        (rn_phase rn \<in> {Arming, Waiting} \<longrightarrow> rn_local rn = en_localSequence (rn_engine rn))) \<and>
     (rn_phase rn = Waiting \<and> \<not> is_zero_time (rn_retryAt rn) \<longrightarrow>
        \<not> is_zero_time (rn_deadline rn) \<and> instant (rn_deadline rn) \<le> instant (rn_retryAt rn))"

lemma run_step_inv: "run_step again delay fuel env now after e = Some rn \<Longrightarrow> counters_kept rn \<Longrightarrow> run_inv rn"
  by (auto simp: run_step_def run_inv_def seen_def dest!: engine_step_decided [THEN decided_seen] split: option.splits)

lemma run_inv_signalled:
  assumes "run_inv rn" "signalled (rn_engine rn) e'" "counters_kept (rn\<lparr>rn_engine := e'\<rparr>)"
  shows "run_inv (rn\<lparr>rn_engine := e'\<rparr>)"
  using assms by (auto simp: run_inv_def signalled_def)

lemma system_op_local: "en_localSequence (system_apply op e) = en_localSequence e \<or> st_changes (en_store (system_apply op e))"
proof (cases op)
  case (SysAcknowledge env save clock i)
  then show ?thesis
    by (auto simp: Acknowledge_def Let_def split_beta signalLocalChange_def Signal_def notify_changes split: option.splits)
next
  case (SysStatus clock)
  then show ?thesis
    by (auto simp: PresentationCooldownStatus_def presentationCooldownActive_def)
qed (auto simp: CaptureBackPresentation_def ReconcileConsumedBack_def forget_delivery_def DismissForBack_def Wake_def
      InvalidateRenderedSelection_def SelectedObservation_def RemoveInstance_def NextDeadline_def signalLocalChange_def
      Signal_def notify_changes Let_def split_beta)

lemma system_op_signalled:
  assumes "system_allowed issued op"
  shows "signalled e (system_apply op e)"
proof (cases "\<exists>s. op = SysSession s")
  case True
  then show ?thesis by (auto simp: signalled_def)
next
  case False
  then show ?thesis using evolves_signalled [OF evolves_system_op [OF assms] system_op_local] by blast
qed

lemma deadline_local: "en_localSequence (snd (NextDeadline env now e)) = en_localSequence e"
  by (simp add: NextDeadline_def Let_def split_beta)

lemma arm_signalled: "signalled e (snd (NextDeadline env now e))"
  by (rule evolves_signalled [OF evolves_deadline]) (simp add: deadline_local)

lemma run_arm_inv:
  assumes "run_inv rn" "rn_phase rn = Arming" "counters_kept (run_arm env now rn)"
  shows "run_inv (run_arm env now rn)"
proof -
  obtain t e where d: "NextDeadline env now (rn_engine rn) = (t, e)" by fastforce
  have "run_inv (rn\<lparr>rn_engine := e\<rparr>)"
    using run_inv_signalled [OF assms(1), of e] arm_signalled [of "rn_engine rn" env now] assms(3)
    by (simp add: run_arm_def d counters_kept_def)
  then show ?thesis using assms(2) by (auto simp: run_arm_def d run_inv_def counters_kept_def time_before_def split: if_splits)
qed

lemma run_reach_inv: "run_reach delay rn issued \<Longrightarrow> run_inv rn"
proof (induction rule: run_reach.induct)
  case (other rn issued op e')
  then show ?case using system_op_signalled by (blast intro: run_inv_signalled)
next
  case (arm rn issued env now)
  then show ?case by (blast intro: run_arm_inv)
next
  case (receive rn issued)
  then show ?case by (auto simp: run_inv_def run_receive_def counters_kept_def Drain_def)
next
  case (check_store rn issued)
  then show ?case by (auto simp: run_inv_def run_check_store_def counters_kept_def)
next
  case (check_local rn issued clock)
  then show ?case by (auto simp: run_inv_def run_check_local_def counters_kept_def)
next
  case (timer rn issued clock)
  then show ?case by (auto simp: run_inv_def counters_kept_def)
qed (auto simp: run_first_def run_next_def intro: run_step_inv)

lemma run_step_engine:
  assumes "run_step again delay fuel env now after e = Some rn"
  obtains err where "engine_step fuel env now e = Some ((rn_store rn, rn_local rn), err, rn_engine rn)"
  using assms by (auto simp: run_step_def split: option.splits)

text \<open>(C31) No wake-up is lost. While others publish, withdraw, acknowledge, press Back and change sessions at any time,
  also during a step, between receiving a signal and the two readings that follow, and between these: if the store or the
  engine has changed since the sequences that the last step has processed, a signal is in the channel when the loop waits
  or is about to; a loop that has received it goes on to a step at one of its two readings, or the change came after the
  first reading and is signalled again; and a step ends with a decision made on the snapshot whose sequence it remembers, which has
  everything from before the step, and leaves a signal for every change that came after it. The counters do not wrap around.\<close>

theorem no_lost_wakeup:
  assumes "run_reach delay rn issued"
    and "st_sequence (en_store (rn_engine rn)) \<noteq> rn_store rn \<or> en_localSequence (rn_engine rn) \<noteq> rn_local rn"
  shows "(rn_phase rn \<in> {Arming, Waiting} \<longrightarrow> st_changes (en_store (rn_engine rn))) \<and>
    (rn_phase rn = CheckingStore \<longrightarrow>
       rn_phase (run_check_store rn) = Stepping \<or> rn_phase (run_check_local clock (run_check_store rn)) = Stepping) \<and>
    (rn_phase rn = CheckingLocal \<longrightarrow> rn_phase (run_check_local clock rn) = Stepping \<or> st_changes (en_store (rn_engine rn))) \<and>
    (\<forall>fuel env now after rn'. run_next delay fuel env now after (rn_engine rn) = Some rn' \<longrightarrow>
       (st_changes (en_store (rn_engine rn')) \<or>
          rn_store rn' = st_sequence (en_store (rn_engine rn')) \<and> rn_local rn' = en_localSequence (rn_engine rn')) \<and>
       (\<exists>clock s records s' e err. store_path (en_store (rn_engine rn)) s \<and>
          SnapshotWithSequence clock s = ((records, rn_store rn'), s') \<and> store_path s' (en_store e) \<and>
          (st_changes (en_store e) \<or> rn_store rn' = st_sequence (en_store e) \<and> rn_local rn' = en_localSequence e) \<and>
          step_once env now records e = Inl (err, rn_engine rn')))"
proof -
  have inv: "run_inv rn" by (rule run_reach_inv [OF assms(1)])
  have "decided env now (en_store (rn_engine rn)) (rn_store rn', rn_local rn') (rn_engine rn')"
    if "run_next delay fuel env now after (rn_engine rn) = Some rn'" for fuel env now after rn'
    using that unfolding run_next_def by (rule run_step_engine) (rule engine_step_decided)
  note step = this decided_seen [OF this]
  have "rn_phase rn \<in> {Arming, Waiting} \<Longrightarrow> st_changes (en_store (rn_engine rn))"
    using inv assms(2) by (auto simp: run_inv_def)
  moreover have "rn_phase (run_check_store rn) = Stepping \<or> rn_phase (run_check_local clock (run_check_store rn)) = Stepping"
    using inv assms(2) by (auto simp: run_inv_def counters_kept_def run_check_store_def run_check_local_def order_less_le)
  moreover have "rn_phase rn = CheckingLocal \<Longrightarrow> rn_phase (run_check_local clock rn) = Stepping \<or> st_changes (en_store (rn_engine rn))"
    using inv assms(2) by (auto simp: run_inv_def counters_kept_def run_check_local_def order_less_le)
  ultimately show ?thesis
    using step unfolding decided_def seen_def fst_conv snd_conv by blast
qed

text \<open>A failed delivery is retried. After a step that failed, as long as the loop waits, its timer is
  set to the time of the retry or earlier; once that time has come the loop goes on to a step.\<close>

theorem failed_step_retried:
  assumes "run_reach delay rn issued" "rn_phase rn = Waiting" "\<not> is_zero_time (rn_retryAt rn)"
    and "instant (rn_retryAt rn) \<le> instant clock"
  shows "\<not> is_zero_time (rn_deadline rn) \<and> \<not> time_after (rn_deadline rn) clock \<and> run_reach delay (rn\<lparr>rn_phase := Stepping\<rparr>) issued"
proof -
  have "\<not> is_zero_time (rn_deadline rn)" "instant (rn_deadline rn) \<le> instant (rn_retryAt rn)"
    using run_reach_inv [OF assms(1)] assms(2,3) by (auto simp: run_inv_def)
  then have d: "\<not> is_zero_time (rn_deadline rn)" "\<not> time_after (rn_deadline rn) clock"
    using assms(4) by (auto simp: time_after_def)
  then show ?thesis using run_reach.timer [OF assms(1,2) d] by blast
qed

subsection \<open>Witnesses of the properties of the loop\<close>

definition idle_engine :: Engine where
  "idle_engine = engine_record demo_time (None, []) OutcomeUnchanged (newEngine NewStore NewSessionCoordinator)"

definition idle_runner :: Runner where
  "idle_runner = \<lparr>rn_engine = idle_engine, rn_store = 0, rn_local = 0, rn_retryAt = zero_time, rn_deadline = zero_time,
     rn_phase = Arming\<rparr>"

lemma first_engine_eq: "first_engine = newEngine NewStore NewSessionCoordinator"
  by (simp add: first_engine_def NewEngine_def Let_def restoreAttentionState_def state_Load_def newEngine_def
      new_attentionState_def zero_stats_def)

lemma empty_snapshot: "SnapshotWithSequence now NewStore = (([], 0), NewStore)" "Snapshot now NewStore = ([], NewStore)"
  by (simp_all add: Snapshot_def SnapshotWithSequence_def prune_counted_def pruneLocked_def visible_records_def NewStore_def
      notify_if_def)

lemma empty_prune: "pruneState [] now new_attentionState = (False, new_attentionState)"
  by (simp add: pruneState_def Let_def new_attentionState_def pruneLastShownCapacity_def syncLastShownState_def
      pruneAcknowledgementsWithLive_def pruneCombinedState_def chosen_victims_def)

lemma empty_select: "attention_Select [] resolve h now = (None, [])"
  by (simp add: attention_Select_def presentation_Select_def select_eligible_def)

lemma others_none [simp]: "others [] e = e"
  by (simp add: others_def)

lemma demo_alone [simp]: "env_between demo_env n = []" "env_during demo_env n = []"
  by (simp_all add: demo_env_def)

lemma first_step: "engine_step (Suc fuel) demo_env demo_time first_engine = Some ((0, 0), None, idle_engine)"
proof -
  let ?e = "newEngine NewStore NewSessionCoordinator"
  have p: "engine_pruneState [] demo_time (?e\<lparr>en_store := NewStore\<rparr>) = (False, ?e)"
    by (simp add: engine_pruneState_def newEngine_def empty_prune)
  have st: "en_store ?e = NewStore" "en_localSequence ?e = 0" by (simp_all add: newEngine_def)
  have once: "step_once demo_env demo_time [] ?e = Inl (None, idle_engine)"
    by (simp add: step_once_def empty_select Let_def presentationCooldownActive_def newEngine_def is_zero_time_def zero_time_def
        idle_engine_def)
  have "step_loop (Suc fuel) demo_env demo_time [] (0, 0) ?e = Some ((0, 0), None, idle_engine)"
    by (simp only: step_loop.simps once sum.case prod.case)
  then show ?thesis by (simp add: engine_step_def first_engine_eq st empty_snapshot p Let_def del: step_loop.simps)
qed

lemma idle_sequences: "st_sequence (en_store idle_engine) = 0" "en_localSequence idle_engine = 0"
  by (simp_all add: idle_engine_def engine_record_def newEngine_def NewStore_def)

lemma idle_reach: "run_reach delay idle_runner []"
proof (rule run_reach.first [OF first_reach])
  show "run_first delay (Suc 0) demo_env demo_time demo_time first_engine = Some idle_runner"
    by (simp add: run_first_def run_step_def first_step idle_runner_def)
qed (simp add: counters_kept_def idle_runner_def idle_sequences)

definition waiting_runner :: Runner where
  "waiting_runner = idle_runner\<lparr>rn_phase := Waiting\<rparr>"

lemma idle_fields:
  "en_store idle_engine = NewStore" "en_att idle_engine = new_attentionState" "en_cooldownUntil idle_engine = zero_time"
  "idle_engine\<lparr>en_store := NewStore\<rparr> = idle_engine" "idle_engine\<lparr>en_att := new_attentionState\<rparr> = idle_engine"
  by (simp_all add: idle_engine_def engine_record_def newEngine_def)

lemma idle_deadline: "NextDeadline demo_env demo_time idle_engine = (zero_time, idle_engine)"
proof -
  have "presentationCooldownActive demo_time idle_engine = (False, idle_engine)"
    by (simp add: presentationCooldownActive_def idle_fields is_zero_time_def zero_time_def)
  moreover have "deadlines demo_time [] False (None, []) idle_engine = []"
    by (simp add: deadlines_def idle_fields) (simp add: new_attentionState_def)
  ultimately show ?thesis
    by (simp add: NextDeadline_def idle_fields empty_snapshot engine_pruneState_def empty_prune empty_select)
qed

lemma waiting_reach: "run_reach delay waiting_runner []"
proof -
  have w: "run_arm demo_env demo_time idle_runner = waiting_runner"
    by (simp add: waiting_runner_def run_arm_def idle_runner_def idle_deadline is_zero_time_def zero_time_def)
  have "rn_phase idle_runner = Arming" "counters_kept (run_arm demo_env demo_time idle_runner)"
    unfolding w by (simp_all add: idle_runner_def waiting_runner_def counters_kept_def idle_sequences)
  from run_reach.arm [OF idle_reach this] show ?thesis by (simp only: w)
qed

definition published_runner :: Runner where
  "published_runner = waiting_runner\<lparr>rn_engine := idle_engine\<lparr>en_store := demo_published\<rparr>\<rparr>"

lemma published_reach: "run_reach delay published_runner []"
proof -
  let ?op = "SysStore None (OpPublish demo_time demo_source demo_observation)"
  have e: "idle_engine\<lparr>en_store := demo_published\<rparr> = system_apply ?op (rn_engine waiting_runner)"
    by (simp add: waiting_runner_def idle_runner_def idle_engine_def engine_record_def newEngine_def demo_published_eq)
  have "run_reach delay (waiting_runner\<lparr>rn_engine := idle_engine\<lparr>en_store := demo_published\<rparr>\<rparr>) ([] @ system_issues ?op (rn_engine waiting_runner))"
    by (rule run_reach.other [OF waiting_reach _ e])
      (simp_all add: system_allowed_def waiting_runner_def idle_runner_def idle_engine_def engine_record_def newEngine_def
        NewStore_def demo_published_def counters_kept_def)
  then show ?thesis by (simp add: published_runner_def system_issues_def)
qed

theorem no_lost_wakeup_witness:
  "run_reach second published_runner [] \<and> st_changes (en_store (rn_engine published_runner)) \<and>
   (\<exists>rn'. run_next second 2050 demo_env demo_time demo_time (rn_engine published_runner) = Some rn' \<and>
      (st_changes (en_store (rn_engine rn')) \<or>
         rn_store rn' = st_sequence (en_store (rn_engine rn')) \<and> rn_local rn' = en_localSequence (rn_engine rn')))"
proof -
  have "rn_phase published_runner = Waiting" "st_sequence (en_store (rn_engine published_runner)) \<noteq> rn_store published_runner"
    by (simp_all add: published_runner_def waiting_runner_def idle_runner_def demo_published_def NewStore_def)
  moreover have "store_inv (en_store (rn_engine published_runner))" by (simp add: published_runner_def demo_published_inv)
  then have "\<exists>processed err e'. engine_step 2050 demo_env demo_time (rn_engine published_runner) = Some (processed, err, e')"
    by (rule engine_step_returns [OF _ demo_undisturbed [of 0]]) simp
  then obtain rn' where "run_next second 2050 demo_env demo_time demo_time (rn_engine published_runner) = Some rn'"
    by (auto simp: run_next_def run_step_def)
  ultimately show ?thesis using no_lost_wakeup [OF published_reach [of second]] published_reach by blast
qed

text \<open>A renderer that refuses everything: the first step fails and asks for a retry.\<close>

definition failing_env :: Env where
  "failing_env = demo_env\<lparr>env_render := \<lambda>_ _. (OutcomeDeviceUnavailable, Some ErrDevice)\<rparr>"

lemma demo_engine_reach: "system_reach demo_engine []"
  using system_reach.other [OF first_reach, of "SysStore None (OpPublish demo_time demo_source demo_observation)"]
  by (simp add: system_allowed_def system_issues_def first_engine_eq demo_engine_def newEngine_def demo_published_eq)

lemma demo_snapshot:
  "SnapshotWithSequence demo_time demo_published = (([demo_record], 1), demo_published)"
  "Snapshot demo_time demo_published = ([demo_record], demo_published)"
  by (simp_all add: Snapshot_def SnapshotWithSequence_def demo_published_pruned demo_published_visible notify_if_def)
    (simp_all add: demo_published_def)

lemma demo_prune: "pruneState [demo_record] demo_time new_attentionState = (False, new_attentionState)"
  by (simp add: pruneState_def Let_def new_attentionState_def pruneLastShownCapacity_def syncLastShownState_def
      pruneAcknowledgementsWithLive_def pruneCombinedState_def chosen_victims_def)

lemma demo_engine_fields:
  "en_store demo_engine = demo_published" "en_att demo_engine = new_attentionState" "en_renders demo_engine = []"
  "en_history demo_engine = idle" "en_currentID demo_engine = ''''"
  "presentationCooldownActive demo_time demo_engine = (False, demo_engine)"
  "en_localSequence demo_engine = 0" "demo_engine\<lparr>en_store := demo_published\<rparr> = demo_engine" "demo_engine\<lparr>en_att := new_attentionState\<rparr> = demo_engine"
  by (simp_all add: demo_engine_def newEngine_def en_history_def idle_def new_attentionState_def presentationCooldownActive_def
      is_zero_time_def zero_time_def)

lemma demo_resolve: "resolveRecord failing_env demo_engine = (\<lambda>_. (demo_rule, True))"
  by (rule ext) (simp add: resolveRecord_def failing_env_def demo_env_def demo_engine_def newEngine_def new_attentionState_def
      demo_rule_def)

lemma rec_ID_nonempty: "rec_ID r \<noteq> ''''"
  by (metis cd_ID_nonempty derive_ID)

lemma failing_step:
  "\<exists>e'. engine_step (Suc fuel) failing_env demo_time demo_engine = Some ((1, 0), Some (RenderFailed ErrDevice), e')
     \<and> en_store e' = demo_published \<and> en_localSequence e' = 0"
proof -
  let ?w = "derive demo_record demo_rule"
  have clock: "env_clock failing_env n = demo_time" "env_between failing_env n = []" "env_during failing_env n = []" for n
    by (simp_all add: failing_env_def demo_env_def)
  have band: "cd_Band ?w \<noteq> BandCriticalActionable"
    by (simp add: derive_def Let_def demo_rule_def demo_record_def demo_observation_def admitted_record_def BandFor_def)
  have "\<exists>e'. step_once failing_env demo_time [demo_record] demo_engine = Inl (Some (RenderFailed ErrDevice), e')
      \<and> en_store e' = demo_published \<and> en_localSequence e' = 0"
    using band rec_ID_nonempty [of demo_record]
    by (simp add: step_once_def Let_def demo_resolve demo_engine_fields demo_selected render_winner_def engine_render_def
        validateRenderResult_def engine_frame clock) (simp add: failing_env_def engine_frame demo_engine_fields)
  then obtain e' where once: "step_once failing_env demo_time [demo_record] demo_engine = Inl (Some (RenderFailed ErrDevice), e')"
    "en_store e' = demo_published" "en_localSequence e' = 0" by blast
  have "step_loop (Suc fuel) failing_env demo_time [demo_record] (1, 0) demo_engine = Some ((1, 0), Some (RenderFailed ErrDevice), e')"
    by (simp only: step_loop.simps once(1) sum.case prod.case)
  then show ?thesis
    using once(2,3)
    by (simp add: engine_step_def demo_engine_fields clock demo_snapshot engine_pruneState_def demo_prune Let_def del: step_loop.simps)
qed

theorem failed_step_retried_witness:
  "\<exists>rn. run_reach second rn [] \<and> rn_phase rn = Waiting \<and> instant (rn_retryAt rn) = instant demo_time + 1000000000 \<and>
    \<not> time_after (rn_deadline rn) (time_add demo_time second) \<and> run_reach second (rn\<lparr>rn_phase := Stepping\<rparr>) []"
proof -
  obtain e' where e': "engine_step (Suc 0) failing_env demo_time demo_engine = Some ((1, 0), Some (RenderFailed ErrDevice), e')"
    "en_store e' = demo_published" "en_localSequence e' = 0" using failing_step by blast
  define rn where "rn = \<lparr>rn_engine = e', rn_store = 1, rn_local = 0,
    rn_retryAt = time_add demo_time second, rn_deadline = zero_time, rn_phase = Arming\<rparr>"
  have first: "run_first second (Suc 0) failing_env demo_time demo_time demo_engine = Some rn"
    by (simp add: run_first_def run_step_def e'(1) rn_def)
  have "counters_kept rn" by (simp add: rn_def counters_kept_def e' demo_published_def)
  note run_reach.first [OF demo_engine_reach first this]
  moreover have "counters_kept (run_arm demo_env demo_time rn)"
    by (simp add: counters_kept_def run_arm_def rn_def NextDeadline_def e'(2,3) Let_def split_beta engine_frame demo_env_def
        demo_snapshot engine_pruneState_def persistState_def) (simp add: demo_published_def)
  ultimately have reach: "run_reach second (run_arm demo_env demo_time rn) []"
    by (intro run_reach.arm) (simp_all add: rn_def)
  have waiting: "rn_phase (run_arm demo_env demo_time rn) = Waiting" "rn_retryAt (run_arm demo_env demo_time rn) = time_add demo_time second"
    by (simp_all add: run_arm_def rn_def split_beta)
  have retry: "\<not> is_zero_time (time_add demo_time second)" "instant (time_add demo_time second) = instant demo_time + 1000000000"
    by (simp_all add: go_time demo_time_def second_def)
  show ?thesis
    using failed_step_retried [OF reach waiting(1), of "time_add demo_time second"] reach waiting retry
    by (intro exI [where x = "run_arm demo_env demo_time rn"]) simp
qed

end
