(* ===== verification/Broker.thy ===== *)
theory Broker
  imports Sessions
begin

text \<open>
  \<open>internal/eventbus/broker.go\<close>: the delivery of input to the plugin that owns a session. Every session
  has a worker, a goroutine with a bounded queue; publishers, the workers and the callers that cancel
  sessions run concurrently. The model is a state machine whose steps are the critical sections of the
  code: what happens under \<open>Broker.mu\<close> or \<open>worker.mu\<close> is one step, and what a goroutine does next is its
  program counter. A publisher between the two locks is an element of \<open>br_pending\<close>, one between the
  refused \<open>enqueue\<close> and \<open>fail\<close> an element of \<open>br_overruns\<close>, so there is no bound on the number of
  concurrent publishers. The histories of a worker (what was enqueued, begun and answered) are ghosts:
  no operation reads them. The callback into the plugin is behind an interface and returns anything.
\<close>

subsection \<open>Data\<close>

definition InteractionQueueSize :: nat where "InteractionQueueSize = 64"

datatype FailureReason = FailureDelivery | FailureOverrun

record TargetSet =
  ts_PluginID :: string
  ts_InstanceIDs :: "string list"

record BrokerStatus =
  bs_QueueDepth :: nat
  bs_LastSequence :: u64
  bs_Overruns :: u64
  bs_LastErrorCode :: string

record sessionKey =
  sk_pluginID :: string
  sk_instanceID :: string
  sk_generation :: u64
  sk_token :: string

text \<open>A delivery, and whether a caller waits for its answer.\<close>

record queuedDelivery =
  qd_request :: SessionInputRequest
  qd_waits :: bool

text \<open>The error of the callback, of the validation of its result, or of a rejected delivery.\<close>

datatype delivery_error = CallbackFailed | InvalidResult input_error | ErrSessionInvalidated

type_synonym deliveryResult = "SessionInputDisposition \<times> delivery_error option"

text \<open>Where the goroutine of a worker stands.\<close>

datatype worker_pc =
    PcWait \<comment> \<open>in the select of the outer loop\<close>
  | PcBegin \<comment> \<open>before \<open>begin\<close>\<close>
  | PcDeliver queuedDelivery \<comment> \<open>in the callback\<close>
  | PcRespond queuedDelivery deliveryResult bool \<comment> \<open>after \<open>finish\<close>; the flag is its \<open>stop\<close>\<close>
  | PcFail queuedDelivery \<comment> \<open>before \<open>complete\<close> with an error\<close>
  | PcReturn \<comment> \<open>\<open>run\<close> has returned\<close>
  | PcDone \<comment> \<open>the worker has left the table\<close>

record worker =
  wk_key :: sessionKey
  wk_queue :: "queuedDelivery list"
  wk_notify :: bool
  wk_inFlight :: bool
  wk_completing :: bool
  wk_stopped :: bool
  wk_pc :: worker_pc
  wk_enqueued :: "queuedDelivery list"
  wk_begun :: "queuedDelivery list"
  wk_answers :: "(queuedDelivery \<times> deliveryResult) list"

record Broker =
  br_next :: u64
  br_targets :: "(string \<times> string) list"
  br_workers :: "(sessionKey \<times> nat) list"
  br_heap :: "worker list"
  br_invalid :: "sessionKey list"
  br_stats :: "(string \<times> BrokerStatus) list"
  br_closed :: bool
  br_pending :: "(nat \<times> queuedDelivery) list"
  br_overruns :: "(nat \<times> queuedDelivery) list"
  br_failures :: "(string \<times> SessionInputRequest \<times> FailureReason) list"

definition New :: Broker where
  "New = \<lparr>br_next = 0, br_targets = [], br_workers = [], br_heap = [], br_invalid = [], br_stats = [],
     br_closed = False, br_pending = [], br_overruns = [], br_failures = []\<rparr>"

subsection \<open>The worker\<close>

definition newWorker :: "sessionKey \<Rightarrow> worker" where
  "newWorker k = \<lparr>wk_key = k, wk_queue = [], wk_notify = False, wk_inFlight = False, wk_completing = False,
     wk_stopped = False, wk_pc = PcWait, wk_enqueued = [], wk_begun = [], wk_answers = []\<rparr>"

definition isUnavailable :: "worker \<Rightarrow> bool" where
  "isUnavailable w \<longleftrightarrow> wk_stopped w \<or> wk_completing w"

text \<open>\<open>rejectDeliveries\<close>: every discarded delivery that somebody waits for is answered with an error.\<close>

definition rejectDeliveries :: "queuedDelivery list \<Rightarrow> worker \<Rightarrow> worker" where
  "rejectDeliveries ds w = w\<lparr>wk_answers := wk_answers w @
     map (\<lambda>d. (d, (OtherInputDisposition '''', Some ErrSessionInvalidated))) (filter qd_waits ds)\<rparr>"

definition stopNoWait :: "worker \<Rightarrow> worker" where
  "stopNoWait w = (if wk_stopped w then w
     else rejectDeliveries (wk_queue w) (w\<lparr>wk_stopped := True, wk_queue := []\<rparr>))"

definition completeNoWait :: "worker \<Rightarrow> worker" where
  "completeNoWait w =
     (if wk_stopped w \<or> wk_completing w then w
      else if wk_inFlight w
        then rejectDeliveries (drop 1 (wk_queue w)) (w\<lparr>wk_completing := True, wk_queue := take 1 (wk_queue w)\<rparr>)
      else rejectDeliveries (wk_queue w) (w\<lparr>wk_completing := True, wk_stopped := True, wk_queue := []\<rparr>))"

datatype enqueue_error = EnqueueInvalidated | EnqueueOverrun

text \<open>\<open>enqueue\<close> and the \<open>wake\<close> that follows it.\<close>

definition worker_enqueue :: "queuedDelivery \<Rightarrow> worker \<Rightarrow> enqueue_error option \<times> worker" where
  "worker_enqueue d w =
     (if wk_stopped w \<or> wk_completing w then (Some EnqueueInvalidated, w)
      else if length (wk_queue w) \<ge> InteractionQueueSize then (Some EnqueueOverrun, w)
      else (None, w\<lparr>wk_queue := wk_queue w @ [d], wk_notify := True, wk_enqueued := wk_enqueued w @ [d]\<rparr>))"

definition worker_begin :: "worker \<Rightarrow> worker" where
  "worker_begin w =
     (if wk_stopped w \<or> wk_inFlight w then w\<lparr>wk_pc := PcWait\<rparr>
      else case wk_queue w of
        [] \<Rightarrow> w\<lparr>wk_pc := PcWait\<rparr>
      | d # _ \<Rightarrow> w\<lparr>wk_inFlight := True, wk_pc := PcDeliver d, wk_begun := wk_begun w @ [d]\<rparr>)"

text \<open>\<open>finish\<close>: whether the delivery is accepted, whether the worker stops, and the worker.\<close>

definition worker_finish :: "u64 \<Rightarrow> bool \<Rightarrow> worker \<Rightarrow> (bool \<times> bool) \<times> worker" where
  "worker_finish sequence failed w =
     (if wk_stopped w then ((False, True), w)
      else case wk_queue w of
        [] \<Rightarrow> ((False, True), w)
      | d # ds \<Rightarrow>
          if req_Sequence (qd_request d) \<noteq> sequence then ((False, True), w)
          else if wk_completing w
            then ((True, True), w\<lparr>wk_queue := [], wk_inFlight := False, wk_stopped := True\<rparr>)
          else ((True, failed), w\<lparr>wk_queue := ds, wk_inFlight := False\<rparr>))"

text \<open>The return of the callback: the result is validated, and the delivery is finished.\<close>

definition worker_return :: "SessionInputDisposition \<times> bool \<Rightarrow> queuedDelivery \<Rightarrow> worker \<Rightarrow> worker" where
  "worker_return outcome d w =
     (case outcome of (result, failed) \<Rightarrow>
        let err = (if failed then Some CallbackFailed
                   else case result_Validate result of None \<Rightarrow> None | Some e \<Rightarrow> Some (InvalidResult e))
        in case worker_finish (req_Sequence (qd_request d)) (err \<noteq> None) w of
             ((accepted, stop), w') \<Rightarrow>
               if accepted then w'\<lparr>wk_pc := PcRespond d (result, err) stop\<rparr> else w'\<lparr>wk_pc := PcReturn\<rparr>)"

definition worker_respond :: "queuedDelivery \<Rightarrow> deliveryResult \<Rightarrow> bool \<Rightarrow> worker \<Rightarrow> worker" where
  "worker_respond d result stop w =
     w\<lparr>wk_answers := (if qd_waits d then wk_answers w @ [(d, result)] else wk_answers w),
       wk_pc := (if snd result \<noteq> None then PcFail d else if stop then PcReturn else PcBegin)\<rparr>"

subsection \<open>The broker\<close>

definition broker_lookup :: "sessionKey \<Rightarrow> Broker \<Rightarrow> worker option" where
  "broker_lookup k b = (case map_of (br_workers b) k of None \<Rightarrow> None | Some i \<Rightarrow> Some (br_heap b ! i))"

definition on_worker :: "nat \<Rightarrow> (worker \<Rightarrow> worker) \<Rightarrow> Broker \<Rightarrow> Broker" where
  "on_worker i f b = b\<lparr>br_heap := (br_heap b)[i := f (br_heap b ! i)]\<rparr>"

definition session_key :: "string \<Rightarrow> InstanceRef \<Rightarrow> string \<Rightarrow> sessionKey" where
  "session_key p r token =
     \<lparr>sk_pluginID = p, sk_instanceID = ref_ID r, sk_generation = ref_Generation r, sk_token = token\<rparr>"

definition status_of :: "string \<Rightarrow> Broker \<Rightarrow> BrokerStatus" where
  "status_of p b =
     (case map_of (br_stats b) p of
        None \<Rightarrow> \<lparr>bs_QueueDepth = 0, bs_LastSequence = 0, bs_Overruns = 0, bs_LastErrorCode = ''''\<rparr>
      | Some s \<Rightarrow> s)"

definition target_of :: "(string \<times> string) list \<Rightarrow> string \<Rightarrow> string" where
  "target_of targets i = (case map_of targets i of None \<Rightarrow> '''' | Some p \<Rightarrow> p)"

text \<open>Stopping the workers of the table whose key satisfies a condition.\<close>

definition stop_workers :: "(sessionKey \<Rightarrow> bool) \<Rightarrow> Broker \<Rightarrow> worker list" where
  "stop_workers P b = fold (\<lambda>(k, i) h. if P k then h[i := stopNoWait (h ! i)] else h) (br_workers b) (br_heap b)"

definition broker_Apply :: "TargetSet list \<Rightarrow> Broker \<Rightarrow> Broker" where
  "broker_Apply vs b =
     (let nxt = fold (\<lambda>v t. fold (\<lambda>i. AList.update i (ts_PluginID v)) (ts_InstanceIDs v) t) vs [];
          plugins = map ts_PluginID vs;
          keep = (\<lambda>k. target_of nxt (sk_instanceID k) = sk_pluginID k)
      in if br_closed b then b
         else b\<lparr>br_heap := stop_workers (\<lambda>k. \<not> keep k) b,
                br_invalid := filter keep (br_invalid b),
                br_stats := fold (\<lambda>p st. if map_of st p = None then AList.update p (status_of p (b\<lparr>br_stats := []\<rparr>)) st else st)
                  plugins (filter (\<lambda>(p, _). p \<in> set plugins) (br_stats b)),
                br_targets := nxt\<rparr>)"

datatype publish_error = ErrClosed | ErrTargetUnavailable | PublishInvalidated | InvalidRequest "input_error list"

text \<open>
  The first critical section of \<open>publishSessionInput\<close>. \<open>wire\<close> is the encoding of the request that its
  validation measures. The sequence number is taken back if the request is invalid.
\<close>

definition publish_admit ::
  "(SessionInputRequest \<Rightarrow> nat option) \<Rightarrow> InstanceRef \<Rightarrow> string \<Rightarrow> SessionInput option \<Rightarrow> gotime \<Rightarrow> bool \<Rightarrow> Broker
     \<Rightarrow> publish_error option \<times> Broker" where
  "publish_admit wire target token input occurredAt waits b =
     (let p = target_of (br_targets b) (ref_ID target);
          k = session_key p target token;
          request = \<lparr>req_Sequence = br_next b + 1, req_OccurredAt = time_utc occurredAt, req_Instance = target,
            req_SessionToken = token,
            req_Input = (case input of None \<Rightarrow> \<lparr>in_Button = None, in_Encoder = None\<rparr> | Some i \<Rightarrow> i)\<rparr>;
          current = map_of (br_workers b) k
      in if br_closed b then (Some ErrClosed, b)
         else if p = '''' then (Some ErrTargetUnavailable, b)
         else if k \<in> set (br_invalid b) then (Some PublishInvalidated, b)
         else if (case current of None \<Rightarrow> False | Some i \<Rightarrow> isUnavailable (br_heap b ! i)) then (Some PublishInvalidated, b)
         else if request_Validate wire request \<noteq> [] then (Some (InvalidRequest (request_Validate wire request)), b)
         else let i = (case current of None \<Rightarrow> length (br_heap b) | Some i \<Rightarrow> i);
                  b1 = (if current = None
                        then b\<lparr>br_heap := br_heap b @ [newWorker k], br_workers := AList.update k i (br_workers b)\<rparr> else b)
              in (None, b1\<lparr>br_next := br_next b + 1,
                    br_stats := AList.update p ((status_of p b)\<lparr>bs_LastSequence := req_Sequence request\<rparr>) (br_stats b),
                    br_pending := br_pending b @ [(i, \<lparr>qd_request = request, qd_waits = waits\<rparr>)]\<rparr>))"

definition broker_Cancel :: "string \<Rightarrow> InstanceRef \<Rightarrow> string \<Rightarrow> Broker \<Rightarrow> Broker" where
  "broker_Cancel p target token b =
     (let k = session_key p target token;
          b1 = (case map_of (br_workers b) k of None \<Rightarrow> b | Some i \<Rightarrow> on_worker i stopNoWait b)
      in b1\<lparr>br_invalid := removeAll k (br_invalid b1)\<rparr>)"

definition broker_Complete :: "string \<Rightarrow> InstanceRef \<Rightarrow> string \<Rightarrow> Broker \<Rightarrow> Broker" where
  "broker_Complete p target token b =
     (let k = session_key p target token;
          b1 = (case map_of (br_workers b) k of None \<Rightarrow> b | Some i \<Rightarrow> on_worker i completeNoWait b)
      in b1\<lparr>br_invalid := removeAll k (br_invalid b1)\<rparr>)"

definition broker_Close :: "Broker \<Rightarrow> Broker" where
  "broker_Close b =
     (if br_closed b then b
      else b\<lparr>br_closed := True, br_heap := stop_workers (\<lambda>_. True) b, br_invalid := []\<rparr>)"

definition reason_code :: "FailureReason \<Rightarrow> string" where
  "reason_code r = (case r of FailureDelivery \<Rightarrow> ''delivery_failed'' | FailureOverrun \<Rightarrow> ''overrun'')"

definition broker_fail :: "nat \<Rightarrow> queuedDelivery \<Rightarrow> FailureReason \<Rightarrow> Broker \<Rightarrow> Broker" where
  "broker_fail i d reason b =
     (let w = br_heap b ! i; k = wk_key w; p = sk_pluginID k; st = status_of p b
      in if map_of (br_workers b) k \<noteq> Some i \<or> isUnavailable w then b
         else (on_worker i stopNoWait b)
           \<lparr>br_invalid := List.insert k (br_invalid b),
            br_stats := AList.update p (st\<lparr>bs_LastErrorCode := reason_code reason,
                bs_Overruns := (if reason = FailureOverrun then bs_Overruns st + 1 else bs_Overruns st)\<rparr>) (br_stats b),
            br_failures := br_failures b @ [(p, qd_request d, reason)]\<rparr>)"

text \<open>The end of \<open>runWorker\<close>.\<close>

definition broker_exit :: "nat \<Rightarrow> Broker \<Rightarrow> Broker" where
  "broker_exit i b =
     (let k = wk_key (br_heap b ! i); b1 = on_worker i (\<lambda>w. w\<lparr>wk_pc := PcDone\<rparr>) b
      in if map_of (br_workers b) k = Some i then b1\<lparr>br_workers := AList.delete k (br_workers b)\<rparr> else b1)"

text \<open>\<open>Status\<close> sums the depths of the queues of a plugin's workers.\<close>

definition broker_Status :: "Broker \<Rightarrow> (string \<times> BrokerStatus) list" where
  "broker_Status b =
     sort_by (\<lambda>l r. string_cmp (fst l) (fst r))
       (map (\<lambda>(p, st). (p, st\<lparr>bs_QueueDepth :=
          sum_list (map (\<lambda>(k, i). if sk_pluginID k = p then length (wk_queue (br_heap b ! i)) else 0) (br_workers b))\<rparr>))
         (br_stats b))"

subsection \<open>The broker as a state machine\<close>

datatype broker_event =
    EvApply "TargetSet list" | EvPublish InstanceRef string "SessionInput option" gotime bool | EvEnqueue nat
  | EvOverrun nat | EvCancel string InstanceRef string | EvComplete string InstanceRef string | EvClose
  | EvWake nat | EvBegin nat | EvReturn nat "SessionInputDisposition \<times> bool" | EvRespond nat | EvFail nat
  | EvCanceled nat | EvExit nat

definition without :: "nat \<Rightarrow> 'a list \<Rightarrow> 'a list" where
  "without n xs = take n xs @ drop (Suc n) xs"

text \<open>The second critical section of a publisher.\<close>

definition publish_enqueue :: "nat \<Rightarrow> Broker \<Rightarrow> Broker" where
  "publish_enqueue n b =
     (case br_pending b ! n of (i, d) \<Rightarrow>
        case worker_enqueue d (br_heap b ! i) of
          (None, w) \<Rightarrow> b\<lparr>br_heap := (br_heap b)[i := w], br_pending := without n (br_pending b)\<rparr>
        | (Some EnqueueInvalidated, _) \<Rightarrow> b\<lparr>br_pending := without n (br_pending b)\<rparr>
        | (Some EnqueueOverrun, _) \<Rightarrow> b\<lparr>br_pending := without n (br_pending b), br_overruns := br_overruns b @ [(i, d)]\<rparr>)"

text \<open>What one event does, if it can happen. The sequence numbers are assumed not to wrap around.\<close>

fun broker_step :: "(SessionInputRequest \<Rightarrow> nat option) \<Rightarrow> broker_event \<Rightarrow> Broker \<Rightarrow> Broker option" where
  "broker_step wire (EvApply vs) b = Some (broker_Apply vs b)"
| "broker_step wire (EvPublish target token input at waits) b =
     (if br_next b = - 1 then None else Some (snd (publish_admit wire target token input at waits b)))"
| "broker_step wire (EvEnqueue n) b = (if n < length (br_pending b) then Some (publish_enqueue n b) else None)"
| "broker_step wire (EvOverrun n) b =
     (if n < length (br_overruns b)
      then Some (case br_overruns b ! n of (i, d) \<Rightarrow>
             (broker_fail i d FailureOverrun b)\<lparr>br_overruns := without n (br_overruns b)\<rparr>)
      else None)"
| "broker_step wire (EvCancel p target token) b = Some (broker_Cancel p target token b)"
| "broker_step wire (EvComplete p target token) b = Some (broker_Complete p target token b)"
| "broker_step wire EvClose b = Some (broker_Close b)"
| "broker_step wire (EvWake i) b =
     (if i < length (br_heap b) \<and> wk_pc (br_heap b ! i) = PcWait \<and> wk_notify (br_heap b ! i)
      then Some (on_worker i (\<lambda>w. w\<lparr>wk_notify := False, wk_pc := PcBegin\<rparr>) b) else None)"
| "broker_step wire (EvCanceled i) b =
     (if i < length (br_heap b) \<and> wk_pc (br_heap b ! i) = PcWait \<and> wk_stopped (br_heap b ! i)
      then Some (on_worker i (\<lambda>w. w\<lparr>wk_pc := PcReturn\<rparr>) b) else None)"
| "broker_step wire (EvBegin i) b =
     (if i < length (br_heap b) \<and> wk_pc (br_heap b ! i) = PcBegin then Some (on_worker i worker_begin b) else None)"
| "broker_step wire (EvReturn i outcome) b =
     (if i < length (br_heap b)
      then (case wk_pc (br_heap b ! i) of PcDeliver d \<Rightarrow> Some (on_worker i (worker_return outcome d) b) | _ \<Rightarrow> None) else None)"
| "broker_step wire (EvRespond i) b =
     (if i < length (br_heap b)
      then (case wk_pc (br_heap b ! i) of PcRespond d result stop \<Rightarrow> Some (on_worker i (worker_respond d result stop) b) | _ \<Rightarrow> None)
      else None)"
| "broker_step wire (EvFail i) b =
     (if i < length (br_heap b)
      then (case wk_pc (br_heap b ! i) of
              PcFail d \<Rightarrow> Some (on_worker i (\<lambda>w. w\<lparr>wk_pc := PcReturn\<rparr>) (broker_fail i d FailureDelivery b)) | _ \<Rightarrow> None)
      else None)"
| "broker_step wire (EvExit i) b =
     (if i < length (br_heap b) \<and> wk_pc (br_heap b ! i) = PcReturn then Some (broker_exit i b) else None)"

inductive broker_reach :: "(SessionInputRequest \<Rightarrow> nat option) \<Rightarrow> Broker \<Rightarrow> bool" for wire where
  start: "broker_reach wire New"
| step: "broker_reach wire b \<Longrightarrow> broker_step wire ev b = Some b' \<Longrightarrow> broker_reach wire b'"

subsection \<open>The invariant of a worker\<close>

fun held :: "worker_pc \<Rightarrow> queuedDelivery multiset" where
  "held (PcRespond d result stop) = {#d#}"
| "held _ = {#}"

text \<open>Every enqueued delivery that a caller waits for is in the queue, held by the goroutine, or answered, once.\<close>

definition accounted :: "worker \<Rightarrow> bool" where
  "accounted w \<longleftrightarrow> filter_mset qd_waits (mset (wk_enqueued w)) =
     filter_mset qd_waits (mset (wk_queue w) + held (wk_pc w)) + mset (map fst (wk_answers w))"

text \<open>Deliveries begin in the order of the queue.\<close>

definition in_order :: "worker \<Rightarrow> bool" where
  "in_order w \<longleftrightarrow> prefix (wk_begun w) (wk_enqueued w) \<and>
     (\<not> wk_stopped w \<longrightarrow> (\<exists>past rest. wk_enqueued w = past @ wk_queue w @ rest \<and>
        wk_begun w = past @ (if wk_inFlight w then take 1 (wk_queue w) else []) \<and> (wk_completing w \<or> rest = [])))"

definition pc_ok :: "worker \<Rightarrow> bool" where
  "pc_ok w \<longleftrightarrow>
     (case wk_pc w of
        PcWait \<Rightarrow> wk_stopped w \<or> \<not> wk_inFlight w \<and> (wk_queue w \<noteq> [] \<longrightarrow> wk_notify w)
      | PcBegin \<Rightarrow> wk_stopped w \<or> \<not> wk_inFlight w
      | PcDeliver d \<Rightarrow> wk_stopped w \<or> wk_inFlight w \<and> wk_queue w \<noteq> [] \<and> hd (wk_queue w) = d
      | PcRespond d result stop \<Rightarrow> (wk_stopped w \<or> \<not> wk_inFlight w) \<and> (stop \<and> snd result = None \<longrightarrow> wk_stopped w)
      | PcFail d \<Rightarrow> wk_stopped w \<or> \<not> wk_inFlight w
      | PcReturn \<Rightarrow> wk_stopped w
      | PcDone \<Rightarrow> wk_stopped w)"

definition worker_inv :: "worker \<Rightarrow> bool" where
  "worker_inv w \<longleftrightarrow> accounted w \<and> in_order w \<and> pc_ok w \<and>
     length (wk_queue w) \<le> InteractionQueueSize \<and> (wk_stopped w \<longrightarrow> wk_queue w = []) \<and>
     (wk_completing w \<and> \<not> wk_stopped w \<longrightarrow> wk_inFlight w \<and> length (wk_queue w) = 1)"

named_theorems worker_ops \<comment> \<open>unfolds the operations of a worker\<close>

lemmas [worker_ops] = stopNoWait_def completeNoWait_def rejectDeliveries_def worker_enqueue_def worker_begin_def
  worker_finish_def worker_return_def worker_respond_def newWorker_def

lemma rejected_fst [simp]: "image_mset fst {#(d, r). d \<in># M#} = M"
  by (simp add: image_mset.compositionality comp_def)

lemma newWorker_inv: "worker_inv (newWorker k)"
  by (simp add: worker_inv_def accounted_def in_order_def pc_ok_def worker_ops)

lemma worker_invI:
  assumes "accounted w" "in_order w" "pc_ok w" "length (wk_queue w) \<le> InteractionQueueSize"
    and "wk_stopped w \<Longrightarrow> wk_queue w = []"
    and "wk_completing w \<Longrightarrow> \<not> wk_stopped w \<Longrightarrow> wk_inFlight w \<and> length (wk_queue w) = 1"
  shows "worker_inv w"
  using assms by (simp add: worker_inv_def)

lemma worker_invD:
  assumes "worker_inv w"
  shows "accounted w" "in_order w" "pc_ok w" "length (wk_queue w) \<le> InteractionQueueSize"
    "wk_stopped w \<Longrightarrow> wk_queue w = []" "wk_completing w \<Longrightarrow> \<not> wk_stopped w \<Longrightarrow> wk_inFlight w \<and> length (wk_queue w) = 1"
  using assms by (simp_all add: worker_inv_def)

lemma stopNoWait_inv:
  assumes "worker_inv w"
  shows "worker_inv (stopNoWait w)"
proof (cases "wk_stopped w")
  case True
  then show ?thesis using assms by (simp add: stopNoWait_def)
next
  case False
  note w = worker_invD [OF assms]
  show ?thesis
  proof (rule worker_invI)
    show "accounted (stopNoWait w)" using w(1) False by (simp add: accounted_def worker_ops comp_def)
    show "in_order (stopNoWait w)" using w(2) False by (simp add: in_order_def worker_ops)
    show "pc_ok (stopNoWait w)" using w(3) False by (simp add: pc_ok_def worker_ops split: worker_pc.splits)
  qed (simp_all add: worker_ops False)
qed

lemma completeNoWait_inv:
  assumes "worker_inv w"
  shows "worker_inv (completeNoWait w)"
proof (cases "wk_stopped w \<or> wk_completing w")
  case True
  then show ?thesis using assms by (simp add: completeNoWait_def)
next
  case False
  note w = worker_invD [OF assms]
  have queue: "wk_inFlight w \<Longrightarrow> \<exists>d. wk_pc w = PcDeliver d \<and> wk_queue w = d # tl (wk_queue w)"
    using w(3) False by (cases "wk_pc w"; cases "wk_queue w") (auto simp: pc_ok_def)
  show ?thesis
  proof (rule worker_invI)
    show "accounted (completeNoWait w)" using w(1) False queue
      by (cases "wk_queue w") (auto simp: accounted_def worker_ops)
    show "in_order (completeNoWait w)"
    proof (cases "wk_inFlight w")
      case True
      then obtain d ds where q: "wk_queue w = d # ds" using queue by blast
      with w(2) False True show ?thesis by (auto simp: in_order_def worker_ops)
    next
      case no: False
      then show ?thesis using w(2) False by (auto simp: in_order_def worker_ops)
    qed
    show "pc_ok (completeNoWait w)" using w(3) False queue
      by (cases "wk_queue w") (auto simp: pc_ok_def worker_ops split: worker_pc.splits)
    show "length (wk_queue (completeNoWait w)) \<le> InteractionQueueSize"
      using w(4) False by (simp add: worker_ops InteractionQueueSize_def min_def)
    have "wk_inFlight w \<Longrightarrow> min (length (wk_queue w)) (Suc 0) = Suc 0" using queue by (cases "wk_queue w") auto
    then show "wk_inFlight (completeNoWait w) \<and> length (wk_queue (completeNoWait w)) = 1"
      if "wk_completing (completeNoWait w)" "\<not> wk_stopped (completeNoWait w)"
      using that False by (auto simp: worker_ops split: if_splits)
  qed (use False in \<open>auto simp: worker_ops split: if_splits\<close>)
qed

lemma worker_enqueue_inv:
  assumes "worker_inv w"
  shows "worker_inv (snd (worker_enqueue d w))"
proof (cases "wk_stopped w \<or> wk_completing w \<or> length (wk_queue w) \<ge> InteractionQueueSize")
  case True
  then show ?thesis using assms by (auto simp: worker_enqueue_def)
next
  case False
  note w = worker_invD [OF assms]
  let ?w = "w\<lparr>wk_queue := wk_queue w @ [d], wk_notify := True, wk_enqueued := wk_enqueued w @ [d]\<rparr>"
  have "worker_inv ?w"
  proof (rule worker_invI)
    show "accounted ?w" using w(1) by (simp add: accounted_def)
    show "in_order ?w" using w(2,3) False
      by (cases "wk_queue w") (auto simp: in_order_def pc_ok_def split: worker_pc.splits)
    show "pc_ok ?w" using w(3) False by (auto simp: pc_ok_def split: worker_pc.splits)
  qed (use False in simp_all)
  then show ?thesis using False by (simp add: worker_enqueue_def)
qed

lemma worker_begin_inv:
  assumes "worker_inv w" "wk_pc w = PcBegin"
  shows "worker_inv (worker_begin w)"
proof -
  note w = worker_invD [OF assms(1)]
  show ?thesis
  proof (rule worker_invI)
    show "accounted (worker_begin w)" using w(1) assms(2) by (simp add: accounted_def worker_ops split: list.splits)
    show "in_order (worker_begin w)" using w(2) by (auto simp: in_order_def worker_ops split: list.splits)
    show "pc_ok (worker_begin w)" using w(3,5) assms(2) by (auto simp: pc_ok_def worker_ops split: list.splits)
  qed (use w in \<open>auto simp: worker_ops split: list.splits if_splits\<close>)
qed

lemma worker_return_inv:
  assumes "worker_inv w" "wk_pc w = PcDeliver d"
  shows "worker_inv (worker_return outcome d w)"
proof (cases "wk_stopped w")
  case True
  note w = worker_invD [OF assms(1)]
  have "worker_inv (w\<lparr>wk_pc := PcReturn\<rparr>)"
    by (rule worker_invI) (use w True assms(2) in \<open>simp_all add: accounted_def in_order_def pc_ok_def\<close>)
  then show ?thesis using True by (simp add: worker_ops Let_def split: prod.splits)
next
  case False
  note w = worker_invD [OF assms(1)]
  obtain ds where q: "wk_queue w = d # ds" "wk_inFlight w"
    using w(3) False assms(2) by (cases "wk_queue w") (auto simp: pc_ok_def)
  show ?thesis
  proof (rule worker_invI)
    show "accounted (worker_return outcome d w)" using w(1,6) False q assms(2)
      by (auto simp: accounted_def worker_ops Let_def split: prod.splits option.splits)
    show "in_order (worker_return outcome d w)" using w(2,6) False q
      by (auto simp: in_order_def worker_ops Let_def split: prod.splits option.splits)
    show "pc_ok (worker_return outcome d w)" using w(6) False q
      by (auto simp: pc_ok_def worker_ops Let_def split: prod.splits option.splits)
  qed (use w(4-6) False q in \<open>auto simp: worker_ops Let_def split: prod.splits option.splits if_splits\<close>)
qed

lemma worker_respond_inv:
  assumes "worker_inv w" "wk_pc w = PcRespond d result stop"
  shows "worker_inv (worker_respond d result stop w)"
proof -
  note w = worker_invD [OF assms(1)]
  show ?thesis
    by (rule worker_invI) (use w assms(2) in \<open>auto simp: accounted_def in_order_def pc_ok_def worker_ops\<close>)
qed

lemma worker_wake_inv: "worker_inv w \<Longrightarrow> wk_pc w = PcWait \<Longrightarrow> worker_inv (w\<lparr>wk_notify := False, wk_pc := PcBegin\<rparr>)"
  by (auto simp: worker_inv_def accounted_def in_order_def pc_ok_def)

lemma worker_stopped_pc:
  "worker_inv w \<Longrightarrow> wk_stopped w \<Longrightarrow> held pc = held (wk_pc w) \<Longrightarrow> worker_inv (w\<lparr>wk_pc := pc\<rparr>)"
  by (auto simp: worker_inv_def accounted_def in_order_def pc_ok_def split: worker_pc.splits)

subsection \<open>The invariant of the broker\<close>

text \<open>The table is read by key: lookups are not turned into memberships.\<close>

declare map_of_eq_Some_iff [simp del] Some_eq_map_of_iff [simp del]

definition broker_inv :: "Broker \<Rightarrow> bool" where
  "broker_inv b \<longleftrightarrow> alist_wf (br_workers b) \<and> (\<forall>w\<in>set (br_heap b). worker_inv w) \<and>
     (\<forall>k i. map_of (br_workers b) k = Some i \<longrightarrow> i < length (br_heap b) \<and> wk_key (br_heap b ! i) = k) \<and>
     (\<forall>i<length (br_heap b). wk_pc (br_heap b ! i) \<noteq> PcDone \<longrightarrow> map_of (br_workers b) (wk_key (br_heap b ! i)) = Some i) \<and>
     (\<forall>i d. (i, d) \<in> set (br_pending b) \<longrightarrow> i < length (br_heap b)) \<and>
     (\<forall>i d. (i, d) \<in> set (br_overruns b) \<longrightarrow> i < length (br_heap b))"

lemma broker_invI:
  assumes "alist_wf (br_workers b)" "\<And>i. i < length (br_heap b) \<Longrightarrow> worker_inv (br_heap b ! i)"
    and "\<And>k i. map_of (br_workers b) k = Some i \<Longrightarrow> i < length (br_heap b) \<and> wk_key (br_heap b ! i) = k"
    and "\<And>i. i < length (br_heap b) \<Longrightarrow> wk_pc (br_heap b ! i) \<noteq> PcDone \<Longrightarrow> map_of (br_workers b) (wk_key (br_heap b ! i)) = Some i"
    and "\<And>i d. (i, d) \<in> set (br_pending b) \<Longrightarrow> i < length (br_heap b)"
    and "\<And>i d. (i, d) \<in> set (br_overruns b) \<Longrightarrow> i < length (br_heap b)"
  shows "broker_inv b"
proof -
  have "\<forall>w\<in>set (br_heap b). worker_inv w" using assms(2) by (auto simp: in_set_conv_nth)
  then show ?thesis unfolding broker_inv_def using assms by simp
qed

lemma broker_invD:
  assumes "broker_inv b"
  shows "i < length (br_heap b) \<Longrightarrow> worker_inv (br_heap b ! i)" "alist_wf (br_workers b)"
    "map_of (br_workers b) k = Some i \<Longrightarrow> i < length (br_heap b) \<and> wk_key (br_heap b ! i) = k"
    "i < length (br_heap b) \<Longrightarrow> wk_pc (br_heap b ! i) \<noteq> PcDone \<Longrightarrow> map_of (br_workers b) (wk_key (br_heap b ! i)) = Some i"
    "(i, d) \<in> set (br_pending b) \<Longrightarrow> i < length (br_heap b)" "(i, d) \<in> set (br_overruns b) \<Longrightarrow> i < length (br_heap b)"
  using assms unfolding broker_inv_def by auto

text \<open>Changing workers in place: their keys stay, none comes back from its end.\<close>

lemma broker_inv_heap:
  assumes "broker_inv b" "length h = length (br_heap b)"
    and "\<And>i. i < length h \<Longrightarrow> worker_inv (h ! i)" "\<And>i. i < length h \<Longrightarrow> wk_key (h ! i) = wk_key (br_heap b ! i)"
    and "\<And>i. i < length h \<Longrightarrow> wk_pc (br_heap b ! i) = PcDone \<Longrightarrow> wk_pc (h ! i) = PcDone"
    and "set p \<subseteq> set (br_pending b)" "set q \<subseteq> set (br_pending b) \<union> set (br_overruns b)"
    and "br_workers b' = br_workers b" "br_heap b' = h" "br_pending b' = p" "br_overruns b' = q"
  shows "broker_inv b'"
proof (rule broker_invI, unfold assms(8-11))
  note inv = broker_invD [OF assms(1)]
  show "alist_wf (br_workers b)" by (rule inv(2))
  show "worker_inv (h ! i)" if "i < length h" for i using assms(3) that .
  show "i < length h \<and> wk_key (h ! i) = k" if "map_of (br_workers b) k = Some i" for k i
    using inv(3) [OF that] assms(2,4) by auto
  show "map_of (br_workers b) (wk_key (h ! i)) = Some i" if "i < length h" "wk_pc (h ! i) \<noteq> PcDone" for i
    using inv(4) [of i] that assms(2,4,5) by metis
  show "i < length h" if "(i, d) \<in> set p" for i d using inv(5) [of i d] that assms(2,6) by auto
  show "i < length h" if "(i, d) \<in> set q" for i d using inv(5,6) [of i d] that assms(2,7) by auto
qed

lemma on_worker_inv:
  assumes "broker_inv b" "i < length (br_heap b)" "worker_inv (f (br_heap b ! i))"
    and "wk_key (f (br_heap b ! i)) = wk_key (br_heap b ! i)"
    and "wk_pc (br_heap b ! i) = PcDone \<Longrightarrow> wk_pc (f (br_heap b ! i)) = PcDone"
  shows "broker_inv (on_worker i f b)"
  by (rule broker_inv_heap [OF assms(1), where h = "(br_heap b)[i := f (br_heap b ! i)]" and p = "br_pending b" and q = "br_overruns b"])
    (use assms broker_invD(1) [OF assms(1)] in \<open>auto simp: on_worker_def nth_list_update\<close>)

lemma worker_op_frame [simp]:
  "wk_key (stopNoWait w) = wk_key w" "wk_pc (stopNoWait w) = wk_pc w" "wk_stopped (stopNoWait w)"
  "wk_begun (stopNoWait w) = wk_begun w" "wk_enqueued (stopNoWait w) = wk_enqueued w"
  "wk_key (completeNoWait w) = wk_key w" "wk_pc (completeNoWait w) = wk_pc w" "wk_begun (completeNoWait w) = wk_begun w"
  "wk_key (worker_begin w) = wk_key w" "wk_key (worker_respond d result stop w) = wk_key w"
  "wk_key (snd (worker_enqueue d w)) = wk_key w" "wk_pc (snd (worker_enqueue d w)) = wk_pc w"
  "stopNoWait (stopNoWait w) = stopNoWait w"
  by (simp_all add: worker_ops split: list.splits)

lemma worker_return_key [simp]: "wk_key (worker_return outcome d w) = wk_key w"
  by (auto simp: worker_ops Let_def split: prod.splits list.splits)

lemma stop_workers_fold:
  assumes "\<forall>(k, i)\<in>set ws. i < length h"
  shows "length (fold (\<lambda>(k, i) h. if P k then h[i := stopNoWait (h ! i)] else h) ws h) = length h"
    "j < length h \<Longrightarrow> fold (\<lambda>(k, i) h. if P k then h[i := stopNoWait (h ! i)] else h) ws h ! j =
       (if \<exists>k. (k, j) \<in> set ws \<and> P k then stopNoWait (h ! j) else h ! j)"
  using assms
proof (induction ws arbitrary: h)
  case (Cons x ws)
  obtain k i where x: "x = (k, i)" by fastforce
  { case 1 then show ?case using Cons.IH(1) by (auto simp: x)
  next
    case 2
    let ?h = "if P k then h[i := stopNoWait (h ! i)] else h"
    have "j < length ?h" "\<forall>(k, i)\<in>set ws. i < length ?h" using 2 by auto
    note IH = Cons.IH(2) [OF this]
    show ?case using 2 IH by (auto simp: x nth_list_update) }
qed simp_all

lemma stop_workers_nth:
  assumes "broker_inv b"
  shows "length (stop_workers P b) = length (br_heap b)"
    "j < length (br_heap b) \<Longrightarrow> stop_workers P b ! j =
       (if P (wk_key (br_heap b ! j)) \<and> map_of (br_workers b) (wk_key (br_heap b ! j)) = Some j
        then stopNoWait (br_heap b ! j) else br_heap b ! j)"
proof -
  have ws: "\<forall>(k, i)\<in>set (br_workers b). i < length (br_heap b) \<and> wk_key (br_heap b ! i) = k"
    using broker_invD(3) [OF assms] map_of_is_SomeI [OF broker_invD(2) [OF assms]] by fastforce
  then have ws': "\<forall>(k, i)\<in>set (br_workers b). i < length (br_heap b)" by auto
  show "length (stop_workers P b) = length (br_heap b)"
    unfolding stop_workers_def by (rule stop_workers_fold(1) [OF ws'])
  assume j: "j < length (br_heap b)"
  have "(\<exists>k. (k, j) \<in> set (br_workers b) \<and> P k) \<longleftrightarrow>
      P (wk_key (br_heap b ! j)) \<and> map_of (br_workers b) (wk_key (br_heap b ! j)) = Some j"
    using ws map_of_is_SomeI [OF broker_invD(2) [OF assms]] by (fastforce dest: map_of_SomeD)
  then show "stop_workers P b ! j =
      (if P (wk_key (br_heap b ! j)) \<and> map_of (br_workers b) (wk_key (br_heap b ! j)) = Some j
        then stopNoWait (br_heap b ! j) else br_heap b ! j)"
    unfolding stop_workers_def using stop_workers_fold(2) [OF ws' j] by simp
qed

lemma stop_workers_inv:
  assumes "broker_inv b"
  shows "broker_inv (b\<lparr>br_heap := stop_workers P b\<rparr>)"
  by (rule broker_inv_heap [OF assms, where h = "stop_workers P b" and p = "br_pending b" and q = "br_overruns b"])
    (use stop_workers_nth [OF assms, where P = P] broker_invD(1) [OF assms] in \<open>auto simp: stopNoWait_inv\<close>)

lemma broker_inv_same:
  "broker_inv b \<Longrightarrow> br_workers b' = br_workers b \<Longrightarrow> br_heap b' = br_heap b \<Longrightarrow> br_pending b' = br_pending b \<Longrightarrow>
     set (br_overruns b') \<subseteq> set (br_overruns b) \<Longrightarrow> broker_inv b'"
  by (rule broker_invI) (use broker_invD [of b] in auto)

lemma set_without: "set (without n xs) \<subseteq> set xs"
  by (auto simp: without_def dest: in_set_takeD in_set_dropD)

lemma admit_inv:
  assumes "broker_inv b" "map_of (br_workers b) k = None" "i = length (br_heap b)"
    and "br_workers b' = AList.update k i (br_workers b)" "br_heap b' = br_heap b @ [newWorker k]"
    and "br_pending b' = br_pending b" "br_overruns b' = br_overruns b"
  shows "broker_inv b'"
proof (rule broker_invI, unfold assms(4-7))
  note inv = broker_invD [OF assms(1)]
  have key: "wk_key (newWorker k) = k" by (simp add: newWorker_def)
  let ?h = "br_heap b @ [newWorker k]"
  show "alist_wf (AList.update k i (br_workers b))" using inv(2) by (simp add: distinct_update)
  show "worker_inv (?h ! j)" if "j < length ?h" for j
    using that inv(1) newWorker_inv by (auto simp: nth_append less_Suc_eq)
  show "j < length ?h \<and> wk_key (?h ! j) = k'" if "map_of (AList.update k i (br_workers b)) k' = Some j" for k' j
    using that inv(3) [of k' j] assms(3) key by (auto simp: update_conv' nth_append split: if_splits)
  show "map_of (AList.update k i (br_workers b)) (wk_key (?h ! j)) = Some j" if "j < length ?h" "wk_pc (?h ! j) \<noteq> PcDone" for j
  proof (cases "j < length (br_heap b)")
    case True
    then have "map_of (br_workers b) (wk_key (br_heap b ! j)) = Some j" using inv(4) that by (simp add: nth_append)
    then show ?thesis using True assms(2) by (auto simp: update_conv' nth_append)
  next
    case False
    then have "j = i" using that assms(3) by simp
    then show ?thesis using assms(3) key by (simp add: update_conv' nth_append)
  qed
  show "j < length ?h" if "(j, d) \<in> set (br_pending b)" for j d using inv(5) [OF that] by simp
  show "j < length ?h" if "(j, d) \<in> set (br_overruns b)" for j d using inv(6) [OF that] by simp
qed

lemma publish_admit_inv:
  assumes "broker_inv b"
  shows "broker_inv (snd (publish_admit wire target token input at waits b))"
proof -
  let ?p = "target_of (br_targets b) (ref_ID target)"
  let ?k = "session_key ?p target token"
  let ?i = "case map_of (br_workers b) ?k of None \<Rightarrow> length (br_heap b) | Some i \<Rightarrow> i"
  define b1 where "b1 = (if map_of (br_workers b) ?k = None
    then b\<lparr>br_heap := br_heap b @ [newWorker ?k], br_workers := AList.update ?k ?i (br_workers b)\<rparr> else b)"
  have b1: "broker_inv b1"
    using admit_inv [OF assms, of ?k ?i b1] assms by (cases "map_of (br_workers b) ?k") (simp_all add: b1_def)
  have i: "?i < length (br_heap b1)" using broker_invD(3) [OF assms, of ?k] by (auto simp: b1_def split: option.splits)
  have "broker_inv (b1\<lparr>br_next := n, br_stats := st, br_pending := br_pending b @ [(?i, d)]\<rparr>)" for n st d
  proof -
    have p: "br_pending b1 = br_pending b" by (simp add: b1_def)
    show ?thesis by (rule broker_invI) (use broker_invD [OF b1] i p in auto)
  qed
  then show ?thesis
    using assms unfolding publish_admit_def Let_def b1_def [symmetric] by (simp split del: if_split split: if_splits)
qed

lemma publish_enqueue_inv:
  assumes "broker_inv b" "n < length (br_pending b)"
  shows "broker_inv (publish_enqueue n b)"
proof -
  obtain i d where p: "br_pending b ! n = (i, d)" by fastforce
  then have mem: "(i, d) \<in> set (br_pending b)" using assms(2) nth_mem by metis
  then have i: "i < length (br_heap b)" using broker_invD(5) [OF assms(1)] by blast
  have w: "worker_inv (snd (worker_enqueue d (br_heap b ! i)))"
    by (rule worker_enqueue_inv [OF broker_invD(1) [OF assms(1) i]])
  let ?h = "(br_heap b)[i := snd (worker_enqueue d (br_heap b ! i))]"
  have same: "?h = br_heap b" if "fst (worker_enqueue d (br_heap b ! i)) \<noteq> None"
    using that by (auto simp: worker_enqueue_def split: if_splits)
  have "broker_inv (b\<lparr>br_heap := ?h, br_pending := without n (br_pending b), br_overruns := q\<rparr>)"
    if "set q \<subseteq> set (br_pending b) \<union> set (br_overruns b)" for q
    by (rule broker_inv_heap [OF assms(1), where h = ?h and p = "without n (br_pending b)" and q = q])
      (use i w broker_invD(1) [OF assms(1)] that in \<open>auto simp: nth_list_update dest: subsetD [OF set_without]\<close>)
  note inv = this [of "br_overruns b"] this [of "br_overruns b @ [(i, d)]"]
  show ?thesis
    using inv same mem
    by (cases "worker_enqueue d (br_heap b ! i)")
      (auto simp: publish_enqueue_def p split: option.splits enqueue_error.splits)
qed

lemma broker_fail_inv:
  assumes "broker_inv b" "i < length (br_heap b)"
  shows "broker_inv (broker_fail i d reason b)"
proof -
  have "broker_inv (on_worker i stopNoWait b)"
    by (rule on_worker_inv [OF assms]) (simp_all add: stopNoWait_inv broker_invD(1) [OF assms])
  then show ?thesis
    using assms(1) by (auto simp: broker_fail_def Let_def broker_inv_def on_worker_def)
qed

lemma broker_fail_stops:
  assumes "broker_inv b" "i < length (br_heap b)" "wk_pc (br_heap b ! i) = PcFail d'"
  shows "wk_stopped (br_heap (broker_fail i d reason b) ! i)" "br_pending (broker_fail i d reason b) = br_pending b"
    "length (br_heap (broker_fail i d reason b)) = length (br_heap b)" "wk_pc (br_heap (broker_fail i d reason b) ! i) = PcFail d'"
proof -
  note w = worker_invD [OF broker_invD(1) [OF assms(1,2)]]
  have "map_of (br_workers b) (wk_key (br_heap b ! i)) = Some i" using broker_invD(4) [OF assms(1,2)] assms(3) by simp
  moreover have "isUnavailable (br_heap b ! i) \<longleftrightarrow> wk_stopped (br_heap b ! i)"
    using w(3,6) assms(3) by (auto simp: isUnavailable_def pc_ok_def)
  ultimately show "wk_stopped (br_heap (broker_fail i d reason b) ! i)"
    using assms(2) by (auto simp: broker_fail_def Let_def on_worker_def)
  show "br_pending (broker_fail i d reason b) = br_pending b"
    "length (br_heap (broker_fail i d reason b)) = length (br_heap b)" "wk_pc (br_heap (broker_fail i d reason b) ! i) = PcFail d'"
    using assms(2,3) by (simp_all add: broker_fail_def Let_def on_worker_def)
qed

lemma broker_exit_inv:
  assumes "broker_inv b" "i < length (br_heap b)" "wk_pc (br_heap b ! i) = PcReturn"
  shows "broker_inv (broker_exit i b)"
proof -
  let ?k = "wk_key (br_heap b ! i)"
  have wi: "worker_inv (br_heap b ! i)" by (rule broker_invD(1) [OF assms(1,2)])
  then have st: "wk_stopped (br_heap b ! i)" using assms(3) by (simp add: worker_inv_def pc_ok_def)
  have w: "worker_inv ((br_heap b ! i)\<lparr>wk_pc := PcDone\<rparr>)"
    using worker_stopped_pc [OF wi st, of PcDone] assms(3) by simp
  have "map_of (br_workers b) ?k = Some i" using broker_invD(4) [OF assms(1,2)] assms(3) by simp
  moreover have b1: "broker_inv (on_worker i (\<lambda>w. w\<lparr>wk_pc := PcDone\<rparr>) b)"
    by (rule on_worker_inv [OF assms(1,2)]) (simp_all add: w)
  moreover have "broker_inv ((on_worker i (\<lambda>w. w\<lparr>wk_pc := PcDone\<rparr>) b)\<lparr>br_workers := AList.delete ?k (br_workers b)\<rparr>)"
    (is "broker_inv ?b")
  proof (rule broker_invI)
    note inv = broker_invD [OF assms(1)] and inv1 = broker_invD [OF b1]
    have heap: "br_heap ?b = (br_heap b)[i := (br_heap b ! i)\<lparr>wk_pc := PcDone\<rparr>]" by (simp add: on_worker_def)
    show "map_of (br_workers ?b) (wk_key (br_heap ?b ! j)) = Some j"
      if "j < length (br_heap ?b)" "wk_pc (br_heap ?b ! j) \<noteq> PcDone" for j
    proof -
      have "j \<noteq> i" "j < length (br_heap b)" using that assms(2) by (auto simp: heap)
      then have "map_of (br_workers b) (wk_key (br_heap b ! j)) = Some j" using inv(4) that by (simp add: heap)
      moreover from this have "wk_key (br_heap b ! j) \<noteq> ?k" using \<open>j \<noteq> i\<close> inv(4) [OF assms(2)] assms(3) by auto
      ultimately show ?thesis using \<open>j \<noteq> i\<close> by (simp add: heap delete_conv')
    qed
    show "j < length (br_heap ?b) \<and> wk_key (br_heap ?b ! j) = k" if "map_of (br_workers ?b) k = Some j" for k j
      using that inv(3) [of k j] assms(2) by (cases "j = i") (auto simp: heap delete_conv' split: if_splits)
  qed (use broker_invD [OF b1] broker_invD(2) [OF assms(1)] in \<open>auto simp: distinct_delete on_worker_def\<close>)
  ultimately show ?thesis by (simp add: broker_exit_def Let_def)
qed

lemma fail_step_inv:
  assumes "broker_inv b" "i < length (br_heap b)" "wk_pc (br_heap b ! i) = PcFail d"
  shows "broker_inv (on_worker i (\<lambda>w. w\<lparr>wk_pc := PcReturn\<rparr>) (broker_fail i d FailureDelivery b))"
proof -
  let ?b = "broker_fail i d FailureDelivery b"
  note st = broker_fail_stops [OF assms, of d FailureDelivery]
  have inv: "broker_inv ?b" by (rule broker_fail_inv [OF assms(1,2)])
  have i: "i < length (br_heap ?b)" using assms(2) st(3) by simp
  have "worker_inv ((br_heap ?b ! i)\<lparr>wk_pc := PcReturn\<rparr>)"
    using worker_stopped_pc [OF broker_invD(1) [OF inv i] st(1), of PcReturn] st(4) by simp
  then show ?thesis by (intro on_worker_inv [OF inv i]) (simp_all add: st(4))
qed

lemma broker_inv_invalid [simp]: "broker_inv (b\<lparr>br_invalid := x\<rparr>) = broker_inv b"
  by (simp add: broker_inv_def)

lemma broker_Cancel_inv: "broker_inv b \<Longrightarrow> broker_inv (broker_Cancel p target token b)"
proof -
  assume inv: "broker_inv b"
  have "broker_inv (on_worker i stopNoWait b)" if "map_of (br_workers b) k = Some i" for k i
    using broker_invD(1,3) [OF inv] that by (intro on_worker_inv [OF inv]) (auto simp: stopNoWait_inv)
  then show ?thesis
    using inv by (simp add: broker_Cancel_def Let_def split: option.splits)
qed

lemma broker_Complete_inv: "broker_inv b \<Longrightarrow> broker_inv (broker_Complete p target token b)"
proof -
  assume inv: "broker_inv b"
  have "broker_inv (on_worker i completeNoWait b)" if "map_of (br_workers b) k = Some i" for k i
    using broker_invD(1,3) [OF inv] that by (intro on_worker_inv [OF inv]) (auto simp: completeNoWait_inv)
  then show ?thesis
    using inv by (simp add: broker_Complete_def Let_def split: option.splits)
qed

lemma overrun_inv:
  assumes "broker_inv b" "n < length (br_overruns b)" "br_overruns b ! n = (i, d)"
  shows "broker_inv ((broker_fail i d FailureOverrun b)\<lparr>br_overruns := without n (br_overruns b)\<rparr>)"
proof -
  have "i < length (br_heap b)" using broker_invD(6) [OF assms(1)] assms(2,3) nth_mem by metis
  from broker_fail_inv [OF assms(1) this] show ?thesis
    by (rule broker_inv_same) (auto simp: broker_fail_def Let_def on_worker_def dest: subsetD [OF set_without])
qed

lemma broker_step_inv:
  assumes "broker_inv b" "broker_step wire ev b = Some b'"
  shows "broker_inv b'"
proof (cases ev)
  case (EvApply vs)
  have "broker_inv (broker_Apply vs b)"
    unfolding broker_Apply_def Let_def
    by (auto intro: broker_inv_same [OF stop_workers_inv [OF assms(1)]] simp: assms(1))
  then show ?thesis using assms(2) EvApply by simp
next
  case EvClose
  have "broker_inv (broker_Close b)"
    unfolding broker_Close_def
    by (auto intro: broker_inv_same [OF stop_workers_inv [OF assms(1)]] simp: assms(1))
  then show ?thesis using assms(2) EvClose by simp
next
  case (EvWake i)
  then show ?thesis using assms
    by (auto split: if_splits intro!: on_worker_inv worker_wake_inv broker_invD(1))
next
  case (EvBegin i)
  then show ?thesis using assms
    by (auto split: if_splits intro!: on_worker_inv worker_begin_inv broker_invD(1))
next
  case (EvReturn i outcome)
  then show ?thesis using assms
    by (auto split: if_splits worker_pc.splits intro!: on_worker_inv worker_return_inv broker_invD(1))
next
  case (EvRespond i)
  then show ?thesis using assms
    by (auto split: if_splits worker_pc.splits intro!: on_worker_inv worker_respond_inv broker_invD(1))
next
  case (EvCanceled i)
  then show ?thesis using assms
    by (auto split: if_splits intro!: on_worker_inv worker_stopped_pc broker_invD(1))
next
  case (EvOverrun n)
  then show ?thesis using assms by (auto split: if_splits prod.splits intro: overrun_inv)
qed (use assms in \<open>auto split: if_splits worker_pc.splits intro: publish_admit_inv publish_enqueue_inv broker_Cancel_inv
      broker_Complete_inv fail_step_inv broker_exit_inv\<close>)

lemma New_inv: "broker_inv New"
  by (rule broker_invI) (simp_all add: New_def)

lemma broker_reach_inv: "broker_reach wire b \<Longrightarrow> broker_inv b"
  by (induction rule: broker_reach.induct) (auto intro: New_inv broker_step_inv)

subsection \<open>Answers, order and bounds\<close>

text \<open>(C7) Every input that a caller waits for is answered exactly once, and no other is answered. The answered
  deliveries of a session are at any time among the enqueued ones with a response channel, each as often at most as it was
  enqueued, so that a send to the channel of a waiting caller, which has room for one answer, never blocks; and when the
  goroutine of the session has ended, they are exactly those: no caller is left waiting, whether its input was delivered,
  failed, cancelled, overrun or discarded by the end of the session or of the broker.\<close>

theorem answered_exactly_once:
  assumes "broker_reach wire b" "w \<in> set (br_heap b)"
  shows "mset (map fst (wk_answers w)) \<subseteq># mset (filter qd_waits (wk_enqueued w)) \<and>
    (wk_pc w = PcDone \<longrightarrow> mset (map fst (wk_answers w)) = mset (filter qd_waits (wk_enqueued w)))"
proof -
  have w: "worker_inv w" using broker_reach_inv [OF assms(1)] assms(2) by (simp add: broker_inv_def)
  then have "mset (filter qd_waits (wk_enqueued w)) =
      filter_mset qd_waits (mset (wk_queue w) + held (wk_pc w)) + mset (map fst (wk_answers w))"
    by (simp add: worker_inv_def accounted_def)
  moreover have "wk_queue w = []" if "wk_pc w = PcDone" using w that by (simp add: worker_inv_def pc_ok_def)
  ultimately show ?thesis by auto
qed

text \<open>(C37) Input is delivered in order and in bounds: the callbacks of a session begin in the order in which
  its inputs were enqueued, without gaps and without repetition; never more than 64 inputs are queued, the one in the
  callback included; and while the session is open, what is queued is what was enqueued last, of which at most the first has begun.\<close>

theorem delivered_in_order:
  assumes "broker_reach wire b" "w \<in> set (br_heap b)"
  shows "prefix (wk_begun w) (wk_enqueued w) \<and> length (wk_queue w) \<le> 64 \<and>
    (\<not> isUnavailable w \<longrightarrow> (\<exists>past. wk_enqueued w = past @ wk_queue w \<and> wk_begun w \<in> {past, past @ take 1 (wk_queue w)}))"
proof -
  have w: "worker_inv w" using broker_reach_inv [OF assms(1)] assms(2) by (simp add: broker_inv_def)
  then have o: "in_order w" "length (wk_queue w) \<le> 64" by (simp_all add: worker_inv_def InteractionQueueSize_def)
  then show ?thesis by (auto simp: in_order_def isUnavailable_def)
qed

text \<open>No worker is stuck. In every reachable state, a worker that has not ended is idle with an empty
  queue, waits for the plugin to return, or has a step of its own that can happen now: a queued input is
  never forgotten, and a cancelled worker always ends.\<close>

theorem worker_progress:
  assumes "broker_reach wire b" "i < length (br_heap b)"
  shows "wk_pc (br_heap b ! i) = PcDone \<or> (wk_pc (br_heap b ! i) = PcWait \<and> wk_queue (br_heap b ! i) = [] \<and> \<not> wk_stopped (br_heap b ! i)) \<or>
    (\<exists>d. wk_pc (br_heap b ! i) = PcDeliver d) \<or>
    (\<exists>ev\<in>{EvWake i, EvCanceled i, EvBegin i, EvRespond i, EvFail i, EvExit i}. broker_step wire ev b \<noteq> None)"
proof -
  have "pc_ok (br_heap b ! i)"
    using worker_invD(3) [OF broker_invD(1) [OF broker_reach_inv [OF assms(1)] assms(2)]] .
  then show ?thesis using assms(2) by (cases "wk_pc (br_heap b ! i)") (auto simp: pc_ok_def)
qed

subsection \<open>Cancelling\<close>

definition broker_moves :: "(SessionInputRequest \<Rightarrow> nat option) \<Rightarrow> Broker \<Rightarrow> Broker \<Rightarrow> bool" where
  "broker_moves wire b b' \<longleftrightarrow> (\<exists>ev. broker_step wire ev b = Some b')"

text \<open>What one step does to a worker: a stopped worker begins nothing and takes nothing.\<close>

definition worker_later :: "worker \<Rightarrow> worker \<Rightarrow> bool" where
  "worker_later w w' \<longleftrightarrow> wk_key w' = wk_key w \<and> wk_enqueued w' = wk_enqueued w \<and>
     (wk_stopped w \<longrightarrow> wk_stopped w' \<and> wk_begun w' = wk_begun w)"

lemma worker_later_ops [simp]:
  "worker_later w w" "worker_later w (stopNoWait w)" "worker_later w (completeNoWait w)" "worker_later w (worker_begin w)"
  "worker_later w (worker_return outcome d w)" "worker_later w (worker_respond d result stop w)"
  "worker_later w (w\<lparr>wk_pc := pc\<rparr>)" "worker_later w (w\<lparr>wk_notify := n, wk_pc := pc\<rparr>)"
  by (auto simp: worker_later_def worker_ops Let_def split: list.splits prod.splits)

definition step_frame :: "Broker \<Rightarrow> Broker \<Rightarrow> bool" where
  "step_frame b b' \<longleftrightarrow> length (br_heap b') = length (br_heap b) \<and> br_next b' = br_next b \<and> set (br_pending b') \<subseteq> set (br_pending b) \<and>
     (\<forall>i<length (br_heap b). worker_later (br_heap b ! i) (br_heap b' ! i))"

lemma nth_list_update_if: "j < length xs \<Longrightarrow> xs[i := x] ! j = (if i = j then x else xs ! j)"
  by simp

lemma on_worker_frame [simp]: "worker_later (br_heap b ! i) (f (br_heap b ! i)) \<Longrightarrow> step_frame b (on_worker i f b)"
  by (auto simp: step_frame_def on_worker_def nth_list_update_if)

lemma broker_Apply_frame: "broker_inv b \<Longrightarrow> step_frame b (broker_Apply vs b)"
  unfolding broker_Apply_def Let_def by (simp add: step_frame_def stop_workers_nth)

lemma broker_Close_frame: "broker_inv b \<Longrightarrow> step_frame b (broker_Close b)"
  unfolding broker_Close_def by (simp add: step_frame_def stop_workers_nth)

lemma broker_fail_frame: "step_frame b (broker_fail i d reason b)"
  using on_worker_frame [of b i stopNoWait] by (auto simp: broker_fail_def Let_def step_frame_def)

lemma step_frame_refl [simp]: "step_frame b b"
  by (simp add: step_frame_def)

lemma step_frame_upd [simp]:
  "step_frame b (b'\<lparr>br_invalid := x\<rparr>) = step_frame b b'" "step_frame b (b'\<lparr>br_overruns := y\<rparr>) = step_frame b b'"
  "step_frame b (b'\<lparr>br_workers := z\<rparr>) = step_frame b b'"
  by (simp_all add: step_frame_def)

lemma fail_step_frame: "step_frame b (on_worker i (\<lambda>w. w\<lparr>wk_pc := PcReturn\<rparr>) (broker_fail i d reason b))"
proof -
  have "worker_later w ((stopNoWait w)\<lparr>wk_pc := PcReturn\<rparr>)" for w by (auto simp: worker_later_def worker_ops)
  then show ?thesis
    by (auto simp: step_frame_def on_worker_def broker_fail_def Let_def nth_list_update_if)
qed

lemma broker_step_frame:
  assumes "broker_inv b" "broker_step wire ev b = Some b'"
    and "\<nexists>n. ev = EvEnqueue n" "\<nexists>r t x tm ws. ev = EvPublish r t x tm ws"
  shows "step_frame b b'"
proof (cases ev)
  case (EvApply vs)
  then show ?thesis using assms(2) broker_Apply_frame [OF assms(1)] by auto
next
  case EvClose
  then show ?thesis using assms(2) broker_Close_frame [OF assms(1)] by auto
next
  case (EvOverrun n)
  then show ?thesis using assms(2) by (auto simp: broker_fail_frame split: if_splits prod.splits)
next
  case (EvFail i)
  then show ?thesis using assms(2) by (auto simp: fail_step_frame split: if_splits worker_pc.splits)
qed (use assms(2-4) in \<open>auto simp: broker_Cancel_def broker_Complete_def broker_exit_def Let_def
      split: if_splits worker_pc.splits option.splits\<close>)

text \<open>The sessions of a key since a moment: each is over, with what it had begun, or knows only later inputs.\<close>

definition renewed :: "sessionKey \<Rightarrow> u64 \<Rightarrow> queuedDelivery set \<Rightarrow> Broker \<Rightarrow> bool" where
  "renewed k n old b \<longleftrightarrow> n \<le> br_next b \<and>
     (\<forall>i<length (br_heap b). wk_key (br_heap b ! i) = k \<longrightarrow>
        (wk_stopped (br_heap b ! i) \<and> set (wk_begun (br_heap b ! i)) \<subseteq> old) \<or>
        ((\<forall>d\<in>set (wk_enqueued (br_heap b ! i)). n < req_Sequence (qd_request d)) \<and>
         (\<forall>d. (i, d) \<in> set (br_pending b) \<longrightarrow> n < req_Sequence (qd_request d))))"

lemma renewed_frame:
  assumes "renewed k n old b" "step_frame b b'"
  shows "renewed k n old b'"
  unfolding renewed_def
proof (intro conjI allI impI)
  show "n \<le> br_next b'" using assms by (simp add: renewed_def step_frame_def)
  fix i assume i: "i < length (br_heap b')" "wk_key (br_heap b' ! i) = k"
  then have j: "i < length (br_heap b)" and later: "worker_later (br_heap b ! i) (br_heap b' ! i)"
    and pending: "set (br_pending b') \<subseteq> set (br_pending b)"
    using assms(2) by (auto simp: step_frame_def)
  then have "wk_key (br_heap b ! i) = k" using i(2) by (simp add: worker_later_def)
  then have "(wk_stopped (br_heap b ! i) \<and> set (wk_begun (br_heap b ! i)) \<subseteq> old) \<or>
      ((\<forall>d\<in>set (wk_enqueued (br_heap b ! i)). n < req_Sequence (qd_request d)) \<and>
       (\<forall>d. (i, d) \<in> set (br_pending b) \<longrightarrow> n < req_Sequence (qd_request d)))"
    using assms(1) j by (simp add: renewed_def)
  then show "(wk_stopped (br_heap b' ! i) \<and> set (wk_begun (br_heap b' ! i)) \<subseteq> old) \<or>
      ((\<forall>d\<in>set (wk_enqueued (br_heap b' ! i)). n < req_Sequence (qd_request d)) \<and>
       (\<forall>d. (i, d) \<in> set (br_pending b') \<longrightarrow> n < req_Sequence (qd_request d)))"
    using later pending unfolding worker_later_def by auto
qed

lemma renewed_enqueue:
  assumes "renewed k n old b" "broker_inv b" "m < length (br_pending b)"
  shows "renewed k n old (publish_enqueue m b)"
proof -
  obtain i d where p: "br_pending b ! m = (i, d)" by fastforce
  have mem: "(i, d) \<in> set (br_pending b)" using assms(3) nth_mem p by metis
  have i: "i < length (br_heap b)" by (rule broker_invD(5) [OF assms(2) mem])
  have sub: "set (br_pending (publish_enqueue m b)) \<subseteq> set (br_pending b)" "br_next (publish_enqueue m b) = br_next b"
    "length (br_heap (publish_enqueue m b)) = length (br_heap b)"
    by (auto simp: publish_enqueue_def p split: prod.splits option.splits enqueue_error.splits dest: subsetD [OF set_without])
  have heap: "br_heap (publish_enqueue m b) ! j =
      (if j = i \<and> fst (worker_enqueue d (br_heap b ! i)) = None
       then (br_heap b ! i)\<lparr>wk_queue := wk_queue (br_heap b ! i) @ [d], wk_notify := True, wk_enqueued := wk_enqueued (br_heap b ! i) @ [d]\<rparr>
       else br_heap b ! j)" if "j < length (br_heap b)" for j
    using i that by (auto simp: publish_enqueue_def p worker_enqueue_def)
  have open_only: "\<not> wk_stopped (br_heap b ! i)" if "fst (worker_enqueue d (br_heap b ! i)) = None"
    using that by (auto simp: worker_enqueue_def split: if_splits)
  show ?thesis
    unfolding renewed_def sub(2,3)
  proof (intro conjI allI impI)
    show "n \<le> br_next b" using assms(1) by (simp add: renewed_def)
    fix j assume j: "j < length (br_heap b)" "wk_key (br_heap (publish_enqueue m b) ! j) = k"
    then have k: "wk_key (br_heap b ! j) = k" using heap [OF j(1)] by (auto split: if_splits)
    show "(wk_stopped (br_heap (publish_enqueue m b) ! j) \<and> set (wk_begun (br_heap (publish_enqueue m b) ! j)) \<subseteq> old) \<or>
      ((\<forall>d\<in>set (wk_enqueued (br_heap (publish_enqueue m b) ! j)). n < req_Sequence (qd_request d)) \<and>
       (\<forall>d. (j, d) \<in> set (br_pending (publish_enqueue m b)) \<longrightarrow> n < req_Sequence (qd_request d)))"
      using assms(1) j(1) k mem open_only sub(1) unfolding renewed_def heap [OF j(1)] by auto
  qed
qed

lemma publish_admit_effect:
  assumes "broker_inv b" "br_next b \<noteq> - 1" "b' = snd (publish_admit wire target token input at waits b)"
  shows "b' = b \<or> (br_next b' = br_next b + 1 \<and>
    (\<exists>i d. br_pending b' = br_pending b @ [(i, d)] \<and> req_Sequence (qd_request d) = br_next b + 1) \<and>
    (br_heap b' = br_heap b \<or> (\<exists>k. br_heap b' = br_heap b @ [newWorker k])))"
  unfolding assms(3) publish_admit_def Let_def by (simp split del: if_split split: if_splits) auto

lemma renewed_publish:
  assumes "renewed k n old b" "broker_inv b" "br_next b \<noteq> - 1" "b' = snd (publish_admit wire target token input at waits b)"
  shows "renewed k n old b'"
  using publish_admit_effect [OF assms(2-4)]
proof
  assume "b' = b" then show ?thesis using assms(1) by simp
next
  assume "br_next b' = br_next b + 1 \<and> (\<exists>i d. br_pending b' = br_pending b @ [(i, d)] \<and> req_Sequence (qd_request d) = br_next b + 1) \<and>
    (br_heap b' = br_heap b \<or> (\<exists>k. br_heap b' = br_heap b @ [newWorker k]))"
  then obtain i d x where e: "br_next b' = br_next b + 1" "br_pending b' = br_pending b @ [(i, d)]"
    "req_Sequence (qd_request d) = br_next b + 1" "br_heap b' = br_heap b @ x" "x = [] \<or> (\<exists>k. x = [newWorker k])" by auto
  have "n \<le> br_next b" using assms(1) by (simp add: renewed_def)
  moreover have less: "br_next b < br_next b + 1" by (rule u64_less_Suc [OF assms(3)])
  ultimately have n: "n < br_next b + 1" by simp
  show ?thesis
    unfolding renewed_def e(1)
  proof (intro conjI allI impI)
    show "n \<le> br_next b + 1" using n by simp
    fix j assume j: "j < length (br_heap b')" "wk_key (br_heap b' ! j) = k"
    show "(wk_stopped (br_heap b' ! j) \<and> set (wk_begun (br_heap b' ! j)) \<subseteq> old) \<or>
      ((\<forall>d\<in>set (wk_enqueued (br_heap b' ! j)). n < req_Sequence (qd_request d)) \<and>
       (\<forall>d. (j, d) \<in> set (br_pending b') \<longrightarrow> n < req_Sequence (qd_request d)))"
    proof (cases "j < length (br_heap b)")
      case True
      then have "br_heap b' ! j = br_heap b ! j" by (simp add: e(4) nth_append)
      moreover have "(wk_stopped (br_heap b ! j) \<and> set (wk_begun (br_heap b ! j)) \<subseteq> old) \<or>
          ((\<forall>d\<in>set (wk_enqueued (br_heap b ! j)). n < req_Sequence (qd_request d)) \<and>
           (\<forall>d. (j, d) \<in> set (br_pending b) \<longrightarrow> n < req_Sequence (qd_request d)))"
        using assms(1) True j(2) calculation by (simp add: renewed_def)
      ultimately show ?thesis using n e(2,3) by auto
    next
      case False
      then have "br_heap b' ! j = newWorker (wk_key (br_heap b' ! j))"
        using j(1) e(4,5) by (auto simp: nth_append newWorker_def less_Suc_eq)
      then have "wk_enqueued (br_heap b' ! j) = []" by (metis newWorker_def worker.select_convs(8))
      moreover have "(j, d') \<notin> set (br_pending b)" for d' using broker_invD(5) [OF assms(2)] False by blast
      ultimately show ?thesis using n e(2,3) by auto
    qed
  qed
qed

lemma renewed_step:
  assumes "renewed k n old b" "broker_inv b" "broker_step wire ev b = Some b'"
  shows "renewed k n old b'"
proof (cases "(\<exists>m. ev = EvEnqueue m) \<or> (\<exists>r t x tm ws. ev = EvPublish r t x tm ws)")
  case True
  then show ?thesis using assms by (auto split: if_splits intro: renewed_enqueue renewed_publish)
next
  case False
  then show ?thesis using renewed_frame [OF assms(1)] broker_step_frame [OF assms(2,3)] by blast
qed

lemma renewed_moves:
  assumes "(broker_moves wire)\<^sup>*\<^sup>* b b'" "renewed k n old b" "broker_inv b"
  shows "renewed k n old b' \<and> broker_inv b'"
  using assms
  by (induction rule: rtranclp_induct) (auto simp: broker_moves_def intro: renewed_step broker_step_inv)

lemma cancel_renews:
  assumes "broker_inv b"
  shows "renewed (session_key p target token) (br_next b) (\<Union>w\<in>set (br_heap b). set (wk_begun w)) (broker_Cancel p target token b)"
proof -
  let ?k = "session_key p target token"
  let ?b = "broker_Cancel p target token b"
  have len: "length (br_heap ?b) = length (br_heap b)" "br_next ?b = br_next b"
    by (simp_all add: broker_Cancel_def Let_def on_worker_def split: option.splits)
  show ?thesis
    unfolding renewed_def len
  proof (intro conjI allI impI disjI1)
    fix i assume i: "i < length (br_heap b)" "wk_key (br_heap ?b ! i) = ?k"
    have key: "wk_key (br_heap b ! i) = ?k" and begun: "wk_begun (br_heap ?b ! i) = wk_begun (br_heap b ! i)"
      using i by (auto simp: broker_Cancel_def Let_def on_worker_def nth_list_update_if split: option.splits if_splits)
    show "wk_stopped (br_heap ?b ! i)"
    proof (cases "wk_pc (br_heap b ! i) = PcDone")
      case True
      then have "wk_stopped (br_heap b ! i)" using worker_invD(3) [OF broker_invD(1) [OF assms i(1)]] by (simp add: pc_ok_def)
      then show ?thesis using i(1) by (auto simp: broker_Cancel_def Let_def on_worker_def nth_list_update_if split: option.splits)
    next
      case False
      then have "map_of (br_workers b) ?k = Some i" using broker_invD(4) [OF assms i(1)] key by simp
      then show ?thesis using i(1) by (simp add: broker_Cancel_def Let_def on_worker_def)
    qed
    show "set (wk_begun (br_heap ?b ! i)) \<subseteq> (\<Union>w\<in>set (br_heap b). set (wk_begun w))"
      unfolding begun using i(1) nth_mem by blast
  qed simp
qed

text \<open>(C25) Cancelling a session takes effect at once. After \<open>Cancel\<close>, whatever the publishers, the plugin and
  other callers do, no input that was published for the session before the cancellation is handed to the
  plugin any more: a delivery to a worker of that session either had begun before, or carries a sequence
  number that was assigned after the cancellation. In particular an input that was admitted but not yet
  queued when the session ended is not delivered to a later session with the same identity.\<close>

theorem cancel_discards:
  assumes "broker_reach wire b" "(broker_moves wire)\<^sup>*\<^sup>* (broker_Cancel p target token b) b'"
    and "w \<in> set (br_heap b')" "wk_key w = session_key p target token" "d \<in> set (wk_begun w)"
  shows "br_next b < req_Sequence (qd_request d) \<or> (\<exists>w0\<in>set (br_heap b). d \<in> set (wk_begun w0))"
proof -
  have inv: "broker_inv b" by (rule broker_reach_inv [OF assms(1)])
  have r: "renewed (session_key p target token) (br_next b) (\<Union>w\<in>set (br_heap b). set (wk_begun w)) b'" "broker_inv b'"
    using renewed_moves [OF assms(2) cancel_renews [OF inv] broker_Cancel_inv [OF inv]] by auto
  obtain i where i: "i < length (br_heap b')" "w = br_heap b' ! i" using assms(3) by (auto simp: in_set_conv_nth)
  have "prefix (wk_begun w) (wk_enqueued w)"
    using worker_invD(2) [OF broker_invD(1) [OF r(2) i(1)]] by (simp add: i(2) in_order_def)
  then have "d \<in> set (wk_enqueued w)" using assms(5) set_mono_prefix by blast
  then show ?thesis using r(1) i assms(4,5) unfolding renewed_def by blast
qed

subsection \<open>Failed sessions\<close>

text \<open>
  The events that make a failed session usable again: its session is cancelled or completed, or the routing is replaced by
  one that does not give the app instance to the same plugin (of several entries the last counts).
\<close>

definition routed :: "TargetSet list \<Rightarrow> string \<rightharpoonup> string" where
  "routed vs = map_of (rev (concat (map (\<lambda>v. map (\<lambda>i. (i, ts_PluginID v)) (ts_InstanceIDs v)) vs)))"

fun resets :: "sessionKey \<Rightarrow> broker_event \<Rightarrow> bool" where
  "resets k (EvApply vs) = (routed vs (sk_instanceID k) \<noteq> Some (sk_pluginID k))"
| "resets k EvClose = True"
| "resets k (EvCancel p target token) = (session_key p target token = k)"
| "resets k (EvComplete p target token) = (session_key p target token = k)"
| "resets k _ = False"

fun broker_run :: "(SessionInputRequest \<Rightarrow> nat option) \<Rightarrow> broker_event list \<Rightarrow> Broker \<Rightarrow> Broker option" where
  "broker_run wire [] b = Some b"
| "broker_run wire (ev # evs) b = (case broker_step wire ev b of None \<Rightarrow> None | Some b' \<Rightarrow> broker_run wire evs b')"

lemma broker_run_reach: "broker_reach wire b \<Longrightarrow> broker_run wire evs b = Some b' \<Longrightarrow> broker_reach wire b'"
  by (induction evs arbitrary: b) (auto split: option.splits intro: broker_reach.step)

lemma fold_update: "map_of (fold (\<lambda>i. AList.update i p) is t) = map_of t ++ map_of (rev (map (\<lambda>i. (i, p)) is))"
  by (induction "is" arbitrary: t) (simp_all add: update_conv')

lemma fold_targets:
  "map_of (fold (\<lambda>v t. fold (\<lambda>i. AList.update i (ts_PluginID v)) (ts_InstanceIDs v) t) vs t) = map_of t ++ routed vs"
  by (induction vs arbitrary: t) (simp_all add: routed_def fold_update)

lemma Apply_keeps_invalid:
  "routed vs (sk_instanceID k) = Some (sk_pluginID k) \<Longrightarrow> k \<in> set (br_invalid b) \<Longrightarrow> k \<in> set (br_invalid (broker_Apply vs b))"
  by (simp add: broker_Apply_def Let_def target_of_def fold_targets)

lemma invalid_step:
  assumes "broker_step wire ev b = Some b'" "\<not> resets k ev" "k \<in> set (br_invalid b)"
  shows "k \<in> set (br_invalid b')"
proof (cases ev)
  case (EvPublish r t x tm ws)
  have "br_invalid (snd (publish_admit wire r t x tm ws b)) = br_invalid b"
    unfolding publish_admit_def Let_def by (simp split del: if_split split: if_splits)
  then show ?thesis using assms EvPublish by (auto split: if_splits)
next
  case (EvApply vs)
  then show ?thesis using assms Apply_keeps_invalid by auto
qed (use assms in \<open>auto simp: publish_enqueue_def broker_fail_def broker_Cancel_def broker_Complete_def broker_exit_def
      on_worker_def Let_def split: if_splits prod.splits worker_pc.splits option.splits enqueue_error.splits\<close>)

lemma invalid_run:
  "broker_run wire evs b = Some b' \<Longrightarrow> list_all (\<lambda>ev. \<not> resets k ev) evs \<Longrightarrow> k \<in> set (br_invalid b) \<Longrightarrow> k \<in> set (br_invalid b')"
  by (induction evs arbitrary: b) (auto split: option.splits dest: invalid_step)

text \<open>(C38) A failed session is closed, and its failure reported, exactly once. When a delivery fails or the
  queue overruns while the session is open, one failure is reported and the worker stops; afterwards,
  until the session is cancelled or completed or a replaced routing takes its app instance from the plugin, every
  publication for it is refused and changes nothing; routing that keeps the instance with the plugin does not help. When the
  session is already over, nothing is reported.\<close>

theorem failed_session_refuses:
  assumes "i < length (br_heap b)" "b1 = broker_fail i d reason b"
    and "broker_run wire evs b1 = Some b2" "list_all (\<lambda>ev. \<not> resets (wk_key (br_heap b ! i)) ev) evs"
    and "session_key (target_of (br_targets b2) (ref_ID target)) target token = wk_key (br_heap b ! i)"
    and "sk_pluginID (wk_key (br_heap b ! i)) \<noteq> ''''" "\<not> br_closed b2"
  shows "if map_of (br_workers b) (wk_key (br_heap b ! i)) \<noteq> Some i \<or> isUnavailable (br_heap b ! i) then b1 = b
    else br_failures b1 = br_failures b @ [(sk_pluginID (wk_key (br_heap b ! i)), qd_request d, reason)] \<and>
      wk_stopped (br_heap b1 ! i) \<and>
      publish_admit wire target token input at waits b2 = (Some PublishInvalidated, b2)"
proof -
  let ?k = "wk_key (br_heap b ! i)"
  have "publish_admit wire target token input at waits b2 = (Some PublishInvalidated, b2)"
    if "?k \<in> set (br_invalid b1)"
  proof -
    have "?k \<in> set (br_invalid b2)" by (rule invalid_run [OF assms(3,4) that])
    moreover have "target_of (br_targets b2) (ref_ID target) = sk_pluginID ?k"
      using assms(5) by (metis session_key_def sessionKey.select_convs(1))
    ultimately show ?thesis using assms(5-7) by (simp add: publish_admit_def Let_def)
  qed
  then show ?thesis using assms(1) by (auto simp: assms(2) broker_fail_def Let_def on_worker_def)
qed

subsection \<open>A run\<close>

abbreviation demo_wire :: "SessionInputRequest \<Rightarrow> nat option" where
  "demo_wire \<equiv> \<lambda>_. Some 100"

definition demo_press :: SessionInput where
  "demo_press = \<lparr>in_Button = None, in_Encoder = Some 1\<rparr>"

definition demo_key :: sessionKey where
  "demo_key = session_key ''calls'' demo_ref ''interactive-1''"

definition demo_delivery :: queuedDelivery where
  "demo_delivery = \<lparr>qd_request = \<lparr>req_Sequence = 1, req_OccurredAt = demo_time, req_Instance = demo_ref,
     req_SessionToken = ''interactive-1'', req_Input = demo_press\<rparr>, qd_waits = True\<rparr>"

lemma demo_delivery_waits [simp]: "qd_waits demo_delivery"
  by (simp add: demo_delivery_def)

lemma demo_delivery_valid: "request_Validate demo_wire (qd_request demo_delivery) = []"
  by (simp add: validate_eval go_time request_Validate_def validateSessionRequest_def input_Validate_def demo_delivery_def demo_press_def
      demo_ref_def demo_time_def MaxSessionInputBytes_def)

definition demo_setup :: "broker_event list" where
  "demo_setup = [EvApply [\<lparr>ts_PluginID = ''calls'', ts_InstanceIDs = [''desk'']\<rparr>],
     EvPublish demo_ref ''interactive-1'' (Some demo_press) demo_time True, EvEnqueue 0, EvWake 0, EvBegin 0]"

definition demo_broker :: Broker where
  "demo_broker = \<lparr>br_next = 1, br_targets = [(''desk'', ''calls'')], br_workers = [(demo_key, 0)],
     br_heap = [(newWorker demo_key)\<lparr>wk_queue := [demo_delivery], wk_inFlight := True, wk_pc := PcDeliver demo_delivery,
       wk_enqueued := [demo_delivery], wk_begun := [demo_delivery]\<rparr>],
     br_invalid = [], br_stats = [(''calls'', \<lparr>bs_QueueDepth = 0, bs_LastSequence = 1, bs_Overruns = 0, bs_LastErrorCode = ''''\<rparr>)],
     br_closed = False, br_pending = [], br_overruns = [], br_failures = []\<rparr>"

lemma demo_setup_run: "broker_run demo_wire demo_setup New = Some demo_broker"
proof -
  define b1 where "b1 = broker_Apply [\<lparr>ts_PluginID = ''calls'', ts_InstanceIDs = [''desk'']\<rparr>] New"
  have b1: "b1 = New\<lparr>br_targets := [(''desk'', ''calls'')],
      br_stats := [(''calls'', \<lparr>bs_QueueDepth = 0, bs_LastSequence = 0, bs_Overruns = 0, bs_LastErrorCode = ''''\<rparr>)]\<rparr>"
    by (simp add: b1_def broker_Apply_def Let_def New_def stop_workers_def status_of_def)
  have ref: "ref_ID demo_ref = ''desk''" by (simp add: demo_ref_def)
  have request: "qd_request demo_delivery = \<lparr>req_Sequence = 1, req_OccurredAt = time_utc demo_time, req_Instance = demo_ref,
     req_SessionToken = ''interactive-1'', req_Input = demo_press\<rparr>"
    by (simp add: demo_delivery_def demo_time_def go_time)
  have b2: "publish_admit demo_wire demo_ref ''interactive-1'' (Some demo_press) demo_time True b1 =
      (None, b1\<lparr>br_heap := [newWorker demo_key], br_workers := [(demo_key, 0)], br_next := 1,
        br_stats := [(''calls'', \<lparr>bs_QueueDepth = 0, bs_LastSequence = 1, bs_Overruns = 0, bs_LastErrorCode = ''''\<rparr>)],
        br_pending := [(0, demo_delivery)]\<rparr>)"
    using demo_delivery_valid request
    by (simp add: publish_admit_def Let_def b1 New_def target_of_def ref demo_key_def status_of_def demo_delivery_def)
  show ?thesis
    by (simp add: demo_setup_def b1_def [symmetric] b2)
      (simp add: b1 New_def publish_enqueue_def worker_enqueue_def newWorker_def InteractionQueueSize_def without_def on_worker_def
        worker_begin_def demo_broker_def)
qed

lemma demo_broker_reach: "broker_reach demo_wire demo_broker"
  by (rule broker_run_reach [OF broker_reach.start demo_setup_run])

definition demo_rejected :: worker where
  "demo_rejected = (newWorker demo_key)\<lparr>wk_inFlight := True, wk_stopped := True, wk_pc := PcDeliver demo_delivery,
     wk_enqueued := [demo_delivery], wk_begun := [demo_delivery],
     wk_answers := [(demo_delivery, (OtherInputDisposition '''', Some ErrSessionInvalidated))]\<rparr>"

lemma demo_cancelled: "broker_Cancel ''calls'' demo_ref ''interactive-1'' demo_broker = demo_broker\<lparr>br_heap := [demo_rejected]\<rparr>"
  by (simp add: broker_Cancel_def Let_def demo_broker_def demo_key_def [symmetric] on_worker_def worker_ops demo_rejected_def)

definition demo_over :: Broker where
  "demo_over = demo_broker\<lparr>br_heap := [demo_rejected\<lparr>wk_pc := PcDone\<rparr>], br_workers := []\<rparr>"

lemma demo_over_run:
  "broker_run demo_wire [EvCancel ''calls'' demo_ref ''interactive-1'', EvReturn 0 (SessionInputConsumed, False), EvExit 0] demo_broker
     = Some demo_over"
  by (simp add: demo_cancelled)
    (simp add: demo_broker_def on_worker_def worker_ops broker_exit_def Let_def demo_over_def demo_rejected_def)

lemma demo_over_reach: "broker_reach demo_wire demo_over"
  by (rule broker_run_reach [OF demo_broker_reach demo_over_run])

theorem answered_exactly_once_witness:
  "mset (map fst (wk_answers (demo_rejected\<lparr>wk_pc := PcDone\<rparr>))) = mset (filter qd_waits (wk_enqueued (demo_rejected\<lparr>wk_pc := PcDone\<rparr>)))"
  using answered_exactly_once [OF demo_over_reach, of "demo_rejected\<lparr>wk_pc := PcDone\<rparr>"] by (simp add: demo_over_def)

theorem delivered_in_order_witness: "prefix (wk_begun (br_heap demo_broker ! 0)) (wk_enqueued (br_heap demo_broker ! 0))"
  using delivered_in_order [OF demo_broker_reach, of "br_heap demo_broker ! 0"] by (simp add: demo_broker_def)

theorem worker_progress_witness:
  "\<exists>ev\<in>{EvWake 0, EvCanceled 0, EvBegin 0, EvRespond 0, EvFail 0, EvExit 0}.
     broker_step demo_wire ev (demo_broker\<lparr>br_heap := [demo_rejected\<lparr>wk_pc := PcReturn\<rparr>]\<rparr>) \<noteq> None"
proof -
  have "broker_run demo_wire [EvCancel ''calls'' demo_ref ''interactive-1'', EvReturn 0 (SessionInputConsumed, False)] demo_broker
      = Some (demo_broker\<lparr>br_heap := [demo_rejected\<lparr>wk_pc := PcReturn\<rparr>]\<rparr>)"
    by (simp add: demo_cancelled)
      (simp add: demo_broker_def on_worker_def worker_ops Let_def demo_rejected_def)
  moreover define b where "b = demo_broker\<lparr>br_heap := [demo_rejected\<lparr>wk_pc := PcReturn\<rparr>]\<rparr>"
  ultimately have "broker_reach demo_wire b" using broker_run_reach [OF demo_broker_reach] by metis
  moreover have "0 < length (br_heap b)" "wk_pc (br_heap b ! 0) = PcReturn" by (simp_all add: b_def)
  ultimately show ?thesis using worker_progress [of demo_wire b 0] unfolding b_def [symmetric] by force
qed

theorem cancel_discards_witness:
  "br_next demo_broker < req_Sequence (qd_request demo_delivery) \<or> (\<exists>w0\<in>set (br_heap demo_broker). demo_delivery \<in> set (wk_begun w0))"
  by (rule cancel_discards [OF demo_broker_reach, of "''calls''" demo_ref "''interactive-1''"
        "demo_broker\<lparr>br_heap := [demo_rejected]\<rparr>" demo_rejected])
    (simp_all add: demo_cancelled demo_rejected_def newWorker_def demo_key_def)

theorem failed_session_refuses_witness:
  "fst (publish_admit demo_wire demo_ref ''interactive-1'' None demo_time False
      (broker_Apply [\<lparr>ts_PluginID = ''calls'', ts_InstanceIDs = [''desk'']\<rparr>] (broker_fail 0 demo_delivery FailureOverrun demo_broker)))
     = Some PublishInvalidated"
proof -
  have w: "br_heap demo_broker ! 0 = (newWorker demo_key)\<lparr>wk_queue := [demo_delivery], wk_inFlight := True,
      wk_pc := PcDeliver demo_delivery, wk_enqueued := [demo_delivery], wk_begun := [demo_delivery]\<rparr>"
    by (simp add: demo_broker_def)
  let ?vs = "[\<lparr>ts_PluginID = ''calls'', ts_InstanceIDs = [''desk'']\<rparr>]"
  let ?b = "broker_Apply ?vs (broker_fail 0 demo_delivery FailureOverrun demo_broker)"
  have b: "br_targets ?b = [(''desk'', ''calls'')]" "\<not> br_closed ?b"
    by (simp_all add: broker_Apply_def broker_fail_def Let_def on_worker_def demo_broker_def)
  have "\<not> resets demo_key (EvApply ?vs)" by (simp add: routed_def demo_key_def session_key_def demo_ref_def)
  then show ?thesis
    using failed_session_refuses [OF _ refl, of 0 demo_broker demo_wire "[EvApply ?vs]" demo_delivery FailureOverrun ?b demo_ref
        "''interactive-1''" None demo_time False] b
    by (simp add: w newWorker_def isUnavailable_def target_of_def del: resets.simps)
      (simp add: demo_broker_def demo_key_def session_key_def demo_ref_def)
qed

end
