(* ===== verification/Machines.thy ===== *)
theory Machines
  imports Bsb_Prelude
begin

text \<open>
  State machines whose steps may be disabled, for the components that are driven by several goroutines:
  an event is one critical section of the code, and a step that the goroutine cannot take yet has no
  result. The interface \<open>invariant_machine\<close> is a machine with an invariant, and \<open>refined_machine\<close> one
  whose steps are steps of a simpler machine seen through an abstraction.
\<close>

primrec run_steps :: "('ev \<Rightarrow> 's \<Rightarrow> 's option) \<Rightarrow> 'ev list \<Rightarrow> 's \<Rightarrow> 's option" where
  "run_steps step [] s = Some s"
| "run_steps step (e # es) s = (case step e s of None \<Rightarrow> None | Some s' \<Rightarrow> run_steps step es s')"

definition reaches :: "('ev \<Rightarrow> 's \<Rightarrow> 's option) \<Rightarrow> 's \<Rightarrow> 's \<Rightarrow> bool" where
  "reaches step s s' \<longleftrightarrow> (\<exists>evs. run_steps step evs s = Some s')"

lemma run_steps_append: "run_steps step (xs @ ys) s = Option.bind (run_steps step xs s) (run_steps step ys)"
  by (induction xs arbitrary: s) (auto split: option.splits)

lemma reachesI: "run_steps step evs s = Some s' \<Longrightarrow> reaches step s s'"
  by (auto simp: reaches_def)

lemma reaches_refl [simp]: "reaches step s s"
  by (rule reachesI [where evs = "[]"]) simp

lemma reaches_trans: "reaches step s s' \<Longrightarrow> reaches step s' s'' \<Longrightarrow> reaches step s s''"
proof -
  assume "reaches step s s'" "reaches step s' s''"
  then obtain xs ys where "run_steps step xs s = Some s'" "run_steps step ys s' = Some s''" by (auto simp: reaches_def)
  then show ?thesis by (intro reachesI [where evs = "xs @ ys"]) (simp add: run_steps_append)
qed

lemma reaches_step: "reaches step s s' \<Longrightarrow> step e s' = Some s'' \<Longrightarrow> reaches step s s''"
  by (erule reaches_trans) (auto intro: reachesI [where evs = "[e]"])

text \<open>What one step keeps, a run keeps.\<close>

lemma run_steps_keep:
  assumes "run_steps step evs s = Some s'" "P s" "\<And>e s s'. P s \<Longrightarrow> step e s = Some s' \<Longrightarrow> P s'"
  shows "P s'"
  using assms(1,2) by (induction evs arbitrary: s) (auto split: option.splits intro: assms(3))

lemma reaches_keep:
  assumes "reaches step s s'" "P s" "\<And>e s s'. P s \<Longrightarrow> step e s = Some s' \<Longrightarrow> P s'"
  shows "P s'"
  using assms(1) run_steps_keep [of step _ s s' P] assms(2,3) unfolding reaches_def by blast

locale invariant_machine =
  fixes step :: "'ev \<Rightarrow> 's \<Rightarrow> 's option"
    and start :: 's
    and inv :: "'s \<Rightarrow> bool"
  assumes start_inv: "inv start"
    and step_inv: "inv s \<Longrightarrow> step e s = Some s' \<Longrightarrow> inv s'"
begin

lemma reach_inv: "reaches step start s \<Longrightarrow> inv s"
  by (rule reaches_keep [where P = inv]) (auto intro: start_inv step_inv)

lemma keeps_inv: "inv s \<Longrightarrow> reaches step s s' \<Longrightarrow> inv s'"
  by (rule reaches_keep [where P = inv]) (auto intro: step_inv)

end

locale refined_machine = invariant_machine +
  fixes astep :: "'op \<Rightarrow> 'a \<Rightarrow> 'a option"
    and abs :: "'s \<Rightarrow> 'a"
  assumes simulates: "inv s \<Longrightarrow> step e s = Some s' \<Longrightarrow> \<exists>ops. run_steps astep ops (abs s) = Some (abs s')"
begin

lemma run_refines: "inv s \<Longrightarrow> reaches step s s' \<Longrightarrow> reaches astep (abs s) (abs s')"
proof -
  assume s: "inv s" "reaches step s s'"
  have "inv s' \<and> reaches astep (abs s) (abs s')"
  proof (rule reaches_keep [OF s(2), where P = "\<lambda>s'. inv s' \<and> reaches astep (abs s) (abs s')"])
    show "inv s \<and> reaches astep (abs s) (abs s)" using s(1) by simp
  next
    fix e t t' assume t: "inv t \<and> reaches astep (abs s) (abs t)" "step e t = Some t'"
    then obtain ops where "run_steps astep ops (abs t) = Some (abs t')" using simulates by blast
    then show "inv t' \<and> reaches astep (abs s) (abs t')"
      using t by (auto intro: step_inv reaches_trans reachesI)
  qed
  then show ?thesis by simp
qed

lemma refines: "reaches step start s \<Longrightarrow> reaches astep (abs start) (abs s)"
  by (rule run_refines [OF start_inv])

end

end
