(* ===== verification/InputDispatcher.thy ===== *)
theory InputDispatcher
  imports Machines
begin

text \<open>
  \<open>internal/input/dispatcher.go\<close>: the bounded queue between the stream of device events and the code that
  handles them. The stream submits without blocking, a goroutine (\<open>Run\<close>) takes events off the queue and
  handles one at a time, and any goroutine may start a new context, which retires every event that was
  accepted before. An event of the machine is one critical section, one channel operation or the return
  of a callback. Draining the queue is one step: a receive of \<open>Run\<close> in the middle of it is the receive just
  before it. The counters of contexts and statistics are 64 bits wide; that the number of contexts does not
  wrap around is a guard of the steps that start one.

  Input events are protocol buffer messages of the device library. Their fields are the ones the code
  reads, and the values of an enumeration the code does not name are kept apart by a number.
\<close>

subsection \<open>Data\<close>

datatype pb_button = Button_OK | Button_BACK | Button_START | Button_other int
datatype pb_action = Action_PRESS | Action_RELEASE | Action_other int
datatype pb_switch = Switch_APPS | Switch_other int

datatype input_event =
    ButtonEvent pb_button pb_action
  | EncoderEvent int \<comment> \<open>the delta, an \<open>int32\<close>\<close>
  | SwitchEvent pb_switch
  | OtherEvent

definition InputQueueCapacity :: nat where "InputQueueCapacity = 64"

record DispatcherStatus =
  st_QueueDepth :: nat
  st_Accepted :: u64
  st_Handled :: u64
  st_Discarded :: u64
  st_Overruns :: u64
  st_LastErrorCode :: string

record queuedInput =
  qi_context :: u64
  qi_event :: input_event

text \<open>Where \<open>Run\<close> stands. \<open>'c\<close> is what the cleanup of an overflow captured.\<close>

datatype 'c run_pc =
    RunPoll \<comment> \<open>before the first select\<close>
  | RunSelect \<comment> \<open>in the second select\<close>
  | RunClear "queuedInput option" \<comment> \<open>before \<open>clearPendingContext\<close>, with the event taken off the queue\<close>
  | RunClearing 'c "queuedInput option" \<comment> \<open>in the captured cleanup\<close>
  | RunCheck queuedInput \<comment> \<open>before the comparison of contexts\<close>
  | RunHandle queuedInput \<comment> \<open>in the handler\<close>
  | RunStopped

text \<open>
  The last four fields are histories that no operation reads: the events that got past the latch of the
  start button, the accepted inputs, the ones whose handling began, and the discarded ones. \<open>dp_signals\<close>
  counts the submitters that have released the lock and not signalled yet.
\<close>

record 'c Dispatcher =
  dp_queue :: "queuedInput list"
  dp_cancel :: bool
  dp_context :: u64
  dp_pendingClear :: "'c option"
  dp_status :: DispatcherStatus
  dp_startHeld :: bool
  dp_done :: bool
  dp_signals :: nat
  dp_pc :: "'c run_pc"
  dp_offered :: "input_event list"
  dp_accepted :: "queuedInput list"
  dp_started :: "queuedInput list"
  dp_discarded :: "queuedInput list"

definition NewDispatcher :: "'c Dispatcher" where
  "NewDispatcher = \<lparr>dp_queue = [], dp_cancel = False, dp_context = 0, dp_pendingClear = None,
     dp_status = \<lparr>st_QueueDepth = 0, st_Accepted = 0, st_Handled = 0, st_Discarded = 0, st_Overruns = 0, st_LastErrorCode = ''''\<rparr>,
     dp_startHeld = False, dp_done = False, dp_signals = 0, dp_pc = RunPoll,
     dp_offered = [], dp_accepted = [], dp_started = [], dp_discarded = []\<rparr>"

subsection \<open>Operations\<close>

text \<open>The latch of the start button: a press while the button is held is dropped.\<close>

definition start_latch :: "input_event \<Rightarrow> bool \<Rightarrow> bool option" where
  "start_latch ev held =
     (if ev = ButtonEvent Button_START Action_RELEASE then Some False
      else if ev = ButtonEvent Button_START Action_PRESS then if held then None else Some True
      else Some held)"

definition advanceContextLocked :: "'c Dispatcher \<Rightarrow> 'c Dispatcher" where
  "advanceContextLocked d = d\<lparr>dp_context := dp_context d + 1, dp_queue := [],
     dp_status := (dp_status d)\<lparr>st_Discarded := st_Discarded (dp_status d) + of_nat (length (dp_queue d)), st_QueueDepth := 0\<rparr>,
     dp_discarded := dp_discarded d @ dp_queue d\<rparr>"

definition InvalidateContext :: "'c Dispatcher \<Rightarrow> 'c Dispatcher" where
  "InvalidateContext d = advanceContextLocked d"

text \<open>
  \<open>Submit\<close>. The capture is absent when no \<open>captureClear\<close> is configured, and otherwise what it returns if
  the queue is full.
\<close>

definition Submit :: "'c option option \<Rightarrow> input_event option \<Rightarrow> 'c Dispatcher \<Rightarrow> bool \<times> 'c Dispatcher" where
  "Submit capture event d =
     (case event of
        None \<Rightarrow> (True, d)
      | Some ev \<Rightarrow>
          (case start_latch ev (dp_startHeld d) of
             None \<Rightarrow> (True, d)
           | Some held \<Rightarrow>
               let d1 = d\<lparr>dp_startHeld := held, dp_offered := dp_offered d @ [ev]\<rparr>;
                   x = \<lparr>qi_context = dp_context d, qi_event = ev\<rparr>
               in if length (dp_queue d) < InputQueueCapacity
                  then (True, d1\<lparr>dp_queue := dp_queue d @ [x],
                         dp_status := (dp_status d)\<lparr>st_Accepted := st_Accepted (dp_status d) + 1,
                           st_QueueDepth := length (dp_queue d @ [x])\<rparr>,
                         dp_accepted := dp_accepted d @ [x]\<rparr>)
                  else let clear = (case capture of None \<Rightarrow> dp_pendingClear d | Some c \<Rightarrow> c)
                       in (False, (advanceContextLocked (d1\<lparr>
                         dp_status := (dp_status d)\<lparr>st_Overruns := st_Overruns (dp_status d) + 1, st_LastErrorCode := ''input_overrun''\<rparr>,
                         dp_pendingClear := clear\<rparr>))
                           \<lparr>dp_signals := dp_signals d + (if clear = None then 0 else 1)\<rparr>)))"

definition signalInvalidation :: "'c Dispatcher \<Rightarrow> 'c Dispatcher" where
  "signalInvalidation d = d\<lparr>dp_signals := dp_signals d - 1, dp_cancel := True\<rparr>"

text \<open>What \<open>Run\<close> does after the pending cleanup: it goes on with the event it took, if it took one.\<close>

definition after_clear :: "queuedInput option \<Rightarrow> 'c run_pc" where
  "after_clear x = (case x of None \<Rightarrow> RunPoll | Some v \<Rightarrow> RunCheck v)"

definition clearPendingContext :: "queuedInput option \<Rightarrow> 'c Dispatcher \<Rightarrow> 'c Dispatcher" where
  "clearPendingContext x d = d\<lparr>dp_pendingClear := None,
     dp_status := (dp_status d)\<lparr>st_QueueDepth := length (dp_queue d)\<rparr>,
     dp_pc := (case dp_pendingClear d of None \<Rightarrow> after_clear x | Some c \<Rightarrow> RunClearing c x)\<rparr>"

definition run_check :: "queuedInput \<Rightarrow> 'c Dispatcher \<Rightarrow> 'c Dispatcher" where
  "run_check x d =
     (if qi_context x \<noteq> dp_context d
      then d\<lparr>dp_status := (dp_status d)\<lparr>st_Discarded := st_Discarded (dp_status d) + 1, st_QueueDepth := length (dp_queue d)\<rparr>,
             dp_discarded := dp_discarded d @ [x], dp_pc := RunPoll\<rparr>
      else d\<lparr>dp_started := dp_started d @ [x], dp_pc := RunHandle x\<rparr>)"

definition run_handled :: "bool \<Rightarrow> 'c Dispatcher \<Rightarrow> 'c Dispatcher" where
  "run_handled failed d = d\<lparr>dp_status := (dp_status d)\<lparr>st_Handled := st_Handled (dp_status d) + 1,
       st_QueueDepth := length (dp_queue d),
       st_LastErrorCode := (if failed then ''input_handler_failed'' else st_LastErrorCode (dp_status d))\<rparr>,
     dp_pc := RunPoll\<rparr>"

definition dispatcher_Status :: "'c Dispatcher \<Rightarrow> DispatcherStatus" where
  "dispatcher_Status d = (dp_status d)\<lparr>st_QueueDepth := length (dp_queue d)\<rparr>"

subsection \<open>The machine\<close>

datatype 'c dispatcher_event =
    DiSubmit "'c option option" "input_event option"
  | DiInvalidate
  | DiSignal
  | DiDone \<comment> \<open>the context of \<open>Run\<close> is cancelled\<close>
  | DiReturn
  | DiCancelled \<comment> \<open>\<open>Run\<close> receives the signal\<close>
  | DiDefault
  | DiTake
  | DiClear
  | DiCleared
  | DiCheck
  | DiHandled bool

fun dispatcher_step :: "'c dispatcher_event \<Rightarrow> 'c Dispatcher \<Rightarrow> 'c Dispatcher option" where
  "dispatcher_step (DiSubmit capture event) d = (if dp_context d = - 1 then None else Some (snd (Submit capture event d)))"
| "dispatcher_step DiInvalidate d = (if dp_context d = - 1 then None else Some (InvalidateContext d))"
| "dispatcher_step DiSignal d = (if dp_signals d = 0 then None else Some (signalInvalidation d))"
| "dispatcher_step DiDone d = Some (d\<lparr>dp_done := True\<rparr>)"
| "dispatcher_step DiReturn d =
     (if dp_done d \<and> (dp_pc d = RunPoll \<or> dp_pc d = RunSelect) then Some (d\<lparr>dp_pc := RunStopped\<rparr>) else None)"
| "dispatcher_step DiCancelled d =
     (if dp_cancel d \<and> (dp_pc d = RunPoll \<or> dp_pc d = RunSelect) then Some (d\<lparr>dp_cancel := False, dp_pc := RunClear None\<rparr>) else None)"
| "dispatcher_step DiDefault d =
     (if dp_pc d = RunPoll \<and> \<not> dp_done d \<and> \<not> dp_cancel d then Some (d\<lparr>dp_pc := RunSelect\<rparr>) else None)"
| "dispatcher_step DiTake d =
     (case dp_queue d of
        [] \<Rightarrow> None
      | x # xs \<Rightarrow> if dp_pc d = RunSelect then Some (d\<lparr>dp_queue := xs, dp_pc := RunClear (Some x)\<rparr>) else None)"
| "dispatcher_step DiClear d = (case dp_pc d of RunClear x \<Rightarrow> Some (clearPendingContext x d) | _ \<Rightarrow> None)"
| "dispatcher_step DiCleared d = (case dp_pc d of RunClearing c x \<Rightarrow> Some (d\<lparr>dp_pc := after_clear x\<rparr>) | _ \<Rightarrow> None)"
| "dispatcher_step DiCheck d = (case dp_pc d of RunCheck x \<Rightarrow> Some (run_check x d) | _ \<Rightarrow> None)"
| "dispatcher_step (DiHandled failed) d = (case dp_pc d of RunHandle x \<Rightarrow> Some (run_handled failed d) | _ \<Rightarrow> None)"

text \<open>The event that \<open>Run\<close> has taken and not yet decided about.\<close>

fun undecided :: "'c run_pc \<Rightarrow> queuedInput list" where
  "undecided (RunClear (Some x)) = [x]"
| "undecided (RunClearing _ (Some x)) = [x]"
| "undecided (RunCheck x) = [x]"
| "undecided _ = []"

fun handling :: "'c run_pc \<Rightarrow> nat" where
  "handling (RunHandle _) = 1"
| "handling _ = 0"

subsection \<open>The invariant\<close>

text \<open>No input is lost or doubled, and the counters count what their names say.\<close>

definition accounts :: "'c Dispatcher \<Rightarrow> bool" where
  "accounts d \<longleftrightarrow>
     mset (dp_accepted d) = mset (dp_started d) + mset (dp_discarded d) + mset (undecided (dp_pc d)) + mset (dp_queue d) \<and>
     st_Accepted (dp_status d) = of_nat (length (dp_accepted d)) \<and>
     st_Discarded (dp_status d) = of_nat (length (dp_discarded d)) \<and>
     st_Handled (dp_status d) + of_nat (handling (dp_pc d)) = of_nat (length (dp_started d))"

text \<open>Inputs begin in the order of their acceptance, and the ones that may still begin follow.\<close>

definition ordered :: "'c Dispatcher \<Rightarrow> bool" where
  "ordered d \<longleftrightarrow> subseq (dp_started d @ undecided (dp_pc d) @ dp_queue d) (dp_accepted d)"

text \<open>The queue holds inputs of the current context only, and nothing is of a later one.\<close>

definition current_queue :: "'c Dispatcher \<Rightarrow> bool" where
  "current_queue d \<longleftrightarrow> (\<forall>x\<in>set (dp_queue d). qi_context x = dp_context d) \<and> (\<forall>x\<in>set (dp_accepted d). qi_context x \<le> dp_context d)"

text \<open>A cleanup that is still pending is older than no undecided input of the current context, and it has a signal.\<close>

fun cleared :: "'c run_pc \<Rightarrow> queuedInput list" where
  "cleared (RunClearing _ (Some x)) = [x]"
| "cleared (RunCheck x) = [x]"
| "cleared _ = []"

definition clear_first :: "'c Dispatcher \<Rightarrow> bool" where
  "clear_first d \<longleftrightarrow> (\<forall>x\<in>set (cleared (dp_pc d)). qi_context x = dp_context d \<longrightarrow> dp_pendingClear d = None)"

definition clear_signalled :: "'c Dispatcher \<Rightarrow> bool" where
  "clear_signalled d \<longleftrightarrow> dp_pendingClear d \<noteq> None \<longrightarrow> dp_cancel d \<or> 0 < dp_signals d \<or> (\<exists>x. dp_pc d = RunClear x)"

definition is_start :: "input_event \<Rightarrow> bool" where
  "is_start ev \<longleftrightarrow> ev = ButtonEvent Button_START Action_PRESS \<or> ev = ButtonEvent Button_START Action_RELEASE"

text \<open>Two presses of the start button have a release between them.\<close>

definition alternating :: "input_event list \<Rightarrow> bool" where
  "alternating evs \<longleftrightarrow> successively (\<lambda>a b. \<not> (a = ButtonEvent Button_START Action_PRESS \<and> b = a)) (filter is_start evs)"

definition latched :: "'c Dispatcher \<Rightarrow> bool" where
  "latched d \<longleftrightarrow> alternating (dp_offered d) \<and>
     dp_startHeld d = (filter is_start (dp_offered d) \<noteq> [] \<and> last (filter is_start (dp_offered d)) = ButtonEvent Button_START Action_PRESS)"

definition dispatcher_inv :: "'c Dispatcher \<Rightarrow> bool" where
  "dispatcher_inv d \<longleftrightarrow> length (dp_queue d) \<le> InputQueueCapacity \<and> accounts d \<and> ordered d \<and> current_queue d \<and>
     clear_first d \<and> clear_signalled d \<and> latched d"

lemmas dispatcher_invs = accounts_def ordered_def current_queue_def clear_first_def clear_signalled_def

lemma undecided_after [simp]: "undecided (after_clear x) = (case x of None \<Rightarrow> [] | Some v \<Rightarrow> [v])"
  by (simp add: after_clear_def split: option.splits)

lemma handling_after [simp]: "handling (after_clear x) = 0"
  by (simp add: after_clear_def split: option.splits)

lemma cleared_undecided: "set (cleared pc) \<subseteq> set (undecided pc)"
  by (cases pc rule: cleared.cases) auto

lemma cleared_after [simp]:
  "cleared (after_clear x) = (case x of None \<Rightarrow> [] | Some v \<Rightarrow> [v])"
  "cleared (RunClearing c x) = (case x of None \<Rightarrow> [] | Some v \<Rightarrow> [v])"
  by (cases x; simp add: after_clear_def)+

lemma undecided_clear [simp]:
  "undecided (RunClear x) = (case x of None \<Rightarrow> [] | Some v \<Rightarrow> [v])"
  "undecided (RunClearing c x) = (case x of None \<Rightarrow> [] | Some v \<Rightarrow> [v])"
  by (cases x; simp)+

lemma subseq_member: "subseq xs ys \<Longrightarrow> x \<in> set xs \<Longrightarrow> x \<in> set ys"
  by (erule list_emb_set) auto

lemma subseq_less: "subseq (xs @ ys @ zs) l \<Longrightarrow> subseq (xs @ zs) l"
  by (rule subseq_order.trans) (auto simp: subseq_append')

lemma undecided_accepted: "ordered d \<Longrightarrow> x \<in> set (undecided (dp_pc d)) \<Longrightarrow> x \<in> set (dp_accepted d)"
  by (auto simp: ordered_def dest: subseq_member)

text \<open>A new context: what was queued is discarded, and nothing undecided belongs to the new context.\<close>

lemma u64_le_Suc: "x \<le> c \<Longrightarrow> c \<noteq> - 1 \<Longrightarrow> x < c + 1" for x c :: u64
  by (erule le_less_trans) (rule u64_less_Suc)

definition advance_ready :: "'c Dispatcher \<Rightarrow> bool" where
  "advance_ready d \<longleftrightarrow> accounts d \<and> ordered d \<and> current_queue d \<and> latched d"

lemma advance_keeps:
  assumes "advance_ready d" "dp_context d \<noteq> - 1"
  shows "accounts (advanceContextLocked d)" "ordered (advanceContextLocked d)" "current_queue (advanceContextLocked d)"
    "clear_first (advanceContextLocked d)" "latched (advanceContextLocked d)" "dp_queue (advanceContextLocked d) = []"
proof -
  have d: "accounts d" "ordered d" "current_queue d" "latched d" using assms(1) by (simp_all add: advance_ready_def)
  show "accounts (advanceContextLocked d)" using d(1) by (simp add: accounts_def advanceContextLocked_def)
  show "ordered (advanceContextLocked d)"
    using d(2) subseq_less [of "dp_started d @ undecided (dp_pc d)" "dp_queue d" "[]"] by (simp add: ordered_def advanceContextLocked_def)
  have below: "x \<in> set (dp_accepted d) \<Longrightarrow> qi_context x < dp_context d + 1" for x
    using d(3) u64_le_Suc [OF _ assms(2)] by (auto simp: current_queue_def)
  then show "current_queue (advanceContextLocked d)" by (auto simp: current_queue_def advanceContextLocked_def less_imp_le)
  show "clear_first (advanceContextLocked d)"
    using below undecided_accepted [OF d(2)] cleared_undecided [of "dp_pc d"]
    by (force simp: clear_first_def advanceContextLocked_def)
  show "latched (advanceContextLocked d)" using d(4) by (simp add: latched_def advanceContextLocked_def)
  show "dp_queue (advanceContextLocked d) = []" by (simp add: advanceContextLocked_def)
qed

text \<open>The latch, whatever happens to the event after it.\<close>

lemma latch_keeps:
  assumes "latched d" "start_latch ev (dp_startHeld d) = Some held"
    and "dp_startHeld d' = held" "dp_offered d' = dp_offered d @ [ev]"
  shows "latched d'"
  using assms
  by (auto simp: latched_def alternating_def start_latch_def is_start_def successively_append_iff split: if_splits)

lemma accept_keeps:
  assumes "dispatcher_inv d" "start_latch ev (dp_startHeld d) = Some held" "length (dp_queue d) < InputQueueCapacity"
  shows "dispatcher_inv (snd (Submit capture (Some ev) d))"
proof -
  have d: "accounts d" "ordered d" "current_queue d" "clear_first d" "clear_signalled d" "latched d"
    using assms(1) by (simp_all add: dispatcher_inv_def)
  let ?x = "\<lparr>qi_context = dp_context d, qi_event = ev\<rparr>"
  let ?d = "snd (Submit capture (Some ev) d)"
  have s: "dp_queue ?d = dp_queue d @ [?x]" "dp_accepted ?d = dp_accepted d @ [?x]" "dp_context ?d = dp_context d"
    "dp_pc ?d = dp_pc d" "dp_pendingClear ?d = dp_pendingClear d" "dp_cancel ?d = dp_cancel d" "dp_signals ?d = dp_signals d"
    "dp_started ?d = dp_started d" "dp_discarded ?d = dp_discarded d" "dp_startHeld ?d = held" "dp_offered ?d = dp_offered d @ [ev]"
    "st_Accepted (dp_status ?d) = st_Accepted (dp_status d) + 1" "st_Discarded (dp_status ?d) = st_Discarded (dp_status d)"
    "st_Handled (dp_status ?d) = st_Handled (dp_status d)"
    using assms(2,3) by (simp_all add: Submit_def Let_def)
  have "accounts ?d" using d(1) by (simp add: accounts_def s)
  moreover have "ordered ?d"
    using list_emb_append_mono [of "(=)" "dp_started d @ undecided (dp_pc d) @ dp_queue d" "dp_accepted d" "[?x]" "[?x]"] d(2)
    by (simp add: ordered_def s)
  moreover have "current_queue ?d" using d(3) by (auto simp: current_queue_def s)
  moreover have "clear_first ?d" using d(4) by (simp add: clear_first_def s)
  moreover have "clear_signalled ?d" using d(5) by (simp add: clear_signalled_def s)
  moreover have "latched ?d" by (rule latch_keeps [OF d(6) assms(2)]) (simp_all add: s)
  ultimately show ?thesis using assms(3) by (simp add: dispatcher_inv_def s(1))
qed

lemma overrun_keeps:
  assumes "dispatcher_inv d" "start_latch ev (dp_startHeld d) = Some held" "\<not> length (dp_queue d) < InputQueueCapacity"
    and "dp_context d \<noteq> - 1"
  shows "dispatcher_inv (snd (Submit capture (Some ev) d))"
proof -
  have d: "accounts d" "ordered d" "current_queue d" "latched d"
    using assms(1) by (simp_all add: dispatcher_inv_def)
  define clear where "clear = (case capture of None \<Rightarrow> dp_pendingClear d | Some c \<Rightarrow> c)"
  define d1 where "d1 = d\<lparr>dp_startHeld := held, dp_offered := dp_offered d @ [ev],
    dp_status := (dp_status d)\<lparr>st_Overruns := st_Overruns (dp_status d) + 1, st_LastErrorCode := ''input_overrun''\<rparr>,
    dp_pendingClear := clear\<rparr>"
  have "latched d1" by (rule latch_keeps [OF d(4) assms(2)]) (simp_all add: d1_def)
  then have "advance_ready d1"
    using d(1,2,3) by (simp add: advance_ready_def accounts_def ordered_def current_queue_def d1_def)
  note keeps = advance_keeps [OF this]
  have c: "dp_context d1 \<noteq> - 1" using assms(4) by (simp add: d1_def)
  have eq: "snd (Submit capture (Some ev) d) = (advanceContextLocked d1)\<lparr>dp_signals := dp_signals d + (if clear = None then 0 else 1)\<rparr>"
    using assms(2,3) by (simp add: Submit_def Let_def clear_def d1_def)
  have "clear_signalled (snd (Submit capture (Some ev) d))"
    unfolding eq by (simp add: clear_signalled_def advanceContextLocked_def d1_def)
  then show ?thesis
    using keeps [OF c] by (simp add: dispatcher_inv_def eq accounts_def ordered_def current_queue_def clear_first_def latched_def)
qed

lemma Submit_keeps: "dispatcher_inv d \<Longrightarrow> dp_context d \<noteq> - 1 \<Longrightarrow> dispatcher_inv (snd (Submit capture event d))"
proof (cases event)
  case (Some ev)
  assume d: "dispatcher_inv d" "dp_context d \<noteq> - 1"
  show ?thesis
  proof (cases "start_latch ev (dp_startHeld d)")
    case None
    then show ?thesis using d(1) by (simp add: Submit_def Some)
  next
    case held: (Some held)
    show ?thesis unfolding Some
      using accept_keeps [OF d(1) held] overrun_keeps [OF d(1) held _ d(2)] by blast
  qed
qed (simp add: Submit_def)

lemma Invalidate_keeps: "dispatcher_inv d \<Longrightarrow> dp_context d \<noteq> - 1 \<Longrightarrow> dispatcher_inv (InvalidateContext d)"
proof -
  assume d: "dispatcher_inv d" "dp_context d \<noteq> - 1"
  have "clear_signalled (InvalidateContext d)"
    using d(1) by (simp add: dispatcher_inv_def InvalidateContext_def advanceContextLocked_def clear_signalled_def)
  then show ?thesis
    using advance_keeps [OF _ d(2)] d(1) by (simp add: dispatcher_inv_def advance_ready_def InvalidateContext_def)
qed

text \<open>A step of \<open>Run\<close> moves the input at the head of the queue towards its decision.\<close>

lemma Run_keeps:
  assumes "dispatcher_inv d" "dispatcher_step ev d = Some d'" "ev \<notin> range (case_prod DiSubmit)" "ev \<noteq> DiInvalidate"
  shows "length (dp_queue d') \<le> InputQueueCapacity" "accounts d'" "ordered d'" "current_queue d'" "clear_first d'"
    "clear_signalled d'" "latched d'"
proof -
  have d: "length (dp_queue d) \<le> InputQueueCapacity" "accounts d" "ordered d" "current_queue d" "clear_first d" "clear_signalled d" "latched d"
    using assms(1) by (simp_all add: dispatcher_inv_def)
  note ops = signalInvalidation_def clearPendingContext_def run_check_def run_handled_def
  show "length (dp_queue d') \<le> InputQueueCapacity"
    using assms(2-) d(1) by (cases ev) (auto simp: ops split: if_splits list.splits run_pc.splits)
  show "accounts d'"
    using assms(2-) d(2) by (cases ev) (auto simp: ops accounts_def split: if_splits list.splits run_pc.splits option.splits)
  show "ordered d'"
    using assms(2-) d(3) subseq_less [of "dp_started d" "undecided (dp_pc d)" "dp_queue d" "dp_accepted d"]
    by (cases ev) (auto simp: ops ordered_def split: if_splits list.splits run_pc.splits option.splits)
  show "current_queue d'"
    using assms(2-) d(4) by (cases ev) (auto simp: ops current_queue_def split: if_splits list.splits run_pc.splits)
  show "clear_first d'"
    using assms(2-) d(5) by (cases ev) (auto simp: ops clear_first_def split: if_splits list.splits run_pc.splits option.splits)
  show "clear_signalled d'"
    using assms(2-) d(6) by (cases ev) (auto simp: ops clear_signalled_def split: if_splits list.splits run_pc.splits option.splits)
  show "latched d'"
    using assms(2-) d(7) by (cases ev) (auto simp: ops latched_def split: if_splits list.splits run_pc.splits)
qed

interpretation dispatcher: invariant_machine dispatcher_step NewDispatcher dispatcher_inv
proof unfold_locales
  show "dispatcher_inv NewDispatcher"
    by (simp add: dispatcher_inv_def NewDispatcher_def accounts_def ordered_def current_queue_def clear_first_def
        clear_signalled_def latched_def alternating_def)
next
  fix d d' :: "'c Dispatcher" and ev
  assume d: "dispatcher_inv d" "dispatcher_step ev d = Some d'"
  show "dispatcher_inv d'"
  proof (cases "ev \<in> range (case_prod DiSubmit) \<or> ev = DiInvalidate")
    case True
    then show ?thesis using d by (auto split: if_splits intro: Submit_keeps Invalidate_keeps)
  next
    case False
    then show ?thesis using Run_keeps [OF d] by (simp add: dispatcher_inv_def)
  qed
qed

subsection \<open>Refinement: a queue of live inputs\<close>

text \<open>
  What the dispatcher promises, without goroutines, signals or contexts: inputs wait in a queue of at
  most 65 (64 in the channel and one in the hands of \<open>Run\<close>), a flush drops all that wait, and the first
  that waits is the next to begin.
\<close>

record live_queue =
  lq_waiting :: "queuedInput list"
  lq_accepted :: "queuedInput list"
  lq_started :: "queuedInput list"

datatype live_op = LiveAccept queuedInput | LiveFlush | LiveStart

fun live_step :: "live_op \<Rightarrow> live_queue \<Rightarrow> live_queue option" where
  "live_step (LiveAccept x) q =
     (if length (lq_waiting q) \<le> 64
      then Some (q\<lparr>lq_waiting := lq_waiting q @ [x], lq_accepted := lq_accepted q @ [x]\<rparr>) else None)"
| "live_step LiveFlush q = Some (q\<lparr>lq_waiting := []\<rparr>)"
| "live_step LiveStart q =
     (case lq_waiting q of [] \<Rightarrow> None | x # xs \<Rightarrow> Some (q\<lparr>lq_waiting := xs, lq_started := lq_started q @ [x]\<rparr>))"

definition live :: "'c Dispatcher \<Rightarrow> live_queue" where
  "live d = \<lparr>lq_waiting = filter (\<lambda>x. qi_context x = dp_context d) (undecided (dp_pc d)) @ dp_queue d,
     lq_accepted = dp_accepted d, lq_started = dp_started d\<rparr>"

text \<open>What an event does to the live inputs.\<close>

fun live_ops :: "'c dispatcher_event \<Rightarrow> 'c Dispatcher \<Rightarrow> live_op list" where
  "live_ops (DiSubmit capture (Some ev)) d =
     (if start_latch ev (dp_startHeld d) = None then []
      else if length (dp_queue d) < 64 then [LiveAccept \<lparr>qi_context = dp_context d, qi_event = ev\<rparr>] else [LiveFlush])"
| "live_ops DiInvalidate d = [LiveFlush]"
| "live_ops DiCheck d = (case dp_pc d of RunCheck x \<Rightarrow> if qi_context x = dp_context d then [LiveStart] else [] | _ \<Rightarrow> [])"
| "live_ops _ _ = []"

lemma undecided_short: "length (undecided pc) \<le> 1"
  by (cases pc rule: undecided.cases) auto

lemma advance_live:
  assumes "ordered d" "current_queue d" "dp_context d \<noteq> - 1"
  shows "live (advanceContextLocked d) = (live d)\<lparr>lq_waiting := []\<rparr>"
proof -
  have "qi_context x < dp_context d + 1" if "x \<in> set (undecided (dp_pc d))" for x
    using undecided_accepted [OF assms(1) that] assms(2) u64_le_Suc [OF _ assms(3)] by (auto simp: current_queue_def)
  then show ?thesis by (force simp: live_def advanceContextLocked_def filter_empty_conv)
qed

lemma Submit_live:
  assumes "dispatcher_inv d" "dp_context d \<noteq> - 1" "start_latch ev (dp_startHeld d) = Some held"
  shows "live (snd (Submit capture (Some ev) d)) =
    (if length (dp_queue d) < 64
     then (live d)\<lparr>lq_waiting := lq_waiting (live d) @ [\<lparr>qi_context = dp_context d, qi_event = ev\<rparr>],
       lq_accepted := lq_accepted (live d) @ [\<lparr>qi_context = dp_context d, qi_event = ev\<rparr>]\<rparr>
     else (live d)\<lparr>lq_waiting := []\<rparr>)"
proof (cases "length (dp_queue d) < 64")
  case True
  then show ?thesis using assms(3) by (simp add: Submit_def Let_def InputQueueCapacity_def live_def)
next
  case False
  have same: "live (d'\<lparr>dp_signals := n\<rparr>) = live d'" for d' :: "'a Dispatcher" and n by (simp add: live_def)
  have "live (advanceContextLocked (d\<lparr>dp_startHeld := held, dp_offered := ofs, dp_status := st, dp_pendingClear := pc\<rparr>))
      = (live d)\<lparr>lq_waiting := []\<rparr>" for ofs st pc
    using assms(1,2) by (subst advance_live) (simp_all add: dispatcher_inv_def ordered_def current_queue_def live_def)
  then show ?thesis using False assms(3) by (simp add: Submit_def Let_def InputQueueCapacity_def same)
qed

lemma step_live:
  assumes "dispatcher_inv d" "dispatcher_step ev d = Some d'"
  shows "run_steps live_step (live_ops ev d) (live d) = Some (live d')"
proof (cases ev)
  case (DiSubmit capture event)
  then have c: "dp_context d \<noteq> - 1" and d': "d' = snd (Submit capture event d)" using assms(2) by (auto split: if_splits)
  show ?thesis
  proof (cases "\<exists>e held. event = Some e \<and> start_latch e (dp_startHeld d) = Some held")
    case False
    then show ?thesis by (cases event) (auto simp: DiSubmit d' Submit_def)
  next
    case True
    then obtain e held where e: "event = Some e" "start_latch e (dp_startHeld d) = Some held" by blast
    have "length (filter (\<lambda>x. qi_context x = dp_context d) (undecided (dp_pc d))) \<le> 1"
      by (rule order_trans [OF length_filter_le undecided_short])
    then have "length (lq_waiting (live d)) \<le> 64" if "length (dp_queue d) < 64" using that by (simp add: live_def)
    then show ?thesis by (simp add: DiSubmit d' e Submit_live [OF assms(1) c e(2)])
  qed
next
  case DiInvalidate
  then show ?thesis
    using assms advance_live [of d] by (auto simp: dispatcher_inv_def InvalidateContext_def split: if_splits)
next
  case DiTake
  then show ?thesis
    using assms by (auto simp: live_def dispatcher_inv_def current_queue_def split: list.splits if_splits)
next
  case DiCheck
  then show ?thesis using assms by (auto simp: live_def run_check_def split: run_pc.splits if_splits)
qed (use assms(2) in \<open>auto simp: live_def signalInvalidation_def clearPendingContext_def run_handled_def
    split: run_pc.splits if_splits option.splits\<close>)

interpretation dispatcher_live: refined_machine dispatcher_step NewDispatcher dispatcher_inv live_step live
  by unfold_locales (use step_live in blast)

subsection \<open>Properties\<close>

text \<open>(C6) The dispatcher refines the queue of live inputs: under every interleaving of submitters, foreground
  changes and the handling goroutine, its state is one the queue reaches with the same histories of
  accepted and begun inputs, and every event does to the live inputs exactly what it stands for: an accepted
  submission adds one, an overflow or a new context drops all, and the decision to handle takes the first.\<close>

theorem dispatcher_refines_live_queue:
  assumes "reaches dispatcher_step NewDispatcher d" "dispatcher_step ev d = Some d'"
  shows "reaches live_step \<lparr>lq_waiting = [], lq_accepted = [], lq_started = []\<rparr> (live d) \<and>
    run_steps live_step (live_ops ev d) (live d) = Some (live d')"
proof -
  have start: "live NewDispatcher = \<lparr>lq_waiting = [], lq_accepted = [], lq_started = []\<rparr>" by (simp add: live_def NewDispatcher_def)
  show ?thesis
    using dispatcher_live.refines [OF assms(1)] step_live [OF dispatcher.reach_inv [OF assms(1)] assms(2)] by (simp add: start)
qed

text \<open>No input is lost, handled twice or handled out of order: the inputs whose handling began are, in
  order, among the accepted ones; every accepted input has begun, was discarded, waits, or is in the hands
  of the handling goroutine; at most 64 wait; and the statistics agree with this.\<close>

theorem inputs_accounted:
  assumes "reaches dispatcher_step NewDispatcher d"
  shows "subseq (dp_started d) (dp_accepted d) \<and>
    mset (dp_accepted d) = mset (dp_started d) + mset (dp_discarded d) + mset (undecided (dp_pc d)) + mset (dp_queue d) \<and>
    length (dp_queue d) \<le> 64 \<and>
    st_Accepted (dispatcher_Status d) = st_Handled (dispatcher_Status d) + st_Discarded (dispatcher_Status d) +
      of_nat (st_QueueDepth (dispatcher_Status d) + length (undecided (dp_pc d)) + handling (dp_pc d))"
proof -
  have d: "dispatcher_inv d" by (rule dispatcher.reach_inv [OF assms])
  then have m: "mset (dp_accepted d) = mset (dp_started d) + mset (dp_discarded d) + mset (undecided (dp_pc d)) + mset (dp_queue d)"
    by (simp add: dispatcher_inv_def accounts_def)
  from arg_cong [OF m, of size]
  have l: "length (dp_accepted d) = length (dp_started d) + length (dp_discarded d) + length (undecided (dp_pc d)) + length (dp_queue d)"
    by simp
  have c: "st_Accepted (dp_status d) = of_nat (length (dp_accepted d))" "st_Discarded (dp_status d) = of_nat (length (dp_discarded d))"
    "of_nat (length (dp_started d)) = st_Handled (dp_status d) + of_nat (handling (dp_pc d))"
    using d by (simp_all add: dispatcher_inv_def accounts_def)
  have "subseq (dp_started d) (dp_accepted d)"
    using d subseq_less [of "dp_started d" "undecided (dp_pc d) @ dp_queue d" "[]"] by (simp add: dispatcher_inv_def ordered_def)
  moreover have "length (dp_queue d) \<le> 64" using d by (simp add: dispatcher_inv_def InputQueueCapacity_def)
  moreover have "st_Accepted (dp_status d) = st_Handled (dp_status d) + st_Discarded (dp_status d) +
      of_nat (length (dp_queue d) + length (undecided (dp_pc d)) + handling (dp_pc d))"
    unfolding c(1) l of_nat_add c(2,3) by (simp add: algebra_simps)
  ultimately show ?thesis using m by (simp add: dispatcher_Status_def)
qed

text \<open>What a step adds to the begun inputs is of the context of that step.\<close>

lemma step_starts:
  assumes "dispatcher_inv d" "dispatcher_step ev d = Some d'"
  shows "dp_context d \<le> dp_context d' \<and> (\<exists>xs. dp_started d' = dp_started d @ xs \<and> (\<forall>x\<in>set xs. qi_context x = dp_context d))"
proof -
  have "dp_context d \<le> dp_context d + 1" if "dp_context d \<noteq> - 1" using u64_less_Suc [OF that] by (rule less_imp_le)
  then show ?thesis using assms(2)
    by (cases ev) (auto simp: Submit_def Let_def InvalidateContext_def advanceContextLocked_def signalInvalidation_def clearPendingContext_def
        run_check_def run_handled_def split: if_splits option.splits list.splits run_pc.splits)
qed

lemma run_starts:
  assumes "dispatcher_inv d" "reaches dispatcher_step d d'"
  shows "dp_context d \<le> dp_context d' \<and> (\<exists>xs. dp_started d' = dp_started d @ xs \<and> (\<forall>x\<in>set xs. dp_context d \<le> qi_context x))"
proof -
  let ?P = "\<lambda>d'. dispatcher_inv d' \<and> dp_context d \<le> dp_context d' \<and>
    (\<exists>xs. dp_started d' = dp_started d @ xs \<and> (\<forall>x\<in>set xs. dp_context d \<le> qi_context x))"
  have "?P d'"
  proof (rule reaches_keep [OF assms(2), where P = ?P])
    show "?P d" using assms(1) by simp
  next
    fix ev e e' assume p: "?P e" "dispatcher_step ev e = Some e'"
    then obtain ys where "dp_started e' = dp_started e @ ys" "\<forall>x\<in>set ys. qi_context x = dp_context e" "dp_context e \<le> dp_context e'"
      using step_starts by blast
    then show "?P e'" using p by (auto intro: dispatcher.step_inv order_trans)
  qed
  then show ?thesis by blast
qed

text \<open>(C26) Stale input is never handled: once the context has advanced, by a change of the foreground or because
  the queue overflowed, no input accepted before ever begins to be handled, whatever happens later; the one
  exception is an input whose handling had already begun.\<close>

theorem stale_input_never_starts:
  assumes "reaches dispatcher_step NewDispatcher d" "dp_context d \<noteq> - 1"
    and "d1 = InvalidateContext d \<or> Submit capture event d = (False, d1)"
    and "reaches dispatcher_step d1 d'"
  shows "\<exists>xs. dp_started d' = dp_started d @ xs \<and> set xs \<inter> set (dp_accepted d) = {}"
proof -
  have d: "dispatcher_inv d" by (rule dispatcher.reach_inv [OF assms(1)])
  have d1: "dispatcher_inv d1"
    using assms(3) Submit_keeps [OF d assms(2), of capture event] Invalidate_keeps [OF d assms(2)] by auto
  have c: "dp_context d1 = dp_context d + 1" "dp_started d1 = dp_started d"
    using assms(3)
    by (auto simp: InvalidateContext_def Submit_def Let_def advanceContextLocked_def split: option.splits if_splits)
  obtain xs where xs: "dp_started d' = dp_started d @ xs" "\<forall>x\<in>set xs. dp_context d + 1 \<le> qi_context x"
    using run_starts [OF d1 assms(4)] by (auto simp: c)
  have "qi_context x < dp_context d + 1" if "x \<in> set (dp_accepted d)" for x
    using d that u64_le_Suc [OF _ assms(2)] by (auto simp: dispatcher_inv_def current_queue_def)
  then show ?thesis using xs by force
qed

text \<open>An overflow recovers before anything else is handled: the cleanup that an overflow captured is run
  before the next input begins, and while it is pending either its signal is under way or the handling
  goroutine is about to run it, so it is not forgotten even if no further input arrives.\<close>

theorem overflow_cleans_first:
  assumes "reaches dispatcher_step NewDispatcher d" "dp_pendingClear d = Some c"
  shows "(dp_cancel d \<or> 0 < dp_signals d \<or> (\<exists>x. dp_pc d = RunClear x)) \<and>
    (dispatcher_step ev d = Some d' \<longrightarrow> dp_started d' = dp_started d) \<and>
    (dp_pc d = RunClear x \<longrightarrow> dispatcher_step DiClear d =
       Some (d\<lparr>dp_pendingClear := None, dp_pc := RunClearing c x, dp_status := (dp_status d)\<lparr>st_QueueDepth := length (dp_queue d)\<rparr>\<rparr>))"
proof -
  have d: "clear_first d" "clear_signalled d" using dispatcher.reach_inv [OF assms(1)] by (simp_all add: dispatcher_inv_def)
  have "dp_started d' = dp_started d" if "dispatcher_step ev d = Some d'"
    using that d(1) assms(2)
    by (cases ev) (auto simp: clear_first_def Submit_def Let_def InvalidateContext_def advanceContextLocked_def signalInvalidation_def clearPendingContext_def
        run_check_def run_handled_def split: if_splits option.splits list.splits run_pc.splits)
  moreover have "dp_cancel d \<or> 0 < dp_signals d \<or> (\<exists>x. dp_pc d = RunClear x)" using d(2) assms(2) by (simp add: clear_signalled_def)
  ultimately show ?thesis using assms(2) by (simp add: clearPendingContext_def)
qed

text \<open>Of the events that pass the latch, two presses of the start button have a release between them.\<close>

theorem start_presses_alternate:
  assumes "reaches dispatcher_step NewDispatcher d"
  shows "alternating (dp_offered d)"
  using dispatcher.reach_inv [OF assms] by (simp add: dispatcher_inv_def latched_def)

subsection \<open>Witnesses\<close>

text \<open>An input that \<open>Run\<close> has taken off the queue when the foreground changes, and one accepted afterwards.\<close>

definition demo_taken :: "string Dispatcher" where
  "demo_taken = the (run_steps dispatcher_step
     [DiSubmit None (Some (ButtonEvent Button_OK Action_PRESS)), DiDefault, DiTake, DiClear] NewDispatcher)"

lemma demo_taken_eq:
  "run_steps dispatcher_step [DiSubmit None (Some (ButtonEvent Button_OK Action_PRESS)), DiDefault, DiTake, DiClear] NewDispatcher
     = Some demo_taken"
  "dp_pc demo_taken = RunCheck \<lparr>qi_context = 0, qi_event = ButtonEvent Button_OK Action_PRESS\<rparr>"
  "dp_context demo_taken = 0" "dp_started demo_taken = []" "dp_queue demo_taken = []" "dp_startHeld demo_taken = False"
  "dp_accepted demo_taken = [\<lparr>qi_context = 0, qi_event = ButtonEvent Button_OK Action_PRESS\<rparr>]"
  by (simp_all add: demo_taken_def NewDispatcher_def Submit_def Let_def start_latch_def InputQueueCapacity_def clearPendingContext_def
      after_clear_def)

lemma demo_taken_reach: "reaches dispatcher_step NewDispatcher demo_taken"
  by (rule reachesI [OF demo_taken_eq(1)])

theorem dispatcher_refines_live_queue_witness:
  "reaches live_step \<lparr>lq_waiting = [], lq_accepted = [], lq_started = []\<rparr> (live demo_taken) \<and>
   run_steps live_step [LiveStart] (live demo_taken) = Some (live (run_check \<lparr>qi_context = 0, qi_event = ButtonEvent Button_OK Action_PRESS\<rparr> demo_taken))"
  using dispatcher_refines_live_queue [OF demo_taken_reach, of DiCheck] by (simp only: dispatcher_step.simps demo_taken_eq live_ops.simps) simp

theorem inputs_accounted_witness:
  "mset (dp_accepted demo_taken) = mset (dp_started demo_taken) + mset (dp_discarded demo_taken)
     + mset (undecided (dp_pc demo_taken)) + mset (dp_queue demo_taken)"
  using inputs_accounted [OF demo_taken_reach] by blast

definition demo_stale :: "string Dispatcher" where
  "demo_stale = the (run_steps dispatcher_step
     [DiSubmit None (Some (EncoderEvent 1)), DiCheck, DiDefault, DiTake, DiClear, DiCheck] (InvalidateContext demo_taken))"

lemma demo_stale_eq:
  "run_steps dispatcher_step [DiSubmit None (Some (EncoderEvent 1)), DiCheck, DiDefault, DiTake, DiClear, DiCheck]
     (InvalidateContext demo_taken) = Some demo_stale"
  "dp_started demo_stale = [\<lparr>qi_context = 1, qi_event = EncoderEvent 1\<rparr>]"
  by (simp_all add: demo_stale_def demo_taken_def InvalidateContext_def advanceContextLocked_def run_check_def NewDispatcher_def
      Submit_def Let_def start_latch_def InputQueueCapacity_def clearPendingContext_def after_clear_def)

theorem stale_input_never_starts_witness:
  "\<exists>xs. dp_started demo_stale = dp_started demo_taken @ xs \<and> set xs \<inter> set (dp_accepted demo_taken) = {}"
  by (rule stale_input_never_starts [OF demo_taken_reach _ disjI1 [OF refl] reachesI [OF demo_stale_eq(1)]])
    (simp add: demo_taken_eq)

text \<open>The 65th input finds the queue full.\<close>

definition demo_overflow :: "string dispatcher_event list" where
  "demo_overflow = replicate 65 (DiSubmit (Some (Some ''session'')) (Some (EncoderEvent 1)))"

definition demo_full :: "string Dispatcher" where
  "demo_full = the (run_steps dispatcher_step demo_overflow NewDispatcher)"

lemma demo_full_run:
  "map_option (\<lambda>d. (dp_pendingClear d, dp_pc d, dp_signals d)) (run_steps dispatcher_step demo_overflow NewDispatcher)
     = Some (Some ''session'', RunPoll, 1)"
  by code_simp

lemma demo_full_eq:
  "run_steps dispatcher_step demo_overflow NewDispatcher = Some demo_full" "dp_pendingClear demo_full = Some ''session''"
  "dp_pc demo_full = RunPoll" "dp_signals demo_full = 1"
  using demo_full_run by (auto simp: demo_full_def map_option_case split: option.splits)

theorem overflow_cleans_first_witness:
  "(dp_cancel demo_full \<or> 0 < dp_signals demo_full \<or> dp_pc demo_full = RunClear None) \<and>
   dp_started (signalInvalidation demo_full) = dp_started demo_full"
proof -
  have r: "reaches dispatcher_step NewDispatcher demo_full" by (rule reachesI [OF demo_full_eq(1)])
  show ?thesis
    using overflow_cleans_first [OF r demo_full_eq(2), of DiSignal "signalInvalidation demo_full"] by (auto simp: demo_full_eq(3,4))
qed

end
