(* ===== verification/Launcher.thy ===== *)
theory Launcher
  imports InputDispatcher Sessions
begin

text \<open>
  \<open>internal/input/router.go\<close>: the menu of apps. The menu is an observation that the router publishes
  while it is open and withdraws when it closes. The state is guarded by a mutex that is never held
  during a callback, so a publication can be overtaken by a close: the machine below has one thread per
  call, whose steps are the critical sections and the callbacks, and any number of calls may overlap.
  \<open>rt_menu\<close> is what the publishing and withdrawing callbacks have left in the observation store.

  Upper case and white space are taken from the Unicode tables when a name is not ASCII; those tables are
  the parameter \<open>unicode_tables\<close>. Both callbacks are configured, as in the daemon.
\<close>

subsection \<open>Data and the menu\<close>

record LauncherApp =
  la_ID :: string
  la_DisplayName :: string
  la_Action :: string

record unicode_tables =
  uni_TrimSpace :: "string \<Rightarrow> string"
  uni_ToUpper :: "string \<Rightarrow> string"

definition is_ascii :: "string \<Rightarrow> bool" where
  "is_ascii s \<longleftrightarrow> list_all (\<lambda>c. of_char c < (128 :: nat)) s"

definition ascii_space :: "char \<Rightarrow> bool" where
  "ascii_space c \<longleftrightarrow> of_char c \<in> {9 :: nat, 10, 11, 12, 13, 32}"

definition ascii_upper :: "char \<Rightarrow> char" where
  "ascii_upper c = (if 97 \<le> (of_char c :: nat) \<and> (of_char c :: nat) \<le> 122 then char_of ((of_char c :: nat) - 32) else c)"

definition TrimSpace :: "unicode_tables \<Rightarrow> string \<Rightarrow> string" where
  "TrimSpace uni s =
     (if is_ascii s then rev (dropWhile ascii_space (rev (dropWhile ascii_space s))) else uni_TrimSpace uni s)"

definition ToUpper :: "unicode_tables \<Rightarrow> string \<Rightarrow> string" where
  "ToUpper uni s = (if is_ascii s then map ascii_upper s else uni_ToUpper uni s)"

definition launcherCanvas :: string where "launcherCanvas = ''#071522FF''"
definition launcherSurface :: string where "launcherSurface = ''#171A21FF''"
definition launcherBorder :: string where "launcherBorder = ''#2B3940FF''"
definition launcherText :: string where "launcherText = ''#EAF4F2FF''"
definition launcherSecondary :: string where "launcherSecondary = ''#9AAFB2FF''"
definition launcherAccent :: string where "launcherAccent = ''#2AC7B5FF''"

lemmas launcher_colors = launcherCanvas_def launcherSurface_def launcherBorder_def launcherText_def
  launcherSecondary_def launcherAccent_def

definition launcherTextElement ::
  "string \<Rightarrow> Display \<Rightarrow> string \<Rightarrow> string \<Rightarrow> string \<Rightarrow> int \<Rightarrow> int \<Rightarrow> string \<Rightarrow> Element" where
  "launcherTextElement eid display txt font color x y align =
     \<lparr>el_ID = eid, el_Display = display, el_X = x, el_Y = y,
      el_Text = Some \<lparr>text_Value = txt, text_Font = font, text_Color = color, text_Align = align, text_Width = 0, text_Marquee = None\<rparr>,
      el_Image = None, el_Animation = None, el_Rectangle = None, el_Countdown = None\<rparr>"

definition launcherMarquee ::
  "string \<Rightarrow> Display \<Rightarrow> string \<Rightarrow> string \<Rightarrow> string \<Rightarrow> int \<Rightarrow> int \<Rightarrow> int \<Rightarrow> string \<Rightarrow> Element" where
  "launcherMarquee eid display txt font color x y width align =
     (let element = launcherTextElement eid display txt font color x y align
      in element\<lparr>el_Text := map_option (\<lambda>t. t\<lparr>text_Width := width,
           text_Marquee := Some \<lparr>PixelsPerMinute = 1000, StartDelayMilliseconds = 1000, RepeatDelayMilliseconds = 2500\<rparr>\<rparr>)
           (el_Text element)\<rparr>)"

definition launcherRectangle :: "string \<Rightarrow> Display \<Rightarrow> int \<Rightarrow> int \<Rightarrow> int \<Rightarrow> int \<Rightarrow> string \<Rightarrow> Element" where
  "launcherRectangle eid display x y width height color =
     \<lparr>el_ID = eid, el_Display = display, el_X = x, el_Y = y, el_Text = None, el_Image = None, el_Animation = None,
      el_Rectangle = Some \<lparr>rect_Width = width, rect_Height = height, rect_Color = color\<rparr>, el_Countdown = None\<rparr>"

definition launcherScene :: "string \<Rightarrow> string \<Rightarrow> Scene" where
  "launcherScene app position =
     [launcherRectangle ''front-background'' DisplayFront 0 0 72 16 launcherCanvas,
      launcherRectangle ''front-accent'' DisplayFront 1 1 3 14 launcherAccent,
      launcherMarquee ''front-app'' DisplayFront app ''normal'' launcherText 36 0 64 ''top_mid'',
      launcherTextElement ''front-position'' DisplayFront position ''tiny'' launcherAccent 36 15 ''bottom_mid'',
      launcherRectangle ''back-background'' DisplayBack 0 0 160 80 launcherCanvas,
      launcherRectangle ''back-surface'' DisplayBack 4 13 140 60 launcherSurface,
      launcherRectangle ''back-accent'' DisplayBack 1 1 4 78 launcherAccent,
      launcherTextElement ''back-eyebrow'' DisplayBack ''APPS / LAUNCHER'' ''tiny'' launcherSecondary 8 3 '''',
      launcherMarquee ''back-app'' DisplayBack app ''large'' launcherText 8 20 132 '''',
      launcherRectangle ''back-divider'' DisplayBack 8 45 132 1 launcherBorder,
      launcherTextElement ''back-position'' DisplayBack position ''small'' launcherSecondary 8 52 '''',
      launcherTextElement ''back-action'' DisplayBack ''PLAY: OPEN'' ''small'' launcherAccent 140 65 ''top_right'']"

text \<open>The name of an app on the menu.\<close>

definition launcher_label :: "unicode_tables \<Rightarrow> LauncherApp \<Rightarrow> string" where
  "launcher_label uni app =
     (let trimmed = TrimSpace uni (la_DisplayName app); text = (if trimmed = '''' then la_ID app else trimmed)
      in ToUpper uni (map (\<lambda>c. if c = CHR ''-'' then CHR '' '' else c) text))"

subsection \<open>The router\<close>

text \<open>A call of the router: its thread until it returns. The flags say whether an error will be returned.\<close>

datatype router_thread =
    RtPublishing Observation u64 bool \<comment> \<open>before the publishing callback\<close>
  | RtPublished bool Observation u64 bool \<comment> \<open>after it, with its error\<close>
  | RtWithdrawing bool \<comment> \<open>before the withdrawing callback\<close>
  | RtLaunching LauncherApp u64 \<comment> \<open>in \<open>Launch\<close>\<close>
  | RtReturned bool

record Router =
  rt_active :: bool
  rt_apps :: "LauncherApp list"
  rt_selected :: int
  rt_revision :: u64
  rt_created :: gotime
  rt_menu :: "Observation option"
  rt_threads :: "router_thread list"

definition NewRouter :: Router where
  "NewRouter = \<lparr>rt_active = False, rt_apps = [], rt_selected = 0, rt_revision = 0, rt_created = zero_time,
     rt_menu = None, rt_threads = []\<rparr>"

text \<open>Go's remainder has the sign of the dividend.\<close>

definition go_rem :: "int \<Rightarrow> int \<Rightarrow> int" where
  "go_rem a b = sgn a * (\<bar>a\<bar> mod \<bar>b\<bar>)"

definition wrap :: "int \<Rightarrow> int \<Rightarrow> int" where
  "wrap v n = (let v = go_rem v n in if v < 0 then v + n else v)"

definition observationLocked :: "unicode_tables \<Rightarrow> gotime \<Rightarrow> Router \<Rightarrow> Observation" where
  "observationLocked uni clock r =
     (let now = time_utc clock;
          text = (if rt_apps r = [] then ''No available apps'' else launcher_label uni (rt_apps r ! nat (rt_selected r)));
          position = (if rt_apps r = [] then ''0 / 0''
                      else decimal (nat (rt_selected r) + 1) @ '' / '' @ decimal (length (rt_apps r)))
      in \<lparr>obs_Instance = \<lparr>ref_ID = ''launcher'', ref_Generation = 1\<rparr>, obs_Channel = ''apps'', obs_Key = ''menu'',
          obs_Revision = rt_revision r, obs_Disposition = DispositionSnapshot, obs_Impact = ImpactNormal,
          obs_ReasonCode = ''launcher_active'', obs_ObservedAt = rt_created r, obs_UpdatedAt = now,
          obs_ValidUntil = time_add now (24 * hour), obs_Scene = Some (launcherScene text position),
          obs_BusyTimer = None, obs_Audio = None\<rparr>)"

text \<open>\<open>showLocked\<close> and the call of \<open>publishCurrent\<close> that follows it.\<close>

definition showLocked :: "unicode_tables \<Rightarrow> gotime \<Rightarrow> Router \<Rightarrow> Router" where
  "showLocked uni clock r =
     (let r1 = r\<lparr>rt_revision := rt_revision r + 1\<rparr>
      in r1\<lparr>rt_threads := rt_threads r @ [RtPublishing (observationLocked uni clock r1) (rt_revision r1) False]\<rparr>)"

text \<open>What a closing critical section does to the state.\<close>

definition closed_router :: "Router \<Rightarrow> Router" where
  "closed_router r = r\<lparr>rt_active := False, rt_apps := [], rt_selected := 0, rt_revision := rt_revision r + 1\<rparr>"

definition router_close :: "Router \<Rightarrow> Router" where
  "router_close r =
     (if \<not> rt_active r then r\<lparr>rt_threads := rt_threads r @ [RtReturned False]\<rparr>
      else (closed_router r)\<lparr>rt_threads := rt_threads r @ [RtWithdrawing False]\<rparr>)"

text \<open>\<open>Handle\<close> up to its first callback. \<open>apps\<close> is what \<open>Apps\<close> returns.\<close>

definition router_Handle :: "unicode_tables \<Rightarrow> LauncherApp list \<Rightarrow> gotime \<Rightarrow> input_event option \<Rightarrow> Router \<Rightarrow> Router" where
  "router_Handle uni apps clock event r =
     (let ret = r\<lparr>rt_threads := rt_threads r @ [RtReturned False]\<rparr>
      in case event of
           None \<Rightarrow> ret
         | Some (SwitchEvent position) \<Rightarrow>
             if position = Switch_APPS
             then showLocked uni clock (r\<lparr>rt_active := True, rt_apps := apps, rt_selected := 0, rt_created := time_utc clock\<rparr>)
             else router_close r
         | Some (EncoderEvent delta) \<Rightarrow>
             if \<not> rt_active r \<or> rt_apps r = [] \<or> delta = 0 then ret
             else showLocked uni clock (r\<lparr>rt_selected := wrap (rt_selected r + delta) (int (length (rt_apps r)))\<rparr>)
         | Some (ButtonEvent button action) \<Rightarrow>
             if action \<noteq> Action_PRESS \<or> button \<noteq> Button_START \<or> \<not> rt_active r \<or> rt_apps r = [] then ret
             else r\<lparr>rt_threads := rt_threads r @ [RtLaunching (rt_apps r ! nat (rt_selected r)) (rt_revision r)]\<rparr>
         | Some OtherEvent \<Rightarrow> ret)"

text \<open>The critical section of \<open>publishCurrent\<close> after the callback.\<close>

definition publish_check :: "unicode_tables \<Rightarrow> gotime \<Rightarrow> bool \<Rightarrow> u64 \<Rightarrow> bool \<Rightarrow> Router \<Rightarrow> router_thread \<times> Router" where
  "publish_check uni clock failed token first r =
     (if rt_active r \<and> rt_revision r = token
      then if failed then (RtWithdrawing first, closed_router r) else (RtReturned first, r)
      else if \<not> rt_active r then (RtWithdrawing first, r)
      else (RtPublishing (observationLocked uni clock r) (rt_revision r) first, r))"

definition closeIfCurrent :: "u64 \<Rightarrow> Router \<Rightarrow> router_thread \<times> Router" where
  "closeIfCurrent token r =
     (if \<not> rt_active r \<or> rt_revision r \<noteq> token then (RtReturned False, r) else (RtWithdrawing False, closed_router r))"

datatype router_event =
    RvHandle "LauncherApp list" gotime "input_event option"
  | RvClose
  | RvPublish nat bool \<comment> \<open>the publishing callback returns, with or without an error\<close>
  | RvCheck nat gotime
  | RvWithdraw nat
  | RvLaunched nat bool

definition set_thread :: "nat \<Rightarrow> router_thread \<times> Router \<Rightarrow> Router" where
  "set_thread i p = (snd p)\<lparr>rt_threads := (rt_threads (snd p))[i := fst p]\<rparr>"

definition thread_at :: "nat \<Rightarrow> Router \<Rightarrow> router_thread" where
  "thread_at i r = (if i < length (rt_threads r) then rt_threads r ! i else RtReturned False)"

fun router_step :: "unicode_tables \<Rightarrow> router_event \<Rightarrow> Router \<Rightarrow> Router option" where
  "router_step uni (RvHandle apps clock event) r = Some (router_Handle uni apps clock event r)"
| "router_step uni RvClose r = Some (router_close r)"
| "router_step uni (RvPublish i failed) r =
     (case thread_at i r of
        RtPublishing v token first \<Rightarrow>
          Some (set_thread i (RtPublished failed v token (first \<or> failed), if failed then r else r\<lparr>rt_menu := Some v\<rparr>))
      | _ \<Rightarrow> None)"
| "router_step uni (RvCheck i clock) r =
     (case thread_at i r of
        RtPublished failed _ token first \<Rightarrow> Some (set_thread i (publish_check uni clock failed token first r))
      | _ \<Rightarrow> None)"
| "router_step uni (RvWithdraw i) r =
     (case thread_at i r of RtWithdrawing err \<Rightarrow> Some (set_thread i (RtReturned err, r\<lparr>rt_menu := None\<rparr>)) | _ \<Rightarrow> None)"
| "router_step uni (RvLaunched i failed) r =
     (case thread_at i r of
        RtLaunching _ token \<Rightarrow> Some (set_thread i (if failed then (RtReturned True, r) else closeIfCurrent token r))
      | _ \<Rightarrow> None)"

subsection \<open>Selection\<close>

lemma wrap_mod: "0 < n \<Longrightarrow> wrap v n = v mod n"
proof (cases "0 \<le> v")
  case True
  then show "0 < n \<Longrightarrow> wrap v n = v mod n" by (cases "v = 0") (simp_all add: wrap_def go_rem_def Let_def not_less)
next
  case False
  assume n: "0 < n"
  then have g: "go_rem v n = - ((- v) mod n)" using False by (simp add: go_rem_def)
  show ?thesis
  proof (cases "(- v) mod n = 0")
    case True
    then have "v mod n = 0" by (metis mod_0 mod_minus_eq minus_minus minus_zero)
    then show ?thesis using True by (simp add: wrap_def g)
  next
    case nz: False
    then have "v mod n = n - (- v) mod n" using n by (metis zmod_zminus1_eq_if minus_minus)
    moreover have "0 < (- v) mod n" using nz n by (simp add: le_neq_trans)
    ultimately show ?thesis by (simp add: wrap_def g)
  qed
qed

definition selection_ok :: "Router \<Rightarrow> bool" where
  "selection_ok r \<longleftrightarrow> 0 \<le> rt_selected r \<and> (rt_apps r \<noteq> [] \<longrightarrow> rt_selected r < int (length (rt_apps r)))"

text \<open>A thread after which the menu is withdrawn, unless the router is open by then.\<close>

fun overdue :: "router_thread \<Rightarrow> bool" where
  "overdue (RtPublished _ _ _ _) = True"
| "overdue (RtWithdrawing _) = True"
| "overdue _ = False"

definition menu_owed :: "Router \<Rightarrow> bool" where
  "menu_owed r \<longleftrightarrow> rt_menu r = None \<or> rt_active r \<or> (\<exists>t\<in>set (rt_threads r). overdue t)"

lemmas router_ops = showLocked_def closed_router_def router_close_def publish_check_def closeIfCurrent_def set_thread_def Let_def

lemma overdue_update: "i < length ts \<Longrightarrow> overdue t \<Longrightarrow> \<exists>u\<in>set (ts[i := t]). overdue u"
  using set_update_memI by fast

lemma overdue_others:
  assumes "\<exists>u\<in>set ts. overdue u" "\<not> overdue (ts ! i)" "i < length ts"
  shows "\<exists>u\<in>set (ts[i := t]). overdue u"
proof -
  obtain j where "j < length ts" "overdue (ts ! j)" using assms(1) by (auto simp: in_set_conv_nth)
  moreover from this have "j \<noteq> i" using assms(2) by auto
  ultimately show ?thesis by (metis length_list_update nth_list_update_neq nth_mem)
qed

lemma thread_atD: "thread_at i r = t \<Longrightarrow> t \<noteq> RtReturned False \<Longrightarrow> i < length (rt_threads r) \<and> rt_threads r ! i = t"
  by (auto simp: thread_at_def split: if_splits)

lemma step_menu_owed:
  assumes "menu_owed r" "router_step uni ev r = Some r'"
  shows "menu_owed r'"
proof (cases ev)
  case (RvHandle apps clock event)
  then show ?thesis
    using assms by (auto simp: menu_owed_def router_Handle_def router_ops split: option.splits input_event.splits if_splits)
next
  case RvClose
  then show ?thesis using assms by (auto simp: menu_owed_def router_ops split: if_splits)
next
  case (RvPublish i failed)
  then obtain v token first where t: "thread_at i r = RtPublishing v token first"
    and r': "r' = set_thread i (RtPublished failed v token (first \<or> failed), if failed then r else r\<lparr>rt_menu := Some v\<rparr>)"
    using assms(2) by (auto split: router_thread.splits)
  have "i < length (rt_threads r)" using thread_atD [OF t] by simp
  from overdue_update [OF this, of "RtPublished failed v token (first \<or> failed)"]
  show ?thesis by (auto simp: r' menu_owed_def set_thread_def)
next
  case (RvCheck i clock)
  then obtain failed v token first where t: "thread_at i r = RtPublished failed v token first"
    and r': "r' = set_thread i (publish_check uni clock failed token first r)"
    using assms(2) by (auto split: router_thread.splits)
  have "i < length (rt_threads r)" using thread_atD [OF t] by simp
  from overdue_update [OF this, of "RtWithdrawing first"]
  show ?thesis by (auto simp: r' menu_owed_def router_ops)
next
  case (RvWithdraw i)
  then show ?thesis using assms(2) by (auto simp: menu_owed_def set_thread_def split: router_thread.splits)
next
  case (RvLaunched i failed)
  then obtain app token where t: "thread_at i r = RtLaunching app token"
    and r': "r' = set_thread i (if failed then (RtReturned True, r) else closeIfCurrent token r)"
    using assms(2) by (auto split: router_thread.splits)
  have i: "i < length (rt_threads r)" "\<not> overdue (rt_threads r ! i)" using thread_atD [OF t] by simp_all
  show ?thesis
    using assms(1) overdue_others [OF _ i(2,1)] overdue_update [OF i(1), of "RtWithdrawing False"]
    by (auto simp: r' menu_owed_def router_ops)
qed

lemma step_selection_ok:
  assumes "selection_ok r" "router_step uni ev r = Some r'"
  shows "selection_ok r'"
  using assms
  by (cases ev) (auto simp: selection_ok_def router_Handle_def router_ops wrap_mod
      split: option.splits input_event.splits if_splits router_thread.splits)

interpretation router: invariant_machine "router_step uni" NewRouter "\<lambda>r. menu_owed r \<and> selection_ok r"
proof unfold_locales
  show "menu_owed NewRouter \<and> selection_ok NewRouter" by (simp add: menu_owed_def selection_ok_def NewRouter_def)
qed (auto intro: step_menu_owed step_selection_ok)

text \<open>A closed menu leaves nothing behind: whatever calls overlap and whichever publications fail, once
  the menu is closed and no call is between its publication and its check or about to withdraw, the
  observation store holds no menu; and an open menu always selects one of its apps.\<close>

theorem closed_menu_withdrawn:
  assumes "reaches (router_step uni) NewRouter r"
  shows "(\<not> rt_active r \<and> \<not> list_ex overdue (rt_threads r) \<longrightarrow> rt_menu r = None) \<and>
    (rt_apps r \<noteq> [] \<longrightarrow> nat (rt_selected r) < length (rt_apps r))"
  using router.reach_inv [OF assms] by (auto simp: menu_owed_def selection_ok_def list_ex_iff)

subsection \<open>One call at a time\<close>

text \<open>The dispatcher handles one event at a time: a call begins when every earlier one has returned.\<close>

fun returned :: "router_thread \<Rightarrow> bool" where
  "returned (RtReturned _) = True"
| "returned _ = False"

definition serial_step :: "unicode_tables \<Rightarrow> router_event \<Rightarrow> Router \<Rightarrow> Router option" where
  "serial_step uni ev r =
     (case ev of
        RvHandle _ _ _ \<Rightarrow> if list_all returned (rt_threads r) then router_step uni ev r else None
      | RvClose \<Rightarrow> if list_all returned (rt_threads r) then router_step uni ev r else None
      | _ \<Rightarrow> router_step uni ev r)"

text \<open>The store holds the menu as it is now, if it is open, and nothing otherwise.\<close>

definition menu_exact :: "unicode_tables \<Rightarrow> Router \<Rightarrow> bool" where
  "menu_exact uni r \<longleftrightarrow> (if rt_active r then \<exists>clock. rt_menu r = Some (observationLocked uni clock r) else rt_menu r = None)"

fun thread_ok :: "unicode_tables \<Rightarrow> Router \<Rightarrow> router_thread \<Rightarrow> bool" where
  "thread_ok uni r (RtPublishing v token _) \<longleftrightarrow> rt_active r \<and> rt_revision r = token \<and> (\<exists>clock. v = observationLocked uni clock r)"
| "thread_ok uni r (RtPublished failed v token _) \<longleftrightarrow> rt_active r \<and> rt_revision r = token \<and>
     (failed \<or> rt_menu r = Some v \<and> (\<exists>clock. v = observationLocked uni clock r))"
| "thread_ok uni r (RtWithdrawing _) \<longleftrightarrow> \<not> rt_active r"
| "thread_ok uni r (RtLaunching app token) \<longleftrightarrow> menu_exact uni r \<and> rt_active r \<and> rt_revision r = token"
| "thread_ok uni r (RtReturned _) \<longleftrightarrow> menu_exact uni r"

definition serial_inv :: "unicode_tables \<Rightarrow> Router \<Rightarrow> bool" where
  "serial_inv uni r \<longleftrightarrow>
     (case filter (\<lambda>t. \<not> returned t) (rt_threads r) of [] \<Rightarrow> menu_exact uni r | [t] \<Rightarrow> thread_ok uni r t | _ \<Rightarrow> False)"

lemma observationLocked_frame [simp]:
  "observationLocked uni clock (r\<lparr>rt_threads := ts\<rparr>) = observationLocked uni clock r"
  "observationLocked uni clock (r\<lparr>rt_menu := m\<rparr>) = observationLocked uni clock r"
  "observationLocked uni clock (r\<lparr>rt_active := a\<rparr>) = observationLocked uni clock r"
  by (simp_all add: observationLocked_def)

lemma menu_exact_frame [simp]: "menu_exact uni (r\<lparr>rt_threads := ts\<rparr>) = menu_exact uni r"
  by (simp add: menu_exact_def)

lemma thread_ok_frame [simp]: "thread_ok uni (r\<lparr>rt_threads := ts\<rparr>) t = thread_ok uni r t"
  by (cases t) simp_all

text \<open>A new call on a router at rest.\<close>

lemma serial_start:
  assumes "list_all returned (rt_threads r)" "rt_threads r' = rt_threads r @ [t]" "thread_ok uni r' t"
  shows "serial_inv uni r'"
proof -
  have "filter (\<lambda>t. \<not> returned t) (rt_threads r') = (if returned t then [] else [t])"
    using assms(1) by (simp add: assms(2) list_all_iff filter_empty_conv)
  then show ?thesis using assms(3) by (cases t) (simp_all add: serial_inv_def)
qed

text \<open>The only call that has not returned takes a step.\<close>

lemma filter_update_only:
  assumes "filter P xs = [xs ! i]" "P (xs ! i)" "i < length xs"
  shows "filter P (xs[i := y]) = (if P y then [y] else [])"
proof -
  have "xs = take i xs @ xs ! i # drop (Suc i) xs" using assms(3) by (simp add: id_take_nth_drop)
  then have "filter P (take i xs) @ xs ! i # filter P (drop (Suc i) xs) = [xs ! i]"
    using assms(1,2) by (metis filter.simps(2) filter_append)
  then have "filter P (take i xs) = []" "filter P (drop (Suc i) xs) = []" by (cases "filter P (take i xs)"; simp)+
  then show ?thesis using assms(3) by (simp add: upd_conv_take_nth_drop)
qed

lemma serial_only:
  assumes "serial_inv uni r" "i < length (rt_threads r)" "\<not> returned (rt_threads r ! i)"
  shows "filter (\<lambda>t. \<not> returned t) (rt_threads r) = [rt_threads r ! i]" "thread_ok uni r (rt_threads r ! i)"
proof -
  have m: "rt_threads r ! i \<in> set (filter (\<lambda>t. \<not> returned t) (rt_threads r))" using assms(2,3) by simp
  then have "filter (\<lambda>t. \<not> returned t) (rt_threads r) \<noteq> []" by (metis empty_iff list.set(1))
  then obtain t where t: "filter (\<lambda>t. \<not> returned t) (rt_threads r) = [t]" "thread_ok uni r t"
    using assms(1) by (auto simp: serial_inv_def split: list.splits)
  then show "filter (\<lambda>t. \<not> returned t) (rt_threads r) = [rt_threads r ! i]" "thread_ok uni r (rt_threads r ! i)"
    using m by simp_all
qed

lemma serial_move:
  assumes "serial_inv uni r" "i < length (rt_threads r)" "\<not> returned (rt_threads r ! i)"
    and "thread_ok uni r' t" "rt_threads r' = rt_threads r"
  shows "serial_inv uni (set_thread i (t, r'))"
  using filter_update_only [OF serial_only(1) [OF assms(1-3)] assms(3,2), of t] assms(4,5)
  by (cases t) (simp_all add: serial_inv_def set_thread_def)

lemma serial_rest: "serial_inv uni r \<Longrightarrow> list_all returned (rt_threads r) \<Longrightarrow> menu_exact uni r"
  by (simp add: serial_inv_def list_all_iff filter_empty_conv split: list.splits)

lemma serial_close:
  assumes "serial_inv uni r" "list_all returned (rt_threads r)"
  shows "serial_inv uni (router_close r)"
proof (rule serial_start [OF assms(2)])
  show "rt_threads (router_close r) = rt_threads r @ [if rt_active r then RtWithdrawing False else RtReturned False]"
    by (simp add: router_close_def)
  show "thread_ok uni (router_close r) (if rt_active r then RtWithdrawing False else RtReturned False)"
    using serial_rest [OF assms] by (simp add: router_close_def closed_router_def)
qed

lemma serial_show:
  assumes "list_all returned (rt_threads r)" "rt_active r"
  shows "serial_inv uni (showLocked uni clock r)"
proof (rule serial_start [OF assms(1)])
  let ?r = "r\<lparr>rt_revision := rt_revision r + 1\<rparr>"
  show "rt_threads (showLocked uni clock r) = rt_threads r @ [RtPublishing (observationLocked uni clock ?r) (rt_revision ?r) False]"
    by (simp add: showLocked_def Let_def)
  show "thread_ok uni (showLocked uni clock r) (RtPublishing (observationLocked uni clock ?r) (rt_revision ?r) False)"
    using assms(2) by (auto simp: showLocked_def Let_def)
qed

lemma serial_Handle:
  assumes "serial_inv uni r" "list_all returned (rt_threads r)"
  shows "serial_inv uni (router_Handle uni apps clock event r)"
proof -
  note e = serial_rest [OF assms]
  have ret: "serial_inv uni (r\<lparr>rt_threads := rt_threads r @ [RtReturned False]\<rparr>)"
    by (rule serial_start [OF assms(2), where t = "RtReturned False"]) (simp_all add: e)
  have launch: "serial_inv uni (r\<lparr>rt_threads := rt_threads r @ [RtLaunching app (rt_revision r)]\<rparr>)" if "rt_active r" for app
    by (rule serial_start [OF assms(2), where t = "RtLaunching app (rt_revision r)"]) (simp_all add: e that)
  have shows_it: "serial_inv uni (showLocked uni clock (r\<lparr>rt_active := True, rt_apps := apps, rt_selected := 0, rt_created := time_utc clock\<rparr>))"
    "rt_active r \<Longrightarrow> serial_inv uni (showLocked uni clock (r\<lparr>rt_selected := n\<rparr>))" for n
    by (rule serial_show; use assms(2) in simp)+
  show ?thesis
    using ret launch shows_it serial_close [OF assms]
    by (auto simp: router_Handle_def Let_def split: option.splits input_event.splits)
qed

lemma serial_step_inv:
  assumes "serial_inv uni r" "serial_step uni ev r = Some r'"
  shows "serial_inv uni r'"
proof (cases ev)
  case (RvHandle apps clock event)
  then show ?thesis using assms by (auto simp: serial_step_def serial_Handle split: if_splits)
next
  case RvClose
  then show ?thesis using assms by (auto simp: serial_step_def serial_close split: if_splits)
next
  case (RvPublish i failed)
  then obtain v token first where t: "thread_at i r = RtPublishing v token first"
    and r': "r' = set_thread i (RtPublished failed v token (first \<or> failed), if failed then r else r\<lparr>rt_menu := Some v\<rparr>)"
    using assms(2) by (auto simp: serial_step_def split: router_thread.splits)
  have i: "i < length (rt_threads r)" "\<not> returned (rt_threads r ! i)" "rt_threads r ! i = RtPublishing v token first"
    using thread_atD [OF t] by simp_all
  show ?thesis unfolding r'
    by (rule serial_move [OF assms(1) i(1,2)]) (use serial_only(2) [OF assms(1) i(1,2)] i(3) in auto)
next
  case (RvCheck i clock)
  then obtain failed v token first where t: "thread_at i r = RtPublished failed v token first"
    and r': "r' = set_thread i (publish_check uni clock failed token first r)"
    using assms(2) by (auto simp: serial_step_def split: router_thread.splits)
  have i: "i < length (rt_threads r)" "\<not> returned (rt_threads r ! i)" "rt_threads r ! i = RtPublished failed v token first"
    using thread_atD [OF t] by simp_all
  have ok: "rt_active r" "rt_revision r = token" "failed \<or> rt_menu r = Some v \<and> (\<exists>clock. v = observationLocked uni clock r)"
    using serial_only(2) [OF assms(1) i(1,2)] by (simp_all add: i(3))
  then have "r' = set_thread i (if failed then (RtWithdrawing first, closed_router r) else (RtReturned first, r))"
    by (simp add: r' publish_check_def)
  then show ?thesis
    using ok serial_move [OF assms(1) i(1,2)] by (auto simp: closed_router_def menu_exact_def split: if_splits)
next
  case (RvWithdraw i)
  then obtain err where t: "thread_at i r = RtWithdrawing err" and r': "r' = set_thread i (RtReturned err, r\<lparr>rt_menu := None\<rparr>)"
    using assms(2) by (auto simp: serial_step_def split: router_thread.splits)
  have i: "i < length (rt_threads r)" "\<not> returned (rt_threads r ! i)" "rt_threads r ! i = RtWithdrawing err"
    using thread_atD [OF t] by simp_all
  show ?thesis unfolding r'
    by (rule serial_move [OF assms(1) i(1,2)]) (use serial_only(2) [OF assms(1) i(1,2)] i(3) in \<open>auto simp: menu_exact_def\<close>)
next
  case (RvLaunched i failed)
  then obtain app token where t: "thread_at i r = RtLaunching app token"
    and r': "r' = set_thread i (if failed then (RtReturned True, r) else closeIfCurrent token r)"
    using assms(2) by (auto simp: serial_step_def split: router_thread.splits)
  have i: "i < length (rt_threads r)" "\<not> returned (rt_threads r ! i)" "rt_threads r ! i = RtLaunching app token"
    using thread_atD [OF t] by simp_all
  have ok: "menu_exact uni r" "rt_active r" "rt_revision r = token" using serial_only(2) [OF assms(1) i(1,2)] by (simp_all add: i(3))
  then have "r' = set_thread i (if failed then (RtReturned True, r) else (RtWithdrawing False, closed_router r))"
    by (simp add: r' closeIfCurrent_def)
  then show ?thesis using ok serial_move [OF assms(1) i(1,2)] by (auto simp: closed_router_def split: if_splits)
qed

lemma serial_is_step: "serial_step uni ev r = Some r' \<Longrightarrow> router_step uni ev r = Some r'"
  by (auto simp: serial_step_def split: router_event.splits if_splits)

interpretation serial_router: invariant_machine "serial_step uni" NewRouter "\<lambda>r. serial_inv uni r \<and> selection_ok r"
proof unfold_locales
  show "serial_inv uni NewRouter \<and> selection_ok NewRouter"
    by (simp add: serial_inv_def menu_exact_def selection_ok_def NewRouter_def)
qed (auto intro: serial_step_inv step_selection_ok serial_is_step)

text \<open>The display shows the menu that the buttons act on: when the calls come one at a time, as the
  dispatcher makes them, then between two calls the observation store holds the menu exactly while it is
  open, and what it holds is the picture of the current selection under the current revision; pressing
  start then launches that app.\<close>

theorem menu_shows_selection:
  assumes "reaches (serial_step uni) NewRouter r" "list_all returned (rt_threads r)"
  shows "(rt_active r \<longrightarrow> (\<exists>clock. rt_menu r = Some (observationLocked uni clock r))) \<and> (\<not> rt_active r \<longrightarrow> rt_menu r = None) \<and>
    (rt_active r \<and> rt_apps r \<noteq> [] \<longrightarrow>
       router_Handle uni apps clock (Some (ButtonEvent Button_START Action_PRESS)) r =
         r\<lparr>rt_threads := rt_threads r @ [RtLaunching (rt_apps r ! nat (rt_selected r)) (rt_revision r)]\<rparr> \<and>
       nat (rt_selected r) < length (rt_apps r))"
proof -
  have r: "serial_inv uni r" "selection_ok r" using serial_router.reach_inv [OF assms(1)] by simp_all
  show ?thesis
    using serial_rest [OF r(1) assms(2)] r(2) by (auto simp: menu_exact_def selection_ok_def router_Handle_def)
qed

subsection \<open>The menu is a valid observation\<close>

lemma runes_ascii: "list_all (\<lambda>b. b < 128) bs \<Longrightarrow> runes bs = map Rune bs"
  by (induction bs) (simp_all add: runes.simps)

lemma bytes_ascii: "is_ascii s \<Longrightarrow> list_all (\<lambda>b. b < 128) (bytes_of s)"
  by (auto simp: is_ascii_def bytes_of_def list_all_iff)

lemma ascii_ValidString: "is_ascii s \<Longrightarrow> ValidString s"
  by (auto simp: ValidString_def runes_ascii bytes_ascii)

definition plain_name :: "string \<Rightarrow> bool" where
  "plain_name s \<longleftrightarrow> s \<noteq> [] \<and> length s \<le> 128 \<and> list_all (\<lambda>c. 32 < (of_char c :: nat) \<and> (of_char c :: nat) < 127) s"

lemma plain_identifier: "plain_name s \<Longrightarrow> validateIdentifier s = None"
proof -
  assume s: "plain_name s"
  then have a: "is_ascii s" by (auto simp: plain_name_def is_ascii_def list_all_iff)
  have r: "runes (bytes_of s) = map (\<lambda>c. Rune (of_char c)) s" by (simp add: runes_ascii bytes_ascii a) (simp add: bytes_of_def)
  have c: "\<not> IsSpace (Rune (of_char c))" "\<not> IsControl (Rune (of_char c))" if "c \<in> set s" for c
    using s that by (auto simp: plain_name_def list_all_iff)
  have "s \<noteq> []" using s by (simp add: plain_name_def)
  then have "\<not> blank_string s" using c(1) unfolding blank_string_def r by (cases s) (auto simp del: IsSpace.simps)
  moreover have "\<not> list_ex IsControl (runes (bytes_of s))" using c(2) unfolding r by (auto simp: list_ex_iff simp del: IsControl.simps)
  ultimately show ?thesis using s ascii_ValidString [OF a] by (simp add: validateIdentifier_None plain_name_def)
qed

lemma decimal_ascii: "is_ascii (decimal n)"
proof (induction n rule: decimal.induct)
  case (1 n)
  have "is_ascii [''0123456789'' ! k]" if "k < 10" for k
  proof -
    have "k \<in> {0, 1, 2, 3, 4, 5, 6, 7, 8, 9}" using that by auto
    then show ?thesis by (auto simp: is_ascii_def)
  qed
  then show ?case using 1 by (simp add: decimal.simps [of n] is_ascii_def)
qed

lemma decimal_length: "n < 10 ^ Suc k \<Longrightarrow> length (decimal n) \<le> Suc k"
proof (induction k arbitrary: n)
  case 0
  then show ?case by (simp add: decimal.simps [of n])
next
  case (Suc k)
  then have "n div 10 < 10 ^ Suc k" by (simp add: less_mult_imp_div_less)
  then show ?case using Suc.IH by (auto simp: decimal.simps [of n])
qed

text \<open>A line of text that the display accepts.\<close>

definition line_ok :: "string \<Rightarrow> bool" where
  "line_ok s \<longleftrightarrow> length s \<le> 512 \<and> ValidString s"

lemma rectangle_valid:
  assumes "plain_name eid" "display = DisplayFront \<or> display = DisplayBack" "colorPattern color"
    and "0 \<le> x" "x < fst (display_size display)" "0 \<le> y" "y < snd (display_size display)"
    and "0 < w" "w \<le> 160" "0 < h" "h \<le> 80"
  shows "element_Validate (launcherRectangle eid display x y w h color) = []"
  using assms plain_identifier [OF assms(1)]
  by (auto simp: element_Validate_def launcherRectangle_def placement_errors_def rectangle_errors_def countTrue_def validation split: prod.splits)

lemma text_valid:
  assumes "plain_name eid" "display = DisplayFront \<or> display = DisplayBack" "colorPattern color"
    and "0 \<le> x" "x < fst (display_size display)" "0 \<le> y" "y < snd (display_size display)"
    and "line_ok txt" "validFont font" "validAlign align"
  shows "element_Validate (launcherTextElement eid display txt font color x y align) = []"
  using assms plain_identifier [OF assms(1)]
  by (auto simp: element_Validate_def launcherTextElement_def placement_errors_def text_errors_def
      countTrue_def validation line_ok_def MaxTextBytes_def split: prod.splits)

lemma marquee_valid:
  assumes "element_Validate (launcherTextElement eid display txt font color x y align) = []" "0 \<le> width" "width \<le> 160"
  shows "element_Validate (launcherMarquee eid display txt font color x y width align) = []"
  using assms
  by (auto simp: element_Validate_def launcherTextElement_def launcherMarquee_def Let_def placement_errors_def text_errors_def
      countTrue_def validation split: if_splits)

lemma colors_valid [simp]:
  "colorPattern launcherCanvas" "colorPattern launcherSurface" "colorPattern launcherBorder" "colorPattern launcherText"
  "colorPattern launcherSecondary" "colorPattern launcherAccent"
  by (simp_all add: launcher_colors colorPattern_def)

lemma constant_lines: "line_ok ''APPS / LAUNCHER''" "line_ok ''PLAY: OPEN''" "line_ok ''No available apps''" "line_ok ''0 / 0''"
  by (simp_all add: line_ok_def ascii_ValidString is_ascii_def)

lemma launcherScene_valid:
  assumes "line_ok app" "line_ok position"
  shows "scene_Validate (launcherScene app position) = []"
proof -
  have "element_Validate el = []" if "el \<in> set (launcherScene app position)" for el
    using that unfolding launcherScene_def
    by (auto intro!: rectangle_valid text_valid marquee_valid assms constant_lines
        simp: plain_name_def display_size_def validFont_def validAlign_def)
  moreover have "distinct (map el_ID (launcherScene app position))"
    by (simp add: launcherScene_def launcherRectangle_def launcherTextElement_def launcherMarquee_def Let_def)
  ultimately show ?thesis
    by (simp add: scene_Validate_def scene_loop_Nil_iff MaxSceneElements_def) (simp add: launcherScene_def)
qed

lemma observationLocked_valid:
  assumes "selection_ok r"
    and "\<forall>app\<in>set (rt_apps r). line_ok (launcher_label uni app)" "length (rt_apps r) < 2 ^ 63"
    and "rt_revision r \<noteq> 0" "0 < instant (rt_created r)" "zone_offset (rt_created r) = 0"
    and "0 < instant clock" "instant now < instant clock + 24 * hour"
  shows "observation_Validate (observationLocked uni clock r) now = []"
proof -
  have sel: "rt_apps r \<noteq> [] \<Longrightarrow> nat (rt_selected r) < length (rt_apps r)"
    using assms(1) by (auto simp: selection_ok_def)
  have len: "length (decimal n) \<le> 19" if "n \<le> length (rt_apps r)" for n
    using decimal_length [of n 18] assms(3) that by simp
  have "line_ok (decimal (nat (rt_selected r) + 1) @ '' / '' @ decimal (length (rt_apps r)))" if "rt_apps r \<noteq> []"
  proof -
    have "length (decimal (nat (rt_selected r) + 1)) \<le> 19" "length (decimal (length (rt_apps r))) \<le> 19"
      using len sel [OF that] by simp_all
    then show ?thesis using decimal_ascii by (auto simp: line_ok_def is_ascii_def intro!: ascii_ValidString)
  qed
  moreover have "line_ok (launcher_label uni (rt_apps r ! nat (rt_selected r)))" if "rt_apps r \<noteq> []"
    using assms(2) sel [OF that] by simp
  ultimately obtain app position where o: "obs_Scene (observationLocked uni clock r) = Some (launcherScene app position)"
    and l: "line_ok app" "line_ok position"
    using constant_lines by (cases "rt_apps r = []") (auto simp: observationLocked_def Let_def)
  have names: "validateIdentifier ''launcher'' = None" "validateIdentifier ''apps'' = None" "validateIdentifier ''menu'' = None"
    by (simp_all add: plain_identifier plain_name_def)
  have f: "obs_Instance (observationLocked uni clock r) = \<lparr>ref_ID = ''launcher'', ref_Generation = 1\<rparr>"
    "obs_Channel (observationLocked uni clock r) = ''apps''" "obs_Key (observationLocked uni clock r) = ''menu''"
    "obs_Revision (observationLocked uni clock r) = rt_revision r" "obs_Disposition (observationLocked uni clock r) = DispositionSnapshot"
    "obs_Impact (observationLocked uni clock r) = ImpactNormal" "obs_ReasonCode (observationLocked uni clock r) = ''launcher_active''"
    "obs_ObservedAt (observationLocked uni clock r) = rt_created r" "obs_UpdatedAt (observationLocked uni clock r) = time_utc clock"
    "obs_ValidUntil (observationLocked uni clock r) = time_add (time_utc clock) (24 * hour)"
    "obs_BusyTimer (observationLocked uni clock r) = None" "obs_Audio (observationLocked uni clock r) = None"
    by (simp_all add: observationLocked_def Let_def)
  show ?thesis
    unfolding observation_Validate_def unresolved_errors_def ref_Validate_def f o
    using assms(4-) by (simp add: names launcherScene_valid [OF l] validation validateRequiredTimestamp_def validateOptionalTimestamp_def
        go_time reasonCodePattern_def lower_alnum_def hour_def)
qed

text \<open>Every menu the router hands to the observation store is accepted: in every reachable state of the
  router, with a clock in UTC after the zero time and names of at most 512 bytes of valid text, the
  observation of the menu passes every check of the protocol until 24 hours later.\<close>

theorem menu_is_valid:
  assumes "reaches (router_step uni) NewRouter r"
    and "\<forall>app\<in>set (rt_apps r). line_ok (launcher_label uni app)" "length (rt_apps r) < 2 ^ 63"
    and "rt_revision r \<noteq> 0" "0 < instant (rt_created r)" "zone_offset (rt_created r) = 0"
    and "0 < instant clock" "instant now < instant clock + 24 * hour"
  shows "observation_Validate (observationLocked uni clock r) now = []"
  by (rule observationLocked_valid [OF _ assms(2-)]) (use router.reach_inv [OF assms(1)] in simp)

subsection \<open>Witnesses\<close>

definition demo_tables :: unicode_tables where
  "demo_tables = \<lparr>uni_TrimSpace = (\<lambda>s. s), uni_ToUpper = (\<lambda>s. s)\<rparr>"

definition demo_apps :: "LauncherApp list" where
  "demo_apps = [\<lparr>la_ID = ''desk'', la_DisplayName = '' Calls '', la_Action = ''open''\<rparr>,
     \<lparr>la_ID = ''build-light'', la_DisplayName = '''', la_Action = ''open''\<rparr>]"

text \<open>The menu is opened and turned one step back, to the last app.\<close>

definition demo_turn :: "router_event list" where
  "demo_turn = [RvHandle demo_apps demo_time (Some (SwitchEvent Switch_APPS)), RvPublish 0 False, RvCheck 0 demo_time,
     RvHandle [] demo_time (Some (EncoderEvent (- 1))), RvPublish 1 False, RvCheck 1 demo_time]"

definition demo_menu :: Router where
  "demo_menu = the (run_steps (serial_step demo_tables) demo_turn NewRouter)"

lemmas demo_router_eval = serial_step_def router_Handle_def router_ops thread_at_def NewRouter_def wrap_def go_rem_def demo_apps_def

lemma demo_menu_eq:
  "run_steps (serial_step demo_tables) demo_turn NewRouter = Some demo_menu"
  "rt_active demo_menu" "rt_selected demo_menu = 1" "rt_apps demo_menu = demo_apps" "rt_revision demo_menu = 2"
  "rt_threads demo_menu = [RtReturned False, RtReturned False]" "rt_created demo_menu = time_utc demo_time"
  by (simp_all add: demo_menu_def demo_turn_def demo_router_eval)

lemma demo_menu_serial: "reaches (serial_step demo_tables) NewRouter demo_menu"
  by (rule reachesI [OF demo_menu_eq(1)])

lemma serial_reaches: "reaches (serial_step uni) r r' \<Longrightarrow> reaches (router_step uni) r r'"
  by (erule reaches_keep [where P = "reaches (router_step uni) r"]) (auto intro: reaches_step serial_is_step)

definition demo_shut :: Router where
  "demo_shut = the (run_steps (router_step demo_tables) [RvClose, RvWithdraw 2] demo_menu)"

lemma demo_shut_eq:
  "run_steps (router_step demo_tables) [RvClose, RvWithdraw 2] demo_menu = Some demo_shut" "\<not> rt_active demo_shut"
  "rt_threads demo_shut = [RtReturned False, RtReturned False, RtReturned False]"
  by (simp_all add: demo_shut_def router_ops thread_at_def demo_menu_eq)

theorem closed_menu_withdrawn_witness: "rt_menu demo_shut = None"
proof -
  have "reaches (router_step demo_tables) NewRouter demo_shut"
    by (rule reaches_trans [OF serial_reaches [OF demo_menu_serial] reachesI [OF demo_shut_eq(1)]])
  from closed_menu_withdrawn [OF this] show ?thesis by (simp add: demo_shut_eq)
qed

theorem menu_shows_selection_witness:
  "(\<exists>clock. rt_menu demo_menu = Some (observationLocked demo_tables clock demo_menu)) \<and>
   router_Handle demo_tables [] demo_time (Some (ButtonEvent Button_START Action_PRESS)) demo_menu =
     demo_menu\<lparr>rt_threads := [RtReturned False, RtReturned False, RtLaunching (demo_apps ! 1) 2]\<rparr>"
  using menu_shows_selection [OF demo_menu_serial, of "[]" demo_time] by (simp add: demo_menu_eq) (simp add: demo_apps_def)

theorem menu_is_valid_witness: "observation_Validate (observationLocked demo_tables demo_time demo_menu) demo_time = []"
proof (rule menu_is_valid [OF serial_reaches [OF demo_menu_serial]])
  show "\<forall>app\<in>set (rt_apps demo_menu). line_ok (launcher_label demo_tables app)"
    by (auto simp: demo_menu_eq demo_apps_def line_ok_def launcher_label_def Let_def TrimSpace_def ToUpper_def is_ascii_def
        ascii_space_def ascii_upper_def intro!: ascii_ValidString)
qed (simp_all add: demo_menu_eq demo_apps_def demo_time_def go_time hour_def)

end
