(* ===== verification/InputCoordinator.thy ===== *)
theory InputCoordinator
  imports Launcher Engine
begin

text \<open>
  \<open>internal/input/coordinator.go\<close>: the one place that decides what a physical input does. The coordinator
  keeps no state of its own; it calls the menu, the sessions, the broker and the engine through
  interfaces, which are the fields of \<open>input_host\<close> over an arbitrary state. What other goroutines do
  between two calls is part of the calls. The interface \<open>input_laws\<close> is what the coordinator relies on,
  and it is shown for the parts that the daemon connects to it (\<open>internal/daemonrun/run.go\<close>): the engine with
  its sessions and its store, and the menu. Every dependency is configured, as it is there; errors that
  are only passed on are flags.
\<close>

subsection \<open>What the coordinator calls\<close>

record ('s, 'b) input_host =
  ih_Active :: "'s \<Rightarrow> bool"
  ih_launcher_Handle :: "input_event \<Rightarrow> 's \<Rightarrow> bool \<times> 's"
  ih_launcher_Close :: "'s \<Rightarrow> 's"
  ih_ForegroundSession :: "'s \<Rightarrow> string \<times> string"
  ih_ClearForegroundSessionContext :: "string \<Rightarrow> string \<Rightarrow> 's \<Rightarrow> 's"
  ih_BeginLauncherAdmission :: "'s \<Rightarrow> u64 option"
  ih_LauncherAdmissionCurrent :: "u64 \<Rightarrow> 's \<Rightarrow> bool"
  ih_ActivateSelected :: "SessionInput \<Rightarrow> 's \<Rightarrow> (bool \<times> bool \<times> string \<times> string) \<times> 's"
    \<comment> \<open>an error; whether something was activated; the target of the input\<close>
  ih_publish :: "string \<Rightarrow> string \<Rightarrow> SessionInput \<Rightarrow> gotime \<Rightarrow> 's \<Rightarrow> bool \<times> 's"
  ih_back_Publish :: "string \<Rightarrow> string \<Rightarrow> SessionInput \<Rightarrow> gotime \<Rightarrow> 's \<Rightarrow> (SessionInputDisposition \<times> bool) \<times> 's"
  ih_back_Begin :: "'s \<Rightarrow> 'b \<times> 's"
  ih_Consumed :: "'b \<Rightarrow> 's \<Rightarrow> bool \<times> 's"
  ih_Fallback :: "'b \<Rightarrow> string \<Rightarrow> 's \<Rightarrow> bool \<times> 's"
  ih_invalidate :: "'s \<Rightarrow> 's"
  ih_reconcile :: "'s \<Rightarrow> bool \<times> 's"
  ih_now :: "'s \<Rightarrow> gotime"

definition isBackPress :: "input_event \<Rightarrow> bool" where
  "isBackPress ev \<longleftrightarrow> ev = ButtonEvent Button_BACK Action_PRESS"

definition isBackRelease :: "input_event \<Rightarrow> bool" where
  "isBackRelease ev \<longleftrightarrow> ev = ButtonEvent Button_BACK Action_RELEASE"

definition closesFirmwareCanvas :: "input_event \<Rightarrow> bool" where
  "closesFirmwareCanvas ev = (case ev of SwitchEvent _ \<Rightarrow> True | _ \<Rightarrow> False)"

fun mapped_button :: "pb_button \<Rightarrow> Button option" where
  "mapped_button Button_OK = Some ButtonOK"
| "mapped_button Button_BACK = Some ButtonBack"
| "mapped_button Button_START = Some ButtonStart"
| "mapped_button (Button_other _) = None"

fun mapped_action :: "pb_action \<Rightarrow> ButtonAction option" where
  "mapped_action Action_PRESS = Some ButtonPress"
| "mapped_action Action_RELEASE = Some ButtonRelease"
| "mapped_action (Action_other _) = None"

fun sessionInput :: "input_event \<Rightarrow> SessionInput option" where
  "sessionInput (ButtonEvent b a) =
     (case (mapped_button b, mapped_action a) of
        (Some button, Some action) \<Rightarrow>
          Some \<lparr>in_Button = Some \<lparr>bi_Button = button, bi_Action = action\<rparr>, in_Encoder = None\<rparr>
      | _ \<Rightarrow> None)"
| "sessionInput (EncoderEvent delta) = (if delta \<noteq> 0 then Some \<lparr>in_Button = None, in_Encoder = Some delta\<rparr> else None)"
| "sessionInput _ = None"

subsection \<open>The coordinator\<close>

definition names_session :: "string \<times> string \<Rightarrow> bool" where
  "names_session p \<longleftrightarrow> fst p \<noteq> '''' \<and> snd p \<noteq> ''''"

definition clearForeground :: "('s, 'b) input_host \<Rightarrow> 's \<Rightarrow> 's" where
  "clearForeground h s =
     (let p = ih_ForegroundSession h s
      in if names_session p then ih_ClearForegroundSessionContext h (fst p) (snd p) s else s)"

text \<open>The answer of the session to a Back press: consumed, or the reason for the fallback.\<close>

definition back_answer :: "SessionInputDisposition \<times> bool \<Rightarrow> string option" where
  "back_answer answer =
     (let failed = snd answer \<or> result_Validate (fst answer) \<noteq> None
      in if \<not> failed \<and> fst answer = SessionInputConsumed then None
         else Some (if failed then ''back_session_input_failed'' else ''back_not_consumed''))"

definition back_fallback ::
  "('s, 'b) input_host \<Rightarrow> 'b \<Rightarrow> string \<Rightarrow> string \<times> string \<Rightarrow> bool \<Rightarrow> 's \<Rightarrow> bool \<times> 's" where
  "back_fallback h attempt reason p launcherActive s =
     (case ih_Fallback h attempt reason s of
        (err, s1) \<Rightarrow>
          let s2 = (if names_session p then ih_ClearForegroundSessionContext h (fst p) (snd p) s1 else s1)
          in (err, if launcherActive then ih_launcher_Close h s2 else s2))"

definition handleBack :: "('s, 'b) input_host \<Rightarrow> input_event \<Rightarrow> 's \<Rightarrow> bool \<times> 's" where
  "handleBack h ev s =
     (case sessionInput ev of
        None \<Rightarrow> (False, s)
      | Some payload \<Rightarrow>
          let p = ih_ForegroundSession h s;
              launcherActive = ih_Active h s;
              (attempt, s1) = ih_back_Begin h s
          in if names_session p
             then (case ih_back_Publish h (fst p) (snd p) payload (time_utc (ih_now h s1)) s1 of
                     (answer, s2) \<Rightarrow>
                       (case back_answer answer of
                          None \<Rightarrow> ih_Consumed h attempt s2
                        | Some reason \<Rightarrow> back_fallback h attempt reason p launcherActive s2))
             else back_fallback h attempt ''back_no_session'' p launcherActive s1)"

text \<open>What the session answers to a Back press.\<close>

definition back_reply :: "('s, 'b) input_host \<Rightarrow> SessionInput \<Rightarrow> 's \<Rightarrow> (SessionInputDisposition \<times> bool) \<times> 's" where
  "back_reply h payload s =
     (let p = ih_ForegroundSession h s; s1 = snd (ih_back_Begin h s)
      in ih_back_Publish h (fst p) (snd p) payload (time_utc (ih_now h s1)) s1)"

definition handle_switch :: "('s, 'b) input_host \<Rightarrow> pb_switch \<Rightarrow> 's \<Rightarrow> bool \<times> 's" where
  "handle_switch h position s =
     (let s1 = clearForeground h s
      in if position = Switch_APPS
         then (case ih_BeginLauncherAdmission h s1 of
                 None \<Rightarrow> (False, ih_launcher_Close h s1)
               | Some admission \<Rightarrow>
                   (case ih_launcher_Handle h (SwitchEvent position) s1 of
                      (err, s2) \<Rightarrow> (err, if ih_LauncherAdmissionCurrent h admission s2 then s2 else ih_launcher_Close h s2)))
         else if ih_Active h s1 then ih_launcher_Handle h (SwitchEvent position) s1
         else (False, s1))"

text \<open>What may activate the card on the display: the start button and the encoder.\<close>

definition activates :: "SessionInput \<Rightarrow> bool" where
  "activates payload \<longleftrightarrow>
     in_Button payload = Some \<lparr>bi_Button = ButtonStart, bi_Action = ButtonPress\<rparr> \<or> in_Encoder payload \<noteq> None"

definition coordinator_handle :: "('s, 'b) input_host \<Rightarrow> input_event \<Rightarrow> 's \<Rightarrow> bool \<times> 's" where
  "coordinator_handle h ev s =
     (case ev of
        SwitchEvent position \<Rightarrow> handle_switch h position s
      | _ \<Rightarrow>
          if ih_Active h s then ih_launcher_Handle h ev s
          else case sessionInput ev of
            None \<Rightarrow> (False, s)
          | Some payload \<Rightarrow>
              let p = ih_ForegroundSession h s
              in if names_session p then ih_publish h (fst p) (snd p) payload (time_utc (ih_now h s)) s
                 else if activates payload
                   then let occurredAt = time_utc (ih_now h s)
                        in (case ih_ActivateSelected h payload s of
                              ((err, activated, target), s1) \<Rightarrow>
                                if err then (True, s1)
                                else if activated \<and> names_session target
                                  then ih_publish h (fst target) (snd target) payload occurredAt s1
                                else (False, s1))
                 else (False, s))"

definition coordinator_Handle :: "('s, 'b) input_host \<Rightarrow> input_event option \<Rightarrow> 's \<Rightarrow> bool \<times> 's" where
  "coordinator_Handle h event s =
     (case event of
        None \<Rightarrow> (False, s)
      | Some ev \<Rightarrow>
          if isBackPress ev then handleBack h ev s
          else if isBackRelease ev then (False, s)
          else if closesFirmwareCanvas ev
            then (case coordinator_handle h ev (ih_invalidate h s) of
                    (err, s1) \<Rightarrow> (case ih_reconcile h s1 of (err', s2) \<Rightarrow> (err \<or> err', s2)))
          else coordinator_handle h ev s)"

subsection \<open>What it relies on\<close>

text \<open>
  Closing the menu closes it and leaves the sessions alone; clearing a session removes it from the
  foreground and leaves the menu alone; an admission that is current excludes a critical owner; another
  switch position closes the menu.
\<close>

locale input_laws =
  fixes h :: "('s, 'b) input_host"
    and critical :: "'s \<Rightarrow> bool"
  assumes close_inactive: "\<not> ih_Active h (ih_launcher_Close h s)"
    and close_foreground: "ih_ForegroundSession h (ih_launcher_Close h s) = ih_ForegroundSession h s"
    and clear_gone: "names_session (i, t) \<Longrightarrow> ih_ForegroundSession h (ih_ClearForegroundSessionContext h i t s) \<noteq> (i, t)"
    and clear_active: "ih_Active h (ih_ClearForegroundSessionContext h i t s) = ih_Active h s"
    and admission_current: "ih_LauncherAdmissionCurrent h a s \<Longrightarrow> \<not> critical s"
    and switch_closes: "position \<noteq> Switch_APPS \<Longrightarrow> \<not> ih_Active h (snd (ih_launcher_Handle h (SwitchEvent position) s))"
begin

lemma clearForeground_active [simp]: "ih_Active h (clearForeground h s) = ih_Active h s"
  by (simp add: clearForeground_def clear_active Let_def)

lemma fallback_leaves:
  assumes "back_fallback h attempt reason p launcherActive s = (err, s')"
  shows "names_session p \<Longrightarrow> ih_ForegroundSession h s' \<noteq> p" "launcherActive \<Longrightarrow> \<not> ih_Active h s'"
  using assms clear_gone [of "fst p" "snd p"] close_inactive
  by (auto simp: back_fallback_def Let_def close_foreground split: prod.splits if_splits)

text \<open>A Back press ends in the callback for a consumed press or in the fallback.\<close>

lemma back_cases:
  assumes "handleBack h ev s = (err, s')" "sessionInput ev = Some payload"
  shows "if names_session (ih_ForegroundSession h s) \<and> back_answer (fst (back_reply h payload s)) = None
    then ih_Consumed h (fst (ih_back_Begin h s)) (snd (back_reply h payload s)) = (err, s')
    else \<exists>reason s2. back_fallback h (fst (ih_back_Begin h s)) reason (ih_ForegroundSession h s) (ih_Active h s) s2 = (err, s')"
proof (cases "names_session (ih_ForegroundSession h s)")
  case False
  then show ?thesis using assms(1) by (auto simp: handleBack_def assms(2) Let_def split_beta)
next
  case True
  then show ?thesis using assms(1)
    by (cases "back_answer (fst (back_reply h payload s))") (auto simp: handleBack_def assms(2) back_reply_def Let_def split_beta)
qed

text \<open>After a switch event the menu is open only in the APPS position and never beside a critical owner.\<close>

lemma switch_menu:
  assumes "handle_switch h position s = (err, s')" "ih_Active h s'"
  shows "position = Switch_APPS" "\<not> critical s'"
proof -
  have "\<not> ih_Active h s'" if "position \<noteq> Switch_APPS"
    using assms(1) that switch_closes [OF that, of "clearForeground h s"] by (auto simp: handle_switch_def Let_def split: if_splits)
  then show p: "position = Switch_APPS" using assms(2) by blast
  show "\<not> critical s'"
    using assms close_inactive admission_current
    by (auto simp: handle_switch_def Let_def p split: option.splits prod.splits if_splits)
qed

end

subsection \<open>The parts the daemon connects\<close>

record InputHost =
  ho_engine :: Engine
  ho_router :: Router

text \<open>
  The rest of the daemon: the apps that can be launched, the clock, launching, activating, the broker, the
  reconciliation of the engine, and what other goroutines do to the sessions and the menu during a call of
  the menu, which takes effect at the end of the call.
\<close>

record host_params =
  hp_env :: Env
  hp_uni :: unicode_tables
  hp_apps :: "InputHost \<Rightarrow> LauncherApp list"
  hp_clock :: "InputHost \<Rightarrow> gotime"
  hp_launch :: "LauncherApp \<Rightarrow> InputHost \<Rightarrow> bool \<times> InputHost"
  hp_activate :: "SessionInput \<Rightarrow> InputHost \<Rightarrow> (bool \<times> bool \<times> string \<times> string) \<times> InputHost"
  hp_broker :: "InstanceRef \<Rightarrow> string \<Rightarrow> SessionInput \<Rightarrow> gotime \<Rightarrow> InputHost \<Rightarrow> bool \<times> InputHost"
  hp_broker_wait :: "InstanceRef \<Rightarrow> string \<Rightarrow> SessionInput \<Rightarrow> gotime \<Rightarrow> InputHost \<Rightarrow> (SessionInputDisposition \<times> bool) \<times> InputHost"
  hp_reconcile :: "InputHost \<Rightarrow> bool \<times> InputHost"
  hp_others :: "InputHost \<Rightarrow> session_op list \<times> bool"

definition menu_identity :: Identity where
  "menu_identity = \<lparr>id_PluginID = ''bsbctl'', id_InstanceID = ''launcher'', id_Channel = ''apps'', id_Key = ''menu''\<rparr>"

definition menu_publish :: "host_params \<Rightarrow> Observation \<Rightarrow> InputHost \<Rightarrow> bool \<times> InputHost" where
  "menu_publish p v s =
     (case Publish (env_generation (hp_env p)) (hp_clock p s) \<lparr>src_PluginID = ''bsbctl'', src_Generation = 1\<rparr> v (en_store (ho_engine s)) of
        (err, store) \<Rightarrow> (err \<noteq> None, s\<lparr>ho_engine := (ho_engine s)\<lparr>en_store := store\<rparr>\<rparr>))"

definition menu_withdraw :: "InputHost \<Rightarrow> InputHost" where
  "menu_withdraw s = s\<lparr>ho_engine := (ho_engine s)\<lparr>en_store := snd (Withdraw menu_identity (en_store (ho_engine s)))\<rparr>\<rparr>"

definition router_do :: "host_params \<Rightarrow> router_event \<Rightarrow> InputHost \<Rightarrow> InputHost" where
  "router_do p ev s = s\<lparr>ho_router := (case router_step (hp_uni p) ev (ho_router s) of None \<Rightarrow> ho_router s | Some r \<Rightarrow> r)\<rparr>"

text \<open>One callback or critical section of a call of the menu; a call takes at most three after its first.\<close>

definition menu_step :: "host_params \<Rightarrow> nat \<Rightarrow> InputHost \<Rightarrow> InputHost" where
  "menu_step p i s =
     (case thread_at i (ho_router s) of
        RtPublishing v _ _ \<Rightarrow> (case menu_publish p v s of (failed, s1) \<Rightarrow> router_do p (RvPublish i failed) s1)
      | RtPublished _ _ _ _ \<Rightarrow> router_do p (RvCheck i (hp_clock p s)) s
      | RtWithdrawing _ \<Rightarrow> router_do p (RvWithdraw i) (menu_withdraw s)
      | RtLaunching app _ \<Rightarrow> (case hp_launch p app s of (failed, s1) \<Rightarrow> router_do p (RvLaunched i failed) s1)
      | RtReturned _ \<Rightarrow> s)"

definition menu_close :: "host_params \<Rightarrow> InputHost \<Rightarrow> InputHost" where
  "menu_close p s = menu_step p (length (rt_threads (ho_router s))) (router_do p RvClose s)"

definition others_act :: "host_params \<Rightarrow> InputHost \<Rightarrow> InputHost" where
  "others_act p s =
     (case hp_others p s of (ops, closes) \<Rightarrow>
        let s1 = s\<lparr>ho_engine := (ho_engine s)\<lparr>en_sessions := fold session_apply ops (en_sessions (ho_engine s))\<rparr>\<rparr>
        in if closes then menu_close p s1 else s1)"

definition menu_call :: "host_params \<Rightarrow> input_event \<Rightarrow> InputHost \<Rightarrow> bool \<times> InputHost" where
  "menu_call p ev s =
     (let i = length (rt_threads (ho_router s));
          s1 = (menu_step p i ^^ 3) (router_do p (RvHandle (hp_apps p s) (hp_clock p s) (Some ev)) s)
      in (thread_at i (ho_router s1) = RtReturned True, others_act p s1))"

definition host_foreground :: "InputHost \<Rightarrow> string \<times> string" where
  "host_foreground s = (case inputForegroundSnapshot (en_sessions (ho_engine s)) of (i, _, t) \<Rightarrow> (i, t))"

text \<open>The reconciler's \<open>ClearForegroundSessionContext\<close>: the sessions, and a wake-up of the engine.\<close>

definition host_clear :: "host_params \<Rightarrow> string \<Rightarrow> string \<Rightarrow> InputHost \<Rightarrow> InputHost" where
  "host_clear p i t s =
     (if i = '''' \<or> t = '''' then s
      else case runtime_ClearForeground (env_endFailed (hp_env p)) (hp_clock p s) i t (en_sessions (ho_engine s)) of
        ((changed, es), c) \<Rightarrow>
          let e = (ho_engine s)\<lparr>en_sessions := c, en_effects := en_effects (ho_engine s) @ es\<rparr>
          in s\<lparr>ho_engine := (if changed then Wake e else e)\<rparr>)"

text \<open>Input goes to the broker only while its target is still the foreground.\<close>

definition to_foreground :: "(InstanceRef \<Rightarrow> InputHost \<Rightarrow> 'r \<times> InputHost) \<Rightarrow> 'r \<Rightarrow> string \<Rightarrow> string \<Rightarrow> InputHost \<Rightarrow> 'r \<times> InputHost" where
  "to_foreground f refused i t s =
     (case inputForegroundSnapshot (en_sessions (ho_engine s)) of (fi, g, ft) \<Rightarrow>
        if fi \<noteq> i \<or> ft \<noteq> t then (refused, s) else f \<lparr>ref_ID = fi, ref_Generation = g\<rparr> s)"

definition daemon_host :: "host_params \<Rightarrow> (InputHost, BackPresentation) input_host" where
  "daemon_host p = \<lparr>
     ih_Active = (\<lambda>s. rt_active (ho_router s)),
     ih_launcher_Handle = menu_call p,
     ih_launcher_Close = menu_close p,
     ih_ForegroundSession = host_foreground,
     ih_ClearForegroundSessionContext = host_clear p,
     ih_BeginLauncherAdmission = (\<lambda>s. beginLauncherAdmission (en_sessions (ho_engine s))),
     ih_LauncherAdmissionCurrent = (\<lambda>a s. launcherAdmissionCurrent a (en_sessions (ho_engine s))),
     ih_ActivateSelected = hp_activate p,
     ih_publish = (\<lambda>i t payload at. to_foreground (\<lambda>ref. hp_broker p ref t payload at) True i t),
     ih_back_Publish = (\<lambda>i t payload at. to_foreground (\<lambda>ref. hp_broker_wait p ref t payload at) (OtherInputDisposition '''', True) i t),
     ih_back_Begin = (\<lambda>s. case CaptureBackPresentation (ho_engine s) of (claim, e) \<Rightarrow> (claim, s\<lparr>ho_engine := e\<rparr>)),
     ih_Consumed = (\<lambda>claim s. case ReconcileConsumedBack claim (ho_engine s) of
         (owned, e) \<Rightarrow> if owned then hp_reconcile p (s\<lparr>ho_engine := e\<rparr>) else (False, s\<lparr>ho_engine := e\<rparr>)),
     ih_Fallback = (\<lambda>claim reason s. case DismissForBack (hp_env p) (hp_clock p s) claim reason (ho_engine s) of
         (err, e) \<Rightarrow> (err \<noteq> None, s\<lparr>ho_engine := e\<rparr>)),
     ih_invalidate = (\<lambda>s. s\<lparr>ho_engine := InvalidateRenderedSelection (ho_engine s)\<rparr>),
     ih_reconcile = hp_reconcile p,
     ih_now = hp_clock p\<rparr>"

subsection \<open>The laws hold for them\<close>

lemma menu_close_inactive: "\<not> rt_active (ho_router (menu_close p s))"
  by (auto simp: menu_close_def menu_step_def router_do_def menu_withdraw_def menu_publish_def router_ops thread_at_def
      split: router_thread.splits)

lemma menu_close_sessions [simp]: "en_sessions (ho_engine (menu_close p s)) = en_sessions (ho_engine s)"
  by (auto simp: menu_close_def menu_step_def router_do_def menu_withdraw_def menu_publish_def router_ops thread_at_def
      split: router_thread.splits)

text \<open>A call that is closing the menu, or has.\<close>

definition call_closing :: "nat \<Rightarrow> InputHost \<Rightarrow> bool" where
  "call_closing i s \<longleftrightarrow> \<not> rt_active (ho_router s) \<and> (\<exists>err. thread_at i (ho_router s) = RtWithdrawing err \<or> thread_at i (ho_router s) = RtReturned err)"

lemma menu_step_closing: "call_closing i s \<Longrightarrow> call_closing i (menu_step p i s)"
  by (auto simp: call_closing_def menu_step_def router_do_def menu_withdraw_def set_thread_def thread_at_def split: if_splits)

lemma switch_away_closing:
  "position \<noteq> Switch_APPS \<Longrightarrow>
     call_closing (length (rt_threads (ho_router s))) (router_do p (RvHandle apps clock (Some (SwitchEvent position))) s)"
  by (auto simp: call_closing_def router_do_def router_Handle_def router_close_def closed_router_def thread_at_def Let_def)

lemma others_act_inactive: "\<not> rt_active (ho_router s) \<Longrightarrow> \<not> rt_active (ho_router (others_act p s))"
  by (auto simp: others_act_def Let_def menu_close_inactive split: prod.splits)

lemma menu_switch_away:
  assumes "position \<noteq> Switch_APPS"
  shows "\<not> rt_active (ho_router (snd (menu_call p (SwitchEvent position) s)))"
proof -
  let ?i = "length (rt_threads (ho_router s))"
  have "call_closing ?i ((menu_step p ?i ^^ n) (router_do p (RvHandle apps clock (Some (SwitchEvent position))) s))" for n apps clock
    by (induction n) (simp_all add: switch_away_closing assms menu_step_closing)
  then show ?thesis by (simp add: menu_call_def Let_def call_closing_def others_act_inactive)
qed

lemma endSession_snapshot: "inputForegroundSnapshot (snd (endSession failed clock t c)) = inputForegroundSnapshot c"
  by (auto simp: endSession_def Let_def recordLifecycleFallback_def inputForegroundSnapshot_def)

lemma session_clear_snapshot: "i \<noteq> '''' \<Longrightarrow> inputForegroundSnapshot (snd (session_clear i t c)) \<noteq> (i, g, t)"
  by (auto simp: session_clear_def Let_def clearForegroundLocked_def clearPendingLocked_def no_session_def
      inputForegroundSnapshot_def split: if_splits)

lemma cleared_foreground:
  assumes "i \<noteq> ''''"
  shows "inputForegroundSnapshot (snd (runtime_ClearForeground failed clock i t c)) \<noteq> (i, g, t)"
proof -
  obtain r c1 where c1: "session_clear i t c = (r, c1)" by fastforce
  have "inputForegroundSnapshot (snd (runtime_ClearForeground failed clock i t c)) = inputForegroundSnapshot c1"
    using endSession_snapshot [of failed clock _ c1]
    by (auto simp: runtime_ClearForeground_def c1 split_beta split: option.splits)
  then show ?thesis using session_clear_snapshot [OF assms, of t c g] by (simp add: c1)
qed

lemma engine_frame_sessions [simp]:
  "en_sessions (Wake e) = en_sessions e" "en_sessions (signalLocalChange e) = en_sessions e"
  "en_cooldownUntil (Wake e) = en_cooldownUntil e"
  by (simp_all add: Wake_def signalLocalChange_def)

lemma host_clear_frame [simp]:
  "ho_router (host_clear p i t s) = ho_router s"
  "en_cooldownUntil (ho_engine (host_clear p i t s)) = en_cooldownUntil (ho_engine s)"
  by (auto simp: host_clear_def Let_def split: prod.splits)

lemma host_clear_gone:
  assumes "names_session (i, t)"
  shows "host_foreground (host_clear p i t s) \<noteq> (i, t)"
proof -
  let ?r = "runtime_ClearForeground (env_endFailed (hp_env p)) (hp_clock p s) i t (en_sessions (ho_engine s))"
  have "en_sessions (ho_engine (host_clear p i t s)) = snd ?r"
    using assms by (auto simp: host_clear_def names_session_def Let_def split: prod.splits)
  then show ?thesis
    using cleared_foreground [of i "env_endFailed (hp_env p)" "hp_clock p s" t "en_sessions (ho_engine s)"] assms
    by (auto simp: host_foreground_def names_session_def split: prod.splits)
qed

interpretation daemon_input: input_laws "daemon_host p" "\<lambda>s. criticalOwned (en_sessions (ho_engine s))"
  by unfold_locales (simp_all add: daemon_host_def menu_close_inactive host_foreground_def host_clear_gone [unfolded host_foreground_def]
    launcherAdmissionCurrent_def criticalOwned_def menu_switch_away)

subsection \<open>Properties\<close>

lemma menu_close_cooldown [simp]: "en_cooldownUntil (ho_engine (menu_close p s)) = en_cooldownUntil (ho_engine s)"
  by (auto simp: menu_close_def menu_step_def router_do_def menu_withdraw_def menu_publish_def router_ops thread_at_def
      split: router_thread.splits)

lemma fallback_cools:
  assumes "back_fallback (daemon_host p) claim reason q active s = (err, s')"
  shows "en_cooldownUntil (ho_engine s') = en_cooldownUntil (snd (DismissForBack (hp_env p) (hp_clock p s) claim reason (ho_engine s)))"
  using assms by (auto simp: back_fallback_def daemon_host_def Let_def split: prod.splits)

definition back_press :: SessionInput where
  "back_press = \<lparr>in_Button = Some \<lparr>bi_Button = ButtonBack, bi_Action = ButtonPress\<rparr>, in_Encoder = None\<rparr>"

text \<open>(C33) Back always leads out: after a press of Back, if the foreground session consumed it, the engine
  reconciles the presentation that was captured with the press; otherwise the cooldown has started and lasts until 30
  seconds after a reading of the host's clock made while the press was handled, the
  session that was in the foreground is not there any more and the menu that was open is closed. This
  holds whatever the session, the broker and the renderer answer, and also when there is no session.\<close>

theorem back_leads_out:
  assumes "coordinator_Handle (daemon_host p) (Some (ButtonEvent Button_BACK Action_PRESS)) s = (err, s')"
  shows "if names_session (host_foreground s) \<and> back_answer (fst (back_reply (daemon_host p) back_press s)) = None
    then ih_Consumed (daemon_host p) (en_claim (ho_engine s)) (snd (back_reply (daemon_host p) back_press s)) = (err, s')
    else (names_session (host_foreground s) \<longrightarrow> host_foreground s' \<noteq> host_foreground s) \<and>
      (rt_active (ho_router s) \<longrightarrow> \<not> rt_active (ho_router s')) \<and>
      (\<exists>s2. en_cooldownUntil (ho_engine s') = time_add (time_utc (hp_clock p s2)) (30 * second))"
proof -
  let ?h = "daemon_host p"
  have h: "ih_ForegroundSession ?h s = host_foreground s" "ih_Active ?h s = rt_active (ho_router s)" for s
    by (simp_all add: daemon_host_def)
  have claim: "fst (ih_back_Begin ?h s) = en_claim (ho_engine s)"
    by (simp add: daemon_host_def CaptureBackPresentation_def Let_def)
  have "handleBack ?h (ButtonEvent Button_BACK Action_PRESS) s = (err, s')"
    using assms by (simp add: coordinator_Handle_def isBackPress_def)
  note cases = daemon_input.back_cases [OF this, of back_press, unfolded claim h]
  show ?thesis
  proof (cases "names_session (host_foreground s) \<and> back_answer (fst (back_reply ?h back_press s)) = None")
    case True
    then show ?thesis using cases by (simp add: back_press_def)
  next
    case False
    then obtain reason s2 where l: "back_fallback ?h (en_claim (ho_engine s)) reason (host_foreground s) (rt_active (ho_router s)) s2 = (err, s')"
      using cases by (auto simp: back_press_def split: if_splits)
    have "en_cooldownUntil (ho_engine s') = time_add (time_utc (hp_clock p s2)) (30 * second)"
      using fallback_cools [OF l] DismissForBack_cooldown by (simp add: defaultPresentationCooldown_def)
    then show ?thesis using daemon_input.fallback_leaves [OF l] False by (auto simp: h)
  qed
qed

text \<open>The menu and a critical presentation exclude each other: when the coordinator has handled a switch
  event and the menu is open, then the switch is in the APPS position and no critical presentation owns
  the display, even if one took it while the menu was being opened.\<close>

theorem menu_excludes_critical:
  assumes "coordinator_handle (daemon_host p) (SwitchEvent position) s = (err, s')" "rt_active (ho_router s')"
  shows "position = Switch_APPS \<and> \<not> criticalOwned (en_sessions (ho_engine s'))"
proof -
  have "handle_switch (daemon_host p) position s = (err, s')" "ih_Active (daemon_host p) s'"
    using assms by (simp_all add: coordinator_handle_def) (simp add: daemon_host_def)
  from daemon_input.switch_menu [OF this] show ?thesis by blast
qed

subsection \<open>Witnesses\<close>

definition demo_params :: host_params where
  "demo_params = \<lparr>hp_env = demo_env, hp_uni = demo_tables, hp_apps = (\<lambda>_. demo_apps), hp_clock = (\<lambda>_. demo_time),
     hp_launch = (\<lambda>_ s. (False, s)), hp_activate = (\<lambda>_ s. ((False, False, '''', ''''), s)), hp_broker = (\<lambda>_ _ _ _ s. (False, s)),
     hp_broker_wait = (\<lambda>_ _ _ _ s. ((SessionInputNotConsumed, False), s)), hp_reconcile = (\<lambda>s. (False, s)), hp_others = (\<lambda>_. ([], False))\<rparr>"

text \<open>A session is in the foreground; it does not consume Back.\<close>

definition demo_host :: InputHost where
  "demo_host = \<lparr>ho_engine = newEngine NewStore demo_interactive, ho_router = NewRouter\<rparr>"

lemma demo_host_foreground: "host_foreground demo_host = (''desk'', ''interactive-1'')"
  by (simp add: host_foreground_def demo_host_def newEngine_def inputForegroundSnapshot_def demo_interactive_eq NewSessionCoordinator_def
      demo_admission_def session_of_def demo_ref_def)

theorem back_leads_out_witness:
  "host_foreground (snd (coordinator_Handle (daemon_host demo_params) (Some (ButtonEvent Button_BACK Action_PRESS)) demo_host))
     \<noteq> (''desk'', ''interactive-1'') \<and>
   instant (en_cooldownUntil (ho_engine (snd (coordinator_Handle (daemon_host demo_params)
     (Some (ButtonEvent Button_BACK Action_PRESS)) demo_host)))) = instant demo_time + 30000000000"
proof -
  let ?r = "coordinator_Handle (daemon_host demo_params) (Some (ButtonEvent Button_BACK Action_PRESS)) demo_host"
  have "fst (back_reply (daemon_host demo_params) back_press demo_host) = (SessionInputNotConsumed, False)"
    using demo_host_foreground
    by (auto simp: back_reply_def daemon_host_def to_foreground_def host_foreground_def CaptureBackPresentation_def Let_def demo_params_def
        split: prod.splits)
  then have "back_answer (fst (back_reply (daemon_host demo_params) back_press demo_host)) \<noteq> None"
    by (simp add: back_answer_def)
  moreover have "names_session (host_foreground demo_host)" "hp_clock demo_params s = demo_time" for s
    by (simp_all add: demo_host_foreground names_session_def demo_params_def)
  ultimately have "host_foreground (snd ?r) \<noteq> host_foreground demo_host \<and>
      en_cooldownUntil (ho_engine (snd ?r)) = time_add (time_utc demo_time) (30 * second)"
    using back_leads_out [of demo_params demo_host "fst ?r" "snd ?r"] by auto
  then show ?thesis by (simp add: demo_host_foreground go_time second_def)
qed

text \<open>The menu is opened on an idle daemon.\<close>

definition demo_idle :: InputHost where
  "demo_idle = \<lparr>ho_engine = newEngine NewStore NewSessionCoordinator, ho_router = NewRouter\<rparr>"

definition demo_shown :: Router where
  "demo_shown = NewRouter\<lparr>rt_active := True, rt_apps := demo_apps, rt_created := time_utc demo_time, rt_revision := 1\<rparr>"

lemma demo_shown_valid: "observation_Validate (observationLocked demo_tables demo_time demo_shown) demo_time = []"
proof (rule observationLocked_valid)
  show "\<forall>app\<in>set (rt_apps demo_shown). line_ok (launcher_label demo_tables app)"
    by (auto simp: demo_shown_def demo_apps_def line_ok_def launcher_label_def Let_def TrimSpace_def ToUpper_def is_ascii_def
        ascii_space_def ascii_upper_def intro!: ascii_ValidString)
qed (simp_all add: selection_ok_def demo_shown_def NewRouter_def demo_apps_def demo_time_def go_time hour_def)

lemma demo_menu_published:
  assumes "observation_Validate v demo_time = []" "obs_Disposition v = DispositionSnapshot" "ho_engine s = ho_engine demo_idle"
  shows "\<exists>s'. menu_publish demo_params v s = (False, s') \<and> ho_router s' = ho_router s \<and>
    en_sessions (ho_engine s') = NewSessionCoordinator"
  using assms
  by (simp add: menu_publish_def Publish_def Let_def source_stale_def demo_params_def demo_env_def demo_idle_def newEngine_def NewStore_def
      prune_counted_def pruneLocked_def atCapacityLocked_def scope_count_def globalCapacity_def pluginCapacity_def
      pluginInstanceCapacity_def pluginInstanceChannelCapacity_def split_beta)

definition demo_opened :: InputHost where
  "demo_opened = snd (coordinator_handle (daemon_host demo_params) (SwitchEvent Switch_APPS) demo_idle)"

lemma demo_apps_clock: "hp_apps demo_params s = demo_apps" "hp_clock demo_params s = demo_time" "hp_others demo_params s = ([], False)"
  "rt_threads (ho_router demo_idle) = []"
  by (simp_all add: demo_params_def demo_idle_def NewRouter_def)

lemma demo_opened_active: "rt_active (ho_router demo_opened)"
proof -
  let ?v = "observationLocked demo_tables demo_time demo_shown"
  define s where "s = router_do demo_params (RvHandle demo_apps demo_time (Some (SwitchEvent Switch_APPS))) demo_idle"
  have r: "ho_router s = demo_shown\<lparr>rt_threads := [RtPublishing ?v 1 False]\<rparr>" "ho_engine s = ho_engine demo_idle"
    by (simp_all add: s_def router_do_def router_Handle_def showLocked_def Let_def demo_idle_def demo_params_def demo_shown_def NewRouter_def)
  have "obs_Disposition ?v = DispositionSnapshot" by (simp add: observationLocked_def Let_def)
  from demo_menu_published [OF demo_shown_valid this r(2)] obtain s' where
    p: "menu_publish demo_params ?v s = (False, s')" "ho_router s' = ho_router s" "en_sessions (ho_engine s') = NewSessionCoordinator" by blast
  have "(menu_step demo_params 0 ^^ 3) s =
      s'\<lparr>ho_router := demo_shown\<lparr>rt_menu := Some ?v, rt_threads := [RtReturned False]\<rparr>\<rparr>"
    by (simp add: numeral_3_eq_3 menu_step_def thread_at_def r p router_do_def set_thread_def publish_check_def)
      (simp add: demo_shown_def)
  then have "snd (menu_call demo_params (SwitchEvent Switch_APPS) demo_idle) =
      s'\<lparr>ho_router := demo_shown\<lparr>rt_menu := Some ?v, rt_threads := [RtReturned False]\<rparr>\<rparr>"
    by (simp add: menu_call_def Let_def others_act_def s_def demo_apps_clock)
  moreover have "host_foreground demo_idle = ('''', '''')" "beginLauncherAdmission (en_sessions (ho_engine demo_idle)) = Some 0"
    "launcherAdmissionCurrent 0 NewSessionCoordinator"
    by (simp_all add: host_foreground_def inputForegroundSnapshot_def demo_idle_def newEngine_def beginLauncherAdmission_def
        launcherAdmissionCurrent_def NewSessionCoordinator_def no_session_def)
  ultimately show ?thesis
    by (simp add: demo_opened_def coordinator_handle_def handle_switch_def Let_def daemon_host_def clearForeground_def names_session_def p
        split_beta) (simp add: demo_shown_def)
qed

theorem menu_excludes_critical_witness: "\<not> criticalOwned (en_sessions (ho_engine demo_opened))"
proof -
  have "coordinator_handle (daemon_host demo_params) (SwitchEvent Switch_APPS) demo_idle =
      (fst (coordinator_handle (daemon_host demo_params) (SwitchEvent Switch_APPS) demo_idle), demo_opened)"
    by (simp add: demo_opened_def)
  from menu_excludes_critical [OF this demo_opened_active] show ?thesis by simp
qed

end
