(* ===== verification/ConfigStore.thy ===== *)
theory ConfigStore
  imports Configuration LocalState
begin

text \<open>
  \<open>internal/config/store.go\<close>: the validation of a configuration document, and the store that replaces it
  under an optimistic generation check. The store lives on a disk of the theory \<open>LocalState\<close>; the decoding and
  encoding of JSON, the hash function, URLs, key chain references, JSON schemas and the path rules of the
  device library are the parameters \<open>externals\<close>. The declared assets of a plugin are checked as in
  \<open>internal/assets/reconciler.go\<close>. An error is named by what it says, without its text.
\<close>

subsection \<open>Parameters\<close>

record externals =
  ex_sha256 :: "string \<Rightarrow> string" \<comment> \<open>the digest, as bytes\<close>
  ex_base_url_ok :: "string \<Rightarrow> bool"
  ex_secret_ok :: "string \<Rightarrow> bool"
  ex_physical_ok :: "string \<Rightarrow> bool"
  ex_schema :: "string \<Rightarrow> SchemaDeclaration \<Rightarrow> (string \<Rightarrow> bool) option"
  ex_json_object :: "string \<Rightarrow> bool"
  ex_decode :: "string \<Rightarrow> Document option"
  ex_decode_envelope :: "string \<Rightarrow> (int \<times> u64 \<times> Device) option"
  ex_encode :: "Document \<Rightarrow> string option"

definition CurrentVersion :: int where "CurrentVersion = 1"
definition maxConfigBytes :: nat where "maxConfigBytes = 1048576"
definition MaxPlugins :: nat where "MaxPlugins = 64"
definition MaxApps :: nat where "MaxApps = 256"
definition MaxJSONObjectBytes :: nat where "MaxJSONObjectBytes = 65536"
definition protocol_Version :: string where "protocol_Version = ''1.0''"

definition slice_list :: "'a slice \<Rightarrow> 'a list" where
  "slice_list s = (case s of None \<Rightarrow> [] | Some xs \<Rightarrow> xs)"

datatype config_error =
    BadVersion | ZeroGeneration | BadBaseURL | BadDeviceSecret | TooManyPlugins | TooManyApps | PrefixCollision
  | PluginKey string | PluginID string identifier_error | PluginVersion string | PluginProtocol string | PluginExecutable string
  | PluginDigest string | PluginModes string | PluginChannels string | PluginOperation string | PluginDuplicateOperation string
  | PluginAssets string | PluginSchema string
  | AppKey string | AppID string identifier_error | AppGenerationZero string | AppGenerationFuture string | AppPlugin string
  | AppLaunchAction string | AppConfig string | AppSchema string | AppSecret string string | AppChannel string string
  | AppPolicy string string | AppPolicyBounds string string | AppActivationInput string string | AppActivationAction string string
  | AppRotationInterval string string | AppRotationJitter string string | AppRotationUnused string string

definition fault :: "bool \<Rightarrow> config_error \<Rightarrow> config_error list" where
  "fault bad e = (if bad then [e] else [])"

subsection \<open>Assets of a plugin\<close>

definition MaxAssets :: nat where "MaxAssets = 128"
definition MaxAssetBytes :: int where "MaxAssetBytes = 64 * 2 ^ 20"
definition MaxPackageAssetBytes :: int where "MaxPackageAssetBytes = 256 * 2 ^ 20"
definition physicalContentHashLength :: nat where "physicalContentHashLength = 14"

definition isLowerHex :: "string \<Rightarrow> bool" where
  "isLowerHex v \<longleftrightarrow> list_all (\<lambda>c. c \<in> set ''0123456789abcdef'') v"

text \<open>\<open>hex.DecodeString\<close> and \<open>base64.RawURLEncoding\<close>.\<close>

definition hex_value :: "char \<Rightarrow> nat option" where
  "hex_value c = (let n = of_char c in
     if 48 \<le> n \<and> n \<le> 57 then Some (n - 48) else if 97 \<le> n \<and> n \<le> 102 then Some (n - 87)
     else if 65 \<le> n \<and> n \<le> 70 then Some (n - 55) else None)"

fun hex_DecodeString :: "string \<Rightarrow> nat list option" where
  "hex_DecodeString [] = Some []"
| "hex_DecodeString [c] = None"
| "hex_DecodeString (a # b # cs) =
     (case (hex_value a, hex_value b, hex_DecodeString cs) of
        (Some x, Some y, Some bs) \<Rightarrow> Some ((16 * x + y) # bs)
      | _ \<Rightarrow> None)"

definition base64_char :: "nat \<Rightarrow> char" where
  "base64_char n = ''ABCDEFGHIJKLMNOPQRSTUVWXYZabcdefghijklmnopqrstuvwxyz0123456789-_'' ! (n mod 64)"

fun base64_EncodeToString :: "nat list \<Rightarrow> string" where
  "base64_EncodeToString [] = []"
| "base64_EncodeToString [a] = [base64_char (a div 4), base64_char (a mod 4 * 16)]"
| "base64_EncodeToString [a, b] = [base64_char (a div 4), base64_char (a mod 4 * 16 + b div 16), base64_char (b mod 16 * 4)]"
| "base64_EncodeToString (a # b # c # bs) =
     base64_char (a div 4) # base64_char (a mod 4 * 16 + b div 16) # base64_char (b mod 16 * 4 + c div 64) # base64_char (c mod 64)
       # base64_EncodeToString bs"

definition pluginPathPrefix :: "externals \<Rightarrow> string \<Rightarrow> string" where
  "pluginPathPrefix ex pid = take 10 (base64_EncodeToString (map of_char (ex_sha256 ex pid)))"

definition asset_extension :: "string \<Rightarrow> string option" where
  "asset_extension media =
     (if media = ''image/png'' then Some ''.png'' else if media = ''application/x-busy-animation'' then Some ''.anim'' else None)"

definition derivedDevicePath :: "externals \<Rightarrow> string \<Rightarrow> AssetDeclaration \<Rightarrow> string option" where
  "derivedDevicePath ex pid a =
     (case (asset_extension (asset_MediaType a), hex_DecodeString (asset_SHA256 a)) of
        (Some ext, Some digest) \<Rightarrow>
          if length digest \<noteq> 32 then None
          else Some (''p'' @ pluginPathPrefix ex pid @ ''_'' @ take physicalContentHashLength (base64_EncodeToString digest) @ ext)
      | _ \<Rightarrow> None)"

text \<open>The loop over the assets, with the sources and device paths seen so far and the running number of bytes.\<close>

fun validate_assets :: "externals \<Rightarrow> string \<Rightarrow> string list \<Rightarrow> string list \<Rightarrow> int \<Rightarrow> AssetDeclaration list \<Rightarrow> bool" where
  "validate_assets ex pid sources paths bytes [] = True"
| "validate_assets ex pid sources paths bytes (a # as) =
     (if ValidatePackagePath (asset_Source a) \<noteq> [] \<or> asset_Source a \<in> set sources then False
      else case derivedDevicePath ex pid a of
        None \<Rightarrow> False
      | Some devicePath \<Rightarrow>
          if \<not> ex_physical_ok ex devicePath \<or> devicePath \<in> set paths then False
          else if length (asset_SHA256 a) \<noteq> 64 \<or> \<not> isLowerHex (asset_SHA256 a) then False
          else if asset_Size a < 1 \<or> asset_Size a > MaxAssetBytes then False
          else if int64 (bytes + asset_Size a) > MaxPackageAssetBytes then False
          else validate_assets ex pid (asset_Source a # sources) (devicePath # paths) (int64 (bytes + asset_Size a)) as)"

definition filepath_IsAbs :: "string \<Rightarrow> bool" where
  "filepath_IsAbs v \<longleftrightarrow> take 1 v = ''/''"

text \<open>\<open>filepath.Dir\<close>: everything up to the last separator, cleaned.\<close>

definition filepath_Dir :: "string \<Rightarrow> string" where
  "filepath_Dir v = path_Clean (rev (dropWhile (\<lambda>c. c \<noteq> CHR ''/'') (rev v)))"

definition ValidatePackage :: "externals \<Rightarrow> string \<Rightarrow> string \<Rightarrow> string \<Rightarrow> AssetDeclaration list \<Rightarrow> bool" where
  "ValidatePackage ex pid version root as \<longleftrightarrow>
     \<not> blank_string pid \<and> \<not> blank_string version \<and>
     (as = [] \<or> filepath_IsAbs root \<and> length as \<le> MaxAssets \<and> validate_assets ex pid [] [] 0 as)"

definition validatePluginHashCollisions :: "externals \<Rightarrow> string list \<Rightarrow> bool" where
  "validatePluginHashCollisions ex ids \<longleftrightarrow> 
     list_all (\<lambda>a. list_all (\<lambda>b. pluginPathPrefix ex a = pluginPathPrefix ex b \<longrightarrow> a = b) ids) ids"

subsection \<open>Validation of a document\<close>

definition validateConfigEnvelope :: "externals \<Rightarrow> int \<Rightarrow> u64 \<Rightarrow> Device \<Rightarrow> config_error list" where
  "validateConfigEnvelope ex version generation device =
     fault (version \<noteq> CurrentVersion) BadVersion
     @ fault (generation = 0) ZeroGeneration
     @ (if dev_BaseURL device \<noteq> '''' \<and> \<not> ex_base_url_ok ex (dev_BaseURL device) then [BadBaseURL]
        else fault (dev_AccessTokenSecret device \<noteq> '''' \<and> \<not> ex_secret_ok ex (dev_AccessTokenSecret device)) BadDeviceSecret)"

text \<open>The first bad or repeated channel ends the check.\<close>

fun validateChannels :: "string list \<Rightarrow> string list \<Rightarrow> bool" where
  "validateChannels seen [] = True"
| "validateChannels seen (c # cs) = (Identifier.Validate c = None \<and> c \<notin> set seen \<and> validateChannels (c # seen) cs)"

definition ValidateExecutionModes :: "ExecutionMode list \<Rightarrow> bool" where
  "ValidateExecutionModes modes \<longleftrightarrow>
     modes \<noteq> [] \<and> distinct modes \<and> set modes \<subseteq> {ExecutionModeResident, ExecutionModeInteractive}"

definition descriptor_ok :: "OperationDescriptor \<Rightarrow> bool" where
  "descriptor_ok op \<longleftrightarrow> validateIdentifier (op_ID op) = None \<and> (op_Kind op = OperationQuery \<or> op_Kind op = OperationCommand)"

fun operation_errors :: "string \<Rightarrow> string list \<Rightarrow> OperationDescriptor list \<Rightarrow> config_error list" where
  "operation_errors key seen [] = []"
| "operation_errors key seen (op # ops) =
     fault (\<not> descriptor_ok op) (PluginOperation key) @ fault (op_ID op \<in> set seen) (PluginDuplicateOperation key)
     @ operation_errors key (op_ID op # seen) ops"

definition identity_errors :: "(identifier_error \<Rightarrow> config_error) \<Rightarrow> string \<Rightarrow> config_error list" where
  "identity_errors f v = (case Identifier.Validate v of None \<Rightarrow> [] | Some e \<Rightarrow> [f e])"

definition package_root :: "Plugin \<Rightarrow> string" where
  "package_root p = (if pl_PackageRoot p = '''' then filepath_Dir (pl_Executable p) else pl_PackageRoot p)"

definition plugin_schema :: "externals \<Rightarrow> Plugin \<Rightarrow> (string \<Rightarrow> bool) option" where
  "plugin_schema ex p = (case pl_ConfigSchema p of None \<Rightarrow> None | Some decl \<Rightarrow> ex_schema ex (package_root p) decl)"

definition plugin_errors :: "externals \<Rightarrow> string \<times> Plugin \<Rightarrow> config_error list" where
  "plugin_errors ex kp =
     (case kp of (key, p) \<Rightarrow>
        fault (key \<noteq> pl_ID p) (PluginKey key)
        @ identity_errors (PluginID key) (pl_ID p)
        @ fault (blank_string (pl_Version p)) (PluginVersion key)
        @ fault (pl_ProtocolVersion p \<noteq> protocol_Version) (PluginProtocol key)
        @ fault (\<not> filepath_IsAbs (pl_Executable p)) (PluginExecutable key)
        @ fault (pl_SHA256 p \<noteq> '''' \<and> (length (pl_SHA256 p) \<noteq> 64 \<or> \<not> isLowerHex (pl_SHA256 p))) (PluginDigest key)
        @ fault (\<not> ValidateExecutionModes (slice_list (pl_ExecutionModes p))) (PluginModes key)
        @ fault (\<not> validateChannels [] (slice_list (pl_Channels p))) (PluginChannels key)
        @ operation_errors key [] (slice_list (pl_Operations p))
        @ fault (\<not> ValidatePackage ex (pl_ID p) (pl_Version p) (package_root p) (slice_list (pl_Assets p))) (PluginAssets key)
        @ fault (pl_ConfigSchema p \<noteq> None \<and> plugin_schema ex p = None) (PluginSchema key))"

text \<open>The schemas that were loaded, by plugin identifier; a later plugin with the same identifier wins.\<close>

definition configuration_schema :: "externals \<Rightarrow> Document \<Rightarrow> string \<Rightarrow> (string \<Rightarrow> bool) option" where
  "configuration_schema ex d pid =
     fold (\<lambda>(_, p) acc. if pl_ID p = pid \<and> plugin_schema ex p \<noteq> None then plugin_schema ex p else acc) (doc_Plugins d) None"

definition ValidateJSONObject :: "externals \<Rightarrow> string \<Rightarrow> bool" where
  "ValidateJSONObject ex raw \<longleftrightarrow> raw \<noteq> '''' \<and> length raw \<le> MaxJSONObjectBytes \<and> ex_json_object ex raw"

fun supportedPolicy :: "Policy \<Rightarrow> bool" where
  "supportedPolicy (OtherPolicy _) = False"
| "supportedPolicy _ = True"

definition policy_errors :: "string \<Rightarrow> string list \<Rightarrow> string \<times> PolicyConfig \<Rightarrow> config_error list" where
  "policy_errors key channels cp =
     (case cp of (c, p) \<Rightarrow>
        if c \<notin> set channels then [AppChannel key c]
        else fault (\<not> supportedPolicy (pc_Policy p)) (AppPolicy key c)
          @ fault (pc_DevicePriority p < 0 \<or> pc_DevicePriority p > 100 \<or> pc_HoldMS p < 0 \<or> pc_CooldownMS p < 0) (AppPolicyBounds key c)
          @ fault (pc_ActivationInput p \<noteq> '''' \<and>
              (pc_ActivationInput p \<noteq> ''start'' \<and> pc_ActivationInput p \<noteq> ''start_or_encoder'' \<or> pc_ActivationAction p = ''''))
              (AppActivationInput key c)
          @ fault (pc_ActivationAction p \<noteq> '''' \<and> Identifier.Validate (pc_ActivationAction p) \<noteq> None) (AppActivationAction key c)
          @ (if pc_Policy p = PolicyRotation
             then fault (pc_RotationIntervalMS p < 10000 \<or> pc_RotationIntervalMS p > 86400000) (AppRotationInterval key c)
               @ fault (pc_RotationJitterPercent p < 0 \<or> pc_RotationJitterPercent p > 50) (AppRotationJitter key c)
             else fault (pc_RotationIntervalMS p \<noteq> 0 \<or> pc_RotationJitterPercent p \<noteq> 0) (AppRotationUnused key c)))"

definition app_errors :: "externals \<Rightarrow> Document \<Rightarrow> string \<times> App \<Rightarrow> config_error list" where
  "app_errors ex d ka =
     (case ka of (key, a) \<Rightarrow>
        fault (key \<noteq> app_ID a) (AppKey key)
        @ identity_errors (AppID key) (app_ID a)
        @ (if app_Generation a = 0 then [AppGenerationZero key]
           else fault (app_Generation a > doc_Generation d) (AppGenerationFuture key))
        @ (case map_of (doc_Plugins d) (app_PluginID a) of
             None \<Rightarrow> [AppPlugin key]
           | Some p \<Rightarrow>
               fault (list_ex (\<lambda>c. c \<in> {CHR 0x0D, CHR 0x0A, CHR 0x00}) (app_LaunchAction a)) (AppLaunchAction key)
               @ fault (\<not> ValidateJSONObject ex (slice_list (app_Config a))) (AppConfig key)
               @ (case configuration_schema ex d (app_PluginID a) of
                    None \<Rightarrow> [] | Some schema \<Rightarrow> fault (\<not> schema (slice_list (app_Config a))) (AppSchema key))
               @ concat (map (\<lambda>(name, reference). fault (blank_string name \<or> \<not> ex_secret_ok ex reference) (AppSecret key name))
                    (slice_list (app_Secrets a)))
               @ concat (map (policy_errors key (slice_list (pl_Channels p))) (slice_list (app_Policies a)))))"

definition document_Validate :: "externals \<Rightarrow> Document \<Rightarrow> config_error list" where
  "document_Validate ex d =
     validateConfigEnvelope ex (doc_Version d) (doc_Generation d) (doc_Device d)
     @ fault (length (doc_Plugins d) > MaxPlugins) TooManyPlugins
     @ fault (length (doc_Apps d) > MaxApps) TooManyApps
     @ fault (\<not> validatePluginHashCollisions ex (map fst (doc_Plugins d))) PrefixCollision
     @ concat (map (plugin_errors ex) (doc_Plugins d))
     @ concat (map (app_errors ex d) (doc_Apps d))"

subsection \<open>The store\<close>

datatype load_error = LoadNotExist | LoadUnreadable | LoadTooLarge | LoadUndecodable | LoadInvalid "config_error list"

text \<open>\<open>readable\<close> is whether an existing file can be opened and read.\<close>

definition config_load :: "externals \<Rightarrow> bool \<Rightarrow> string \<Rightarrow> Disk \<Rightarrow> load_error + Document" where
  "config_load ex readable path disk =
     (case read_file path disk of
        None \<Rightarrow> Inl LoadNotExist
      | Some bytes \<Rightarrow>
          if \<not> readable then Inl LoadUnreadable
          else if length bytes > maxConfigBytes then Inl LoadTooLarge
          else case ex_decode ex bytes of
            None \<Rightarrow> Inl LoadUndecodable
          | Some d \<Rightarrow> if document_Validate ex d \<noteq> [] then Inl (LoadInvalid (document_Validate ex d)) else Inr d)"

text \<open>Only the envelope and the device settings, for diagnostics: the device is returned beside the errors.\<close>

definition LoadDevice :: "externals \<Rightarrow> bool \<Rightarrow> string \<Rightarrow> Disk \<Rightarrow> load_error + Device \<times> config_error list" where
  "LoadDevice ex readable path disk =
     (case read_file path disk of
        None \<Rightarrow> Inl LoadNotExist
      | Some bytes \<Rightarrow>
          if \<not> readable then Inl LoadUnreadable
          else if length bytes > maxConfigBytes then Inl LoadTooLarge
          else case ex_decode_envelope ex bytes of
            None \<Rightarrow> Inl LoadUndecodable
          | Some (version, generation, device) \<Rightarrow> Inr (device, validateConfigEnvelope ex version generation device))"

datatype store_failure =
    Conflict | LoadFailed load_error | MutationMissing | MutationFailed | DocumentInvalid "config_error list"
  | EncodingFailed | DocumentTooLarge | ReplaceFailed

text \<open>The outcome, the error if there is one, and the disks along the way.\<close>

type_synonym config_result = "(CommitOutcome \<times> store_failure option) \<times> Disk list"

definition config_write :: "externals \<Rightarrow> faults \<Rightarrow> string \<Rightarrow> string \<Rightarrow> Document \<Rightarrow> Disk \<Rightarrow> config_result" where
  "config_write ex fl path tmp d disk =
     (case ex_encode ex d of
        None \<Rightarrow> ((NotCommitted, Some EncodingFailed), [disk])
      | Some bytes \<Rightarrow>
          if length bytes > maxConfigBytes then ((NotCommitted, Some DocumentTooLarge), [disk])
          else case replaceJSON fl path tmp bytes disk of
            ((outcome, failed), ds) \<Rightarrow> ((outcome, if failed then Some ReplaceFailed else None), ds))"

definition replaceLocked :: "externals \<Rightarrow> faults \<Rightarrow> bool \<Rightarrow> string \<Rightarrow> string \<Rightarrow> u64 \<Rightarrow> Document \<Rightarrow> Disk \<Rightarrow> config_result" where
  "replaceLocked ex fl readable path tmp expected nxt disk =
     (if doc_Generation nxt \<noteq> expected + 1 then ((NotCommitted, Some Conflict), [disk])
      else let loaded = config_load ex readable path disk
      in if isl loaded \<and> projl loaded \<noteq> LoadNotExist then ((NotCommitted, Some (LoadFailed (projl loaded))), [disk])
      else if (case loaded of Inl _ \<Rightarrow> expected \<noteq> 0 | Inr current \<Rightarrow> doc_Generation current \<noteq> expected)
        then ((NotCommitted, Some Conflict), [disk])
      else let nxt = assignAppGenerations (case loaded of Inl _ \<Rightarrow> None | Inr current \<Rightarrow> Some current) nxt
           in if document_Validate ex nxt \<noteq> [] then ((NotCommitted, Some (DocumentInvalid (document_Validate ex nxt))), [disk])
              else config_write ex fl path tmp nxt disk)"

text \<open>\<open>Update\<close>: the mutation is absent, fails, or gives the changed document.\<close>

definition config_Update ::
  "externals \<Rightarrow> faults \<Rightarrow> bool \<Rightarrow> string \<Rightarrow> string \<Rightarrow> u64 \<Rightarrow> (Document \<Rightarrow> Document option) option \<Rightarrow> Disk
     \<Rightarrow> Document option \<times> config_result" where
  "config_Update ex fl readable path tmp expected mutate disk =
     (let refuse = (\<lambda>e. (None, (NotCommitted, Some e), [disk]))
      in case config_load ex readable path disk of
        Inl e \<Rightarrow> refuse (LoadFailed e)
      | Inr current \<Rightarrow>
          if doc_Generation current \<noteq> expected then refuse Conflict
          else case mutate of
            None \<Rightarrow> refuse MutationMissing
          | Some f \<Rightarrow>
              (case f current of
                 None \<Rightarrow> refuse MutationFailed
               | Some changed \<Rightarrow>
                   let nxt = assignAppGenerations (Some current) (changed\<lparr>doc_Generation := doc_Generation current + 1\<rparr>)
                   in if document_Validate ex nxt \<noteq> [] then refuse (DocumentInvalid (document_Validate ex nxt))
                      else case config_write ex fl path tmp nxt disk of
                        ((outcome, failure), ds) \<Rightarrow>
                          (if IsCommitted outcome then Some nxt else None, (outcome, failure), ds)))"

subsection \<open>One update\<close>

text \<open>A write reports a failure exactly when it does not commit without reservation.\<close>

lemma config_write_spec:
  assumes "solid path disk" "tmp \<noteq> path" "config_write ex fl path tmp d disk = ((outcome, failure), ds)"
  shows "solid path (last ds)" "failure = None \<longleftrightarrow> outcome = Committed"
    "outcome = NotCommitted \<Longrightarrow> read_file path (last ds) = read_file path disk"
    "IsCommitted outcome \<Longrightarrow> \<exists>bytes. ex_encode ex d = Some bytes \<and> length bytes \<le> maxConfigBytes \<and> read_file path (last ds) = Some bytes"
    "e \<in> set ds \<Longrightarrow> crash_reads e path r \<Longrightarrow> crash_reads disk path r \<or> (\<exists>bytes. ex_encode ex d = Some bytes \<and> r = Some bytes)"
proof -
  have all: "solid path (last ds) \<and> (failure = None \<longleftrightarrow> outcome = Committed) \<and>
    (outcome = NotCommitted \<longrightarrow> read_file path (last ds) = read_file path disk) \<and>
    (IsCommitted outcome \<longrightarrow> (\<exists>bytes. ex_encode ex d = Some bytes \<and> length bytes \<le> maxConfigBytes \<and> read_file path (last ds) = Some bytes)) \<and>
    (\<forall>e\<in>set ds. crash_reads e path r \<longrightarrow> crash_reads disk path r \<or> (\<exists>bytes. ex_encode ex d = Some bytes \<and> r = Some bytes))" for r
  proof (cases "\<exists>bytes. ex_encode ex d = Some bytes \<and> length bytes \<le> maxConfigBytes")
    case False
    then show ?thesis using assms(1,3)
      by (auto simp: config_write_def IsCommitted_def split: option.splits if_splits)
  next
    case True
    then obtain bytes where b: "ex_encode ex d = Some bytes" "length bytes \<le> maxConfigBytes" by blast
    obtain o1 failed ds1 where r: "replaceJSON fl path tmp bytes disk = ((o1, failed), ds1)" by (metis prod.exhaust)
    have "outcome = o1" "failure = (if failed then Some ReplaceFailed else None)" "ds = ds1"
      using assms(3) b by (simp_all add: config_write_def r not_less [symmetric])
    then show ?thesis using replaceJSON_spec [OF assms(1,2) r] b by auto
  qed
  from all show "solid path (last ds)" "failure = None \<longleftrightarrow> outcome = Committed"
    "outcome = NotCommitted \<Longrightarrow> read_file path (last ds) = read_file path disk"
    "IsCommitted outcome \<Longrightarrow> \<exists>bytes. ex_encode ex d = Some bytes \<and> length bytes \<le> maxConfigBytes \<and> read_file path (last ds) = Some bytes"
    by blast+
  show "e \<in> set ds \<Longrightarrow> crash_reads e path r \<Longrightarrow> crash_reads disk path r \<or> (\<exists>bytes. ex_encode ex d = Some bytes \<and> r = Some bytes)"
    using all by blast
qed

text \<open>The two ways an update ends: refused with the disk as it was, or a write of the next document.\<close>

lemma config_Update_cases:
  assumes "config_Update ex fl readable path tmp expected mutate disk = (result, (outcome, failure), ds)"
  shows "result = None \<and> outcome = NotCommitted \<and> failure \<noteq> None \<and> ds = [disk] \<or>
    (\<exists>current f changed nxt. config_load ex readable path disk = Inr current \<and> doc_Generation current = expected \<and>
       mutate = Some f \<and> f current = Some changed \<and>
       nxt = assignAppGenerations (Some current) (changed\<lparr>doc_Generation := expected + 1\<rparr>) \<and> document_Validate ex nxt = [] \<and>
       config_write ex fl path tmp nxt disk = ((outcome, failure), ds) \<and> result = (if IsCommitted outcome then Some nxt else None))"
  using assms by (auto simp: config_Update_def Let_def split: sum.splits if_splits option.splits prod.splits)

lemma assign_generation_kept [simp]: "doc_Generation (assignAppGenerations prev nxt) = doc_Generation nxt"
  by (simp add: assignAppGenerations_def)

text \<open>(C36) An update of the configuration is all or nothing: if it is not committed it returns an error and the
  file is as it was; if it is committed, the file it was computed from had the expected generation, the
  returned document is valid, has the next generation and is what the file now encodes, so that a reader
  gets it back; and a crash at any point leaves the old bytes or the encoding of a valid document of the
  next generation.\<close>

theorem config_update_atomic:
  assumes "solid path disk" "tmp \<noteq> path"
    and "config_Update ex fl readable path tmp expected mutate disk = (result, (outcome, failure), ds)"
  shows "(outcome = NotCommitted \<longrightarrow> result = None \<and> failure \<noteq> None \<and> read_file path (last ds) = read_file path disk) \<and>
    (IsCommitted outcome \<longrightarrow> (\<exists>current nxt bytes. config_load ex readable path disk = Inr current \<and> doc_Generation current = expected \<and>
       result = Some nxt \<and> doc_Generation nxt = expected + 1 \<and> document_Validate ex nxt = [] \<and>
       ex_encode ex nxt = Some bytes \<and> read_file path (last ds) = Some bytes \<and>
       (ex_decode ex bytes = Some nxt \<longrightarrow> config_load ex True path (last ds) = Inr nxt))) \<and>
    (\<forall>e\<in>set ds. crash_reads e path r \<longrightarrow> crash_reads disk path r \<or>
       (\<exists>nxt. document_Validate ex nxt = [] \<and> doc_Generation nxt = expected + 1 \<and> r = ex_encode ex nxt)) \<and> solid path (last ds)"
  using config_Update_cases [OF assms(3)]
proof
  assume "result = None \<and> outcome = NotCommitted \<and> failure \<noteq> None \<and> ds = [disk]"
  then show ?thesis using assms(1) by (auto simp: IsCommitted_def)
next
  assume "\<exists>current f changed nxt. config_load ex readable path disk = Inr current \<and> doc_Generation current = expected \<and>
       mutate = Some f \<and> f current = Some changed \<and>
       nxt = assignAppGenerations (Some current) (changed\<lparr>doc_Generation := expected + 1\<rparr>) \<and> document_Validate ex nxt = [] \<and>
       config_write ex fl path tmp nxt disk = ((outcome, failure), ds) \<and> result = (if IsCommitted outcome then Some nxt else None)"
  then obtain current nxt where c: "config_load ex readable path disk = Inr current" "doc_Generation current = expected"
    and g: "doc_Generation nxt = expected + 1" and v: "document_Validate ex nxt = []"
    and w: "config_write ex fl path tmp nxt disk = ((outcome, failure), ds)" and res: "result = (if IsCommitted outcome then Some nxt else None)"
    by (elim exE conjE) (rule that; simp)
  note spec = config_write_spec [OF assms(1,2) w]
  have "config_load ex True path (last ds) = Inr nxt"
    if "length bytes \<le> maxConfigBytes" "read_file path (last ds) = Some bytes" "ex_decode ex bytes = Some nxt" for bytes
    using that v by (simp add: config_load_def)
  moreover have "crash_reads disk path r \<or> (\<exists>nxt. document_Validate ex nxt = [] \<and> doc_Generation nxt = expected + 1 \<and> r = ex_encode ex nxt)"
    if "e \<in> set ds" "crash_reads e path r" for e
    using spec(5) [OF that] g v by auto
  ultimately show ?thesis using spec(1-4) c g v res by (auto simp: IsCommitted_def)
qed

subsection \<open>Many updates\<close>

record config_request =
  rq_faults :: faults
  rq_readable :: bool
  rq_tmp :: string
  rq_expected :: u64
  rq_mutate :: "(Document \<Rightarrow> Document option) option"

definition request_run :: "externals \<Rightarrow> string \<Rightarrow> config_request \<Rightarrow> Disk \<Rightarrow> Document option \<times> config_result" where
  "request_run ex path rq disk =
     config_Update ex (rq_faults rq) (rq_readable rq) path (rq_tmp rq) (rq_expected rq) (rq_mutate rq) disk"

text \<open>Updates in the order in which they take the lock of the store: what each expected, and its outcome.\<close>

fun config_run :: "externals \<Rightarrow> string \<Rightarrow> config_request list \<Rightarrow> Disk \<Rightarrow> (u64 \<times> CommitOutcome) list" where
  "config_run ex path [] disk = []"
| "config_run ex path (rq # rqs) disk =
     (case request_run ex path rq disk of (_, (outcome, _), ds) \<Rightarrow> (rq_expected rq, outcome) # config_run ex path rqs (last ds))"

text \<open>What the store relies on in its format: decoding gives back the generation that was encoded.\<close>

definition generation_codec :: "externals \<Rightarrow> bool" where
  "generation_codec ex \<longleftrightarrow>
     (\<forall>d bytes d'. ex_encode ex d = Some bytes \<and> ex_decode ex bytes = Some d' \<longrightarrow> doc_Generation d' = doc_Generation d)"

definition at_least :: "externals \<Rightarrow> string \<Rightarrow> u64 \<Rightarrow> Disk \<Rightarrow> bool" where
  "at_least ex path g disk \<longleftrightarrow> (\<forall>readable d. config_load ex readable path disk = Inr d \<longrightarrow> g \<le> doc_Generation d)"

lemma config_load_same: "read_file path disk = read_file path disk' \<Longrightarrow> config_load ex readable path disk = config_load ex readable path disk'"
  by (simp add: config_load_def)

lemma valid_generation: "document_Validate ex d = [] \<Longrightarrow> doc_Generation d \<noteq> 0"
  by (auto simp: document_Validate_def validateConfigEnvelope_def fault_def split: if_splits)

lemma config_load_decodes:
  "config_load ex readable path disk = Inr d \<Longrightarrow> \<exists>bytes. read_file path disk = Some bytes \<and> ex_decode ex bytes = Some d"
  by (auto simp: config_load_def split: option.splits if_splits)

lemma request_step:
  assumes "solid path disk" "rq_tmp rq \<noteq> path" "request_run ex path rq disk = (result, (outcome, failure), ds)"
    and "at_least ex path g disk" "generation_codec ex"
  shows "solid path (last ds) \<and>
    (if IsCommitted outcome then g \<le> rq_expected rq \<and> rq_expected rq < rq_expected rq + 1 \<and> at_least ex path (rq_expected rq + 1) (last ds)
     else at_least ex path g (last ds))"
  using config_Update_cases [OF assms(3) [unfolded request_run_def]]
proof
  assume "result = None \<and> outcome = NotCommitted \<and> failure \<noteq> None \<and> ds = [disk]"
  then show ?thesis using assms(1,4) by (auto simp: IsCommitted_def)
next
  assume "\<exists>current f changed nxt. config_load ex (rq_readable rq) path disk = Inr current \<and> doc_Generation current = rq_expected rq \<and>
       rq_mutate rq = Some f \<and> f current = Some changed \<and>
       nxt = assignAppGenerations (Some current) (changed\<lparr>doc_Generation := rq_expected rq + 1\<rparr>) \<and> document_Validate ex nxt = [] \<and>
       config_write ex (rq_faults rq) path (rq_tmp rq) nxt disk = ((outcome, failure), ds) \<and>
       result = (if IsCommitted outcome then Some nxt else None)"
  then obtain current nxt where c: "config_load ex (rq_readable rq) path disk = Inr current" "doc_Generation current = rq_expected rq"
    and n: "doc_Generation nxt = rq_expected rq + 1" "document_Validate ex nxt = []"
    and w: "config_write ex (rq_faults rq) path (rq_tmp rq) nxt disk = ((outcome, failure), ds)"
    by (elim exE conjE) (rule that; simp)
  note spec = config_write_spec [OF assms(1,2) w]
  show ?thesis
  proof (cases "IsCommitted outcome")
    case False
    then have "read_file path (last ds) = read_file path disk" using spec(3) by (cases outcome) (auto simp: IsCommitted_def)
    then have "config_load ex readable path (last ds) = config_load ex readable path disk" for readable by (rule config_load_same)
    then show ?thesis using False spec(1) assms(4) by (simp add: at_least_def)
  next
    case True
    then obtain bytes where b: "ex_encode ex nxt = Some bytes" "read_file path (last ds) = Some bytes" using spec(4) by blast
    have "doc_Generation d = rq_expected rq + 1" if "config_load ex readable path (last ds) = Inr d" for readable d
      using config_load_decodes [OF that] b assms(5) n(1) by (auto simp: generation_codec_def)
    then have "at_least ex path (rq_expected rq + 1) (last ds)" by (auto simp: at_least_def)
    moreover have "rq_expected rq < rq_expected rq + 1" using valid_generation [OF n(2)] n(1) by (intro u64_less_Suc) auto
    moreover have "g \<le> rq_expected rq" using assms(4) c unfolding at_least_def by metis
    ultimately show ?thesis using True spec(1) by simp
  qed
qed

lemma config_run_increasing:
  assumes "generation_codec ex" "solid path disk" "list_all (\<lambda>rq. rq_tmp rq \<noteq> path) rqs" "at_least ex path g disk"
  shows "sorted_wrt (<) (map fst (filter (\<lambda>p. IsCommitted (snd p)) (config_run ex path rqs disk))) \<and>
    (\<forall>p\<in>set (config_run ex path rqs disk). IsCommitted (snd p) \<longrightarrow> g \<le> fst p)"
  using assms(2-)
proof (induction rqs arbitrary: disk g)
  case (Cons rq rqs)
  obtain result outcome failure ds where r: "request_run ex path rq disk = (result, (outcome, failure), ds)" by (metis prod.exhaust)
  from request_step [OF Cons.prems(1) _ r Cons.prems(3) assms(1)] Cons.prems(2)
  have st: "solid path (last ds)"
    "if IsCommitted outcome then g \<le> rq_expected rq \<and> rq_expected rq < rq_expected rq + 1 \<and> at_least ex path (rq_expected rq + 1) (last ds)
     else at_least ex path g (last ds)" by auto
  show ?case
  proof (cases "IsCommitted outcome")
    case True
    then show ?thesis
      using Cons.IH [OF st(1), of "rq_expected rq + 1"] Cons.prems(2) st(2)
      by (fastforce simp: r intro: order.strict_trans2 order_trans less_imp_le)
  next
    case False
    then show ?thesis using Cons.IH [OF st(1), of g] Cons.prems(2) st(2) by (auto simp: r)
  qed
qed simp

text \<open>(C8) No update is lost: of the updates that concurrent callers make, in whatever order they get the lock,
  with whatever faults of the disk and whatever they change, the committed ones have strictly increasing
  expected generations; in particular two callers that started from the same generation never both
  commit.\<close>

theorem no_lost_update:
  assumes "generation_codec ex" "solid path disk" "list_all (\<lambda>rq. rq_tmp rq \<noteq> path) rqs"
  shows "sorted_wrt (<) (map fst (filter (\<lambda>p. IsCommitted (snd p)) (config_run ex path rqs disk)))"
  using config_run_increasing [OF assms, of 0] by (simp add: at_least_def)

subsection \<open>Generations identify configurations\<close>

text \<open>
  Calls of the store, in the order in which they take its lock: updates, and replacements of the whole document. After each
  of them, and before, somebody may load the document that the file holds.
\<close>

datatype config_call = CallUpdate config_request | CallReplace faults bool string u64 Document

fun call_tmp :: "config_call \<Rightarrow> string" where
  "call_tmp (CallUpdate rq) = rq_tmp rq"
| "call_tmp (CallReplace fl readable tmp expected nxt) = tmp"

fun call_run :: "externals \<Rightarrow> string \<Rightarrow> config_call \<Rightarrow> Disk \<Rightarrow> config_result" where
  "call_run ex path (CallUpdate rq) disk = snd (request_run ex path rq disk)"
| "call_run ex path (CallReplace fl readable tmp expected nxt) disk = replaceLocked ex fl readable path tmp expected nxt disk"

definition loaded :: "externals \<Rightarrow> string \<Rightarrow> Disk \<Rightarrow> Document list" where
  "loaded ex path disk = (case config_load ex True path disk of Inl _ \<Rightarrow> [] | Inr d \<Rightarrow> [d])"

fun config_held :: "externals \<Rightarrow> string \<Rightarrow> config_call list \<Rightarrow> Disk \<Rightarrow> Document list" where
  "config_held ex path [] disk = loaded ex path disk"
| "config_held ex path (call # calls) disk = loaded ex path disk @ config_held ex path calls (last (snd (call_run ex path call disk)))"

text \<open>What a call commits: the next document, computed from the one in the file or from none.\<close>

definition next_document :: "externals \<Rightarrow> string \<Rightarrow> Disk \<Rightarrow> Document \<Rightarrow> bool" where
  "next_document ex path disk n \<longleftrightarrow> document_Validate ex n = [] \<and>
     (\<exists>d. n = assignAppGenerations None d \<and> read_file path disk = None \<and> doc_Generation d = 1 \<or>
        (\<exists>current. n = assignAppGenerations (Some current) d \<and> config_load ex True path disk = Inr current \<and>
           doc_Generation d = doc_Generation current + 1))"

lemma load_readable: "config_load ex readable path disk = Inr d \<Longrightarrow> config_load ex True path disk = Inr d"
  by (auto simp: config_load_def split: option.splits if_splits)

lemma load_missing: "config_load ex readable path disk = Inl LoadNotExist \<longleftrightarrow> read_file path disk = None"
  by (auto simp: config_load_def split: option.splits if_splits)

lemma replaceLocked_cases:
  assumes "replaceLocked ex fl readable path tmp expected nxt disk = (r, ds)"
  shows "ds = [disk] \<or> (\<exists>n. next_document ex path disk n \<and> config_write ex fl path tmp n disk = (r, ds))"
proof (cases "config_load ex readable path disk")
  case (Inl err)
  then show ?thesis
    using assms load_missing [of ex readable path disk]
    by (auto simp: replaceLocked_def next_document_def Let_def split: if_splits)
next
  case (Inr current)
  then show ?thesis
    using assms load_readable [OF Inr] by (auto simp: replaceLocked_def next_document_def Let_def split: if_splits)
qed

lemma call_run_cases:
  assumes "call_run ex path call disk = (r, ds)"
  shows "ds = [disk] \<or> (\<exists>fl n. next_document ex path disk n \<and> config_write ex fl path (call_tmp call) n disk = (r, ds))"
proof (cases call)
  case (CallReplace fl readable tmp expected nxt)
  then show ?thesis using assms replaceLocked_cases [of ex fl readable path tmp expected nxt disk] by auto
next
  case (CallUpdate rq)
  obtain result outcome failure where r: "config_Update ex (rq_faults rq) (rq_readable rq) path (rq_tmp rq) (rq_expected rq) (rq_mutate rq) disk
      = (result, (outcome, failure), ds)" "r = (outcome, failure)"
    using assms CallUpdate by (auto simp: request_run_def) (metis prod.exhaust_sel snd_conv)
  from config_Update_cases [OF r(1)] show ?thesis
  proof (elim disjE exE conjE)
    fix current f changed n
    assume "config_load ex (rq_readable rq) path disk = Inr current" "doc_Generation current = rq_expected rq"
      and n: "n = assignAppGenerations (Some current) (changed\<lparr>doc_Generation := rq_expected rq + 1\<rparr>)" "document_Validate ex n = []"
        "config_write ex (rq_faults rq) path (rq_tmp rq) n disk = ((outcome, failure), ds)"
    then have "next_document ex path disk n"
      unfolding next_document_def using load_readable
      by (intro conjI exI [where x = "changed\<lparr>doc_Generation := rq_expected rq + 1\<rparr>"]) auto
    then show ?thesis using n(3) CallUpdate r(2) by auto
  qed simp
qed

lemma call_run_file:
  assumes "solid path disk" "call_tmp call \<noteq> path" "call_run ex path call disk = (r, ds)"
  shows "solid path (last ds)"
    "read_file path (last ds) = read_file path disk \<or>
       (\<exists>n bytes. next_document ex path disk n \<and> ex_encode ex n = Some bytes \<and> read_file path (last ds) = Some bytes)"
proof -
  have "solid path (last ds) \<and> (read_file path (last ds) = read_file path disk \<or>
       (\<exists>n bytes. next_document ex path disk n \<and> ex_encode ex n = Some bytes \<and> read_file path (last ds) = Some bytes))"
    using call_run_cases [OF assms(3)]
  proof (elim disjE exE conjE)
    fix fl n
    assume n: "next_document ex path disk n" and w: "config_write ex fl path (call_tmp call) n disk = (r, ds)"
    obtain outcome failure where r: "r = (outcome, failure)" by fastforce
    note spec = config_write_spec [OF assms(1,2) w [unfolded r]]
    show ?thesis using spec(1,3,4) n by (cases outcome) (auto simp: IsCommitted_def)
  qed (use assms(1) in simp)
  then show "solid path (last ds)" "read_file path (last ds) = read_file path disk \<or>
       (\<exists>n bytes. next_document ex path disk n \<and> ex_encode ex n = Some bytes \<and> read_file path (last ds) = Some bytes)" by blast+
qed

lemma map_of_map_values: "map_of (map (\<lambda>(k, v). (k, f k v)) m) i = map_option (f i) (map_of m i)"
  by (induction m) auto

lemma assigned_app:
  "map_of (doc_Apps (assignAppGenerations prev d)) i =
     map_option (\<lambda>a. a\<lparr>app_Generation := assigned_generation prev d i a\<rparr>) (map_of (doc_Apps d) i)"
  by (simp add: assignAppGenerations_def map_of_map_values)

lemma assign_plugins [simp]: "doc_Plugins (assignAppGenerations prev d) = doc_Plugins d"
  by (simp add: assignAppGenerations_def)

text \<open>
  What a configuration of an app is: everything but its generation, maps by their entries. The same app has the same
  configuration and the same plugin.
\<close>

definition app_fields ::
  "App \<Rightarrow> string \<times> string \<times> bool \<times> string \<times> char slice \<times> (string \<times> string) set option \<times> (string \<times> PolicyConfig) set option" where
  "app_fields a = (app_ID a, app_PluginID a, app_Enabled a, app_LaunchAction a, app_Config a,
     map_option set (app_Secrets a), map_option set (app_Policies a))"

definition same_app :: "Document \<Rightarrow> App \<Rightarrow> Document \<Rightarrow> App \<Rightarrow> bool" where
  "same_app d a d' a' \<longleftrightarrow> app_fields a = app_fields a' \<and>
     map_of (doc_Plugins d) (app_PluginID a) = map_of (doc_Plugins d') (app_PluginID a')"

lemma sameApp_fields: "sameAppConfiguration a b \<longleftrightarrow> app_fields a = app_fields b"
  by (auto simp: sameAppConfiguration_def app_fields_def same_map_def split: option.splits)

lemma app_fields_generation [simp]: "app_fields (a\<lparr>app_Generation := g\<rparr>) = app_fields a"
  by (simp add: app_fields_def)

lemma app_fields_plugin: "app_fields a = app_fields b \<Longrightarrow> app_PluginID a = app_PluginID b"
  by (simp add: app_fields_def)

text \<open>
  What the store relies on in its format: reading back a valid document that was written gives its generation, its apps
  and its plugins, up to a normal form of each (spaces in a configuration object, empty lists and maps) that does not
  depend on the rest of the document, keeps generations, and is itself read back unchanged.
\<close>

definition codec_normalises :: "externals \<Rightarrow> (App \<Rightarrow> App) \<Rightarrow> (Plugin \<Rightarrow> Plugin) \<Rightarrow> bool" where
  "codec_normalises ex normA normP \<longleftrightarrow>
     (\<forall>d bytes d'. document_Validate ex d = [] \<and> ex_encode ex d = Some bytes \<and> ex_decode ex bytes = Some d' \<longrightarrow>
        doc_Generation d' = doc_Generation d \<and>
        (\<forall>i. map_of (doc_Apps d') i = map_option normA (map_of (doc_Apps d) i)) \<and>
        (\<forall>i. map_of (doc_Plugins d') i = map_option normP (map_of (doc_Plugins d) i))) \<and>
     (\<forall>a. app_Generation (normA a) = app_Generation a \<and> app_fields (normA (normA a)) = app_fields (normA a)) \<and>
     (\<forall>a b. app_fields a = app_fields b \<longrightarrow> app_fields (normA a) = app_fields (normA b)) \<and>
     (\<forall>x. normP (normP x) = normP x)"

definition normal_document :: "(App \<Rightarrow> App) \<Rightarrow> (Plugin \<Rightarrow> Plugin) \<Rightarrow> Document \<Rightarrow> bool" where
  "normal_document normA normP d \<longleftrightarrow>
     (\<forall>i a. map_of (doc_Apps d) i = Some a \<longrightarrow> app_fields (normA a) = app_fields a) \<and>
     (\<forall>i x. map_of (doc_Plugins d) i = Some x \<longrightarrow> normP x = x)"

lemma assigned_cases:
  assumes "map_of (doc_Apps (assignAppGenerations (Some current) d)) i = Some a"
  shows "app_Generation a = doc_Generation d \<or>
    (\<exists>old. map_of (doc_Apps current) i = Some old \<and> app_Generation a = app_Generation old \<and>
       app_fields a = app_fields old \<and> app_PluginID a = app_PluginID old \<and>
       map_of (doc_Plugins d) (app_PluginID a) = map_of (doc_Plugins current) (app_PluginID old))"
proof -
  obtain z where z: "map_of (doc_Apps d) i = Some z" "a = z\<lparr>app_Generation := assigned_generation (Some current) d i z\<rparr>"
    using assms by (auto simp: assigned_app)
  show ?thesis
  proof (cases "app_Generation a = doc_Generation d")
    case False
    then obtain old p where o: "map_of (doc_Apps current) i = Some old" "app_Generation a = app_Generation old"
      "sameAppConfiguration old z" "map_of (doc_Plugins current) (app_PluginID old) = Some p" "map_of (doc_Plugins d) (app_PluginID z) = Some p"
      by (simp add: z(2) assigned_generation_def split: option.splits if_splits)
    have "app_fields a = app_fields old" using o(3) by (simp add: sameApp_fields z(2))
    then show ?thesis using o app_fields_plugin [of a old] by (auto simp: z(2))
  qed simp
qed

definition history_ok :: "Document list \<Rightarrow> bool" where
  "history_ok ds \<longleftrightarrow>
     (\<forall>d\<in>set ds. doc_Generation d \<le> doc_Generation (hd ds)) \<and>
     (\<forall>d\<in>set ds. \<forall>i a. map_of (doc_Apps d) i = Some a \<longrightarrow> app_Generation a \<le> doc_Generation d) \<and>
     (\<forall>d\<in>set ds. \<forall>d'\<in>set ds. \<forall>i a a'. map_of (doc_Apps d) i = Some a \<and> map_of (doc_Apps d') i = Some a' \<and>
        app_Generation a = app_Generation a' \<longrightarrow> same_app d a d' a')"

lemma same_app_refl: "same_app d a d a"
  by (simp add: same_app_def)

lemma same_app_sym: "same_app d a d' a' \<Longrightarrow> same_app d' a' d a"
  by (simp add: same_app_def)

lemma same_app_trans: "same_app d a d' a' \<Longrightarrow> same_app d' a' e b \<Longrightarrow> same_app d a e b"
  by (simp add: same_app_def)

lemma history_first:
  assumes "\<And>i a. map_of (doc_Apps d) i = Some a \<Longrightarrow> app_Generation a = doc_Generation d"
  shows "history_ok [d]"
  using assms by (auto simp: history_ok_def same_app_refl)

lemma history_replaced:
  assumes "history_ok (current # past)" "doc_Generation n = doc_Generation current + 1" "doc_Generation n \<noteq> 0"
    and carried: "\<And>i a. map_of (doc_Apps n) i = Some a \<Longrightarrow> app_Generation a = doc_Generation n \<or>
      (\<exists>old. map_of (doc_Apps current) i = Some old \<and> app_Generation a = app_Generation old \<and> same_app n a current old)"
  shows "history_ok (n # current # past)"
proof -
  have less: "doc_Generation current < doc_Generation n"
    unfolding assms(2) by (rule u64_less_Suc) (use assms(2,3) in auto)
  have gens: "app_Generation a \<le> doc_Generation e" "doc_Generation e \<le> doc_Generation current"
    if "e \<in> set (current # past)" "map_of (doc_Apps e) i = Some a" for e i a
    using assms(1) that unfolding history_ok_def by (auto simp del: list.set)
  have old: "same_app e a e' a'"
    if "e \<in> set (current # past)" "e' \<in> set (current # past)" "map_of (doc_Apps e) i = Some a" "map_of (doc_Apps e') i = Some a'"
      "app_Generation a = app_Generation a'" for e e' i a a'
    using assms(1) that unfolding history_ok_def by blast
  have new: "same_app n a e a'"
    if e: "e \<in> set (current # past)" and a: "map_of (doc_Apps n) i = Some a" "map_of (doc_Apps e) i = Some a'" "app_Generation a = app_Generation a'"
    for e i a a'
  proof -
    have "app_Generation a \<noteq> doc_Generation n" using gens [OF e a(2)] a(3) less by auto
    then obtain o1 where o1: "map_of (doc_Apps current) i = Some o1" "app_Generation a = app_Generation o1" "same_app n a current o1"
      using carried [OF a(1)] by auto
    have "same_app current o1 e a'" by (rule old [OF _ e o1(1) a(2)]) (use o1(2) a(3) in auto)
    then show ?thesis by (rule same_app_trans [OF o1(3)])
  qed
  have top: "app_Generation a \<le> doc_Generation n" if "map_of (doc_Apps n) i = Some a" for i a
    using carried [OF that] gens [of current] less by fastforce
  have le: "doc_Generation e \<le> doc_Generation n" if "e \<in> set (current # past)" for e
    using assms(1) that less by (auto simp: history_ok_def)
  show ?thesis
    unfolding history_ok_def
  proof (intro conjI ballI allI impI)
    fix e e' i a a'
    assume "e \<in> set (n # current # past)" "e' \<in> set (n # current # past)"
      and m: "map_of (doc_Apps e) i = Some a \<and> map_of (doc_Apps e') i = Some a' \<and> app_Generation a = app_Generation a'"
    then consider "e = n" "e' = n" | "e = n" "e' \<in> set (current # past)" | "e \<in> set (current # past)" "e' = n"
      | "e \<in> set (current # past)" "e' \<in> set (current # past)" by auto
    then show "same_app e a e' a'"
      using m new old same_app_sym by cases (auto simp: same_app_refl intro: same_app_sym new)
  qed (use top le gens in auto)
qed

text \<open>One more document that is written and read back.\<close>

lemma decoded_history:
  assumes "codec_normalises ex normA normP" "next_document ex path disk n" "ex_encode ex n = Some bytes" "ex_decode ex bytes = Some d'"
    and "history_ok ds" "\<forall>d\<in>set ds. normal_document normA normP d" "read_file path disk = None \<Longrightarrow> ds = []"
    and "\<And>d. config_load ex True path disk = Inr d \<Longrightarrow> ds \<noteq> [] \<and> hd ds = d"
  shows "history_ok (d' # ds)" "normal_document normA normP d'"
proof -
  have valid: "document_Validate ex n = []" using assms(2) by (simp add: next_document_def)
  have dec: "doc_Generation d' = doc_Generation n" "map_of (doc_Apps d') i = map_option normA (map_of (doc_Apps n) i)"
    "map_of (doc_Plugins d') i = map_option normP (map_of (doc_Plugins n) i)" for i
    using assms(1,3,4) valid unfolding codec_normalises_def by blast+
  have norm: "app_Generation (normA a) = app_Generation a" "app_fields (normA (normA a)) = app_fields (normA a)"
    "app_fields a = app_fields b \<Longrightarrow> app_fields (normA a) = app_fields (normA b)" "normP (normP x) = normP x" for a b x
    using assms(1) unfolding codec_normalises_def by blast+
  show "normal_document normA normP d'" by (auto simp: normal_document_def dec norm(2,4))
  have "doc_Generation d' \<noteq> 0" using valid_generation [OF valid] dec(1) by simp
  from assms(2) obtain d where "n = assignAppGenerations None d \<and> read_file path disk = None \<and> doc_Generation d = 1 \<or>
      (\<exists>current. n = assignAppGenerations (Some current) d \<and> config_load ex True path disk = Inr current \<and>
        doc_Generation d = doc_Generation current + 1)" unfolding next_document_def by blast
  then show "history_ok (d' # ds)"
  proof (elim disjE exE conjE)
    assume n: "n = assignAppGenerations None d" "read_file path disk = None"
    have "app_Generation a = doc_Generation d'" if "map_of (doc_Apps d') i = Some a" for i a
      using that by (auto simp: dec norm(1) n(1) assigned_app assigned_generation_def)
    then show ?thesis using assms(7) [OF n(2)] history_first by simp
  next
    fix current
    assume n: "n = assignAppGenerations (Some current) d" "config_load ex True path disk = Inr current"
      and g: "doc_Generation d = doc_Generation current + 1"
    obtain past where ds: "ds = current # past" using assms(8) [OF n(2)] by (cases ds) auto
    have normal: "normal_document normA normP current" using assms(6) ds by simp
    have "app_Generation a = doc_Generation d' \<or>
        (\<exists>old. map_of (doc_Apps current) i = Some old \<and> app_Generation a = app_Generation old \<and> same_app d' a current old)"
      if app: "map_of (doc_Apps d') i = Some a" for i a
    proof -
      obtain z where z: "map_of (doc_Apps n) i = Some z" "a = normA z" using app by (auto simp: dec(2))
      from assigned_cases [OF z(1) [unfolded n(1)]] show ?thesis
      proof (elim disjE exE conjE)
        fix old
        assume old: "map_of (doc_Apps current) i = Some old" "app_Generation z = app_Generation old" "app_fields z = app_fields old"
          "map_of (doc_Plugins d) (app_PluginID z) = map_of (doc_Plugins current) (app_PluginID old)"
        have "app_fields (normA old) = app_fields old" using normal old(1) by (auto simp: normal_document_def)
        then have same: "app_fields a = app_fields old" using norm(3) [OF old(3)] z(2) by simp
        have "map_of (doc_Plugins d') (app_PluginID a) = map_option normP (map_of (doc_Plugins current) (app_PluginID old))"
          using old(4) app_fields_plugin [OF same] app_fields_plugin [OF old(3)] by (simp add: dec n(1))
        also have "\<dots> = map_of (doc_Plugins current) (app_PluginID old)"
          using normal by (cases "map_of (doc_Plugins current) (app_PluginID old)") (auto simp: normal_document_def)
        finally show ?thesis using old same by (auto simp: same_app_def z(2) norm(1))
      qed (simp add: z(2) norm(1) dec(1) n(1))
    qed
    then show ?thesis unfolding ds
      using assms(5) g \<open>doc_Generation d' \<noteq> 0\<close> by (intro history_replaced) (simp_all add: dec(1) ds n(1))
  qed
qed

lemma loaded_held: "(\<And>d. config_load ex True path disk = Inr d \<Longrightarrow> ds \<noteq> [] \<and> hd ds = d) \<Longrightarrow> set (loaded ex path disk) \<subseteq> set ds"
  by (cases "config_load ex True path disk") (auto simp: loaded_def)

lemma held_history:
  assumes "codec_normalises ex normA normP" "solid path disk" "list_all (\<lambda>c. call_tmp c \<noteq> path) calls"
    and "history_ok ds" "\<forall>d\<in>set ds. normal_document normA normP d" "read_file path disk = None \<Longrightarrow> ds = []"
    and "\<And>d. config_load ex True path disk = Inr d \<Longrightarrow> ds \<noteq> [] \<and> hd ds = d"
  shows "\<exists>ds'. history_ok ds' \<and> set (config_held ex path calls disk) \<union> set ds \<subseteq> set ds'"
  using assms(2-)
proof (induction calls arbitrary: disk ds)
  case Nil
  have "set (loaded ex path disk) \<subseteq> set ds" by (rule loaded_held [OF Nil.prems(6)])
  then show ?case using Nil.prems(3) by auto
next
  case (Cons call calls)
  obtain r es where run: "call_run ex path call disk = (r, es)" by fastforce
  have tmp: "call_tmp call \<noteq> path" "list_all (\<lambda>c. call_tmp c \<noteq> path) calls" using Cons.prems(2) by simp_all
  note wrote = call_run_file [OF Cons.prems(1) tmp(1) run]
  have here: "set (loaded ex path disk) \<subseteq> set ds" by (rule loaded_held [OF Cons.prems(6)])
  have "\<exists>ds'. history_ok ds' \<and> set (config_held ex path calls (last es)) \<union> set ds \<subseteq> set ds'"
    using wrote(2)
  proof (elim disjE exE conjE)
    assume same: "read_file path (last es) = read_file path disk"
    have "config_load ex True path (last es) = config_load ex True path disk" by (rule config_load_same [OF same])
    then show ?thesis using Cons.IH [OF wrote(1) tmp(2) Cons.prems(3,4)] Cons.prems(5,6) same by simp
  next
    fix n bytes
    assume n: "next_document ex path disk n" "ex_encode ex n = Some bytes" and bytes: "read_file path (last es) = Some bytes"
    show ?thesis
    proof (cases "config_load ex True path (last es)")
      case (Inl err)
      then show ?thesis using Cons.IH [OF wrote(1) tmp(2) Cons.prems(3,4)] bytes by simp
    next
      case (Inr d')
      then have "ex_decode ex bytes = Some d'" using config_load_decodes [OF Inr] bytes by simp
      note step = decoded_history [OF assms(1) n this Cons.prems(3-6)]
      have "\<exists>ds'. history_ok ds' \<and> set (config_held ex path calls (last es)) \<union> set (d' # ds) \<subseteq> set ds'"
        by (rule Cons.IH [OF wrote(1) tmp(2) step(1)]) (use step(2) Cons.prems(4) Inr bytes in simp_all)
      then show ?thesis by auto
    qed
  qed
  then show ?case using here by (auto simp: run)
qed

text \<open>(C23) A generation identifies a configuration. Starting from a store without a file, after whatever updates and
  replacements, committed or refused and with whatever faults of the disk: of all documents that a reader could load
  in between, two entries for the same app with the same generation have the same plugin identifier, enabling, launch action,
  configuration object, secrets and policies, and the same description of the plugin, even if the app was
  removed and added again in between. What plugins, observations and sessions carry as their generation
  therefore never refers to another configuration than the one it was made for. The format of the file is assumed to read
  back what was written, up to a normal form.\<close>

theorem generation_identifies_configuration:
  assumes "codec_normalises ex normA normP" "solid path disk" "read_file path disk = None"
    and "list_all (\<lambda>c. call_tmp c \<noteq> path) calls" "d \<in> set (config_held ex path calls disk)" "d' \<in> set (config_held ex path calls disk)"
    and "map_of (doc_Apps d) i = Some a" "map_of (doc_Apps d') i = Some a'" "app_Generation a = app_Generation a'"
  shows "app_ID a = app_ID a' \<and> app_PluginID a = app_PluginID a' \<and> app_Enabled a = app_Enabled a' \<and>
    app_LaunchAction a = app_LaunchAction a' \<and> app_Config a = app_Config a' \<and>
    map_option set (app_Secrets a) = map_option set (app_Secrets a') \<and>
    map_option set (app_Policies a) = map_option set (app_Policies a') \<and>
    map_of (doc_Plugins d) (app_PluginID a) = map_of (doc_Plugins d') (app_PluginID a')"
proof -
  have "config_load ex True path disk \<noteq> Inr x" for x using assms(3) by (simp add: config_load_def)
  moreover have "history_ok []" by (simp add: history_ok_def)
  ultimately obtain ds where "history_ok ds" "set (config_held ex path calls disk) \<subseteq> set ds"
    using held_history [OF assms(1,2,4), of "[]"] by auto
  then have "same_app d a d' a'" using assms(5-) unfolding history_ok_def by blast
  then show ?thesis unfolding same_app_def app_fields_def prod.inject by blast
qed

subsection \<open>Witnesses\<close>

definition demo_document :: Document where
  "demo_document = \<lparr>doc_Version = 1, doc_Generation = 1, doc_Device = \<lparr>dev_BaseURL = '''', dev_AccessTokenSecret = ''''\<rparr>,
     doc_Plugins = [], doc_Apps = []\<rparr>"

text \<open>A format for documents without plugins and apps: the generation, counted in strokes.\<close>

definition demo_externals :: externals where
  "demo_externals = \<lparr>ex_sha256 = (\<lambda>s. s), ex_base_url_ok = (\<lambda>_. True), ex_secret_ok = (\<lambda>_. True), ex_physical_ok = (\<lambda>_. True),
     ex_schema = (\<lambda>_ _. None), ex_json_object = (\<lambda>_. True),
     ex_decode = (\<lambda>bytes. Some (demo_document\<lparr>doc_Generation := of_nat (length bytes)\<rparr>)),
     ex_decode_envelope = (\<lambda>bytes. Some (1, of_nat (length bytes), doc_Device demo_document)),
     ex_encode = (\<lambda>d. Some (replicate (unat (doc_Generation d)) CHR ''x''))\<rparr>"

definition demo_config_disk :: Disk where
  "demo_config_disk = \<lparr>dk_inodes = [\<lparr>ino_data = ''x'', ino_synced = True\<rparr>], dk_dir = [(''config'', 0)], dk_dirs = [[(''config'', 0)]]\<rparr>"

definition demo_request :: config_request where
  "demo_request = \<lparr>rq_faults = no_faults, rq_readable = True, rq_tmp = ''tmp'', rq_expected = 1, rq_mutate = Some Some\<rparr>"

lemma demo_config_solid: "solid ''config'' demo_config_disk"
  by (simp add: solid_def demo_config_disk_def)

lemma demo_documents_valid: "document_Validate demo_externals (demo_document\<lparr>doc_Generation := g\<rparr>) = (if g = 0 then [ZeroGeneration] else [])"
  by (simp add: document_Validate_def validateConfigEnvelope_def demo_document_def fault_def CurrentVersion_def MaxPlugins_def MaxApps_def
      validatePluginHashCollisions_def)

lemma demo_config_loaded: "config_load demo_externals True ''config'' demo_config_disk = Inr demo_document"
  using demo_documents_valid [of 1]
  by (simp add: config_load_def read_file_def demo_config_disk_def demo_externals_def maxConfigBytes_def) (simp add: demo_document_def)

lemma demo_update:
  "\<exists>ds. request_run demo_externals ''config'' demo_request demo_config_disk =
     (Some (demo_document\<lparr>doc_Generation := 2\<rparr>), (Committed, None), ds)"
proof -
  have a: "assignAppGenerations (Some demo_document) (demo_document\<lparr>doc_Generation := 2\<rparr>) = demo_document\<lparr>doc_Generation := 2\<rparr>"
    by (simp add: assignAppGenerations_def demo_document_def)
  have g: "doc_Generation demo_document = 1" by (simp add: demo_document_def)
  have e: "ex_encode demo_externals (demo_document\<lparr>doc_Generation := 2\<rparr>) = Some ''xx''"
    by (simp add: demo_externals_def) (simp add: numeral_2_eq_2)
  show ?thesis
    by (simp add: request_run_def demo_request_def config_Update_def demo_config_loaded g a demo_documents_valid config_write_def e
        maxConfigBytes_def replaceJSON_def no_faults_def sync_parent_def Let_def IsCommitted_def)
qed

theorem config_update_atomic_witness:
  "fst (request_run demo_externals ''config'' demo_request demo_config_disk) = Some (demo_document\<lparr>doc_Generation := 2\<rparr>) \<and>
   read_file ''config'' (last (snd (snd (request_run demo_externals ''config'' demo_request demo_config_disk)))) = Some ''xx''"
proof -
  obtain ds where u: "request_run demo_externals ''config'' demo_request demo_config_disk =
      (Some (demo_document\<lparr>doc_Generation := 2\<rparr>), (Committed, None), ds)"
    using demo_update by blast
  have e: "ex_encode demo_externals (demo_document\<lparr>doc_Generation := 2\<rparr>) = Some ''xx''"
    by (simp add: demo_externals_def) (simp add: numeral_2_eq_2)
  have t: "rq_tmp demo_request \<noteq> ''config''" by (simp add: demo_request_def)
  from config_update_atomic [OF demo_config_solid t u [unfolded request_run_def], of None] e show ?thesis
    by (auto simp: IsCommitted_def u)
qed

theorem no_lost_update_witness:
  "sorted_wrt (<) (map fst (filter (\<lambda>p. IsCommitted (snd p))
     (config_run demo_externals ''config'' [demo_request, demo_request] demo_config_disk)))"
proof (rule no_lost_update [OF _ demo_config_solid])
  show "generation_codec demo_externals" by (auto simp: generation_codec_def demo_externals_def)
qed (simp add: demo_request_def)

definition demo_app :: App where
  "demo_app = \<lparr>app_ID = ''desk'', app_PluginID = ''calls'', app_Generation = 0, app_Enabled = True, app_LaunchAction = '''',
     app_Config = Some ''{}'', app_Secrets = None, app_Policies = None\<rparr>"

definition demo_plugin :: Plugin where
  "demo_plugin = \<lparr>pl_ID = ''calls'', pl_Version = ''1'', pl_Executable = ''/c'', pl_SHA256 = '''', pl_ProtocolVersion = ''1.0'',
     pl_ExecutionModes = Some [ExecutionModeResident], pl_Channels = None, pl_Operations = None, pl_ConfigSchema = None,
     pl_PackageRoot = '''', pl_Assets = None\<rparr>"

text \<open>The first document has one app, which the second keeps.\<close>

definition demo_first :: Document where
  "demo_first = demo_document\<lparr>doc_Plugins := [(''calls'', demo_plugin)], doc_Apps := [(''desk'', demo_app\<lparr>app_Generation := 1\<rparr>)]\<rparr>"

lemma demo_names_valid: "Identifier.Validate ''calls'' = None" "Identifier.Validate ''desk'' = None" "\<not> blank_string ''calls''" "\<not> blank_string ''1''"
  by (simp_all add: Identifier.Validate_def MaxBytes_def blank_string_def ValidString_def bytes_of_def runes.simps)

lemma demo_app_documents_valid:
  assumes "1 \<le> g" "g \<noteq> 0"
  shows "document_Validate (demo_externals\<lparr>ex_decode := f, ex_encode := h\<rparr>) (demo_first\<lparr>doc_Generation := g\<rparr>) = []"
proof -
  have p: "plugin_errors (demo_externals\<lparr>ex_decode := f, ex_encode := h\<rparr>) (''calls'', demo_plugin) = []"
    by (simp add: plugin_errors_def demo_plugin_def fault_def identity_errors_def demo_names_valid filepath_IsAbs_def ValidateExecutionModes_def
        slice_list_def ValidatePackage_def protocol_Version_def)
  have a: "app_errors (demo_externals\<lparr>ex_decode := f, ex_encode := h\<rparr>) (demo_first\<lparr>doc_Generation := g\<rparr>) (''desk'', demo_app\<lparr>app_Generation := 1\<rparr>) =
      []"
    using assms by (simp add: app_errors_def demo_first_def demo_app_def fault_def identity_errors_def demo_names_valid slice_list_def ValidateJSONObject_def
        MaxJSONObjectBytes_def demo_externals_def configuration_schema_def plugin_schema_def demo_plugin_def)
  show ?thesis
    using p a assms by (simp add: document_Validate_def validateConfigEnvelope_def demo_first_def demo_document_def fault_def CurrentVersion_def
        MaxPlugins_def MaxApps_def validatePluginHashCollisions_def)
qed

text \<open>A format for the documents with this app.\<close>

definition demo_app_externals :: externals where
  "demo_app_externals = demo_externals\<lparr>ex_decode := \<lambda>bytes. Some (demo_first\<lparr>doc_Generation := of_nat (length bytes)\<rparr>),
     ex_encode := \<lambda>d. if d = demo_first\<lparr>doc_Generation := doc_Generation d\<rparr>
       then Some (replicate (unat (doc_Generation d)) CHR ''x'') else None\<rparr>"

lemma demo_app_codec: "codec_normalises demo_app_externals id id"
proof -
  have "d' = d" if "ex_encode demo_app_externals d = Some bytes" "ex_decode demo_app_externals bytes = Some d'" for d bytes d'
    using that by (auto simp: demo_app_externals_def split: if_splits)
  then show ?thesis unfolding codec_normalises_def by (auto simp: option.map_id)
qed

definition demo_blank_disk :: Disk where
  "demo_blank_disk = \<lparr>dk_inodes = [], dk_dir = [], dk_dirs = [[]]\<rparr>"

definition demo_calls :: "config_call list" where
  "demo_calls = [CallReplace no_faults True ''tmp'' 0 demo_first, CallUpdate demo_request]"

lemma demo_first_generation: "doc_Generation demo_first = 1" "demo_first\<lparr>doc_Generation := 1\<rparr> = demo_first"
  by (simp_all add: demo_first_def demo_document_def)

lemma demo_held: "config_held demo_app_externals ''config'' demo_calls demo_blank_disk = [demo_first, demo_first\<lparr>doc_Generation := 2\<rparr>]"
proof -
  let ?ex = "demo_app_externals"
  have a: "assignAppGenerations None demo_first = demo_first"
    "assignAppGenerations (Some demo_first) (demo_first\<lparr>doc_Generation := 2\<rparr>) = demo_first\<lparr>doc_Generation := 2\<rparr>"
    by (simp_all add: assignAppGenerations_def assigned_generation_def demo_first_def demo_document_def demo_app_def sameAppConfiguration_def
        same_map_def)
  have v: "document_Validate ?ex demo_first = []" "document_Validate ?ex (demo_first\<lparr>doc_Generation := 2\<rparr>) = []"
    using demo_app_documents_valid [of 1] demo_app_documents_valid [of 2] by (simp_all add: demo_app_externals_def demo_first_generation)
  have enc: "ex_encode ?ex demo_first = Some ''x''" "ex_encode ?ex (demo_first\<lparr>doc_Generation := 2\<rparr>) = Some ''xx''"
    by (simp_all add: demo_app_externals_def demo_first_generation) (simp add: numeral_2_eq_2)
  have dec: "ex_decode ?ex ''x'' = Some demo_first" "ex_decode ?ex ''xx'' = Some (demo_first\<lparr>doc_Generation := 2\<rparr>)"
    by (simp_all add: demo_app_externals_def demo_first_generation)
  define d1 where "d1 = last (snd (replaceJSON no_faults ''config'' ''tmp'' ''x'' demo_blank_disk))"
  define d2 where "d2 = last (snd (replaceJSON no_faults ''config'' ''tmp'' ''xx'' d1))"
  have read: "read_file ''config'' demo_blank_disk = None" "read_file ''config'' d1 = Some ''x''" "read_file ''config'' d2 = Some ''xx''"
    unfolding d2_def d1_def by code_simp+
  have load: "config_load ?ex True ''config'' demo_blank_disk = Inl LoadNotExist" "config_load ?ex True ''config'' d1 = Inr demo_first"
    "config_load ?ex True ''config'' d2 = Inr (demo_first\<lparr>doc_Generation := 2\<rparr>)"
    by (simp_all add: config_load_def read dec v maxConfigBytes_def)
  have r1: "last (snd (call_run ?ex ''config'' (CallReplace no_faults True ''tmp'' 0 demo_first) demo_blank_disk)) = d1"
    by (simp add: replaceLocked_def load a v config_write_def enc maxConfigBytes_def demo_first_generation d1_def split_beta)
  have r2: "last (snd (call_run ?ex ''config'' (CallUpdate demo_request) d1)) = d2"
    by (simp add: request_run_def demo_request_def config_Update_def load a v config_write_def enc maxConfigBytes_def
        demo_first_generation d2_def split_beta Let_def)
  show ?thesis by (simp add: demo_calls_def loaded_def load r1 r2 del: call_run.simps)
qed

theorem generation_identifies_configuration_witness:
  "demo_first \<in> set (config_held demo_app_externals ''config'' demo_calls demo_blank_disk) \<and>
   app_Config (demo_app\<lparr>app_Generation := 1\<rparr>) = app_Config (the (map_of (doc_Apps (demo_first\<lparr>doc_Generation := 2\<rparr>)) ''desk''))"
proof -
  have "solid ''config'' demo_blank_disk" "read_file ''config'' demo_blank_disk = None" "list_all (\<lambda>c. call_tmp c \<noteq> ''config'') demo_calls"
    by (simp_all add: solid_def demo_blank_disk_def read_file_def demo_calls_def demo_request_def)
  from generation_identifies_configuration [OF demo_app_codec this, of demo_first "demo_first\<lparr>doc_Generation := 2\<rparr>" "''desk''"]
  show ?thesis by (simp add: demo_held demo_first_def)
qed

end
