(* ===== verification/Backoff.thy ===== *)
theory Backoff
  imports Bsb_Prelude Complex_Main
begin

text \<open>
  The delays of the plugin supervisor (\<open>internal/pluginhost/supervisor_retry.go\<close>): the ladder of
  \<open>backoffDelay\<close> and the jitter that \<open>jitteredDelay\<close> applies in floating point. A finite \<open>float64\<close> is the
  rational it stands for. The product of two of them is rounded to a significand of 53 bits, ties to
  even; the rounding is defined for the magnitudes that occur here, at least 1, where a double has
  no subnormals.
\<close>

subsection \<open>Float64\<close>

datatype float64 = NaN | NegInf | PosInf | Finite rat

text \<open>The exponent of the leading bit.\<close>

function leading_bit :: "int \<Rightarrow> nat" where
  "leading_bit n = (if n < 2 then 0 else Suc (leading_bit (n div 2)))"
  by pat_completeness auto
termination by (relation "measure nat") auto

declare leading_bit.simps [simp del]

definition round_half_even :: "rat \<Rightarrow> int" where
  "round_half_even x =
     (let f = \<lfloor>x\<rfloor>; d = x - of_int f
      in if d < 1 / 2 then f else if d > 1 / 2 then f + 1 else if even f then f else f + 1)"

text \<open>The double nearest to a rational that is at least 1.\<close>

definition round_double :: "rat \<Rightarrow> rat" where
  "round_double x =
     (let b = leading_bit \<lfloor>x\<rfloor>
      in if b \<le> 52 then of_int (round_half_even (x * 2 ^ (52 - b))) / 2 ^ (52 - b)
         else of_int (round_half_even (x / 2 ^ (b - 52))) * 2 ^ (b - 52))"

text \<open>The constants 0.8 and 1.2 as doubles.\<close>

definition double_0_8 :: rat where "double_0_8 = 3602879701896397 / 4503599627370496"
definition double_1_2 :: rat where "double_1_2 = 5404319552844595 / 4503599627370496"

subsection \<open>The delays\<close>

definition max_backoff :: int where "max_backoff = 30 * second"

definition backoffDelay :: "int \<Rightarrow> int" where
  "backoffDelay failure =
     (if failure \<le> 1 then second
      else if failure \<ge> 6 then max_backoff
      else push_bit (nat (failure - 1)) second)"

text \<open>The factor after the comparisons of \<open>jitteredDelay\<close>, always finite.\<close>

definition clamp_factor :: "float64 \<Rightarrow> rat" where
  "clamp_factor factor =
     (case factor of NaN \<Rightarrow> 1 | NegInf \<Rightarrow> double_0_8 | PosInf \<Rightarrow> double_1_2
      | Finite q \<Rightarrow> if q < double_0_8 then double_0_8 else if q > double_1_2 then double_1_2 else q)"

definition jitteredDelay :: "int \<Rightarrow> float64 \<Rightarrow> int" where
  "jitteredDelay delay factor =
     (let product = round_double (of_int delay * clamp_factor factor)
      in if delay \<le> 0 then 0
         else if product \<ge> of_int max_backoff then max_backoff
         else \<lfloor>product\<rfloor>)"

subsection \<open>Rounding and clamping\<close>

lemma round_half_even_bounds: "\<lfloor>x\<rfloor> \<le> round_half_even x" "round_half_even x \<le> \<lfloor>x\<rfloor> + 1"
  by (auto simp: round_half_even_def Let_def)

lemma round_half_even_of_int [simp]: "round_half_even (of_int n) = n"
  by (simp add: round_half_even_def)

lemma round_half_even_ge: "of_int k \<le> x \<Longrightarrow> k \<le> round_half_even x"
  using round_half_even_bounds(1) [of x] by (metis le_floor_iff order_trans)

lemma round_half_even_le: "x \<le> of_int k \<Longrightarrow> round_half_even x \<le> k"
proof -
  assume x: "x \<le> of_int k"
  show ?thesis
  proof (cases "x = of_int k")
    case False
    then have "\<lfloor>x\<rfloor> < k" using x by (simp add: floor_less_iff)
    then show ?thesis using round_half_even_bounds(2) [of x] by linarith
  qed simp
qed

lemma leading_bit_le: "n < 2 ^ Suc k \<Longrightarrow> leading_bit n \<le> k"
proof (induction k arbitrary: n)
  case 0
  then show ?case by (simp add: leading_bit.simps)
next
  case (Suc k)
  show ?case
  proof (cases "n < 2")
    case False
    have "n div 2 < 2 ^ Suc k" using Suc.prems by simp
    then show ?thesis using Suc.IH False by (subst leading_bit.simps) simp
  qed (simp add: leading_bit.simps)
qed

text \<open>Rounding does not cross an integer: below \<open>2 ^ 53\<close> every integer is a double.\<close>

lemma round_double_ge:
  assumes "of_int k \<le> x" "1 \<le> x" "x < 2 ^ 53"
  shows "of_int k \<le> round_double x"
proof -
  define b where "b = leading_bit \<lfloor>x\<rfloor>"
  have "\<lfloor>x\<rfloor> < 2 ^ Suc 52" using assms(2,3) by (simp add: floor_less_iff)
  then have b: "b \<le> 52" unfolding b_def by (rule leading_bit_le)
  have "of_int (k * 2 ^ (52 - b)) \<le> x * 2 ^ (52 - b)" using assms(1) by simp
  then have "k * 2 ^ (52 - b) \<le> round_half_even (x * 2 ^ (52 - b))" by (rule round_half_even_ge)
  then have "(of_int (k * 2 ^ (52 - b)) :: rat) \<le> of_int (round_half_even (x * 2 ^ (52 - b)))" by (simp only: of_int_le_iff)
  then show ?thesis using b by (simp add: round_double_def Let_def flip: b_def) (simp add: field_simps)
qed

lemma round_double_le:
  assumes "x \<le> of_int k" "1 \<le> x" "x < 2 ^ 53"
  shows "round_double x \<le> of_int k"
proof -
  define b where "b = leading_bit \<lfloor>x\<rfloor>"
  have "\<lfloor>x\<rfloor> < 2 ^ Suc 52" using assms(2,3) by (simp add: floor_less_iff)
  then have b: "b \<le> 52" unfolding b_def by (rule leading_bit_le)
  have "x * 2 ^ (52 - b) \<le> of_int (k * 2 ^ (52 - b))" using assms(1) by simp
  then have "round_half_even (x * 2 ^ (52 - b)) \<le> k * 2 ^ (52 - b)" by (rule round_half_even_le)
  then have "(of_int (round_half_even (x * 2 ^ (52 - b))) :: rat) \<le> of_int (k * 2 ^ (52 - b))" by (simp only: of_int_le_iff)
  then show ?thesis using b by (simp add: round_double_def Let_def flip: b_def) (simp add: field_simps)
qed

lemma clamp_factor_bounds: "double_0_8 \<le> clamp_factor f" "clamp_factor f \<le> double_1_2"
  by (auto simp: clamp_factor_def double_0_8_def double_1_2_def split: float64.splits)

lemma backoffDelay_ladder:
  "backoffDelay failure \<in> {second, 2 * second, 4 * second, 8 * second, 16 * second, max_backoff}"
proof -
  consider "failure \<le> 1" | "failure = 2" | "failure = 3" | "failure = 4" | "failure = 5" | "failure \<ge> 6" by linarith
  then show ?thesis by cases (auto simp: backoffDelay_def push_bit_eq_mult numeral_eq_Suc)
qed

lemma backoffDelay_bounds: "second \<le> backoffDelay failure" "backoffDelay failure \<le> max_backoff"
  using backoffDelay_ladder [of failure] by (auto simp: second_def max_backoff_def)

text \<open>A delay of whole multiples of five is kept within a fifth, and never longer than thirty seconds.\<close>

lemma jitteredDelay_within:
  assumes d: "d = 5 * k" "10 ^ 9 \<le> d" "d \<le> max_backoff"
  shows "4 * k \<le> jitteredDelay d f \<and> jitteredDelay d f \<le> min (6 * k) max_backoff"
proof -
  define x where "x = of_int d * clamp_factor f"
  have d': "d \<le> 3 * 10 ^ 10" using d(3) by (simp add: second_def max_backoff_def)
  have "of_int d * double_0_8 \<le> x" "x \<le> of_int d * double_1_2"
    unfolding x_def using clamp_factor_bounds [of f] d(2) by (auto intro!: mult_left_mono)
  moreover have "of_int (4 * k) \<le> of_int d * double_0_8" "of_int d * double_1_2 \<le> of_int (6 * k)"
    using d(1,2) by (auto simp: double_0_8_def double_1_2_def)
  ultimately have x: "of_int (4 * k) \<le> x" "x \<le> of_int (6 * k)" by linarith+
  have one: "1 \<le> x"
  proof -
    have "1 \<le> 4 * k" using d(1,2) by simp
    then have "(1 :: rat) \<le> of_int (4 * k)" by (simp only: of_int_1_le_iff)
    then show ?thesis using x(1) by linarith
  qed
  have "of_int (6 * k) \<le> (of_int (36 * 10 ^ 9) :: rat)" using d(1) d' by (simp only: of_int_le_iff) simp
  then have two: "x < 2 ^ 53" using x(2) by simp
  have r: "of_int (4 * k) \<le> round_double x" "round_double x \<le> of_int (6 * k)"
    using round_double_ge [OF x(1) one two] round_double_le [OF x(2) one two] by auto
  have "max_backoff \<le> 6 * k" if "of_int max_backoff \<le> round_double x"
  proof -
    have "(of_int max_backoff :: rat) \<le> of_int (6 * k)" using that r(2) by linarith
    then show ?thesis by (simp only: of_int_le_iff)
  qed
  moreover have "4 * k \<le> \<lfloor>round_double x\<rfloor>" using r(1) by (simp only: le_floor_iff)
  moreover have "\<lfloor>round_double x\<rfloor> \<le> 6 * k" using r(2) floor_mono [of _ "of_int (6 * k)"] by (metis floor_of_int)
  moreover have "\<lfloor>round_double x\<rfloor> \<le> max_backoff" if "\<not> of_int max_backoff \<le> round_double x"
    using that by (simp add: floor_le_iff)
  moreover have "jitteredDelay d f =
      (if of_int max_backoff \<le> round_double x then max_backoff else \<lfloor>round_double x\<rfloor>)"
    using d(2) by (simp add: jitteredDelay_def x_def)
  moreover have "4 * k \<le> max_backoff" using d by simp
  ultimately show ?thesis by simp
qed

lemma jitter_range:
  "4 * backoffDelay failure \<le> 5 * jitteredDelay (backoffDelay failure) f \<and>
   5 * jitteredDelay (backoffDelay failure) f \<le> 6 * backoffDelay failure \<and>
   jitteredDelay (backoffDelay failure) f \<le> 30 * second"
proof -
  obtain k where k: "backoffDelay failure = 5 * k"
    using backoffDelay_ladder [of failure] by (auto simp: second_def max_backoff_def)
  have "10 ^ 9 \<le> backoffDelay failure" using backoffDelay_bounds(1) [of failure] by (simp add: second_def)
  from jitteredDelay_within [OF k this backoffDelay_bounds(2), of f] show ?thesis
    by (auto simp: k max_backoff_def)
qed

text \<open>(C40) The delay before a retry follows the ladder 1, 2, 4, 8, 16, 30 seconds: whatever the source of the jitter
  returns, it is within a fifth of its step and never longer than thirty seconds.\<close>

theorem retry_delay_bounds:
  "4 * backoffDelay failure \<le> 5 * jitteredDelay (backoffDelay failure) f \<and>
   5 * jitteredDelay (backoffDelay failure) f \<le> 6 * backoffDelay failure \<and>
   jitteredDelay (backoffDelay failure) f \<le> 30 * second \<and>
   backoffDelay failure =
     (if failure \<le> 1 then 1 else if failure = 2 then 2 else if failure = 3 then 4 else if failure = 4 then 8
      else if failure = 5 then 16 else 30) * second"
proof -
  consider "failure \<le> 1" | "failure = 2" | "failure = 3" | "failure = 4" | "failure = 5" | "failure \<ge> 6" by linarith
  then have "backoffDelay failure =
     (if failure \<le> 1 then 1 else if failure = 2 then 2 else if failure = 3 then 4 else if failure = 4 then 8
      else if failure = 5 then 16 else 30) * second"
    by cases (auto simp: backoffDelay_def push_bit_eq_mult numeral_eq_Suc max_backoff_def)
  then show ?thesis using jitter_range [of failure f] by blast
qed

end
