(* ===== verification/Supervisor.thy ===== *)
theory Supervisor
  imports Configuration Machines Backoff
begin

text \<open>
  The supervisor of one plugin process (\<open>internal/pluginhost/supervisor*.go\<close>). A supervisor is one
  goroutine: it takes commands, completions, timers and the exit of its child one at a time, and each of
  them is a function on its state. What it cannot decide is in an environment: the n-th interaction with
  the outside (a start, a call to the child, a stop, the reaping of the process, a clock or the source of the
  jitter) has the n-th result of the environment, and \<open>su_ticks\<close> counts them. Everything it does to the child
  and every callback into the core is appended to \<open>su_log\<close>; no operation reads the log or the count.

  A context that expires during a call is one of the errors of that call. A child is named by the count at
  which it was started. A Go map is ranged over in the order of its association list. A call through a nil
  child would be a panic; it is the entry \<open>NilDereference\<close> of the log, and it is shown never to occur.
  Secrets and policies of an instance are listed in the order of their keys, so that \<open>reflect.DeepEqual\<close> on
  specifications is equality.
\<close>

subsection \<open>Data (manager.go, types.go, process.go)\<close>

definition supervisorQueueCapacity :: nat where "supervisorQueueCapacity = 32"
definition maxPendingSessionCleanups :: nat where "maxPendingSessionCleanups = 256"
definition eventTimeout :: int where "eventTimeout = 2 * second"
definition sessionActionTimeout :: int where "sessionActionTimeout = 7 * second"
definition failureWindow :: int where "failureWindow = 600 * second"

datatype Phase = PhaseStopped | PhaseStarting | PhaseRunning | PhaseUnhealthy | PhaseBackoff
  | PhaseQuarantined | PhaseStopping

datatype ErrorCode = NoErrorCode | ErrorCodeStartFailed | ErrorCodeReconcileFailed | ErrorCodeInvokeFailed
  | ErrorCodeEndSessionFailed | ErrorCodeSessionInputFailed | ErrorCodeOperationFailed
  | ErrorCodeHealthTimeout | ErrorCodeHealthReported | ErrorCodeUnexpectedExit | ErrorCodeStopFailed
  | ErrorCodeUnsupportedPlatform | ErrorCodeConfigurationRejected

datatype SessionInvalidationReason = SessionInvalidatedExit | SessionInvalidatedHealth
  | SessionInvalidatedDisabled | SessionInvalidatedGeneration | SessionInvalidatedReplaced
  | SessionInvalidatedInput

datatype InvocationKind = InvocationInteractive | OtherInvocation string

datatype postStopAction = postStopNone | postStopRestart | postStopRetry

record CheckpointRestore =
  cr_Generation :: u64
  cr_Data :: "char slice"

record Instance =
  pi_ID :: string
  pi_Generation :: u64
  pi_Config :: "char slice"
  pi_Secrets :: "(string \<times> string) slice"
  pi_Policies :: "(string \<times> PolicyConfig) slice"
  pi_Checkpoint :: "CheckpointRestore option"

record Spec =
  sx_ID :: string
  sx_Version :: string
  sx_Executable :: string
  sx_Args :: "string slice"
  sx_SHA256 :: string
  sx_ProtocolVersion :: string
  sx_ExecutionModes :: "ExecutionMode slice"
  sx_Channels :: "string slice"
  sx_Operations :: "OperationDescriptor slice"
  sx_Instances :: "Instance slice"

record ObservationRef =
  oref_Channel :: string
  oref_Key :: string
  oref_Revision :: u64

record SessionTrigger =
  tr_Kind :: string
  tr_Observation :: "ObservationRef option"

record InvokeRequest =
  ir_InstanceID :: string
  ir_Generation :: u64
  ir_Action :: string
  ir_Payload :: "char slice"
  ir_SessionToken :: string
  ir_Trigger :: "SessionTrigger option"

record OperationRequest =
  or_Instance :: InstanceRef
  or_Operation :: string
  or_Payload :: "char slice"

record PluginStatus =
  ps_ID :: string
  ps_Desired :: bool
  ps_Phase :: Phase
  ps_Running :: bool
  ps_Healthy :: bool
  ps_HealthMisses :: int
  ps_ExitCount :: nat
  ps_RetryAt :: gotime
  ps_LastErrorCode :: ErrorCode
  ps_LastErrorAt :: gotime
  ps_SessionLifecycleErrorCode :: ErrorCode
  ps_SessionLifecycleErrorAt :: gotime

record interactiveSession =
  is_generation :: u64
  is_token :: string

record pendingSessionCleanup =
  pc_instanceID :: string
  pc_generation :: u64
  pc_token :: string

text \<open>What \<open>errors.Is\<close> and \<open>errors.AsType\<close> find in an error of a start or of a call.\<close>

record call_error =
  ce_OutcomeUnknown :: bool
  ce_InvalidArgument :: bool
  ce_PermanentStart :: bool

datatype sup_error = ErrPluginNotConfigured | ErrPluginUnavailable | ErrUnsupportedKind | ErrTokenRequired
  | ErrSessionCleanupLimit | ErrContext | ErrStop | ErrCall call_error | Joined "sup_error list"

text \<open>The log: first what the supervisor does to a child, then its callbacks.\<close>

datatype host_effect =
    ChildStarted nat Spec
  | CallInvoke nat InvokeRequest
  | CallEndSession nat pendingSessionCleanup
  | CallReplaceInstances nat "Instance slice"
  | CallSessionInput nat SessionInputRequest int \<comment> \<open>with its timeout\<close>
  | CallOperation nat OperationRequest
  | CallPing nat
  | CallStop nat
  | ChildGone nat
  | NilDereference
  | CbStarted string u64
  | CbWithdrawGeneration string u64
  | CbWithdrawInstance string string u64
  | CbSessionInvalidated string string u64 string SessionInvalidationReason
  | CbSessionCleanup string u64 gotime nat ErrorCode
  | CbSessionCompleted string InstanceRef string

record sup_env =
  se_start :: "nat \<Rightarrow> call_error option"
  se_call :: "nat \<Rightarrow> call_error option"
  se_input :: "nat \<Rightarrow> SessionInputDisposition"
  se_operation :: "nat \<Rightarrow> char slice"
  se_ping :: "nat \<Rightarrow> bool option" \<comment> \<open>the reported health, None an error\<close>
  se_stop :: "nat \<Rightarrow> bool" \<comment> \<open>Stop returned no error\<close>
  se_reaped :: "nat \<Rightarrow> bool" \<comment> \<open>the child was reaped before the deadline\<close>
  se_now :: "nat \<Rightarrow> gotime"
  se_jitter :: "nat \<Rightarrow> float64"
  se_healthInterval :: int
  se_WithdrawGeneration :: bool \<comment> \<open>which callbacks are not nil\<close>
  se_WithdrawInstance :: bool
  se_SessionCompleted :: bool
  se_SessionInvalidated :: bool
  se_SessionCleanup :: bool
  se_Started :: bool

subsection \<open>State (supervisor.go)\<close>

record supervisor =
  su_id :: string
  su_status :: PluginStatus
  su_exits :: "gotime list"
  su_desired :: bool
  su_spec :: Spec
  su_child :: "nat option"
  su_childSpec :: Spec
  su_childReaped :: "nat option"
  su_stopping :: bool
  su_postStop :: postStopAction
  su_runID :: u64
  su_sessions :: "(string \<times> interactiveSession) list"
  su_pendingCleanups :: "pendingSessionCleanup list"
  su_phase :: Phase
  su_healthy :: bool
  su_healthMisses :: int
  su_healthTimer :: "int option" \<comment> \<open>the delay of an armed timer\<close>
  su_retryTimer :: "int option"
  su_retryAt :: gotime
  su_retryAttempt :: int
  su_lastErrorCode :: ErrorCode
  su_lastErrorAt :: gotime
  su_sessionErrorCode :: ErrorCode
  su_sessionErrorAt :: gotime
  su_shutdownErr :: "sup_error option"
  su_completions :: "(InstanceRef \<times> string) list"
  su_done :: bool
  su_childIncarnation :: u64 \<comment> \<open>the counters of the manager\<close>
  su_cleanupSequence :: u64
  su_notified :: bool \<comment> \<open>the manager's \<open>changes\<close> holds a token\<close>
  su_ticks :: nat
  su_log :: "host_effect list"

definition zero_spec :: Spec where
  "zero_spec = \<lparr>sx_ID = '''', sx_Version = '''', sx_Executable = '''', sx_Args = None, sx_SHA256 = '''',
     sx_ProtocolVersion = '''', sx_ExecutionModes = None, sx_Channels = None, sx_Operations = None, sx_Instances = None\<rparr>"

definition newStatus :: "string \<Rightarrow> PluginStatus" where
  "newStatus i = \<lparr>ps_ID = i, ps_Desired = False, ps_Phase = PhaseStopped, ps_Running = False, ps_Healthy = False,
     ps_HealthMisses = 0, ps_ExitCount = 0, ps_RetryAt = zero_time, ps_LastErrorCode = NoErrorCode,
     ps_LastErrorAt = zero_time, ps_SessionLifecycleErrorCode = NoErrorCode, ps_SessionLifecycleErrorAt = zero_time\<rparr>"

definition newSupervisor :: "string \<Rightarrow> supervisor" where
  "newSupervisor i =
     \<lparr>su_id = i, su_status = newStatus i, su_exits = [], su_desired = False, su_spec = zero_spec, su_child = None,
      su_childSpec = zero_spec, su_childReaped = None, su_stopping = False, su_postStop = postStopNone, su_runID = 0,
      su_sessions = [], su_pendingCleanups = [], su_phase = PhaseStopped, su_healthy = False, su_healthMisses = 0,
      su_healthTimer = None, su_retryTimer = None, su_retryAt = zero_time, su_retryAttempt = 0,
      su_lastErrorCode = NoErrorCode, su_lastErrorAt = zero_time, su_sessionErrorCode = NoErrorCode,
      su_sessionErrorAt = zero_time, su_shutdownErr = None, su_completions = [], su_done = False,
      su_childIncarnation = 0, su_cleanupSequence = 0, su_notified = False, su_ticks = 0, su_log = []\<rparr>"

text \<open>The interactions with the outside.\<close>

definition tick :: "supervisor \<Rightarrow> supervisor" where
  "tick s = s\<lparr>su_ticks := Suc (su_ticks s)\<rparr>"

definition emit :: "host_effect \<Rightarrow> supervisor \<Rightarrow> supervisor" where
  "emit x s = s\<lparr>su_log := su_log s @ [x]\<rparr>"

definition child_call :: "sup_env \<Rightarrow> (nat \<Rightarrow> host_effect) \<Rightarrow> supervisor \<Rightarrow> call_error option \<times> supervisor" where
  "child_call e x s =
     (case su_child s of None \<Rightarrow> (None, emit NilDereference s)
      | Some k \<Rightarrow> (se_call e (su_ticks s), emit (x k) (tick s)))"

text \<open>\<open>errors.Join\<close>\<close>

definition join_errors :: "sup_error option \<Rightarrow> sup_error option \<Rightarrow> sup_error option" where
  "join_errors a b =
     (case (a, b) of (None, None) \<Rightarrow> None | (Some x, None) \<Rightarrow> Some (Joined [x])
      | (None, Some y) \<Rightarrow> Some (Joined [y]) | (Some x, Some y) \<Rightarrow> Some (Joined [x, y]))"

subsection \<open>Status and specifications (supervisor\_state.go)\<close>

definition elems :: "'a slice \<Rightarrow> 'a list" where
  "elems xs = (case xs of None \<Rightarrow> [] | Some ys \<Rightarrow> ys)"

definition publish :: "supervisor \<Rightarrow> supervisor" where
  "publish s = s\<lparr>
     su_status := \<lparr>ps_ID = su_id s, ps_Desired = su_desired s, ps_Phase = su_phase s, ps_Running = su_child s \<noteq> None,
       ps_Healthy = (su_child s \<noteq> None \<and> su_healthy s), ps_HealthMisses = su_healthMisses s, ps_ExitCount = 0,
       ps_RetryAt = su_retryAt s, ps_LastErrorCode = su_lastErrorCode s, ps_LastErrorAt = su_lastErrorAt s,
       ps_SessionLifecycleErrorCode = su_sessionErrorCode s, ps_SessionLifecycleErrorAt = su_sessionErrorAt s\<rparr>,
     su_notified := True\<rparr>"

definition prune_exits :: "gotime \<Rightarrow> gotime list \<Rightarrow> gotime list" where
  "prune_exits cutoff = filter (\<lambda>value. \<not> time_before value cutoff)"

definition snapshot_status :: "sup_env \<Rightarrow> supervisor \<Rightarrow> PluginStatus \<times> supervisor" where
  "snapshot_status e s =
     (let cutoff = time_add (se_now e (su_ticks s)) (- failureWindow);
          s = (tick s)\<lparr>su_exits := prune_exits cutoff (su_exits s)\<rparr>
      in ((su_status s)\<lparr>ps_ExitCount := length (su_exits s)\<rparr>, s))"

definition startupChanged :: "Spec \<Rightarrow> Spec \<Rightarrow> bool" where
  "startupChanged a b \<longleftrightarrow> sx_Version a \<noteq> sx_Version b \<or> sx_Executable a \<noteq> sx_Executable b \<or> sx_SHA256 a \<noteq> sx_SHA256 b
     \<or> sx_Args a \<noteq> sx_Args b \<or> sx_ExecutionModes a \<noteq> sx_ExecutionModes b \<or> sx_Channels a \<noteq> sx_Channels b
     \<or> sx_Operations a \<noteq> sx_Operations b"

text \<open>The copies of values are the values; only a nil list of instances becomes an empty one.\<close>

definition cloneInstances :: "Instance slice \<Rightarrow> Instance slice" where
  "cloneInstances instances = Some (elems instances)"

definition cloneSpec :: "Spec \<Rightarrow> Spec" where
  "cloneSpec spec = spec\<lparr>sx_Instances := cloneInstances (sx_Instances spec)\<rparr>"

definition hasExecutionMode :: "ExecutionMode slice \<Rightarrow> ExecutionMode \<Rightarrow> bool" where
  "hasExecutionMode values wanted \<longleftrightarrow> wanted \<in> set (elems values)"

definition resident :: "supervisor \<Rightarrow> bool" where
  "resident s \<longleftrightarrow> hasExecutionMode (sx_ExecutionModes (su_spec s)) ExecutionModeResident"

definition wantsChild :: "supervisor \<Rightarrow> bool" where
  "wantsChild s \<longleftrightarrow> resident s \<or> length (su_sessions s) > 0"

fun find_generation :: "string \<Rightarrow> Instance list \<Rightarrow> u64 option" where
  "find_generation i [] = None"
| "find_generation i (x # xs) = (if pi_ID x = i then Some (pi_Generation x) else find_generation i xs)"

definition instanceGeneration :: "string \<Rightarrow> supervisor \<Rightarrow> u64 option" where
  "instanceGeneration i s = find_generation i (elems (sx_Instances (su_spec s)))"

subsection \<open>Retries (supervisor\_retry.go)\<close>

definition setError :: "sup_env \<Rightarrow> ErrorCode \<Rightarrow> supervisor \<Rightarrow> supervisor" where
  "setError e code s = publish ((tick s)\<lparr>su_lastErrorCode := code, su_lastErrorAt := se_now e (su_ticks s)\<rparr>)"

definition cancelHealth :: "supervisor \<Rightarrow> supervisor" where
  "cancelHealth s = s\<lparr>su_healthTimer := None\<rparr>"

definition scheduleHealth :: "sup_env \<Rightarrow> supervisor \<Rightarrow> supervisor" where
  "scheduleHealth e s = (cancelHealth s)\<lparr>su_healthTimer := Some (se_healthInterval e)\<rparr>"

definition cancelRetry :: "supervisor \<Rightarrow> supervisor" where
  "cancelRetry s = s\<lparr>su_retryTimer := None\<rparr>"

definition cancelTimers :: "supervisor \<Rightarrow> supervisor" where
  "cancelTimers s = cancelRetry (cancelHealth s)"

definition addExit :: "gotime \<Rightarrow> supervisor \<Rightarrow> nat \<times> supervisor" where
  "addExit t s =
     (let exits = prune_exits (time_add t (- failureWindow)) (su_exits s) @ [t]
      in (length exits, s\<lparr>su_exits := exits\<rparr>))"

definition clearExits :: "supervisor \<Rightarrow> supervisor" where
  "clearExits s = s\<lparr>su_exits := []\<rparr>"

definition queuePostStop :: "postStopAction \<Rightarrow> supervisor \<Rightarrow> supervisor" where
  "queuePostStop action s =
     (if action = postStopRetry \<or> su_postStop s = postStopNone then s\<lparr>su_postStop := action\<rparr> else s)"

definition clearPostStop :: "supervisor \<Rightarrow> supervisor" where
  "clearPostStop s = s\<lparr>su_postStop := postStopNone\<rparr>"

definition scheduleRetry :: "sup_env \<Rightarrow> supervisor \<Rightarrow> supervisor" where
  "scheduleRetry e s =
     (let attempt = int64 (su_retryAttempt s + 1);
          delay = jitteredDelay (backoffDelay attempt) (se_jitter e (su_ticks s));
          s = (tick s)\<lparr>su_retryAttempt := attempt, su_phase := PhaseBackoff\<rparr>;
          s = (tick s)\<lparr>su_retryAt := time_add (se_now e (su_ticks s)) delay, su_retryTimer := Some delay\<rparr>
      in publish s)"

definition recordFailure :: "sup_env \<Rightarrow> ErrorCode \<Rightarrow> supervisor \<Rightarrow> supervisor" where
  "recordFailure e code s =
     (let s = cancelRetry ((tick s)\<lparr>su_lastErrorCode := code, su_lastErrorAt := se_now e (su_ticks s)\<rparr>)
      in if su_stopping s
         then publish ((queuePostStop postStopRetry s)\<lparr>su_phase := PhaseStopping, su_retryAt := zero_time\<rparr>)
         else scheduleRetry e s)"

definition quarantine :: "sup_env \<Rightarrow> ErrorCode \<Rightarrow> supervisor \<Rightarrow> supervisor" where
  "quarantine e code s =
     publish ((tick (cancelRetry s))\<lparr>su_lastErrorCode := code, su_lastErrorAt := se_now e (su_ticks s),
       su_phase := PhaseQuarantined, su_retryAt := zero_time\<rparr>)"

definition clearFailures :: "supervisor \<Rightarrow> supervisor" where
  "clearFailures s =
     (let s = cancelRetry ((clearExits (s\<lparr>su_retryAttempt := 0\<rparr>))\<lparr>su_lastErrorCode := NoErrorCode,
                su_lastErrorAt := zero_time, su_healthMisses := 0\<rparr>)
      in publish (s\<lparr>su_phase := (if su_stopping s then PhaseStopping
                                 else if su_child s \<noteq> None then PhaseRunning else PhaseStopped),
                    su_retryAt := zero_time\<rparr>))"

subsection \<open>Sessions and their cleanup (supervisor\_sessions.go)\<close>

definition setSessionCleanupError :: "sup_env \<Rightarrow> supervisor \<Rightarrow> supervisor" where
  "setSessionCleanupError e s =
     (tick s)\<lparr>su_sessionErrorCode := ErrorCodeEndSessionFailed, su_sessionErrorAt := se_now e (su_ticks s)\<rparr>"

definition clearSessionCleanupLifecycle :: "supervisor \<Rightarrow> supervisor" where
  "clearSessionCleanupLifecycle s = s\<lparr>su_sessionErrorCode := NoErrorCode, su_sessionErrorAt := zero_time\<rparr>"

definition clearSessionCleanupState :: "supervisor \<Rightarrow> supervisor" where
  "clearSessionCleanupState s = clearSessionCleanupLifecycle (s\<lparr>su_pendingCleanups := []\<rparr>)"

definition emitSessionCleanup :: "sup_env \<Rightarrow> supervisor \<Rightarrow> supervisor" where
  "emitSessionCleanup e s =
     (if \<not> se_SessionCleanup e then s
      else let s = s\<lparr>su_cleanupSequence := su_cleanupSequence s + 1\<rparr>
           in emit (CbSessionCleanup (su_id s) (su_cleanupSequence s) (time_utc (se_now e (su_ticks s)))
                     (length (su_pendingCleanups s)) (su_sessionErrorCode s)) (tick s))"

definition invalidateSession ::
    "sup_env \<Rightarrow> SessionInvalidationReason \<Rightarrow> string \<Rightarrow> interactiveSession \<Rightarrow> supervisor \<Rightarrow> supervisor" where
  "invalidateSession e reason i session s =
     (let s = s\<lparr>su_sessions := AList.delete i (su_sessions s)\<rparr>
      in if se_SessionInvalidated e
         then emit (CbSessionInvalidated (su_id s) i (is_generation session) (is_token session) reason) s else s)"

definition invalidateSessions :: "sup_env \<Rightarrow> SessionInvalidationReason \<Rightarrow> supervisor \<Rightarrow> supervisor" where
  "invalidateSessions e reason s =
     fold (\<lambda>(i, session) s. invalidateSession e reason i session s) (su_sessions s) s"

definition pruneSessions :: "sup_env \<Rightarrow> supervisor \<Rightarrow> supervisor" where
  "pruneSessions e s =
     fold (\<lambda>(i, session) s.
             case instanceGeneration i s of
               None \<Rightarrow> invalidateSession e SessionInvalidatedGeneration i session s
             | Some current \<Rightarrow> if current \<noteq> is_generation session
                               then invalidateSession e SessionInvalidatedGeneration i session s else s)
          (su_sessions s) s"

subsection \<open>Starting and stopping the child (supervisor\_lifecycle.go)\<close>

fun withdraw_loop :: "u64 list \<Rightarrow> Instance list \<Rightarrow> supervisor \<Rightarrow> supervisor" where
  "withdraw_loop seen [] s = s"
| "withdraw_loop seen (x # xs) s =
     (if pi_Generation x \<in> set seen then withdraw_loop seen xs s
      else withdraw_loop (pi_Generation x # seen) xs (emit (CbWithdrawGeneration (su_id s) (pi_Generation x)) s))"

definition withdraw :: "sup_env \<Rightarrow> Spec \<Rightarrow> supervisor \<Rightarrow> supervisor" where
  "withdraw e spec s = (if se_WithdrawGeneration e then withdraw_loop [] (elems (sx_Instances spec)) s else s)"

fun replaced_loop ::
    "sup_env \<Rightarrow> (string \<times> u64) list \<Rightarrow> u64 list \<Rightarrow> u64 list \<Rightarrow> Instance list \<Rightarrow> supervisor \<Rightarrow> u64 list \<times> supervisor" where
  "replaced_loop e remaining generations removed [] s = (removed, s)"
| "replaced_loop e remaining generations removed (x # xs) s =
     (if map_of remaining (pi_ID x) = Some (pi_Generation x) then replaced_loop e remaining generations removed xs s
      else if se_WithdrawInstance e
      then replaced_loop e remaining generations removed xs (emit (CbWithdrawInstance (su_id s) (pi_ID x) (pi_Generation x)) s)
      else if pi_Generation x \<in> set generations then replaced_loop e remaining generations removed xs s
      else replaced_loop e remaining generations (List.insert (pi_Generation x) removed) xs s)"

definition withdrawReplacedInstances :: "sup_env \<Rightarrow> Spec \<Rightarrow> Spec \<Rightarrow> supervisor \<Rightarrow> supervisor" where
  "withdrawReplacedInstances e previous next_spec s =
     (if \<not> se_WithdrawGeneration e \<and> \<not> se_WithdrawInstance e then s
      else let following = elems (sx_Instances next_spec);
               remaining = fold (\<lambda>x m. AList.update (pi_ID x) (pi_Generation x) m) following [];
               (removed, s) = replaced_loop e remaining (map pi_Generation following) [] (elems (sx_Instances previous)) s
           in fold (\<lambda>g s. emit (CbWithdrawGeneration (su_id s) g) s) removed s)"

definition startChild :: "sup_env \<Rightarrow> supervisor \<Rightarrow> bool \<times> supervisor" where
  "startChild e s =
     (if \<not> su_desired s \<or> su_child s \<noteq> None \<or> su_stopping s \<or> su_phase s = PhaseQuarantined then (False, s)
      else let s = publish (s\<lparr>su_phase := PhaseStarting, su_retryAt := zero_time\<rparr>); k = su_ticks s; s = tick s
           in case se_start e k of
                Some err \<Rightarrow>
                  (False, if ce_PermanentStart err
                          then quarantine e (if ce_InvalidArgument err then ErrorCodeConfigurationRejected
                                             else ErrorCodeUnsupportedPlatform) s
                          else recordFailure e ErrorCodeStartFailed s)
              | None \<Rightarrow>
                  let s = emit (ChildStarted k (cloneSpec (su_spec s))) (s\<lparr>su_child := Some k, su_childReaped := Some k\<rparr>);
                      s = emitSessionCleanup e (clearSessionCleanupState s);
                      s = s\<lparr>su_childSpec := cloneSpec (su_spec s), su_runID := su_runID s + 1, su_phase := PhaseRunning,
                            su_healthy := True, su_healthMisses := 0, su_retryAt := zero_time\<rparr>;
                      s = publish (scheduleHealth e s);
                      s = s\<lparr>su_childIncarnation := su_childIncarnation s + 1\<rparr>
                  in (True, if se_Started e then emit (CbStarted (su_id s) (su_childIncarnation s)) s else s))"

definition finishStop :: "sup_env \<Rightarrow> supervisor \<Rightarrow> postStopAction \<times> supervisor" where
  "finishStop e s =
     (case su_child s of None \<Rightarrow> (postStopNone, s)
      | Some k \<Rightarrow>
          let action = su_postStop s; stoppedSpec = su_childSpec s;
              s = emit (ChildGone k) (s\<lparr>su_runID := su_runID s + 1, su_child := None, su_childReaped := None,
                                        su_stopping := False\<rparr>);
              s = (clearPostStop s)\<lparr>su_healthy := False\<rparr>;
              s = emitSessionCleanup e (clearSessionCleanupState s);
              s = withdraw e stoppedSpec s
          in (action, publish (s\<lparr>su_phase := PhaseStopped\<rparr>)))"

definition continueAfterStop :: "sup_env \<Rightarrow> postStopAction \<Rightarrow> supervisor \<Rightarrow> supervisor" where
  "continueAfterStop e action s =
     (if \<not> su_desired s \<or> \<not> wantsChild s then s
      else case action of postStopRetry \<Rightarrow> scheduleRetry e s
           | postStopRestart \<Rightarrow> snd (startChild e s) | postStopNone \<Rightarrow> s)"

definition awaitStop :: "sup_env \<Rightarrow> supervisor \<Rightarrow> sup_error option \<times> supervisor" where
  "awaitStop e s =
     (if \<not> su_stopping s \<or> su_child s = None then (None, s)
      else if se_reaped e (su_ticks s) then (None, snd (finishStop e (tick s))) else (Some ErrContext, tick s))"

definition stopCurrent :: "sup_env \<Rightarrow> supervisor \<Rightarrow> sup_error option \<times> supervisor" where
  "stopCurrent e s =
     (case su_child s of None \<Rightarrow> (None, s)
      | Some k \<Rightarrow>
          let s = (if su_stopping s then s
                   else publish ((cancelHealth s)\<lparr>su_stopping := True, su_phase := PhaseStopping\<rparr>));
              stopped = se_stop e (su_ticks s);
              s = emit (CallStop k) (tick s);
              (err, s) =
                (if stopped then awaitStop e s
                 else (Some ErrStop,
                       if se_reaped e (su_ticks s)
                       then case finishStop e (tick s) of (action, s) \<Rightarrow> continueAfterStop e action s
                       else tick s))
          in (err, if err \<noteq> None then setError e ErrorCodeStopFailed s else s))"

text \<open>\<open>exited\<close>, for the exit of the child with this run.\<close>

definition child_exited :: "sup_env \<Rightarrow> supervisor \<Rightarrow> supervisor" where
  "child_exited e s =
     (let gone = (case su_child s of None \<Rightarrow> s | Some k \<Rightarrow> emit (ChildGone k) s);
          s = (cancelHealth gone)\<lparr>su_child := None, su_healthy := False\<rparr>;
          s = withdraw e (su_childSpec s) (emitSessionCleanup e (clearSessionCleanupState s));
          (exitCount, s) = addExit (se_now e (su_ticks s)) (tick s);
          s = invalidateSessions e SessionInvalidatedExit s
      in if \<not> su_desired s then publish (s\<lparr>su_phase := PhaseStopped\<rparr>)
         else let s = cancelRetry ((tick s)\<lparr>su_lastErrorCode := ErrorCodeUnexpectedExit, su_lastErrorAt := se_now e (su_ticks s)\<rparr>)
              in if exitCount \<ge> 5 then publish (s\<lparr>su_phase := PhaseQuarantined, su_retryAt := zero_time\<rparr>)
                 else scheduleRetry e s)"

definition exited :: "sup_env \<Rightarrow> u64 \<Rightarrow> supervisor \<Rightarrow> supervisor" where
  "exited e runID s =
     (if su_child s = None \<or> runID \<noteq> su_runID s then s
      else if su_stopping s then case finishStop e s of (action, s) \<Rightarrow> continueAfterStop e action s
      else child_exited e s)"

subsection \<open>Failing closed and pending cleanups (supervisor\_sessions.go)\<close>

definition failAmbiguousLifecycle :: "sup_env \<Rightarrow> ErrorCode \<Rightarrow> SessionInvalidationReason \<Rightarrow> supervisor \<Rightarrow> supervisor" where
  "failAmbiguousLifecycle e code reason s =
     recordFailure e code (snd (stopCurrent e (invalidateSessions e reason s)))"

definition failClosedSessionCleanup :: "sup_env \<Rightarrow> supervisor \<Rightarrow> supervisor" where
  "failClosedSessionCleanup e s =
     (let s = invalidateSessions e SessionInvalidatedReplaced s;
          wanted = resident s;
          s = (if wanted then queuePostStop postStopRestart s else s);
          (err, s) = stopCurrent e s
      in if err \<noteq> None then s else if wanted then snd (startChild e s) else s)"

definition hasPendingSessionCleanup :: "pendingSessionCleanup \<Rightarrow> supervisor \<Rightarrow> bool" where
  "hasPendingSessionCleanup cleanup s \<longleftrightarrow> cleanup \<in> set (su_pendingCleanups s)"

definition removePendingSessionCleanup :: "pendingSessionCleanup \<Rightarrow> supervisor \<Rightarrow> supervisor" where
  "removePendingSessionCleanup cleanup s = s\<lparr>su_pendingCleanups := remove1 cleanup (su_pendingCleanups s)\<rparr>"

definition enqueueSessionCleanup ::
    "sup_env \<Rightarrow> pendingSessionCleanup \<Rightarrow> supervisor \<Rightarrow> sup_error option \<times> supervisor" where
  "enqueueSessionCleanup e cleanup s =
     (if su_child s = None then (None, s)
      else if hasPendingSessionCleanup cleanup s
      then (None, emitSessionCleanup e (publish (setSessionCleanupError e s)))
      else if length (su_pendingCleanups s) \<ge> maxPendingSessionCleanups
      then (Some ErrSessionCleanupLimit,
            failClosedSessionCleanup e (emitSessionCleanup e (publish (setSessionCleanupError e s))))
      else let s = s\<lparr>su_pendingCleanups := su_pendingCleanups s @ [cleanup]\<rparr>
           in (None, emitSessionCleanup e (publish (setSessionCleanupError e s))))"

definition deliverSessionCleanup ::
    "sup_env \<Rightarrow> pendingSessionCleanup \<Rightarrow> supervisor \<Rightarrow> sup_error option \<times> supervisor" where
  "deliverSessionCleanup e cleanup s =
     (if su_child s = None then (None, s)
      else case child_call e (\<lambda>k. CallEndSession k cleanup) s of
             (None, s) \<Rightarrow>
               let s = removePendingSessionCleanup cleanup s;
                   s = (if length (su_pendingCleanups s) = 0 then clearSessionCleanupLifecycle s else s)
               in (None, emitSessionCleanup e (publish s))
           | (Some err, s) \<Rightarrow>
               if ce_OutcomeUnknown err
               then (Some (ErrCall err), failAmbiguousLifecycle e ErrorCodeEndSessionFailed SessionInvalidatedReplaced s)
               else if \<not> hasPendingSessionCleanup cleanup s
               then case enqueueSessionCleanup e cleanup s of
                      (Some queueErr, s) \<Rightarrow> (Some queueErr, s)
                    | (None, s) \<Rightarrow> (Some (ErrCall err), s)
               else (Some (ErrCall err), publish (setSessionCleanupError e s)))"

definition retryPendingSessionCleanup :: "sup_env \<Rightarrow> supervisor \<Rightarrow> supervisor" where
  "retryPendingSessionCleanup e s =
     (case su_pendingCleanups s of [] \<Rightarrow> s
      | cleanup # rest \<Rightarrow>
          if su_child s = None then emitSessionCleanup e (publish (clearSessionCleanupState s))
          else case child_call e (\<lambda>k. CallEndSession k cleanup) s of
                 (Some err, s) \<Rightarrow>
                   if ce_OutcomeUnknown err
                   then failAmbiguousLifecycle e ErrorCodeEndSessionFailed SessionInvalidatedReplaced s
                   else let s = (if length (su_pendingCleanups s) > 1 then s\<lparr>su_pendingCleanups := rest @ [cleanup]\<rparr> else s)
                        in emitSessionCleanup e (publish (setSessionCleanupError e s))
               | (None, s) \<Rightarrow>
                   let s = s\<lparr>su_pendingCleanups := rest\<rparr>;
                       s = (if length (su_pendingCleanups s) = 0 then clearSessionCleanupLifecycle s else s)
                   in emitSessionCleanup e (publish s))"

subsection \<open>Applying a specification (supervisor\_lifecycle.go) and retries\<close>

definition replaceChildInstances :: "sup_env \<Rightarrow> supervisor \<Rightarrow> call_error option \<times> supervisor" where
  "replaceChildInstances e s =
     (case child_call e (\<lambda>k. CallReplaceInstances k (cloneInstances (sx_Instances (su_spec s)))) s of
        (Some err, s) \<Rightarrow> (Some err, s)
      | (None, s) \<Rightarrow>
          (None, (withdrawReplacedInstances e (su_childSpec s) (su_spec s) s)\<lparr>su_childSpec := cloneSpec (su_spec s)\<rparr>))"

text \<open>The branches of \<open>apply\<close> and \<open>handleRetry\<close> after a failed replacement.\<close>

definition reconcileFailed :: "sup_env \<Rightarrow> call_error \<Rightarrow> supervisor \<Rightarrow> supervisor" where
  "reconcileFailed e err s =
     (if ce_OutcomeUnknown err then failAmbiguousLifecycle e ErrorCodeReconcileFailed SessionInvalidatedReplaced s
      else if ce_InvalidArgument err then quarantine e ErrorCodeConfigurationRejected s
      else recordFailure e ErrorCodeReconcileFailed s)"

definition apply_finish :: "sup_env \<Rightarrow> supervisor \<Rightarrow> sup_error option \<times> supervisor" where
  "apply_finish e s =
     (let s = (if su_child s \<noteq> None then retryPendingSessionCleanup e s else s)
      in if su_child s \<noteq> None \<and> \<not> resident s \<and> length (su_sessions s) = 0 then stopCurrent e s
         else if su_child s = None \<and> wantsChild s \<and> su_phase s \<noteq> PhaseBackoff \<and> su_phase s \<noteq> PhaseQuarantined
         then (None, snd (startChild e s))
         else (None, publish s))"

definition apply_instances :: "sup_env \<Rightarrow> Spec \<Rightarrow> supervisor \<Rightarrow> sup_error option \<times> supervisor" where
  "apply_instances e spec s =
     (if su_child s \<noteq> None \<and> sx_Instances (su_childSpec s) \<noteq> sx_Instances spec
      then case replaceChildInstances e s of
             (Some err, s) \<Rightarrow> (Some (ErrCall err), reconcileFailed e err s)
           | (None, s) \<Rightarrow> apply_finish e (clearFailures s)
      else apply_finish e s)"

definition supervisor_apply :: "sup_env \<Rightarrow> Spec \<Rightarrow> supervisor \<Rightarrow> sup_error option \<times> supervisor" where
  "supervisor_apply e spec s =
     (let changed = (\<not> su_desired s \<or> su_spec s \<noteq> spec); old = su_spec s;
          s = (if changed then clearFailures s else s);
          s = pruneSessions e (s\<lparr>su_desired := True, su_spec := cloneSpec spec\<rparr>);
          (err, s) =
            (if su_stopping s then stopCurrent e (if wantsChild s then queuePostStop postStopRestart s else s)
             else (None, s))
      in if err \<noteq> None then (err, s)
         else let (err, s) =
                (if su_child s \<noteq> None \<and> startupChanged old spec
                 then let s = invalidateSessions e SessionInvalidatedReplaced s
                      in stopCurrent e (if wantsChild s then queuePostStop postStopRestart s else s)
                 else (None, s))
              in if err \<noteq> None then (err, s) else apply_instances e spec s)"

definition handleHealth :: "sup_env \<Rightarrow> supervisor \<Rightarrow> supervisor" where
  "handleHealth e s =
     (if \<not> su_desired s \<or> su_child s = None then s
      else let s = retryPendingSessionCleanup e s
           in case su_child s of None \<Rightarrow> s
              | Some k \<Rightarrow>
                  if su_stopping s then s
                  else let result = se_ping e (su_ticks s); s = emit (CallPing k) (tick s)
                       in case result of
                            Some healthy \<Rightarrow>
                              let s = s\<lparr>su_healthMisses := 0, su_retryAttempt := 0, su_healthy := healthy\<rparr>;
                                  s = (if healthy
                                       then let s = s\<lparr>su_phase := PhaseRunning\<rparr>
                                            in if su_lastErrorCode s = ErrorCodeHealthReported
                                               then s\<lparr>su_lastErrorCode := NoErrorCode, su_lastErrorAt := zero_time\<rparr> else s
                                       else (tick s)\<lparr>su_phase := PhaseUnhealthy, su_lastErrorCode := ErrorCodeHealthReported,
                                                     su_lastErrorAt := se_now e (su_ticks s)\<rparr>)
                              in publish (scheduleHealth e s)
                          | None \<Rightarrow>
                              let s = s\<lparr>su_healthMisses := su_healthMisses s + 1, su_healthy := False\<rparr>
                              in if su_healthMisses s < 3 then publish (scheduleHealth e s)
                                 else let s = publish (s\<lparr>su_phase := PhaseUnhealthy\<rparr>);
                                          s = invalidateSessions e SessionInvalidatedHealth s
                                      in recordFailure e ErrorCodeHealthTimeout (snd (stopCurrent e s)))"

definition handleRetry :: "sup_env \<Rightarrow> supervisor \<Rightarrow> supervisor" where
  "handleRetry e s =
     (let s = s\<lparr>su_retryAt := zero_time\<rparr>
      in if \<not> su_desired s \<or> su_phase s = PhaseQuarantined then s
         else if su_stopping s
         then publish ((queuePostStop postStopRetry s)\<lparr>su_phase := PhaseStopping\<rparr>)
         else if su_child s \<noteq> None \<and> sx_Instances (su_childSpec s) \<noteq> sx_Instances (su_spec s)
         then case replaceChildInstances e s of
                (Some err, s) \<Rightarrow> reconcileFailed e err s
              | (None, s) \<Rightarrow> retryPendingSessionCleanup e (clearFailures s)
         else if wantsChild s then snd (startChild e s)
         else publish (s\<lparr>su_phase := PhaseStopped\<rparr>))"

subsection \<open>Commands (supervisor\_sessions.go)\<close>

text \<open>The part of \<open>invoke\<close> that has a child.\<close>

definition invoke_child :: "sup_env \<Rightarrow> InvokeRequest \<Rightarrow> u64 \<Rightarrow> string \<Rightarrow> supervisor \<Rightarrow> sup_error option \<times> supervisor" where
  "invoke_child e request generation token s =
     (let i = ir_InstanceID request; previous = map_of (su_sessions s) i
      in case child_call e (\<lambda>k. CallInvoke k request) s of
           (Some err, s) \<Rightarrow>
             let s = (if ce_OutcomeUnknown err
                      then failAmbiguousLifecycle e ErrorCodeInvokeFailed SessionInvalidatedReplaced s
                      else setError e ErrorCodeInvokeFailed s)
             in (Some (ErrCall err),
                 if \<not> resident s \<and> length (su_sessions s) = 0 then snd (stopCurrent e s) else s)
         | (None, s) \<Rightarrow>
             let current = \<lparr>is_generation = generation, is_token = token\<rparr>;
                 (cleanupErr, s) =
                   (case previous of None \<Rightarrow> (None, s)
                    | Some p \<Rightarrow>
                        if p \<noteq> current
                        then deliverSessionCleanup e \<lparr>pc_instanceID = i, pc_generation = is_generation p, pc_token = is_token p\<rparr> s
                        else (None, s))
             in if cleanupErr = Some ErrSessionCleanupLimit then (Some ErrPluginUnavailable, s)
                else (None, s\<lparr>su_sessions := AList.update i current (su_sessions s)\<rparr>))"

definition invoke :: "sup_env \<Rightarrow> InvokeRequest \<Rightarrow> InvocationKind \<Rightarrow> string \<Rightarrow> supervisor \<Rightarrow> sup_error option \<times> supervisor" where
  "invoke e request kind token s =
     (if \<not> su_desired s then (Some ErrPluginNotConfigured, s)
      else if kind \<noteq> InvocationInteractive then (Some ErrUnsupportedKind, s)
      else if token = '''' then (Some ErrTokenRequired, s)
      else let request = request\<lparr>ir_SessionToken := token\<rparr>
      in if su_phase s \<in> {PhaseBackoff, PhaseQuarantined, PhaseStopping} then (Some ErrPluginUnavailable, s)
      else case instanceGeneration (ir_InstanceID request) s of None \<Rightarrow> (Some ErrPluginNotConfigured, s)
      | Some generation \<Rightarrow>
        if ir_Generation request = 0 \<or> ir_Generation request \<noteq> generation then (Some ErrPluginNotConfigured, s)
        else let (started, s) = (if su_child s = None then startChild e s else (True, s))
        in if \<not> started then (Some ErrPluginUnavailable, s) else invoke_child e request generation token s)"

definition supervisor_endSession :: "sup_env \<Rightarrow> bool \<Rightarrow> InstanceRef \<Rightarrow> string \<Rightarrow> supervisor \<Rightarrow> sup_error option \<times> supervisor" where
  "supervisor_endSession e canceled target token s =
     (let (endErr, s) =
        (if map_of (su_sessions s) (ref_ID target) = Some \<lparr>is_generation = ref_Generation target, is_token = token\<rparr>
         then let s = s\<lparr>su_sessions := AList.delete (ref_ID target) (su_sessions s)\<rparr>;
                  cleanup = \<lparr>pc_instanceID = ref_ID target, pc_generation = ref_Generation target, pc_token = token\<rparr>
              in if su_child s = None then (None, s)
                 else if canceled
                 then (case enqueueSessionCleanup e cleanup s of (err, s) \<Rightarrow> (join_errors (Some ErrContext) err, s))
                 else deliverSessionCleanup e cleanup s
         else (None, s))
      in if su_child s \<noteq> None \<and> \<not> resident s \<and> length (su_sessions s) = 0
         then case stopCurrent e s of (err, s) \<Rightarrow> (join_errors endErr err, s)
         else (endErr, publish s))"

definition completeSession :: "sup_env \<Rightarrow> InstanceRef \<Rightarrow> string \<Rightarrow> supervisor \<Rightarrow> (bool \<times> sup_error option) \<times> supervisor" where
  "completeSession e target token s =
     (if token = '''' then ((False, Some ErrTokenRequired), s)
      else let changed = (map_of (su_sessions s) (ref_ID target) =
                            Some \<lparr>is_generation = ref_Generation target, is_token = token\<rparr>);
               s = (if changed then s\<lparr>su_sessions := AList.delete (ref_ID target) (su_sessions s)\<rparr> else s)
           in if su_child s \<noteq> None \<and> \<not> resident s \<and> length (su_sessions s) = 0
              then case stopCurrent e s of (err, s) \<Rightarrow> ((changed, err), s)
              else ((changed, None), publish s))"

definition handleCompletion :: "sup_env \<Rightarrow> InstanceRef \<Rightarrow> string \<Rightarrow> supervisor \<Rightarrow> sup_error option \<times> supervisor" where
  "handleCompletion e target token s =
     (case completeSession e target token s of
        ((changed, err), s) \<Rightarrow>
          (err, if changed \<and> se_SessionCompleted e then emit (CbSessionCompleted (su_id s) target token) s else s))"

definition supervisor_restart :: "sup_env \<Rightarrow> supervisor \<Rightarrow> sup_error option \<times> supervisor" where
  "supervisor_restart e s =
     (if \<not> su_desired s then (Some ErrPluginNotConfigured, s)
      else if su_phase s = PhaseQuarantined \<and> su_lastErrorCode s = ErrorCodeUnsupportedPlatform
      then (Some ErrPluginUnavailable, s)
      else let s = invalidateSessions e SessionInvalidatedReplaced (clearFailures s);
               wanted = resident s;
               (err, s) =
                 (if su_child s \<noteq> None then stopCurrent e (if wanted then s\<lparr>su_postStop := postStopRestart\<rparr> else s)
                  else (None, s))
           in if err \<noteq> None then (err, s)
              else if wanted then (None, snd (startChild e s)) else (None, publish (s\<lparr>su_phase := PhaseStopped\<rparr>)))"

definition sessionInputTimeout :: "SessionInputRequest \<Rightarrow> int" where
  "sessionInputTimeout request =
     (case in_Button (req_Input request) of None \<Rightarrow> eventTimeout
      | Some button \<Rightarrow> if bi_Action button = ButtonPress \<and> bi_Button button \<in> {ButtonOK, ButtonStart}
                       then sessionActionTimeout else eventTimeout)"

definition supervisor_sessionInput :: "sup_env \<Rightarrow> SessionInputRequest \<Rightarrow> supervisor
    \<Rightarrow> (SessionInputDisposition option \<times> sup_error option) \<times> supervisor" where
  "supervisor_sessionInput e request s =
     (if \<not> su_desired s \<or> su_child s = None then ((None, Some ErrPluginNotConfigured), s)
      else if su_phase s = PhaseStopping then ((None, Some ErrPluginUnavailable), s)
      else case map_of (su_sessions s) (ref_ID (req_Instance request)) of
             None \<Rightarrow> ((None, Some ErrPluginNotConfigured), s)
           | Some session \<Rightarrow>
               if is_generation session \<noteq> ref_Generation (req_Instance request) \<or> is_token session \<noteq> req_SessionToken request
               then ((None, Some ErrPluginNotConfigured), s)
               else let result = se_input e (su_ticks s)
                    in case child_call e (\<lambda>k. CallSessionInput k request (sessionInputTimeout request)) s of
                         (None, s) \<Rightarrow> ((Some result, None), s)
                       | (Some err, s) \<Rightarrow>
                           ((Some result, Some (ErrCall err)),
                            if ce_OutcomeUnknown err
                            then failAmbiguousLifecycle e ErrorCodeSessionInputFailed SessionInvalidatedInput s
                            else let s = setError e ErrorCodeSessionInputFailed s;
                                     s = invalidateSession e SessionInvalidatedInput (ref_ID (req_Instance request)) session s
                                 in if \<not> resident s then snd (stopCurrent e s) else s))"

definition operationDeclared :: "OperationDescriptor slice \<Rightarrow> string \<Rightarrow> bool" where
  "operationDeclared descriptors i \<longleftrightarrow> (\<exists>d \<in> set (elems descriptors). op_ID d = i)"

definition operation_child :: "sup_env \<Rightarrow> OperationRequest \<Rightarrow> supervisor \<Rightarrow> (char slice \<times> sup_error option) \<times> supervisor" where
  "operation_child e request s =
     (let result = se_operation e (su_ticks s);
          (err, s) = child_call e (\<lambda>k. CallOperation k request) s;
          s = (if err \<noteq> None then setError e ErrorCodeOperationFailed s else s)
      in if \<not> resident s \<and> length (su_sessions s) = 0
         then case stopCurrent e s of (stopErr, s) \<Rightarrow> ((result, join_errors (map_option ErrCall err) stopErr), s)
         else ((result, map_option ErrCall err), s))"

definition operation :: "sup_env \<Rightarrow> OperationRequest \<Rightarrow> supervisor \<Rightarrow> (char slice \<times> sup_error option) \<times> supervisor" where
  "operation e request s =
     (if \<not> su_desired s \<or> su_phase s \<in> {PhaseBackoff, PhaseQuarantined, PhaseStopping} then ((None, Some ErrPluginUnavailable), s)
      else case instanceGeneration (ref_ID (or_Instance request)) s of
             None \<Rightarrow> ((None, Some ErrPluginNotConfigured), s)
           | Some generation \<Rightarrow>
               if \<not> operationDeclared (sx_Operations (su_spec s)) (or_Operation request) \<or> ref_Generation (or_Instance request) \<noteq> generation
               then ((None, Some ErrPluginNotConfigured), s)
               else let (started, s) = (if su_child s = None then startChild e s else (True, s))
                    in if \<not> started then ((None, Some ErrPluginUnavailable), s) else operation_child e request s)"

subsection \<open>The loop (supervisor.go)\<close>

definition shutdownNow :: "sup_env \<Rightarrow> supervisor \<Rightarrow> supervisor" where
  "shutdownNow e s =
     (let s = invalidateSessions e SessionInvalidatedDisabled (clearPostStop (s\<lparr>su_desired := False\<rparr>));
          (err, s) = stopCurrent e (cancelTimers s);
          s = s\<lparr>su_shutdownErr := err\<rparr>;
          s = (if su_stopping s \<and> su_childReaped s \<noteq> None then snd (finishStop e s) else s)
      in publish (s\<lparr>su_phase := PhaseStopped, su_retryAt := zero_time\<rparr>))"

definition admitCompletion :: "bool \<Rightarrow> InstanceRef \<Rightarrow> string \<Rightarrow> supervisor \<Rightarrow> sup_error option \<times> supervisor" where
  "admitCompletion canceled target token s =
     (if canceled then (Some ErrContext, s)
      else if length (su_completions s) < supervisorQueueCapacity
      then (None, s\<lparr>su_completions := su_completions s @ [(target, token)]\<rparr>)
      else (Some ErrPluginUnavailable, s))"

datatype command =
    applyCommand Spec
  | invokeCommand InvokeRequest InvocationKind string
  | endSessionCommand InstanceRef string
  | completeSessionCommand InstanceRef string
  | restartCommand
  | sessionInputCommand SessionInputRequest
  | operationCommand OperationRequest
  | exitCommand u64

definition handle :: "sup_env \<Rightarrow> bool \<Rightarrow> command \<Rightarrow> supervisor \<Rightarrow> supervisor" where
  "handle e canceled value s =
     (case value of
        applyCommand spec \<Rightarrow> snd (supervisor_apply e spec s)
      | invokeCommand request kind token \<Rightarrow> snd (invoke e request kind token s)
      | endSessionCommand target token \<Rightarrow> snd (supervisor_endSession e canceled target token s)
      | completeSessionCommand target token \<Rightarrow> snd (handleCompletion e target token s)
      | restartCommand \<Rightarrow> snd (supervisor_restart e s)
      | sessionInputCommand request \<Rightarrow> snd (supervisor_sessionInput e request s)
      | operationCommand request \<Rightarrow> snd (operation e request s)
      | exitCommand runID \<Rightarrow> exited e runID s)"

text \<open>
  One turn of \<open>run\<close>, or one of the two methods that other goroutines call. The loop prefers a shutdown and
  then a completion to the rest; the machine allows every order. A command whose context has ended is
  answered and dropped, but the end of a session and the exit of the child are always handled.
\<close>

datatype sup_event = EvShutdown | EvHealth | EvRetry | EvCompletion | EvCommand bool command
  | EvAdmit bool InstanceRef string | EvSnapshot

fun always_handled :: "command \<Rightarrow> bool" where
  "always_handled (endSessionCommand _ _) = True"
| "always_handled (exitCommand _) = True"
| "always_handled _ = False"

definition sup_step :: "sup_env \<Rightarrow> sup_event \<Rightarrow> supervisor \<Rightarrow> supervisor option" where
  "sup_step e ev s =
     (if su_done s then None
      else case ev of
        EvShutdown \<Rightarrow> Some ((shutdownNow e s)\<lparr>su_done := True\<rparr>)
      | EvHealth \<Rightarrow> (case su_healthTimer s of None \<Rightarrow> None | Some _ \<Rightarrow> Some (handleHealth e (s\<lparr>su_healthTimer := None\<rparr>)))
      | EvRetry \<Rightarrow> (case su_retryTimer s of None \<Rightarrow> None | Some _ \<Rightarrow> Some (handleRetry e (s\<lparr>su_retryTimer := None\<rparr>)))
      | EvCompletion \<Rightarrow>
          (case su_completions s of [] \<Rightarrow> None
           | (target, token) # rest \<Rightarrow> Some (snd (handleCompletion e target token (s\<lparr>su_completions := rest\<rparr>))))
      | EvCommand canceled value \<Rightarrow> Some (if canceled \<and> \<not> always_handled value then s else handle e canceled value s)
      | EvAdmit canceled target token \<Rightarrow> Some (snd (admitCompletion canceled target token s))
      | EvSnapshot \<Rightarrow> Some (snd (snapshot_status e s)))"

end
