(* ===== verification/Supervision.thy ===== *)
theory Supervision
  imports Supervisor
begin

text \<open>
  The properties of the supervisor of a plugin process, for every environment and every order of events.
\<close>

subsection \<open>What the loops append to the log\<close>

named_theorems sup_prim \<comment> \<open>unfolds the operations that only assign fields\<close>

definition cleanup_log :: "sup_env \<Rightarrow> supervisor \<Rightarrow> host_effect list" where
  "cleanup_log e s =
     (if se_SessionCleanup e
      then [CbSessionCleanup (su_id s) (su_cleanupSequence s + 1) (time_utc (se_now e (su_ticks s)))
              (length (su_pendingCleanups s)) (su_sessionErrorCode s)] else [])"

lemma emitSessionCleanup_eq:
  "emitSessionCleanup e s =
     s\<lparr>su_cleanupSequence := (if se_SessionCleanup e then su_cleanupSequence s + 1 else su_cleanupSequence s),
       su_ticks := (if se_SessionCleanup e then Suc (su_ticks s) else su_ticks s), su_log := su_log s @ cleanup_log e s\<rparr>"
  by (simp add: emitSessionCleanup_def cleanup_log_def Let_def emit_def tick_def)

lemma queuePostStop_eq:
  "queuePostStop action s =
     s\<lparr>su_postStop := (if action = postStopRetry \<or> su_postStop s = postStopNone then action else su_postStop s)\<rparr>"
  by (simp add: queuePostStop_def)

lemma emit_if: "(if b then emit x s else s) = s\<lparr>su_log := su_log s @ (if b then [x] else [])\<rparr>"
  by (simp add: emit_def)

lemmas [sup_prim] = emit_if tick_def emit_def publish_def setError_def cancelHealth_def scheduleHealth_def cancelRetry_def
  cancelTimers_def clearExits_def queuePostStop_eq clearPostStop_def scheduleRetry_def recordFailure_def quarantine_def
  clearFailures_def setSessionCleanupError_def clearSessionCleanupLifecycle_def clearSessionCleanupState_def
  emitSessionCleanup_eq removePendingSessionCleanup_def

text \<open>The generations of a list of instances, each at its first occurrence.\<close>

fun first_generations :: "u64 list \<Rightarrow> Instance list \<Rightarrow> u64 list" where
  "first_generations seen [] = []"
| "first_generations seen (x # xs) =
     (if pi_Generation x \<in> set seen then first_generations seen xs
      else pi_Generation x # first_generations (pi_Generation x # seen) xs)"

lemma set_first_generations: "set (first_generations seen xs) = pi_Generation ` set xs - set seen"
  by (induction seen xs rule: first_generations.induct) auto

lemma distinct_first_generations: "distinct (first_generations seen xs)"
  by (induction seen xs rule: first_generations.induct) (auto simp: set_first_generations)

definition withdraw_log :: "sup_env \<Rightarrow> Spec \<Rightarrow> string \<Rightarrow> host_effect list" where
  "withdraw_log e spec i =
     (if se_WithdrawGeneration e then map (CbWithdrawGeneration i) (first_generations [] (elems (sx_Instances spec))) else [])"

lemma withdraw_loop_log:
  "withdraw_loop seen xs s = s\<lparr>su_log := su_log s @ map (CbWithdrawGeneration (su_id s)) (first_generations seen xs)\<rparr>"
  by (induction seen xs s rule: withdraw_loop.induct) (auto simp: emit_def)

lemma withdraw_eq: "withdraw e spec s = s\<lparr>su_log := su_log s @ withdraw_log e spec (su_id s)\<rparr>"
  by (simp add: withdraw_def withdraw_log_def withdraw_loop_log)

fun is_callback :: "host_effect \<Rightarrow> bool" where
  "is_callback (CbStarted _ _) = True"
| "is_callback (CbWithdrawGeneration _ _) = True"
| "is_callback (CbWithdrawInstance _ _ _) = True"
| "is_callback (CbSessionInvalidated _ _ _ _ _) = True"
| "is_callback (CbSessionCleanup _ _ _ _ _) = True"
| "is_callback (CbSessionCompleted _ _ _) = True"
| "is_callback _ = False"

lemma cleanup_log_callbacks: "list_all is_callback (cleanup_log e s)"
  by (simp add: cleanup_log_def)

lemma withdraw_log_callbacks: "list_all is_callback (withdraw_log e spec i)"
  by (auto simp: withdraw_log_def list_all_iff)

lemma withdraw_removed_log:
  "fold (\<lambda>g s. emit (CbWithdrawGeneration (su_id s) g) s) gs s = s\<lparr>su_log := su_log s @ map (CbWithdrawGeneration (su_id s)) gs\<rparr>"
  by (induction gs arbitrary: s) (auto simp: emit_def)

lemma replaced_loop_log:
  "\<exists>l. list_all is_callback l \<and> snd (replaced_loop e remaining gens removed xs s) = s\<lparr>su_log := su_log s @ l\<rparr>"
proof (induction xs arbitrary: removed s)
  case Nil
  show ?case by (rule exI [of _ "[]"]) simp
next
  case (Cons x xs)
  have step: "\<exists>l. list_all is_callback l \<and>
      snd (replaced_loop e remaining gens removed xs (s\<lparr>su_log := su_log s @ [c]\<rparr>)) = s\<lparr>su_log := su_log s @ l\<rparr>"
    if "is_callback c" for c
  proof -
    obtain l where "list_all is_callback l"
      "snd (replaced_loop e remaining gens removed xs (s\<lparr>su_log := su_log s @ [c]\<rparr>)) = s\<lparr>su_log := su_log s @ c # l\<rparr>"
      using Cons.IH [of removed "s\<lparr>su_log := su_log s @ [c]\<rparr>"] by auto
    then show ?thesis using that by (intro exI [of _ "c # l"]) simp
  qed
  show ?case using Cons.IH step by (auto simp: emit_def)
qed

lemma withdrawReplacedInstances_log:
  "\<exists>l. list_all is_callback l \<and> withdrawReplacedInstances e a b s = s\<lparr>su_log := su_log s @ l\<rparr>"
proof (cases "\<not> se_WithdrawGeneration e \<and> \<not> se_WithdrawInstance e")
  case True
  then show ?thesis by (intro exI [of _ "[]"]) (simp add: withdrawReplacedInstances_def)
next
  case False
  define r where "r = replaced_loop e (fold (\<lambda>x m. AList.update (pi_ID x) (pi_Generation x) m) (elems (sx_Instances b)) [])
    (map pi_Generation (elems (sx_Instances b))) [] (elems (sx_Instances a)) s"
  obtain l where l: "list_all is_callback l" "snd r = s\<lparr>su_log := su_log s @ l\<rparr>"
    unfolding r_def using replaced_loop_log by blast
  have "withdrawReplacedInstances e a b s = s\<lparr>su_log := su_log s @ l @ map (CbWithdrawGeneration (su_id s)) (fst r)\<rparr>"
    using False l(2) unfolding withdrawReplacedInstances_def Let_def split_beta r_def [symmetric]
    by (simp add: withdraw_removed_log del: de_Morgan_conj)
  moreover have "list_all is_callback (l @ map (CbWithdrawGeneration (su_id s)) (fst r))"
    using l(1) by (auto simp: list_all_iff)
  ultimately show ?thesis by blast
qed

subsubsection \<open>Invalidated sessions\<close>

definition invalidation_log ::
    "sup_env \<Rightarrow> SessionInvalidationReason \<Rightarrow> string \<Rightarrow> (string \<times> interactiveSession) list \<Rightarrow> host_effect list" where
  "invalidation_log e reason p xs =
     (if se_SessionInvalidated e
      then map (\<lambda>(i, x). CbSessionInvalidated p i (is_generation x) (is_token x) reason) xs else [])"

lemma invalidate_fold:
  "fold (\<lambda>(i, session) s. invalidateSession e reason i session s) xs s =
     s\<lparr>su_sessions := fold (\<lambda>(i, _). AList.delete i) xs (su_sessions s), su_log := su_log s @ invalidation_log e reason (su_id s) xs\<rparr>"
  by (induction xs arbitrary: s) (auto simp: invalidateSession_def invalidation_log_def emit_def)

lemma fold_delete_filter: "fold (\<lambda>(i, _). AList.delete i) xs m = filter (\<lambda>(k, _). k \<notin> fst ` set xs) m"
proof (induction xs arbitrary: m)
  case (Cons x xs)
  then show ?case by (cases x) (auto simp: AList.delete_eq intro!: filter_cong)
qed (simp add: case_prod_unfold)

lemma invalidateSessions_eq:
  "invalidateSessions e reason s =
     s\<lparr>su_sessions := [], su_log := su_log s @ invalidation_log e reason (su_id s) (su_sessions s)\<rparr>"
proof -
  have "filter (\<lambda>(k, _). k \<notin> fst ` set (su_sessions s)) (su_sessions s) = []" by (force simp: filter_empty_conv)
  then show ?thesis by (simp only: invalidateSessions_def invalidate_fold fold_delete_filter)
qed

text \<open>The sessions whose instance has left the specification or has another generation.\<close>

definition outdated :: "supervisor \<Rightarrow> string \<times> interactiveSession \<Rightarrow> bool" where
  "outdated s x \<longleftrightarrow> instanceGeneration (fst x) s \<noteq> Some (is_generation (snd x))"

lemma pruneSessions_eq:
  "pruneSessions e s =
     s\<lparr>su_sessions := fold (\<lambda>(i, _). AList.delete i) (filter (outdated s) (su_sessions s)) (su_sessions s),
       su_log := su_log s @ invalidation_log e SessionInvalidatedGeneration (su_id s) (filter (outdated s) (su_sessions s))\<rparr>"
proof -
  let ?f = "\<lambda>(i, session) s. case instanceGeneration i s of
               None \<Rightarrow> invalidateSession e SessionInvalidatedGeneration i session s
             | Some current \<Rightarrow> if current \<noteq> is_generation session
                               then invalidateSession e SessionInvalidatedGeneration i session s else s"
  have step: "?f x t = (if outdated t x then (case x of (i, session) \<Rightarrow> invalidateSession e SessionInvalidatedGeneration i session t) else t)"
    for x t by (cases x) (auto simp: outdated_def split: option.splits)
  have same: "outdated (invalidateSession e r i session t) x = outdated t x" for r i session t x
    by (simp add: outdated_def instanceGeneration_def invalidateSession_def emit_def Let_def)
  have "fold ?f xs t = fold (\<lambda>(i, session) s. invalidateSession e SessionInvalidatedGeneration i session s) (filter (outdated t) xs) t" for xs t
  proof (induction xs arbitrary: t)
    case (Cons x xs)
    have "filter (outdated (?f x t)) xs = filter (outdated t) xs"
      by (rule filter_cong) (auto simp: step same split: prod.splits)
    then show ?case using Cons [of "?f x t"] by (simp only: fold_Cons o_apply filter.simps) (auto simp: step split: prod.splits)
  qed simp
  then show ?thesis by (simp only: pruneSessions_def invalidate_fold)
qed

subsection \<open>The life of a child\<close>

text \<open>
  An abstract machine for the children of a supervisor: at most one child at a time, nothing is sent to a
  child that is not there, and a child that was told to stop is sent nothing but the end of sessions and
  further stops. Its state is the child and whether it was told to stop.
\<close>

fun child_step :: "host_effect \<Rightarrow> nat option \<times> bool \<Rightarrow> (nat option \<times> bool) option" where
  "child_step (ChildStarted k _) (c, st) = (if c = None then Some (Some k, False) else None)"
| "child_step (CallInvoke k _) (c, st) = (if c = Some k \<and> \<not> st then Some (c, st) else None)"
| "child_step (CallEndSession k _) (c, st) = (if c = Some k then Some (c, st) else None)"
| "child_step (CallReplaceInstances k _) (c, st) = (if c = Some k \<and> \<not> st then Some (c, st) else None)"
| "child_step (CallSessionInput k _ _) (c, st) = (if c = Some k \<and> \<not> st then Some (c, st) else None)"
| "child_step (CallOperation k _) (c, st) = (if c = Some k \<and> \<not> st then Some (c, st) else None)"
| "child_step (CallPing k) (c, st) = (if c = Some k \<and> \<not> st then Some (c, st) else None)"
| "child_step (CallStop k) (c, st) = (if c = Some k then Some (c, True) else None)"
| "child_step (ChildGone k) (c, st) = (if c = Some k then Some (None, False) else None)"
| "child_step NilDereference _ = None"
| "child_step _ (c, st) = Some (c, st)"

definition obeys :: "host_effect list \<Rightarrow> nat option \<Rightarrow> bool \<Rightarrow> bool" where
  "obeys l c st \<longleftrightarrow> run_steps child_step l (None, False) = Some (c, st)"

lemma child_step_callback: "is_callback x \<Longrightarrow> child_step x a = Some a"
  by (cases a; cases x) auto

lemma run_callbacks: "list_all is_callback l \<Longrightarrow> run_steps child_step l a = Some a"
  by (induction l) (auto simp: child_step_callback)

lemma obeys_callbacks: "list_all is_callback m \<Longrightarrow> obeys l c st \<Longrightarrow> obeys (l @ m) c st"
  by (simp add: obeys_def run_steps_append run_callbacks)

lemma obeys_callback: "is_callback x \<Longrightarrow> obeys l c st \<Longrightarrow> obeys (l @ [x]) c st"
  by (rule obeys_callbacks) simp

lemma obeys_step: "obeys l c st \<Longrightarrow> child_step x (c, st) = Some (c', st') \<Longrightarrow> obeys (l @ [x]) c' st'"
  by (simp add: obeys_def run_steps_append)

subsection \<open>The invariant\<close>

definition life_ok :: "nat option \<Rightarrow> bool \<Rightarrow> nat option \<Rightarrow> Phase \<Rightarrow> int option \<Rightarrow> bool" where
  "life_ok c st reaped ph timer \<longleftrightarrow>
     (st \<longrightarrow> c \<noteq> None) \<and> (c \<noteq> None \<longrightarrow> reaped \<noteq> None) \<and> (st \<longleftrightarrow> ph = PhaseStopping) \<and>
     (ph = PhaseRunning \<or> ph = PhaseUnhealthy \<longrightarrow> c \<noteq> None) \<and> ph \<noteq> PhaseStarting \<and>
     (timer \<noteq> None \<longrightarrow> c \<noteq> None \<and> \<not> st)"

definition cleanups_ok :: "nat option \<Rightarrow> pendingSessionCleanup list \<Rightarrow> bool" where
  "cleanups_ok c pending \<longleftrightarrow>
     (c = None \<longrightarrow> pending = []) \<and> length pending \<le> maxPendingSessionCleanups \<and> distinct pending"

definition misses_ok :: "int \<Rightarrow> bool" where
  "misses_ok n \<longleftrightarrow> 0 \<le> n \<and> n \<le> 3"

definition sup_core :: "supervisor \<Rightarrow> bool" where
  "sup_core s \<longleftrightarrow>
     obeys (su_log s) (su_child s) (su_stopping s) \<and>
     life_ok (su_child s) (su_stopping s) (su_childReaped s) (su_phase s) (su_healthTimer s) \<and>
     cleanups_ok (su_child s) (su_pendingCleanups s) \<and> misses_ok (su_healthMisses s) \<and>
     alist_wf (su_sessions s) \<and> length (su_completions s) \<le> supervisorQueueCapacity"

lemma cleanups_ok_Nil [simp]: "cleanups_ok c []"
  by (simp add: cleanups_ok_def)

lemma misses_ok_0 [simp]: "misses_ok 0"
  by (simp add: misses_ok_def)

lemma alist_wf_fold_delete: "alist_wf m \<Longrightarrow> alist_wf (fold (\<lambda>(i, _). AList.delete i) xs m)"
  by (simp add: fold_delete_filter alist_wf_filter)

lemma invalidation_log_callbacks: "list_all is_callback (invalidation_log e reason p xs)"
  by (auto simp: invalidation_log_def list_all_iff)

text \<open>How a log that grows is read: the effects of one operation are evaluated from the state before it.\<close>

lemma obeys_append: "obeys l c st \<Longrightarrow> obeys (l @ m) c' st' \<longleftrightarrow> run_steps child_step m (c, st) = Some (c', st')"
  by (simp add: obeys_def run_steps_append)

lemmas obeys_intros = obeys_append run_steps_append run_callbacks [OF withdraw_log_callbacks] run_callbacks [OF cleanup_log_callbacks]
  run_callbacks [OF invalidation_log_callbacks]

lemma sup_core_new: "sup_core (newSupervisor i)"
  by (simp add: sup_core_def newSupervisor_def obeys_def life_ok_def)

lemma sup_core_setError: "sup_core s \<Longrightarrow> sup_core (setError e code s)"
  by (simp add: sup_core_def sup_prim)

lemma sup_core_publish: "sup_core s \<Longrightarrow> sup_core (publish s)"
  by (simp add: sup_core_def sup_prim)

lemma sup_core_tick: "sup_core s \<Longrightarrow> sup_core (tick s)"
  by (simp add: sup_core_def sup_prim)

lemma sup_core_recordFailure: "sup_core s \<Longrightarrow> sup_core (recordFailure e code s)"
  by (auto simp: sup_core_def sup_prim Let_def life_ok_def)

lemma sup_core_scheduleRetry: "sup_core s \<Longrightarrow> \<not> su_stopping s \<Longrightarrow> sup_core (scheduleRetry e s)"
  by (auto simp: sup_core_def sup_prim Let_def life_ok_def)

lemma sup_core_quarantine: "sup_core s \<Longrightarrow> \<not> su_stopping s \<Longrightarrow> sup_core (quarantine e code s)"
  by (auto simp: sup_core_def sup_prim Let_def life_ok_def)

lemma sup_core_clearFailures: "sup_core s \<Longrightarrow> sup_core (clearFailures s)"
  by (auto simp: sup_core_def sup_prim Let_def life_ok_def)

lemma sup_core_emitSessionCleanup: "sup_core s \<Longrightarrow> sup_core (emitSessionCleanup e s)"
  by (auto simp: sup_core_def sup_prim Let_def obeys_intros)

lemma sup_core_setSessionCleanupError: "sup_core s \<Longrightarrow> sup_core (setSessionCleanupError e s)"
  by (simp add: sup_core_def sup_prim)

lemma sup_core_queuePostStop: "sup_core s \<Longrightarrow> sup_core (queuePostStop a s)"
  by (simp add: sup_core_def sup_prim)

lemma sup_core_invalidateSessions: "sup_core s \<Longrightarrow> sup_core (invalidateSessions e reason s)"
  by (auto simp: sup_core_def invalidateSessions_eq obeys_intros)

lemma sup_core_pruneSessions: "sup_core s \<Longrightarrow> sup_core (pruneSessions e s)"
  by (auto simp: sup_core_def pruneSessions_eq obeys_intros alist_wf_fold_delete)

lemma sup_core_withdrawReplaced: "sup_core s \<Longrightarrow> sup_core (withdrawReplacedInstances e a b s)"
  using withdrawReplacedInstances_log [of e a b s] by (auto simp: sup_core_def obeys_callbacks)

text \<open>In the middle of an operation the phase may be stale; what is left of the invariant then.\<close>

definition core_idle :: "supervisor \<Rightarrow> bool" where
  "core_idle s \<longleftrightarrow> sup_core (s\<lparr>su_phase := PhaseStopped\<rparr>)"

lemma core_idleI: "sup_core s \<Longrightarrow> \<not> su_stopping s \<Longrightarrow> core_idle s"
  by (auto simp: core_idle_def sup_core_def life_ok_def)

lemma core_idle_not_stopping: "core_idle s \<Longrightarrow> \<not> su_stopping s"
  by (simp add: core_idle_def sup_core_def life_ok_def)

lemma core_idle_phase:
  "core_idle s \<Longrightarrow> p \<in> {PhaseStopped, PhaseBackoff, PhaseQuarantined} \<Longrightarrow> sup_core (s\<lparr>su_phase := p, su_retryAt := at'\<rparr>)"
  "core_idle s \<Longrightarrow> p \<in> {PhaseStopped, PhaseBackoff, PhaseQuarantined} \<Longrightarrow> sup_core (s\<lparr>su_phase := p\<rparr>)"
  by (auto simp: core_idle_def sup_core_def life_ok_def)

lemma core_idle_ends:
  assumes "core_idle s"
  shows "sup_core (scheduleRetry e s)" "sup_core (quarantine e code s)" "sup_core (recordFailure e code s)"
  using assms by (auto simp: core_idle_def sup_core_def sup_prim Let_def life_ok_def)

text \<open>The parts of \<open>startChild\<close>: the state during the start, and the state after a successful one.\<close>

definition may_start :: "supervisor \<Rightarrow> bool" where
  "may_start s \<longleftrightarrow> su_desired s \<and> su_child s = None \<and> \<not> su_stopping s \<and> su_phase s \<noteq> PhaseQuarantined"

definition starting :: "supervisor \<Rightarrow> supervisor" where
  "starting s = tick (publish (s\<lparr>su_phase := PhaseStarting, su_retryAt := zero_time\<rparr>))"

definition start_failed :: "sup_env \<Rightarrow> call_error \<Rightarrow> supervisor \<Rightarrow> supervisor" where
  "start_failed e err s =
     (if ce_PermanentStart err
      then quarantine e (if ce_InvalidArgument err then ErrorCodeConfigurationRejected else ErrorCodeUnsupportedPlatform) s
      else recordFailure e ErrorCodeStartFailed s)"

definition child_started :: "sup_env \<Rightarrow> nat \<Rightarrow> supervisor \<Rightarrow> supervisor" where
  "child_started e k s =
     (let s = emit (ChildStarted k (cloneSpec (su_spec s))) (s\<lparr>su_child := Some k, su_childReaped := Some k\<rparr>);
          s = emitSessionCleanup e (clearSessionCleanupState s);
          s = s\<lparr>su_childSpec := cloneSpec (su_spec s), su_runID := su_runID s + 1, su_phase := PhaseRunning,
                su_healthy := True, su_healthMisses := 0, su_retryAt := zero_time\<rparr>;
          s = publish (scheduleHealth e s);
          s = s\<lparr>su_childIncarnation := su_childIncarnation s + 1\<rparr>
      in if se_Started e then emit (CbStarted (su_id s) (su_childIncarnation s)) s else s)"

lemma startChild_eq:
  "startChild e s =
     (if \<not> may_start s then (False, s)
      else case se_start e (su_ticks s) of
             Some err \<Rightarrow> (False, start_failed e err (starting s))
           | None \<Rightarrow> (True, child_started e (su_ticks s) (starting s)))"
proof (cases "may_start s")
  case True
  have k: "su_ticks (publish (s\<lparr>su_phase := PhaseStarting, su_retryAt := zero_time\<rparr>)) = su_ticks s"
    by (simp add: publish_def)
  show ?thesis
    using True unfolding startChild_def may_start_def starting_def start_failed_def child_started_def
    by (simp only: Let_def k) (simp split: option.splits)
qed (auto simp: startChild_def may_start_def)

lemma sup_core_child_started: "core_idle s \<Longrightarrow> su_child s = None \<Longrightarrow> sup_core (child_started e k s)"
  by (auto simp: child_started_def sup_prim Let_def core_idle_def sup_core_def obeys_intros life_ok_def)

lemma core_idle_starting: "sup_core s \<Longrightarrow> may_start s \<Longrightarrow> core_idle (starting s) \<and> su_child (starting s) = None"
  by (auto simp: may_start_def starting_def core_idle_def sup_core_def sup_prim life_ok_def)

lemma sup_core_startChild: "sup_core s \<Longrightarrow> sup_core (snd (startChild e s))"
  by (auto simp: startChild_eq start_failed_def core_idle_ends core_idle_starting sup_core_child_started split: option.splits)

lemma sup_core_finishStop: "sup_core s \<Longrightarrow> su_stopping s \<Longrightarrow> sup_core (snd (finishStop e s))"
proof (cases "su_child s")
  case (Some k)
  assume "sup_core s" "su_stopping s"
  then show ?thesis
    using Some by (auto simp: finishStop_def withdraw_eq sup_prim Let_def sup_core_def life_ok_def obeys_intros)
qed (simp add: finishStop_def)

lemma finishStop_idle:
  "su_stopping s \<longrightarrow> su_child s \<noteq> None \<Longrightarrow> su_child (snd (finishStop e s)) = None \<and> \<not> su_stopping (snd (finishStop e s))"
  by (cases "su_child s") (auto simp: finishStop_def withdraw_eq sup_prim Let_def)

lemma sup_core_stopping: "sup_core s \<Longrightarrow> su_stopping s \<Longrightarrow> su_child s \<noteq> None"
  by (auto simp: sup_core_def life_ok_def)

lemma sup_core_phase: "sup_core s \<Longrightarrow> su_phase s \<noteq> PhaseStopping \<Longrightarrow> \<not> su_stopping s"
  by (auto simp: sup_core_def life_ok_def)

lemma sup_core_continueAfterStop: "sup_core s \<Longrightarrow> \<not> su_stopping s \<Longrightarrow> sup_core (continueAfterStop e action s)"
  by (cases action) (simp_all add: continueAfterStop_def sup_core_scheduleRetry sup_core_startChild)

lemma sup_core_afterStop:
  "sup_core s \<Longrightarrow> su_stopping s \<Longrightarrow> sup_core (case finishStop e s of (action, s) \<Rightarrow> continueAfterStop e action s)"
  using finishStop_idle [of s e] sup_core_stopping [of s] sup_core_finishStop [of s e]
  by (simp add: split_beta sup_core_continueAfterStop)

lemma tick_simps [simp]:
  "su_stopping (tick s) = su_stopping s" "su_child (tick s) = su_child s"
  by (simp_all add: tick_def)

lemma sup_core_awaitStop: "sup_core s \<Longrightarrow> sup_core (snd (awaitStop e s))"
  by (simp add: awaitStop_def sup_core_tick sup_core_finishStop)

text \<open>The state in which \<open>stopCurrent\<close> waits for the child.\<close>

definition stop_sent :: "supervisor \<Rightarrow> nat \<Rightarrow> supervisor" where
  "stop_sent s k =
     emit (CallStop k) (tick (if su_stopping s then s
       else publish ((cancelHealth s)\<lparr>su_stopping := True, su_phase := PhaseStopping\<rparr>)))"

lemma stopCurrent_eq:
  "stopCurrent e s =
     (case su_child s of None \<Rightarrow> (None, s)
      | Some k \<Rightarrow>
          let (err, t) =
                (if se_stop e (su_ticks s) then awaitStop e (stop_sent s k)
                 else (Some ErrStop,
                       if se_reaped e (su_ticks (stop_sent s k))
                       then case finishStop e (tick (stop_sent s k)) of (action, t) \<Rightarrow> continueAfterStop e action t
                       else tick (stop_sent s k)))
          in (err, if err \<noteq> None then setError e ErrorCodeStopFailed t else t))"
proof -
  have "su_ticks (if su_stopping s then s else publish ((cancelHealth s)\<lparr>su_stopping := True, su_phase := PhaseStopping\<rparr>)) = su_ticks s"
    by (simp add: sup_prim)
  then show ?thesis by (cases "su_child s") (simp_all only: stopCurrent_def stop_sent_def Let_def option.case)
qed

lemma stop_sent_simps [simp]:
  "su_child (stop_sent s k) = su_child s" "su_stopping (stop_sent s k)" "su_sessions (stop_sent s k) = su_sessions s"
  "su_desired (stop_sent s k) = su_desired s" "su_spec (stop_sent s k) = su_spec s" "su_postStop (stop_sent s k) = su_postStop s"
  by (simp_all add: stop_sent_def sup_prim)

lemma sup_core_stop_sent:
  assumes s: "sup_core s" "su_child s = Some k" shows "sup_core (stop_sent s k)"
  using s by (auto simp: sup_core_def stop_sent_def sup_prim life_ok_def obeys_intros)

lemma sup_core_stopCurrent: "sup_core s \<Longrightarrow> sup_core (snd (stopCurrent e s))"
  by (cases "su_child s")
     (simp_all add: stopCurrent_eq Let_def split_beta sup_core_stop_sent sup_core_awaitStop sup_core_setError
        sup_core_tick sup_core_afterStop [unfolded split_beta])

text \<open>The stages of the exit of a child: the child is gone, and its exit is counted.\<close>

definition exit_gone :: "sup_env \<Rightarrow> nat \<Rightarrow> supervisor \<Rightarrow> supervisor" where
  "exit_gone e k s =
     withdraw e (su_childSpec s) (emitSessionCleanup e (clearSessionCleanupState
       ((cancelHealth (emit (ChildGone k) s))\<lparr>su_child := None, su_healthy := False\<rparr>)))"

definition exit_counted :: "sup_env \<Rightarrow> supervisor \<Rightarrow> supervisor" where
  "exit_counted e s = invalidateSessions e SessionInvalidatedExit (snd (addExit (se_now e (su_ticks s)) (tick s)))"

definition exit_noted :: "sup_env \<Rightarrow> supervisor \<Rightarrow> supervisor" where
  "exit_noted e s =
     cancelRetry ((tick s)\<lparr>su_lastErrorCode := ErrorCodeUnexpectedExit, su_lastErrorAt := se_now e (su_ticks s)\<rparr>)"

lemma child_exited_eq:
  "su_child s = Some k \<Longrightarrow> child_exited e s =
     (let t = exit_gone e k s; u = exit_counted e t
      in if \<not> su_desired u then publish (u\<lparr>su_phase := PhaseStopped\<rparr>)
         else if fst (addExit (se_now e (su_ticks t)) (tick t)) \<ge> 5
         then publish ((exit_noted e u)\<lparr>su_phase := PhaseQuarantined, su_retryAt := zero_time\<rparr>)
         else scheduleRetry e (exit_noted e u))"
  by (simp add: child_exited_def exit_gone_def exit_counted_def exit_noted_def Let_def split_beta cancelHealth_def emit_def)

lemma exit_simps [simp]:
  "su_child (exit_gone e k s) = None" "su_stopping (exit_gone e k s) = su_stopping s" "su_desired (exit_gone e k s) = su_desired s"
  "su_spec (exit_gone e k s) = su_spec s" "su_exits (exit_gone e k s) = su_exits s"
  "su_child (exit_counted e s) = su_child s" "su_stopping (exit_counted e s) = su_stopping s" "su_desired (exit_counted e s) = su_desired s"
  "su_spec (exit_counted e s) = su_spec s" "su_sessions (exit_counted e s) = []"
  "su_child (exit_noted e s) = su_child s" "su_stopping (exit_noted e s) = su_stopping s" "su_desired (exit_noted e s) = su_desired s"
  "su_spec (exit_noted e s) = su_spec s" "su_sessions (exit_noted e s) = su_sessions s" "su_retryTimer (exit_noted e s) = None"
  by (simp_all add: exit_gone_def exit_counted_def exit_noted_def withdraw_eq invalidateSessions_eq addExit_def Let_def sup_prim)

lemma sup_core_child_exited:
  assumes s: "sup_core s" "su_child s = Some k" "\<not> su_stopping s"
  shows "sup_core (child_exited e s)"
proof -
  have t: "core_idle (exit_gone e k s)"
    using s by (auto simp: exit_gone_def withdraw_eq sup_prim core_idle_def sup_core_def life_ok_def obeys_intros)
  have u: "core_idle (exit_counted e t)" if "core_idle t" for t
    using that by (auto simp: exit_counted_def core_idle_def sup_core_def addExit_def invalidateSessions_eq tick_def Let_def obeys_intros)
  have v: "core_idle (exit_noted e t)" if "core_idle t" for t
    using that by (simp add: exit_noted_def core_idle_def sup_core_def sup_prim)
  show ?thesis
    using s(2) u [OF t] v [OF u [OF t]] by (simp add: child_exited_eq Let_def core_idle_phase core_idle_ends sup_core_publish)
qed

lemma sup_core_exited: "sup_core s \<Longrightarrow> sup_core (exited e runID s)"
  by (auto simp: exited_def sup_core_afterStop sup_core_child_exited)

subsubsection \<open>Calls, cleanups and failures\<close>

lemma child_call_core:
  assumes "sup_core s" "su_child s \<noteq> None" "\<And>k. child_step (x k) (Some k, su_stopping s) = Some (Some k, su_stopping s)"
  shows "sup_core (snd (child_call e x s))"
  using assms by (auto simp: child_call_def sup_core_def sup_prim obeys_intros)

lemma child_call_simps [simp]:
  "su_child (snd (child_call e x s)) = su_child s" "su_stopping (snd (child_call e x s)) = su_stopping s"
  "su_pendingCleanups (snd (child_call e x s)) = su_pendingCleanups s" "su_sessions (snd (child_call e x s)) = su_sessions s"
  "su_phase (snd (child_call e x s)) = su_phase s" "su_desired (snd (child_call e x s)) = su_desired s"
  "su_spec (snd (child_call e x s)) = su_spec s" "su_healthMisses (snd (child_call e x s)) = su_healthMisses s"
  "su_healthTimer (snd (child_call e x s)) = su_healthTimer s" "su_retryTimer (snd (child_call e x s)) = su_retryTimer s"
  "su_postStop (snd (child_call e x s)) = su_postStop s" "su_childSpec (snd (child_call e x s)) = su_childSpec s"
  "su_id (snd (child_call e x s)) = su_id s"
  by (simp_all add: child_call_def sup_prim split: option.splits)

lemma sup_core_failAmbiguous: "sup_core s \<Longrightarrow> sup_core (failAmbiguousLifecycle e code reason s)"
  by (simp add: failAmbiguousLifecycle_def sup_core_recordFailure sup_core_stopCurrent sup_core_invalidateSessions)

lemma sup_core_failClosed: "sup_core s \<Longrightarrow> sup_core (failClosedSessionCleanup e s)"
  by (simp add: failClosedSessionCleanup_def Let_def split_beta sup_core_stopCurrent sup_core_invalidateSessions
      sup_core_queuePostStop sup_core_startChild)

lemma sup_core_pending:
  "sup_core s \<Longrightarrow> su_child s \<noteq> None \<Longrightarrow> length p \<le> maxPendingSessionCleanups \<Longrightarrow> distinct p
    \<Longrightarrow> sup_core (s\<lparr>su_pendingCleanups := p\<rparr>)"
  by (auto simp: sup_core_def cleanups_ok_def)

lemma sup_core_pending_ok: "sup_core s \<Longrightarrow> cleanups_ok (su_child s) (su_pendingCleanups s)"
  by (simp add: sup_core_def)

lemma sup_core_clearLifecycle: "sup_core s \<Longrightarrow> sup_core (clearSessionCleanupLifecycle s)"
  by (simp add: sup_core_def sup_prim)

lemma sup_core_sessions: "sup_core s \<Longrightarrow> alist_wf m \<Longrightarrow> sup_core (s\<lparr>su_sessions := m\<rparr>)"
  by (simp add: sup_core_def)

lemma sup_core_wf: "sup_core s \<Longrightarrow> alist_wf (su_sessions s)"
  by (simp add: sup_core_def)

lemmas sup_core_basics = sup_core_publish sup_core_setError sup_core_emitSessionCleanup sup_core_setSessionCleanupError
  sup_core_clearLifecycle sup_core_sessions sup_core_stopCurrent sup_core_startChild sup_core_failAmbiguous sup_core_failClosed
  sup_core_recordFailure sup_core_clearFailures sup_core_invalidateSessions sup_core_queuePostStop

lemma sup_core_replaceChildInstances:
  "sup_core s \<Longrightarrow> su_child s \<noteq> None \<Longrightarrow> \<not> su_stopping s \<Longrightarrow> sup_core (snd (replaceChildInstances e s))"
proof -
  assume s: "sup_core s" "su_child s \<noteq> None" "\<not> su_stopping s"
  define r where "r = child_call e (\<lambda>k. CallReplaceInstances k (cloneInstances (sx_Instances (su_spec s)))) s"
  have "sup_core (snd r)" unfolding r_def using s by (intro child_call_core) simp_all
  then have "sup_core (snd r)" "sup_core ((withdrawReplacedInstances e a b (snd r))\<lparr>su_childSpec := sp\<rparr>)" for a b sp
    using sup_core_withdrawReplaced [of "snd r" e a b] by (simp_all add: sup_core_def)
  then show ?thesis by (cases r) (auto simp: replaceChildInstances_def simp flip: r_def split: option.splits)
qed

lemma withdrawReplaced_simps [simp]:
  "su_child (withdrawReplacedInstances e a b s) = su_child s" "su_stopping (withdrawReplacedInstances e a b s) = su_stopping s"
  "su_desired (withdrawReplacedInstances e a b s) = su_desired s" "su_spec (withdrawReplacedInstances e a b s) = su_spec s"
  "su_sessions (withdrawReplacedInstances e a b s) = su_sessions s" "su_phase (withdrawReplacedInstances e a b s) = su_phase s"
  "su_healthMisses (withdrawReplacedInstances e a b s) = su_healthMisses s"
  "su_healthTimer (withdrawReplacedInstances e a b s) = su_healthTimer s"
  "su_postStop (withdrawReplacedInstances e a b s) = su_postStop s"
  "su_retryTimer (withdrawReplacedInstances e a b s) = su_retryTimer s"
  using withdrawReplacedInstances_log [of e a b s] by auto

lemma replaceChildInstances_simps [simp]:
  "su_child (snd (replaceChildInstances e s)) = su_child s" "su_stopping (snd (replaceChildInstances e s)) = su_stopping s"
  "su_desired (snd (replaceChildInstances e s)) = su_desired s" "su_spec (snd (replaceChildInstances e s)) = su_spec s"
  "su_sessions (snd (replaceChildInstances e s)) = su_sessions s" "su_phase (snd (replaceChildInstances e s)) = su_phase s"
  "su_healthMisses (snd (replaceChildInstances e s)) = su_healthMisses s"
  "su_healthTimer (snd (replaceChildInstances e s)) = su_healthTimer s"
  "su_postStop (snd (replaceChildInstances e s)) = su_postStop s"
  "su_retryTimer (snd (replaceChildInstances e s)) = su_retryTimer s"
  by (simp_all add: replaceChildInstances_def child_call_def sup_prim split: option.splits)

text \<open>A stop that succeeds has ended the child.\<close>

lemma stopCurrent_done: "stopCurrent e s = (None, t) \<Longrightarrow> sup_core s \<Longrightarrow> su_child t = None \<and> \<not> su_stopping t"
proof (cases "su_child s")
  case None
  moreover assume "stopCurrent e s = (None, t)" "sup_core s"
  ultimately show ?thesis by (auto simp: stopCurrent_def dest: sup_core_stopping)
next
  case (Some k)
  moreover assume "stopCurrent e s = (None, t)" "sup_core s"
  ultimately show ?thesis
    using finishStop_idle [of "tick (stop_sent s k)" e]
    by (auto simp: stopCurrent_eq awaitStop_def Let_def split: if_splits)
qed

subsection \<open>A running child is watched, a wanted one is not forgotten\<close>

text \<open>The target of an operation: the desired state does not change.\<close>

definition goal_of :: "supervisor \<Rightarrow> bool \<times> Spec" where
  "goal_of s = (su_desired s, su_spec s)"

lemma goal_resident: "goal_of s = goal_of t \<Longrightarrow> su_desired s = su_desired t \<and> resident s = resident t"
  by (simp add: goal_of_def resident_def)

lemma goal_prims [simp]:
  "goal_of (publish s) = goal_of s" "goal_of (setError e code s) = goal_of s" "goal_of (tick s) = goal_of s"
  "goal_of (recordFailure e code s) = goal_of s" "goal_of (scheduleRetry e s) = goal_of s" "goal_of (quarantine e code s) = goal_of s"
  "goal_of (clearFailures s) = goal_of s" "goal_of (emitSessionCleanup e s) = goal_of s" "goal_of (queuePostStop a s) = goal_of s"
  "goal_of (setSessionCleanupError e s) = goal_of s" "goal_of (clearSessionCleanupLifecycle s) = goal_of s"
  "goal_of (clearSessionCleanupState s) = goal_of s" "goal_of (removePendingSessionCleanup c s) = goal_of s"
  "goal_of (invalidateSessions e reason s) = goal_of s" "goal_of (snd (child_call e x s)) = goal_of s"
  "goal_of (snd (replaceChildInstances e s)) = goal_of s" "goal_of (snd (finishStop e s)) = goal_of s" "goal_of (stop_sent s k) = goal_of s"
  by (simp_all add: goal_of_def sup_prim Let_def invalidateSessions_eq finishStop_def withdraw_eq stop_sent_def split: option.splits)

lemma goal_startChild [simp]: "goal_of (snd (startChild e s)) = goal_of s"
proof -
  have "goal_of (child_started e k (starting s)) = goal_of s" for k by (simp add: goal_of_def child_started_def starting_def sup_prim Let_def)
  moreover have "goal_of (start_failed e err (starting s)) = goal_of s" for err
    by (simp add: start_failed_def) (simp add: goal_of_def starting_def sup_prim)
  ultimately show ?thesis by (simp add: startChild_eq split: option.splits)
qed

lemma goal_stopCurrent [simp]: "goal_of (snd (stopCurrent e s)) = goal_of s"
proof -
  have "goal_of (continueAfterStop e a t) = goal_of t" for a t by (simp add: continueAfterStop_def split: postStopAction.splits)
  moreover have "goal_of (snd (awaitStop e t)) = goal_of t" for t by (simp add: awaitStop_def)
  ultimately show ?thesis by (simp add: stopCurrent_eq Let_def split_beta split: option.splits)
qed

lemma goal_fail [simp]:
  "goal_of (failAmbiguousLifecycle e code reason s) = goal_of s" "goal_of (failClosedSessionCleanup e s) = goal_of s"
  by (simp_all add: failAmbiguousLifecycle_def failClosedSessionCleanup_def Let_def split_beta)

text \<open>A child that was not told to stop has missed fewer than three pings, and its health timer is armed.\<close>

definition settled :: "bool \<Rightarrow> supervisor \<Rightarrow> bool" where
  "settled armed s \<longleftrightarrow>
     (su_child s \<noteq> None \<and> \<not> su_stopping s \<longrightarrow> su_healthMisses s < 3 \<and> (armed \<longrightarrow> su_healthTimer s \<noteq> None))"

text \<open>A resident plugin has a child, or a retry is scheduled, or it is quarantined; and when its child is
  stopping, what follows is decided.\<close>

definition kept :: "supervisor \<Rightarrow> bool" where
  "kept s \<longleftrightarrow>
     (su_desired s \<and> resident s \<longrightarrow>
        (su_child s = None \<longrightarrow> su_retryTimer s \<noteq> None \<or> su_phase s = PhaseQuarantined) \<and>
        (su_stopping s \<longrightarrow> su_postStop s \<noteq> postStopNone))"

lemma settled_prims:
  "settled a s \<Longrightarrow> settled a (publish s)" "settled a s \<Longrightarrow> settled a (setError e code s)"
  "settled a s \<Longrightarrow> settled a (tick s)" "settled a s \<Longrightarrow> settled a (recordFailure e code s)"
  "settled a s \<Longrightarrow> settled a (scheduleRetry e s)" "settled a s \<Longrightarrow> settled a (quarantine e code s)"
  "settled a s \<Longrightarrow> settled a (clearFailures s)" "settled a s \<Longrightarrow> settled a (emitSessionCleanup e s)"
  "settled a s \<Longrightarrow> settled a (queuePostStop p s)" "settled a s \<Longrightarrow> settled a (setSessionCleanupError e s)"
  "settled a s \<Longrightarrow> settled a (clearSessionCleanupLifecycle s)" "settled a s \<Longrightarrow> settled a (clearSessionCleanupState s)"
  "settled a s \<Longrightarrow> settled a (removePendingSessionCleanup c s)" "settled a s \<Longrightarrow> settled a (invalidateSessions e reason s)"
  "settled a s \<Longrightarrow> settled a (snd (child_call e x s))" "settled a s \<Longrightarrow> settled a (snd (replaceChildInstances e s))"
  "settled a s \<Longrightarrow> settled a (s\<lparr>su_sessions := m\<rparr>)" "settled a s \<Longrightarrow> settled a (s\<lparr>su_pendingCleanups := ps\<rparr>)"
  by (simp_all add: settled_def sup_prim Let_def invalidateSessions_eq)

lemma settled_startChild: "settled a s \<Longrightarrow> settled a (snd (startChild e s))"
proof -
  assume s: "settled a s"
  have "settled a (child_started e k t)" for k t by (simp add: settled_def child_started_def sup_prim Let_def)
  moreover have "settled a (start_failed e err (starting s))" for err
    unfolding start_failed_def using s by (auto simp: starting_def intro!: settled_prims) (simp_all add: settled_def)
  ultimately show ?thesis using s by (simp add: startChild_eq split: option.splits)
qed

lemma settled_idle: "su_child s = None \<or> su_stopping s \<Longrightarrow> settled a s"
  by (auto simp: settled_def)

lemma settled_afterStop:
  "sup_core s \<Longrightarrow> settled a (case finishStop e s of (action, t) \<Rightarrow> continueAfterStop e action t)"
  using settled_idle [of "snd (finishStop e s)" a] finishStop_idle [of s e] sup_core_stopping [of s]
  by (simp add: split_beta continueAfterStop_def settled_startChild settled_prims split: postStopAction.splits)

lemma settled_stopCurrent: "sup_core s \<Longrightarrow> settled a (snd (stopCurrent e s))"
proof (cases "su_child s")
  case (Some k)
  assume "sup_core s"
  then have t: "sup_core (tick (stop_sent s k))" using Some by (simp add: sup_core_stop_sent sup_core_tick)
  have "settled a (snd (awaitStop e (stop_sent s k)))"
    using finishStop_idle [of "tick (stop_sent s k)" e] Some by (auto simp: awaitStop_def intro!: settled_idle)
  then show ?thesis
    using settled_afterStop [OF t, of a e] settled_idle [of "tick (stop_sent s k)" a]
    by (simp add: Some stopCurrent_eq Let_def split_beta settled_prims)
qed (simp add: stopCurrent_def settled_def)

lemma settled_fail:
  "sup_core s \<Longrightarrow> settled a (failAmbiguousLifecycle e code reason s)" "sup_core s \<Longrightarrow> settled a (failClosedSessionCleanup e s)"
  by (auto simp: failAmbiguousLifecycle_def failClosedSessionCleanup_def Let_def split_beta sup_core_basics
      intro!: settled_prims settled_stopCurrent settled_startChild)

lemma kept_prims:
  "kept s \<Longrightarrow> kept (publish s)" "kept s \<Longrightarrow> kept (setError e code s)" "kept s \<Longrightarrow> kept (tick s)"
  "kept s \<Longrightarrow> kept (emitSessionCleanup e s)" "kept s \<Longrightarrow> kept (setSessionCleanupError e s)"
  "kept s \<Longrightarrow> kept (clearSessionCleanupLifecycle s)" "kept s \<Longrightarrow> kept (clearSessionCleanupState s)"
  "kept s \<Longrightarrow> kept (removePendingSessionCleanup c s)" "kept s \<Longrightarrow> kept (invalidateSessions e reason s)"
  "kept s \<Longrightarrow> kept (snd (child_call e x s))" "kept s \<Longrightarrow> kept (snd (replaceChildInstances e s))"
  "kept s \<Longrightarrow> kept (s\<lparr>su_sessions := m\<rparr>)" "kept s \<Longrightarrow> kept (s\<lparr>su_pendingCleanups := ps\<rparr>)"
  by (simp_all add: kept_def resident_def sup_prim Let_def invalidateSessions_eq)

lemma kept_recordFailure: "sup_core s \<Longrightarrow> kept (recordFailure e code s)"
  using sup_core_stopping [of s] by (auto simp: kept_def sup_prim Let_def)

lemma kept_scheduleRetry: "\<not> su_stopping s \<Longrightarrow> kept (scheduleRetry e s)"
  by (simp add: kept_def sup_prim Let_def)

lemma kept_quarantine: "kept s \<Longrightarrow> kept (quarantine e code s)"
  by (simp add: kept_def resident_def sup_prim)

lemma kept_startChild_may: "may_start s \<Longrightarrow> kept (snd (startChild e s))"
proof -
  assume m: "may_start s"
  then have st: "\<not> su_stopping (starting s)" by (simp add: may_start_def starting_def sup_prim)
  have "kept (child_started e k (starting s))" for k
    using st by (simp add: kept_def child_started_def sup_prim Let_def)
  moreover have "kept (start_failed e err (starting s))" for err
    using st by (simp add: kept_def start_failed_def sup_prim Let_def)
  ultimately show ?thesis using m by (simp add: startChild_eq split: option.splits)
qed

lemma kept_startChild: "kept s \<Longrightarrow> kept (snd (startChild e s))"
  using kept_startChild_may [of s e] by (cases "may_start s") (auto simp: startChild_eq)

lemma stopCurrent_stopped: "stopCurrent e s = (None, t) \<Longrightarrow> su_child s \<noteq> None \<Longrightarrow> su_phase t = PhaseStopped"
  by (auto simp: stopCurrent_eq awaitStop_def finishStop_def withdraw_eq sup_prim Let_def split: if_splits)

lemma kept_afterStop:
  assumes u: "su_child u = Some k" "su_stopping u" "su_desired u \<and> resident u \<Longrightarrow> su_postStop u \<noteq> postStopNone"
  shows "kept (case finishStop e u of (action, t) \<Rightarrow> continueAfterStop e action t)"
proof -
  define t where "t = snd (finishStop e u)"
  have f: "fst (finishStop e u) = su_postStop u" "goal_of t = goal_of u" "su_phase t = PhaseStopped"
    using u by (simp_all add: t_def) (simp_all add: finishStop_def sup_prim Let_def)
  have i: "su_child t = None \<and> \<not> su_stopping t" unfolding t_def using u by (intro finishStop_idle) simp
  have "kept (continueAfterStop e (su_postStop u) t)"
  proof (cases "su_desired u \<and> resident u")
    case True
    then show ?thesis
      using u(3) i f(3) goal_resident [OF f(2)] kept_startChild_may [of t e] kept_scheduleRetry [of t e]
      by (auto simp: continueAfterStop_def may_start_def wantsChild_def split: postStopAction.splits)
  next
    case False
    have "goal_of (continueAfterStop e (su_postStop u) t) = goal_of u"
      using f(2) by (simp add: continueAfterStop_def split: postStopAction.splits)
    from goal_resident [OF this] False show ?thesis by (auto simp: kept_def)
  qed
  then show ?thesis using f(1) by (simp add: split_beta flip: t_def)
qed

lemma kept_stop_failed:
  assumes s: "sup_core s" "su_desired s \<and> resident s \<Longrightarrow> su_postStop s \<noteq> postStopNone"
    and t: "stopCurrent e s = (Some err, t)"
  shows "kept t"
proof -
  obtain k where k: "su_child s = Some k" using t by (cases "su_child s") (auto simp: stopCurrent_def)
  define u where "u = tick (stop_sent s k)"
  have u: "su_child u = Some k" "su_stopping u" "su_postStop u = su_postStop s" "goal_of u = goal_of s"
    using k by (simp_all add: u_def) (simp add: tick_def)
  have p: "su_desired u \<and> resident u \<Longrightarrow> su_postStop u \<noteq> postStopNone"
    using u(3) s(2) goal_resident [OF u(4)] by auto
  then have "kept u" using u(1) by (auto simp: kept_def)
  then show ?thesis
    using t kept_afterStop [OF u(1,2) p, of e]
    by (auto simp: stopCurrent_eq k awaitStop_def Let_def split_beta kept_prims simp flip: u_def split: if_splits)
qed

text \<open>The invariant; while the health timer is being handled it is not armed.\<close>

definition sup_inv :: "bool \<Rightarrow> supervisor \<Rightarrow> bool" where
  "sup_inv armed s \<longleftrightarrow> sup_core s \<and> settled armed s \<and> kept s"

lemma sup_inv_core: "sup_inv a s \<Longrightarrow> sup_core s"
  by (simp add: sup_inv_def)

lemma sup_inv_settled: "sup_inv a s \<Longrightarrow> settled a s"
  by (simp add: sup_inv_def)

lemma sup_inv_prims:
  "sup_inv a s \<Longrightarrow> sup_inv a (publish s)" "sup_inv a s \<Longrightarrow> sup_inv a (setError e code s)"
  "sup_inv a s \<Longrightarrow> sup_inv a (emitSessionCleanup e s)" "sup_inv a s \<Longrightarrow> sup_inv a (setSessionCleanupError e s)"
  "sup_inv a s \<Longrightarrow> sup_inv a (clearSessionCleanupLifecycle s)" "sup_inv a s \<Longrightarrow> sup_inv a (invalidateSessions e reason s)"
  "sup_inv a s \<Longrightarrow> alist_wf m \<Longrightarrow> sup_inv a (s\<lparr>su_sessions := m\<rparr>)" "sup_inv a s \<Longrightarrow> sup_inv a (snd (startChild e s))"
  "sup_inv a s \<Longrightarrow> \<not> su_stopping s \<Longrightarrow> sup_inv a (quarantine e code s)"
  by (simp_all add: sup_inv_def sup_core_basics sup_core_quarantine settled_prims settled_startChild kept_prims kept_startChild
      kept_quarantine)

lemma sup_inv_recordFailure: "sup_core s \<Longrightarrow> settled a s \<Longrightarrow> sup_inv a (recordFailure e code s)"
  by (simp add: sup_inv_def sup_core_basics settled_prims kept_recordFailure)

lemma sup_inv_failAmbiguous: "sup_core s \<Longrightarrow> sup_inv a (failAmbiguousLifecycle e code reason s)"
  by (simp add: failAmbiguousLifecycle_def sup_inv_recordFailure sup_core_basics settled_stopCurrent)

lemma sup_inv_stop_failed:
  "sup_core s \<Longrightarrow> (su_desired s \<and> resident s \<Longrightarrow> su_postStop s \<noteq> postStopNone) \<Longrightarrow> stopCurrent e s = (Some err, t) \<Longrightarrow> sup_inv a t"
  using sup_core_stopCurrent [of s e] settled_stopCurrent [of s a e] kept_stop_failed [of s e err t] by (simp add: sup_inv_def)

text \<open>A stop of a plugin that is not resident, and a stop that is followed by a start.\<close>

lemma sup_inv_stop_interactive: "sup_core s \<Longrightarrow> \<not> resident s \<Longrightarrow> sup_inv a (snd (stopCurrent e s))"
  using goal_resident [OF goal_stopCurrent [of e s]]
  by (simp add: sup_inv_def sup_core_basics settled_stopCurrent kept_def)

lemma sup_inv_stop: "sup_inv a s \<Longrightarrow> \<not> resident s \<Longrightarrow> sup_inv a (snd (stopCurrent e s))"
  by (simp add: sup_inv_stop_interactive sup_inv_core)

lemma sup_inv_stop_start:
  assumes s: "sup_core s" "su_child s \<noteq> None" "su_desired s" and t: "stopCurrent e s = (None, t)"
  shows "sup_inv a (snd (startChild e t))"
proof -
  have "sup_core t" "settled a t" using sup_core_stopCurrent [OF s(1), of e] settled_stopCurrent [OF s(1), of a e] t by auto
  moreover have "may_start t"
    using stopCurrent_done [OF t s(1)] stopCurrent_stopped [OF t s(2)] goal_resident [OF goal_stopCurrent [of e s]] t s(3)
    by (simp add: may_start_def)
  ultimately show ?thesis by (simp add: sup_inv_def sup_core_basics settled_startChild kept_startChild_may)
qed

lemma queued_restart: "su_postStop (queuePostStop postStopRestart s) \<noteq> postStopNone"
  by (simp add: queuePostStop_def)

lemma resident_prims [simp]:
  "resident (queuePostStop p s) = resident s" "su_desired (queuePostStop p s) = su_desired s" "su_child (queuePostStop p s) = su_child s"
  by (simp_all add: resident_def queuePostStop_def)

lemma sup_inv_undesired: "sup_core s \<Longrightarrow> settled a s \<Longrightarrow> \<not> su_desired s \<Longrightarrow> sup_inv a s"
  by (simp add: sup_inv_def kept_def)

lemma sup_inv_failClosed: "sup_core s \<Longrightarrow> su_child s \<noteq> None \<Longrightarrow> sup_inv a (failClosedSessionCleanup e s)"
proof (cases "su_desired s")
  case False
  moreover assume "sup_core s"
  ultimately show ?thesis
    using goal_resident [OF goal_fail(2) [of e s]] by (simp add: sup_inv_undesired sup_core_basics settled_fail)
next
  case True
  moreover assume "sup_core s" "su_child s \<noteq> None"
  ultimately have s: "sup_core s" "su_child s \<noteq> None" "su_desired s" by simp_all
  define t where "t = invalidateSessions e SessionInvalidatedReplaced s"
  have t: "sup_core t" "su_child t \<noteq> None" "su_desired t"
    using s by (simp_all add: t_def sup_core_basics) (simp_all add: invalidateSessions_eq)
  define u where "u = (if resident t then queuePostStop postStopRestart t else t)"
  have u: "sup_core u" "su_child u \<noteq> None" "su_desired u" "resident u = resident t"
    using t by (simp_all add: u_def sup_core_basics)
  have "su_desired u \<and> resident u \<Longrightarrow> su_postStop u \<noteq> postStopNone"
    using u(4) queued_restart by (auto simp: u_def)
  note failed = sup_inv_stop_failed [OF u(1) this]
  have "sup_inv a (snd (stopCurrent e u))" if "\<not> resident t"
    using u that by (intro sup_inv_stop_interactive) simp_all
  then show ?thesis
    using failed sup_inv_stop_start [OF u(1-3)] unfolding failClosedSessionCleanup_def Let_def t_def [symmetric] u_def [symmetric]
    by (cases "stopCurrent e u") (auto split: if_splits)
qed

lemma sup_inv_pending:
  "sup_inv a s \<Longrightarrow> su_child s \<noteq> None \<Longrightarrow> length p \<le> maxPendingSessionCleanups \<Longrightarrow> distinct p
    \<Longrightarrow> sup_inv a (s\<lparr>su_pendingCleanups := p\<rparr>)"
  unfolding sup_inv_def by (simp add: sup_core_pending settled_prims kept_prims)

lemma sup_inv_child_call:
  assumes "sup_inv a s" "su_child s \<noteq> None" "\<And>k. child_step (x k) (Some k, su_stopping s) = Some (Some k, su_stopping s)"
  shows "sup_inv a (snd (child_call e x s))"
  using assms child_call_core [of s x e] by (simp add: sup_inv_def settled_prims kept_prims)

lemma prims_child [simp]:
  "su_child (publish s) = su_child s" "su_child (setSessionCleanupError e s) = su_child s" "su_child (emitSessionCleanup e s) = su_child s"
  by (simp_all add: sup_prim)

lemma sup_inv_enqueue: "sup_inv a s \<Longrightarrow> sup_inv a (snd (enqueueSessionCleanup e c s))"
  using sup_core_pending_ok [of s] sup_inv_core [of a s]
  by (auto simp: enqueueSessionCleanup_def Let_def hasPendingSessionCleanup_def cleanups_ok_def
      intro!: sup_inv_prims sup_inv_pending sup_inv_failClosed sup_core_basics)

lemma sup_inv_enqueueD: "enqueueSessionCleanup e c s = (err, t) \<Longrightarrow> sup_inv a s \<Longrightarrow> sup_inv a t"
  using sup_inv_enqueue [of a s e c] by simp

lemma sup_inv_deliver: "sup_inv a s \<Longrightarrow> sup_inv a (snd (deliverSessionCleanup e c s))"
proof -
  assume s: "sup_inv a s"
  define r where "r = child_call e (\<lambda>k. CallEndSession k c) s"
  have t: "sup_inv a (snd r)" if "su_child s \<noteq> None"
    unfolding r_def using s that by (rule sup_inv_child_call) simp
  have "sup_inv a (removePendingSessionCleanup c (snd r))" if "su_child s \<noteq> None"
    using t [OF that] that sup_core_pending_ok [OF sup_inv_core [OF s]]
    by (auto simp: removePendingSessionCleanup_def cleanups_ok_def length_remove1 r_def intro!: sup_inv_pending)
  then show ?thesis
    using t s by (cases r) (auto simp: deliverSessionCleanup_def Let_def sup_inv_prims sup_inv_failAmbiguous sup_inv_core
        dest: sup_inv_enqueueD simp flip: r_def split: option.splits prod.splits)
qed

lemma sup_inv_deliverD: "deliverSessionCleanup e c s = (err, t) \<Longrightarrow> sup_inv a s \<Longrightarrow> sup_inv a t"
  using sup_inv_deliver [of a s e c] by simp

lemma sup_inv_retryPending: "sup_inv a s \<Longrightarrow> sup_inv a (retryPendingSessionCleanup e s)"
proof (cases "su_pendingCleanups s")
  case (Cons c rest)
  assume s: "sup_inv a s"
  have k: "su_child s \<noteq> None" and p: "length (c # rest) \<le> maxPendingSessionCleanups" "distinct (c # rest)"
    using sup_core_pending_ok [OF sup_inv_core [OF s]] Cons by (auto simp: cleanups_ok_def)
  define r where "r = child_call e (\<lambda>k. CallEndSession k c) s"
  have t: "sup_inv a (snd r)" unfolding r_def using s k by (rule sup_inv_child_call) simp
  have r: "su_child (snd r) = su_child s" "su_pendingCleanups (snd r) = c # rest" by (simp_all add: r_def Cons)
  have "sup_inv a ((snd r)\<lparr>su_pendingCleanups := rest @ [c]\<rparr>)" "sup_inv a ((snd r)\<lparr>su_pendingCleanups := rest\<rparr>)"
    using t p r k by (auto intro!: sup_inv_pending)
  then show ?thesis
    using t r k by (cases r) (auto simp: retryPendingSessionCleanup_def Cons Let_def sup_inv_prims sup_inv_failAmbiguous sup_inv_core
        simp flip: r_def split: option.splits)
qed (simp add: retryPendingSessionCleanup_def)

subsection \<open>Every event keeps the invariant\<close>

text \<open>Between clearing the failures and starting again, a resident plugin without a child is stopped.\<close>

definition startable :: "supervisor \<Rightarrow> bool" where
  "startable s \<longleftrightarrow>
     (su_desired s \<and> resident s \<longrightarrow>
        (su_child s = None \<longrightarrow> su_retryTimer s \<noteq> None \<or> su_phase s = PhaseQuarantined \<or> su_phase s = PhaseStopped) \<and>
        (su_stopping s \<longrightarrow> su_postStop s \<noteq> postStopNone))"

lemma startable_kept: "su_child s \<noteq> None \<Longrightarrow> startable s \<longleftrightarrow> kept s" "kept s \<Longrightarrow> startable s"
  by (auto simp: startable_def kept_def)

lemma startable_stopped: "su_child s = None \<Longrightarrow> \<not> su_stopping s \<Longrightarrow> su_phase s = PhaseStopped \<Longrightarrow> startable s"
  by (simp add: startable_def)

lemma sup_inv_apply_finish:
  assumes s: "sup_core s" "settled True s" "startable s" "su_desired s"
  shows "sup_inv True (snd (apply_finish e s))"
proof (cases "su_child s = None")
  case True
  have "sup_inv True (snd (startChild e s))" if "su_phase s \<noteq> PhaseQuarantined"
    using that True s sup_core_stopping [OF s(1)]
    by (auto simp: sup_inv_def sup_core_basics settled_startChild may_start_def intro!: kept_startChild_may)
  moreover have "sup_inv True (publish s)" if "\<not> (wantsChild s \<and> su_phase s \<noteq> PhaseBackoff \<and> su_phase s \<noteq> PhaseQuarantined)"
    using that True s by (intro sup_inv_prims) (auto simp: sup_inv_def kept_def startable_def wantsChild_def)
  ultimately show ?thesis using True by (simp add: apply_finish_def Let_def)
next
  case False
  then have "sup_inv True s" using s by (simp add: sup_inv_def flip: startable_kept)
  then have t: "sup_inv True (retryPendingSessionCleanup e s)" by (rule sup_inv_retryPending)
  then show ?thesis
    using False by (simp add: apply_finish_def Let_def sup_inv_prims sup_inv_stop_interactive sup_inv_core)
qed

lemma sup_inv_reconcileFailed: "sup_inv a s \<Longrightarrow> \<not> su_stopping s \<Longrightarrow> sup_inv a (reconcileFailed e err s)"
  by (simp add: reconcileFailed_def sup_inv_failAmbiguous sup_inv_prims sup_inv_recordFailure sup_inv_core sup_inv_settled)

lemma sup_inv_replaceChildInstances:
  "sup_inv a s \<Longrightarrow> su_child s \<noteq> None \<Longrightarrow> \<not> su_stopping s \<Longrightarrow> sup_inv a (snd (replaceChildInstances e s))"
  by (simp add: sup_inv_def sup_core_replaceChildInstances settled_prims kept_prims)

lemma clearFailures_simps [simp]:
  "su_child (clearFailures s) = su_child s" "su_stopping (clearFailures s) = su_stopping s" "su_desired (clearFailures s) = su_desired s"
  "su_phase (clearFailures s) = (if su_stopping s then PhaseStopping else if su_child s \<noteq> None then PhaseRunning else PhaseStopped)"
  "su_spec (clearFailures s) = su_spec s"
  by (simp_all add: sup_prim Let_def)

lemma startable_clearFailures: "\<not> su_stopping s \<Longrightarrow> startable (clearFailures s)"
  by (simp add: startable_def)

lemma sup_inv_apply_instances:
  assumes s: "sup_core s" "settled True s" "startable s" "su_desired s" "\<not> su_stopping s"
  shows "sup_inv True (snd (apply_instances e spec s))"
proof (cases "su_child s \<noteq> None \<and> sx_Instances (su_childSpec s) \<noteq> sx_Instances spec")
  case True
  obtain r t where r: "replaceChildInstances e s = (r, t)" by (cases "replaceChildInstances e s")
  have t: "sup_inv True t" "\<not> su_stopping t" "su_desired t"
    using sup_inv_replaceChildInstances [of True s e] replaceChildInstances_simps [of e s] s True r startable_kept(1) [of s]
    by (auto simp: sup_inv_def)
  then have "sup_inv True (snd (apply_finish e (clearFailures t)))"
    by (intro sup_inv_apply_finish) (simp_all add: sup_inv_def sup_core_basics settled_prims startable_clearFailures)
  then show ?thesis using True r t by (cases r) (auto simp: apply_instances_def sup_inv_reconcileFailed)
next
  case False
  then show ?thesis using s by (auto simp: apply_instances_def sup_inv_apply_finish)
qed

text \<open>A stop in \<open>apply\<close>, after which a resident plugin is started again.\<close>

definition stop_for_restart :: "sup_env \<Rightarrow> supervisor \<Rightarrow> sup_error option \<times> supervisor" where
  "stop_for_restart e s = stopCurrent e (if wantsChild s then queuePostStop postStopRestart s else s)"

lemma stop_for_restart:
  fixes e
  assumes s: "sup_core s" "su_child s \<noteq> None" "su_desired s"
  defines "r \<equiv> stop_for_restart e s"
  shows "sup_core (snd r)" "settled True (snd r)" "su_desired (snd r)" "fst r \<noteq> None \<Longrightarrow> sup_inv True (snd r)"
    "fst r = None \<Longrightarrow> startable (snd r) \<and> \<not> su_stopping (snd r) \<and> su_child (snd r) = None"
proof -
  define u where "u = (if wantsChild s then queuePostStop postStopRestart s else s)"
  obtain err t where r: "stopCurrent e u = (err, t)" "r = (err, t)" by (cases r) (simp add: r_def stop_for_restart_def u_def)
  have u: "sup_core u" "su_child u \<noteq> None" "su_desired u" using s by (simp_all add: u_def sup_core_basics)
  have q: "su_desired u \<and> resident u \<Longrightarrow> su_postStop u \<noteq> postStopNone"
    using queued_restart by (auto simp: u_def wantsChild_def split: if_splits)
  show "sup_core (snd r)" "settled True (snd r)" using sup_core_stopCurrent [OF u(1), of e] settled_stopCurrent [OF u(1), of True e] r by auto
  show "su_desired (snd r)" using goal_resident [OF goal_stopCurrent [of e u]] u(3) r by simp
  show "sup_inv True (snd r)" if "fst r \<noteq> None" using sup_inv_stop_failed [OF u(1) q] r that by auto
  show "startable (snd r) \<and> \<not> su_stopping (snd r) \<and> su_child (snd r) = None" if "fst r = None"
    using stopCurrent_done [OF _ u(1)] stopCurrent_stopped [OF _ u(2)] r that startable_stopped by auto
qed

lemma startable_prims: "startable s \<Longrightarrow> startable (invalidateSessions e reason s)"
  "resident (cleared\<lparr>su_desired := d, su_spec := cloneSpec spec\<rparr>) = hasExecutionMode (sx_ExecutionModes spec) ExecutionModeResident"
  by (simp_all add: startable_def resident_def invalidateSessions_eq cloneSpec_def)

text \<open>\<open>apply\<close> with the new specification in place, and as the sequence of its two stops.\<close>

definition apply_target :: "sup_env \<Rightarrow> Spec \<Rightarrow> supervisor \<Rightarrow> supervisor" where
  "apply_target e spec s =
     pruneSessions e ((if \<not> su_desired s \<or> su_spec s \<noteq> spec then clearFailures s else s)
       \<lparr>su_desired := True, su_spec := cloneSpec spec\<rparr>)"

definition apply_stop_old :: "sup_env \<Rightarrow> supervisor \<Rightarrow> sup_error option \<times> supervisor" where
  "apply_stop_old e s = (if su_stopping s then stop_for_restart e s else (None, s))"

definition apply_stop_changed :: "sup_env \<Rightarrow> Spec \<Rightarrow> Spec \<Rightarrow> supervisor \<Rightarrow> sup_error option \<times> supervisor" where
  "apply_stop_changed e old spec s =
     (if su_child s \<noteq> None \<and> startupChanged old spec
      then stop_for_restart e (invalidateSessions e SessionInvalidatedReplaced s) else (None, s))"

lemma supervisor_apply_eq:
  "supervisor_apply e spec s =
     (let r = apply_stop_old e (apply_target e spec s); w = apply_stop_changed e (su_spec s) spec (snd r)
      in if fst r \<noteq> None then r else if fst w \<noteq> None then w else apply_instances e spec (snd w))"
  unfolding supervisor_apply_def apply_target_def [symmetric] stop_for_restart_def [symmetric] Let_def
    apply_stop_old_def [symmetric] apply_stop_changed_def [symmetric] split_beta prod.collapse ..

lemma apply_start:
  assumes s: "sup_inv True s" "su_child s \<noteq> None \<longrightarrow> su_desired s"
    and t: "t = apply_target e spec s"
  shows "sup_core t" "settled True t" "su_desired t" "\<not> su_stopping t \<Longrightarrow> startable t"
proof -
  define u where "u = (if \<not> su_desired s \<or> su_spec s \<noteq> spec then clearFailures s else s)"
  have u: "sup_core u" "settled True u" using s(1) by (simp_all add: u_def sup_inv_def sup_core_basics settled_prims)
  have t: "t = pruneSessions e (u\<lparr>su_desired := True, su_spec := cloneSpec spec\<rparr>)" using t by (simp add: u_def apply_target_def)
  have "sup_core (u\<lparr>su_desired := True, su_spec := cloneSpec spec\<rparr>)" using u(1) by (simp add: sup_core_def)
  then show "sup_core t" unfolding t by (rule sup_core_pruneSessions)
  show "settled True t" "su_desired t" using u(2) by (simp_all add: t pruneSessions_eq settled_def)
  show "startable t" if "\<not> su_stopping t"
  proof (cases "\<not> su_desired s \<or> su_spec s \<noteq> spec")
    case True
    then show ?thesis using that startable_clearFailures [of s]
      by (simp add: t u_def pruneSessions_eq startable_def)
  next
    case False
    then have "startable s" using s(1) startable_kept(2) by (simp add: sup_inv_def)
    then show ?thesis using False by (simp add: t u_def pruneSessions_eq startable_def resident_def cloneSpec_def)
  qed
qed

lemma sup_inv_apply:
  assumes s: "sup_inv True s" "su_child s \<noteq> None \<longrightarrow> su_desired s"
  shows "sup_inv True (snd (supervisor_apply e spec s))"
proof -
  define t where "t = apply_target e spec s"
  note t = apply_start [OF s t_def]
  define r where "r = apply_stop_old e t"
  have r: "sup_core (snd r)" "settled True (snd r)" "su_desired (snd r)" "fst r \<noteq> None \<Longrightarrow> sup_inv True (snd r)"
      "fst r = None \<Longrightarrow> startable (snd r) \<and> \<not> su_stopping (snd r)"
    using t stop_for_restart [OF t(1) _ t(3), of e] sup_core_stopping [OF t(1)]
    by (auto simp: r_def apply_stop_old_def split: if_splits)
  define v where "v = invalidateSessions e SessionInvalidatedReplaced (snd r)"
  have v: "sup_core v" "su_desired v" "su_child v = su_child (snd r)"
    using r(1,3) by (simp_all add: v_def sup_core_basics) (simp_all add: invalidateSessions_eq)
  define w where "w = apply_stop_changed e (su_spec s) spec (snd r)"
  have w: "sup_core (snd w)" "settled True (snd w)" "su_desired (snd w)" "fst w \<noteq> None \<Longrightarrow> sup_inv True (snd w)"
      "fst r = None \<Longrightarrow> fst w = None \<Longrightarrow> startable (snd w) \<and> \<not> su_stopping (snd w)"
    using r v stop_for_restart [OF v(1) _ v(2), of e]
    by (auto simp: w_def apply_stop_changed_def simp flip: v_def split: if_splits)
  show ?thesis
    unfolding supervisor_apply_eq Let_def t_def [symmetric] r_def [symmetric] w_def [symmetric]
    using r w by (simp add: sup_inv_apply_instances)
qed

text \<open>The part of \<open>handleHealth\<close> after the ping.\<close>

definition health_result :: "sup_env \<Rightarrow> bool option \<Rightarrow> supervisor \<Rightarrow> supervisor" where
  "health_result e result s =
     (case result of
        Some healthy \<Rightarrow>
          let s = s\<lparr>su_healthMisses := 0, su_retryAttempt := 0, su_healthy := healthy\<rparr>;
              s = (if healthy
                   then let s = s\<lparr>su_phase := PhaseRunning\<rparr>
                        in if su_lastErrorCode s = ErrorCodeHealthReported
                           then s\<lparr>su_lastErrorCode := NoErrorCode, su_lastErrorAt := zero_time\<rparr> else s
                   else (tick s)\<lparr>su_phase := PhaseUnhealthy, su_lastErrorCode := ErrorCodeHealthReported,
                                 su_lastErrorAt := se_now e (su_ticks s)\<rparr>)
          in publish (scheduleHealth e s)
      | None \<Rightarrow>
          let s = s\<lparr>su_healthMisses := su_healthMisses s + 1, su_healthy := False\<rparr>
          in if su_healthMisses s < 3 then publish (scheduleHealth e s)
             else let s = publish (s\<lparr>su_phase := PhaseUnhealthy\<rparr>);
                      s = invalidateSessions e SessionInvalidatedHealth s
                  in recordFailure e ErrorCodeHealthTimeout (snd (stopCurrent e s)))"

lemma watched:
  "sup_core s \<Longrightarrow> su_child s \<noteq> None \<Longrightarrow> \<not> su_stopping s \<Longrightarrow> su_healthMisses s < 3 \<Longrightarrow> sup_inv True (publish (scheduleHealth e s))"
  by (auto simp: sup_inv_def sup_core_def life_ok_def settled_def kept_def publish_def scheduleHealth_def cancelHealth_def)

lemma sup_inv_health_result:
  assumes u: "sup_core u" "su_healthMisses u < 3" "su_child u = Some k" "\<not> su_stopping u"
  shows "sup_inv True (health_result e result u)"
proof (cases "result = None \<and> su_healthMisses u = 2")
  case True
  define v where "v = publish (u\<lparr>su_healthMisses := 3, su_healthy := False, su_phase := PhaseUnhealthy\<rparr>)"
  have "sup_core v" using u by (auto simp: v_def publish_def sup_core_def life_ok_def misses_ok_def)
  then show ?thesis
    using True by (simp add: health_result_def Let_def sup_inv_recordFailure sup_core_basics settled_stopCurrent flip: v_def)
next
  case False
  have m: "misses_ok (su_healthMisses u + 1)" using u by (auto simp: sup_core_def misses_ok_def)
  show ?thesis
    using u m False
    by (auto simp: health_result_def Let_def tick_def intro!: watched split: option.splits) (auto simp: sup_core_def life_ok_def)
qed

lemma sup_inv_handleHealth:
  assumes s: "sup_inv False s" "su_child s \<noteq> None \<longrightarrow> su_desired s"
  shows "sup_inv True (handleHealth e s)"
proof -
  define t where "t = retryPendingSessionCleanup e s"
  have t: "sup_inv False t" unfolding t_def using s(1) by (rule sup_inv_retryPending)
  show ?thesis
  proof (cases "su_child s = None \<or> su_child t = None \<or> su_stopping t")
    case True
    then show ?thesis using s t settled_idle [of t True] settled_idle [of s True]
      by (auto simp: handleHealth_def Let_def sup_inv_def simp flip: t_def split: option.splits)
  next
    case False
    then obtain k where k: "su_child t = Some k" "su_desired s" "su_child s \<noteq> None" "\<not> su_stopping t" using s(2) by auto
    define u where "u = emit (CallPing k) (tick t)"
    have u: "sup_core u" "su_healthMisses u < 3" "su_child u = Some k" "\<not> su_stopping u"
      using t k by (auto simp: u_def sup_inv_def sup_core_def settled_def kept_def resident_def sup_prim obeys_intros)
    have eq: "handleHealth e s = health_result e (se_ping e (su_ticks t)) u"
      using k by (cases "su_child s") (simp_all add: handleHealth_def health_result_def Let_def u_def flip: t_def)
    show ?thesis unfolding eq using u by (rule sup_inv_health_result)
  qed
qed

lemma sup_inv_handleRetry:
  assumes "sup_core s" "settled True s"
  shows "sup_inv True (handleRetry e s)"
proof -
  define t where "t = s\<lparr>su_retryAt := zero_time\<rparr>"
  have t: "sup_core t" "settled True t" using assms by (simp_all add: t_def sup_core_def settled_def)
  have eq: "handleRetry e s =
     (if \<not> su_desired t \<or> su_phase t = PhaseQuarantined then t
      else if su_stopping t then publish ((queuePostStop postStopRetry t)\<lparr>su_phase := PhaseStopping\<rparr>)
      else if su_child t \<noteq> None \<and> sx_Instances (su_childSpec t) \<noteq> sx_Instances (su_spec t)
      then case replaceChildInstances e t of (Some err, s) \<Rightarrow> reconcileFailed e err s
             | (None, s) \<Rightarrow> retryPendingSessionCleanup e (clearFailures s)
      else if wantsChild t then snd (startChild e t) else publish (t\<lparr>su_phase := PhaseStopped\<rparr>))"
    by (simp add: handleRetry_def Let_def flip: t_def)
  consider "\<not> su_desired t \<or> su_phase t = PhaseQuarantined" | "su_stopping t"
    | "su_desired t" "\<not> su_stopping t" "su_phase t \<noteq> PhaseQuarantined" "su_child t \<noteq> None"
        "sx_Instances (su_childSpec t) \<noteq> sx_Instances (su_spec t)"
    | "su_desired t" "\<not> su_stopping t" "su_phase t \<noteq> PhaseQuarantined"
        "su_child t = None \<or> sx_Instances (su_childSpec t) = sx_Instances (su_spec t)" by metis
  then show ?thesis
  proof cases
    case 1
    then have "kept t" using t(1) by (auto simp: kept_def sup_core_def life_ok_def)
    then show ?thesis using 1 t by (simp add: eq sup_inv_def)
  next
    case 2
    have p: "su_phase t \<noteq> PhaseQuarantined" using t(1) 2 by (auto simp: sup_core_def life_ok_def)
    have "sup_inv True (publish ((queuePostStop postStopRetry t)\<lparr>su_phase := PhaseStopping\<rparr>))"
      using t 2 by (auto simp: sup_inv_def sup_core_def life_ok_def settled_def kept_def sup_prim)
    then show ?thesis using t p 2 by (auto simp: eq intro: sup_inv_undesired)
  next
    case 3
    obtain r u where r: "replaceChildInstances e t = (r, u)" by (cases "replaceChildInstances e t")
    have "sup_inv True t" using t 3 by (auto simp: sup_inv_def kept_def)
    then have u: "sup_inv True u" "\<not> su_stopping u" "su_child u \<noteq> None"
      using sup_inv_replaceChildInstances [of True t e] replaceChildInstances_simps [of e t] 3 r by auto
    then have "sup_inv True (clearFailures u)"
      by (auto simp: sup_inv_def sup_core_basics settled_prims) (auto simp: kept_def)
    then show ?thesis using 3 r u by (cases r) (auto simp: eq sup_inv_reconcileFailed sup_inv_retryPending)
  next
    case 4
    have "kept (snd (startChild e t))"
    proof (cases "su_child t")
      case None
      then show ?thesis using 4 by (intro kept_startChild_may) (simp add: may_start_def)
    next
      case Some
      then show ?thesis using 4 by (intro kept_startChild) (simp add: kept_def)
    qed
    then have "sup_inv True (snd (startChild e t))" using t by (simp add: sup_inv_def sup_core_basics settled_startChild)
    moreover have "sup_inv True (publish (t\<lparr>su_phase := PhaseStopped\<rparr>))" if "\<not> wantsChild t"
      using t 4 that by (auto simp: sup_inv_def sup_core_def life_ok_def settled_def kept_def wantsChild_def resident_def publish_def)
    ultimately show ?thesis using 4 by (auto simp: eq)
  qed
qed

lemma child_exited_simps:
  assumes "su_child s = Some k"
  shows "su_child (child_exited e s) = None" "su_stopping (child_exited e s) = su_stopping s"
    "su_desired (child_exited e s) \<Longrightarrow> su_retryTimer (child_exited e s) \<noteq> None \<or> su_phase (child_exited e s) = PhaseQuarantined"
    "goal_of (child_exited e s) = goal_of s" "su_sessions (child_exited e s) = []"
  using assms by (simp_all add: child_exited_eq publish_def scheduleRetry_def tick_def Let_def goal_of_def split: if_splits)

lemma sup_inv_exited: "sup_inv True s \<Longrightarrow> sup_inv True (exited e runID s)"
proof (cases "su_child s = None \<or> runID \<noteq> su_runID s")
  case True
  assume "sup_inv True s"
  with True show ?thesis by (auto simp: exited_def)
next
  case False
  then obtain k where k: "su_child s = Some k" by auto
  assume s: "sup_inv True s"
  have c: "sup_core (exited e runID s)" using s by (simp add: sup_inv_core sup_core_exited)
  show ?thesis
  proof (cases "su_stopping s")
    case True
    have "kept (case finishStop e s of (action, t) \<Rightarrow> continueAfterStop e action t)"
      using k True s by (intro kept_afterStop) (auto simp: sup_inv_def kept_def)
    then show ?thesis
      using c True False settled_afterStop [OF sup_inv_core [OF s], of True e] by (auto simp: exited_def sup_inv_def)
  next
    case st: False
    then have "exited e runID s = child_exited e s" using False by (auto simp: exited_def)
    then show ?thesis using c child_exited_simps [OF k, of e] st by (auto simp: sup_inv_def kept_def intro: settled_idle)
  qed
qed

lemma startChild_true: "fst (startChild e s) \<Longrightarrow> su_child (snd (startChild e s)) \<noteq> None \<and> \<not> su_stopping (snd (startChild e s))"
  by (auto simp: startChild_eq may_start_def child_started_def starting_def sup_prim Let_def split: option.splits if_splits)

text \<open>A command that needs a child and may start it.\<close>

definition with_child :: "sup_env \<Rightarrow> supervisor \<Rightarrow> bool \<times> supervisor" where
  "with_child e s = (if su_child s = None then startChild e s else (True, s))"

lemma with_child:
  assumes "sup_inv a s" "su_phase s \<noteq> PhaseStopping"
  shows "sup_inv a (snd (with_child e s))"
    "fst (with_child e s) \<Longrightarrow> su_child (snd (with_child e s)) \<noteq> None \<and> \<not> su_stopping (snd (with_child e s))"
  using assms startChild_true [of e s] sup_core_phase [OF sup_inv_core [OF assms(1)]]
  by (auto simp: with_child_def sup_inv_prims split: if_splits)

lemma sup_inv_invoke_child:
  assumes s: "sup_inv True s" "su_child s \<noteq> None" "\<not> su_stopping s"
  shows "sup_inv True (snd (invoke_child e request g token s))"
proof -
  obtain r t where r: "child_call e (\<lambda>k. CallInvoke k request) s = (r, t)" by (cases "child_call e (\<lambda>k. CallInvoke k request) s")
  have t: "sup_inv True t" using sup_inv_child_call [OF s(1,2), of "\<lambda>k. CallInvoke k request" e] s(3) r by simp
  have upd: "sup_inv True (u\<lparr>su_sessions := AList.update i c (su_sessions u)\<rparr>)" if "sup_inv True u" for u i c
    using that by (intro sup_inv_prims) (simp_all add: distinct_update sup_core_wf sup_inv_core)
  show ?thesis
    using r t by (auto simp: invoke_child_def Let_def sup_inv_prims sup_inv_failAmbiguous sup_inv_core sup_inv_stop
        dest: sup_inv_deliverD intro!: upd split: option.splits prod.splits)
qed

lemma sup_inv_invoke: "sup_inv True s \<Longrightarrow> sup_inv True (snd (invoke e request kind token s))"
  unfolding invoke_def with_child_def [symmetric] using with_child [of True s e]
  by (auto simp: Let_def split_beta sup_inv_invoke_child split: option.splits)

lemma sup_inv_operation: "sup_inv True s \<Longrightarrow> sup_inv True (snd (operation e request s))"
proof -
  assume s: "sup_inv True s"
  have "sup_inv True (snd (operation_child e request t))" if "sup_inv True t" "su_child t \<noteq> None" "\<not> su_stopping t" for t
    using sup_inv_child_call [OF that(1,2), of "\<lambda>k. CallOperation k request" e] that(3)
    by (auto simp: operation_child_def Let_def split_beta sup_inv_prims sup_inv_stop)
  then show ?thesis
    unfolding operation_def with_child_def [symmetric] using s with_child [of True s e]
    by (auto simp: Let_def split_beta split: option.splits)
qed

lemma sup_inv_drop: "sup_inv a s \<Longrightarrow> sup_inv a (s\<lparr>su_sessions := AList.delete i (su_sessions s)\<rparr>)"
  by (intro sup_inv_prims) (simp_all add: distinct_delete sup_core_wf sup_inv_core)

lemma sup_inv_emit: "sup_inv a s \<Longrightarrow> is_callback x \<Longrightarrow> sup_inv a (emit x s)"
  by (simp add: sup_inv_def sup_core_def settled_def kept_def resident_def emit_def obeys_callback)

lemma sup_inv_invalidateSession: "sup_inv a s \<Longrightarrow> sup_inv a (invalidateSession e reason i x s)"
  by (simp add: invalidateSession_def Let_def sup_inv_drop sup_inv_emit)

lemma sup_inv_endSession: "sup_inv True s \<Longrightarrow> sup_inv True (snd (supervisor_endSession e canceled target token s))"
proof -
  assume s: "sup_inv True s"
  show ?thesis
    unfolding supervisor_endSession_def
    using s sup_inv_drop [OF s, of "ref_ID target"]
    by (auto simp: Let_def split_beta sup_inv_prims sup_inv_stop sup_inv_enqueue sup_inv_deliver)
qed

lemma sup_inv_completion: "sup_inv True s \<Longrightarrow> sup_inv True (snd (handleCompletion e target token s))"
proof -
  assume s: "sup_inv True s"
  have "sup_inv True (snd (completeSession e target token s))"
    using s sup_inv_drop [OF s, of "ref_ID target"]
    by (auto simp: completeSession_def Let_def split_beta sup_inv_prims sup_inv_stop)
  then show ?thesis by (simp add: handleCompletion_def split_beta sup_inv_emit)
qed

lemma sup_inv_sessionInput: "sup_inv True s \<Longrightarrow> sup_inv True (snd (supervisor_sessionInput e request s))"
proof -
  assume s: "sup_inv True s"
  define x where "x = (\<lambda>k. CallSessionInput k request (sessionInputTimeout request))"
  obtain r t where r: "child_call e x s = (r, t)" by (cases "child_call e x s")
  have t: "sup_inv True t" if "su_child s \<noteq> None" "su_phase s \<noteq> PhaseStopping"
    using sup_inv_child_call [OF s that(1), of x e] sup_core_phase [OF sup_inv_core [OF s] that(2)] r by (simp add: x_def)
  have "sup_inv True (snd (stopCurrent e u))" if "sup_inv True u" "\<not> resident u" for u
    using that by (simp add: sup_inv_stop)
  then show ?thesis
    unfolding supervisor_sessionInput_def x_def [symmetric]
    using s t by (auto simp: Let_def r sup_inv_failAmbiguous sup_inv_core sup_inv_prims sup_inv_invalidateSession split: option.splits)
qed

lemma sup_inv_restart: "sup_inv True s \<Longrightarrow> sup_inv True (snd (supervisor_restart e s))"
proof -
  assume s: "sup_inv True s"
  define t where "t = invalidateSessions e SessionInvalidatedReplaced (clearFailures s)"
  have t: "sup_core t" "settled True t" "goal_of t = goal_of s" "su_phase t = su_phase (clearFailures s)"
      "su_child t = su_child s" "su_stopping t = su_stopping s"
    using s by (simp_all add: t_def sup_inv_def sup_core_basics settled_prims) (simp_all add: invalidateSessions_eq)
  define u where "u = (if resident t then t\<lparr>su_postStop := postStopRestart\<rparr> else t)"
  have u: "sup_core u" "su_child u = su_child s" "resident u = resident t" "su_desired u = su_desired s"
    using t goal_resident [OF t(3)] by (simp_all add: u_def) (simp_all add: sup_core_def resident_def)
  have q: "su_desired u \<and> resident u \<Longrightarrow> su_postStop u \<noteq> postStopNone" by (auto simp: u_def resident_def split: if_splits)
  have none: "sup_inv True (snd (startChild e t))" "\<not> resident t \<Longrightarrow> sup_inv True (publish (t\<lparr>su_phase := PhaseStopped\<rparr>))"
    if "su_child s = None" "su_desired s"
  proof -
    have "\<not> su_stopping s" using that(1) s sup_core_stopping sup_inv_core by blast
    then have "may_start t" using that t goal_resident [OF t(3)] by (simp add: may_start_def)
    then show "sup_inv True (snd (startChild e t))"
      using t by (simp add: sup_inv_def sup_core_basics settled_startChild kept_startChild_may)
    show "sup_inv True (publish (t\<lparr>su_phase := PhaseStopped\<rparr>))" if "\<not> resident t"
      using that t \<open>\<not> su_stopping s\<close> by (auto simp: sup_inv_def sup_core_def life_ok_def settled_def kept_def resident_def publish_def)
  qed
  show ?thesis
  proof (cases "su_child s")
    case None
    then show ?thesis using none s by (simp add: supervisor_restart_def Let_def flip: t_def) (simp add: t(5))
  next
    case (Some k)
    obtain err v where v: "stopCurrent e u = (err, v)" by (cases "stopCurrent e u")
    have child: "su_child t \<noteq> None" "su_child u \<noteq> None" using Some t(5) u(2) by simp_all
    have "sup_inv True v" if "err \<noteq> None" using sup_inv_stop_failed [OF u(1) q] v that by auto
    moreover have "sup_inv True (snd (startChild e v))" if "err = None" "su_desired s"
      using sup_inv_stop_start [OF u(1) child(2)] that u(4) v by simp
    moreover have "sup_inv True (publish (v\<lparr>su_phase := PhaseStopped\<rparr>))" if "err = None" "\<not> resident t"
    proof -
      have "sup_inv True v" "su_phase v = PhaseStopped"
        using sup_inv_stop_interactive [OF u(1), of True e] stopCurrent_stopped [OF _ child(2)] that u(3) v by auto
      moreover from this(2) have "v\<lparr>su_phase := PhaseStopped\<rparr> = v" by (cases v) simp
      ultimately show ?thesis by (simp only: sup_inv_prims(1))
    qed
    ultimately show ?thesis
      using s child unfolding supervisor_restart_def Let_def t_def [symmetric] u_def [symmetric]
      by (cases "err = None") (auto simp: v)
  qed
qed

lemma stopCurrent_ends: "sup_core s \<Longrightarrow> \<not> su_desired s \<Longrightarrow>
    su_child (snd (stopCurrent e s)) \<noteq> None \<longrightarrow> su_stopping (snd (stopCurrent e s))"
proof (cases "su_child s")
  case (Some k)
  assume s: "sup_core s" "\<not> su_desired s"
  define u where "u = tick (stop_sent s k)"
  have u: "su_child u = Some k" "su_stopping u" "goal_of u = goal_of s" using Some by (simp_all add: u_def)
  have "su_child (snd (finishStop e u)) = None" using finishStop_idle [of u e] u by simp
  moreover have "\<not> su_desired (snd (finishStop e u))"
    using goal_resident [of "snd (finishStop e u)" s] s(2) u(3) by simp
  ultimately show ?thesis
    using u by (simp add: stopCurrent_eq Some awaitStop_def continueAfterStop_def Let_def split_beta setError_def publish_def flip: u_def)
qed (simp add: stopCurrent_def)

lemma sup_inv_shutdown: "sup_inv True s \<Longrightarrow> sup_inv True (shutdownNow e s) \<and> su_child (shutdownNow e s) = None"
proof -
  assume s: "sup_inv True s"
  define t where "t = cancelTimers (invalidateSessions e SessionInvalidatedDisabled (clearPostStop (s\<lparr>su_desired := False\<rparr>)))"
  have t: "sup_core t" "\<not> su_desired t"
    using sup_core_invalidateSessions [OF sup_inv_core [OF s], of e SessionInvalidatedDisabled]
    by (simp_all add: t_def invalidateSessions_eq sup_prim) (auto simp: sup_core_def life_ok_def invalidateSessions_eq)
  define u where "u = (snd (stopCurrent e t))\<lparr>su_shutdownErr := fst (stopCurrent e t)\<rparr>"
  have u: "sup_core u" "su_child u \<noteq> None \<longrightarrow> su_stopping u"
    using sup_core_stopCurrent [OF t(1), of e] stopCurrent_ends [OF t, of e] by (simp_all add: u_def sup_core_def)
  define v where "v = (if su_stopping u \<and> su_childReaped u \<noteq> None then snd (finishStop e u) else u)"
  have r: "su_child u \<noteq> None \<Longrightarrow> su_childReaped u \<noteq> None" using u(1) by (auto simp: sup_core_def life_ok_def)
  have v: "sup_core v" "su_child v = None" "\<not> su_stopping v" "su_desired v = su_desired u"
    using u r finishStop_idle [of u e] sup_core_finishStop [OF u(1), of e] sup_core_stopping [OF u(1)]
      goal_resident [of "snd (finishStop e u)" u] by (auto simp: v_def)
  have "\<not> su_desired u" using goal_resident [OF goal_stopCurrent [of e t]] t(2) by (simp add: u_def)
  then have "sup_inv True (publish (v\<lparr>su_phase := PhaseStopped, su_retryAt := zero_time\<rparr>))"
    using v core_idle_phase(1) [OF core_idleI [OF v(1,3)], of PhaseStopped zero_time]
    by (intro sup_inv_prims sup_inv_undesired settled_idle) (simp_all)
  moreover have "shutdownNow e s = publish (v\<lparr>su_phase := PhaseStopped, su_retryAt := zero_time\<rparr>)"
    unfolding shutdownNow_def Let_def split_beta t_def [symmetric] u_def [symmetric] v_def [symmetric] ..
  ultimately show ?thesis using v(2) by simp
qed

subsection \<open>Reachable states\<close>

definition sup_ok :: "supervisor \<Rightarrow> bool" where
  "sup_ok s \<longleftrightarrow> sup_inv True s \<and> (su_child s \<noteq> None \<longrightarrow> su_desired s)"

lemma goal_deliver [simp]:
  "goal_of (snd (enqueueSessionCleanup e c s)) = goal_of s" "goal_of (snd (deliverSessionCleanup e c s)) = goal_of s"
  "goal_of (retryPendingSessionCleanup e s) = goal_of s"
proof -
  have pend: "goal_of (t\<lparr>su_pendingCleanups := p\<rparr>) = goal_of t" for t p by (simp add: goal_of_def)
  show enq: "goal_of (snd (enqueueSessionCleanup e c s)) = goal_of s" for s
    by (simp add: enqueueSessionCleanup_def Let_def pend)
  have call: "goal_of t = goal_of s" if "child_call e x s = (r, t)" for x r t
    using that goal_prims(15) [of e x s] by simp
  show "goal_of (snd (deliverSessionCleanup e c s)) = goal_of s"
    using enq by (auto simp: deliverSessionCleanup_def Let_def call split: option.splits prod.splits dest!: call) (metis snd_conv)+
  show "goal_of (retryPendingSessionCleanup e s) = goal_of s"
    by (auto simp: retryPendingSessionCleanup_def Let_def pend split: option.splits prod.splits list.splits dest!: call)
qed

lemma goal_sessions [simp]: "goal_of (s\<lparr>su_sessions := m\<rparr>) = goal_of s" "goal_of (emit x s) = goal_of s"
  "goal_of (s\<lparr>su_phase := p\<rparr>) = goal_of s" "goal_of (s\<lparr>su_postStop := q\<rparr>) = goal_of s" "goal_of (s\<lparr>su_retryAt := r\<rparr>) = goal_of s"
  "goal_of (s\<lparr>su_healthTimer := h\<rparr>) = goal_of s" "goal_of (s\<lparr>su_retryTimer := h\<rparr>) = goal_of s"
  by (simp_all add: goal_of_def emit_def)

lemma goal_continue [simp]: "goal_of (continueAfterStop e a s) = goal_of s"
  by (simp add: continueAfterStop_def split: postStopAction.splits)

lemma goal_exited: "goal_of (exited e runID s) = goal_of s"
  by (auto simp: exited_def split_beta child_exited_simps)

lemma goal_call: "child_call e x s = (r, t) \<Longrightarrow> goal_of t = goal_of s"
  using goal_prims(15) [of e x s] by simp

lemma goal_deliverD: "deliverSessionCleanup e c s = (r, t) \<Longrightarrow> goal_of t = goal_of s"
  using goal_deliver(2) [of e c s] by simp

lemma goal_with_child: "goal_of (snd (with_child e s)) = goal_of s"
  by (simp add: with_child_def)

lemma goal_invoke: "goal_of (snd (invoke e request kind token s)) = goal_of s"
proof -
  have "goal_of (snd (invoke_child e r g tok t)) = goal_of t" for r g tok t
    by (auto simp: invoke_child_def Let_def dest!: goal_call goal_deliverD split: option.splits prod.splits if_splits)
  then show ?thesis
    unfolding invoke_def with_child_def [symmetric] by (simp add: Let_def split_beta goal_with_child split: option.splits)
qed

lemma goal_operation: "goal_of (snd (operation e request s)) = goal_of s"
proof -
  have "goal_of (snd (operation_child e r t)) = goal_of t" for r t by (simp add: operation_child_def Let_def split_beta)
  then show ?thesis
    unfolding operation_def with_child_def [symmetric] by (simp add: Let_def split_beta goal_with_child split: option.splits)
qed

lemma goal_endSession: "goal_of (snd (supervisor_endSession e canceled r token s)) = goal_of s"
  by (simp add: supervisor_endSession_def Let_def split_beta)

lemma goal_completion: "goal_of (snd (handleCompletion e r token s)) = goal_of s"
  by (simp add: handleCompletion_def completeSession_def Let_def split_beta)

lemma goal_sessionInput: "goal_of (snd (supervisor_sessionInput e request s)) = goal_of s"
  by (auto simp: supervisor_sessionInput_def invalidateSession_def Let_def dest!: goal_call split: option.splits prod.splits)

lemma goal_restart: "goal_of (snd (supervisor_restart e s)) = goal_of s"
  by (simp add: supervisor_restart_def Let_def split_beta)

lemma handleHealth_eq:
  "handleHealth e s =
     (let t = retryPendingSessionCleanup e s
      in if \<not> su_desired s \<or> su_child s = None then s
         else case su_child t of None \<Rightarrow> t
              | Some k \<Rightarrow> if su_stopping t then t else health_result e (se_ping e (su_ticks t)) (emit (CallPing k) (tick t)))"
  by (simp add: handleHealth_def health_result_def Let_def split: option.splits)

lemma goal_handleHealth: "goal_of (handleHealth e s) = goal_of s"
proof -
  have "goal_of (health_result e r t) = goal_of t" for r t
    by (simp add: health_result_def Let_def split: option.splits) (simp add: goal_of_def sup_prim)
  then show ?thesis by (simp add: handleHealth_eq Let_def split: option.splits)
qed

lemma goal_handleRetry: "goal_of (handleRetry e s) = goal_of s"
proof -
  have "goal_of t = goal_of u" if "replaceChildInstances e u = (r, t)" for r t u
    using that goal_prims(16) [of e u] by simp
  then show ?thesis
    by (auto simp: handleRetry_def reconcileFailed_def Let_def split: option.splits prod.splits)
qed

lemma goal_apply: "su_desired (snd (supervisor_apply e spec s))"
proof -
  have fin: "goal_of (snd (apply_finish e t)) = goal_of t" for t by (simp add: apply_finish_def Let_def)
  have "goal_of t = goal_of u" if "replaceChildInstances e u = (r, t)" for r t u
    using that goal_prims(16) [of e u] by simp
  then have ins: "goal_of (snd (apply_instances e spec t)) = goal_of t" for t
    using fin by (auto simp: apply_instances_def reconcileFailed_def split: option.splits prod.splits)
  have stop: "goal_of (snd (stop_for_restart e t)) = goal_of t" for t by (simp add: stop_for_restart_def)
  have "goal_of (snd (supervisor_apply e spec s)) = goal_of (apply_target e spec s)"
    by (simp add: supervisor_apply_eq Let_def apply_stop_old_def apply_stop_changed_def ins stop)
  then show ?thesis by (simp add: goal_of_def apply_target_def pruneSessions_eq)
qed

text \<open>A plugin that is not desired has no child, and no command but \<open>apply\<close> gives it one.\<close>

lemma undesired_handle:
  assumes s: "su_child s = None" "\<not> su_desired s" and v: "\<nexists>spec. v = applyCommand spec"
  shows "su_child (handle e canceled v s) = None"
  using s v by (cases v) (simp_all add: handle_def invoke_def supervisor_endSession_def handleCompletion_def completeSession_def
      supervisor_restart_def supervisor_sessionInput_def operation_def exited_def Let_def split_beta emit_def)

lemma goal_handle: "\<nexists>spec. v = applyCommand spec \<Longrightarrow> goal_of (handle e canceled v s) = goal_of s"
  by (cases v) (simp_all add: handle_def goal_invoke goal_endSession goal_completion goal_restart goal_sessionInput
      goal_operation goal_exited)

lemma sup_inv_handle: "sup_ok s \<Longrightarrow> sup_inv True (handle e canceled v s)"
  by (cases v) (simp_all add: handle_def sup_ok_def sup_inv_apply sup_inv_invoke sup_inv_endSession sup_inv_completion
      sup_inv_restart sup_inv_sessionInput sup_inv_operation sup_inv_exited)

lemma sup_ok_handle: "sup_ok s \<Longrightarrow> sup_ok (handle e canceled v s)"
proof (cases "\<exists>spec. v = applyCommand spec")
  case True
  assume "sup_ok s"
  then show ?thesis using True sup_inv_handle [of s e canceled v] by (auto simp: sup_ok_def handle_def goal_apply)
next
  case False
  assume s: "sup_ok s"
  have "su_desired (handle e canceled v s) = su_desired s"
    using goal_resident [OF goal_handle [of v e canceled s]] False by blast
  then show ?thesis using s sup_inv_handle [OF s, of e canceled v] undesired_handle [of s v e canceled] False
    by (cases "su_desired s") (auto simp: sup_ok_def)
qed

lemma sup_inv_timers:
  assumes "sup_inv True s"
  shows "sup_inv False (s\<lparr>su_healthTimer := None\<rparr>)" "sup_core (s\<lparr>su_retryTimer := None\<rparr>)" "settled True (s\<lparr>su_retryTimer := None\<rparr>)"
proof -
  have "life_ok c st r ph None" if "life_ok c st r ph h" for c st r ph h using that by (simp add: life_ok_def)
  then have "sup_core (s\<lparr>su_healthTimer := None\<rparr>)" using sup_inv_core [OF assms] unfolding sup_core_def by force
  moreover have "settled False (s\<lparr>su_healthTimer := None\<rparr>)" "kept (s\<lparr>su_healthTimer := None\<rparr>)"
    using assms by (simp_all add: sup_inv_def settled_def kept_def resident_def)
  ultimately show "sup_inv False (s\<lparr>su_healthTimer := None\<rparr>)" by (simp add: sup_inv_def)
  show "sup_core (s\<lparr>su_retryTimer := None\<rparr>)" "settled True (s\<lparr>su_retryTimer := None\<rparr>)"
    using assms by (simp_all add: sup_inv_def sup_core_def settled_def)
qed

text \<open>Fields that the invariant does not read.\<close>

lemma sup_ok_frame:
  "length c \<le> supervisorQueueCapacity \<Longrightarrow> sup_ok s \<Longrightarrow> sup_ok (s\<lparr>su_completions := c\<rparr>)"
  "sup_ok ((tick s)\<lparr>su_exits := x\<rparr>) = sup_ok s" "sup_ok (s\<lparr>su_done := d\<rparr>) = sup_ok s"
  by (simp_all add: sup_ok_def sup_inv_def sup_core_def settled_def kept_def resident_def tick_def)

lemma sup_ok_same: "sup_ok s \<Longrightarrow> sup_inv True t \<Longrightarrow> goal_of t = goal_of s \<Longrightarrow> (\<not> su_desired s \<longrightarrow> su_child t = None) \<Longrightarrow> sup_ok t"
  using goal_resident [of t s] by (auto simp: sup_ok_def)

lemma sup_ok_step: "sup_ok s \<Longrightarrow> sup_step e ev s = Some t \<Longrightarrow> sup_ok t"
proof -
  assume s: "sup_ok s" and step: "sup_step e ev s = Some t"
  have i: "sup_inv True s" and o: "\<not> su_desired s \<Longrightarrow> su_child s = None" using s by (auto simp: sup_ok_def)
  show ?thesis
  proof (cases ev)
    case EvShutdown
    then have "t = (shutdownNow e s)\<lparr>su_done := True\<rparr>" using step by (simp add: sup_step_def split: if_splits)
    then show ?thesis using sup_inv_shutdown [OF i, of e] by (simp add: sup_ok_frame) (simp add: sup_ok_def)
  next
    case EvHealth
    then have "t = handleHealth e (s\<lparr>su_healthTimer := None\<rparr>)" using step by (auto simp: sup_step_def split: if_splits option.splits)
    then show ?thesis
      using sup_inv_handleHealth [OF sup_inv_timers(1) [OF i], of e] s o
      by (intro sup_ok_same [OF s]) (auto simp: goal_handleHealth sup_ok_def, simp add: handleHealth_def)
  next
    case EvRetry
    then have "t = handleRetry e (s\<lparr>su_retryTimer := None\<rparr>)" using step by (auto simp: sup_step_def split: if_splits option.splits)
    then show ?thesis
      using sup_inv_handleRetry [of "s\<lparr>su_retryTimer := None\<rparr>" e] sup_inv_timers(2,3) [OF i] o
      by (intro sup_ok_same [OF s]) (auto simp: goal_handleRetry, simp add: handleRetry_def)
  next
    case EvCompletion
    then obtain r token rest where c: "su_completions s = (r, token) # rest"
        "t = snd (handleCompletion e r token (s\<lparr>su_completions := rest\<rparr>))"
      using step by (auto simp: sup_step_def split: if_splits list.splits)
    have "sup_ok (s\<lparr>su_completions := rest\<rparr>)"
      using s c(1) sup_inv_core [OF i] by (intro sup_ok_frame) (simp_all add: sup_core_def)
    then show ?thesis using sup_ok_handle [of _ e False "completeSessionCommand r token"] c(2) by (simp add: handle_def)
  next
    case (EvCommand canceled v)
    then show ?thesis using step s by (auto simp: sup_step_def sup_ok_handle split: if_splits)
  next
    case (EvAdmit canceled r token)
    then show ?thesis using step s by (auto simp: sup_step_def admitCompletion_def intro!: sup_ok_frame(1) split: if_splits)
  next
    case EvSnapshot
    then show ?thesis using step s by (auto simp: sup_step_def snapshot_status_def Let_def sup_ok_frame split: if_splits)
  qed
qed

interpretation supervision: invariant_machine "sup_step e" "newSupervisor i" sup_ok
proof unfold_locales
  show "sup_ok (newSupervisor i)"
    using sup_core_new [of i] by (simp add: sup_ok_def sup_inv_def settled_def kept_def newSupervisor_def)
qed (rule sup_ok_step)

end
