(* ===== verification/PluginLifecycle.thy ===== *)
theory PluginLifecycle
  imports Supervision
begin

text \<open>
  What the core can rely on from the supervisor of a plugin, in every state that it can reach.
\<close>

subsection \<open>A concrete plugin\<close>

definition demo_instance :: "string \<Rightarrow> u64 \<Rightarrow> Instance" where
  "demo_instance i g = \<lparr>pi_ID = i, pi_Generation = g, pi_Config = None, pi_Secrets = None, pi_Policies = None, pi_Checkpoint = None\<rparr>"

definition demo_spec :: "ExecutionMode list \<Rightarrow> Instance list \<Rightarrow> Spec" where
  "demo_spec modes instances = \<lparr>sx_ID = ''p'', sx_Version = ''1'', sx_Executable = ''/p'', sx_Args = None, sx_SHA256 = '''',
     sx_ProtocolVersion = ''1.0'', sx_ExecutionModes = Some modes, sx_Channels = None, sx_Operations = None,
     sx_Instances = Some instances\<rparr>"

definition sup_demo_time :: "nat \<Rightarrow> gotime" where
  "sup_demo_time n = \<lparr>instant = int n, zone_offset = 0\<rparr>"

text \<open>An environment in which everything succeeds, except the calls whose number is given.\<close>

definition sup_demo_env :: "(nat \<Rightarrow> call_error option) \<Rightarrow> sup_env" where
  "sup_demo_env calls = \<lparr>se_start = \<lambda>_. None, se_call = calls, se_input = \<lambda>_. SessionInputConsumed, se_operation = \<lambda>_. None,
     se_ping = \<lambda>_. Some True, se_stop = \<lambda>_. True, se_reaped = \<lambda>_. True, se_now = sup_demo_time, se_jitter = \<lambda>_. Finite 1,
     se_healthInterval = 30 * second, se_WithdrawGeneration = True, se_WithdrawInstance = True, se_SessionCompleted = True,
     se_SessionInvalidated = True, se_SessionCleanup = True, se_Started = True\<rparr>"

definition unknown_outcome :: call_error where
  "unknown_outcome = \<lparr>ce_OutcomeUnknown = True, ce_InvalidArgument = False, ce_PermanentStart = False\<rparr>"
definition invalid_argument :: call_error where
  "invalid_argument = \<lparr>ce_OutcomeUnknown = False, ce_InvalidArgument = True, ce_PermanentStart = False\<rparr>"
definition failed_call :: call_error where
  "failed_call = \<lparr>ce_OutcomeUnknown = False, ce_InvalidArgument = False, ce_PermanentStart = False\<rparr>"

definition demo_invoke :: "string \<Rightarrow> string \<Rightarrow> command" where
  "demo_invoke i token = invokeCommand \<lparr>ir_InstanceID = i, ir_Generation = 1, ir_Action = '''', ir_Payload = None,
     ir_SessionToken = '''', ir_Trigger = None\<rparr> InvocationInteractive token"

definition demo_input :: "string \<Rightarrow> string \<Rightarrow> command" where
  "demo_input i token = sessionInputCommand \<lparr>req_Sequence = 1, req_OccurredAt = sup_demo_time 1,
     req_Instance = \<lparr>ref_ID = i, ref_Generation = 1\<rparr>, req_SessionToken = token,
     req_Input = \<lparr>in_Button = None, in_Encoder = Some 1\<rparr>\<rparr>"

definition demo_events :: "sup_event list" where
  "demo_events = [EvCommand False (applyCommand (demo_spec [ExecutionModeResident] [demo_instance ''i'' 1])),
     EvCommand False (demo_invoke ''i'' ''a''), EvCommand False (demo_input ''i'' ''a''), EvHealth, EvCommand False (exitCommand 1),
     EvRetry, EvCommand False (applyCommand (demo_spec [ExecutionModeResident] [demo_instance ''i'' 2]))]"

definition sup_demo_state :: supervisor where
  "sup_demo_state = the (run_steps (sup_step (sup_demo_env (\<lambda>_. None))) demo_events (newSupervisor ''p''))"

lemma demo_state_reached: "reaches (sup_step (sup_demo_env (\<lambda>_. None))) (newSupervisor ''p'') sup_demo_state"
proof (rule reachesI [of _ demo_events])
  have "run_steps (sup_step (sup_demo_env (\<lambda>_. None))) demo_events (newSupervisor ''p'') \<noteq> None" by code_simp
  then show "run_steps (sup_step (sup_demo_env (\<lambda>_. None))) demo_events (newSupervisor ''p'') = Some sup_demo_state"
    by (auto simp: sup_demo_state_def)
qed

subsection \<open>One child at a time\<close>

text \<open>(C18) The log of a supervisor, whatever its environment does and in whatever order its events come, is a run of the
  abstract machine of children: a child is started only when the previous one is known to be gone, every call goes to the current child
  (never through a nil one), and a child that was told to stop gets only ends of sessions and further stops.
  The machine is then in the state that the supervisor has recorded.\<close>

theorem child_protocol:
  assumes "reaches (sup_step e) (newSupervisor i) s"
  shows "run_steps child_step (su_log s) (None, False) = Some (su_child s, su_stopping s)"
  using supervision.reach_inv [OF assms] by (simp add: sup_ok_def sup_inv_def sup_core_def obeys_def)

theorem child_protocol_witness:
  "run_steps child_step (su_log sup_demo_state) (None, False) = Some (su_child sup_demo_state, su_stopping sup_demo_state) \<and>
   length (su_log sup_demo_state) = 15"
proof -
  have "length (su_log sup_demo_state) = 15" by code_simp
  then show ?thesis using child_protocol [OF demo_state_reached] by simp
qed

subsection \<open>Watched, retried, bounded\<close>

text \<open>(C19) A supervisor never forgets a resident plugin. Whatever starts, calls, stops and clocks do, a desired resident plugin
  has a child that runs, or a child that is stopping with the decision what follows, or no child and then a
  retry is armed or the plugin is quarantined.\<close>

theorem resident_never_forgotten:
  assumes "reaches (sup_step e) (newSupervisor i) s" "su_desired s" "resident s"
  shows "if su_child s = None then su_retryTimer s \<noteq> None \<or> su_phase s = PhaseQuarantined
    else su_stopping s \<longrightarrow> su_postStop s \<noteq> postStopNone"
  using supervision.reach_inv [OF assms(1)] assms(2,3) by (simp add: sup_ok_def sup_inv_def kept_def)

definition demo_crashed :: supervisor where
  "demo_crashed = the (run_steps (sup_step (sup_demo_env (\<lambda>_. None))) (take 5 demo_events) (newSupervisor ''p''))"

lemma demo_crashed_reached: "reaches (sup_step (sup_demo_env (\<lambda>_. None))) (newSupervisor ''p'') demo_crashed"
proof (rule reachesI [of _ "take 5 demo_events"])
  have "run_steps (sup_step (sup_demo_env (\<lambda>_. None))) (take 5 demo_events) (newSupervisor ''p'') \<noteq> None" by code_simp
  then show "run_steps (sup_step (sup_demo_env (\<lambda>_. None))) (take 5 demo_events) (newSupervisor ''p'') = Some demo_crashed"
    by (auto simp: demo_crashed_def)
qed

theorem resident_never_forgotten_witness:
  "su_child demo_crashed = None \<and> su_retryTimer demo_crashed \<noteq> None"
proof -
  have "su_desired demo_crashed" "resident demo_crashed" "su_child demo_crashed = None" "su_phase demo_crashed = PhaseBackoff"
    by code_simp+
  then show ?thesis using resident_never_forgotten [OF demo_crashed_reached] by auto
qed

text \<open>Every child that was not told to stop is watched: its health timer is armed and it has missed fewer than three
  pings. The phases agree with that: the phase is stopping exactly while a child is stopping, and a running or unhealthy
  plugin has a child.\<close>

theorem child_is_watched:
  assumes "reaches (sup_step e) (newSupervisor i) s"
  shows "(su_child s \<noteq> None \<and> \<not> su_stopping s \<longrightarrow> su_healthTimer s \<noteq> None \<and> su_healthMisses s < 3) \<and>
    (su_phase s = PhaseStopping \<longleftrightarrow> su_stopping s) \<and>
    (su_phase s \<in> {PhaseRunning, PhaseUnhealthy} \<longrightarrow> su_child s \<noteq> None \<and> \<not> su_stopping s)"
proof -
  have "settled True s" "life_ok (su_child s) (su_stopping s) (su_childReaped s) (su_phase s) (su_healthTimer s)"
    using supervision.reach_inv [OF assms] by (simp_all add: sup_ok_def sup_inv_def sup_core_def)
  then show ?thesis by (auto simp: settled_def life_ok_def)
qed

theorem child_is_watched_witness: "su_child sup_demo_state \<noteq> None \<and> su_healthTimer sup_demo_state \<noteq> None"
proof -
  have "su_child sup_demo_state \<noteq> None" "\<not> su_stopping sup_demo_state" by code_simp+
  then show ?thesis using child_is_watched [OF demo_state_reached] by auto
qed

text \<open>At most 256 ends of sessions wait to be delivered to a child, each of them once, and none when there is no
  child; at most 32 completions wait for the supervisor.\<close>

theorem pending_cleanups_bounded:
  assumes "reaches (sup_step e) (newSupervisor i) s"
  shows "length (su_pendingCleanups s) \<le> 256 \<and> distinct (su_pendingCleanups s) \<and>
    (su_child s = None \<longrightarrow> su_pendingCleanups s = []) \<and> length (su_completions s) \<le> 32"
proof -
  have "sup_core s" using supervision.reach_inv [OF assms] by (simp add: sup_ok_def sup_inv_def)
  then show ?thesis
    by (auto simp: sup_core_def cleanups_ok_def maxPendingSessionCleanups_def supervisorQueueCapacity_def)
qed

theorem pending_cleanups_bounded_witness: "length (su_pendingCleanups sup_demo_state) \<le> 256 \<and> su_pendingCleanups demo_crashed = []"
proof -
  have "su_child demo_crashed = None" by code_simp
  then show ?thesis
    using pending_cleanups_bounded [OF demo_state_reached] pending_cleanups_bounded [OF demo_crashed_reached] by simp
qed

subsection \<open>Crash loops\<close>

lemma addExit_fst: "fst (addExit t s) = length (su_exits (snd (addExit t s)))"
  by (simp add: addExit_def Let_def)

text \<open>(C21) An unexpected exit is counted among those of the last ten minutes and ends every session: after it, the recorded
  exits are the earlier ones that are at most 600 seconds older than the reading of the clock that the handling of the exit makes, and
  that reading. The fifth one in the window quarantines the plugin, without a retry; an earlier one arms a retry after a
  delay between 0.8 and 30 seconds.\<close>

theorem crash_loop_quarantined:
  fixes e s
  assumes "su_child s \<noteq> None" "\<not> su_stopping s" "su_desired s"
  defines "t \<equiv> exited e (su_runID s) s"
  shows "(\<exists>n\<in>{su_ticks s, su_ticks s + 1}. su_exits t =
      [x \<leftarrow> su_exits s. instant (se_now e n) - instant x \<le> 600000000000] @ [se_now e n]) \<and>
    su_child t = None \<and> su_sessions t = [] \<and>
    (if length (su_exits t) \<ge> 5 then su_phase t = PhaseQuarantined \<and> su_retryTimer t = None
     else su_phase t = PhaseBackoff \<and> (\<exists>d. su_retryTimer t = Some d \<and> 4 * second \<le> 5 * d \<and> d \<le> 30 * second))"
proof -
  obtain k where k: "su_child s = Some k" using assms(1) by auto
  define u where "u = exit_gone e k s"
  define n where "n = se_now e (su_ticks u)"
  have t: "t = child_exited e s" using assms(2) k by (simp add: t_def exited_def)
  have x: "su_exits (exit_counted e u) = prune_exits (time_add n (- failureWindow)) (su_exits s) @ [n]"
    by (simp add: exit_counted_def invalidateSessions_eq addExit_def Let_def tick_def n_def) (simp add: u_def)
  have window: "prune_exits (time_add n (- failureWindow)) xs = [x \<leftarrow> xs. instant n - instant x \<le> 600000000000]" for xs
    by (auto simp: prune_exits_def go_time failureWindow_def second_def intro!: filter_cong)
  have reading: "su_ticks u \<in> {su_ticks s, su_ticks s + 1}" by (simp add: u_def exit_gone_def withdraw_eq sup_prim)
  have noted: "su_exits (exit_noted e v) = su_exits v" for v by (simp add: exit_noted_def sup_prim)
  have c: "fst (addExit n (tick u)) = length (su_exits (exit_counted e u))"
    by (simp add: x) (simp add: addExit_def Let_def tick_def u_def)
  have d: "su_desired (exit_counted e u)" "su_child u = None" using assms(3) by (simp_all add: u_def)
  define attempt where "attempt = int64 (su_retryAttempt (exit_noted e (exit_counted e u)) + 1)"
  have b: "second \<le> backoffDelay attempt" "backoffDelay attempt \<le> max_backoff" by (rule backoffDelay_bounds)+
  have j: "4 * second \<le> 5 * jitteredDelay (backoffDelay attempt) f" "jitteredDelay (backoffDelay attempt) f \<le> 30 * second" for f
    using jitter_range [of attempt f] b by auto
  have "su_exits t = su_exits (exit_counted e u)"
    using k by (auto simp: t child_exited_eq Let_def publish_def scheduleRetry_def tick_def noted simp flip: u_def n_def)
  then have "su_exits t = [x \<leftarrow> su_exits s. instant n - instant x \<le> 600000000000] @ [n]" by (simp only: x window)
  then have "\<exists>n\<in>{su_ticks s, su_ticks s + 1}. su_exits t =
      [x \<leftarrow> su_exits s. instant (se_now e n) - instant x \<le> 600000000000] @ [se_now e n]"
    using reading unfolding n_def by blast
  moreover have "su_child t = None \<and> su_sessions t = [] \<and>
    (if length (su_exits t) \<ge> 5 then su_phase t = PhaseQuarantined \<and> su_retryTimer t = None
     else su_phase t = PhaseBackoff \<and> (\<exists>d. su_retryTimer t = Some d \<and> 4 * second \<le> 5 * d \<and> d \<le> 30 * second))"
    using j d c x k by (auto simp: t child_exited_eq Let_def publish_def scheduleRetry_def tick_def noted x
        simp flip: u_def n_def attempt_def)
  ultimately show ?thesis by blast
qed

definition demo_exits :: "nat \<Rightarrow> sup_event list" where
  "demo_exits n = EvCommand False (applyCommand (demo_spec [ExecutionModeResident] [demo_instance ''i'' 1])) #
     concat (map (\<lambda>k. [EvCommand False (exitCommand (of_nat k)), EvRetry]) [1..<Suc n])"

definition demo_fourth :: supervisor where
  "demo_fourth = the (run_steps (sup_step (sup_demo_env (\<lambda>_. None))) (demo_exits 4) (newSupervisor ''p''))"

definition demo_much_later :: sup_env where
  "demo_much_later = (sup_demo_env (\<lambda>_. None))\<lparr>se_now := \<lambda>n. time_add (sup_demo_time n) (3600 * second)\<rparr>"

theorem crash_loop_quarantined_witness:
  "su_phase (exited (sup_demo_env (\<lambda>_. None)) (su_runID demo_fourth) demo_fourth) = PhaseQuarantined \<and>
   su_phase (exited demo_much_later (su_runID demo_fourth) demo_fourth) = PhaseBackoff"
proof -
  have c: "su_child demo_fourth \<noteq> None" "\<not> su_stopping demo_fourth" "su_desired demo_fourth" by code_simp+
  have "5 \<le> length (su_exits (exited (sup_demo_env (\<lambda>_. None)) (su_runID demo_fourth) demo_fourth))" by code_simp
  moreover have "\<not> 5 \<le> length (su_exits (exited demo_much_later (su_runID demo_fourth) demo_fourth))" by code_simp
  ultimately show ?thesis
    using crash_loop_quarantined [OF c, of "sup_demo_env (\<lambda>_. None)"] crash_loop_quarantined [OF c, of demo_much_later] by auto
qed

text \<open>(C22) A quarantined plugin without a child stays so under every event but a restart, a shutdown or an \<open>apply\<close> of another
  specification: nothing else starts a child of it.\<close>

theorem quarantine_holds:
  assumes r: "reaches (sup_step e) (newSupervisor i) s"
    and q: "su_phase s = PhaseQuarantined" "su_child s = None" "su_desired s"
    and step: "sup_step e ev s = Some t"
    and ev: "ev \<noteq> EvShutdown" "ev \<noteq> EvCommand False restartCommand" "\<And>spec. ev = EvCommand False (applyCommand spec) \<Longrightarrow> spec = su_spec s"
  shows "su_phase t = PhaseQuarantined \<and> su_child t = None"
proof -
  have c: "sup_core s" using supervision.reach_inv [OF r] by (simp add: sup_ok_def sup_inv_def)
  have h: "su_healthTimer s = None" "\<not> su_stopping s" using c q(2) by (auto simp: sup_core_def life_ok_def)
  have completion: "su_phase (snd (handleCompletion e x token u)) = su_phase u \<and> su_child (snd (handleCompletion e x token u)) = None"
    if "su_child u = None" for x token u
    using that by (auto simp: handleCompletion_def completeSession_def Let_def publish_def emit_def)
  have apply_same: "su_phase (snd (supervisor_apply e (su_spec s) s)) = PhaseQuarantined \<and> su_child (snd (supervisor_apply e (su_spec s) s)) = None"
    using q h by (simp add: supervisor_apply_eq Let_def apply_target_def apply_stop_old_def apply_stop_changed_def apply_instances_def
        apply_finish_def pruneSessions_eq publish_def)
  have "su_phase (handle e canceled v s) = PhaseQuarantined \<and> su_child (handle e canceled v s) = None"
    if "v \<noteq> restartCommand" "\<And>spec. v = applyCommand spec \<Longrightarrow> spec = su_spec s" for canceled v
    using that q completion apply_same
    by (cases v) (auto simp: handle_def invoke_def supervisor_endSession_def supervisor_sessionInput_def operation_def exited_def Let_def publish_def)
  then have "su_phase t = PhaseQuarantined \<and> su_child t = None" if "ev = EvCommand canceled v" for canceled v
    using that step ev q by (cases canceled; cases v) (auto simp: sup_step_def split: if_splits)
  then show ?thesis
    using step ev(1) q h completion
    by (cases ev) (auto simp: sup_step_def handleRetry_def admitCompletion_def snapshot_status_def Let_def tick_def
        split: if_splits option.splits list.splits)
qed

definition demo_quarantined :: supervisor where
  "demo_quarantined = the (run_steps (sup_step (sup_demo_env (\<lambda>_. None))) (butlast (demo_exits 5)) (newSupervisor ''p''))"

lemma demo_quarantined_reached: "reaches (sup_step (sup_demo_env (\<lambda>_. None))) (newSupervisor ''p'') demo_quarantined"
proof (rule reachesI [of _ "butlast (demo_exits 5)"])
  have "run_steps (sup_step (sup_demo_env (\<lambda>_. None))) (butlast (demo_exits 5)) (newSupervisor ''p'') \<noteq> None" by code_simp
  then show "run_steps (sup_step (sup_demo_env (\<lambda>_. None))) (butlast (demo_exits 5)) (newSupervisor ''p'') = Some demo_quarantined"
    by (auto simp: demo_quarantined_def)
qed

theorem quarantine_holds_witness:
  "\<exists>t. sup_step (sup_demo_env (\<lambda>_. None)) (EvCommand False (demo_invoke ''i'' ''a'')) demo_quarantined = Some t \<and>
     su_phase t = PhaseQuarantined \<and> su_child t = None"
proof -
  let ?ev = "EvCommand False (demo_invoke ''i'' ''a'')"
  have q: "su_phase demo_quarantined = PhaseQuarantined" "su_child demo_quarantined = None" "su_desired demo_quarantined" by code_simp+
  have "sup_step (sup_demo_env (\<lambda>_. None)) ?ev demo_quarantined \<noteq> None" by code_simp
  then obtain t where t: "sup_step (sup_demo_env (\<lambda>_. None)) ?ev demo_quarantined = Some t" by auto
  then show ?thesis using quarantine_holds [OF demo_quarantined_reached q t] by (auto simp: demo_invoke_def)
qed

subsection \<open>No session is lost silently\<close>

text \<open>From \<open>s\<close> to \<open>t\<close> every session of \<open>A\<close> was kept or reported to the core as invalidated.\<close>

definition reported :: "(string \<times> interactiveSession) set \<Rightarrow> supervisor \<Rightarrow> supervisor \<Rightarrow> bool" where
  "reported A s t \<longleftrightarrow> su_id t = su_id s \<and>
     (\<exists>l. su_log t = su_log s @ l \<and>
        (\<forall>i x. (i, x) \<in> A \<and> map_of (su_sessions s) i = Some x \<longrightarrow>
           map_of (su_sessions t) i = Some x \<or>
           (\<exists>reason. CbSessionInvalidated (su_id s) i (is_generation x) (is_token x) reason \<in> set l)))"

lemma reportedI: "su_id t = su_id s \<Longrightarrow> su_sessions t = su_sessions s \<Longrightarrow> su_log t = su_log s @ l \<Longrightarrow> reported A s t"
  by (auto simp: reported_def)

lemma reported_refl [simp]: "reported A s s"
  by (rule reportedI [where l = "[]"]) simp_all

lemma reported_trans:
  assumes "reported A s t" "reported A t u" shows "reported A s u"
proof -
  obtain l m where l: "su_id t = su_id s" "su_log t = su_log s @ l"
      "\<And>i x. (i, x) \<in> A \<Longrightarrow> map_of (su_sessions s) i = Some x \<Longrightarrow> map_of (su_sessions t) i = Some x \<or>
         (\<exists>reason. CbSessionInvalidated (su_id s) i (is_generation x) (is_token x) reason \<in> set l)"
    and m: "su_id u = su_id t" "su_log u = su_log t @ m"
      "\<And>i x. (i, x) \<in> A \<Longrightarrow> map_of (su_sessions t) i = Some x \<Longrightarrow> map_of (su_sessions u) i = Some x \<or>
         (\<exists>reason. CbSessionInvalidated (su_id t) i (is_generation x) (is_token x) reason \<in> set m)"
    using assms unfolding reported_def by metis
  show ?thesis unfolding reported_def
  proof (intro conjI exI [of _ "l @ m"] allI impI)
    fix i x assume "(i, x) \<in> A \<and> map_of (su_sessions s) i = Some x"
    then show "map_of (su_sessions u) i = Some x \<or>
        (\<exists>reason. CbSessionInvalidated (su_id s) i (is_generation x) (is_token x) reason \<in> set (l @ m))"
      using l(3) [of i x] m(3) [of i x] l(1) by auto
  qed (simp_all add: l m)
qed

text \<open>Rules that peel off the last operation of a composition.\<close>

named_theorems report \<comment> \<open>operations that keep or report sessions\<close>

lemma report_prims [report]:
  "reported A s t \<Longrightarrow> reported A s (publish t)" "reported A s t \<Longrightarrow> reported A s (tick t)" "reported A s t \<Longrightarrow> reported A s (setError e code t)"
  "reported A s t \<Longrightarrow> reported A s (recordFailure e code t)" "reported A s t \<Longrightarrow> reported A s (scheduleRetry e t)"
  "reported A s t \<Longrightarrow> reported A s (quarantine e code t)" "reported A s t \<Longrightarrow> reported A s (clearFailures t)"
  "reported A s t \<Longrightarrow> reported A s (queuePostStop p t)" "reported A s t \<Longrightarrow> reported A s (setSessionCleanupError e t)"
  "reported A s t \<Longrightarrow> reported A s (clearSessionCleanupLifecycle t)" "reported A s t \<Longrightarrow> reported A s (clearSessionCleanupState t)"
  "reported A s t \<Longrightarrow> reported A s (removePendingSessionCleanup c t)" "reported A s t \<Longrightarrow> reported A s (scheduleHealth e t)"
  "reported A s t \<Longrightarrow> reported A s (cancelTimers t)" "reported A s t \<Longrightarrow> reported A s (clearPostStop t)" "reported A s t \<Longrightarrow> reported A s (starting t)"
  "reported A s t \<Longrightarrow> reported A s (exit_noted e t)"
  by (erule reported_trans; rule reportedI [where l = "[]"];
      simp add: sup_prim Let_def starting_def exit_noted_def)+

lemma report_fields [report]:
  "reported A s t \<Longrightarrow> reported A s (t\<lparr>su_phase := p\<rparr>)" "reported A s t \<Longrightarrow> reported A s (t\<lparr>su_retryAt := a\<rparr>)"
  "reported A s t \<Longrightarrow> reported A s (t\<lparr>su_phase := p, su_retryAt := a\<rparr>)" "reported A s t \<Longrightarrow> reported A s (t\<lparr>su_postStop := q\<rparr>)"
  "reported A s t \<Longrightarrow> reported A s (t\<lparr>su_pendingCleanups := c\<rparr>)" "reported A s t \<Longrightarrow> reported A s (t\<lparr>su_desired := d, su_spec := sp\<rparr>)"
  "reported A s t \<Longrightarrow> reported A s (t\<lparr>su_desired := d\<rparr>)" "reported A s t \<Longrightarrow> reported A s (t\<lparr>su_childSpec := sp\<rparr>)"
  "reported A s t \<Longrightarrow> reported A s (t\<lparr>su_shutdownErr := err\<rparr>)" "reported A s t \<Longrightarrow> reported A s (t\<lparr>su_healthTimer := h\<rparr>)"
  "reported A s t \<Longrightarrow> reported A s (t\<lparr>su_retryTimer := h\<rparr>)" "reported A s t \<Longrightarrow> reported A s (t\<lparr>su_done := b\<rparr>)"
  "reported A s t \<Longrightarrow> reported A s (t\<lparr>su_completions := cs\<rparr>)" "reported A s t \<Longrightarrow> reported A s (t\<lparr>su_exits := xs\<rparr>)"
  by (erule reported_trans; rule reportedI [where l = "[]"]; simp)+

lemma report_appends [report]:
  "reported A s t \<Longrightarrow> reported A s (emit x t)"
  "reported A s t \<Longrightarrow> reported A s (emitSessionCleanup e t)"
  "reported A s t \<Longrightarrow> reported A s (withdraw e sp t)"
  by (erule reported_trans; rule reportedI; simp add: emit_def emitSessionCleanup_eq withdraw_eq)+

lemma report_call [report]: "reported A s t \<Longrightarrow> reported A s (snd (child_call e x t))"
  by (erule reported_trans, cases "su_child t") (auto simp: child_call_def sup_prim intro!: reportedI)

lemma report_withdrawReplaced [report]: "reported A s t \<Longrightarrow> reported A s (withdrawReplacedInstances e a b t)"
  using withdrawReplacedInstances_log [of e a b t] by (auto elim!: reported_trans intro: reportedI)

lemma report_startChild [report]: "reported A s t \<Longrightarrow> reported A s (snd (startChild e t))"
proof -
  assume t: "reported A s t"
  have "reported A u (child_started e k u)" for k u
    by (rule reportedI) (simp_all add: child_started_def sup_prim Let_def)
  then have "reported A s (child_started e k (starting t))" for k
    using t by (meson reported_trans report)
  then show ?thesis using t by (auto simp: startChild_eq start_failed_def intro!: report split: option.splits)
qed

lemma report_stop [report]:
  "reported A s t \<Longrightarrow> reported A s (snd (finishStop e t))"
  "reported A s t \<Longrightarrow> reported A s (continueAfterStop e a t)"
  "reported A s t \<Longrightarrow> reported A s (snd (stopCurrent e t))"
proof -
  show fin: "reported A s t \<Longrightarrow> reported A s (snd (finishStop e t))" for s t
    by (erule reported_trans, cases "su_child t")
       (auto simp: finishStop_def withdraw_eq sup_prim Let_def intro!: reportedI)
  show cont: "reported A s t \<Longrightarrow> reported A s (continueAfterStop e a t)" for s t a
    by (auto simp: continueAfterStop_def intro!: report split: postStopAction.splits)
  have sent: "reported A t (stop_sent t k)" for k by (rule reportedI) (simp_all add: stop_sent_def sup_prim)
  show "reported A s (snd (stopCurrent e t))" if t: "reported A s t"
  proof (cases "su_child t")
    case (Some k)
    have "reported A s (stop_sent t k)" using t sent reported_trans by blast
    then show ?thesis
      by (auto simp: stopCurrent_eq Some awaitStop_def Let_def split_beta intro!: report fin cont)
  qed (use t in \<open>simp add: stopCurrent_def\<close>)
qed

text \<open>From here on the core listens to invalidations.\<close>

lemma report_invalidate [report]:
  assumes e: "se_SessionInvalidated e" and t: "reported A s t"
  shows "reported A s (invalidateSessions e reason t)"
proof (rule reported_trans [OF t])
  show "reported A t (invalidateSessions e reason t)"
    unfolding reported_def using e
    by (intro conjI exI [of _ "invalidation_log e reason (su_id t) (su_sessions t)"] allI impI)
       (force simp: invalidateSessions_eq invalidation_log_def dest!: map_of_SomeD)+
qed

lemma report_invalidateSession:
  assumes e: "se_SessionInvalidated e" and x: "map_of (su_sessions t) i = Some x" and t: "reported A s t"
  shows "reported A s (invalidateSession e reason i x t)"
proof (rule reported_trans [OF t])
  show "reported A t (invalidateSession e reason i x t)"
    unfolding reported_def using e x
    by (intro conjI exI [of _ "[CbSessionInvalidated (su_id t) i (is_generation x) (is_token x) reason]"] allI impI)
       (auto simp: invalidateSession_def emit_def delete_conv')
qed

lemma report_prune:
  assumes e: "se_SessionInvalidated e" and wf: "alist_wf (su_sessions t)" and t: "reported A s t"
  shows "reported A s (pruneSessions e t)"
proof (rule reported_trans [OF t])
  let ?out = "filter (outdated t) (su_sessions t)"
  have key: "map_of (filter (\<lambda>(k, _). k \<notin> fst ` set ?out) (su_sessions t)) i = Some x \<or> (i, x) \<in> set ?out"
    if "map_of (su_sessions t) i = Some x" for i x
  proof (cases "(i, x) \<in> set ?out")
    case False
    have "i \<notin> fst ` set ?out"
    proof
      assume "i \<in> fst ` set ?out"
      then obtain y where "(i, y) \<in> set ?out" by auto
      moreover from this have "y = x" using that wf by (auto dest: map_of_SomeD eq_key_imp_eq_value)
      ultimately show False using False by simp
    qed
    then show ?thesis using that wf by (simp add: map_of_filter_key)
  qed simp
  show "reported A t (pruneSessions e t)"
    unfolding reported_def using e key
    by (intro conjI exI [of _ "invalidation_log e SessionInvalidatedGeneration (su_id t) ?out"] allI impI)
       (force simp: pruneSessions_eq fold_delete_filter invalidation_log_def)+
qed

lemma report_fail [report]:
  assumes e: "se_SessionInvalidated e"
  shows "reported A s t \<Longrightarrow> reported A s (failAmbiguousLifecycle e code reason t)"
    "reported A s t \<Longrightarrow> reported A s (failClosedSessionCleanup e t)"
  using e by (auto simp: failAmbiguousLifecycle_def failClosedSessionCleanup_def Let_def split_beta intro!: report)

lemma report_enqueue [report]:
  "se_SessionInvalidated e \<Longrightarrow> reported A s t \<Longrightarrow> reported A s (snd (enqueueSessionCleanup e c t))"
  by (auto simp: enqueueSessionCleanup_def Let_def intro!: report)

lemma report_pairs:
  "child_call e x t = (r, u) \<Longrightarrow> reported A s t \<Longrightarrow> reported A s u"
  "se_SessionInvalidated e \<Longrightarrow> enqueueSessionCleanup e c t = (r', u) \<Longrightarrow> reported A s t \<Longrightarrow> reported A s u"
  using report_call [of A s t e x] report_enqueue [of e A s t c] by auto

lemma report_cleanup [report]:
  assumes e: "se_SessionInvalidated e" and t: "reported A s t"
  shows "reported A s (snd (deliverSessionCleanup e c t))" "reported A s (retryPendingSessionCleanup e t)"
proof -
  show "reported A s (snd (deliverSessionCleanup e c t))"
    using t e by (auto simp: deliverSessionCleanup_def Let_def intro!: report dest: report_pairs [rotated -1] split: option.splits prod.splits)
  show "reported A s (retryPendingSessionCleanup e t)"
    using t e by (auto simp: retryPendingSessionCleanup_def Let_def intro!: report dest: report_pairs(1) split: option.splits prod.splits list.splits)
qed

lemma report_replace [report]: "reported A s t \<Longrightarrow> reported A s (snd (replaceChildInstances e t))"
  by (auto simp: replaceChildInstances_def intro!: report dest: report_pairs(1) split: option.splits prod.splits)

lemma report_replaceD: "replaceChildInstances e t = (r, u) \<Longrightarrow> reported A s t \<Longrightarrow> reported A s u"
  using report_replace [of A s t e] by simp

lemma report_reconcile [report]:
  assumes e: "se_SessionInvalidated e" and t: "reported A s t"
  shows "reported A s (reconcileFailed e err t)" "reported A s (snd (apply_finish e t))" "reported A s (snd (stop_for_restart e t))"
  using e t by (auto simp: reconcileFailed_def apply_finish_def stop_for_restart_def Let_def intro!: report)

lemma report_apply:
  assumes e: "se_SessionInvalidated e" and s: "sup_core s"
  shows "reported A s (snd (supervisor_apply e spec s))"
proof -
  have ins: "reported A s (snd (apply_instances e spec t))" if "reported A s t" for t
    using that e by (auto simp: apply_instances_def intro!: report dest: report_replaceD split: option.splits prod.splits)
  define u where "u = (if \<not> su_desired s \<or> su_spec s \<noteq> spec then clearFailures s else s)\<lparr>su_desired := True, su_spec := cloneSpec spec\<rparr>"
  have u: "reported A s u" by (auto simp: u_def intro!: report)
  have "su_sessions (clearFailures s) = su_sessions s" by (simp add: sup_prim Let_def)
  then have "alist_wf (su_sessions u)" using sup_core_wf [OF s] by (simp add: u_def)
  then have "reported A s (apply_target e spec s)"
    unfolding apply_target_def u_def [symmetric] using e u by (intro report_prune)
  then show ?thesis
    using e by (auto simp: supervisor_apply_eq Let_def apply_stop_old_def apply_stop_changed_def intro!: ins report)
qed

lemma report_health:
  assumes e: "se_SessionInvalidated e" shows "reported A s (handleHealth e s)"
proof -
  have fields: "reported A s t \<Longrightarrow> su_id u = su_id t \<Longrightarrow> su_sessions u = su_sessions t \<Longrightarrow> su_log u = su_log t \<Longrightarrow> reported A s u" for t u
    by (erule reported_trans) (auto intro: reportedI [where l = "[]"])
  have hr: "reported A s (health_result e r t)" if "reported A s t" for r t
    using that e by (auto simp: health_result_def Let_def tick_def intro!: report fields [OF that] split: option.splits)
  then show ?thesis
    using e by (auto simp: handleHealth_eq Let_def intro!: hr report split: option.splits)
qed

lemma report_retry:
  assumes e: "se_SessionInvalidated e" shows "reported A s (handleRetry e s)"
  using e by (auto simp: handleRetry_def Let_def intro!: report dest!: report_replaceD [where A = A and s = s] split: option.splits prod.splits)

lemma report_exited:
  assumes e: "se_SessionInvalidated e" shows "reported A s (exited e runID s)"
proof -
  have gone: "reported A s (exit_gone e k s)" for k
    by (rule reportedI) (simp_all add: exit_gone_def withdraw_eq sup_prim)
  have "reported A s (exit_counted e (exit_gone e k s))" for k
    using e gone by (auto simp: exit_counted_def addExit_def Let_def intro!: report)
  then show ?thesis
    by (cases "su_child s") (auto simp: exited_def split_beta child_exited_eq Let_def intro!: report)
qed

text \<open>The commands that end one session, for the others.\<close>

lemma report_drop: "(\<And>x. (i, x) \<in> A \<Longrightarrow> map_of (su_sessions t) i \<noteq> Some x) \<Longrightarrow> reported A s t
    \<Longrightarrow> reported A s (t\<lparr>su_sessions := AList.delete i (su_sessions t)\<rparr>)"
  by (erule reported_trans) (auto simp: reported_def delete_conv')

lemma report_enter: "(\<And>x. (i, x) \<in> A \<Longrightarrow> x = c) \<Longrightarrow> reported A s t
    \<Longrightarrow> reported A s (t\<lparr>su_sessions := AList.update i c (su_sessions t)\<rparr>)"
  by (erule reported_trans) (auto simp: reported_def update_conv')

lemma report_deliverD: "deliverSessionCleanup e c t = (r, u) \<Longrightarrow> se_SessionInvalidated e \<Longrightarrow> reported A s t \<Longrightarrow> reported A s u"
  using report_cleanup(1) [of e A s t c] by simp

lemma report_invoke:
  assumes e: "se_SessionInvalidated e" and A: "\<And>x. (ir_InstanceID request, x) \<notin> A"
  shows "reported A s (snd (invoke e request kind token s))"
proof -
  have child: "reported A s (snd (invoke_child e (request\<lparr>ir_SessionToken := tok\<rparr>) g tok t))" if t: "reported A s t" for g tok t
    using e t A by (auto simp: invoke_child_def Let_def intro!: report report_enter dest: report_pairs(1) report_deliverD
        split: option.splits prod.splits)
  have "reported A s (snd (with_child e s))" by (auto simp: with_child_def intro!: report)
  then show ?thesis
    unfolding invoke_def with_child_def [symmetric] by (auto simp: Let_def split_beta intro!: child split: option.splits)
qed

lemma report_operation: "reported A s (snd (operation e request s))"
proof -
  have child: "reported A s (snd (operation_child e request t))" if "reported A s t" for t
    using that by (auto simp: operation_child_def Let_def split_beta intro!: report)
  have "reported A s (snd (with_child e s))" by (auto simp: with_child_def intro!: report)
  then show ?thesis
    unfolding operation_def with_child_def [symmetric] by (auto simp: Let_def split_beta intro!: child split: option.splits)
qed

lemma report_endSession:
  assumes e: "se_SessionInvalidated e" and A: "(ref_ID target, \<lparr>is_generation = ref_Generation target, is_token = token\<rparr>) \<notin> A"
  shows "reported A s (snd (supervisor_endSession e canceled target token s))"
  using e A by (auto simp: supervisor_endSession_def Let_def split_beta intro!: report report_drop)

lemma report_completion:
  assumes A: "(ref_ID target, \<lparr>is_generation = ref_Generation target, is_token = token\<rparr>) \<notin> A"
  shows "reported A s (snd (handleCompletion e target token s))"
proof -
  define u where "u = s\<lparr>su_sessions := AList.delete (ref_ID target) (su_sessions s)\<rparr>"
  have "reported A s u" if "map_of (su_sessions s) (ref_ID target) = Some \<lparr>is_generation = ref_Generation target, is_token = token\<rparr>"
    unfolding u_def using that A by (auto intro!: report_drop)
  then show ?thesis
    unfolding handleCompletion_def completeSession_def u_def [symmetric]
    by (auto simp: Let_def split_beta intro!: report)
qed

lemma report_sessionInput:
  assumes e: "se_SessionInvalidated e" shows "reported A s (snd (supervisor_sessionInput e request s))"
proof -
  have "su_sessions (setError e code t) = su_sessions t" for code t by (simp add: sup_prim)
  moreover have "su_sessions t = su_sessions s" "reported A s t" if "child_call e x s = (r, t)" for x r t
    using that child_call_simps(4) [of e x s] report_pairs(1) [OF that reported_refl] by auto
  ultimately show ?thesis
    using e by (auto simp: supervisor_sessionInput_def Let_def intro!: report report_invalidateSession split: option.splits prod.splits)
qed

lemma report_restart:
  assumes e: "se_SessionInvalidated e" shows "reported A s (snd (supervisor_restart e s))"
  using e by (auto simp: supervisor_restart_def Let_def split_beta intro!: report)

lemma report_shutdown:
  assumes e: "se_SessionInvalidated e" shows "reported A s (shutdownNow e s)"
  using e by (auto simp: shutdownNow_def Let_def split_beta intro!: report)

text \<open>The session that an event ends or replaces on the request of the core or of the plugin.\<close>

fun ends_session :: "sup_event \<Rightarrow> supervisor \<Rightarrow> string \<Rightarrow> interactiveSession \<Rightarrow> bool" where
  "ends_session (EvCommand _ (endSessionCommand r token)) s i x \<longleftrightarrow> i = ref_ID r \<and> x = \<lparr>is_generation = ref_Generation r, is_token = token\<rparr>"
| "ends_session (EvCommand _ (completeSessionCommand r token)) s i x \<longleftrightarrow> i = ref_ID r \<and> x = \<lparr>is_generation = ref_Generation r, is_token = token\<rparr>"
| "ends_session (EvCommand _ (invokeCommand request _ _)) s i x \<longleftrightarrow> i = ir_InstanceID request"
| "ends_session EvCompletion s i x \<longleftrightarrow>
     (case su_completions s of [] \<Rightarrow> False
      | (r, token) # _ \<Rightarrow> i = ref_ID r \<and> x = \<lparr>is_generation = ref_Generation r, is_token = token\<rparr>)"
| "ends_session _ s i x \<longleftrightarrow> False"

lemma report_step:
  assumes e: "se_SessionInvalidated e" and s: "sup_core s" and step: "sup_step e ev s = Some t"
  shows "reported {(i, x). \<not> ends_session ev s i x} s t"
proof -
  let ?A = "{(i, x). \<not> ends_session ev s i x}"
  have "reported ?A s (handle e canceled v s)" if ev: "ev = EvCommand canceled v" for canceled v
    using e s ev by (cases v) (auto simp: handle_def intro!: report_apply report_invoke report_endSession report_completion
        report_restart report_sessionInput report_operation report_exited)
  moreover have "reported ?A s (snd (handleCompletion e r token (s\<lparr>su_completions := rest\<rparr>)))"
    if "ev = EvCompletion" "su_completions s = (r, token) # rest" for r token rest
    using that by (intro reported_trans [OF report_fields(13) [OF reported_refl], OF report_completion]) auto
  ultimately show ?thesis
    using step e report_health [OF e] report_retry [OF e] reported_trans [OF report_fields(10) [OF reported_refl] report_health [OF e]]
      reported_trans [OF report_fields(11) [OF reported_refl] report_retry [OF e]]
    by (cases ev) (auto simp: sup_step_def admitCompletion_def snapshot_status_def Let_def intro!: report report_shutdown
        split: if_splits option.splits list.splits)
qed

text \<open>(C20) No session is lost silently. When an event makes a supervisor drop an interactive session that the event itself
  did not end or replace, the core is told: the session is reported as invalidated, with its instance, generation
  and token. That is so for crashes, missed pings, stops, restarts, new specifications and failed calls alike.\<close>

theorem dropped_session_reported:
  assumes "reaches (sup_step e) (newSupervisor p) s" "se_SessionInvalidated e" "sup_step e ev s = Some t"
    "map_of (su_sessions s) i = Some x" "map_of (su_sessions t) i \<noteq> Some x" "\<not> ends_session ev s i x"
  shows "\<exists>l reason. su_log t = su_log s @ l \<and> CbSessionInvalidated (su_id s) i (is_generation x) (is_token x) reason \<in> set l"
proof -
  have "sup_core s" using supervision.reach_inv [OF assms(1)] by (simp add: sup_ok_def sup_inv_def)
  from report_step [OF assms(2) this assms(3)] show ?thesis using assms(4-6) unfolding reported_def by blast
qed

definition demo_session :: supervisor where
  "demo_session = the (run_steps (sup_step (sup_demo_env (\<lambda>_. None))) (take 4 demo_events) (newSupervisor ''p''))"

theorem dropped_session_reported_witness:
  "\<exists>t l reason. sup_step (sup_demo_env (\<lambda>_. None)) (EvCommand False (exitCommand 1)) demo_session = Some t \<and>
     su_log t = su_log demo_session @ l \<and> CbSessionInvalidated ''p'' ''i'' 1 ''a'' reason \<in> set l"
proof -
  let ?x = "\<lparr>is_generation = 1, is_token = ''a''\<rparr>"
  have r: "reaches (sup_step (sup_demo_env (\<lambda>_. None))) (newSupervisor ''p'') demo_session"
  proof (rule reachesI [of _ "take 4 demo_events"])
    have "run_steps (sup_step (sup_demo_env (\<lambda>_. None))) (take 4 demo_events) (newSupervisor ''p'') \<noteq> None" by code_simp
    then show "run_steps (sup_step (sup_demo_env (\<lambda>_. None))) (take 4 demo_events) (newSupervisor ''p'') = Some demo_session"
      by (auto simp: demo_session_def)
  qed
  have x: "map_of (su_sessions demo_session) ''i'' = Some ?x" "su_id demo_session = ''p''" by code_simp+
  have "map_option (\<lambda>t. map_of (su_sessions t) ''i'') (sup_step (sup_demo_env (\<lambda>_. None)) (EvCommand False (exitCommand 1)) demo_session) = Some None"
    by code_simp
  then obtain t where t: "sup_step (sup_demo_env (\<lambda>_. None)) (EvCommand False (exitCommand 1)) demo_session = Some t"
      "map_of (su_sessions t) ''i'' \<noteq> Some ?x" by auto
  have "se_SessionInvalidated (sup_demo_env (\<lambda>_. None))" by (simp add: sup_demo_env_def)
  from dropped_session_reported [OF r this t(1) x(1) t(2)] show ?thesis using t(1) x(2) by auto
qed

subsection \<open>Where the supervisor leaves a session without a child\<close>

text \<open>An ambiguous end of the previous session stops the child and invalidates its sessions, but \<open>invoke\<close> goes on,
  registers the new session and returns success.\<close>

theorem invoke_succeeds_without_child:
  "map_option (\<lambda>s. (fst (invoke (sup_demo_env (\<lambda>n. if n = 4 then Some unknown_outcome else None))
       \<lparr>ir_InstanceID = ''i'', ir_Generation = 1, ir_Action = '''', ir_Payload = None, ir_SessionToken = '''', ir_Trigger = None\<rparr>
       InvocationInteractive ''b'' s),
     (let t = handle (sup_demo_env (\<lambda>n. if n = 4 then Some unknown_outcome else None)) False (demo_invoke ''i'' ''b'') s
      in (su_child t, su_phase t, su_sessions t))))
   (run_steps (sup_step (sup_demo_env (\<lambda>n. if n = 4 then Some unknown_outcome else None)))
     [EvCommand False (applyCommand (demo_spec [ExecutionModeInteractive] [demo_instance ''i'' 1])), EvCommand False (demo_invoke ''i'' ''a'')]
     (newSupervisor ''p'')) =
   Some (None, None, PhaseBackoff, [(''i'', \<lparr>is_generation = 1, is_token = ''b''\<rparr>)])"
  by code_simp

text \<open>A failed input to one session of an interactive plugin stops the child, although another session is open;
  that session stays registered and is not reported.\<close>

theorem failed_input_strands_other_session:
  "map_option (\<lambda>s. (su_child s, su_phase s, su_sessions s))
   (run_steps (sup_step (sup_demo_env (\<lambda>n. if n = 4 then Some failed_call else None)))
     [EvCommand False (applyCommand (demo_spec [ExecutionModeInteractive] [demo_instance ''i'' 1, demo_instance ''j'' 1])),
      EvCommand False (demo_invoke ''i'' ''a''), EvCommand False (demo_invoke ''j'' ''b''), EvCommand False (demo_input ''i'' ''a'')]
     (newSupervisor ''p'')) =
   Some (None, PhaseStopped, [(''j'', \<lparr>is_generation = 1, is_token = ''b''\<rparr>)])"
  by code_simp

text \<open>A plugin whose new instances were rejected for good is quarantined with its old child, and the next successful ping
  takes it out of quarantine although the specification has not changed and was not applied.\<close>

theorem ping_ends_quarantine:
  "map (\<lambda>evs. map_option (\<lambda>s. (su_phase s, su_lastErrorCode s, su_childSpec s = su_spec s))
     (run_steps (sup_step (sup_demo_env (\<lambda>n. if n = 2 then Some invalid_argument else None))) evs (newSupervisor ''p'')))
   [[EvCommand False (applyCommand (demo_spec [ExecutionModeResident] [demo_instance ''i'' 1])),
     EvCommand False (applyCommand (demo_spec [ExecutionModeResident] [demo_instance ''i'' 2]))],
    [EvCommand False (applyCommand (demo_spec [ExecutionModeResident] [demo_instance ''i'' 1])),
     EvCommand False (applyCommand (demo_spec [ExecutionModeResident] [demo_instance ''i'' 2])), EvHealth]] =
   [Some (PhaseQuarantined, ErrorCodeConfigurationRejected, False), Some (PhaseRunning, ErrorCodeConfigurationRejected, False)]"
  by code_simp

end
