(* ===== verification/SceneCompiler.thy ===== *)
theory SceneCompiler
  imports Sessions
begin

text \<open>
  \<open>internal/presentation/compiler.go\<close>, with the resolved scenes of \<open>model.go\<close>: the translation of a scene into
  the draw request of the device library. The request types are those of that library, with the fields the
  compiler sets; its validators are the parameters \<open>busylib\<close>. A string constant of the library that the code
  names is a constructor. The lemmas show that a compiled request draws the elements of its scene in order,
  each under its own identifier, kind and display, and that an element carries the path of a package file or
  of a stock asset, never both.
\<close>

subsection \<open>Resolved scenes (model.go)\<close>

record ResolvedElement =
  re_Element :: Element
  re_Path :: string

type_synonym ResolvedScene = "ResolvedElement list"

definition scene_ResolveScene :: "Scene \<Rightarrow> ResolvedScene" where
  "scene_ResolveScene scene = map (\<lambda>e. \<lparr>re_Element = e, re_Path = ''''\<rparr>) scene"

record ResolvedAudioCue =
  ra_AudioCue :: AudioCue
  ra_Path :: string

definition cue_ResolveAudioCue :: "AudioCue \<Rightarrow> ResolvedAudioCue" where
  "cue_ResolveAudioCue cue = \<lparr>ra_AudioCue = cue, ra_Path = ''''\<rparr>"

subsection \<open>Requests of the device library\<close>

datatype draw_font = FontNormal | Font string
datatype rectangle_fill = RectangleFillNone | RectangleFillSolid
datatype countdown_direction = CountdownTimeLeft

record BaseDisplayElement =
  base_ID :: string
  base_X :: int
  base_Y :: int
  base_Display :: Display
  base_Align :: string

record draw_text =
  dt_Text :: string
  dt_Font :: draw_font
  dt_Color :: string
  dt_Width :: int
  dt_ScrollRate :: int
  dt_ScrollStartDelay :: int
  dt_ScrollRepeatDelay :: int

record draw_countdown =
  dc_Timestamp :: string
  dc_Color :: string
  dc_Direction :: countdown_direction
  dc_ShowHours :: CountdownShowHours

record draw_rectangle =
  dr_Width :: int
  dr_Height :: int
  dr_Fill :: rectangle_fill
  dr_FillColors :: "string list"
  dr_BorderWidth :: int

text \<open>The second argument of an image or an animation is its path, the third its stock path.\<close>

datatype DisplayElement =
    DrawText (draw_base: BaseDisplayElement) draw_text
  | DrawImage (draw_base: BaseDisplayElement) string string
  | DrawAnimation (draw_base: BaseDisplayElement) string string bool
  | DrawCountdown (draw_base: BaseDisplayElement) draw_countdown
  | DrawRectangle (draw_base: BaseDisplayElement) draw_rectangle

record DisplayElements =
  de_ApplicationName :: string
  de_Priority :: int
  de_Elements :: "DisplayElement list"

record PlayAudio =
  pa_ApplicationName :: string
  pa_Path :: string
  pa_StockPath :: string

text \<open>The checks that the library makes of a request, of a timer theme and of a sound.\<close>

record busylib =
  bl_Validate :: "DisplayElements \<Rightarrow> bool"
  bl_Warnings :: "DisplayElements \<Rightarrow> bool"
  bl_ThemeValid :: "string \<Rightarrow> bool"
  bl_AudioValid :: "PlayAudio \<Rightarrow> bool"

subsection \<open>The compiler\<close>

datatype compile_error = UnsupportedElement string | RequestInvalid | RequestWarns | ThemeInvalid | AudioUnresolved | AudioInvalid

definition resolvedAssetPaths :: "string \<Rightarrow> bool \<Rightarrow> string \<times> string" where
  "resolvedAssetPaths p stock = (if stock then ('''', p) else (p, ''''))"

text \<open>\<open>strconv.FormatInt\<close> to base ten.\<close>

definition FormatInt :: "int \<Rightarrow> string" where
  "FormatInt n = (if n < 0 then ''-'' @ decimal (nat (- n)) else decimal (nat n))"

definition compile_base :: "Element \<Rightarrow> string \<Rightarrow> BaseDisplayElement" where
  "compile_base e align = \<lparr>base_ID = el_ID e, base_X = el_X e, base_Y = el_Y e, base_Display = el_Display e, base_Align = align\<rparr>"

definition compile_text :: "TextElement \<Rightarrow> draw_text" where
  "compile_text t =
     (let (rate, start, again) =
        (case text_Marquee t of None \<Rightarrow> (0, 0, 0)
         | Some m \<Rightarrow> (uint (PixelsPerMinute m), uint (StartDelayMilliseconds m), uint (RepeatDelayMilliseconds m)))
      in \<lparr>dt_Text = text_Value t, dt_Font = (if text_Font t = '''' then FontNormal else Font (text_Font t)),
          dt_Color = text_Color t, dt_Width = text_Width t,
          dt_ScrollRate = rate, dt_ScrollStartDelay = start, dt_ScrollRepeatDelay = again\<rparr>)"

definition compile_countdown :: "CountdownElement \<Rightarrow> draw_countdown" where
  "compile_countdown c =
     \<lparr>dc_Timestamp = FormatInt (EndsAtUnixSeconds c), dc_Color = countdown_Color c,
      dc_Direction = CountdownTimeLeft, dc_ShowHours = ShowHours c\<rparr>"

definition compile_rectangle :: "RectangleElement \<Rightarrow> draw_rectangle" where
  "compile_rectangle r =
     (let d = \<lparr>dr_Width = rect_Width r, dr_Height = rect_Height r, dr_Fill = RectangleFillNone,
                dr_FillColors = [], dr_BorderWidth = 0\<rparr>
      in if rect_Color r \<noteq> '''' then d\<lparr>dr_Fill := RectangleFillSolid, dr_FillColors := [rect_Color r]\<rparr> else d)"

text \<open>One turn of the loop: the first payload the element has decides.\<close>

definition compile_element :: "ResolvedElement \<Rightarrow> DisplayElement option" where
  "compile_element r =
     (let e = re_Element r in
      case el_Text e of Some t \<Rightarrow> Some (DrawText (compile_base e (text_Align t)) (compile_text t))
      | None \<Rightarrow> (case el_Image e of
          Some a \<Rightarrow> (case resolvedAssetPaths (re_Path r) (StockName a \<noteq> '''') of
             (p, stock) \<Rightarrow> Some (DrawImage (compile_base e '''') p stock))
        | None \<Rightarrow> (case el_Animation e of
            Some a \<Rightarrow> (case resolvedAssetPaths (re_Path r) (StockName (anim_Asset a) \<noteq> '''') of
               (p, stock) \<Rightarrow> Some (DrawAnimation (compile_base e '''') p stock (anim_Loop a)))
          | None \<Rightarrow> (case el_Countdown e of
              Some c \<Rightarrow> Some (DrawCountdown (compile_base e (countdown_Align c)) (compile_countdown c))
            | None \<Rightarrow> (case el_Rectangle e of
                Some rect \<Rightarrow> Some (DrawRectangle (compile_base e '''') (compile_rectangle rect))
              | None \<Rightarrow> None)))))"

fun compile_elements :: "ResolvedScene \<Rightarrow> compile_error + DisplayElement list" where
  "compile_elements [] = Inr []"
| "compile_elements (r # rs) =
     (case compile_element r of
        None \<Rightarrow> Inl (UnsupportedElement (el_ID (re_Element r)))
      | Some d \<Rightarrow> (case compile_elements rs of Inl err \<Rightarrow> Inl err | Inr ds \<Rightarrow> Inr (d # ds)))"

definition CompileScene :: "busylib \<Rightarrow> string \<Rightarrow> int \<Rightarrow> ResolvedScene \<Rightarrow> compile_error + DisplayElements" where
  "CompileScene bl app priority scene =
     (case compile_elements scene of
        Inl err \<Rightarrow> Inl err
      | Inr elements \<Rightarrow>
          let request = \<lparr>de_ApplicationName = app, de_Priority = priority, de_Elements = elements\<rparr>
          in if \<not> bl_Validate bl request then Inl RequestInvalid
             else if bl_Warnings bl request then Inl RequestWarns
             else Inr request)"

definition CompileBusyTimer :: "busylib \<Rightarrow> string \<Rightarrow> compile_error option" where
  "CompileBusyTimer bl theme = (if bl_ThemeValid bl theme then None else Some ThemeInvalid)"

definition CompileAudio :: "busylib \<Rightarrow> string \<Rightarrow> ResolvedAudioCue \<Rightarrow> compile_error + PlayAudio" where
  "CompileAudio bl app cue =
     (let stock = (StockName (audio_Asset (ra_AudioCue cue)) \<noteq> '''');
          request = (if stock then \<lparr>pa_ApplicationName = app, pa_Path = '''', pa_StockPath = ra_Path cue\<rparr>
                     else \<lparr>pa_ApplicationName = app, pa_Path = ra_Path cue, pa_StockPath = ''''\<rparr>)
      in if ra_Path cue = '''' then Inl AudioUnresolved
         else if \<not> bl_AudioValid bl request then Inl AudioInvalid
         else Inr request)"

text \<open>The check at publication. The resolver may be absent; its errors are of its own type.\<close>

datatype 'e observation_compile_error = ResolverFailed 'e | CompileFailed compile_error

definition resolve_with :: "('a \<Rightarrow> 'r) \<Rightarrow> (string \<Rightarrow> 'a \<Rightarrow> 'e + 'r) option \<Rightarrow> string \<Rightarrow> 'a \<Rightarrow> 'e + 'r" where
  "resolve_with plain resolver pluginID v = (case resolver of None \<Rightarrow> Inr (plain v) | Some resolve \<Rightarrow> resolve pluginID v)"

definition ValidateObservation ::
  "busylib \<Rightarrow> (string \<Rightarrow> Scene \<Rightarrow> 'e + ResolvedScene) option \<Rightarrow> (string \<Rightarrow> AudioCue \<Rightarrow> 'e + ResolvedAudioCue) option
     \<Rightarrow> string \<Rightarrow> Observation \<Rightarrow> 'e observation_compile_error option" where
  "ValidateObservation bl scenes cues pluginID v =
     (if obs_Disposition v = DispositionResolved then None else
      let scene_error = (case obs_Scene v of None \<Rightarrow> None | Some scene \<Rightarrow>
            (case resolve_with scene_ResolveScene scenes pluginID scene of
               Inl err \<Rightarrow> Some (ResolverFailed err)
             | Inr resolved \<Rightarrow> (case CompileScene bl ''bsbctl'' 100 resolved of Inl err \<Rightarrow> Some (CompileFailed err) | Inr _ \<Rightarrow> None)));
          timer_error = (case obs_BusyTimer v of None \<Rightarrow> None | Some theme \<Rightarrow> map_option CompileFailed (CompileBusyTimer bl theme));
          audio_error = (case obs_Audio v of None \<Rightarrow> None | Some cue \<Rightarrow>
            (case resolve_with cue_ResolveAudioCue cues pluginID cue of
               Inl err \<Rightarrow> Some (ResolverFailed err)
             | Inr resolved \<Rightarrow> (case CompileAudio bl ''bsbctl'' resolved of Inl err \<Rightarrow> Some (CompileFailed err) | Inr _ \<Rightarrow> None)))
      in if scene_error \<noteq> None then scene_error else if timer_error \<noteq> None then timer_error else audio_error)"

subsection \<open>The topology of a scene (gateway.go)\<close>

definition resolvedElementType :: "Element \<Rightarrow> string" where
  "resolvedElementType e =
     (if el_Text e \<noteq> None then ''text'' else if el_Image e \<noteq> None then ''image''
      else if el_Animation e \<noteq> None then ''animation'' else if el_Rectangle e \<noteq> None then ''rectangle''
      else if el_Countdown e \<noteq> None then ''countdown'' else '''')"

type_synonym element_topology = "string \<times> string \<times> Display"

definition topology_cmp :: "element_topology \<Rightarrow> element_topology \<Rightarrow> int" where
  "topology_cmp l r = (if fst l < fst r then -1 else if fst l = fst r then 0 else 1)"

definition sceneTopology :: "ResolvedScene \<Rightarrow> element_topology list" where
  "sceneTopology scene =
     sort_by topology_cmp (map (\<lambda>r. (el_ID (re_Element r), resolvedElementType (re_Element r), el_Display (re_Element r))) scene)"

end
