(* ===== verification/Gateway.thy ===== *)
theory Gateway
  imports SceneCompiler Engine Machines
begin

text \<open>
  \<open>internal/device/gateway.go\<close>: the worker that owns the output of the device. Its mutex covers a whole
  operation, so each is one function on the state. Everything behind an interface answers from the environment
  \<open>gateway_env\<close>, indexed by the number of earlier answers: the display, the resolver of assets, the clock and
  the delay of the readback loop. The encodings to JSON and the hash are parameters. The calls that reach the
  display are logged with their replies, so that a property can speak of what the device was told. A call that
  fails may still have been carried out: the reply \<open>Failed\<close> says whether it was, and the gateway cannot see it.
\<close>

unbundle bit_operations_syntax

subsection \<open>State and environment\<close>

datatype reply = Done | Conflict | Failed render_error bool

definition reply_error :: "reply \<Rightarrow> render_error option" where
  "reply_error r = (case r of Done \<Rightarrow> None | Conflict \<Rightarrow> Some ErrDevice | Failed err _ \<Rightarrow> Some err)"

datatype BusySnapshotType = BusySnapshotNotStarted | BusySnapshotSimple | OtherSnapshotType string

text \<open>The settings of the timer: the theme, and the rest, which is only passed on.\<close>

record BusyBarSettings =
  bs_Theme :: string
  bs_rest :: string

record BusySnapshot =
  sn_TimestampMS :: int
  sn_Type :: BusySnapshotType
  sn_CardID :: string
  sn_TimeLeftMS :: "int option"
  sn_IsPaused :: "bool option"
  sn_BusyBarSettings :: BusyBarSettings

record audioCueIdentity =
  ci_pluginID :: string
  ci_instanceID :: string
  ci_generation :: u64
  ci_cueID :: string
  ci_assetPath :: string

definition cue_less :: "audioCueIdentity \<Rightarrow> audioCueIdentity \<Rightarrow> bool" where
  "cue_less i j =
     (if ci_pluginID i \<noteq> ci_pluginID j then ci_pluginID i < ci_pluginID j
      else if ci_instanceID i \<noteq> ci_instanceID j then ci_instanceID i < ci_instanceID j
      else if ci_generation i \<noteq> ci_generation j then ci_generation i < ci_generation j
      else if ci_assetPath i \<noteq> ci_assetPath j then ci_assetPath i < ci_assetPath j
      else ci_cueID i < ci_cueID j)"

record preparedAudioCue =
  pa_request :: PlayAudio
  pa_identity :: audioCueIdentity
  pa_expiresAt :: gotime

text \<open>What the display is told, and what happens to it: the last two are the firmware closing the canvas and a new connection after which the canvas has survived or not.\<close>

datatype device_call =
    DrawCall DisplayElements reply
  | ClearCall string reply
  | ReadBusy "render_error + BusySnapshot"
  | ReadTime "render_error + string"
  | SetBusy BusySnapshot reply
  | PlayCall preparedAudioCue reply
  | CanvasClosed
  | Reconnected bool

record Gateway =
  gw_display :: bool
  gw_lastDigest :: string
  gw_lastTopology :: string
  gw_hasScene :: bool
  gw_lastPriority :: int
  gw_assets :: bool
  gw_busyCardID :: string
  gw_busyDigest :: string
  gw_playedAudio :: "(audioCueIdentity \<times> gotime) list"
  gw_lastAudioErr :: string
  gw_audioAttempts :: u64
  gw_calls :: "device_call list"
  gw_ticks :: nat

record gateway_env =
  ge_lib :: busylib
  ge_sha256 :: "string \<Rightarrow> string"
  ge_json_request :: "DisplayElements \<Rightarrow> string option"
  ge_json_topology :: "element_topology list \<Rightarrow> string"
  ge_json_timer :: "string \<Rightarrow> string \<Rightarrow> gotime \<Rightarrow> string option"
  ge_parse :: "string \<Rightarrow> gotime option"
  ge_BusyTimerDisplay :: bool
  ge_AudioDisplay :: bool
  ge_AudioAssetResolver :: bool
  ge_now :: "nat \<Rightarrow> gotime"
  ge_reply :: "nat \<Rightarrow> reply"
  ge_busy :: "nat \<Rightarrow> render_error + BusySnapshot"
  ge_time :: "nat \<Rightarrow> render_error + string"
  ge_wait :: "nat \<Rightarrow> render_error option"
  ge_ResolveScene :: "nat \<Rightarrow> string \<Rightarrow> Scene \<Rightarrow> ResolvedScene option"
  ge_ResolveAudioCue :: "nat \<Rightarrow> string \<Rightarrow> AudioCue \<Rightarrow> ResolvedAudioCue option"

definition device_ApplicationName :: string where "device_ApplicationName = ''bsbctl''"
definition maxPlayedAudioCues :: nat where "maxPlayedAudioCues = 256"

text \<open>The zero value of a digest.\<close>

definition zero_digest :: string where "zero_digest = replicate 32 (CHR 0x00)"

definition newGateway :: "bool \<Rightarrow> bool \<Rightarrow> Gateway" where
  "newGateway display resolver =
     \<lparr>gw_display = display, gw_lastDigest = zero_digest, gw_lastTopology = zero_digest, gw_hasScene = False, gw_lastPriority = 0,
      gw_assets = resolver, gw_busyCardID = '''', gw_busyDigest = zero_digest, gw_playedAudio = [], gw_lastAudioErr = '''',
      gw_audioAttempts = 0, gw_calls = [], gw_ticks = 0\<rparr>"

datatype gateway_error = DisplayRequired | ResolverRequired

definition NewGateway :: "bool \<Rightarrow> bool \<Rightarrow> gateway_error + Gateway" where
  "NewGateway display resolver =
     (if \<not> display then Inl DisplayRequired else if \<not> resolver then Inl ResolverRequired else Inr (newGateway display resolver))"

definition gateway_Status :: "Gateway \<Rightarrow> u64 \<times> string" where
  "gateway_Status g = (gw_audioAttempts g, gw_lastAudioErr g)"

subsection \<open>Calls of the environment\<close>

definition answer :: "(nat \<Rightarrow> 'a) \<Rightarrow> Gateway \<Rightarrow> 'a \<times> Gateway" where
  "answer f g = (f (gw_ticks g), g\<lparr>gw_ticks := Suc (gw_ticks g)\<rparr>)"

definition call :: "('a \<Rightarrow> device_call) \<Rightarrow> (nat \<Rightarrow> 'a) \<Rightarrow> Gateway \<Rightarrow> 'a \<times> Gateway" where
  "call entry f g =
     (f (gw_ticks g), g\<lparr>gw_ticks := Suc (gw_ticks g), gw_calls := gw_calls g @ [entry (f (gw_ticks g))]\<rparr>)"

subsection \<open>Resetting\<close>

definition resetScene :: "Gateway \<Rightarrow> Gateway" where
  "resetScene g = g\<lparr>gw_hasScene := False, gw_lastDigest := zero_digest, gw_lastTopology := zero_digest, gw_lastPriority := 0\<rparr>"

definition resetBusyTimer :: "Gateway \<Rightarrow> Gateway" where
  "resetBusyTimer g = g\<lparr>gw_busyCardID := '''', gw_busyDigest := zero_digest\<rparr>"

definition InvalidateCanvas :: "Gateway \<Rightarrow> Gateway" where
  "InvalidateCanvas g = resetScene g"

definition gateway_InvalidateConnection :: "Gateway \<Rightarrow> Gateway" where
  "gateway_InvalidateConnection g = g\<lparr>gw_lastDigest := zero_digest, gw_busyDigest := zero_digest\<rparr>"

subsection \<open>Native timers\<close>

definition hex_digit :: "nat \<Rightarrow> char" where
  "hex_digit n = ''0123456789abcdef'' ! (n mod 16)"

definition hex_bytes :: "nat list \<Rightarrow> string" where
  "hex_bytes bs = concat (map (\<lambda>b. [hex_digit (b div 16), hex_digit b]) bs)"

definition busyCardID :: "gateway_env \<Rightarrow> string \<Rightarrow> string" where
  "busyCardID e identity =
     (let v0 = map of_char (ge_sha256 e identity) :: nat list;
          v1 = v0[6 := ((v0 ! 6) AND 0x0f) OR 0x50];
          v = v1[8 := ((v1 ! 8) AND 0x3f) OR 0x80]
      in hex_bytes (take 4 v) @ ''-'' @ hex_bytes (take 2 (drop 4 v)) @ ''-'' @ hex_bytes (take 2 (drop 6 v)) @ ''-''
         @ hex_bytes (take 2 (drop 8 v)) @ ''-'' @ hex_bytes (take 6 (drop 10 v)))"

text \<open>Milliseconds since 1970; the zero time is the first instant of year 1.\<close>

definition UnixMilli :: "gotime \<Rightarrow> int" where
  "UnixMilli t = (instant t - 62135596800 * second) div millisecond"

definition minute :: int where "minute = 60 * second"

text \<open>The timestamp of a snapshot that supersedes the current one, read from the clock of the device.\<close>

definition snapshot_timestamp :: "gateway_env \<Rightarrow> BusySnapshot \<Rightarrow> Gateway \<Rightarrow> (render_error + int) \<times> Gateway" where
  "snapshot_timestamp e current g =
     (case call ReadTime (ge_time e) g of
        (Inl err, g1) \<Rightarrow> (Inl err, g1)
      | (Inr stamp, g1) \<Rightarrow>
          (case ge_parse e stamp of
             None \<Rightarrow> (Inl ErrDevice, g1)
           | Some deviceNow \<Rightarrow>
               let timestampMS = max (int64 (sn_TimestampMS current + 1)) (UnixMilli deviceNow)
               in if timestampMS > UnixMilli (time_add deviceNow minute) then (Inl ErrDevice, g1)
                  else (Inr timestampMS, g1)))"

definition stopOwnedBusyTimer :: "gateway_env \<Rightarrow> Gateway \<Rightarrow> (render_error + bool) \<times> Gateway" where
  "stopOwnedBusyTimer e g =
     (if gw_busyCardID g = '''' then (Inr False, g)
      else if \<not> ge_BusyTimerDisplay e then (Inl ErrDevice, g)
      else case call ReadBusy (ge_busy e) g of
        (Inl err, g1) \<Rightarrow> (Inl err, g1)
      | (Inr current, g1) \<Rightarrow>
          if sn_CardID current \<noteq> gw_busyCardID g1 then (Inr False, resetBusyTimer g1)
          else case snapshot_timestamp e current g1 of
            (Inl err, g2) \<Rightarrow> (Inl err, g2)
          | (Inr timestampMS, g2) \<Rightarrow>
              let request = \<lparr>sn_TimestampMS = timestampMS, sn_Type = BusySnapshotNotStarted, sn_CardID = '''',
                    sn_TimeLeftMS = None, sn_IsPaused = None, sn_BusyBarSettings = sn_BusyBarSettings current\<rparr>
              in case call (SetBusy request) (ge_reply e) g2 of (r, g3) \<Rightarrow>
                   (case reply_error r of
                      Some err \<Rightarrow> (Inl err, g3)
                    | None \<Rightarrow> (Inr True, resetBusyTimer g3)))"

definition timer_applied :: "string \<Rightarrow> string \<Rightarrow> int \<Rightarrow> BusySnapshot \<Rightarrow> bool" where
  "timer_applied cardID theme requestedMS s \<longleftrightarrow>
     sn_Type s = BusySnapshotSimple \<and> sn_CardID s = cardID \<and> bs_Theme (sn_BusyBarSettings s) = theme \<and>
     sn_IsPaused s = Some False \<and>
     (case sn_TimeLeftMS s of None \<Rightarrow> False | Some left \<Rightarrow> left > 0 \<and> left \<le> requestedMS)"

text \<open>The readback loop, by the number of attempts that are left; the code starts with three.\<close>

primrec verifyBusyTimer :: "gateway_env \<Rightarrow> string \<Rightarrow> string \<Rightarrow> int \<Rightarrow> nat \<Rightarrow> Gateway \<Rightarrow> render_error option \<times> Gateway" where
  "verifyBusyTimer e cardID theme requestedMS 0 g = (Some ErrDevice, g)"
| "verifyBusyTimer e cardID theme requestedMS (Suc n) g =
     (case call ReadBusy (ge_busy e) g of
        (Inl err, g1) \<Rightarrow> (Some err, g1)
      | (Inr s, g1) \<Rightarrow>
          if timer_applied cardID theme requestedMS s then (None, g1)
          else if n = 0 then verifyBusyTimer e cardID theme requestedMS n g1
          else case answer (ge_wait e) g1 of
            (Some err, g2) \<Rightarrow> (Some err, g2)
          | (None, g2) \<Rightarrow> verifyBusyTimer e cardID theme requestedMS n g2)"

text \<open>From the clearing of the canvas on; \<open>digest\<close> is the digest of the timer, which lasts \<open>remainingMS\<close>.\<close>

definition startBusyTimer ::
  "gateway_env \<Rightarrow> string \<Rightarrow> string \<Rightarrow> string \<Rightarrow> int \<Rightarrow> Gateway \<Rightarrow> render_result \<times> Gateway" where
  "startBusyTimer e cardID theme digest remainingMS g =
     (case call (ClearCall device_ApplicationName) (ge_reply e) g of (r, g1) \<Rightarrow>
      case reply_error r of Some err \<Rightarrow> ((OutcomeDeviceUnavailable, Some err), g1) | None \<Rightarrow>
      case call ReadBusy (ge_busy e) (resetScene g1) of
        (Inl err, g2) \<Rightarrow> ((OutcomeDeviceUnavailable, Some err), g2)
      | (Inr current, g2) \<Rightarrow>
      case snapshot_timestamp e current g2 of
        (Inl err, g3) \<Rightarrow> ((OutcomeDeviceUnavailable, Some err), g3)
      | (Inr timestampMS, g3) \<Rightarrow>
      let request = \<lparr>sn_TimestampMS = timestampMS, sn_Type = BusySnapshotSimple, sn_CardID = cardID,
            sn_TimeLeftMS = Some remainingMS, sn_IsPaused = Some False,
            sn_BusyBarSettings = (sn_BusyBarSettings current)\<lparr>bs_Theme := theme\<rparr>\<rparr>
      in case call (SetBusy request) (ge_reply e) g3 of (r, g4) \<Rightarrow>
      case reply_error r of Some err \<Rightarrow> ((OutcomeDeviceUnavailable, Some err), g4) | None \<Rightarrow>
      case verifyBusyTimer e cardID theme remainingMS 3 (g4\<lparr>gw_busyCardID := cardID, gw_busyDigest := zero_digest\<rparr>) of
        (Some err, g5) \<Rightarrow> ((OutcomeDeviceUnavailable, Some err), g5)
      | (None, g5) \<Rightarrow> ((OutcomeDrawn, None), g5\<lparr>gw_busyDigest := digest\<rparr>))"

definition renderBusyTimer :: "gateway_env \<Rightarrow> Candidate \<Rightarrow> string \<Rightarrow> Gateway \<Rightarrow> render_result \<times> Gateway" where
  "renderBusyTimer e c theme g =
     (if \<not> ge_BusyTimerDisplay e then ((OutcomeDeviceUnavailable, Some ErrDevice), g)
      else let cardID = busyCardID e (cd_ID c) in
      case ge_json_timer e cardID theme (time_utc (cd_ExpiresAt c)) of
        None \<Rightarrow> ((OutcomeInvalidPresentation, Some ErrDevice), g)
      | Some payload \<Rightarrow>
          let digest = ge_sha256 e payload in
          if gw_busyCardID g \<noteq> '''' \<and> digest = gw_busyDigest g then ((OutcomeUnchanged, None), g)
          else case answer (ge_now e) g of (now, g1) \<Rightarrow>
            let remaining = time_sub (cd_ExpiresAt c) now in
            if remaining \<le> 0 then ((OutcomeInvalidPresentation, Some ErrDevice), g1)
            else startBusyTimer e cardID theme digest (max 1 (remaining div millisecond)) g1)"

subsection \<open>Sounds\<close>

definition compileAudioCue :: "gateway_env \<Rightarrow> Candidate \<Rightarrow> Gateway \<Rightarrow> (render_result + preparedAudioCue option) \<times> Gateway" where
  "compileAudioCue e c g =
     (case cd_AudioCue c of
        None \<Rightarrow> (Inr None, g)
      | Some cue \<Rightarrow>
          (case answer (ge_now e) g of (now, g1) \<Rightarrow>
           if \<not> time_after (audio_ExpiresAt cue) now then (Inr None, g1)
           else case (if gw_assets g1 \<and> ge_AudioAssetResolver e
                      then answer (\<lambda>n. ge_ResolveAudioCue e n (cd_PluginID c) cue) g1
                      else (Some (cue_ResolveAudioCue cue), g1)) of
             (None, g2) \<Rightarrow> (Inl (OutcomeAssetMissing, Some ErrDevice), g2)
           | (Some resolved, g2) \<Rightarrow>
               (case CompileAudio (ge_lib e) device_ApplicationName resolved of
                  Inl _ \<Rightarrow> (Inl (OutcomeInvalidPresentation, Some ErrInvalidPresentation), g2)
                | Inr request \<Rightarrow>
                    (Inr (Some \<lparr>pa_request = request,
                       pa_identity = \<lparr>ci_pluginID = cd_PluginID c, ci_instanceID = cd_InstanceID c, ci_generation = cd_Generation c,
                         ci_cueID = audio_ID cue, ci_assetPath = ra_Path resolved\<rparr>,
                       pa_expiresAt = audio_ExpiresAt cue\<rparr>), g2))))"

text \<open>The entry that expires first, with ties broken by identity, starting from the new one.\<close>

definition older_cue :: "audioCueIdentity \<times> gotime \<Rightarrow> audioCueIdentity \<times> gotime \<Rightarrow> bool" where
  "older_cue a b \<longleftrightarrow> time_before (snd a) (snd b) \<or> time_equal (snd a) (snd b) \<and> cue_less (fst a) (fst b)"

definition oldest_cue :: "audioCueIdentity \<times> gotime \<Rightarrow> (audioCueIdentity \<times> gotime) list \<Rightarrow> audioCueIdentity" where
  "oldest_cue start played = fst (fold (\<lambda>a b. if older_cue a b then a else b) played start)"

definition remember_cue :: "preparedAudioCue \<Rightarrow> (audioCueIdentity \<times> gotime) list \<Rightarrow> (audioCueIdentity \<times> gotime) list" where
  "remember_cue cue played =
     (let played1 = AList.update (pa_identity cue) (pa_expiresAt cue) played
      in if length played1 > maxPlayedAudioCues
         then AList.delete (oldest_cue (pa_identity cue, pa_expiresAt cue) played1) played1
         else played1)"

definition playAudioCue :: "gateway_env \<Rightarrow> preparedAudioCue option \<Rightarrow> Gateway \<Rightarrow> Gateway" where
  "playAudioCue e prepared g =
     (case prepared of None \<Rightarrow> g | Some cue \<Rightarrow>
      case answer (ge_now e) g of (now, g0) \<Rightarrow>
      let g1 = g0\<lparr>gw_playedAudio := filter (\<lambda>(_, expiresAt). time_after expiresAt now) (gw_playedAudio g0)\<rparr>
      in if \<not> time_after (pa_expiresAt cue) now then g1
      else if map_of (gw_playedAudio g1) (pa_identity cue) \<noteq> None then g1
      else let g2 = g1\<lparr>gw_lastAudioErr := '''', gw_audioAttempts := gw_audioAttempts g1 + 1,
                         gw_playedAudio := remember_cue cue (gw_playedAudio g1)\<rparr>
      in if \<not> ge_AudioDisplay e then g2\<lparr>gw_lastAudioErr := ''audio_unsupported''\<rparr>
      else case call (PlayCall cue) (ge_reply e) g2 of (r, g3) \<Rightarrow>
        (case reply_error r of
           Some _ \<Rightarrow> g3\<lparr>gw_lastAudioErr := ''audio_play_failed''\<rparr>
         | None \<Rightarrow> g3))"

subsection \<open>Rendering\<close>

definition render_none :: "gateway_env \<Rightarrow> Gateway \<Rightarrow> render_result \<times> Gateway" where
  "render_none e g =
     (case stopOwnedBusyTimer e g of
        (Inl err, g1) \<Rightarrow> ((OutcomeDeviceUnavailable, Some err), g1)
      | (Inr stoppedTimer, g1) \<Rightarrow>
          if \<not> gw_hasScene g1 then ((if stoppedTimer then OutcomeCleared else OutcomeUnchanged, None), g1)
          else case call (ClearCall device_ApplicationName) (ge_reply e) g1 of (r, g2) \<Rightarrow>
            (case reply_error r of
               Some err \<Rightarrow> ((OutcomeDeviceUnavailable, Some err), g2)
             | None \<Rightarrow> ((OutcomeCleared, None), resetScene g2)))"

text \<open>The scene and its request; a timer has neither. The outcome of an error is the one that \<open>renderErrorOutcome\<close> finds in it.\<close>

definition compile_visual ::
  "gateway_env \<Rightarrow> Candidate \<Rightarrow> Gateway \<Rightarrow> (render_result + (ResolvedScene \<times> DisplayElements) option) \<times> Gateway" where
  "compile_visual e c g =
     (case cd_BusyTimer c of
        Some theme \<Rightarrow>
          (case CompileBusyTimer (ge_lib e) theme of
             Some _ \<Rightarrow> (Inl (OutcomeInvalidPresentation, Some ErrInvalidPresentation), g)
           | None \<Rightarrow> (Inr None, g))
      | None \<Rightarrow>
          (case (if gw_assets g then answer (\<lambda>n. ge_ResolveScene e n (cd_PluginID c) (cd_Scene c)) g
                 else (Some (scene_ResolveScene (cd_Scene c)), g)) of
             (None, g1) \<Rightarrow> (Inl (OutcomeAssetMissing, Some ErrDevice), g1)
           | (Some resolved, g1) \<Rightarrow>
               (case CompileScene (ge_lib e) device_ApplicationName (EffectiveDevicePriority c) resolved of
                  Inl _ \<Rightarrow> (Inl (OutcomeInvalidPresentation, Some ErrInvalidPresentation), g1)
                | Inr request \<Rightarrow> (Inr (Some (resolved, request)), g1))))"

definition compileCandidate ::
  "gateway_env \<Rightarrow> Candidate \<Rightarrow> Gateway
     \<Rightarrow> (render_result + (ResolvedScene \<times> DisplayElements) option \<times> preparedAudioCue option) \<times> Gateway" where
  "compileCandidate e c g =
     (case compile_visual e c g of
        (Inl failed, g1) \<Rightarrow> (Inl failed, g1)
      | (Inr visual, g1) \<Rightarrow>
          (case compileAudioCue e c g1 of
             (Inl failed, g2) \<Rightarrow> (Inl failed, g2)
           | (Inr audio, g2) \<Rightarrow> (Inr (visual, audio), g2)))"

text \<open>Drawing, once the canvas can take the request.\<close>

definition draw_request ::
  "gateway_env \<Rightarrow> DisplayElements \<Rightarrow> string \<Rightarrow> string \<Rightarrow> preparedAudioCue option \<Rightarrow> Gateway \<Rightarrow> render_result \<times> Gateway" where
  "draw_request e request digest topology audio g =
     (case call (DrawCall request) (ge_reply e) (g\<lparr>gw_hasScene := True\<rparr>) of
        (Done, g1) \<Rightarrow>
          ((OutcomeDrawn, None),
           playAudioCue e audio (g1\<lparr>gw_hasScene := True, gw_lastDigest := digest, gw_lastTopology := topology,
             gw_lastPriority := de_Priority request\<rparr>))
      | (Conflict, g1) \<Rightarrow> ((OutcomeFirmwareSuppressed, None), resetBusyTimer (resetScene g1))
      | (Failed err _, g1) \<Rightarrow> ((OutcomeDeviceUnavailable, Some err), g1))"

definition place_request ::
  "gateway_env \<Rightarrow> DisplayElements \<Rightarrow> string \<Rightarrow> string \<Rightarrow> preparedAudioCue option \<Rightarrow> Gateway \<Rightarrow> render_result \<times> Gateway" where
  "place_request e request digest topology audio g =
     (if gw_hasScene g \<and> (topology \<noteq> gw_lastTopology g \<or> de_Priority request < gw_lastPriority g)
      then (case call (ClearCall device_ApplicationName) (ge_reply e) g of (r, g1) \<Rightarrow>
            case reply_error r of
              Some err \<Rightarrow> ((OutcomeDeviceUnavailable, Some err), g1)
            | None \<Rightarrow> draw_request e request digest topology audio (resetScene g1))
      else draw_request e request digest topology audio g)"

definition render_scene ::
  "gateway_env \<Rightarrow> ResolvedScene \<Rightarrow> DisplayElements \<Rightarrow> preparedAudioCue option \<Rightarrow> Gateway \<Rightarrow> render_result \<times> Gateway" where
  "render_scene e resolved request audio g =
     (case stopOwnedBusyTimer e g of
        (Inl err, g1) \<Rightarrow> ((OutcomeDeviceUnavailable, Some err), g1)
      | (Inr _, g1) \<Rightarrow>
          let topology = ge_sha256 e (ge_json_topology e (sceneTopology resolved)) in
          case ge_json_request e request of
            None \<Rightarrow> ((OutcomeInvalidPresentation, Some ErrDevice), g1)
          | Some payload \<Rightarrow>
              let digest = ge_sha256 e payload in
              if gw_hasScene g1 \<and> digest = gw_lastDigest g1 then ((OutcomeUnchanged, None), playAudioCue e audio g1)
              else place_request e request digest topology audio g1)"

definition gateway_Render :: "gateway_env \<Rightarrow> Candidate option \<Rightarrow> Gateway \<Rightarrow> render_result \<times> Gateway" where
  "gateway_Render e candidate g =
     (if \<not> gw_display g then ((OutcomeDeviceUnavailable, Some ErrDevice), g)
      else case candidate of
        None \<Rightarrow> render_none e g
      | Some c \<Rightarrow>
          if cd_Validate c \<noteq> [] then ((OutcomeInvalidPresentation, Some ErrInvalidPresentation), g)
          else case compileCandidate e c g of
            (Inl failed, g1) \<Rightarrow> (failed, g1)
          | (Inr (visual, audio), g1) \<Rightarrow>
              (case (cd_BusyTimer c, visual) of
                 (Some theme, _) \<Rightarrow>
                   (case renderBusyTimer e c theme g1 of
                      ((outcome, Some err), g2) \<Rightarrow> ((outcome, Some err), g2)
                    | ((outcome, None), g2) \<Rightarrow> ((outcome, None), playAudioCue e audio g2))
               | (None, Some (resolved, request)) \<Rightarrow> render_scene e resolved request audio g1
               | (None, None) \<Rightarrow> ((OutcomeInvalidPresentation, Some ErrInvalidPresentation), g1)))"

subsection \<open>The machine\<close>

datatype gateway_event = RenderEvent "Candidate option" | CanvasEvent | ConnectionEvent bool

definition gateway_step :: "gateway_env \<Rightarrow> gateway_event \<Rightarrow> Gateway \<Rightarrow> Gateway option" where
  "gateway_step e ev g =
     Some (case ev of
        RenderEvent c \<Rightarrow> snd (gateway_Render e c g)
      | CanvasEvent \<Rightarrow> InvalidateCanvas (g\<lparr>gw_calls := gw_calls g @ [CanvasClosed]\<rparr>)
      | ConnectionEvent survived \<Rightarrow> gateway_InvalidateConnection (g\<lparr>gw_calls := gw_calls g @ [Reconnected survived]\<rparr>))"

end
