(* ===== verification/AssetReconciler.thy ===== *)
theory AssetReconciler
  imports Gateway ConfigStore Policies
begin

text \<open>
  \<open>internal/assets/reconciler.go\<close>: the reconciler that uploads the files of a package to the storage of the device,
  verifies them by reading them back, removes them again, and resolves the assets of a scene to device paths.
  One reconciliation runs at a time (\<open>reconcileMu\<close>), but a new connection can invalidate the table of verified
  files between any two of its critical sections: the environment \<open>asset_env\<close> may interrupt before every call
  of the device and before every write of the tables, with another content of the storage. Otherwise the
  storage changes only by uploads and removals, which may fail with or without effect; an upload stores
  whatever bytes the environment says, since the local file can change after it was verified. An uploaded file
  is read back under its path in the application's directory, as the code assumes. The connection epoch is a
  natural number, because \<open>2^64\<close> connections are out of reach.
\<close>

subsection \<open>State and environment\<close>

datatype asset_phase = AssetsAbsent | AssetsPending | AssetsReady | AssetsError | OtherAssetPhase string

record asset_State =
  st_PluginID :: string
  st_DesiredVersion :: string
  st_ObservedVersion :: string
  st_Phase :: asset_phase
  st_FilesVerified :: int
  st_BytesVerified :: int
  st_ValidationInvalidations :: u64
  st_RetryAt :: gotime
  st_LastErrorCode :: string

definition zero_asset_State :: asset_State where
  "zero_asset_State = \<lparr>st_PluginID = '''', st_DesiredVersion = '''', st_ObservedVersion = '''', st_Phase = OtherAssetPhase '''',
     st_FilesVerified = 0, st_BytesVerified = 0, st_ValidationInvalidations = 0, st_RetryAt = zero_time, st_LastErrorCode = ''''\<rparr>"

definition ErrorManifestInvalid :: string where "ErrorManifestInvalid = ''asset_manifest_invalid''"
definition ErrorDeviceUnavailable :: string where "ErrorDeviceUnavailable = ''device_unavailable''"
definition ErrorLocalVerification :: string where "ErrorLocalVerification = ''local_asset_verification_failed''"
definition ErrorDeviceVerification :: string where "ErrorDeviceVerification = ''device_asset_verification_failed''"

type_synonym path_map = "(string \<times> string) list"

text \<open>The last two fields are the world: the files of the device, and the number of answers of the environment so far.\<close>

record asset_Reconciler =
  ar_device :: bool
  ar_states :: "(string \<times> asset_State) list"
  ar_paths :: "(string \<times> path_map) list"
  ar_fingerprints :: "(string \<times> string) list"
  ar_observed :: "(string \<times> path_map) list"
  ar_epoch :: nat
  ar_storage :: "string \<rightharpoonup> string"
  ar_ticks :: nat

record local_file =
  lf_regular :: bool
  lf_size :: int
  lf_content :: "string option"

datatype storage_reply = Applied | Broken bool

record asset_env =
  ae_ex :: externals
  ae_json_package :: "Package \<Rightarrow> string"
  ae_file :: "nat \<Rightarrow> string \<Rightarrow> local_file option"
  ae_now :: "nat \<Rightarrow> gotime"
  ae_interrupt :: "nat \<Rightarrow> (string \<rightharpoonup> string) option"
  ae_upload :: "nat \<Rightarrow> storage_reply"
  ae_uploaded :: "nat \<Rightarrow> string \<Rightarrow> string"
  ae_remove :: "nat \<Rightarrow> storage_reply"
  ae_read :: "nat \<Rightarrow> bool"

definition NewReconciler :: "bool \<Rightarrow> (string \<rightharpoonup> string) \<Rightarrow> asset_Reconciler" where
  "NewReconciler device storage = \<lparr>ar_device = device, ar_states = [], ar_paths = [], ar_fingerprints = [], ar_observed = [], ar_epoch = 0,
     ar_storage = storage, ar_ticks = 0\<rparr>"

definition lookup_map :: "(string \<times> path_map) list \<Rightarrow> string \<Rightarrow> path_map" where
  "lookup_map m k = (case map_of m k of None \<Rightarrow> [] | Some v \<Rightarrow> v)"

definition asset_state :: "asset_Reconciler \<Rightarrow> string \<Rightarrow> asset_State" where
  "asset_state r pid = (case map_of (ar_states r) pid of None \<Rightarrow> zero_asset_State | Some st \<Rightarrow> st)"

definition zero_fingerprint :: string where "zero_fingerprint = replicate 32 (CHR 0x00)"

definition asset_fingerprint :: "asset_Reconciler \<Rightarrow> string \<Rightarrow> string" where
  "asset_fingerprint r pid = (case map_of (ar_fingerprints r) pid of None \<Rightarrow> zero_fingerprint | Some f \<Rightarrow> f)"

subsection \<open>Critical sections\<close>

definition invalidates :: "asset_Reconciler \<Rightarrow> string \<Rightarrow> bool" where
  "invalidates r pid \<longleftrightarrow>
     map_of (ar_states r) pid \<noteq> None \<and> \<not> (lookup_map (ar_paths r) pid = [] \<and> lookup_map (ar_observed r) pid = [])"

definition invalid_state :: "asset_State \<Rightarrow> asset_State" where
  "invalid_state st = st\<lparr>st_Phase := AssetsPending, st_ObservedVersion := '''', st_FilesVerified := 0, st_BytesVerified := 0,
     st_ValidationInvalidations := st_ValidationInvalidations st + 1\<rparr>"

definition assets_InvalidateConnection :: "asset_Reconciler \<Rightarrow> asset_Reconciler" where
  "assets_InvalidateConnection r =
     r\<lparr>ar_epoch := ar_epoch r + 1,
       ar_states := map (\<lambda>(pid, st). (pid, if invalidates r pid then invalid_state st else st)) (ar_states r),
       ar_fingerprints := filter (\<lambda>(pid, _). \<not> invalidates r pid) (ar_fingerprints r),
       ar_observed := map (\<lambda>(pid, m). (pid, if invalidates r pid then map (\<lambda>(p, _). (p, '''')) m else m)) (ar_observed r)\<rparr>"

text \<open>
  What may happen before the next critical section or device call of a running reconciliation: a new connection, to a device
  whose storage may be another one. The change and the callback that reports it are one step.
\<close>

definition interrupted :: "asset_env \<Rightarrow> asset_Reconciler \<Rightarrow> asset_Reconciler" where
  "interrupted e r =
     (let r1 = r\<lparr>ar_ticks := Suc (ar_ticks r)\<rparr>
      in case ae_interrupt e (ar_ticks r) of None \<Rightarrow> r1 | Some storage \<Rightarrow> assets_InvalidateConnection (r1\<lparr>ar_storage := storage\<rparr>))"

definition assets_set :: "nat \<Rightarrow> string \<Rightarrow> asset_State \<Rightarrow> asset_Reconciler \<Rightarrow> asset_Reconciler" where
  "assets_set epoch pid state r =
     (if ar_epoch r \<noteq> epoch then r
      else r\<lparr>ar_states := AList.update pid state (ar_states r), ar_paths := AList.delete pid (ar_paths r)\<rparr>)"

definition assets_pending :: "nat \<Rightarrow> string \<Rightarrow> asset_State \<Rightarrow> asset_Reconciler \<Rightarrow> asset_Reconciler" where
  "assets_pending epoch pid state r =
     (if ar_epoch r \<noteq> epoch then r else r\<lparr>ar_states := AList.update pid state (ar_states r)\<rparr>)"

definition pendingObserved :: "nat \<Rightarrow> string \<Rightarrow> asset_State \<Rightarrow> path_map \<Rightarrow> asset_Reconciler \<Rightarrow> asset_Reconciler" where
  "pendingObserved epoch pid state observed r =
     (if ar_epoch r \<noteq> epoch then r
      else r\<lparr>ar_states := AList.update pid state (ar_states r), ar_observed := AList.update pid observed (ar_observed r)\<rparr>)"

text \<open>A nil map deletes the entry.\<close>

definition put_map :: "string \<Rightarrow> path_map option \<Rightarrow> (string \<times> path_map) list \<Rightarrow> (string \<times> path_map) list" where
  "put_map pid v m = (case v of None \<Rightarrow> AList.delete pid m | Some x \<Rightarrow> AList.update pid x m)"

definition assets_commit ::
  "nat \<Rightarrow> string \<Rightarrow> asset_State \<Rightarrow> path_map option \<Rightarrow> path_map option \<Rightarrow> string \<Rightarrow> asset_Reconciler \<Rightarrow> asset_Reconciler" where
  "assets_commit epoch pid state paths observed fingerprint r =
     (if ar_epoch r \<noteq> epoch then r
      else r\<lparr>ar_states := AList.update pid state (ar_states r), ar_paths := put_map pid paths (ar_paths r),
             ar_observed := put_map pid observed (ar_observed r), ar_fingerprints := AList.update pid fingerprint (ar_fingerprints r)\<rparr>)"

definition manifestFingerprint :: "asset_env \<Rightarrow> Package \<Rightarrow> string" where
  "manifestFingerprint e v = ex_sha256 (ae_ex e) (ae_json_package e v)"

definition assets_Ready :: "string \<Rightarrow> asset_Reconciler \<Rightarrow> bool" where
  "assets_Ready pid r \<longleftrightarrow> st_Phase (asset_state r pid) = AssetsReady"

definition ReadyFor :: "asset_env \<Rightarrow> Package \<Rightarrow> asset_Reconciler \<Rightarrow> bool" where
  "ReadyFor e v r \<longleftrightarrow>
     st_Phase (asset_state r (pk_PluginID v)) = AssetsReady \<and> asset_fingerprint r (pk_PluginID v) = manifestFingerprint e v"

definition assets_Status :: "asset_Reconciler \<Rightarrow> asset_State list" where
  "assets_Status r = sort_key st_PluginID (map snd (ar_states r))"

subsection \<open>The device and the local files\<close>

definition storageAssetPath :: "string \<Rightarrow> string" where
  "storageAssetPath p = ''/ext/user_assets/'' @ ''bsbctl'' @ ''/'' @ p"

definition device_Remove :: "asset_env \<Rightarrow> string \<Rightarrow> asset_Reconciler \<Rightarrow> bool \<times> asset_Reconciler" where
  "device_Remove e p r0 =
     (let r = interrupted e r0; r1 = r\<lparr>ar_ticks := Suc (ar_ticks r)\<rparr>; gone = r1\<lparr>ar_storage := (ar_storage r1)(storageAssetPath p := None)\<rparr>
      in case ae_remove e (ar_ticks r) of Applied \<Rightarrow> (True, gone) | Broken applied \<Rightarrow> (False, if applied then gone else r1))"

definition device_UploadFile :: "asset_env \<Rightarrow> string \<Rightarrow> string \<Rightarrow> asset_Reconciler \<Rightarrow> bool \<times> asset_Reconciler" where
  "device_UploadFile e p localPath r0 =
     (let r = interrupted e r0; r1 = r\<lparr>ar_ticks := Suc (ar_ticks r)\<rparr>;
          stored = r1\<lparr>ar_storage := (ar_storage r1)(storageAssetPath p \<mapsto> ae_uploaded e (ar_ticks r) localPath)\<rparr>
      in case ae_upload e (ar_ticks r) of Applied \<Rightarrow> (True, stored) | Broken applied \<Rightarrow> (False, if applied then stored else r1))"

definition sha256_hex :: "asset_env \<Rightarrow> string \<Rightarrow> string" where
  "sha256_hex e content = hex_bytes (map of_char (ex_sha256 (ae_ex e) content))"

definition deviceAssetMatches :: "asset_env \<Rightarrow> string \<Rightarrow> AssetDeclaration \<Rightarrow> asset_Reconciler \<Rightarrow> bool \<times> asset_Reconciler" where
  "deviceAssetMatches e p asset r0 =
     (let r = interrupted e r0; r1 = r\<lparr>ar_ticks := Suc (ar_ticks r)\<rparr>
      in (case ar_storage r1 (storageAssetPath p) of
            None \<Rightarrow> False
          | Some content \<Rightarrow> ae_read e (ar_ticks r) \<and> int (length content) = asset_Size asset \<and> sha256_hex e content = asset_SHA256 asset, r1))"

text \<open>\<open>filepath.Join\<close> of an absolute root, and whether \<open>filepath.Rel\<close> leads out of the root.\<close>

definition filepath_Join :: "string \<Rightarrow> string \<Rightarrow> string" where
  "filepath_Join root p = path_Clean (root @ ''/'' @ p)"

fun drop_common :: "string list \<Rightarrow> string list \<Rightarrow> string list" where
  "drop_common (x # xs) (y # ys) = (if x = y then drop_common xs ys else x # xs)"
| "drop_common xs _ = xs"

definition escapes_root :: "string \<Rightarrow> string \<Rightarrow> bool" where
  "escapes_root root p \<longleftrightarrow> drop_common (clean_segments True [] (split_slash root)) (clean_segments True [] (split_slash p)) \<noteq> []"

definition verifiedLocalPath :: "asset_env \<Rightarrow> string \<Rightarrow> AssetDeclaration \<Rightarrow> asset_Reconciler \<Rightarrow> string option \<times> asset_Reconciler" where
  "verifiedLocalPath e root asset r =
     (let p = filepath_Join root (asset_Source asset); r1 = r\<lparr>ar_ticks := Suc (ar_ticks r)\<rparr>
      in if escapes_root root p then (None, r)
      else (case ae_file e (ar_ticks r) p of
          None \<Rightarrow> None
        | Some f \<Rightarrow>
            if \<not> lf_regular f \<or> lf_size f \<noteq> asset_Size asset then None
            else (case lf_content f of
                None \<Rightarrow> None
              | Some content \<Rightarrow>
                  let bytes = take (nat (MaxAssetBytes + 1)) content
                  in if int (length bytes) \<noteq> asset_Size asset \<or> sha256_hex e bytes \<noteq> asset_SHA256 asset then None else Some p), r1))"

subsection \<open>Reconciliation\<close>

text \<open>Removes files one after the other; stops at the first failure, with the files that are left.\<close>

fun remove_files :: "asset_env \<Rightarrow> string list \<Rightarrow> path_map \<Rightarrow> asset_Reconciler \<Rightarrow> bool \<times> path_map \<times> asset_Reconciler" where
  "remove_files e [] observed r = (True, observed, r)"
| "remove_files e (p # ps) observed r =
     (if \<not> ar_device r then (False, observed, r)
      else case device_Remove e p r of
        (False, r1) \<Rightarrow> (False, observed, r1)
      | (True, r1) \<Rightarrow> remove_files e ps (AList.delete p observed) r1)"

definition retry_state :: "asset_env \<Rightarrow> string \<Rightarrow> asset_State \<Rightarrow> asset_Reconciler \<Rightarrow> asset_State" where
  "retry_state e code state r = state\<lparr>st_RetryAt := time_add (time_utc (ae_now e (ar_ticks r))) (2 * second), st_LastErrorCode := code\<rparr>"

text \<open>The loop over the assets of an enabled package ends with a failure, or with the paths of all of them.\<close>

datatype asset_failure = LocalFailure | PathFailure | UploadFailure | ReadbackFailure

definition ensure_file ::
  "asset_env \<Rightarrow> string \<Rightarrow> string \<Rightarrow> AssetDeclaration \<Rightarrow> path_map \<Rightarrow> asset_Reconciler \<Rightarrow> asset_failure option \<times> path_map \<times> asset_Reconciler" where
  "ensure_file e localPath p asset observed r =
     (let known = AList.update p (asset_SHA256 asset) observed
      in if map_of observed p = Some (asset_SHA256 asset) then (None, observed, r)
      else case deviceAssetMatches e p asset r of
        (True, r1) \<Rightarrow> (None, known, r1)
      | (False, r1) \<Rightarrow>
          (case device_UploadFile e p localPath r1 of
             (False, r2) \<Rightarrow> (Some UploadFailure, observed, r2)
           | (True, r2) \<Rightarrow>
               (case deviceAssetMatches e p asset r2 of
                  (False, r3) \<Rightarrow> (Some ReadbackFailure, observed, r3)
                | (True, r3) \<Rightarrow> (None, known, r3))))"

fun verify_assets ::
  "asset_env \<Rightarrow> Package \<Rightarrow> AssetDeclaration list \<Rightarrow> asset_State \<Rightarrow> path_map \<Rightarrow> path_map \<Rightarrow> asset_Reconciler
     \<Rightarrow> (asset_failure + path_map) \<times> asset_State \<times> path_map \<times> asset_Reconciler" where
  "verify_assets e v [] state resolved observed r = (Inr resolved, state, observed, r)"
| "verify_assets e v (asset # assets) state resolved observed r =
     (case verifiedLocalPath e (pk_Root v) asset r of
        (None, r1) \<Rightarrow> (Inl LocalFailure, state, observed, r1)
      | (Some localPath, r1) \<Rightarrow>
     (case derivedDevicePath (ae_ex e) (pk_PluginID v) asset of
        None \<Rightarrow> (Inl PathFailure, state, observed, r1)
      | Some p \<Rightarrow>
     (case ensure_file e localPath p asset observed r1 of
        (Some failure, observed1, r2) \<Rightarrow> (Inl failure, state, observed1, r2)
      | (None, observed1, r2) \<Rightarrow>
          verify_assets e v assets
            (state\<lparr>st_FilesVerified := st_FilesVerified state + 1, st_BytesVerified := int64 (st_BytesVerified state + asset_Size asset)\<rparr>)
            (AList.update (asset_Source asset) p resolved) observed1 r2)))"

text \<open>What \<open>reconcile\<close> does after the early returns: for a package that is not enabled, for one without assets, and for one with assets.\<close>

definition reconcile_disabled :: "asset_env \<Rightarrow> Package \<Rightarrow> nat \<Rightarrow> asset_State \<Rightarrow> path_map \<Rightarrow> string \<Rightarrow> asset_Reconciler \<Rightarrow> asset_Reconciler" where
  "reconcile_disabled e v epoch state observed fingerprint r =
     (let absent = state\<lparr>st_Phase := AssetsAbsent\<rparr>
      in if observed = [] \<and> slice_list (pk_Assets v) = []
      then assets_commit epoch (pk_PluginID v) absent None None fingerprint (interrupted e r)
      else case remove_files e (map fst observed) observed r of
        (False, observed1, r1) \<Rightarrow>
          pendingObserved epoch (pk_PluginID v) (retry_state e ErrorDeviceUnavailable (state\<lparr>st_Phase := AssetsPending\<rparr>) r1) observed1 (interrupted e r1)
      | (True, observed1, r1) \<Rightarrow> assets_commit epoch (pk_PluginID v) absent None None fingerprint (interrupted e r1))"

definition reconcile_bare :: "asset_env \<Rightarrow> Package \<Rightarrow> nat \<Rightarrow> asset_State \<Rightarrow> path_map \<Rightarrow> string \<Rightarrow> asset_Reconciler \<Rightarrow> asset_Reconciler" where
  "reconcile_bare e v epoch state observed fingerprint r =
     (case remove_files e (sort (map fst observed)) observed r of
        (False, observed1, r1) \<Rightarrow>
          pendingObserved epoch (pk_PluginID v) (retry_state e ErrorDeviceUnavailable state r1) observed1 (interrupted e r1)
      | (True, observed1, r1) \<Rightarrow>
          assets_commit epoch (pk_PluginID v) (state\<lparr>st_Phase := AssetsReady, st_ObservedVersion := pk_Version v\<rparr>) None (Some observed1) fingerprint
            (interrupted e r1))"

definition reconcile_assets :: "asset_env \<Rightarrow> Package \<Rightarrow> nat \<Rightarrow> asset_State \<Rightarrow> path_map \<Rightarrow> string \<Rightarrow> asset_Reconciler \<Rightarrow> asset_Reconciler" where
  "reconcile_assets e v epoch state observed fingerprint r =
     (case verify_assets e v (slice_list (pk_Assets v)) state [] observed r of (result, state1, observed1, r1) \<Rightarrow>
      case result of
        Inl LocalFailure \<Rightarrow>
          assets_pending epoch (pk_PluginID v) (state1\<lparr>st_Phase := AssetsError, st_LastErrorCode := ErrorLocalVerification\<rparr>) (interrupted e r1)
      | Inl PathFailure \<Rightarrow>
          assets_pending epoch (pk_PluginID v) (state1\<lparr>st_Phase := AssetsError, st_LastErrorCode := ErrorManifestInvalid\<rparr>) (interrupted e r1)
      | Inl UploadFailure \<Rightarrow> pendingObserved epoch (pk_PluginID v) (retry_state e ErrorDeviceUnavailable state1 r1) observed1 (interrupted e r1)
      | Inl ReadbackFailure \<Rightarrow> pendingObserved epoch (pk_PluginID v) (retry_state e ErrorDeviceVerification state1 r1) observed1 (interrupted e r1)
      | Inr resolved \<Rightarrow>
          assets_commit epoch (pk_PluginID v) (state1\<lparr>st_Phase := AssetsReady, st_ObservedVersion := pk_Version v\<rparr>) (Some resolved) (Some observed1)
            fingerprint (interrupted e r1))"

definition assets_reconcile :: "asset_env \<Rightarrow> Package \<Rightarrow> asset_Reconciler \<Rightarrow> asset_Reconciler" where
  "assets_reconcile e v r =
     (let pid = pk_PluginID v; epoch = ar_epoch r; previous = asset_state r pid; known = (map_of (ar_states r) pid \<noteq> None);
          observed = lookup_map (ar_observed r) pid; assets = slice_list (pk_Assets v);
          state = zero_asset_State\<lparr>st_PluginID := pid, st_DesiredVersion := pk_Version v, st_Phase := AssetsPending,
            st_ValidationInvalidations := st_ValidationInvalidations previous\<rparr>;
          fingerprint = manifestFingerprint e v
      in if \<not> ValidatePackage (ae_ex e) pid (pk_Version v) (pk_Root v) assets
      then assets_set epoch pid (state\<lparr>st_Phase := AssetsError, st_LastErrorCode := ErrorManifestInvalid\<rparr>) (interrupted e r)
      else if known \<and> asset_fingerprint r pid = fingerprint \<and>
              (pk_Enabled v \<and> st_Phase previous = AssetsReady \<or> \<not> pk_Enabled v \<and> st_Phase previous = AssetsAbsent) then r
      else if \<not> pk_Enabled v then reconcile_disabled e v epoch state observed fingerprint r
      else if assets = [] \<and> observed = []
      then assets_commit epoch pid (state\<lparr>st_Phase := AssetsReady, st_ObservedVersion := pk_Version v\<rparr>) None (Some observed) fingerprint (interrupted e r)
      else if \<not> ar_device r then assets_pending epoch pid (retry_state e ErrorDeviceUnavailable state r) (interrupted e r)
      else if assets = [] then reconcile_bare e v epoch state observed fingerprint r
      else reconcile_assets e v epoch state observed fingerprint r)"

definition assets_Reconcile :: "asset_env \<Rightarrow> Package list \<Rightarrow> asset_Reconciler \<Rightarrow> asset_Reconciler" where
  "assets_Reconcile e packages r = fold (assets_reconcile e) packages r"

subsection \<open>Garbage\<close>

definition update_observed :: "string \<Rightarrow> string \<Rightarrow> path_map \<Rightarrow> asset_Reconciler \<Rightarrow> asset_Reconciler" where
  "update_observed pid code observed r =
     r\<lparr>ar_observed := AList.update pid observed (ar_observed r),
       ar_states := AList.update pid ((asset_state r pid)\<lparr>st_LastErrorCode := code\<rparr>) (ar_states r)\<rparr>"

fun collect_files :: "asset_env \<Rightarrow> nat \<Rightarrow> string \<Rightarrow> string list \<Rightarrow> path_map \<Rightarrow> asset_Reconciler \<Rightarrow> asset_Reconciler" where
  "collect_files e epoch pid [] observed r = r"
| "collect_files e epoch pid (p # ps) observed r =
     (case device_Remove e p r of
        (False, r1) \<Rightarrow>
          (let r2 = interrupted e r1 in if ar_epoch r2 \<noteq> epoch then r2 else update_observed pid ErrorDeviceUnavailable observed r2)
      | (True, r1) \<Rightarrow>
          (let observed1 = AList.delete p observed; r2 = interrupted e r1
           in if ar_epoch r2 \<noteq> epoch then r2 else collect_files e epoch pid ps observed1 (update_observed pid '''' observed1 r2)))"

definition desired_paths :: "asset_env \<Rightarrow> Package \<Rightarrow> string list" where
  "desired_paths e v = List.map_filter (derivedDevicePath (ae_ex e) (pk_PluginID v)) (slice_list (pk_Assets v))"

definition collect_package :: "asset_env \<Rightarrow> Package \<Rightarrow> asset_Reconciler \<Rightarrow> asset_Reconciler" where
  "collect_package e v r0 =
     (if \<not> pk_Enabled v \<or> slice_list (pk_Assets v) = [] \<or> \<not> ReadyFor e v r0 \<or> \<not> ar_device r0 then r0
      else let r = interrupted e r0;
               observed = lookup_map (ar_observed r) (pk_PluginID v);
               obsolete = filter (\<lambda>p. p \<notin> set (desired_paths e v)) (map fst observed)
           in collect_files e (ar_epoch r) (pk_PluginID v) (sort obsolete) observed r)"

definition CollectGarbage :: "asset_env \<Rightarrow> Package list \<Rightarrow> asset_Reconciler \<Rightarrow> asset_Reconciler" where
  "CollectGarbage e packages r = fold (collect_package e) packages r"

subsection \<open>Resolving\<close>

datatype asset_error = ErrAssetsNotReady | ErrAssetUndeclared string | ErrAssetKindMismatch string string

datatype asset_kind = ImageKind | AnimationKind | AudioKind

definition StockPath :: "string \<Rightarrow> asset_kind \<Rightarrow> string" where
  "StockPath name kind = (case kind of AnimationKind \<Rightarrow> ''shared/animations/'' @ name | AudioKind \<Rightarrow> ''shared/sounds/'' @ name
     | ImageKind \<Rightarrow> ''shared/images/external/'' @ name)"

definition resolvedElementAsset :: "Element \<Rightarrow> AssetRef option" where
  "resolvedElementAsset el = (case el_Image el of Some a \<Rightarrow> Some a | None \<Rightarrow> map_option anim_Asset (el_Animation el))"

text \<open>\<open>filepath.Ext\<close>: from the last dot of the last segment.\<close>

definition filepath_Ext :: "string \<Rightarrow> string" where
  "filepath_Ext p = (let name = rev (takeWhile (\<lambda>c. c \<noteq> CHR ''/'') (rev p))
     in if CHR ''.'' \<in> set name then CHR ''.'' # rev (takeWhile (\<lambda>c. c \<noteq> CHR ''.'') (rev name)) else '''')"

definition packagePathMatchesKind :: "string \<Rightarrow> asset_kind \<Rightarrow> bool" where
  "packagePathMatchesKind p kind \<longleftrightarrow>
     (case kind of ImageKind \<Rightarrow> filepath_Ext p = ''.png'' | AnimationKind \<Rightarrow> filepath_Ext p = ''.anim'' | AudioKind \<Rightarrow> False)"

definition resolve_element :: "bool \<Rightarrow> path_map \<Rightarrow> Element \<Rightarrow> asset_error + ResolvedElement" where
  "resolve_element ready paths el =
     (let kind = (if el_Animation el \<noteq> None then AnimationKind else ImageKind); found = (\<lambda>p. Inr \<lparr>re_Element = el, re_Path = p\<rparr>)
      in case resolvedElementAsset el of
        None \<Rightarrow> found ''''
      | Some asset \<Rightarrow>
          if StockName asset \<noteq> '''' then found (StockPath (StockName asset) kind)
          else if \<not> ready then Inl ErrAssetsNotReady
          else case map_of paths (PackagePath asset) of
            None \<Rightarrow> Inl (ErrAssetUndeclared (PackagePath asset))
          | Some p \<Rightarrow>
              if \<not> packagePathMatchesKind p kind then Inl (ErrAssetKindMismatch (PackagePath asset) (if kind = ImageKind then ''image'' else ''animation''))
              else found p)"

fun resolve_elements :: "bool \<Rightarrow> path_map \<Rightarrow> Scene \<Rightarrow> asset_error + ResolvedScene" where
  "resolve_elements ready paths [] = Inr []"
| "resolve_elements ready paths (el # els) =
     (case resolve_element ready paths el of
        Inl err \<Rightarrow> Inl err
      | Inr x \<Rightarrow> (case resolve_elements ready paths els of Inl err \<Rightarrow> Inl err | Inr xs \<Rightarrow> Inr (x # xs)))"

definition assets_ResolveScene :: "asset_Reconciler \<Rightarrow> string \<Rightarrow> Scene \<Rightarrow> asset_error + ResolvedScene" where
  "assets_ResolveScene r pid scene = resolve_elements (assets_Ready pid r) (lookup_map (ar_paths r) pid) scene"

definition assets_ResolveAudioCue :: "string \<Rightarrow> AudioCue \<Rightarrow> asset_error + ResolvedAudioCue" where
  "assets_ResolveAudioCue pid cue =
     (if StockName (audio_Asset cue) \<noteq> '''' then Inr \<lparr>ra_AudioCue = cue, ra_Path = StockPath (StockName (audio_Asset cue)) AudioKind\<rparr>
      else Inl (ErrAssetKindMismatch (PackagePath (audio_Asset cue)) ''audio''))"

subsection \<open>The machine\<close>

datatype asset_event = ReconcileEvent "Package list" | GarbageEvent "Package list" | ConnectedEvent "string \<rightharpoonup> string"

text \<open>The packages come from a catalogue.\<close>

definition asset_step :: "asset_env \<Rightarrow> Package list \<Rightarrow> asset_event \<Rightarrow> asset_Reconciler \<Rightarrow> asset_Reconciler option" where
  "asset_step e catalogue ev r =
     (case ev of
        ReconcileEvent ps \<Rightarrow> if set ps \<subseteq> set catalogue then Some (assets_Reconcile e ps r) else None
      | GarbageEvent ps \<Rightarrow> if set ps \<subseteq> set catalogue then Some (CollectGarbage e ps r) else None
      | ConnectedEvent storage \<Rightarrow> Some (assets_InvalidateConnection (r\<lparr>ar_storage := storage\<rparr>)))"

end
