(* ===== verification/AssetStorage.thy ===== *)
theory AssetStorage
  imports AssetReconciler
begin

text \<open>
  The invariant of the asset reconciler: every file it takes for verified is on the device with the content that was
  declared, and a plugin that is ready has all the files of the package whose fingerprint is recorded.
  A reconciliation that was overtaken by a new connection cannot write its results. Three things are assumed:
  a removal that fails has not removed the file, and the hashes separate the device paths and the packages of
  the catalogue.
\<close>

subsection \<open>Assumptions\<close>

definition removals_honest :: "asset_env \<Rightarrow> bool" where
  "removals_honest e \<longleftrightarrow> (\<forall>n. ae_remove e n \<noteq> Broken True)"

text \<open>The files that the catalogue declares: the plugin, the device path and the hash.\<close>

definition declared_files :: "asset_env \<Rightarrow> Package list \<Rightarrow> (string \<times> string \<times> string) list" where
  "declared_files e catalogue =
     concat (map (\<lambda>v. List.map_filter (\<lambda>a. map_option (\<lambda>p. (pk_PluginID v, p, asset_SHA256 a)) (derivedDevicePath (ae_ex e) (pk_PluginID v) a))
       (slice_list (pk_Assets v))) catalogue)"

definition paths_apart :: "asset_env \<Rightarrow> Package list \<Rightarrow> bool" where
  "paths_apart e catalogue \<longleftrightarrow>
     list_all (\<lambda>(pid, p, h). list_all (\<lambda>(pid', p', h'). p = p' \<longrightarrow> pid = pid' \<and> h = h') (declared_files e catalogue)) (declared_files e catalogue)"

definition fingerprints_apart :: "asset_env \<Rightarrow> Package list \<Rightarrow> bool" where
  "fingerprints_apart e catalogue \<longleftrightarrow>
     list_all (\<lambda>v. list_all (\<lambda>v'. manifestFingerprint e v = manifestFingerprint e v' \<longrightarrow> v = v') catalogue) catalogue"

abbreviation declares :: "asset_env \<Rightarrow> Package list \<Rightarrow> string \<Rightarrow> string \<Rightarrow> string \<Rightarrow> bool" where
  "declares e catalogue pid p h \<equiv> (pid, p, h) \<in> set (declared_files e catalogue)"

lemma paths_apartD: "paths_apart e cat \<Longrightarrow> declares e cat pid p h \<Longrightarrow> declares e cat pid' p h' \<Longrightarrow> pid = pid' \<and> h = h'"
  by (fastforce simp: paths_apart_def list_all_iff)

lemma fingerprints_apartD:
  "fingerprints_apart e cat \<Longrightarrow> v \<in> set cat \<Longrightarrow> v' \<in> set cat \<Longrightarrow> manifestFingerprint e v = manifestFingerprint e v' \<Longrightarrow> v = v'"
  by (auto simp: fingerprints_apart_def list_all_iff)

lemma declaresI:
  "v \<in> set cat \<Longrightarrow> a \<in> set (slice_list (pk_Assets v)) \<Longrightarrow> derivedDevicePath (ae_ex e) (pk_PluginID v) a = Some p \<Longrightarrow>
     declares e cat (pk_PluginID v) p (asset_SHA256 a)"
  by (force simp: declared_files_def List.map_filter_def)

subsection \<open>The invariant\<close>

text \<open>The hash that a table has for a path.\<close>

definition hash_at :: "path_map \<Rightarrow> string \<Rightarrow> string option" where
  "hash_at m p = map_of m p"

lemma hash_at_simps [simp]: "hash_at [] p = None" "hash_at (AList.update q h m) p = (if p = q then Some h else hash_at m p)"
  "hash_at (AList.delete q m) p = (if p = q then None else hash_at m p)"
  by (auto simp: hash_at_def go_alist)

definition obs :: "asset_Reconciler \<Rightarrow> string \<Rightarrow> path_map" where
  "obs r pid = lookup_map (ar_observed r) pid"

text \<open>The file at \<open>p\<close> has the hash \<open>h\<close>.\<close>

definition stored :: "asset_env \<Rightarrow> asset_Reconciler \<Rightarrow> string \<Rightarrow> string \<Rightarrow> bool" where
  "stored e r p h \<longleftrightarrow> (case ar_storage r (storageAssetPath p) of None \<Rightarrow> False | Some content \<Rightarrow> sha256_hex e content = h)"

text \<open>A table of observed files knows only declared files; an empty hash is a file to verify again.\<close>

definition table_ok :: "asset_env \<Rightarrow> Package list \<Rightarrow> string \<Rightarrow> path_map \<Rightarrow> bool" where
  "table_ok e cat pid m \<longleftrightarrow> alist_wf m \<and> (\<forall>p h. hash_at m p = Some h \<longrightarrow> (\<exists>h'. declares e cat pid p h' \<and> (h = '''' \<or> h = h')))"

definition table_valid :: "asset_env \<Rightarrow> asset_Reconciler \<Rightarrow> path_map \<Rightarrow> bool" where
  "table_valid e r m \<longleftrightarrow> (\<forall>p h. hash_at m p = Some h \<longrightarrow> h = '''' \<or> stored e r p h)"

definition blank :: "path_map \<Rightarrow> bool" where
  "blank m \<longleftrightarrow> (\<forall>p h. hash_at m p = Some h \<longrightarrow> h = '''')"

text \<open>The package \<open>v\<close> is complete in the table \<open>m\<close>, and \<open>paths\<close> names files of it.\<close>

definition complete :: "asset_env \<Rightarrow> Package \<Rightarrow> path_map \<Rightarrow> path_map \<Rightarrow> bool" where
  "complete e v paths m \<longleftrightarrow>
     (\<forall>a\<in>set (slice_list (pk_Assets v)). asset_SHA256 a \<noteq> '''' \<and>
        (\<exists>p. derivedDevicePath (ae_ex e) (pk_PluginID v) a = Some p \<and> hash_at m p = Some (asset_SHA256 a))) \<and>
     (\<forall>src p. map_of paths src = Some p \<longrightarrow>
        (\<exists>a\<in>set (slice_list (pk_Assets v)). asset_Source a = src \<and> derivedDevicePath (ae_ex e) (pk_PluginID v) a = Some p))"

definition ready_ok :: "asset_env \<Rightarrow> Package list \<Rightarrow> asset_Reconciler \<Rightarrow> string \<Rightarrow> bool" where
  "ready_ok e cat r pid \<longleftrightarrow>
     (assets_Ready pid r \<longrightarrow>
        (\<exists>v\<in>set cat. pk_PluginID v = pid \<and> asset_fingerprint r pid = manifestFingerprint e v \<and>
           complete e v (lookup_map (ar_paths r) pid) (obs r pid)))"

definition tables_inv :: "asset_env \<Rightarrow> Package list \<Rightarrow> asset_Reconciler \<Rightarrow> bool" where
  "tables_inv e cat r \<longleftrightarrow> alist_wf (ar_observed r) \<and> (\<forall>pid. table_ok e cat pid (obs r pid)) \<and>
     (\<forall>pid. obs r pid \<noteq> [] \<longrightarrow> map_of (ar_states r) pid \<noteq> None)"

definition asset_inv :: "asset_env \<Rightarrow> Package list \<Rightarrow> asset_Reconciler \<Rightarrow> bool" where
  "asset_inv e cat r \<longleftrightarrow> tables_inv e cat r \<and> (\<forall>pid. table_valid e r (obs r pid) \<and> ready_ok e cat r pid)"

subsection \<open>A new connection\<close>

lemma map_of_map_key: "map_of (map (\<lambda>(k, v). (k, f k v)) m) k = map_option (f k) (map_of m k)"
  by (induction m) auto

lemma map_of_filter_fst: "map_of (filter (\<lambda>(k, _). P k) m) k = (if P k then map_of m k else None)"
  by (induction m) auto

lemma invalidate_fields:
  defines "r' r \<equiv> assets_InvalidateConnection r"
  shows "ar_epoch (r' r) = ar_epoch r + 1" "ar_paths (r' r) = ar_paths r" "ar_storage (r' r) = ar_storage r" "ar_ticks (r' r) = ar_ticks r"
    "ar_device (r' r) = ar_device r"
    "map_of (ar_states (r' r)) pid = map_option (\<lambda>st. if invalidates r pid then invalid_state st else st) (map_of (ar_states r) pid)"
    "asset_state (r' r) pid = (if invalidates r pid then invalid_state (asset_state r pid) else asset_state r pid)"
    "asset_fingerprint (r' r) pid = (if invalidates r pid then zero_fingerprint else asset_fingerprint r pid)"
    "obs (r' r) pid = (if invalidates r pid then map (\<lambda>(p, _). (p, '''')) (obs r pid) else obs r pid)"
  by (auto simp: r'_def assets_InvalidateConnection_def obs_def lookup_map_def map_of_map_key asset_state_def
      asset_fingerprint_def map_of_filter_fst invalidates_def split: option.splits)

lemma blank_map [simp]: "hash_at (map (\<lambda>(p, _). (p, [])) m) p = map_option (\<lambda>_. []) (hash_at m p)"
  unfolding hash_at_def by (induction m) auto

lemma table_ok_blank: "table_ok e cat pid m \<Longrightarrow> table_ok e cat pid (map (\<lambda>(p, _). (p, [])) m)"
proof -
  assume ok: "table_ok e cat pid m"
  have "map fst (map (\<lambda>(p, _). (p, [])) m) = map fst m" by (induction m) auto
  then have "alist_wf (map (\<lambda>(p, _). (p, [])) m)" using ok by (metis table_ok_def)
  then show ?thesis using ok unfolding table_ok_def by auto
qed

text \<open>After it, nothing counts as verified, and the tables are consistent with any storage.\<close>

lemma invalidate_blank:
  assumes "tables_inv e cat r"
  shows "blank (obs (assets_InvalidateConnection r) pid)"
proof (cases "invalidates r pid")
  case True
  then show ?thesis by (auto simp: invalidate_fields blank_def)
next
  case False
  then have "obs r pid = []" using assms by (auto simp: invalidates_def tables_inv_def obs_def)
  then show ?thesis using False by (simp add: invalidate_fields blank_def)
qed

lemma invalidate_inv:
  assumes inv: "tables_inv e cat r" and ready: "\<And>pid. \<not> invalidates r pid \<Longrightarrow> ready_ok e cat r pid"
  shows "asset_inv e cat (assets_InvalidateConnection r)"
proof -
  let ?r = "assets_InvalidateConnection r"
  have "alist_wf (ar_observed ?r)"
    using inv by (auto simp: tables_inv_def assets_InvalidateConnection_def comp_def case_prod_beta)
  then have "tables_inv e cat ?r"
    using inv by (auto simp: tables_inv_def invalidate_fields table_ok_blank)
  moreover have "table_valid e ?r (obs ?r pid)" for pid
    using invalidate_blank [OF inv, of pid] by (auto simp: table_valid_def blank_def)
  moreover have "ready_ok e cat ?r pid" for pid
  proof (cases "invalidates r pid")
    case True
    then show ?thesis by (simp add: ready_ok_def assets_Ready_def invalidate_fields invalid_state_def)
  next
    case False
    then show ?thesis using ready [OF False] by (simp add: ready_ok_def assets_Ready_def invalidate_fields)
  qed
  ultimately show ?thesis by (simp add: asset_inv_def)
qed

subsection \<open>A running reconciliation\<close>

text \<open>
  A reconciliation of \<open>pid\<close> that started in \<open>epoch\<close> holds the table \<open>m\<close>. While no new connection has come, \<open>m\<close> is
  valid and the other plugins are untouched. With \<open>keep\<close> it has removed nothing, so the verified files of the
  shared table are in \<open>m\<close>. After a new connection the invariant holds and nothing of \<open>pid\<close> counts as verified.
\<close>

definition running :: "asset_env \<Rightarrow> Package list \<Rightarrow> bool \<Rightarrow> string \<Rightarrow> nat \<Rightarrow> path_map \<Rightarrow> asset_Reconciler \<Rightarrow> bool" where
  "running e cat keep pid epoch m r \<longleftrightarrow>
     table_ok e cat pid m \<and> tables_inv e cat r \<and> (\<forall>q. ready_ok e cat r q) \<and> (\<forall>q. q \<noteq> pid \<longrightarrow> table_valid e r (obs r q)) \<and>
     epoch \<le> ar_epoch r \<and>
     (if ar_epoch r = epoch
      then table_valid e r m \<and> (keep \<longrightarrow> (\<forall>p h. hash_at (obs r pid) p = Some h \<longrightarrow> h = [] \<or> hash_at m p = Some h))
      else blank (obs r pid))"

lemma running_start: "asset_inv e cat r \<Longrightarrow> running e cat keep pid (ar_epoch r) (obs r pid) r"
  by (auto simp: running_def asset_inv_def tables_inv_def)

text \<open>The invariant depends on the tables and the storage only.\<close>

lemma tables_cong:
  assumes "ar_states r' = ar_states r" "ar_paths r' = ar_paths r" "ar_fingerprints r' = ar_fingerprints r" "ar_observed r' = ar_observed r"
  shows "obs r' pid = obs r pid" "tables_inv e cat r' = tables_inv e cat r" "ready_ok e cat r' pid = ready_ok e cat r pid"
    "invalidates r' pid = invalidates r pid"
  using assms by (simp_all add: obs_def tables_inv_def ready_ok_def assets_Ready_def asset_state_def asset_fingerprint_def invalidates_def)

lemma running_tick: "running e cat keep pid epoch m r \<Longrightarrow> running e cat keep pid epoch m (r\<lparr>ar_ticks := n\<rparr>)"
proof -
  let ?r = "r\<lparr>ar_ticks := n\<rparr>"
  have "stored e ?r = stored e r" by (intro ext) (simp add: stored_def)
  then have "table_valid e ?r = table_valid e r" by (intro ext) (simp add: table_valid_def)
  moreover assume "running e cat keep pid epoch m r"
  ultimately show ?thesis by (simp add: running_def tables_cong [of ?r r])
qed

lemma running_interrupted: "running e cat keep pid epoch m r \<Longrightarrow> running e cat keep pid epoch m (interrupted e r)"
proof (cases "ae_interrupt e (ar_ticks r)")
  case None
  assume "running e cat keep pid epoch m r"
  then have "running e cat keep pid epoch m (r\<lparr>ar_ticks := Suc (ar_ticks r)\<rparr>)" by (rule running_tick)
  then show ?thesis using None by (simp add: interrupted_def)
next
  case (Some storage)
  assume run: "running e cat keep pid epoch m r"
  let ?r = "r\<lparr>ar_ticks := Suc (ar_ticks r), ar_storage := storage\<rparr>"
  have t: "tables_inv e cat ?r" "\<And>q. ready_ok e cat ?r q" using run by (simp_all add: running_def tables_cong [of ?r r])
  then have inv: "asset_inv e cat (assets_InvalidateConnection ?r)" by (blast intro: invalidate_inv)
  have "interrupted e r = assets_InvalidateConnection ?r" using Some by (simp add: interrupted_def)
  then show ?thesis
    using run inv invalidate_blank [OF t(1), of pid] by (simp add: running_def asset_inv_def invalidate_fields)
qed

lemma storageAssetPath_inject [simp]: "storageAssetPath p = storageAssetPath p' \<longleftrightarrow> p = p'"
  by (simp add: storageAssetPath_def)

text \<open>A file of \<open>pid\<close> that does not count as verified may change.\<close>

lemma running_write:
  assumes run: "running e cat keep pid epoch m r" and apart: "paths_apart e cat" and mine: "declares e cat pid p h"
    and unverified: "\<And>h. hash_at m p = Some h \<Longrightarrow> h = []"
  shows "running e cat keep pid epoch m (r\<lparr>ar_storage := (ar_storage r)(storageAssetPath p := c)\<rparr>)" (is "running _ _ _ _ _ _ ?r")
proof -
  have others: "table_valid e ?r (obs r q)" if "q \<noteq> pid" for q
    unfolding table_valid_def
  proof (intro allI impI)
    fix p' h' assume obs: "hash_at (obs r q) p' = Some h'"
    then obtain h'' where "declares e cat q p' h''" using run unfolding running_def tables_inv_def table_ok_def by blast
    then have "p' \<noteq> p" using paths_apartD [OF apart mine] that by blast
    then show "h' = [] \<or> stored e ?r p' h'"
      using run that obs by (auto simp: running_def table_valid_def stored_def)
  qed
  have "table_valid e ?r m" if "table_valid e r m"
    using that unverified by (auto simp: table_valid_def stored_def)
  then show ?thesis using run others by (simp add: running_def tables_cong [of ?r r])
qed

lemma table_ok_delete: "table_ok e cat pid m \<Longrightarrow> table_ok e cat pid (AList.delete p m)"
  by (auto simp: table_ok_def distinct_update distinct_delete)

lemma table_ok_update: "table_ok e cat pid m \<Longrightarrow> declares e cat pid p h \<Longrightarrow> table_ok e cat pid (AList.update p h m)"
  by (auto simp: table_ok_def distinct_update distinct_delete)

lemma table_valid_delete: "table_valid e r m \<Longrightarrow> table_valid e r (AList.delete p m)"
  unfolding table_valid_def by simp

lemma running_forget: "running e cat False pid epoch m r \<Longrightarrow> running e cat False pid epoch (AList.delete p m) r"
  by (simp add: running_def table_ok_delete table_valid_delete)

lemma running_learn:
  assumes "running e cat keep pid epoch m r" "paths_apart e cat" "declares e cat pid p h" "stored e r p h"
  shows "running e cat keep pid epoch (AList.update p h m) r"
proof -
  have same: "h' = [] \<or> h' = h" if "hash_at (obs r pid) p = Some h'" for h'
  proof -
    obtain h'' where "declares e cat pid p h''" "h' = [] \<or> h' = h''"
      using assms(1) \<open>hash_at (obs r pid) p = Some h'\<close> unfolding running_def tables_inv_def table_ok_def by metis
    then show ?thesis using paths_apartD [OF assms(2,3)] by auto
  qed
  have "table_ok e cat pid (AList.update p h m)" using assms(1,3) by (simp add: running_def table_ok_update)
  moreover have "table_valid e r (AList.update p h m)" if "table_valid e r m"
    using that assms(4) by (auto simp: table_valid_def)
  ultimately show ?thesis using assms(1) same by (auto simp: running_def)
qed

subsection \<open>Calls of the device\<close>

lemma running_Remove:
  assumes "device_Remove e p r = (ok, r')" "running e cat False pid epoch m r" "paths_apart e cat" "removals_honest e" "declares e cat pid p h"
  shows "running e cat False pid epoch (if ok then AList.delete p m else m) r'"
proof -
  let ?r = "(interrupted e r)\<lparr>ar_ticks := Suc (ar_ticks (interrupted e r))\<rparr>"
  have run: "running e cat False pid epoch m ?r" by (intro running_tick running_interrupted assms(2))
  have "running e cat False pid epoch (AList.delete p m) (?r\<lparr>ar_storage := (ar_storage ?r)(storageAssetPath p := None)\<rparr>)"
    by (rule running_write [OF running_forget [OF run] assms(3,5)]) simp
  moreover have "ae_remove e (ar_ticks (interrupted e r)) \<noteq> Broken True" using assms(4) by (simp add: removals_honest_def)
  ultimately show ?thesis
    using assms(1) run by (auto simp: device_Remove_def Let_def split: storage_reply.splits)
qed

lemma running_Upload:
  assumes "device_UploadFile e p l r = (ok, r')" "running e cat keep pid epoch m r" "paths_apart e cat" "declares e cat pid p h"
    and "\<And>h. hash_at m p = Some h \<Longrightarrow> h = []"
  shows "running e cat keep pid epoch m r'"
proof -
  let ?r = "(interrupted e r)\<lparr>ar_ticks := Suc (ar_ticks (interrupted e r))\<rparr>"
  have run: "running e cat keep pid epoch m ?r" by (intro running_tick running_interrupted assms(2))
  have "running e cat keep pid epoch m (?r\<lparr>ar_storage := (ar_storage ?r)(storageAssetPath p := Some c)\<rparr>)" for c
    by (rule running_write [OF run assms(3,4,5)])
  then show ?thesis
    using assms(1) run by (auto simp: device_UploadFile_def Let_def split: storage_reply.splits if_splits)
qed

lemma running_Matches:
  assumes "deviceAssetMatches e p asset r = (ok, r')" "running e cat keep pid epoch m r"
  shows "running e cat keep pid epoch m r'" "ok \<Longrightarrow> stored e r' p (asset_SHA256 asset)"
  using assms(1) running_tick [OF running_interrupted [OF assms(2)]]
  by (auto simp: deviceAssetMatches_def Let_def stored_def split: option.splits)

lemma running_local: "verifiedLocalPath e root asset r = (x, r') \<Longrightarrow> running e cat keep pid epoch m r \<Longrightarrow> running e cat keep pid epoch m r'"
  by (auto simp: verifiedLocalPath_def Let_def split: if_splits intro: running_tick)

lemma running_remove_files:
  assumes "remove_files e ps m r = (ok, m', r')" "running e cat False pid epoch m r" "paths_apart e cat" "removals_honest e"
    and "\<And>p. p \<in> set ps \<Longrightarrow> \<exists>h. declares e cat pid p h"
  shows "running e cat False pid epoch m' r'"
  using assms(1,2,5)
proof (induction ps arbitrary: m r)
  case (Cons p ps)
  obtain r1 ok1 where rm: "device_Remove e p r = (ok1, r1)" by (cases "device_Remove e p r")
  obtain h where "declares e cat pid p h" using Cons.prems(3) by auto
  then have "running e cat False pid epoch (if ok1 then AList.delete p m else m) r1"
    by (rule running_Remove [OF rm Cons.prems(2) assms(3,4)])
  then show ?case using Cons rm by (auto split: if_splits bool.splits)
qed simp

text \<open>What the loop over the assets has found so far: \<open>resolved\<close> names files of \<open>found\<close>, and their hashes are in \<open>m\<close>.\<close>

definition verified_so_far :: "asset_env \<Rightarrow> Package \<Rightarrow> AssetDeclaration list \<Rightarrow> path_map \<Rightarrow> path_map \<Rightarrow> bool" where
  "verified_so_far e v found resolved m \<longleftrightarrow>
     (\<forall>a\<in>set found. \<exists>p. derivedDevicePath (ae_ex e) (pk_PluginID v) a = Some p \<and> hash_at m p = Some (asset_SHA256 a)) \<and>
     (\<forall>src p. map_of resolved src = Some p \<longrightarrow> (\<exists>a\<in>set found. asset_Source a = src \<and> derivedDevicePath (ae_ex e) (pk_PluginID v) a = Some p))"

lemma verified_so_far_step:
  assumes "verified_so_far e v found resolved m" "derivedDevicePath (ae_ex e) (pk_PluginID v) a = Some p" "hash_at m' p = Some (asset_SHA256 a)"
    and keeps: "\<And>q h. hash_at m q = Some h \<Longrightarrow> h \<noteq> [] \<Longrightarrow> hash_at m' q = Some h" and hashes: "\<And>b. b \<in> set found \<Longrightarrow> asset_SHA256 b \<noteq> []"
  shows "verified_so_far e v (found @ [a]) (AList.update (asset_Source a) p resolved) m'"
  unfolding verified_so_far_def
proof (intro conjI ballI allI impI)
  fix b assume "b \<in> set (found @ [a])"
  then show "\<exists>p. derivedDevicePath (ae_ex e) (pk_PluginID v) b = Some p \<and> hash_at m' p = Some (asset_SHA256 b)"
    using assms(1-3) keeps hashes unfolding verified_so_far_def by (cases "b = a") auto
next
  fix src q assume "map_of (AList.update (asset_Source a) p resolved) src = Some q"
  then show "\<exists>b\<in>set (found @ [a]). asset_Source b = src \<and> derivedDevicePath (ae_ex e) (pk_PluginID v) b = Some q"
    using assms(1,2) unfolding verified_so_far_def update_conv' by (cases "src = asset_Source a") auto
qed

text \<open>A verified file: the table after it, and what it keeps.\<close>

lemma learn_keeps:
  assumes "table_ok e cat pid m" "paths_apart e cat" "declares e cat pid p h" "hash_at m q = Some h'" "h' \<noteq> []"
  shows "hash_at (AList.update p h m) q = Some h'"
proof (cases "q = p")
  case True
  obtain h'' where "declares e cat pid q h''" "h' = h''" using assms(1,4,5) unfolding table_ok_def by blast
  then show ?thesis using True paths_apartD [OF assms(2,3)] by simp
qed (simp add: assms(4))

lemma unverified_blank:
  assumes "table_ok e cat pid m" "paths_apart e cat" "declares e cat pid p h" "map_of m p \<noteq> Some h" "hash_at m p = Some h'"
  shows "h' = []"
proof (rule ccontr)
  assume "h' \<noteq> []"
  then have "hash_at (AList.update p h m) p = Some h'" by (rule learn_keeps [OF assms(1-3,5)])
  then show False using assms(4,5) by (simp add: hash_at_def [of m p])
qed

lemma running_table_ok: "running e cat keep pid epoch m r \<Longrightarrow> table_ok e cat pid m"
  by (simp add: running_def)

lemma running_ensure_file:
  assumes "ensure_file e l p asset m r = (f, m', r')" "running e cat True pid epoch m r" "paths_apart e cat" "declares e cat pid p (asset_SHA256 asset)"
  shows "running e cat True pid epoch m' r'"
    and "f = None \<Longrightarrow> hash_at m' p = Some (asset_SHA256 asset)"
    and "hash_at m q = Some h \<Longrightarrow> h \<noteq> [] \<Longrightarrow> hash_at m' q = Some h"
proof -
  let ?m = "AList.update p (asset_SHA256 asset) m"
  note ok = running_table_ok [OF assms(2)]
  obtain ok1 r1 where match: "deviceAssetMatches e p asset r = (ok1, r1)" by (cases "deviceAssetMatches e p asset r")
  obtain ok2 r2 where upload: "device_UploadFile e p l r1 = (ok2, r2)" by (cases "device_UploadFile e p l r1")
  obtain ok3 r3 where again: "deviceAssetMatches e p asset r2 = (ok3, r3)" by (cases "deviceAssetMatches e p asset r2")
  note def = assms(1) [unfolded ensure_file_def Let_def match prod.case upload again]
  have run1: "running e cat True pid epoch m r1" by (rule running_Matches [OF match assms(2)])
  have run: "running e cat True pid epoch m r2" "running e cat True pid epoch m r3" if "map_of m p \<noteq> Some (asset_SHA256 asset)"
  proof -
    show run2: "running e cat True pid epoch m r2"
      by (rule running_Upload [OF upload run1 assms(3,4)]) (rule unverified_blank [OF ok assms(3,4) that])
    show "running e cat True pid epoch m r3" by (rule running_Matches [OF again run2])
  qed
  have learnt: "running e cat True pid epoch ?m r1" if "ok1"
    using running_learn [OF run1 assms(3,4)] running_Matches(2) [OF match assms(2) that] by simp
  have relearnt: "running e cat True pid epoch ?m r3" if "map_of m p \<noteq> Some (asset_SHA256 asset)" "ok3"
    using running_learn [OF run(2) assms(3,4)] running_Matches(2) [OF again run(1)] that by simp
  show "running e cat True pid epoch m' r'"
    using def assms(2) run1 run learnt relearnt by (auto split: if_splits bool.splits)
  show "f = None \<Longrightarrow> hash_at m' p = Some (asset_SHA256 asset)"
    using def by (auto simp: hash_at_def go_alist split: if_splits bool.splits)
  have "m' = m \<or> m' = ?m" using def by (auto split: if_splits bool.splits)
  then show "hash_at m q = Some h \<Longrightarrow> h \<noteq> [] \<Longrightarrow> hash_at m' q = Some h"
    using learn_keeps [OF ok assms(3,4)] by blast
qed

text \<open>How one turn of the loop ends.\<close>

lemma verify_assets_turn:
  assumes "verify_assets e v (asset # assets) state resolved m r = (result, state', m', r')"
    and "running e cat True (pk_PluginID v) epoch m r" "paths_apart e cat" "v \<in> set cat" "asset \<in> set (slice_list (pk_Assets v))"
  obtains (failed) f where "result = Inl f" "running e cat True (pk_PluginID v) epoch m' r'"
    | (verified) p state1 m1 r1 where "derivedDevicePath (ae_ex e) (pk_PluginID v) asset = Some p" "hash_at m1 p = Some (asset_SHA256 asset)"
        "\<And>q h. hash_at m q = Some h \<Longrightarrow> h \<noteq> [] \<Longrightarrow> hash_at m1 q = Some h" "running e cat True (pk_PluginID v) epoch m1 r1"
        "verify_assets e v assets state1 (AList.update (asset_Source asset) p resolved) m1 r1 = (result, state', m', r')"
proof -
  obtain l r1 where l: "verifiedLocalPath e (pk_Root v) asset r = (l, r1)" by (cases "verifiedLocalPath e (pk_Root v) asset r")
  have run1: "running e cat True (pk_PluginID v) epoch m r1" by (rule running_local [OF l assms(2)])
  note def = assms(1) [unfolded verify_assets.simps l prod.case]
  show thesis
  proof (cases "l = None \<or> derivedDevicePath (ae_ex e) (pk_PluginID v) asset = None")
    case True
    then obtain f where "result = Inl f" "m' = m" "r' = r1" using def by (auto split: option.splits)
    then show thesis using run1 by (intro failed) auto
  next
    case False
    then obtain x p where x: "l = Some x" and p: "derivedDevicePath (ae_ex e) (pk_PluginID v) asset = Some p" by auto
    obtain f m1 r2 where ens: "ensure_file e x p asset m r1 = (f, m1, r2)" by (cases "ensure_file e x p asset m r1")
    note ensured = running_ensure_file [OF ens run1 assms(3) declaresI [OF assms(4,5) p]]
    show thesis
    proof (cases f)
      case None
      then show thesis using def x p ens ensured by (intro verified [of p m1 r2]) auto
    next
      case (Some failure)
      then show thesis using def x p ens ensured(1) by (intro failed [of failure]) auto
    qed
  qed
qed

lemma running_verify_assets:
  assumes "verify_assets e v assets state resolved m r = (result, state', m', r')"
    and "running e cat True (pk_PluginID v) epoch m r" "paths_apart e cat" "v \<in> set cat" "slice_list (pk_Assets v) = found @ assets"
    and "verified_so_far e v found resolved m" "\<forall>a\<in>set (slice_list (pk_Assets v)). asset_SHA256 a \<noteq> []"
  shows "running e cat True (pk_PluginID v) epoch m' r' \<and>
    (\<forall>resolved'. result = Inr resolved' \<longrightarrow> verified_so_far e v (slice_list (pk_Assets v)) resolved' m')"
  using assms(1,2,5,6)
proof (induction assets arbitrary: found state resolved m r)
  case Nil
  then show ?case by auto
next
  case (Cons asset assets)
  have "asset \<in> set (slice_list (pk_Assets v))" using Cons.prems(3) by simp
  with Cons.prems(1,2) assms(3,4) show ?case
  proof (cases rule: verify_assets_turn)
    case (failed f)
    then show ?thesis by simp
  next
    case (verified p state1 m1 r1)
    have "verified_so_far e v (found @ [asset]) (AList.update (asset_Source asset) p resolved) m1"
      by (rule verified_so_far_step [OF Cons.prems(4) verified(1,2)]) (use verified(3) assms(7) Cons.prems(3) in auto)
    then show ?thesis using Cons.IH [OF verified(5,4), of "found @ [asset]"] Cons.prems(3) by simp
  qed
qed

subsection \<open>Writing the results\<close>

lemma running_overtaken: "running e cat keep pid epoch m r \<Longrightarrow> ar_epoch r \<noteq> epoch \<Longrightarrow> asset_inv e cat r"
proof -
  assume run: "running e cat keep pid epoch m r" and dead: "ar_epoch r \<noteq> epoch"
  have "table_valid e r (obs r pid)" using run dead by (auto simp: running_def blank_def table_valid_def)
  then have "table_valid e r (obs r q)" for q using run by (cases "q = pid") (auto simp: running_def)
  then show ?thesis using run by (simp add: running_def asset_inv_def)
qed

text \<open>A write touches the entries of one plugin; the rest of the invariant is kept.\<close>

definition writes :: "string \<Rightarrow> path_map \<Rightarrow> asset_Reconciler \<Rightarrow> asset_Reconciler \<Rightarrow> bool" where
  "writes pid m r r' \<longleftrightarrow>
     ar_storage r' = ar_storage r \<and> (alist_wf (ar_observed r) \<longrightarrow> alist_wf (ar_observed r')) \<and> map_of (ar_states r') pid \<noteq> None \<and> obs r' pid = m \<and>
     (\<forall>q. q \<noteq> pid \<longrightarrow> obs r' q = obs r q \<and> map_of (ar_states r') q = map_of (ar_states r) q \<and>
        map_of (ar_paths r') q = map_of (ar_paths r) q \<and> map_of (ar_fingerprints r') q = map_of (ar_fingerprints r) q)"

lemma writes_inv:
  assumes w: "writes pid m' r r'" and inv: "tables_inv e cat r" "\<And>q. q \<noteq> pid \<Longrightarrow> ready_ok e cat r q \<and> table_valid e r (obs r q)"
    and m': "table_ok e cat pid m'" "table_valid e r m'" and ready: "ready_ok e cat r' pid"
  shows "asset_inv e cat r'"
proof -
  have "stored e r' = stored e r" using w by (intro ext) (simp add: stored_def writes_def)
  then have valid: "table_valid e r' = table_valid e r" by (intro ext) (simp add: table_valid_def)
  have obs: "obs r' q = (if q = pid then m' else obs r q)" for q using w by (simp add: writes_def)
  have "ready_ok e cat r' q" for q
  proof (cases "q = pid")
    case False
    then show ?thesis using w inv(2) [OF False]
      by (simp add: writes_def ready_ok_def assets_Ready_def asset_state_def asset_fingerprint_def lookup_map_def)
  qed (simp add: ready)
  moreover have "tables_inv e cat r'"
    unfolding tables_inv_def obs using w inv(1) m'(1) by (auto simp: writes_def tables_inv_def)
  ultimately show ?thesis using inv(2) m'(2) by (simp add: asset_inv_def valid obs)
qed

lemma alist_wf_put: "alist_wf m \<Longrightarrow> alist_wf (put_map pid v m)"
  by (auto simp: put_map_def distinct_update distinct_delete split: option.splits)

lemma lookup_put: "lookup_map (put_map pid v m) q = (if q = pid then (case v of None \<Rightarrow> [] | Some x \<Rightarrow> x) else lookup_map m q)"
  by (auto simp: lookup_map_def put_map_def go_alist split: option.splits)

lemma map_of_put: "q \<noteq> pid \<Longrightarrow> map_of (put_map pid v m) q = map_of m q"
  by (auto simp: put_map_def go_alist split: option.splits)

lemma writes_set: "ar_epoch r = epoch \<Longrightarrow> writes pid (obs r pid) r (assets_set epoch pid st r)"
  by (auto simp: writes_def assets_set_def obs_def go_alist)

lemma writes_pending: "ar_epoch r = epoch \<Longrightarrow> writes pid (obs r pid) r (assets_pending epoch pid st r)"
  by (auto simp: writes_def assets_pending_def obs_def go_alist)

lemma writes_pendingObserved: "ar_epoch r = epoch \<Longrightarrow> writes pid m r (pendingObserved epoch pid st m r)"
  by (auto simp: writes_def pendingObserved_def obs_def lookup_map_def go_alist distinct_update)

lemma writes_commit:
  "ar_epoch r = epoch \<Longrightarrow> writes pid (case m of None \<Rightarrow> [] | Some x \<Rightarrow> x) r (assets_commit epoch pid st paths m fp r)"
  by (auto simp: writes_def assets_commit_def obs_def lookup_put map_of_put alist_wf_put go_alist)

lemma not_ready_ok: "st_Phase (asset_state r pid) \<noteq> AssetsReady \<Longrightarrow> ready_ok e cat r pid"
  by (simp add: ready_ok_def assets_Ready_def)

lemma written_state:
  assumes "ar_epoch r = epoch"
  shows "asset_state (assets_set epoch pid st r) pid = st" "asset_state (assets_pending epoch pid st r) pid = st"
    "asset_state (pendingObserved epoch pid st m r) pid = st" "asset_state (assets_commit epoch pid st paths m' fp r) pid = st"
  using assms by (simp_all add: asset_state_def assets_set_def assets_pending_def pendingObserved_def assets_commit_def go_alist)

lemma overtaken_writes:
  assumes "ar_epoch r \<noteq> epoch"
  shows "assets_set epoch pid st r = r" "assets_pending epoch pid st r = r" "pendingObserved epoch pid st m r = r"
    "assets_commit epoch pid st paths m' fp r = r"
  using assms by (simp_all add: assets_set_def assets_pending_def pendingObserved_def assets_commit_def)

text \<open>The four writes of a reconciliation.\<close>

lemma running_writes_own:
  assumes run: "running e cat True pid epoch m r" and live: "ar_epoch r = epoch" and w: "writes pid (obs r pid) r r'"
    and not_ready: "st_Phase (asset_state r' pid) \<noteq> AssetsReady"
  shows "asset_inv e cat r'"
proof (rule writes_inv [OF w])
  show "table_valid e r (obs r pid)" using run live unfolding running_def table_valid_def by metis
qed (use run not_ready in \<open>auto simp: running_def tables_inv_def not_ready_ok\<close>)

lemma running_set:
  "running e cat True pid epoch m r \<Longrightarrow> st_Phase st \<noteq> AssetsReady \<Longrightarrow> asset_inv e cat (assets_set epoch pid st (interrupted e r))"
  by (drule running_interrupted, cases "ar_epoch (interrupted e r) = epoch")
    (auto intro: running_writes_own [OF _ _ writes_set] running_overtaken simp: overtaken_writes written_state)

lemma running_pending:
  "running e cat True pid epoch m r \<Longrightarrow> st_Phase st \<noteq> AssetsReady \<Longrightarrow> asset_inv e cat (assets_pending epoch pid st (interrupted e r))"
  by (drule running_interrupted, cases "ar_epoch (interrupted e r) = epoch")
    (auto intro: running_writes_own [OF _ _ writes_pending] running_overtaken simp: overtaken_writes written_state)

lemma running_writes:
  assumes run: "running e cat keep pid epoch m r" and live: "ar_epoch r = epoch" and w: "writes pid m' r r'" "m' = m \<or> m' = []"
    and ready: "ready_ok e cat r' pid"
  shows "asset_inv e cat r'"
proof (rule writes_inv [OF w(1)])
  show "table_valid e r m'" using run live w(2) by (auto simp: running_def table_valid_def)
  show "table_ok e cat pid m'" using run w(2) by (auto simp: running_def table_ok_def)
qed (use run ready in \<open>auto simp: running_def\<close>)

lemma running_pendingObserved:
  "running e cat keep pid epoch m r \<Longrightarrow> st_Phase st \<noteq> AssetsReady \<Longrightarrow> asset_inv e cat (pendingObserved epoch pid st m (interrupted e r))"
  by (drule running_interrupted, cases "ar_epoch (interrupted e r) = epoch")
    (auto intro: running_writes [OF _ _ writes_pendingObserved] running_overtaken simp: overtaken_writes written_state not_ready_ok)

lemma running_commit:
  assumes run: "running e cat keep pid epoch m r" and m': "m' = None \<or> m' = Some m"
    and ready: "st_Phase st = AssetsReady \<Longrightarrow> v \<in> set cat \<and> pk_PluginID v = pid \<and> fp = manifestFingerprint e v \<and>
      complete e v (case paths of None \<Rightarrow> [] | Some x \<Rightarrow> x) (case m' of None \<Rightarrow> [] | Some x \<Rightarrow> x)"
  shows "asset_inv e cat (assets_commit epoch pid st paths m' fp (interrupted e r))"
proof (cases "ar_epoch (interrupted e r) = epoch")
  case True
  let ?r = "assets_commit epoch pid st paths m' fp (interrupted e r)"
  note w = writes_commit [OF True, of pid m' st paths fp]
  have "asset_fingerprint ?r pid = fp" "lookup_map (ar_paths ?r) pid = (case paths of None \<Rightarrow> [] | Some x \<Rightarrow> x)"
    using True by (simp_all add: assets_commit_def asset_fingerprint_def lookup_put go_alist)
  then have "ready_ok e cat ?r pid"
    using ready w True unfolding ready_ok_def assets_Ready_def writes_def by (auto simp: written_state)
  then show ?thesis
    using m' by (intro running_writes [OF running_interrupted [OF run] True w]) auto
next
  case False
  then show ?thesis using running_overtaken [OF running_interrupted [OF run] False] by (simp add: overtaken_writes)
qed

subsection \<open>Reconciling a package\<close>

lemma validate_assets_hashes: "validate_assets ex pid sources paths n as \<Longrightarrow> \<forall>a\<in>set as. asset_SHA256 a \<noteq> []"
  by (induction ex pid sources paths n as rule: validate_assets.induct) (auto split: if_splits option.splits)

lemma ValidatePackage_hashes: "ValidatePackage ex pid version root as \<Longrightarrow> \<forall>a\<in>set as. asset_SHA256 a \<noteq> []"
  using validate_assets_hashes by (auto simp: ValidatePackage_def)

lemma table_declares: "table_ok e cat pid m \<Longrightarrow> p \<in> set (map fst m) \<Longrightarrow> \<exists>h. declares e cat pid p h"
proof -
  assume ok: "table_ok e cat pid m" and p: "p \<in> set (map fst m)"
  obtain h where "hash_at m p = Some h" using p by (metis hash_at_def map_of_eq_None_iff not_None_eq set_map)
  then show ?thesis using ok by (auto simp: table_ok_def)
qed

lemma verified_complete:
  "verified_so_far e v (slice_list (pk_Assets v)) resolved m \<Longrightarrow> \<forall>a\<in>set (slice_list (pk_Assets v)). asset_SHA256 a \<noteq> [] \<Longrightarrow>
     complete e v resolved m"
  unfolding verified_so_far_def complete_def by auto

lemma bare_complete: "slice_list (pk_Assets v) = [] \<Longrightarrow> complete e v [] m"
  by (simp add: complete_def)

lemma retry_phase [simp]: "st_Phase (retry_state e code st r) = st_Phase st"
  by (simp add: retry_state_def)

lemma reconcile_disabled_inv:
  assumes run: "running e cat False (pk_PluginID v) epoch m r" and env: "paths_apart e cat" "removals_honest e"
  shows "asset_inv e cat (reconcile_disabled e v epoch st m fp r)"
proof -
  obtain ok m1 r1 where rm: "remove_files e (map fst m) m r = (ok, m1, r1)" by (cases "remove_files e (map fst m) m r")
  have run1: "running e cat False (pk_PluginID v) epoch m1 r1"
    by (rule running_remove_files [OF rm run env]) (rule table_declares [OF running_table_ok [OF run]])
  then show ?thesis
    using rm run unfolding reconcile_disabled_def Let_def
    by (auto intro!: running_commit running_pendingObserved split: bool.splits)
qed

lemma reconcile_bare_inv:
  assumes run: "running e cat False (pk_PluginID v) epoch m r" and env: "paths_apart e cat" "removals_honest e"
    and v: "v \<in> set cat" "slice_list (pk_Assets v) = []" "fp = manifestFingerprint e v" "st_Phase st \<noteq> AssetsReady"
  shows "asset_inv e cat (reconcile_bare e v epoch st m fp r)"
proof -
  obtain ok m1 r1 where rm: "remove_files e (sort (map fst m)) m r = (ok, m1, r1)" by (cases "remove_files e (sort (map fst m)) m r")
  have run1: "running e cat False (pk_PluginID v) epoch m1 r1"
    by (rule running_remove_files [OF rm run env]) (use table_declares [OF running_table_ok [OF run]] in simp)
  show ?thesis
  proof (cases ok)
    case True
    have "asset_inv e cat (assets_commit epoch (pk_PluginID v) (st\<lparr>st_Phase := AssetsReady, st_ObservedVersion := pk_Version v\<rparr>) None (Some m1) fp
        (interrupted e r1))"
      using v by (intro running_commit [OF run1, where v = v]) (auto simp: bare_complete)
    then show ?thesis using rm True by (simp add: reconcile_bare_def)
  next
    case False
    then show ?thesis using rm v(4) running_pendingObserved [OF run1] by (simp add: reconcile_bare_def)
  qed
qed

lemma verify_assets_phase: "verify_assets e v assets st resolved m r = (result, st', m', r') \<Longrightarrow> st_Phase st' = st_Phase st"
  by (induction e v assets st resolved m r rule: verify_assets.induct) (auto split: prod.splits option.splits)

lemma reconcile_assets_inv:
  assumes run: "running e cat True (pk_PluginID v) epoch m r" and env: "paths_apart e cat"
    and v: "v \<in> set cat" "\<forall>a\<in>set (slice_list (pk_Assets v)). asset_SHA256 a \<noteq> []" "fp = manifestFingerprint e v" "st_Phase st \<noteq> AssetsReady"
  shows "asset_inv e cat (reconcile_assets e v epoch st m fp r)"
proof -
  obtain result st1 m1 r1 where loop: "verify_assets e v (slice_list (pk_Assets v)) st [] m r = (result, st1, m1, r1)"
    by (cases "verify_assets e v (slice_list (pk_Assets v)) st [] m r")
  have "verified_so_far e v [] [] m" by (simp add: verified_so_far_def)
  then have run1: "running e cat True (pk_PluginID v) epoch m1 r1"
    and all: "\<And>resolved. result = Inr resolved \<Longrightarrow> verified_so_far e v (slice_list (pk_Assets v)) resolved m1"
    using running_verify_assets [OF loop run env v(1), of "[]"] v(2) by auto
  have phase: "st_Phase st1 \<noteq> AssetsReady" using verify_assets_phase [OF loop] v(4) by simp
  note def = reconcile_assets_def loop prod.case
  show ?thesis
  proof (cases result)
    case (Inl f)
    then show ?thesis
      using running_pending [OF run1] running_pendingObserved [OF run1] phase unfolding def by (cases f) simp_all
  next
    case (Inr resolved)
    then have "complete e v resolved m1" using all v(2) by (intro verified_complete) auto
    then show ?thesis using Inr v(1,3) unfolding def by (auto intro!: running_commit [OF run1, where v = v])
  qed
qed

lemma assets_reconcile_inv:
  assumes inv: "asset_inv e cat r" and env: "paths_apart e cat" "removals_honest e" and v: "v \<in> set cat"
  shows "asset_inv e cat (assets_reconcile e v r)"
proof -
  let ?pid = "pk_PluginID v"
  note run = running_start [OF inv, of True ?pid] running_start [OF inv, of False ?pid]
  have obs: "lookup_map (ar_observed r) ?pid = obs r ?pid" by (simp add: obs_def)
  have either: "(c \<Longrightarrow> asset_inv e cat x) \<Longrightarrow> (\<not> c \<Longrightarrow> asset_inv e cat y) \<Longrightarrow> asset_inv e cat (if c then x else y)" for c x y by simp
  show ?thesis
    unfolding assets_reconcile_def Let_def obs
    by (intro either inv running_set [OF run(1)] running_pending [OF run(1)] reconcile_disabled_inv [OF run(2)] reconcile_bare_inv [OF run(2)]
        reconcile_assets_inv [OF run(1)] running_commit [OF run(1), where v = v] env v)
      (simp_all add: ValidatePackage_hashes bare_complete v zero_asset_State_def)
qed

subsection \<open>Collecting garbage\<close>

text \<open>Without a new connection, the calls of the device leave the tables alone.\<close>

definition untouched :: "asset_Reconciler \<Rightarrow> asset_Reconciler \<Rightarrow> bool" where
  "untouched r r' \<longleftrightarrow> ar_epoch r \<le> ar_epoch r' \<and>
     (ar_epoch r' = ar_epoch r \<longrightarrow> ar_states r' = ar_states r \<and> ar_paths r' = ar_paths r \<and> ar_fingerprints r' = ar_fingerprints r \<and>
        ar_observed r' = ar_observed r)"

lemma untouched_trans: "untouched r r' \<Longrightarrow> untouched r' r'' \<Longrightarrow> untouched r r''"
  by (auto simp: untouched_def)

lemma untouched_interrupted: "untouched r (interrupted e r)"
  by (auto simp: untouched_def interrupted_def Let_def invalidate_fields split: option.splits)

lemma untouched_Remove: "device_Remove e p r = (ok, r') \<Longrightarrow> untouched r r'"
  using untouched_interrupted [of r e] by (auto simp: device_Remove_def Let_def untouched_def split: storage_reply.splits if_splits)

lemma complete_delete: "complete e v paths m \<Longrightarrow> p \<notin> set (desired_paths e v) \<Longrightarrow> complete e v paths (AList.delete p m)"
proof -
  assume all: "complete e v paths m" and p: "p \<notin> set (desired_paths e v)"
  have "q \<noteq> p" if "a \<in> set (slice_list (pk_Assets v))" "derivedDevicePath (ae_ex e) (pk_PluginID v) a = Some q" for a q
    using p that by (force simp: desired_paths_def List.map_filter_def)
  then have "hash_at (AList.delete p m) q = hash_at m q"
    if "a \<in> set (slice_list (pk_Assets v))" "derivedDevicePath (ae_ex e) (pk_PluginID v) a = Some q" for a q
    using that by simp
  then show ?thesis using all unfolding complete_def by metis
qed

text \<open>Whenever the plugin is ready, it is the package \<open>v\<close> that is ready.\<close>

definition ready_is :: "asset_env \<Rightarrow> Package \<Rightarrow> asset_Reconciler \<Rightarrow> bool" where
  "ready_is e v r \<longleftrightarrow> (assets_Ready (pk_PluginID v) r \<longrightarrow> asset_fingerprint r (pk_PluginID v) = manifestFingerprint e v)"

lemma ready_complete:
  assumes "asset_inv e cat r" "fingerprints_apart e cat" "v \<in> set cat" "ReadyFor e v r"
  shows "complete e v (lookup_map (ar_paths r) (pk_PluginID v)) (obs r (pk_PluginID v))"
proof -
  obtain v' where v': "v' \<in> set cat" "asset_fingerprint r (pk_PluginID v) = manifestFingerprint e v'"
    "complete e v' (lookup_map (ar_paths r) (pk_PluginID v)) (obs r (pk_PluginID v))"
    using assms(1,4) unfolding asset_inv_def ready_ok_def ReadyFor_def assets_Ready_def by blast
  then show ?thesis using fingerprints_apartD [OF assms(2,3) v'(1)] assms(4) by (simp add: ReadyFor_def)
qed

lemma writes_update: "writes pid m r (update_observed pid code m r)"
  by (auto simp: writes_def update_observed_def obs_def lookup_map_def go_alist distinct_update)

lemma update_observed_fields [simp]:
  "ar_epoch (update_observed pid code m r) = ar_epoch r" "ar_paths (update_observed pid code m r) = ar_paths r"
  "obs (update_observed pid code m r) pid = m" "assets_Ready pid (update_observed pid code m r) = assets_Ready pid r"
  "asset_fingerprint (update_observed pid code m r) q = asset_fingerprint r q"
  by (simp_all add: update_observed_def obs_def lookup_map_def go_alist assets_Ready_def asset_state_def asset_fingerprint_def)

text \<open>One removal and its write.\<close>

lemma collect_step:
  assumes inv: "asset_inv e cat r" and env: "paths_apart e cat" "fingerprints_apart e cat" "removals_honest e" and v: "v \<in> set cat" "ready_is e v r"
    and p: "p \<notin> set (desired_paths e v)" "declares e cat (pk_PluginID v) p h"
    and call: "device_Remove e p r = (ok, r1)" and r2: "r2 = interrupted e r1"
    and m1: "m1 = (if ok then AList.delete p (obs r (pk_PluginID v)) else obs r (pk_PluginID v))"
  shows "ar_epoch r2 \<noteq> ar_epoch r \<Longrightarrow> asset_inv e cat r2"
    and "ar_epoch r2 = ar_epoch r \<Longrightarrow> asset_inv e cat (update_observed (pk_PluginID v) code m1 r2) \<and> ready_is e v (update_observed (pk_PluginID v) code m1 r2)"
proof -
  let ?pid = "pk_PluginID v"
  have run: "running e cat False ?pid (ar_epoch r) m1 r2"
    unfolding r2 m1 by (intro running_interrupted running_Remove [OF call running_start [OF inv] env(1,3) p(2)])
  then show "ar_epoch r2 \<noteq> ar_epoch r \<Longrightarrow> asset_inv e cat r2" by (rule running_overtaken)
  assume live: "ar_epoch r2 = ar_epoch r"
  let ?r = "update_observed ?pid code m1 r2"
  have "untouched r r2" using untouched_trans [OF untouched_Remove [OF call] untouched_interrupted] by (simp add: r2)
  then have same: "assets_Ready ?pid r2 = assets_Ready ?pid r" "asset_fingerprint r2 ?pid = asset_fingerprint r ?pid" "ar_paths r2 = ar_paths r"
    using live by (simp_all add: untouched_def assets_Ready_def asset_state_def asset_fingerprint_def)
  have "complete e v (lookup_map (ar_paths r) ?pid) m1" if "assets_Ready ?pid r"
    using that v(2) ready_complete [OF inv env(2) v(1)] complete_delete [OF _ p(1)] by (auto simp: m1 ready_is_def ReadyFor_def assets_Ready_def)
  then have "ready_ok e cat ?r ?pid" using v same unfolding ready_ok_def ready_is_def by auto
  then have "asset_inv e cat ?r" by (intro running_writes [OF run live writes_update]) simp_all
  then show "asset_inv e cat ?r \<and> ready_is e v ?r" using v(2) same by (simp add: ready_is_def)
qed

lemma collect_files_inv:
  assumes "asset_inv e cat r" "ready_is e v r" "ar_epoch r = epoch" "obs r (pk_PluginID v) = m"
    and env: "paths_apart e cat" "fingerprints_apart e cat" "removals_honest e" "v \<in> set cat"
    and ps: "\<And>p. p \<in> set ps \<Longrightarrow> p \<notin> set (desired_paths e v) \<and> (\<exists>h. declares e cat (pk_PluginID v) p h)"
  shows "asset_inv e cat (collect_files e epoch (pk_PluginID v) ps m r)"
  using assms(1-4) ps
proof (induction ps arbitrary: m r)
  case (Cons p ps)
  obtain ok r1 where call: "device_Remove e p r = (ok, r1)" by (cases "device_Remove e p r")
  obtain h where p: "p \<notin> set (desired_paths e v)" "declares e cat (pk_PluginID v) p h" using Cons.prems(5) [of p] by auto
  note step = collect_step [OF Cons.prems(1) env(1-4) Cons.prems(2) p call refl refl]
  show ?case
  proof (cases "ar_epoch (interrupted e r1) = epoch")
    case False
    then show ?thesis using step(1) Cons.prems(3) call by (simp add: Let_def split: bool.splits)
  next
    case live: True
    show ?thesis
    proof (cases ok)
      case True
      let ?m = "AList.delete p m" and ?r = "interrupted e r1"
      have "asset_inv e cat (update_observed (pk_PluginID v) [] ?m ?r) \<and> ready_is e v (update_observed (pk_PluginID v) [] ?m ?r)"
        using step(2) [of "[]"] True live Cons.prems(3,4) by simp
      then have "asset_inv e cat (collect_files e epoch (pk_PluginID v) ps ?m (update_observed (pk_PluginID v) [] ?m ?r))"
        using live Cons.prems(5) by (intro Cons.IH) simp_all
      then show ?thesis using True live call by (simp add: Let_def)
    next
      case False
      then show ?thesis using step(2) [of ErrorDeviceUnavailable] live Cons.prems(3,4) call by (simp add: Let_def)
    qed
  qed
qed simp

lemma inv_interrupted: "asset_inv e cat r \<Longrightarrow> asset_inv e cat (interrupted e r)"
proof (cases "ar_epoch (interrupted e r) = ar_epoch r")
  assume inv: "asset_inv e cat r"
  note run = running_interrupted [OF running_start [OF inv, of True "[]"]]
  case False
  then show ?thesis by (rule running_overtaken [OF run])
next
  assume inv: "asset_inv e cat r"
  case True
  have run: "running e cat True q (ar_epoch r) (obs r q) (interrupted e r)" for q by (rule running_interrupted [OF running_start [OF inv]])
  have "obs (interrupted e r) q = obs r q" for q
    using untouched_interrupted [of r e] True by (simp add: untouched_def obs_def)
  then show ?thesis using run True unfolding running_def asset_inv_def by auto
qed

lemma ready_is_interrupted: "ReadyFor e v r \<Longrightarrow> ready_is e v (interrupted e r)"
proof -
  assume "ReadyFor e v r"
  then have "asset_fingerprint r (pk_PluginID v) = manifestFingerprint e v" by (simp add: ReadyFor_def)
  then show ?thesis
    by (auto simp: ready_is_def interrupted_def Let_def invalidate_fields assets_Ready_def invalid_state_def split: option.splits)
      (simp_all add: asset_fingerprint_def)
qed

lemma collect_package_inv:
  assumes inv: "asset_inv e cat r" and env: "paths_apart e cat" "fingerprints_apart e cat" "removals_honest e" and v: "v \<in> set cat"
  shows "asset_inv e cat (collect_package e v r)"
proof (cases "ReadyFor e v r")
  case True
  let ?r = "interrupted e r"
  have inv': "asset_inv e cat ?r" by (rule inv_interrupted [OF inv])
  then have "table_ok e cat (pk_PluginID v) (obs ?r (pk_PluginID v))" by (simp add: asset_inv_def tables_inv_def)
  then have "asset_inv e cat (collect_files e (ar_epoch ?r) (pk_PluginID v)
      (sort (filter (\<lambda>p. p \<notin> set (desired_paths e v)) (map fst (obs ?r (pk_PluginID v))))) (obs ?r (pk_PluginID v)) ?r)"
    by (intro collect_files_inv [OF inv' ready_is_interrupted [OF True] refl refl env v]) (use table_declares in force)
  then show ?thesis using inv by (simp add: collect_package_def Let_def obs_def)
qed (simp add: collect_package_def inv)

subsection \<open>The machine\<close>

lemma fold_keeps: "(\<And>v r. v \<in> set vs \<Longrightarrow> P r \<Longrightarrow> P (f v r)) \<Longrightarrow> P r \<Longrightarrow> P (fold f vs r)"
  by (induction vs arbitrary: r) auto

lemma new_inv: "asset_inv e cat (NewReconciler d storage)"
  by (simp add: asset_inv_def tables_inv_def table_ok_def table_valid_def ready_ok_def assets_Ready_def asset_state_def zero_asset_State_def
      obs_def lookup_map_def NewReconciler_def)

definition separated :: "asset_env \<Rightarrow> Package list \<Rightarrow> bool" where
  "separated e cat \<longleftrightarrow> removals_honest e \<and> paths_apart e cat \<and> fingerprints_apart e cat"

lemma asset_step_inv:
  assumes inv: "asset_inv e cat r" and sep: "separated e cat" and step: "asset_step e cat ev r = Some r'"
  shows "asset_inv e cat r'"
proof (cases ev)
  case (ReconcileEvent ps)
  then have "set ps \<subseteq> set cat" "r' = assets_Reconcile e ps r" using step by (auto simp: asset_step_def split: if_splits)
  then show ?thesis
    using inv sep unfolding assets_Reconcile_def separated_def by (auto intro!: fold_keeps [where P = "asset_inv e cat"] assets_reconcile_inv)
next
  case (GarbageEvent ps)
  then have "set ps \<subseteq> set cat" "r' = CollectGarbage e ps r" using step by (auto simp: asset_step_def split: if_splits)
  then show ?thesis
    using inv sep unfolding CollectGarbage_def separated_def by (auto intro!: fold_keeps [where P = "asset_inv e cat"] collect_package_inv)
next
  case (ConnectedEvent storage)
  let ?r = "r\<lparr>ar_storage := storage\<rparr>"
  have "tables_inv e cat ?r" "\<And>q. ready_ok e cat ?r q" using inv by (simp_all add: asset_inv_def tables_cong [of ?r r])
  then show ?thesis using ConnectedEvent step by (auto simp: asset_step_def intro: invalidate_inv)
qed

interpretation assets: invariant_machine "asset_step e cat" "NewReconciler d storage" "\<lambda>r. separated e cat \<longrightarrow> asset_inv e cat r"
  by unfold_locales (auto intro: new_inv asset_step_inv)

end
