(* ===== verification/AssetProgress.thy ===== *)
theory AssetProgress
  imports AssetStorage
begin

text \<open>
  Progress of the asset reconciler: with a device that answers and local files as declared, one reconciliation makes every
  enabled package ready, from any state of the tables and the storage.
\<close>

subsection \<open>A device that works\<close>

definition undisturbed :: "asset_env \<Rightarrow> bool" where
  "undisturbed e \<longleftrightarrow> (\<forall>n. ae_interrupt e n = None)"

definition device_answers :: "asset_env \<Rightarrow> bool" where
  "device_answers e \<longleftrightarrow> (\<forall>n. ae_upload e n = Applied \<and> ae_remove e n = Applied \<and> ae_read e n)"

text \<open>The local file of an asset is as declared, whenever it is read or uploaded.\<close>

definition file_ok :: "asset_env \<Rightarrow> string \<Rightarrow> AssetDeclaration \<Rightarrow> string \<Rightarrow> bool" where
  "file_ok e root a content \<longleftrightarrow>
     int (length content) = asset_Size a \<and> sha256_hex e content = asset_SHA256 a \<and>
     (let p = filepath_Join root (asset_Source a)
      in \<not> escapes_root root p \<and>
         (\<forall>n. ae_file e n p = Some \<lparr>lf_regular = True, lf_size = asset_Size a, lf_content = Some content\<rparr> \<and> ae_uploaded e n p = content))"

definition files_ok :: "asset_env \<Rightarrow> Package \<Rightarrow> bool" where
  "files_ok e v \<longleftrightarrow> (\<forall>a\<in>set (slice_list (pk_Assets v)). \<exists>content. file_ok e (pk_Root v) a content)"

subsection \<open>Undisturbed calls leave the tables alone\<close>

definition kept :: "asset_Reconciler \<Rightarrow> asset_Reconciler \<Rightarrow> bool" where
  "kept r r' \<longleftrightarrow> ar_epoch r' = ar_epoch r \<and> ar_device r' = ar_device r \<and> ar_states r' = ar_states r \<and> ar_paths r' = ar_paths r \<and>
     ar_fingerprints r' = ar_fingerprints r \<and> ar_observed r' = ar_observed r"

lemma kept_refl [simp]: "kept r r"
  by (simp add: kept_def)

lemma kept_trans: "kept r r' \<Longrightarrow> kept r' r'' \<Longrightarrow> kept r r''"
  by (simp add: kept_def)

lemma undisturbed_interrupted: "undisturbed e \<Longrightarrow> interrupted e r = r\<lparr>ar_ticks := Suc (ar_ticks r)\<rparr>"
  by (simp add: undisturbed_def interrupted_def)

lemma kept_interrupted: "undisturbed e \<Longrightarrow> kept r (interrupted e r)"
  by (simp add: undisturbed_interrupted kept_def)

lemma kept_Remove: "undisturbed e \<Longrightarrow> device_Remove e p r = (ok, r') \<Longrightarrow> kept r r'"
  by (auto simp: device_Remove_def undisturbed_interrupted Let_def kept_def split: storage_reply.splits if_splits)

lemma kept_Upload: "undisturbed e \<Longrightarrow> device_UploadFile e p l r = (ok, r') \<Longrightarrow> kept r r'"
  by (auto simp: device_UploadFile_def undisturbed_interrupted Let_def kept_def split: storage_reply.splits if_splits)

lemma kept_Matches: "undisturbed e \<Longrightarrow> deviceAssetMatches e p a r = (ok, r') \<Longrightarrow> kept r r'"
  by (auto simp: deviceAssetMatches_def undisturbed_interrupted Let_def kept_def)

lemma kept_local: "verifiedLocalPath e root a r = (x, r') \<Longrightarrow> kept r r'"
  by (auto simp: verifiedLocalPath_def Let_def kept_def split: if_splits)

lemma kept_remove_files: "undisturbed e \<Longrightarrow> remove_files e ps m r = (ok, m', r') \<Longrightarrow> kept r r'"
proof (induction ps arbitrary: m r)
  case (Cons p ps)
  obtain ok1 r1 where rm: "device_Remove e p r = (ok1, r1)" by (cases "device_Remove e p r")
  then show ?case using Cons kept_Remove [OF Cons.prems(1) rm] by (auto split: if_splits bool.splits intro: kept_trans)
qed simp

lemma kept_ensure: "undisturbed e \<Longrightarrow> ensure_file e l p a m r = (f, m', r') \<Longrightarrow> kept r r'"
proof -
  assume e: "undisturbed e" and def: "ensure_file e l p a m r = (f, m', r')"
  obtain ok1 r1 where match: "deviceAssetMatches e p a r = (ok1, r1)" by (cases "deviceAssetMatches e p a r")
  obtain ok2 r2 where upload: "device_UploadFile e p l r1 = (ok2, r2)" by (cases "device_UploadFile e p l r1")
  obtain ok3 r3 where again: "deviceAssetMatches e p a r2 = (ok3, r3)" by (cases "deviceAssetMatches e p a r2")
  have k: "kept r r1" "kept r1 r2" "kept r2 r3"
    using kept_Matches [OF e match] kept_Upload [OF e upload] kept_Matches [OF e again] by auto
  have "r' \<in> {r, r1, r2, r3}" using def by (auto simp: ensure_file_def match upload again Let_def split: if_splits bool.splits)
  then show ?thesis using k by (auto intro: kept_trans)
qed

lemma kept_verify: "undisturbed e \<Longrightarrow> verify_assets e v as st res m r = (result, st', m', r') \<Longrightarrow> kept r r'"
  by (induction e v as st res m r rule: verify_assets.induct)
    (auto split: prod.splits option.splits dest!: kept_local kept_ensure intro: kept_trans)

subsection \<open>Every file is verified\<close>

lemma Remove_answers: "device_answers e \<Longrightarrow> fst (device_Remove e p r)"
  by (simp add: device_answers_def device_Remove_def Let_def)

lemma remove_files_answers:
  "undisturbed e \<Longrightarrow> device_answers e \<Longrightarrow> ar_device r \<Longrightarrow> fst (remove_files e ps m r)"
proof (induction ps arbitrary: m r)
  case (Cons p ps)
  obtain ok r1 where rm: "device_Remove e p r = (ok, r1)" by (cases "device_Remove e p r")
  have "ok" using Remove_answers [OF Cons.prems(2), of p r] rm by simp
  moreover have "ar_device r1" using kept_Remove [OF Cons.prems(1) rm] Cons.prems(3) by (simp add: kept_def)
  ultimately show ?case using Cons rm by simp
qed simp

lemma local_answers:
  assumes "file_ok e root a content" "asset_Size a \<le> MaxAssetBytes"
  shows "fst (verifiedLocalPath e root a r) = Some (filepath_Join root (asset_Source a))"
proof -
  have "int (length content) \<le> MaxAssetBytes" using assms by (simp add: file_ok_def)
  then have "take (nat (MaxAssetBytes + 1)) content = content" by simp
  then show ?thesis using assms(1) by (simp add: verifiedLocalPath_def file_ok_def Let_def)
qed

lemma ensure_answers:
  assumes "undisturbed e" "device_answers e" "file_ok e root a content"
  shows "fst (ensure_file e (filepath_Join root (asset_Source a)) p a m r) = None"
proof -
  let ?l = "filepath_Join root (asset_Source a)"
  have up: "fst (device_UploadFile e p ?l r)" "ar_storage (snd (device_UploadFile e p ?l r)) (storageAssetPath p) = Some content" for r
    using assms by (simp_all add: device_UploadFile_def device_answers_def file_ok_def Let_def)
  have "fst (deviceAssetMatches e p a r)" if "ar_storage r (storageAssetPath p) = Some content" for r
    using that assms by (simp add: deviceAssetMatches_def undisturbed_interrupted device_answers_def file_ok_def Let_def)
  then have "fst (deviceAssetMatches e p a (snd (device_UploadFile e p ?l r)))" for r using up by simp
  then show ?thesis using up(1) by (auto simp: ensure_file_def Let_def split: prod.splits bool.splits) (metis fst_conv snd_conv)+
qed

lemma verify_answers:
  assumes "undisturbed e" "device_answers e"
    and "\<forall>a\<in>set as. (\<exists>content. file_ok e (pk_Root v) a content) \<and> derivedDevicePath (ae_ex e) (pk_PluginID v) a \<noteq> None \<and> asset_Size a \<le> MaxAssetBytes"
  shows "\<exists>resolved st' m' r'. verify_assets e v as st res m r = (Inr resolved, st', m', r')"
  using assms(3)
proof (induction as arbitrary: st res m r)
  case (Cons a as)
  obtain content p where a: "file_ok e (pk_Root v) a content" "derivedDevicePath (ae_ex e) (pk_PluginID v) a = Some p" "asset_Size a \<le> MaxAssetBytes"
    using Cons.prems by auto
  let ?l = "filepath_Join (pk_Root v) (asset_Source a)"
  obtain r1 where l: "verifiedLocalPath e (pk_Root v) a r = (Some ?l, r1)"
    using local_answers [OF a(1,3), of r] by (cases "verifiedLocalPath e (pk_Root v) a r") auto
  obtain m1 r2 where f: "ensure_file e ?l p a m r1 = (None, m1, r2)"
    using ensure_answers [OF assms(1,2) a(1), of p m r1] by (cases "ensure_file e ?l p a m r1") auto
  show ?case using Cons a(2) l f by simp
qed simp

subsection \<open>A reconciliation makes its package ready\<close>

lemma validate_assets_each:
  "validate_assets ex pid sources paths n as \<Longrightarrow> \<forall>a\<in>set as. derivedDevicePath ex pid a \<noteq> None \<and> asset_Size a \<le> MaxAssetBytes"
  by (induction ex pid sources paths n as rule: validate_assets.induct) (auto split: if_splits option.splits)

lemma ready_commit:
  assumes "undisturbed e" "kept r r'" "st_Phase st = AssetsReady"
  shows "ReadyFor e v (assets_commit (ar_epoch r) (pk_PluginID v) st paths m (manifestFingerprint e v) (interrupted e r'))"
  using assms by (simp add: ReadyFor_def assets_commit_def undisturbed_interrupted kept_def asset_state_def asset_fingerprint_def go_alist)

lemma reconcile_makes_ready:
  assumes env: "undisturbed e" "device_answers e" and dev: "ar_device r" and v: "pk_Enabled v" "files_ok e v"
    "ValidatePackage (ae_ex e) (pk_PluginID v) (pk_Version v) (pk_Root v) (slice_list (pk_Assets v))"
  shows "ReadyFor e v (assets_reconcile e v r)"
proof -
  let ?m = "lookup_map (ar_observed r) (pk_PluginID v)" and ?fp = "manifestFingerprint e v"
  have bare: "ReadyFor e v (reconcile_bare e v (ar_epoch r) st ?m ?fp r)" for st
  proof -
    obtain ok m1 r1 where rm: "remove_files e (sort (map fst ?m)) ?m r = (ok, m1, r1)" by (cases "remove_files e (sort (map fst ?m)) ?m r")
    have ok using remove_files_answers [OF env dev, of "sort (map fst ?m)" ?m] rm by simp
    then show ?thesis using rm kept_remove_files [OF env(1) rm] by (simp add: reconcile_bare_def ready_commit env(1))
  qed
  have full: "ReadyFor e v (reconcile_assets e v (ar_epoch r) st ?m ?fp r)" if "slice_list (pk_Assets v) \<noteq> []" for st
  proof -
    have "validate_assets (ae_ex e) (pk_PluginID v) [] [] 0 (slice_list (pk_Assets v))" using v(3) that by (simp add: ValidatePackage_def)
    from validate_assets_each [OF this]
    obtain resolved st1 m1 r1 where loop: "verify_assets e v (slice_list (pk_Assets v)) st [] ?m r = (Inr resolved, st1, m1, r1)"
      using verify_answers [OF env, of "slice_list (pk_Assets v)" v st "[]" ?m r] v(2) unfolding files_ok_def by blast
    show ?thesis by (simp add: reconcile_assets_def loop ready_commit [OF env(1) kept_verify [OF env(1) loop]])
  qed
  show ?thesis
  proof (cases "asset_fingerprint r (pk_PluginID v) = ?fp \<and> st_Phase (asset_state r (pk_PluginID v)) = AssetsReady")
    case True
    then have "ReadyFor e v r" by (simp add: ReadyFor_def)
    moreover have "map_of (ar_states r) (pk_PluginID v) \<noteq> None" using True by (auto simp: asset_state_def zero_asset_State_def split: option.splits)
    ultimately show ?thesis using True v by (simp add: assets_reconcile_def Let_def)
  next
    case False
    then show ?thesis using v dev bare full ready_commit [OF env(1) kept_refl] unfolding assets_reconcile_def Let_def by (auto simp: Let_def)
  qed
qed

subsection \<open>Other plugins are left alone\<close>

definition same_plugin :: "string \<Rightarrow> asset_Reconciler \<Rightarrow> asset_Reconciler \<Rightarrow> bool" where
  "same_plugin q r r' \<longleftrightarrow> ar_device r' = ar_device r \<and> map_of (ar_states r') q = map_of (ar_states r) q \<and>
     map_of (ar_fingerprints r') q = map_of (ar_fingerprints r) q"

lemma same_plugin_writes:
  assumes "q \<noteq> pid" "kept r r'"
  shows "same_plugin q r (assets_set epoch pid st r')" "same_plugin q r (assets_pending epoch pid st r')"
    "same_plugin q r (pendingObserved epoch pid st m r')" "same_plugin q r (assets_commit epoch pid st paths m' fp r')" "same_plugin q r r'"
  using assms by (simp_all add: same_plugin_def kept_def assets_set_def assets_pending_def pendingObserved_def assets_commit_def go_alist)

lemma reconcile_same_plugin:
  assumes "undisturbed e" "q \<noteq> pk_PluginID v"
  shows "same_plugin q r (assets_reconcile e v r)"
proof -
  have w: "same_plugin q r (assets_set epoch (pk_PluginID v) st (interrupted e r'))" "same_plugin q r (assets_pending epoch (pk_PluginID v) st (interrupted e r'))"
    "same_plugin q r (pendingObserved epoch (pk_PluginID v) st m (interrupted e r'))"
    "same_plugin q r (assets_commit epoch (pk_PluginID v) st paths m' fp (interrupted e r'))" if "kept r r'" for r' epoch st m paths m' fp
    using same_plugin_writes [OF assms(2) kept_trans [OF that kept_interrupted [OF assms(1)]]] by blast+
  have disabled: "same_plugin q r (reconcile_disabled e v epoch st m fp r)" and bare: "same_plugin q r (reconcile_bare e v epoch st m fp r)"
    and full: "same_plugin q r (reconcile_assets e v epoch st m fp r)" for epoch st m fp
    using w kept_remove_files [OF assms(1)] kept_verify [OF assms(1)]
    by (auto simp: reconcile_disabled_def reconcile_bare_def reconcile_assets_def Let_def split: prod.splits bool.splits sum.splits asset_failure.splits)
  show ?thesis
    unfolding assets_reconcile_def Let_def using w [OF kept_refl] disabled bare full by (auto simp: same_plugin_def [of q r r])
qed

lemma same_plugin_ready: "same_plugin (pk_PluginID v) r r' \<Longrightarrow> ReadyFor e v r' = ReadyFor e v r"
  by (simp add: same_plugin_def ReadyFor_def asset_state_def asset_fingerprint_def)

lemma reconcile_device: "undisturbed e \<Longrightarrow> ar_device (assets_reconcile e v r) = ar_device r"
  using reconcile_same_plugin [of e "CHR ''x'' # pk_PluginID v" v r] by (simp add: same_plugin_def)

lemma Reconcile_keeps_others:
  "undisturbed e \<Longrightarrow> q \<notin> pk_PluginID ` set ps \<Longrightarrow> same_plugin q r (assets_Reconcile e ps r)"
proof (induction ps arbitrary: r)
  case (Cons v ps)
  then show ?case
    using reconcile_same_plugin [OF Cons.prems(1), of q v r] Cons.IH [OF Cons.prems(1), of "assets_reconcile e v r"]
    by (simp add: assets_Reconcile_def same_plugin_def)
qed (simp add: assets_Reconcile_def same_plugin_def)

lemma Reconcile_device: "undisturbed e \<Longrightarrow> ar_device (assets_Reconcile e ps r) = ar_device r"
  by (induction ps arbitrary: r) (simp_all add: assets_Reconcile_def reconcile_device)

lemma Reconcile_makes_ready:
  assumes "undisturbed e" "device_answers e" "ar_device r" "distinct (map pk_PluginID ps)" "v \<in> set ps" "pk_Enabled v" "files_ok e v"
    and "ValidatePackage (ae_ex e) (pk_PluginID v) (pk_Version v) (pk_Root v) (slice_list (pk_Assets v))"
  shows "ReadyFor e v (assets_Reconcile e ps r)"
proof -
  obtain xs ys where ps: "ps = xs @ v # ys" using assms(5) by (auto simp: in_set_conv_decomp)
  let ?r = "assets_Reconcile e xs r"
  have "ReadyFor e v (assets_reconcile e v ?r)"
    using assms by (intro reconcile_makes_ready) (simp_all add: Reconcile_device)
  moreover have "same_plugin (pk_PluginID v) (assets_reconcile e v ?r) (assets_Reconcile e ys (assets_reconcile e v ?r))"
    using assms(4) ps by (intro Reconcile_keeps_others [OF assms(1)]) auto
  ultimately show ?thesis using same_plugin_ready by (simp add: ps assets_Reconcile_def)
qed

subsection \<open>The packages of a document\<close>

text \<open>\<open>internal/daemon/reconciler_assets.go\<close>: what the daemon passes to the reconciler.\<close>

definition assetPackages :: "Document \<Rightarrow> Package list" where
  "assetPackages doc = map (\<lambda>p. fst (assetPackage doc p)) (sort (map fst (doc_Plugins doc)))"

definition enabledPackages :: "Package list \<Rightarrow> Package list" where
  "enabledPackages packages = filter pk_Enabled packages"

lemma package_of_document:
  assumes "document_Validate ex d = []" "alist_wf (doc_Plugins d)" "p \<in> set (map fst (doc_Plugins d))"
  shows "pk_PluginID (fst (assetPackage d p)) = p \<and>
    (let v = fst (assetPackage d p) in ValidatePackage ex (pk_PluginID v) (pk_Version v) (pk_Root v) (slice_list (pk_Assets v)))"
proof -
  obtain plugin where plugin: "(p, plugin) \<in> set (doc_Plugins d)" using assms(3) by auto
  then have "map_of (doc_Plugins d) p = Some plugin" using assms(2) by simp
  moreover have "plugin_errors ex (p, plugin) = []" using assms(1) plugin by (auto simp: document_Validate_def)
  ultimately show ?thesis
    by (auto simp: assetPackage_def plugin_errors_def fault_def package_root_def Policies.filepath_Dir_def ConfigStore.filepath_Dir_def Let_def
        split: if_splits)
qed

lemma packages_of_document:
  assumes "document_Validate ex d = []" "alist_wf (doc_Plugins d)"
  shows "distinct (map pk_PluginID (assetPackages d))"
    and "v \<in> set (assetPackages d) \<Longrightarrow> ValidatePackage ex (pk_PluginID v) (pk_Version v) (pk_Root v) (slice_list (pk_Assets v))"
proof -
  have "map pk_PluginID (assetPackages d) = map (\<lambda>p. p) (sort (map fst (doc_Plugins d)))"
    unfolding assetPackages_def map_map comp_def using package_of_document [OF assms] by (intro map_cong) simp_all
  then show "distinct (map pk_PluginID (assetPackages d))" using assms(2) by simp
  show "v \<in> set (assetPackages d) \<Longrightarrow> ValidatePackage ex (pk_PluginID v) (pk_Version v) (pk_Root v) (slice_list (pk_Assets v))"
    using package_of_document [OF assms] by (auto simp: assetPackages_def Let_def)
qed

text \<open>(C32) With a device that answers, no new connection meanwhile, and local files as declared, one reconciliation of a valid configuration
  makes each of its enabled packages ready, whatever the tables and the storage held before and whatever becomes of
  the other packages.\<close>

theorem reconciled_package_ready:
  assumes "undisturbed e" "device_answers e" "ar_device r" "document_Validate (ae_ex e) d = []" "alist_wf (doc_Plugins d)"
    and "v \<in> set (assetPackages d)" "pk_Enabled v" "files_ok e v"
  shows "ReadyFor e v (assets_Reconcile e (assetPackages d) r)"
  by (rule Reconcile_makes_ready [OF assms(1-3) packages_of_document(1) assms(6-8) packages_of_document(2)]) (use assms in simp_all)

end
