(* ===== verification/DeviceCanvas.thy ===== *)
theory DeviceCanvas
  imports Gateway
begin

text \<open>
  What the gateway's calls do to the canvas of the device, and that the gateway knows it. A canvas is a map from
  identifiers to elements, each with the priority it was drawn with. The device is a parameter: what a request paints
  and what a request that the firmware refuses leaves. Of the first the gateway relies on \<open>in_place\<close>: a request on an
  empty canvas, or on a canvas of the same topology and no higher priority, leaves exactly its elements. Of the second
  the sources say nothing; where a property needs it, it is stated as \<open>refusals_clean\<close>, about the refused draws of the run.
\<close>

subsection \<open>The canvas\<close>

type_synonym canvas = "string \<rightharpoonup> int \<times> DisplayElement"

definition shown :: "DisplayElements \<Rightarrow> canvas" where
  "shown r = map_of (map (\<lambda>d. (base_ID (draw_base d), (de_Priority r, d))) (de_Elements r))"

record canvas_device =
  cv_paint :: "DisplayElements \<Rightarrow> canvas \<Rightarrow> canvas"
  cv_refused :: "DisplayElements \<Rightarrow> canvas \<Rightarrow> canvas"

fun draw_kind :: "DisplayElement \<Rightarrow> string" where
  "draw_kind (DrawText _ _) = ''text''"
| "draw_kind (DrawImage _ _ _) = ''image''"
| "draw_kind (DrawAnimation _ _ _ _) = ''animation''"
| "draw_kind (DrawCountdown _ _) = ''countdown''"
| "draw_kind (DrawRectangle _ _) = ''rectangle''"

definition draw_topology :: "DisplayElement list \<Rightarrow> element_topology list" where
  "draw_topology ds = sort_by topology_cmp (map (\<lambda>d. (base_ID (draw_base d), draw_kind d, base_Display (draw_base d))) ds)"

definition in_place :: "canvas_device \<Rightarrow> bool" where
  "in_place dev \<longleftrightarrow>
     (\<forall>r. cv_paint dev r Map.empty = shown r) \<and>
     (\<forall>r r'. draw_topology (de_Elements r) = draw_topology (de_Elements r') \<and> de_Priority r' \<le> de_Priority r \<longrightarrow>
        cv_paint dev r (shown r') = shown r)"

fun canvas_step :: "canvas_device \<Rightarrow> device_call \<Rightarrow> canvas \<Rightarrow> canvas" where
  "canvas_step dev (DrawCall r Done) c = cv_paint dev r c"
| "canvas_step dev (DrawCall r Conflict) c = cv_refused dev r c"
| "canvas_step dev (DrawCall r (Failed _ applied)) c = (if applied then cv_paint dev r c else c)"
| "canvas_step dev (ClearCall _ Done) c = Map.empty"
| "canvas_step dev (ClearCall _ (Failed _ applied)) c = (if applied then Map.empty else c)"
| "canvas_step dev CanvasClosed c = Map.empty"
| "canvas_step dev (Reconnected survived) c = (if survived then c else Map.empty)"
| "canvas_step dev _ c = c"

definition canvas_of :: "canvas_device \<Rightarrow> device_call list \<Rightarrow> canvas" where
  "canvas_of dev calls = fold (canvas_step dev) calls Map.empty"

lemma canvas_of_append: "canvas_of dev (xs @ ys) = fold (canvas_step dev) ys (canvas_of dev xs)"
  by (simp add: canvas_of_def)

text \<open>Every draw that the firmware refused has left the canvas empty.\<close>

fun refused :: "device_call \<Rightarrow> bool" where
  "refused (DrawCall _ Conflict) = True"
| "refused _ = False"

primrec clean_from :: "canvas_device \<Rightarrow> canvas \<Rightarrow> device_call list \<Rightarrow> bool" where
  "clean_from dev c [] = True"
| "clean_from dev c (x # xs) \<longleftrightarrow> (refused x \<longrightarrow> canvas_step dev x c = Map.empty) \<and> clean_from dev (canvas_step dev x c) xs"

definition refusals_clean :: "canvas_device \<Rightarrow> device_call list \<Rightarrow> bool" where
  "refusals_clean dev calls = clean_from dev Map.empty calls"

lemma clean_from_append: "clean_from dev c (xs @ ys) \<longleftrightarrow> clean_from dev c xs \<and> clean_from dev (fold (canvas_step dev) xs c) ys"
  by (induction xs arbitrary: c) auto

lemma refusals_clean_append: "refusals_clean dev (xs @ ys) \<longleftrightarrow> refusals_clean dev xs \<and> clean_from dev (canvas_of dev xs) ys"
  by (simp add: refusals_clean_def clean_from_append canvas_of_def)

text \<open>The requests that were sent, whatever became of them.\<close>

fun drawn_by :: "device_call \<Rightarrow> DisplayElements list" where
  "drawn_by (DrawCall r _) = [r]"
| "drawn_by _ = []"

definition drawn :: "device_call list \<Rightarrow> DisplayElements list" where
  "drawn calls = concat (map drawn_by calls)"

lemma drawn_simps [simp]: "drawn [] = []" "drawn (xs @ ys) = drawn xs @ drawn ys" "drawn [c] = drawn_by c"
  by (simp_all add: drawn_def)

text \<open>The requests that were carried out although the gateway saw an error.\<close>

fun unseen_by :: "device_call \<Rightarrow> DisplayElements list" where
  "unseen_by (DrawCall r (Failed _ applied)) = (if applied then [r] else [])"
| "unseen_by _ = []"

definition unseen :: "device_call list \<Rightarrow> DisplayElements list" where
  "unseen calls = concat (map unseen_by calls)"

lemma unseen_simps [simp]: "unseen [] = []" "unseen (xs @ ys) = unseen xs @ unseen ys" "unseen [c] = unseen_by c"
  by (simp_all add: unseen_def)

text \<open>After a request that was carried out unseen, none of lower priority follows.\<close>

primrec draws_level :: "device_call list \<Rightarrow> bool" where
  "draws_level [] = True"
| "draws_level (x # xs) \<longleftrightarrow> (\<forall>r\<in>set (unseen_by x). \<forall>r'\<in>set (drawn xs). de_Priority r \<le> de_Priority r') \<and> draws_level xs"

lemma draws_level_prefix: "draws_level (xs @ ys) \<Longrightarrow> draws_level xs"
  by (induction xs) auto

lemma draws_levelD: "draws_level (xs @ ys) \<Longrightarrow> r \<in> set (unseen xs) \<Longrightarrow> r' \<in> set (drawn ys) \<Longrightarrow> de_Priority r \<le> de_Priority r'"
  by (induction xs) (auto simp: unseen_def)

subsection \<open>Operations that leave the canvas alone\<close>

fun neutral :: "device_call \<Rightarrow> bool" where
  "neutral (DrawCall _ _) = False"
| "neutral (ClearCall _ _) = False"
| "neutral CanvasClosed = False"
| "neutral (Reconnected _) = False"
| "neutral _ = True"

lemma canvas_neutral: "list_all neutral xs \<Longrightarrow> fold (canvas_step dev) xs c = c"
proof (induction xs arbitrary: c)
  case (Cons x xs)
  then have "canvas_step dev x c = c" by (cases x) auto
  then show ?case using Cons by simp
qed simp

lemma drawn_neutral: "list_all neutral xs \<Longrightarrow> drawn xs = []"
proof (induction xs)
  case (Cons x xs)
  then show ?case by (cases x) (auto simp: drawn_def)
qed simp

lemma unseen_neutral: "list_all neutral xs \<Longrightarrow> unseen xs = []"
proof (induction xs)
  case (Cons x xs)
  then show ?case by (cases x) (auto simp: unseen_def)
qed simp

definition grows :: "Gateway \<Rightarrow> Gateway \<Rightarrow> bool" where
  "grows g g' \<longleftrightarrow> (\<exists>xs. gw_calls g' = gw_calls g @ xs) \<and> gw_ticks g \<le> gw_ticks g'"

lemma grows_refl [simp]: "grows g g"
  by (simp add: grows_def)

lemma grows_trans [trans]: "grows g g' \<Longrightarrow> grows g' g'' \<Longrightarrow> grows g g''"
  by (auto simp: grows_def)

definition same_scene :: "Gateway \<Rightarrow> Gateway \<Rightarrow> bool" where
  "same_scene g g' \<longleftrightarrow>
     gw_hasScene g' = gw_hasScene g \<and> gw_lastDigest g' = gw_lastDigest g \<and> gw_lastTopology g' = gw_lastTopology g \<and>
     gw_lastPriority g' = gw_lastPriority g \<and> gw_display g' = gw_display g \<and> gw_assets g' = gw_assets g"

definition quiet :: "Gateway \<Rightarrow> Gateway \<Rightarrow> bool" where
  "quiet g g' \<longleftrightarrow>
     same_scene g g' \<and> gw_ticks g \<le> gw_ticks g' \<and> (\<exists>xs. gw_calls g' = gw_calls g @ xs \<and> list_all neutral xs)"

lemma quiet_refl [simp]: "quiet g g"
  by (simp add: quiet_def same_scene_def)

lemma quiet_trans [trans]: "quiet g g' \<Longrightarrow> quiet g' g'' \<Longrightarrow> quiet g g''"
  by (auto simp: quiet_def same_scene_def)

lemma quiet_grows: "quiet g g' \<Longrightarrow> grows g g'"
  by (auto simp: quiet_def grows_def)

lemma quiet_canvas: "quiet g g' \<Longrightarrow> canvas_of dev (gw_calls g') = canvas_of dev (gw_calls g)"
  by (auto simp: quiet_def canvas_of_append canvas_neutral)

lemma quiet_drawn: "quiet g g' \<Longrightarrow> drawn (gw_calls g') = drawn (gw_calls g)"
  by (auto simp: quiet_def drawn_neutral)

lemma quiet_unseen: "quiet g g' \<Longrightarrow> unseen (gw_calls g') = unseen (gw_calls g)"
  by (auto simp: quiet_def unseen_neutral)

lemma quiet_answer: "answer f g = (x, g') \<Longrightarrow> quiet g g'"
  by (auto simp: answer_def quiet_def same_scene_def)

lemma quiet_call: "call entry f g = (x, g') \<Longrightarrow> neutral (entry x) \<Longrightarrow> quiet g g'"
  by (auto simp: call_def quiet_def same_scene_def)

lemma quiet_calls:
  "call ReadBusy f g = (x, g') \<Longrightarrow> quiet g g'" "call ReadTime f' g = (x', g') \<Longrightarrow> quiet g g'"
  "call (SetBusy s) f'' g = (x'', g') \<Longrightarrow> quiet g g'" "call (PlayCall cue) f'' g = (x'', g') \<Longrightarrow> quiet g g'"
  by (auto elim: quiet_call)

lemma quiet_resetBusyTimer: "quiet g g' \<Longrightarrow> quiet g (resetBusyTimer g')"
  by (auto simp: resetBusyTimer_def quiet_def same_scene_def)

lemma quiet_timer_fields: "quiet g g' \<Longrightarrow> quiet g (g'\<lparr>gw_busyDigest := d\<rparr>)" "quiet (g\<lparr>gw_busyCardID := i, gw_busyDigest := d\<rparr>) g' \<Longrightarrow> quiet g g'"
  by (auto simp: quiet_def same_scene_def)

lemma quiet_snapshot_timestamp: "snapshot_timestamp e s g = (x, g') \<Longrightarrow> quiet g g'"
  by (auto simp: snapshot_timestamp_def Let_def split: prod.splits sum.splits option.splits if_splits intro: quiet_call)

lemma quiet_stopOwnedBusyTimer: "stopOwnedBusyTimer e g = (x, g') \<Longrightarrow> quiet g g'"
  unfolding stopOwnedBusyTimer_def Let_def
  by (auto split: prod.splits sum.splits option.splits if_splits
      intro!: quiet_resetBusyTimer dest!: quiet_snapshot_timestamp quiet_calls intro: quiet_trans)

lemma quiet_verifyBusyTimer: "verifyBusyTimer e i t ms n g = (x, g') \<Longrightarrow> quiet g g'"
proof (induction n arbitrary: g)
  case (Suc n)
  obtain r g1 where c: "call ReadBusy (ge_busy e) g = (r, g1)" by (cases "call ReadBusy (ge_busy e) g")
  have q: "quiet g g1" using c by (rule quiet_call) simp
  show ?case
    using Suc.prems Suc.IH c q quiet_trans [OF q] quiet_answer [of "ge_wait e" g1]
    by (fastforce split: sum.splits if_splits prod.splits option.splits intro: quiet_trans)
qed simp

lemma quiet_compileAudioCue: "compileAudioCue e c g = (x, g') \<Longrightarrow> quiet g g'"
  unfolding compileAudioCue_def
  by (auto split: prod.splits sum.splits option.splits if_splits dest!: quiet_answer intro: quiet_trans)

lemma quiet_compile_visual: "compile_visual e c g = (x, g') \<Longrightarrow> quiet g g'"
  unfolding compile_visual_def
  by (auto split: prod.splits sum.splits option.splits if_splits dest!: quiet_answer)

lemma quiet_compileCandidate: "compileCandidate e c g = (x, g') \<Longrightarrow> quiet g g'"
  unfolding compileCandidate_def
  by (auto split: prod.splits sum.splits dest!: quiet_compile_visual quiet_compileAudioCue intro: quiet_trans)

lemma quiet_audio_fields: "quiet g (g'\<lparr>gw_lastAudioErr := x\<rparr>) = quiet g g'" "quiet g (g'\<lparr>gw_playedAudio := p\<rparr>) = quiet g g'"
  "quiet g (g'\<lparr>gw_audioAttempts := n\<rparr>) = quiet g g'"
  "quiet (g\<lparr>gw_lastAudioErr := x, gw_audioAttempts := n, gw_playedAudio := p\<rparr>) g' = quiet g g'"
  by (simp_all add: quiet_def same_scene_def)

lemma quiet_playAudioCue: "quiet g (playAudioCue e a g)"
proof (cases a)
  case (Some cue)
  obtain now g0 where n: "answer (ge_now e) g = (now, g0)" by (cases "answer (ge_now e) g")
  have q: "quiet g g0" by (rule quiet_answer [OF n])
  show ?thesis
    unfolding playAudioCue_def Some option.case n prod.case Let_def
    using q by (auto split: prod.splits option.splits simp: quiet_audio_fields
        dest!: quiet_calls(4) intro: quiet_trans)
qed (simp add: playAudioCue_def)

subsection \<open>Topologies\<close>

text \<open>The resolver keeps the elements of a scene and their order.\<close>

definition resolver_keeps :: "gateway_env \<Rightarrow> bool" where
  "resolver_keeps e \<longleftrightarrow> (\<forall>n p s rs. ge_ResolveScene e n p s = Some rs \<longrightarrow> map re_Element rs = s)"

lemma compile_element_topology:
  assumes "compile_element r = Some d" "el_Rectangle (re_Element r) = None \<or> el_Countdown (re_Element r) = None"
  shows "base_ID (draw_base d) = el_ID (re_Element r)" "base_Display (draw_base d) = el_Display (re_Element r)"
    "draw_kind d = resolvedElementType (re_Element r)"
  using assms by (auto simp: compile_element_def Let_def compile_base_def resolvedElementType_def
      split: option.splits prod.splits)

lemma compile_elements_topology:
  assumes "compile_elements rs = Inr ds" "\<forall>r\<in>set rs. el_Rectangle (re_Element r) = None \<or> el_Countdown (re_Element r) = None"
  shows "draw_topology ds = sceneTopology rs"
proof -
  have "map (\<lambda>d. (base_ID (draw_base d), draw_kind d, base_Display (draw_base d))) ds
    = map (\<lambda>r. (el_ID (re_Element r), resolvedElementType (re_Element r), el_Display (re_Element r))) rs"
    using assms
  proof (induction rs arbitrary: ds)
    case (Cons r rs)
    then show ?case
      by (auto split: option.splits sum.splits simp: compile_element_topology)
  qed simp
  then show ?thesis by (simp add: draw_topology_def sceneTopology_def)
qed

lemma element_Validate_one_payload: "element_Validate x = [] \<Longrightarrow> el_Rectangle x = None \<or> el_Countdown x = None"
  by (auto simp: element_Validate_def require_def countTrue_def split: if_splits)

lemma scene_loop_elements: "scene_loop seen xs = [] \<Longrightarrow> x \<in> set xs \<Longrightarrow> element_Validate x = []"
  by (induction xs arbitrary: seen) (auto split: if_splits)

lemma cd_Validate_scene: "cd_Validate c = [] \<Longrightarrow> cd_BusyTimer c = None \<Longrightarrow> scene_Validate (cd_Scene c) = []"
  by (auto simp: cd_Validate_def cd_require_def split: if_splits)

subsection \<open>The gateway knows the canvas\<close>

definition topo_digest :: "gateway_env \<Rightarrow> DisplayElements \<Rightarrow> string" where
  "topo_digest e r = ge_sha256 e (ge_json_topology e (draw_topology (de_Elements r)))"

text \<open>The hash separates the topologies of the requests of a run, and none of them hashes to the zero value.\<close>

definition topologies_separate :: "gateway_env \<Rightarrow> device_call list \<Rightarrow> bool" where
  "topologies_separate e calls \<longleftrightarrow>
     (\<forall>r\<in>set (drawn calls). topo_digest e r \<noteq> zero_digest \<and>
        (\<forall>r'\<in>set (drawn calls). topo_digest e r = topo_digest e r' \<longrightarrow>
           draw_topology (de_Elements r) = draw_topology (de_Elements r')))"

lemma topologies_separateD:
  "topologies_separate e calls \<Longrightarrow> r \<in> set (drawn calls) \<Longrightarrow> r' \<in> set (drawn calls) \<Longrightarrow> topo_digest e r = topo_digest e r' \<Longrightarrow>
     draw_topology (de_Elements r) = draw_topology (de_Elements r')"
  unfolding topologies_separate_def by blast

lemma topologies_separate_mono: "topologies_separate e (gw_calls g') \<Longrightarrow> grows g g' \<Longrightarrow> topologies_separate e (gw_calls g)"
  by (auto simp: topologies_separate_def grows_def)

text \<open>What a run has to satisfy for the gateway to know the canvas.\<close>

definition orderly :: "gateway_env \<Rightarrow> canvas_device \<Rightarrow> device_call list \<Rightarrow> bool" where
  "orderly e dev calls \<longleftrightarrow> topologies_separate e calls \<and> refusals_clean dev calls \<and> draws_level calls"

lemma refusals_clean_mono: "refusals_clean dev (gw_calls g') \<Longrightarrow> grows g g' \<Longrightarrow> refusals_clean dev (gw_calls g)"
  by (auto simp: grows_def refusals_clean_append)

lemma draws_level_mono: "draws_level (gw_calls g') \<Longrightarrow> grows g g' \<Longrightarrow> draws_level (gw_calls g)"
  by (auto simp: grows_def intro: draws_level_prefix)

lemma orderly_mono: "orderly e dev (gw_calls g') \<Longrightarrow> grows g g' \<Longrightarrow> orderly e dev (gw_calls g)"
  unfolding orderly_def by (meson topologies_separate_mono refusals_clean_mono draws_level_mono)

definition canvas_known :: "canvas_device \<Rightarrow> Gateway \<Rightarrow> bool" where
  "canvas_known dev g \<longleftrightarrow> (\<not> gw_hasScene g \<longrightarrow> canvas_of dev (gw_calls g) = Map.empty \<and> gw_lastTopology g = zero_digest)"

definition canvas_inv :: "gateway_env \<Rightarrow> canvas_device \<Rightarrow> Gateway \<Rightarrow> bool" where
  "canvas_inv e dev g \<longleftrightarrow>
     canvas_known dev g \<and>
     (gw_hasScene g \<and> gw_lastTopology g \<noteq> zero_digest \<longrightarrow>
        canvas_of dev (gw_calls g) = Map.empty \<or>
        (\<exists>r\<in>set (drawn (gw_calls g)). canvas_of dev (gw_calls g) = shown r \<and> topo_digest e r = gw_lastTopology g \<and>
           (de_Priority r \<le> gw_lastPriority g \<or> r \<in> set (unseen (gw_calls g)))))"

lemma canvas_inv_quiet: "quiet g g' \<Longrightarrow> canvas_inv e dev g \<Longrightarrow> canvas_inv e dev g'"
  by (simp add: canvas_inv_def canvas_known_def quiet_canvas quiet_drawn quiet_unseen) (simp add: quiet_def same_scene_def)

lemma canvas_known_quiet: "quiet g g' \<Longrightarrow> canvas_known dev g \<Longrightarrow> canvas_known dev g'"
  by (simp add: canvas_known_def quiet_canvas) (simp add: quiet_def same_scene_def)

lemma reply_error_Done [simp]: "reply_error Done = None"
  by (simp add: reply_error_def)

lemma reply_error_None [simp]: "reply_error r = None \<longleftrightarrow> r = Done"
  by (cases r) (auto simp: reply_error_def)

text \<open>The reply of a draw decides what the gateway remembers.\<close>

lemma draw_request_cases:
  assumes "draw_request e req d t audio g = (res, g')"
  obtains (drawn) g1 where "res = (OutcomeDrawn, None)" "quiet g1 g'" "gw_hasScene g1" "gw_lastDigest g1 = d"
      "gw_lastTopology g1 = t" "gw_lastPriority g1 = de_Priority req" "gw_calls g1 = gw_calls g @ [DrawCall req Done]" "gw_ticks g \<le> gw_ticks g1"
    | (refused) "res = (OutcomeFirmwareSuppressed, None)" "\<not> gw_hasScene g'" "gw_lastDigest g' = zero_digest" "gw_lastTopology g' = zero_digest"
      "gw_calls g' = gw_calls g @ [DrawCall req Conflict]" "gw_ticks g \<le> gw_ticks g'"
    | (lost) err applied where "res = (OutcomeDeviceUnavailable, Some err)" "gw_hasScene g'" "gw_lastDigest g' = gw_lastDigest g"
      "gw_lastTopology g' = gw_lastTopology g" "gw_lastPriority g' = gw_lastPriority g" "gw_calls g' = gw_calls g @ [DrawCall req (Failed err applied)]" "gw_ticks g \<le> gw_ticks g'"
proof -
  let ?r = "ge_reply e (gw_ticks g)"
  note def = assms [unfolded draw_request_def call_def prod.case]
  show thesis
  proof (cases ?r)
    case Done
    let ?g1 = "g\<lparr>gw_hasScene := True, gw_ticks := Suc (gw_ticks g), gw_calls := gw_calls g @ [DrawCall req Done],
      gw_hasScene := True, gw_lastDigest := d, gw_lastTopology := t, gw_lastPriority := de_Priority req\<rparr>"
    have "g' = playAudioCue e audio ?g1" "res = (OutcomeDrawn, None)" using def Done by auto
    then show thesis using quiet_playAudioCue [of ?g1 e audio] by (intro drawn [of ?g1]) auto
  next
    case Conflict
    then show thesis using def by (intro refused) (auto simp: resetScene_def resetBusyTimer_def)
  next
    case (Failed err applied)
    then show thesis using def by (intro lost) auto
  qed
qed

lemma draw_request_grows: "draw_request e req d t audio g = (res, g') \<Longrightarrow> grows g g'"
  by (erule draw_request_cases) (auto simp: grows_def quiet_def)

lemma draw_request_known: "draw_request e req d t audio g = (res, g') \<Longrightarrow> refusals_clean dev (gw_calls g') \<Longrightarrow> canvas_known dev g'"
  by (erule draw_request_cases) (auto simp: canvas_known_def quiet_def same_scene_def canvas_of_append refusals_clean_append)

lemma painted:
  assumes "in_place dev" "canvas_inv e dev g" "orderly e dev (gw_calls g @ [DrawCall req r])"
    and "gw_hasScene g \<longrightarrow> topo_digest e req = gw_lastTopology g \<and> gw_lastPriority g \<le> de_Priority req"
  shows "cv_paint dev req (canvas_of dev (gw_calls g)) = shown req"
proof (cases "canvas_of dev (gw_calls g) = Map.empty")
  case True
  then show ?thesis using assms(1) by (simp add: in_place_def)
next
  case False
  have sep: "topologies_separate e (gw_calls g @ [DrawCall req r])" and level: "draws_level (gw_calls g @ [DrawCall req r])"
    using assms(3) by (simp_all add: orderly_def)
  have scene: "gw_hasScene g" using assms(2) False by (auto simp: canvas_inv_def canvas_known_def)
  moreover have "topo_digest e req \<noteq> zero_digest" using sep by (simp add: topologies_separate_def)
  ultimately obtain r' where r': "r' \<in> set (drawn (gw_calls g))" "canvas_of dev (gw_calls g) = shown r'"
      "topo_digest e r' = gw_lastTopology g" "de_Priority r' \<le> gw_lastPriority g \<or> r' \<in> set (unseen (gw_calls g))"
    using assms(2,4) False unfolding canvas_inv_def by metis
  then have "topo_digest e req = topo_digest e r'" using assms(4) scene by simp
  then have "draw_topology (de_Elements req) = draw_topology (de_Elements r')"
    using topologies_separateD [OF sep, of req r'] r'(1) by simp
  moreover have "de_Priority r' \<le> de_Priority req" using r'(4) assms(4) scene draws_levelD [OF level, of r' req] by auto
  ultimately show ?thesis using assms(1) r'(2) by (simp add: in_place_def)
qed

lemma draw_request_canvas:
  assumes "in_place dev" "draw_request e req d (topo_digest e req) audio g = (res, g')"
    and "orderly e dev (gw_calls g')" "canvas_inv e dev g"
    and "gw_hasScene g \<longrightarrow> topo_digest e req = gw_lastTopology g \<and> gw_lastPriority g \<le> de_Priority req"
  shows "canvas_inv e dev g' \<and> (fst res = OutcomeDrawn \<longrightarrow> canvas_of dev (gw_calls g') = shown req)"
  using assms(2)
proof (cases rule: draw_request_cases)
  case (drawn g1)
  have "orderly e dev (gw_calls g1)" using assms(3) drawn by (blast intro: orderly_mono quiet_grows)
  then have "canvas_of dev (gw_calls g1) = shown req"
    using painted [OF assms(1,4) _ assms(5)] drawn by (simp add: canvas_of_append)
  moreover from this have "canvas_inv e dev g1" using drawn by (simp add: canvas_inv_def canvas_known_def)
  ultimately show ?thesis using drawn canvas_inv_quiet by (simp add: quiet_canvas)
next
  case refused
  then show ?thesis using assms(3) by (simp add: canvas_inv_def canvas_known_def canvas_of_append orderly_def refusals_clean_append)
next
  case (lost err applied)
  have p: "cv_paint dev req (canvas_of dev (gw_calls g)) = shown req"
    by (rule painted [OF assms(1,4) _ assms(5)]) (use assms(3) lost in simp)
  have "\<not> gw_hasScene g \<Longrightarrow> gw_lastTopology g = zero_digest" using assms(4) by (simp add: canvas_inv_def canvas_known_def)
  then show ?thesis using lost p assms(4,5) by (auto simp: canvas_inv_def canvas_known_def canvas_of_append)
qed

subsection \<open>Rendering by cases\<close>

definition request_digest :: "gateway_env \<Rightarrow> DisplayElements \<Rightarrow> string option" where
  "request_digest e r = map_option (ge_sha256 e) (ge_json_request e r)"

text \<open>A cleared canvas: the gateway has told the device so and has forgotten its scene.\<close>

definition wiped :: "Gateway \<Rightarrow> Gateway \<Rightarrow> bool" where
  "wiped g g' \<longleftrightarrow> \<not> gw_hasScene g' \<and> gw_lastDigest g' = zero_digest \<and> gw_lastTopology g' = zero_digest \<and> gw_ticks g \<le> gw_ticks g' \<and>
     gw_calls g' = gw_calls g @ [ClearCall device_ApplicationName Done]"

definition clear_lost :: "Gateway \<Rightarrow> Gateway \<Rightarrow> bool" where
  "clear_lost g g' \<longleftrightarrow> same_scene g g' \<and> gw_ticks g \<le> gw_ticks g' \<and>
     (\<exists>r. r \<noteq> Done \<and> gw_calls g' = gw_calls g @ [ClearCall device_ApplicationName r])"

lemma clear_wiped: "call (ClearCall device_ApplicationName) f g = (Done, g') \<Longrightarrow> wiped g (resetScene g')"
  by (auto simp: call_def wiped_def resetScene_def)

lemma clear_not_done: "call (ClearCall device_ApplicationName) f g = (r, g') \<Longrightarrow> r \<noteq> Done \<Longrightarrow> clear_lost g g'"
  by (auto simp: call_def clear_lost_def same_scene_def)

lemma wiped_inv: "wiped g g' \<Longrightarrow> canvas_inv e dev g'"
  by (simp add: wiped_def canvas_inv_def canvas_known_def canvas_of_append)

lemma clear_lost_inv: "clear_lost g g' \<Longrightarrow> canvas_inv e dev g \<Longrightarrow> canvas_inv e dev g'"
proof -
  assume "clear_lost g g'" "canvas_inv e dev g"
  moreover from this obtain r where "gw_calls g' = gw_calls g @ [ClearCall device_ApplicationName r]" by (auto simp: clear_lost_def)
  moreover from this have "canvas_of dev (gw_calls g') \<in> {Map.empty, canvas_of dev (gw_calls g)}"
    by (cases r) (auto simp: canvas_of_append)
  ultimately show ?thesis by (auto simp: canvas_inv_def canvas_known_def clear_lost_def same_scene_def)
qed

lemma clear_lost_known: "clear_lost g g' \<Longrightarrow> canvas_known dev g \<Longrightarrow> canvas_known dev g'"
proof -
  assume "clear_lost g g'" "canvas_known dev g"
  moreover from this obtain r where "gw_calls g' = gw_calls g @ [ClearCall device_ApplicationName r]" by (auto simp: clear_lost_def)
  moreover from this have "canvas_of dev (gw_calls g') \<in> {Map.empty, canvas_of dev (gw_calls g)}"
    by (cases r) (auto simp: canvas_of_append)
  ultimately show ?thesis by (auto simp: canvas_known_def clear_lost_def same_scene_def)
qed

lemma wiped_grows: "wiped g g' \<Longrightarrow> grows g g'"
  by (auto simp: wiped_def grows_def)

lemma clear_lost_grows: "clear_lost g g' \<Longrightarrow> grows g g'"
  by (auto simp: clear_lost_def grows_def)

lemma place_request_cases:
  assumes "place_request e req d t audio g = (res, g')"
  obtains (uncleared) err where "clear_lost g g'" "res = (OutcomeDeviceUnavailable, Some err)"
    | (update) "gw_hasScene g \<longrightarrow> t = gw_lastTopology g \<and> gw_lastPriority g \<le> de_Priority req" "draw_request e req d t audio g = (res, g')"
    | (replace) g1 where "wiped g g1" "draw_request e req d t audio g1 = (res, g')"
proof (cases "gw_hasScene g \<and> (t \<noteq> gw_lastTopology g \<or> de_Priority req < gw_lastPriority g)")
  case True
  obtain r g1 where c: "call (ClearCall device_ApplicationName) (ge_reply e) g = (r, g1)"
    by (cases "call (ClearCall device_ApplicationName) (ge_reply e) g")
  note def = assms [unfolded place_request_def if_P [OF True] c prod.case]
  show thesis
  proof (cases "reply_error r")
    case None
    then show thesis using def clear_wiped c by (intro replace) auto
  next
    case (Some err)
    then have "r \<noteq> Done" by (auto simp: reply_error_def)
    then show thesis using def Some clear_not_done [OF c] by (intro uncleared) auto
  qed
next
  case False
  show thesis using assms False unfolding place_request_def if_not_P [OF False] by (intro update) auto
qed

text \<open>The topology that the gateway computes from a resolved scene.\<close>

abbreviation scene_digest :: "gateway_env \<Rightarrow> ResolvedScene \<Rightarrow> string" where
  "scene_digest e rs \<equiv> ge_sha256 e (ge_json_topology e (sceneTopology rs))"

lemma render_scene_cases:
  assumes "render_scene e rs req audio g = (res, g')"
  obtains (kept) "quiet g g'" "snd res \<noteq> None" "fst res \<noteq> OutcomeDrawn"
    | (unchanged) "quiet g g'" "res = (OutcomeUnchanged, None)" "gw_hasScene g" "request_digest e req = Some (gw_lastDigest g)"
    | (placed) g1 d where "quiet g g1" "request_digest e req = Some d" "place_request e req d (scene_digest e rs) audio g1 = (res, g')"
proof -
  obtain r g1 where stop: "stopOwnedBusyTimer e g = (r, g1)" by (cases "stopOwnedBusyTimer e g")
  have q: "quiet g g1" by (rule quiet_stopOwnedBusyTimer [OF stop])
  then have same: "gw_hasScene g1 = gw_hasScene g" "gw_lastDigest g1 = gw_lastDigest g" by (auto simp: quiet_def same_scene_def)
  note def = assms(1) [unfolded render_scene_def stop prod.case Let_def]
  consider (stopped) "isl r" | (unencoded) "\<not> isl r" "ge_json_request e req = None"
    | (ready) x payload where "r = Inr x" "ge_json_request e req = Some payload"
    by (cases r; cases "ge_json_request e req") auto
  then show thesis
  proof cases
    case stopped
    then show thesis using def q by (intro kept) (auto split: sum.splits)
  next
    case unencoded
    then show thesis using def q by (intro kept) (auto split: sum.splits)
  next
    case (ready x payload)
    have d: "request_digest e req = Some (ge_sha256 e payload)" using ready by (simp add: request_digest_def)
    show thesis
    proof (cases "gw_hasScene g1 \<and> ge_sha256 e payload = gw_lastDigest g1")
      case True
      then have "res = (OutcomeUnchanged, None)" "g' = playAudioCue e audio g1" using def ready by auto
      then show thesis using True q d same by (intro unchanged) (auto intro: quiet_trans quiet_playAudioCue)
    next
      case False
      have "place_request e req (ge_sha256 e payload) (scene_digest e rs) audio g1 = (res, g')"
        using def unfolding ready sum.case option.case if_not_P [OF False] .
      then show thesis using q d by (intro placed) auto
    qed
  qed
qed

lemma place_request_grows: "place_request e req d t audio g = (res, g') \<Longrightarrow> grows g g'"
  by (erule place_request_cases) (blast intro: clear_lost_grows wiped_grows draw_request_grows grows_trans)+

lemma render_scene_grows: "render_scene e rs req audio g = (res, g') \<Longrightarrow> grows g g'"
  by (erule render_scene_cases) (blast intro: quiet_grows place_request_grows grows_trans)+

lemma place_request_known: "place_request e req d t audio g = (res, g') \<Longrightarrow> refusals_clean dev (gw_calls g') \<Longrightarrow> canvas_known dev g \<Longrightarrow> canvas_known dev g'"
  by (erule place_request_cases) (blast intro: clear_lost_known draw_request_known)+

lemma render_scene_known: "render_scene e rs req audio g = (res, g') \<Longrightarrow> refusals_clean dev (gw_calls g') \<Longrightarrow> canvas_known dev g \<Longrightarrow> canvas_known dev g'"
  by (erule render_scene_cases) (blast intro: canvas_known_quiet place_request_known)+

lemma place_request_canvas:
  assumes "in_place dev" "place_request e req d (topo_digest e req) audio g = (res, g')"
    and "orderly e dev (gw_calls g')" "canvas_inv e dev g"
  shows "canvas_inv e dev g' \<and> (fst res = OutcomeDrawn \<longrightarrow> canvas_of dev (gw_calls g') = shown req)"
  using assms(2)
proof (cases rule: place_request_cases)
  case (uncleared err)
  then show ?thesis using assms(4) clear_lost_inv by simp
next
  case update
  then show ?thesis using draw_request_canvas [OF assms(1) update(2) assms(3,4)] by simp
next
  case (replace g1)
  then show ?thesis
    using draw_request_canvas [OF assms(1) replace(2) assms(3) wiped_inv [OF replace(1)]] by (simp add: wiped_def)
qed

lemma startBusyTimer_cases:
  assumes "startBusyTimer e i theme d ms g = (res, g')"
  obtains (uncleared) err where "clear_lost g g'" "res = (OutcomeDeviceUnavailable, Some err)"
    | (wiped) g1 where "wiped g g1" "quiet g1 g'"
proof -
  obtain r g0 where c: "call (ClearCall device_ApplicationName) (ge_reply e) g = (r, g0)"
    by (cases "call (ClearCall device_ApplicationName) (ge_reply e) g")
  note def = assms [unfolded startBusyTimer_def c prod.case Let_def]
  show thesis
  proof (cases "reply_error r")
    case (Some err)
    then have "r \<noteq> Done" by (auto simp: reply_error_def)
    then show thesis using def Some clear_not_done [OF c] by (intro uncleared) auto
  next
    case None
    have "quiet (resetScene g0) g'"
      using def None by (auto split: prod.splits sum.splits option.splits
          dest!: quiet_calls quiet_snapshot_timestamp quiet_verifyBusyTimer quiet_timer_fields(2)
          intro: quiet_trans quiet_timer_fields(1))
    then show thesis using c None by (intro wiped [of "resetScene g0"] clear_wiped) auto
  qed
qed

lemma renderBusyTimer_cases:
  assumes "renderBusyTimer e c theme g = (res, g')"
  obtains (kept) "quiet g g'" | (uncleared) g1 where "quiet g g1" "clear_lost g1 g'" "snd res \<noteq> None"
    | (wiped) g1 g2 where "quiet g g1" "wiped g1 g2" "quiet g2 g'"
proof -
  from assms consider "quiet g g'"
    | g1 d ms where "quiet g g1" "startBusyTimer e (busyCardID e (cd_ID c)) theme d ms g1 = (res, g')"
    unfolding renderBusyTimer_def Let_def
    by (fastforce split: if_splits option.splits prod.splits dest: quiet_answer)
  then show thesis
  proof cases
    case 1
    then show thesis by (rule kept)
  next
    case (2 g1 d ms)
    from 2(2) show thesis by (cases rule: startBusyTimer_cases) (use 2 uncleared wiped in auto)
  qed
qed

lemma stopOwnedBusyTimer_none: "stopOwnedBusyTimer e g = (Inr x, g') \<Longrightarrow> gw_busyCardID g' = ''''"
  by (auto simp: stopOwnedBusyTimer_def Let_def resetBusyTimer_def split: if_splits prod.splits sum.splits option.splits)

lemma render_none_cases:
  assumes "render_none e g = (res, g')"
  obtains (stuck) err where "quiet g g'" "res = (OutcomeDeviceUnavailable, Some err)"
    | (empty) "quiet g g'" "\<not> gw_hasScene g'" "gw_busyCardID g' = ''''"
    | (uncleared) g1 err where "quiet g g1" "clear_lost g1 g'" "res = (OutcomeDeviceUnavailable, Some err)"
    | (wiped) g1 where "quiet g g1" "wiped g1 g'" "gw_busyCardID g' = ''''"
proof -
  obtain r g1 where stop: "stopOwnedBusyTimer e g = (r, g1)" by (cases "stopOwnedBusyTimer e g")
  have q: "quiet g g1" by (rule quiet_stopOwnedBusyTimer [OF stop])
  obtain r2 g2 where c: "call (ClearCall device_ApplicationName) (ge_reply e) g1 = (r2, g2)"
    by (cases "call (ClearCall device_ApplicationName) (ge_reply e) g1")
  note def = assms [unfolded render_none_def stop prod.case c]
  consider (failed) err where "r = Inl err" | (bare) x where "r = Inr x" "\<not> gw_hasScene g1"
    | (refused) x err where "r = Inr x" "gw_hasScene g1" "reply_error r2 = Some err" | (cleared) x where "r = Inr x" "gw_hasScene g1" "r2 = Done"
    using reply_error_None [of r2] by (cases r; cases "gw_hasScene g1"; cases "reply_error r2") auto
  then show thesis
  proof cases
    case failed
    then show thesis using def q by (intro stuck) auto
  next
    case bare
    then show thesis using def q stop by (intro empty) (auto dest: stopOwnedBusyTimer_none)
  next
    case refused
    then have "r2 \<noteq> Done" by auto
    then show thesis using def q refused clear_not_done [OF c] by (intro uncleared) auto
  next
    case cleared
    then have "wiped g1 g'" using def clear_wiped c by auto
    moreover have "gw_busyCardID g' = gw_busyCardID g1" using def cleared c by (auto simp: resetScene_def call_def)
    ultimately show thesis using q stop cleared by (intro wiped) (auto dest: stopOwnedBusyTimer_none)
  qed
qed

text \<open>What the gateway compiles a candidate's scene to, when it is asked in state \<open>g\<close>.\<close>

definition resolved_scene :: "gateway_env \<Rightarrow> Candidate \<Rightarrow> Gateway \<Rightarrow> ResolvedScene option" where
  "resolved_scene e c g =
     (if gw_assets g then ge_ResolveScene e (gw_ticks g) (cd_PluginID c) (cd_Scene c) else Some (scene_ResolveScene (cd_Scene c)))"

definition scene_request :: "gateway_env \<Rightarrow> Candidate \<Rightarrow> Gateway \<Rightarrow> DisplayElements option" where
  "scene_request e c g =
     Option.bind (resolved_scene e c g) (\<lambda>rs. case CompileScene (ge_lib e) device_ApplicationName (EffectiveDevicePriority c) rs of
        Inl _ \<Rightarrow> None | Inr request \<Rightarrow> Some request)"

lemma compile_visual_scene:
  assumes "compile_visual e c g = (Inr v, g')" "cd_BusyTimer c = None"
  obtains rs req where "v = Some (rs, req)" "resolved_scene e c g = Some rs" "scene_request e c g = Some req"
    "CompileScene (ge_lib e) device_ApplicationName (EffectiveDevicePriority c) rs = Inr req"
  using assms unfolding compile_visual_def
  by (auto simp: scene_request_def resolved_scene_def answer_def split: if_splits option.splits sum.splits prod.splits)

lemma gateway_Render_cases:
  assumes "gateway_Render e (Some c) g = (res, g')"
  obtains (kept) "quiet g g'" "fst res \<noteq> OutcomeDrawn" "fst res \<noteq> OutcomeUnchanged"
    | (timer) theme res' g1 g2 where "cd_BusyTimer c = Some theme" "quiet g g1" "renderBusyTimer e c theme g1 = (res', g2)" "quiet g2 g'"
    | (scene) rs req audio g1 where "cd_BusyTimer c = None" "cd_Validate c = []" "quiet g g1" "resolved_scene e c g = Some rs"
        "scene_request e c g = Some req" "CompileScene (ge_lib e) device_ApplicationName (EffectiveDevicePriority c) rs = Inr req"
        "render_scene e rs req audio g1 = (res, g')"
proof -
  obtain r g0 where v: "compile_visual e c g = (r, g0)" by (cases "compile_visual e c g")
  obtain r1 g1 where a: "compileAudioCue e c g0 = (r1, g1)" by (cases "compileAudioCue e c g0")
  have q: "quiet g g0" "quiet g g1"
    using quiet_compile_visual [OF v] quiet_compileAudioCue [OF a] by (auto intro: quiet_trans)
  have failed: "fst x \<noteq> OutcomeDrawn \<and> fst x \<noteq> OutcomeUnchanged" if "r = Inl x \<or> r1 = Inl x" for x
    using that v a by (auto simp: compile_visual_def compileAudioCue_def split: if_splits option.splits sum.splits prod.splits)
  note def = assms [unfolded gateway_Render_def option.case compileCandidate_def v prod.case]
  consider (bad) "\<not> gw_display g \<or> cd_Validate c \<noteq> []" | (visual) x where "gw_display g" "cd_Validate c = []" "r = Inl x"
    | (audio) y x where "gw_display g" "cd_Validate c = []" "r = Inr y" "r1 = Inl x"
    | (ready) y cue where "gw_display g" "cd_Validate c = []" "r = Inr y" "r1 = Inr cue"
    by (cases r; cases r1) auto
  then show thesis
  proof cases
    case bad
    then show thesis using def by (intro kept) (auto split: if_splits)
  next
    case visual
    then show thesis using def q failed [of x] by (intro kept) auto
  next
    case audio
    then show thesis using def q failed [of x] by (intro kept) (auto simp: a)
  next
    case (ready y cue)
    show thesis
    proof (cases "cd_BusyTimer c")
      case (Some theme)
      obtain o' err g2 where t: "renderBusyTimer e c theme g1 = ((o', err), g2)" by (cases "renderBusyTimer e c theme g1") auto
      have "g' = g2 \<or> g' = playAudioCue e cue g2" using def ready a Some t by (auto split: option.splits)
      then show thesis using t Some q by (intro timer) (auto intro: quiet_playAudioCue)
    next
      case None
      then obtain rs req where "y = Some (rs, req)" "resolved_scene e c g = Some rs" "scene_request e c g = Some req"
          "CompileScene (ge_lib e) device_ApplicationName (EffectiveDevicePriority c) rs = Inr req"
        using v ready compile_visual_scene by metis
      then show thesis using def ready a None q by (intro scene) auto
    qed
  qed
qed

lemma gateway_Render_none: "gateway_Render e None g = (res, g') \<Longrightarrow> gw_display g \<Longrightarrow> render_none e g = (res, g')"
  by (simp add: gateway_Render_def)

lemma scene_topology_agrees:
  assumes "resolver_keeps e" "cd_Validate c = []" "cd_BusyTimer c = None" "resolved_scene e c g = Some rs"
    and "CompileScene bl app p rs = Inr req"
  shows "scene_digest e rs = topo_digest e req"
proof -
  have elements: "map re_Element rs = cd_Scene c"
  proof (cases "gw_assets g")
    case True
    then show ?thesis using assms(1,4) unfolding resolved_scene_def resolver_keeps_def by simp
  next
    case False
    then show ?thesis using assms(4) by (auto simp: resolved_scene_def scene_ResolveScene_def comp_def)
  qed
  have "scene_loop {} (cd_Scene c) = []"
    using cd_Validate_scene [OF assms(2,3)] by (simp add: scene_Validate_def split: if_splits)
  then have "\<forall>x\<in>set (cd_Scene c). el_Rectangle x = None \<or> el_Countdown x = None"
    using scene_loop_elements [of "{}" "cd_Scene c"] element_Validate_one_payload by simp
  then have "\<forall>r\<in>set rs. el_Rectangle (re_Element r) = None \<or> el_Countdown (re_Element r) = None"
    unfolding elements [symmetric] by simp
  moreover have "compile_elements rs = Inr (de_Elements req)"
    using assms(5) by (auto simp: CompileScene_def Let_def split: sum.splits if_splits)
  ultimately show ?thesis by (simp add: topo_digest_def compile_elements_topology)
qed

subsection \<open>The invariant of the machine\<close>

lemma renderBusyTimer_grows: "renderBusyTimer e c theme g = (res, g') \<Longrightarrow> grows g g'"
  by (erule renderBusyTimer_cases) (blast intro: quiet_grows clear_lost_grows wiped_grows grows_trans)+

lemma render_none_grows: "render_none e g = (res, g') \<Longrightarrow> grows g g'"
  by (erule render_none_cases) (blast intro: quiet_grows clear_lost_grows wiped_grows grows_trans)+

lemma gateway_Render_grows: "gateway_Render e c g = (res, g') \<Longrightarrow> grows g g'"
proof (cases c)
  case None
  then show "gateway_Render e c g = (res, g') \<Longrightarrow> grows g g'"
    using render_none_grows by (fastforce simp: gateway_Render_def split: if_splits)
next
  case (Some x)
  assume "gateway_Render e c g = (res, g')"
  then show ?thesis unfolding Some
    by (cases rule: gateway_Render_cases)
      (blast intro: quiet_grows renderBusyTimer_grows render_scene_grows grows_trans)+
qed

lemma gateway_step_grows: "gateway_step e ev g = Some g' \<Longrightarrow> grows g g'"
proof (cases ev)
  case (RenderEvent c)
  assume "gateway_step e ev g = Some g'"
  then show ?thesis
    unfolding RenderEvent using gateway_Render_grows [of e c g "fst (gateway_Render e c g)" g'] by (auto simp: gateway_step_def)
qed (auto simp: gateway_step_def grows_def InvalidateCanvas_def resetScene_def gateway_InvalidateConnection_def)

lemma renderBusyTimer_inv: "renderBusyTimer e c theme g = (res, g') \<Longrightarrow> canvas_inv e' dev g \<Longrightarrow> canvas_inv e' dev g'"
  by (erule renderBusyTimer_cases) (blast intro: canvas_inv_quiet clear_lost_inv wiped_inv)+

lemma renderBusyTimer_known: "renderBusyTimer e c theme g = (res, g') \<Longrightarrow> canvas_known dev g \<Longrightarrow> canvas_known dev g'"
  by (erule renderBusyTimer_cases)
    (auto intro: canvas_known_quiet clear_lost_known simp: canvas_inv_def dest!: wiped_inv [where dev = dev and e = e])

lemma render_none_inv: "render_none e g = (res, g') \<Longrightarrow> canvas_inv e' dev g \<Longrightarrow> canvas_inv e' dev g'"
  by (erule render_none_cases) (blast intro: canvas_inv_quiet clear_lost_inv wiped_inv)+

lemma render_none_known: "render_none e g = (res, g') \<Longrightarrow> canvas_known dev g \<Longrightarrow> canvas_known dev g'"
  by (erule render_none_cases)
    (auto intro: canvas_known_quiet clear_lost_known simp: canvas_inv_def dest!: wiped_inv [where dev = dev and e = e])

lemma gateway_Render_known:
  assumes "gateway_Render e c g = (res, g')" "refusals_clean dev (gw_calls g')" "canvas_known dev g"
  shows "canvas_known dev g'"
proof (cases c)
  case None
  then show ?thesis using assms(1,3) render_none_known by (fastforce simp: gateway_Render_def split: if_splits)
next
  case (Some x)
  from assms(1) show ?thesis unfolding Some
    by (cases rule: gateway_Render_cases)
      (use assms(2,3) in \<open>blast intro: canvas_known_quiet renderBusyTimer_known render_scene_known\<close>)+
qed

interpretation canvas: invariant_machine "gateway_step e" "newGateway d r" "\<lambda>g. refusals_clean dev (gw_calls g) \<longrightarrow> canvas_known dev g"
proof unfold_locales
  show "refusals_clean dev (gw_calls (newGateway d r)) \<longrightarrow> canvas_known dev (newGateway d r)" by (simp add: canvas_known_def newGateway_def canvas_of_def)
next
  fix ev g g' assume inv: "refusals_clean dev (gw_calls g) \<longrightarrow> canvas_known dev g" and step: "gateway_step e ev g = Some g'"
  show "refusals_clean dev (gw_calls g') \<longrightarrow> canvas_known dev g'"
  proof
    assume clean: "refusals_clean dev (gw_calls g')"
    then have known: "canvas_known dev g" using inv gateway_step_grows [OF step] refusals_clean_mono by blast
    show "canvas_known dev g'"
    proof (cases ev)
      case (RenderEvent c)
      then show ?thesis
        using step known clean gateway_Render_known [of e c g "fst (gateway_Render e c g)" g'] by (auto simp: gateway_step_def)
    qed (use step known in \<open>auto simp: gateway_step_def InvalidateCanvas_def resetScene_def canvas_known_def canvas_of_append
      gateway_InvalidateConnection_def\<close>)
  qed
qed

lemma gateway_Render_canvas:
  assumes "in_place dev" "resolver_keeps e" "gateway_Render e c g = (res, g')" "orderly e dev (gw_calls g')" "canvas_inv e dev g"
  shows "canvas_inv e dev g' \<and>
    (\<forall>x. c = Some x \<and> cd_BusyTimer x = None \<and> fst res = OutcomeDrawn \<longrightarrow>
       (\<exists>req. scene_request e x g = Some req \<and> canvas_of dev (gw_calls g') = shown req))"
proof (cases c)
  case None
  then have "canvas_inv e dev g'"
    using assms(3,5) render_none_inv by (fastforce simp: gateway_Render_def split: if_splits)
  then show ?thesis using None by simp
next
  case (Some x)
  from assms(3) [unfolded Some] show ?thesis
  proof (cases rule: gateway_Render_cases)
    case kept
    then show ?thesis using canvas_inv_quiet [OF kept(1) assms(5)] by simp
  next
    case (timer theme res' g1 g2)
    then have "canvas_inv e dev g'" using assms(5) by (blast intro: canvas_inv_quiet renderBusyTimer_inv)
    then show ?thesis using timer(1) Some by simp
  next
    case (scene rs req audio g1)
    have digest: "scene_digest e rs = topo_digest e req"
      by (rule scene_topology_agrees [OF assms(2) scene(2,1,4,6)])
    have "canvas_inv e dev g' \<and> (fst res = OutcomeDrawn \<longrightarrow> canvas_of dev (gw_calls g') = shown req)"
      using scene(7)
    proof (cases rule: render_scene_cases)
      case kept
      then show ?thesis using scene(3) assms(5) by (blast intro: canvas_inv_quiet)
    next
      case unchanged
      then show ?thesis using scene(3) assms(5) canvas_inv_quiet by auto
    next
      case (placed g2 d)
      have "canvas_inv e dev g2" using placed(1) scene(3) assms(5) by (blast intro: canvas_inv_quiet)
      then show ?thesis using place_request_canvas [OF assms(1) placed(3) [unfolded digest] assms(4)] by simp
    qed
    then show ?thesis using scene(5) Some by simp
  qed
qed

lemma run_canvas_inv:
  assumes "in_place dev" "resolver_keeps e" "reaches (gateway_step e) (newGateway d r) g" "orderly e dev (gw_calls g)"
  shows "canvas_inv e dev g"
proof -
  have "orderly e dev (gw_calls g) \<longrightarrow> canvas_inv e dev g"
  proof (rule reaches_keep [OF assms(3), where P = "\<lambda>g. orderly e dev (gw_calls g) \<longrightarrow> canvas_inv e dev g"])
    show "orderly e dev (gw_calls (newGateway d r)) \<longrightarrow> canvas_inv e dev (newGateway d r)"
      by (simp add: canvas_inv_def canvas_known_def newGateway_def canvas_of_def)
  next
    fix ev g g' assume inv: "orderly e dev (gw_calls g) \<longrightarrow> canvas_inv e dev g" and step: "gateway_step e ev g = Some g'"
    show "orderly e dev (gw_calls g') \<longrightarrow> canvas_inv e dev g'"
    proof
      assume sep: "orderly e dev (gw_calls g')"
      then have g: "canvas_inv e dev g" using inv gateway_step_grows [OF step] orderly_mono by blast
      show "canvas_inv e dev g'"
      proof (cases ev)
        case (RenderEvent c)
        then have "gateway_Render e c g = (fst (gateway_Render e c g), g')" using step by (auto simp: gateway_step_def)
        then show ?thesis using gateway_Render_canvas [OF assms(1,2) _ sep g] by blast
      qed (use step g in \<open>auto simp: gateway_step_def InvalidateCanvas_def resetScene_def canvas_inv_def canvas_known_def
        canvas_of_append gateway_InvalidateConnection_def\<close>)
    qed
  qed
  then show ?thesis using assms(4) by simp
qed

subsection \<open>Requests that the gateway recognises\<close>

text \<open>No call failed after the device had carried it out.\<close>

fun ghost :: "device_call \<Rightarrow> bool" where
  "ghost (DrawCall _ (Failed _ applied)) = applied"
| "ghost (ClearCall _ (Failed _ applied)) = applied"
| "ghost _ = False"

definition no_ghosts :: "device_call list \<Rightarrow> bool" where
  "no_ghosts calls \<longleftrightarrow> list_all (\<lambda>c. \<not> ghost c) calls"

definition requests_separate :: "gateway_env \<Rightarrow> DisplayElements list \<Rightarrow> bool" where
  "requests_separate e rs \<longleftrightarrow>
     (\<forall>r\<in>set rs. request_digest e r \<noteq> Some zero_digest \<and>
        (\<forall>r'\<in>set rs. request_digest e r = request_digest e r' \<longrightarrow>
           de_Elements r = de_Elements r' \<and> de_Priority r = de_Priority r'))"

definition digest_inv :: "gateway_env \<Rightarrow> canvas_device \<Rightarrow> Gateway \<Rightarrow> bool" where
  "digest_inv e dev g \<longleftrightarrow>
     (\<not> gw_hasScene g \<longrightarrow> gw_lastDigest g = zero_digest) \<and>
     (gw_lastDigest g \<noteq> zero_digest \<longrightarrow>
        (\<exists>r\<in>set (drawn (gw_calls g)). canvas_of dev (gw_calls g) = shown r \<and> request_digest e r = Some (gw_lastDigest g)))"

lemma digest_inv_quiet: "quiet g g' \<Longrightarrow> digest_inv e dev g \<Longrightarrow> digest_inv e dev g'"
  by (simp add: digest_inv_def quiet_canvas quiet_drawn) (simp add: quiet_def same_scene_def)

lemma no_ghosts_mono: "no_ghosts (gw_calls g') \<Longrightarrow> grows g g' \<Longrightarrow> no_ghosts (gw_calls g)"
  by (auto simp: no_ghosts_def grows_def)

lemma digest_inv_wiped: "wiped g g' \<Longrightarrow> digest_inv e dev g'"
  by (simp add: wiped_def digest_inv_def)

lemma digest_inv_clear_lost: "clear_lost g g' \<Longrightarrow> no_ghosts (gw_calls g') \<Longrightarrow> digest_inv e dev g \<Longrightarrow> digest_inv e dev g'"
proof -
  assume "clear_lost g g'" "no_ghosts (gw_calls g')" "digest_inv e dev g"
  moreover from this(1) obtain r where r: "r \<noteq> Done" "gw_calls g' = gw_calls g @ [ClearCall device_ApplicationName r]"
    by (auto simp: clear_lost_def)
  moreover have "canvas_of dev (gw_calls g') = canvas_of dev (gw_calls g)"
    using r calculation(2) by (cases r) (auto simp: canvas_of_append no_ghosts_def)
  ultimately show ?thesis by (auto simp: digest_inv_def clear_lost_def same_scene_def)
qed

lemma digest_inv_draw:
  assumes "draw_request e req d t audio g = (res, g')" "request_digest e req = Some d" "no_ghosts (gw_calls g')" "digest_inv e dev g"
    and "fst res = OutcomeDrawn \<longrightarrow> canvas_of dev (gw_calls g') = shown req"
  shows "digest_inv e dev g'"
  using assms(1)
proof (cases rule: draw_request_cases)
  case (drawn g1)
  then have "digest_inv e dev g1" using assms(2,5) by (simp add: digest_inv_def quiet_canvas)
  then show ?thesis using drawn by (blast intro: digest_inv_quiet)
next
  case refused
  then show ?thesis by (simp add: digest_inv_def)
next
  case (lost err applied)
  then have "canvas_of dev (gw_calls g') = canvas_of dev (gw_calls g)"
    using assms(3) by (simp add: canvas_of_append no_ghosts_def)
  then show ?thesis using assms(4) lost by (auto simp: digest_inv_def)
qed

lemma digest_inv_place:
  assumes "in_place dev" "place_request e req d (topo_digest e req) audio g = (res, g')" "request_digest e req = Some d"
    and "orderly e dev (gw_calls g')" "no_ghosts (gw_calls g')" "canvas_inv e dev g" "digest_inv e dev g"
  shows "digest_inv e dev g'"
proof -
  note painted = place_request_canvas [OF assms(1,2,4,6), THEN conjunct2]
  from assms(2) show ?thesis
  proof (cases rule: place_request_cases)
    case (uncleared err)
    then show ?thesis using digest_inv_clear_lost assms(5,7) by blast
  next
    case update
    show ?thesis by (rule digest_inv_draw [OF update(2) assms(3,5,7) painted])
  next
    case (replace g1)
    then show ?thesis using digest_inv_draw [OF replace(2) assms(3,5) digest_inv_wiped painted] by blast
  qed
qed

lemma digest_inv_timer:
  assumes "renderBusyTimer e c theme g = (res, g')" "no_ghosts (gw_calls g')" "digest_inv e' dev g"
  shows "digest_inv e' dev g'"
  using assms(1) by (cases rule: renderBusyTimer_cases)
    (use assms(2,3) in \<open>blast intro: digest_inv_quiet digest_inv_clear_lost digest_inv_wiped\<close>)+

lemma digest_inv_none:
  assumes "render_none e g = (res, g')" "no_ghosts (gw_calls g')" "digest_inv e' dev g"
  shows "digest_inv e' dev g'"
  using assms(1) by (cases rule: render_none_cases)
    (use assms(2,3) in \<open>blast intro: digest_inv_quiet digest_inv_clear_lost digest_inv_wiped\<close>)+

lemma digest_inv_Render:
  assumes "in_place dev" "resolver_keeps e" "gateway_Render e c g = (res, g')"
    and "orderly e dev (gw_calls g')" "no_ghosts (gw_calls g')" "canvas_inv e dev g" "digest_inv e dev g"
  shows "digest_inv e dev g'"
proof (cases c)
  case None
  then show ?thesis using assms(3,5,7) digest_inv_none by (fastforce simp: gateway_Render_def split: if_splits)
next
  case (Some x)
  from assms(3) [unfolded Some] show ?thesis
  proof (cases rule: gateway_Render_cases)
    case kept
    then show ?thesis using assms(7) by (blast intro: digest_inv_quiet)
  next
    case (timer theme res' g1 g2)
    then show ?thesis using assms(5,7) by (blast intro: digest_inv_quiet digest_inv_timer no_ghosts_mono quiet_grows)
  next
    case (scene rs req audio g1)
    have digest: "scene_digest e rs = topo_digest e req"
      by (rule scene_topology_agrees [OF assms(2) scene(2,1,4,6)])
    from scene(7) show ?thesis
    proof (cases rule: render_scene_cases)
      case kept
      then show ?thesis using scene(3) assms(7) by (blast intro: digest_inv_quiet)
    next
      case unchanged
      then show ?thesis using scene(3) assms(7) by (blast intro: digest_inv_quiet)
    next
      case (placed g2 d)
      have q: "quiet g g2" using scene(3) placed(1) by (rule quiet_trans)
      show ?thesis
        using digest_inv_place [OF assms(1) placed(3) [unfolded digest] placed(2) assms(4,5)]
          canvas_inv_quiet [OF q assms(6)] digest_inv_quiet [OF q assms(7)] by blast
    qed
  qed
qed

lemma run_digest_inv:
  assumes "in_place dev" "resolver_keeps e" "reaches (gateway_step e) (newGateway d r) g"
    and "orderly e dev (gw_calls g)" "no_ghosts (gw_calls g)"
  shows "digest_inv e dev g"
proof -
  let ?P = "\<lambda>g. orderly e dev (gw_calls g) \<and> no_ghosts (gw_calls g) \<longrightarrow> canvas_inv e dev g \<and> digest_inv e dev g"
  have "?P g"
  proof (rule reaches_keep [OF assms(3), where P = ?P])
    show "?P (newGateway d r)"
      by (simp add: digest_inv_def canvas_inv_def canvas_known_def newGateway_def canvas_of_def)
  next
    fix ev g g' assume inv: "?P g" and step: "gateway_step e ev g = Some g'"
    show "?P g'"
    proof
      assume sep: "orderly e dev (gw_calls g') \<and> no_ghosts (gw_calls g')"
      then have g: "canvas_inv e dev g" "digest_inv e dev g"
        using inv gateway_step_grows [OF step] orderly_mono no_ghosts_mono by blast+
      show "canvas_inv e dev g' \<and> digest_inv e dev g'"
      proof (cases ev)
        case (RenderEvent c)
        then have "gateway_Render e c g = (fst (gateway_Render e c g), g')" using step by (auto simp: gateway_step_def)
        then show ?thesis using gateway_Render_canvas [OF assms(1,2) _ _ g(1)] digest_inv_Render [OF assms(1,2) _ _ _ g] sep by blast
      qed (use step g in \<open>auto simp: gateway_step_def InvalidateCanvas_def resetScene_def canvas_inv_def canvas_known_def
        digest_inv_def canvas_of_append gateway_InvalidateConnection_def\<close>)
    qed
  qed
  then show ?thesis using assms(4,5) by simp
qed

lemma requests_separateD:
  assumes "requests_separate e rs" "r \<in> set rs" "r' \<in> set rs" "request_digest e r = request_digest e r'"
  shows "shown r = shown r'"
proof -
  have "de_Elements r = de_Elements r' \<and> de_Priority r = de_Priority r'" using assms unfolding requests_separate_def by blast
  then show ?thesis by (simp add: shown_def)
qed

lemma no_ghosts_level: "no_ghosts calls \<Longrightarrow> draws_level calls"
proof (induction calls)
  case (Cons x xs)
  then have "unseen_by x = []" by (cases x rule: unseen_by.cases) (auto simp: no_ghosts_def)
  then show ?case using Cons by (simp add: no_ghosts_def)
qed simp

lemma draw_request_outcome: "draw_request e req d t audio g = (res, g') \<Longrightarrow> fst res \<noteq> OutcomeUnchanged"
  by (erule draw_request_cases) auto

lemma place_request_outcome: "place_request e req d t audio g = (res, g') \<Longrightarrow> fst res \<noteq> OutcomeUnchanged"
  by (erule place_request_cases) (auto dest: draw_request_outcome)

end
