(* ===== verification/DeviceCues.thy ===== *)
theory DeviceCues
  imports DeviceCanvas
begin

text \<open>
  The timers and the sounds of the gateway. A timer is stopped only after a readback that shows a card the
  gateway has started, and a sound that was played is remembered until it expires, as long as the table of
  played sounds has room.
\<close>

subsection \<open>Operations without timers and sounds\<close>

fun stops :: "device_call \<Rightarrow> bool" where
  "stops (SetBusy s _) = (sn_Type s = BusySnapshotNotStarted)"
| "stops _ = False"

fun played_by :: "device_call \<Rightarrow> preparedAudioCue list" where
  "played_by (PlayCall cue _) = [cue]"
| "played_by _ = []"

definition plays :: "device_call list \<Rightarrow> preparedAudioCue list" where
  "plays calls = concat (map played_by calls)"

lemma plays_simps [simp]: "plays [] = []" "plays (xs @ ys) = plays xs @ plays ys" "plays (c # ys) = played_by c @ plays ys"
  by (simp_all add: plays_def)

text \<open>The table of played sounds is not touched, and nothing is played.\<close>

definition mute :: "Gateway \<Rightarrow> Gateway \<Rightarrow> bool" where
  "mute g g' \<longleftrightarrow> gw_playedAudio g' = gw_playedAudio g \<and> gw_ticks g \<le> gw_ticks g' \<and> plays (gw_calls g') = plays (gw_calls g)"

text \<open>The timer is not touched.\<close>

definition tame :: "Gateway \<Rightarrow> Gateway \<Rightarrow> bool" where
  "tame g g' \<longleftrightarrow> gw_busyCardID g' = gw_busyCardID g \<and> (\<exists>xs. gw_calls g' = gw_calls g @ xs \<and> list_all (\<lambda>c. \<not> stops c) xs)"

lemma mute_refl [simp]: "mute g g" and tame_refl [simp]: "tame g g"
  by (simp_all add: mute_def tame_def)

lemma mute_trans [trans]: "mute g g' \<Longrightarrow> mute g' g'' \<Longrightarrow> mute g g''"
  by (simp add: mute_def)

lemma tame_trans [trans]: "tame g g' \<Longrightarrow> tame g' g'' \<Longrightarrow> tame g g''"
  by (auto simp: tame_def)

lemma mute_answer: "answer f g = (x, g') \<Longrightarrow> mute g g'" and tame_answer: "answer f g = (x, g') \<Longrightarrow> tame g g'"
  by (auto simp: answer_def mute_def tame_def)

lemma mute_calls:
  "call ReadBusy f g = (x, g') \<Longrightarrow> mute g g'" "call ReadTime f' g = (x', g') \<Longrightarrow> mute g g'"
  "call (SetBusy s) f'' g = (x'', g') \<Longrightarrow> mute g g'" "call (ClearCall a) f'' g = (x'', g') \<Longrightarrow> mute g g'"
  "call (DrawCall r) f'' g = (x'', g') \<Longrightarrow> mute g g'"
  by (auto simp: call_def mute_def)

lemma tame_calls:
  "call ReadBusy f g = (x, g') \<Longrightarrow> tame g g'" "call ReadTime f' g = (x', g') \<Longrightarrow> tame g g'"
  "call (PlayCall cue) f'' g = (x'', g') \<Longrightarrow> tame g g'" "call (ClearCall a) f'' g = (x'', g') \<Longrightarrow> tame g g'"
  "call (DrawCall r) f'' g = (x'', g') \<Longrightarrow> tame g g'"
  by (auto simp: call_def tame_def)

lemma mute_fields [simp]:
  "mute g (resetScene g') = mute g g'" "mute g (resetBusyTimer g') = mute g g'" "mute (resetScene g) g' = mute g g'"
  "mute g (g'\<lparr>gw_busyDigest := d\<rparr>) = mute g g'" "mute (g\<lparr>gw_busyCardID := i, gw_busyDigest := d\<rparr>) g' = mute g g'"
  "mute (g\<lparr>gw_hasScene := b\<rparr>) g' = mute g g'"
  by (simp_all add: mute_def resetScene_def resetBusyTimer_def)

lemma tame_fields [simp]:
  "tame g (resetScene g') = tame g g'" "tame (resetScene g) g' = tame g g'" "tame (g\<lparr>gw_hasScene := b\<rparr>) g' = tame g g'"
  "tame g (g'\<lparr>gw_busyDigest := d\<rparr>) = tame g g'"
  "tame g (g'\<lparr>gw_lastAudioErr := x\<rparr>) = tame g g'" "tame g (g'\<lparr>gw_playedAudio := p\<rparr>) = tame g g'"
  "tame g (g'\<lparr>gw_audioAttempts := n\<rparr>) = tame g g'"
  "tame (g\<lparr>gw_lastAudioErr := x, gw_audioAttempts := n, gw_playedAudio := p\<rparr>) g' = tame g g'"
  by (simp_all add: tame_def resetScene_def)

lemma mute_snapshot_timestamp: "snapshot_timestamp e s g = (x, g') \<Longrightarrow> mute g g'"
  by (auto simp: snapshot_timestamp_def Let_def split: prod.splits sum.splits option.splits if_splits dest: mute_calls)

lemma tame_snapshot_timestamp: "snapshot_timestamp e s g = (x, g') \<Longrightarrow> tame g g'"
  by (auto simp: snapshot_timestamp_def Let_def split: prod.splits sum.splits option.splits if_splits dest: tame_calls)

lemma mute_verifyBusyTimer: "verifyBusyTimer e i t ms n g = (x, g') \<Longrightarrow> mute g g'"
proof (induction n arbitrary: g)
  case (Suc n)
  obtain r g1 where c: "call ReadBusy (ge_busy e) g = (r, g1)" by (cases "call ReadBusy (ge_busy e) g")
  show ?case
    using Suc.prems Suc.IH c mute_trans [OF mute_calls(1) [OF c]] mute_answer [of "ge_wait e" g1] mute_calls(1) [OF c]
    by (fastforce split: sum.splits if_splits prod.splits option.splits intro: mute_trans)
qed simp

lemma tame_verifyBusyTimer: "verifyBusyTimer e i t ms n g = (x, g') \<Longrightarrow> tame g g'"
proof (induction n arbitrary: g)
  case (Suc n)
  obtain r g1 where c: "call ReadBusy (ge_busy e) g = (r, g1)" by (cases "call ReadBusy (ge_busy e) g")
  show ?case
    using Suc.prems Suc.IH c tame_trans [OF tame_calls(1) [OF c]] tame_answer [of "ge_wait e" g1] tame_calls(1) [OF c]
    by (fastforce split: sum.splits if_splits prod.splits option.splits intro: tame_trans)
qed simp

lemma mute_compileCandidate: "compileCandidate e c g = (x, g') \<Longrightarrow> mute g g'"
  unfolding compileCandidate_def compile_visual_def compileAudioCue_def
  by (auto split: prod.splits sum.splits option.splits if_splits dest!: mute_answer intro: mute_trans)

lemma tame_compileCandidate: "compileCandidate e c g = (x, g') \<Longrightarrow> tame g g'"
  unfolding compileCandidate_def compile_visual_def compileAudioCue_def
  by (auto split: prod.splits sum.splits option.splits if_splits dest!: tame_answer intro: tame_trans)

subsection \<open>Timers\<close>

definition started :: "device_call list \<Rightarrow> string \<Rightarrow> bool" where
  "started calls cid \<longleftrightarrow> list_ex (\<lambda>c. case c of SetBusy s Done \<Rightarrow> sn_Type s = BusySnapshotSimple \<and> sn_CardID s = cid | _ \<Rightarrow> False) calls"

text \<open>Just before the call at \<open>i\<close> the gateway read a snapshot with a card that it had started itself, and the time.\<close>

definition read_own_card :: "device_call list \<Rightarrow> nat \<Rightarrow> bool" where
  "read_own_card calls i \<longleftrightarrow> 2 \<le> i \<and> (\<exists>s t. calls ! (i - 2) = ReadBusy (Inr s) \<and> calls ! (i - 1) = ReadTime t \<and> started (take (i - 2) calls) (sn_CardID s))"

definition timer_inv :: "Gateway \<Rightarrow> bool" where
  "timer_inv g \<longleftrightarrow>
     (gw_busyCardID g \<noteq> '''' \<longrightarrow> started (gw_calls g) (gw_busyCardID g)) \<and>
     (\<forall>i<length (gw_calls g). stops (gw_calls g ! i) \<longrightarrow> read_own_card (gw_calls g) i)"

lemma started_append [simp]: "started (xs @ ys) cid \<longleftrightarrow> started xs cid \<or> started ys cid"
  by (simp add: started_def)

lemma read_own_card_append: "i < length xs \<Longrightarrow> read_own_card (xs @ ys) i \<longleftrightarrow> read_own_card xs i"
  by (auto simp: read_own_card_def nth_append)

lemma timer_inv_tame: "tame g g' \<Longrightarrow> timer_inv g \<Longrightarrow> timer_inv g'"
proof -
  assume "tame g g'" "timer_inv g"
  moreover from this obtain xs where xs: "gw_calls g' = gw_calls g @ xs" "list_all (\<lambda>c. \<not> stops c) xs" by (auto simp: tame_def)
  moreover have "\<not> stops (gw_calls g' ! i)" if "length (gw_calls g) \<le> i" "i < length (gw_calls g')" for i
    using that xs by (auto simp: nth_append list_all_length)
  ultimately show ?thesis
    by (auto simp: timer_inv_def tame_def read_own_card_append nth_append)
qed

lemma timer_inv_reset: "timer_inv g \<Longrightarrow> timer_inv (resetBusyTimer g)"
  by (simp add: timer_inv_def resetBusyTimer_def)

lemma timer_inv_stop:
  assumes "timer_inv g" "gw_busyCardID g \<noteq> ''''" "sn_CardID s = gw_busyCardID g" "gw_busyCardID g' = gw_busyCardID g"
    and "gw_calls g' = gw_calls g @ [ReadBusy (Inr s), ReadTime t, SetBusy s' r]"
  shows "timer_inv g'"
proof -
  let ?n = "length (gw_calls g)"
  have "read_own_card (gw_calls g') i" if "i < length (gw_calls g')" "stops (gw_calls g' ! i)" for i
  proof (cases "i < ?n")
    case True
    then show ?thesis using that assms(1,5) by (auto simp: timer_inv_def read_own_card_append nth_append)
  next
    case False
    then have "i = ?n + 2"
      using that unfolding assms(5) by (auto simp: nth_append nth_Cons' split: if_splits)
    then show ?thesis using assms by (auto simp: read_own_card_def timer_inv_def nth_append)
  qed
  then show ?thesis using assms by (auto simp: timer_inv_def)
qed

lemma snapshot_timestamp_calls:
  "snapshot_timestamp e s g = (x, g') \<Longrightarrow> \<exists>t. gw_calls g' = gw_calls g @ [ReadTime t]"
  by (auto simp: snapshot_timestamp_def Let_def call_def split: prod.splits sum.splits option.splits if_splits)

lemma timer_inv_stopOwnedBusyTimer:
  assumes "stopOwnedBusyTimer e g = (x, g')" "timer_inv g"
  shows "timer_inv g'"
proof (cases "gw_busyCardID g = '''' \<or> \<not> ge_BusyTimerDisplay e")
  case True
  then show ?thesis using assms by (auto simp: stopOwnedBusyTimer_def split: if_splits)
next
  case False
  obtain r g1 where read: "call ReadBusy (ge_busy e) g = (r, g1)" by (cases "call ReadBusy (ge_busy e) g")
  have g1: "tame g g1" "timer_inv g1" "gw_calls g1 = gw_calls g @ [ReadBusy r]"
    using read tame_calls(1) [OF read] timer_inv_tame assms(2) by (auto simp: call_def)
  consider (failed) err where "r = Inl err" | (other) s where "r = Inr s" "sn_CardID s \<noteq> gw_busyCardID g1"
    | (own) s where "r = Inr s" "sn_CardID s = gw_busyCardID g1" by (cases r) auto
  then show ?thesis
  proof cases
    case failed
    then show ?thesis using assms(1) False read g1 by (auto simp: stopOwnedBusyTimer_def)
  next
    case other
    then show ?thesis using assms(1) False read g1 by (auto simp: stopOwnedBusyTimer_def timer_inv_reset)
  next
    case (own s)
    obtain t g2 where stamp: "snapshot_timestamp e s g1 = (t, g2)" by (cases "snapshot_timestamp e s g1")
    have g2: "tame g g2" "timer_inv g2"
      using tame_snapshot_timestamp [OF stamp] g1 by (auto intro: tame_trans timer_inv_tame)
    obtain st where calls: "gw_calls g2 = gw_calls g @ [ReadBusy (Inr s), ReadTime st]"
      using snapshot_timestamp_calls [OF stamp] g1(3) own by auto
    show ?thesis
    proof (cases t)
      case (Inl err)
      then show ?thesis using assms(1) False read own stamp g2 by (auto simp: stopOwnedBusyTimer_def)
    next
      case (Inr ms)
      have set: "timer_inv g3" if "call (SetBusy s') f g2 = (r', g3)" for s' f r' g3
        by (rule timer_inv_stop [OF assms(2), of s g3 st s' r'])
          (use that False own g1(1) g2(1) calls in \<open>auto simp: call_def tame_def\<close>)
      then show ?thesis using assms(1) False read own stamp Inr
        by (auto simp: stopOwnedBusyTimer_def Let_def split: prod.splits option.splits intro: timer_inv_reset)
    qed
  qed
qed

lemma timer_inv_verify:
  "verifyBusyTimer e i t ms n g = (x, g') \<Longrightarrow> timer_inv g \<Longrightarrow> timer_inv g'"
  by (rule timer_inv_tame [OF tame_verifyBusyTimer])

lemma timer_inv_started:
  assumes "call (SetBusy s) f g = (Done, g')" "sn_Type s = BusySnapshotSimple" "timer_inv g"
  shows "timer_inv (g'\<lparr>gw_busyCardID := sn_CardID s, gw_busyDigest := d\<rparr>)"
proof -
  have "tame g g'" using assms(1,2) by (auto simp: call_def tame_def)
  then have "timer_inv g'" using assms(3) by (rule timer_inv_tame)
  moreover have "started (gw_calls g') (sn_CardID s)" using assms(1,2) by (auto simp: call_def started_def)
  ultimately show ?thesis by (simp add: timer_inv_def)
qed

lemma timer_inv_digest [simp]: "timer_inv (g\<lparr>gw_busyDigest := d\<rparr>) = timer_inv g"
    "timer_inv (g\<lparr>gw_lastDigest := d\<rparr>) = timer_inv g"
  by (simp_all add: timer_inv_def)

lemma timer_inv_startBusyTimer:
  assumes "startBusyTimer e i theme d ms g = (res, g')" "timer_inv g"
  shows "timer_inv g'"
proof -
  obtain r g0 where clear: "call (ClearCall device_ApplicationName) (ge_reply e) g = (r, g0)"
    by (cases "call (ClearCall device_ApplicationName) (ge_reply e) g")
  obtain c g1 where read: "call ReadBusy (ge_busy e) (resetScene g0) = (c, g1)" by (cases "call ReadBusy (ge_busy e) (resetScene g0)")
  have tame: "tame g g0" "tame g g1"
    using tame_calls(4) [OF clear] tame_calls(1) [OF read] by (auto intro: tame_trans)
  have stamped: "tame g g2" if "snapshot_timestamp e s g1 = (t, g2)" for s t g2
    using tame(2) tame_snapshot_timestamp [OF that] by (rule tame_trans)
  have refused: "timer_inv g3" if "tame g g2" "call (SetBusy s) f g2 = (r, g3)" "sn_Type s = BusySnapshotSimple" for g2 g3 s f r
    by (rule timer_inv_tame [OF _ timer_inv_tame [OF that(1) assms(2)]]) (use that(2,3) in \<open>auto simp: call_def tame_def\<close>)
  have running: "timer_inv (g3\<lparr>gw_busyCardID := i, gw_busyDigest := d\<rparr>)"
    if "tame g g2" "call (SetBusy s) f g2 = (Done, g3)" "sn_Type s = BusySnapshotSimple" "sn_CardID s = i" for g2 g3 s f d
    using timer_inv_started [OF that(2,3) timer_inv_tame [OF that(1) assms(2)]] that(4) by simp
  show ?thesis
    using assms(1) timer_inv_tame [OF tame(1) assms(2)] timer_inv_tame [OF tame(2) assms(2)]
    unfolding startBusyTimer_def clear prod.case read Let_def
    by (auto split: option.splits sum.splits prod.splits dest!: timer_inv_verify
        intro: timer_inv_tame [OF _ assms(2)] stamped refused running)
qed

lemma timer_inv_renderBusyTimer: "renderBusyTimer e c theme g = (res, g') \<Longrightarrow> timer_inv g \<Longrightarrow> timer_inv g'"
  unfolding renderBusyTimer_def Let_def
  by (auto split: if_splits option.splits prod.splits dest!: tame_answer intro: timer_inv_startBusyTimer timer_inv_tame)

lemma tame_playAudioCue: "tame g (playAudioCue e a g)"
proof (cases a)
  case (Some cue)
  obtain now g0 where n: "answer (ge_now e) g = (now, g0)" by (cases "answer (ge_now e) g")
  show ?thesis
    unfolding playAudioCue_def Some option.case n prod.case Let_def
    using tame_answer [OF n] by (auto split: prod.splits option.splits dest!: tame_calls(3) intro: tame_trans)
qed (simp add: playAudioCue_def)

lemma timer_inv_play: "timer_inv g \<Longrightarrow> timer_inv (playAudioCue e a g)"
  by (rule timer_inv_tame [OF tame_playAudioCue])

lemma timer_inv_scene_fields [simp]:
  "timer_inv (resetScene g) = timer_inv g" "timer_inv (g\<lparr>gw_hasScene := b\<rparr>) = timer_inv g"
  "timer_inv (g\<lparr>gw_lastTopology := t\<rparr>) = timer_inv g" "timer_inv (g\<lparr>gw_lastPriority := p\<rparr>) = timer_inv g"
  by (simp_all add: timer_inv_def resetScene_def)

lemma timer_inv_draw_request: "draw_request e req d t audio g = (res, g') \<Longrightarrow> timer_inv g \<Longrightarrow> timer_inv g'"
  unfolding draw_request_def
  by (auto split: prod.splits reply.splits dest!: tame_calls(5)
      intro!: timer_inv_play timer_inv_reset intro: timer_inv_tame)

lemma timer_inv_place_request: "place_request e req d t audio g = (res, g') \<Longrightarrow> timer_inv g \<Longrightarrow> timer_inv g'"
  unfolding place_request_def
  by (auto split: prod.splits option.splits if_splits dest!: tame_calls(4) timer_inv_draw_request intro: timer_inv_tame)

lemma timer_inv_render_scene: "render_scene e rs req audio g = (res, g') \<Longrightarrow> timer_inv g \<Longrightarrow> timer_inv g'"
  unfolding render_scene_def Let_def
  by (auto split: prod.splits option.splits sum.splits if_splits dest!: timer_inv_stopOwnedBusyTimer timer_inv_place_request
      intro: timer_inv_play)

lemma timer_inv_render_none: "render_none e g = (res, g') \<Longrightarrow> timer_inv g \<Longrightarrow> timer_inv g'"
  unfolding render_none_def
  by (auto split: prod.splits option.splits sum.splits if_splits dest!: timer_inv_stopOwnedBusyTimer tame_calls(4) intro: timer_inv_tame)

lemma timer_inv_Render: "gateway_Render e c g = (res, g') \<Longrightarrow> timer_inv g \<Longrightarrow> timer_inv g'"
  unfolding gateway_Render_def
  by (auto split: prod.splits option.splits sum.splits if_splits dest!: tame_compileCandidate timer_inv_renderBusyTimer
      intro: timer_inv_play timer_inv_tame timer_inv_render_scene timer_inv_render_none)

interpretation timers: invariant_machine "gateway_step e" "newGateway d r" timer_inv
proof unfold_locales
  show "timer_inv (newGateway d r)" by (simp add: timer_inv_def newGateway_def)
next
  fix ev g g' assume inv: "timer_inv g" and step: "gateway_step e ev g = Some g'"
  have events: "tame g (g\<lparr>gw_calls := gw_calls g @ [c]\<rparr>)" if "\<not> stops c" for c using that by (simp add: tame_def)
  show "timer_inv g'"
  proof (cases ev)
    case (RenderEvent c)
    then show ?thesis using step inv timer_inv_Render [of e c g "fst (gateway_Render e c g)" g'] by (auto simp: gateway_step_def)
  qed (use step timer_inv_tame [OF events inv] in \<open>auto simp: gateway_step_def InvalidateCanvas_def gateway_InvalidateConnection_def\<close>)
qed

subsection \<open>Sounds\<close>

text \<open>
  The gateway has to remember a sound as long as no clock reading has reached its expiry and no more than 256 sounds that
  expire no earlier were played: the table then has an older entry to give up.
\<close>

definition sound_kept :: "gateway_env \<Rightarrow> Gateway \<Rightarrow> preparedAudioCue \<Rightarrow> bool" where
  "sound_kept e g cue \<longleftrightarrow>
     (\<forall>n<gw_ticks g. time_after (pa_expiresAt cue) (ge_now e n)) \<and>
     length (filter (\<lambda>c. \<not> time_before (pa_expiresAt c) (pa_expiresAt cue)) (plays (gw_calls g))) \<le> maxPlayedAudioCues"

abbreviation cue_entry :: "preparedAudioCue \<Rightarrow> audioCueIdentity \<times> gotime" where
  "cue_entry cue \<equiv> (pa_identity cue, pa_expiresAt cue)"

definition sounds_known :: "gateway_env \<Rightarrow> Gateway \<Rightarrow> bool" where
  "sounds_known e g \<longleftrightarrow>
     set (gw_playedAudio g) \<subseteq> cue_entry ` set (plays (gw_calls g)) \<and>
     (\<forall>xs cue ys. plays (gw_calls g) = xs @ cue # ys \<and> sound_kept e g cue \<longrightarrow>
        map_of (gw_playedAudio g) (pa_identity cue) = Some (pa_expiresAt cue) \<and> pa_identity cue \<notin> pa_identity ` set ys)"

definition sound_inv :: "gateway_env \<Rightarrow> Gateway \<Rightarrow> bool" where
  "sound_inv e g \<longleftrightarrow>
     alist_wf (gw_playedAudio g) \<and> length (gw_playedAudio g) \<le> maxPlayedAudioCues \<and>
     (if ge_AudioDisplay e then sounds_known e g else plays (gw_calls g) = [])"

lemma sound_kept_earlier:
  "sound_kept e g' cue \<Longrightarrow> gw_ticks g \<le> gw_ticks g' \<Longrightarrow> plays (gw_calls g') = plays (gw_calls g) @ zs \<Longrightarrow> sound_kept e g cue"
  by (auto simp: sound_kept_def)

lemma sound_inv_mute: "mute g g' \<Longrightarrow> sound_inv e g \<Longrightarrow> sound_inv e g'"
proof -
  assume m: "mute g g'" and inv: "sound_inv e g"
  have same: "plays (gw_calls g') = plays (gw_calls g)" "gw_playedAudio g' = gw_playedAudio g" "gw_ticks g \<le> gw_ticks g'"
    using m by (auto simp: mute_def)
  have "sound_kept e g cue" if "sound_kept e g' cue" for cue using sound_kept_earlier [OF that same(3), of "[]"] same(1) by simp
  then have "sounds_known e g'" if "sounds_known e g" using that unfolding sounds_known_def same(1,2) by blast
  then show ?thesis using inv by (simp add: sound_inv_def same(1,2) split: if_splits)
qed

lemma oldest_entry: "fold (\<lambda>a b. if older_cue a b then a else b) played start \<in> insert start (set played)"
  by (induction played arbitrary: start) (simp_all, blast)

lemma oldest_cue_member: "oldest_cue start played \<in> insert (fst start) (fst ` set played)"
  using oldest_entry [of played start] unfolding oldest_cue_def by auto

lemma update_entries: "set (AList.update k v m) \<subseteq> insert (k, v) (set m)" "(k, v) \<in> set (AList.update k v m)"
  by (induction m) auto

lemma remember_cue_wf: "alist_wf played \<Longrightarrow> alist_wf (remember_cue cue played)"
  by (simp add: remember_cue_def Let_def go_alist)

lemma remember_cue_length:
  assumes "alist_wf played" "length played \<le> maxPlayedAudioCues"
  shows "length (remember_cue cue played) \<le> maxPlayedAudioCues"
proof -
  let ?p = "AList.update (pa_identity cue) (pa_expiresAt cue) played"
  let ?o = "oldest_cue (pa_identity cue, pa_expiresAt cue) ?p"
  have "?o \<in> fst ` set ?p" using oldest_cue_member [of "(pa_identity cue, pa_expiresAt cue)" ?p] by (auto simp: alist_update_keys)
  then have "map_of ?p ?o \<noteq> None" by (simp add: map_of_eq_None_iff)
  moreover have "alist_wf ?p" "length ?p \<le> Suc maxPlayedAudioCues" using assms by (auto simp: go_alist)
  ultimately show ?thesis by (auto simp: remember_cue_def Let_def go_alist)
qed

lemma remember_cue_room:
  "length (AList.update (pa_identity cue) (pa_expiresAt cue) played) \<le> maxPlayedAudioCues \<Longrightarrow>
     remember_cue cue played = AList.update (pa_identity cue) (pa_expiresAt cue) played"
  by (simp add: remember_cue_def)

lemma oldest_is_first:
  assumes "r = fold (\<lambda>a b. if older_cue a b then a else b) played start" "a \<in> insert start (set played)"
  shows "instant (snd r) \<le> instant (snd a)"
proof -
  have "instant (snd (fold (\<lambda>a b. if older_cue a b then a else b) played start)) \<le> instant (snd start) \<and>
      (\<forall>a\<in>set played. instant (snd (fold (\<lambda>a b. if older_cue a b then a else b) played start)) \<le> instant (snd a))"
  proof (induction played arbitrary: start)
    case (Cons x xs)
    have "instant (snd (if older_cue x start then x else start)) \<le> instant (snd start)"
      "instant (snd (if older_cue x start then x else start)) \<le> instant (snd x)"
      by (auto simp: older_cue_def time_before_def time_equal_def)
    then show ?case using Cons.IH [of "if older_cue x start then x else start"] by (auto intro: order_trans)
  qed simp
  then show ?thesis using assms by blast
qed

text \<open>What the table gives up expires no later than any other entry.\<close>

lemma remember_cue_keeps:
  assumes "alist_wf played" "map_of (AList.update (pa_identity cue) (pa_expiresAt cue) played) i = Some x"
    and "set (AList.update (pa_identity cue) (pa_expiresAt cue) played) \<subseteq> cue_entry ` set cues"
    and "length (filter (\<lambda>c. \<not> time_before (pa_expiresAt c) x) cues) \<le> maxPlayedAudioCues"
  shows "map_of (remember_cue cue played) i = Some x"
proof -
  let ?p = "AList.update (pa_identity cue) (pa_expiresAt cue) played" and ?start = "cue_entry cue"
  define r where "r = fold (\<lambda>a b. if older_cue a b then a else b) ?p ?start"
  have wf: "alist_wf ?p" using assms(1) by (simp add: go_alist)
  have "r \<in> set ?p" using oldest_entry [of ?p ?start] update_entries(2) [of "pa_identity cue" "pa_expiresAt cue" played]
    by (auto simp: r_def)
  then have r: "map_of ?p (fst r) = Some (snd r)" using wf by (simp add: map_of_is_SomeI)
  have "length ?p \<le> maxPlayedAudioCues" if "fst r = i"
  proof -
    have x: "snd r = x" using r assms(2) that by simp
    let ?late = "filter (\<lambda>c. \<not> time_before (pa_expiresAt c) x) cues"
    have "set ?p \<subseteq> cue_entry ` set ?late"
    proof
      fix a assume a: "a \<in> set ?p"
      then obtain c where c: "c \<in> set cues" "a = cue_entry c" using assms(3) by blast
      have "instant x \<le> instant (snd a)" using oldest_is_first [OF r_def, of a] a x by simp
      then show "a \<in> cue_entry ` set ?late" using c by (auto simp: time_before_def)
    qed
    then have "card (set ?p) \<le> length ?late" by (meson card_image_le card_length card_mono finite_imageI finite_set le_trans)
    moreover have "card (set ?p) = length ?p" using wf by (simp add: distinct_map distinct_card)
    ultimately show ?thesis using assms(4) by simp
  qed
  then show ?thesis using assms(2) by (auto simp: remember_cue_def Let_def oldest_cue_def r_def [symmetric] delete_conv')
qed

lemma remember_cue_subset: "set (remember_cue cue played) \<subseteq> insert (cue_entry cue) (set played)"
  using update_entries(1) [of "pa_identity cue" "pa_expiresAt cue" played] by (auto simp: remember_cue_def Let_def AList.delete_eq)

text \<open>The table after the expired sounds have been deleted.\<close>

abbreviation live_cues :: "gotime \<Rightarrow> Gateway \<Rightarrow> (audioCueIdentity \<times> gotime) list" where
  "live_cues now g \<equiv> filter (\<lambda>(_, expiresAt). time_after expiresAt now) (gw_playedAudio g)"

lemma live_cues_bounds:
  assumes "sound_inv e g"
  shows "alist_wf (live_cues now g)" "length (live_cues now g) \<le> maxPlayedAudioCues"
  using assms le_trans [OF length_filter_le] by (auto simp: sound_inv_def alist_wf_filter)

lemma sound_inv_expire:
  assumes inv: "sound_inv e g"
  shows "sound_inv e (g\<lparr>gw_ticks := Suc (gw_ticks g), gw_playedAudio := live_cues (ge_now e (gw_ticks g)) g\<rparr>)" (is "sound_inv e ?g1")
proof -
  have "sounds_known e ?g1" if "ge_AudioDisplay e"
  proof -
    have known: "sounds_known e g" and wf: "alist_wf (gw_playedAudio g)" using inv that by (simp_all add: sound_inv_def)
    have "map_of (live_cues (ge_now e (gw_ticks g)) g) (pa_identity cue) = Some (pa_expiresAt cue) \<and> pa_identity cue \<notin> pa_identity ` set ys"
      if "plays (gw_calls g) = xs @ cue # ys" "sound_kept e ?g1 cue" for xs cue ys
    proof -
      have "sound_kept e g cue" by (rule sound_kept_earlier [OF that(2), where zs = "[]"]) simp_all
      then have "map_of (gw_playedAudio g) (pa_identity cue) = Some (pa_expiresAt cue) \<and> pa_identity cue \<notin> pa_identity ` set ys"
        using known that(1) unfolding sounds_known_def by blast
      moreover have "time_after (pa_expiresAt cue) (ge_now e (gw_ticks g))" using that(2) by (simp add: sound_kept_def)
      ultimately show ?thesis by (simp add: map_of_filter_key [OF wf])
    qed
    then show ?thesis using known unfolding sounds_known_def by auto
  qed
  then show ?thesis using live_cues_bounds [OF inv] inv by (auto simp: sound_inv_def)
qed

lemma sounds_known_remember:
  assumes "sounds_known e g" "alist_wf (gw_playedAudio g)" "map_of (gw_playedAudio g) (pa_identity cue) = None"
    and "gw_calls g' = gw_calls g @ [PlayCall cue r]" "gw_playedAudio g' = remember_cue cue (gw_playedAudio g)" "gw_ticks g \<le> gw_ticks g'"
  shows "sounds_known e g'"
  unfolding sounds_known_def
proof (intro conjI allI impI)
  have plays: "plays (gw_calls g') = plays (gw_calls g) @ [cue]" by (simp add: assms(4))
  have table: "set (gw_playedAudio g) \<subseteq> cue_entry ` set (plays (gw_calls g))" using assms(1) by (simp add: sounds_known_def)
  then show "set (gw_playedAudio g') \<subseteq> cue_entry ` set (plays (gw_calls g'))"
    using remember_cue_subset [of cue "gw_playedAudio g"] by (auto simp: assms(5) plays)
  fix xs x ys assume a: "plays (gw_calls g') = xs @ x # ys \<and> sound_kept e g' x"
  let ?p = "AList.update (pa_identity cue) (pa_expiresAt cue) (gw_playedAudio g)"
  have entries: "set ?p \<subseteq> cue_entry ` set (plays (gw_calls g'))"
    using table update_entries(1) [of "pa_identity cue" "pa_expiresAt cue" "gw_playedAudio g"] by (auto simp: plays)
  have room: "length (filter (\<lambda>c. \<not> time_before (pa_expiresAt c) (pa_expiresAt x)) (plays (gw_calls g'))) \<le> maxPlayedAudioCues"
    using a unfolding sound_kept_def by blast
  have "map_of ?p (pa_identity x) = Some (pa_expiresAt x) \<and> pa_identity x \<notin> pa_identity ` set ys"
  proof (cases ys rule: rev_cases)
    case Nil
    then show ?thesis using a plays by (simp add: update_conv')
  next
    case (snoc zs z)
    then have split: "plays (gw_calls g) = xs @ x # zs" "z = cue" using a plays by auto
    have "sound_kept e g x" by (rule sound_kept_earlier [OF _ assms(6) plays]) (use a in simp)
    then have "map_of (gw_playedAudio g) (pa_identity x) = Some (pa_expiresAt x) \<and> pa_identity x \<notin> pa_identity ` set zs"
      using assms(1) split(1) unfolding sounds_known_def by blast
    then show ?thesis using assms(3) snoc split(2) by (auto simp: update_conv')
  qed
  then show "map_of (gw_playedAudio g') (pa_identity x) = Some (pa_expiresAt x)" "pa_identity x \<notin> pa_identity ` set ys"
    using remember_cue_keeps [OF assms(2) _ entries room] by (simp_all add: assms(5))
qed

lemma playAudioCue_new:
  assumes "time_after (pa_expiresAt cue) (ge_now e (gw_ticks g))" "map_of (live_cues (ge_now e (gw_ticks g)) g) (pa_identity cue) = None"
  shows "gw_playedAudio (playAudioCue e (Some cue) g) = remember_cue cue (live_cues (ge_now e (gw_ticks g)) g)"
    and "gw_calls (playAudioCue e (Some cue) g) = gw_calls g @ (if ge_AudioDisplay e then [PlayCall cue (ge_reply e (Suc (gw_ticks g)))] else [])"
    and "Suc (gw_ticks g) \<le> gw_ticks (playAudioCue e (Some cue) g)"
  using assms by (auto simp: playAudioCue_def answer_def call_def Let_def split: option.splits)

lemma playAudioCue_old:
  assumes "\<not> (time_after (pa_expiresAt cue) (ge_now e (gw_ticks g)) \<and> map_of (live_cues (ge_now e (gw_ticks g)) g) (pa_identity cue) = None)"
  shows "playAudioCue e (Some cue) g = g\<lparr>gw_ticks := Suc (gw_ticks g), gw_playedAudio := live_cues (ge_now e (gw_ticks g)) g\<rparr>"
  using assms by (auto simp: playAudioCue_def answer_def Let_def)

lemma sound_inv_play:
  assumes inv: "sound_inv e g"
  shows "sound_inv e (playAudioCue e a g)"
proof (cases a)
  case None
  then show ?thesis using inv by (simp add: playAudioCue_def)
next
  case (Some cue)
  let ?live = "live_cues (ge_now e (gw_ticks g)) g"
  let ?g1 = "g\<lparr>gw_ticks := Suc (gw_ticks g), gw_playedAudio := ?live\<rparr>"
  let ?g' = "playAudioCue e (Some cue) g"
  have g1: "sound_inv e ?g1" by (rule sound_inv_expire [OF inv])
  show ?thesis
  proof (cases "time_after (pa_expiresAt cue) (ge_now e (gw_ticks g)) \<and> map_of ?live (pa_identity cue) = None")
    case False
    then show ?thesis using g1 by (simp add: Some playAudioCue_old)
  next
    case True
    note new = playAudioCue_new [OF True [THEN conjunct1] True [THEN conjunct2]]
    have "sounds_known e ?g'" if "ge_AudioDisplay e"
    proof (rule sounds_known_remember [where g = ?g1])
      show "sounds_known e ?g1" using g1 that by (simp add: sound_inv_def)
    qed (use True new that live_cues_bounds [OF inv] in auto)
    then show ?thesis
      using inv remember_cue_wf remember_cue_length live_cues_bounds [OF inv]
      by (auto simp: Some sound_inv_def new)
  qed
qed

lemma mute_scene_fields [simp]:
  "mute g (g'\<lparr>gw_hasScene := b\<rparr>) = mute g g'" "mute g (g'\<lparr>gw_lastDigest := d\<rparr>) = mute g g'"
  "mute g (g'\<lparr>gw_lastTopology := t\<rparr>) = mute g g'" "mute g (g'\<lparr>gw_lastPriority := p\<rparr>) = mute g g'"
  by (simp_all add: mute_def)

lemma mute_stopOwnedBusyTimer: "stopOwnedBusyTimer e g = (x, g') \<Longrightarrow> mute g g'"
  unfolding stopOwnedBusyTimer_def Let_def
  by (auto split: prod.splits sum.splits option.splits if_splits dest!: mute_snapshot_timestamp mute_calls intro: mute_trans)

lemma mute_startBusyTimer: "startBusyTimer e i theme d ms g = (res, g') \<Longrightarrow> mute g g'"
  unfolding startBusyTimer_def Let_def
  by (auto split: prod.splits sum.splits option.splits dest!: mute_calls mute_snapshot_timestamp mute_verifyBusyTimer) (auto simp: mute_def)

lemma mute_renderBusyTimer: "renderBusyTimer e c theme g = (res, g') \<Longrightarrow> mute g g'"
  unfolding renderBusyTimer_def Let_def
  by (auto split: if_splits option.splits prod.splits dest!: mute_answer mute_startBusyTimer intro: mute_trans)

lemma mute_render_none: "render_none e g = (res, g') \<Longrightarrow> mute g g'"
  unfolding render_none_def
  by (auto split: prod.splits option.splits sum.splits if_splits dest!: mute_stopOwnedBusyTimer mute_calls(4) intro: mute_trans)

lemma sound_inv_fields [simp]: "sound_inv e (g\<lparr>gw_hasScene := b\<rparr>) = sound_inv e g" "sound_inv e (g\<lparr>gw_lastDigest := d\<rparr>) = sound_inv e g"
  "sound_inv e (g\<lparr>gw_lastTopology := t\<rparr>) = sound_inv e g" "sound_inv e (g\<lparr>gw_lastPriority := p\<rparr>) = sound_inv e g"
  "sound_inv e (resetScene g) = sound_inv e g" "sound_inv e (resetBusyTimer g) = sound_inv e g"
  "sound_inv e (g\<lparr>gw_busyDigest := d\<rparr>) = sound_inv e g"
  by (simp_all add: sound_inv_def sound_kept_def sounds_known_def resetScene_def resetBusyTimer_def)

lemma sound_inv_draw_request: "draw_request e req d t audio g = (res, g') \<Longrightarrow> sound_inv e g \<Longrightarrow> sound_inv e g'"
  unfolding draw_request_def
  by (auto split: prod.splits reply.splits dest!: mute_calls(5) intro!: sound_inv_play intro: sound_inv_mute)

lemma sound_inv_place_request: "place_request e req d t audio g = (res, g') \<Longrightarrow> sound_inv e g \<Longrightarrow> sound_inv e g'"
  unfolding place_request_def
  by (auto split: prod.splits option.splits if_splits dest!: mute_calls(4) sound_inv_draw_request intro: sound_inv_mute)

lemma sound_inv_render_scene: "render_scene e rs req audio g = (res, g') \<Longrightarrow> sound_inv e g \<Longrightarrow> sound_inv e g'"
  unfolding render_scene_def Let_def
  by (auto split: prod.splits option.splits sum.splits if_splits dest!: mute_stopOwnedBusyTimer sound_inv_place_request
      intro!: sound_inv_play intro: sound_inv_mute)

lemma sound_inv_Render: "gateway_Render e c g = (res, g') \<Longrightarrow> sound_inv e g \<Longrightarrow> sound_inv e g'"
  unfolding gateway_Render_def
  by (auto split: prod.splits option.splits sum.splits if_splits dest!: mute_compileCandidate mute_renderBusyTimer mute_render_none
      intro!: sound_inv_play intro: sound_inv_mute sound_inv_render_scene)

interpretation sounds: invariant_machine "gateway_step e" "newGateway d r" "sound_inv e"
proof unfold_locales
  show "sound_inv e (newGateway d r)" by (simp add: sound_inv_def sounds_known_def newGateway_def)
next
  fix ev g g' assume inv: "sound_inv e g" and step: "gateway_step e ev g = Some g'"
  have events: "mute g (g\<lparr>gw_calls := gw_calls g @ [c]\<rparr>)" if "played_by c = []" for c using that by (simp add: mute_def)
  show "sound_inv e g'"
  proof (cases ev)
    case (RenderEvent c)
    then show ?thesis using step inv sound_inv_Render [of e c g "fst (gateway_Render e c g)" g'] by (auto simp: gateway_step_def)
  qed (use step sound_inv_mute [OF events inv] in \<open>auto simp: gateway_step_def InvalidateCanvas_def gateway_InvalidateConnection_def\<close>)
qed

end
