(* ===== verification/DeviceOutput.thy ===== *)
theory DeviceOutput
  imports DeviceCues
begin

text \<open>
  The properties of the device gateway: what it reports to the engine is true of the canvas, it answers as the
  engine expects, it stops only timers it has started, and it does not repeat a sound.
\<close>

subsection \<open>An upserting device\<close>

text \<open>
  A device that satisfies \<open>in_place\<close>: it writes each element over the one of the same identifier, unless that one has a
  higher priority. What a refused request leaves is a parameter.
\<close>

definition upsert :: "DisplayElements \<Rightarrow> canvas \<Rightarrow> canvas" where
  "upsert r c = (\<lambda>i. case shown r i of None \<Rightarrow> c i
     | Some (p, d) \<Rightarrow> (case c i of Some (q, x) \<Rightarrow> if q \<le> p then Some (p, d) else Some (q, x) | None \<Rightarrow> Some (p, d)))"

definition upserting :: "(canvas \<Rightarrow> canvas) \<Rightarrow> canvas_device" where
  "upserting refuse = \<lparr>cv_paint = upsert, cv_refused = (\<lambda>_. refuse)\<rparr>"

lemma dom_shown: "dom (shown r) = (\<lambda>d. base_ID (draw_base d)) ` set (de_Elements r)"
  by (auto simp: shown_def dom_map_of_conv_image_fst image_image)

lemma shown_priority: "shown r i = Some (p, d) \<Longrightarrow> p = de_Priority r \<and> d \<in> set (de_Elements r)"
  by (auto simp: shown_def dest!: map_of_SomeD)

lemma draw_topology_ids: "draw_topology (de_Elements r) = draw_topology (de_Elements r') \<Longrightarrow> dom (shown r) = dom (shown r')"
proof -
  assume "draw_topology (de_Elements r) = draw_topology (de_Elements r')"
  then have "fst ` set (draw_topology (de_Elements r)) = fst ` set (draw_topology (de_Elements r'))" by simp
  then show ?thesis by (simp add: dom_shown draw_topology_def image_image)
qed

lemma upsert_empty: "upsert r Map.empty = shown r"
  by (auto simp: upsert_def fun_eq_iff split: option.splits)

lemma upsert_in_place: "in_place (upserting refuse)"
  unfolding in_place_def
proof (intro conjI allI impI)
  fix r r' :: DisplayElements assume a: "draw_topology (de_Elements r) = draw_topology (de_Elements r') \<and> de_Priority r' \<le> de_Priority r"
  then have "dom (shown r) = dom (shown r')" using draw_topology_ids by blast
  then have "shown r i = None \<longleftrightarrow> shown r' i = None" for i by blast
  then show "cv_paint (upserting refuse) r (shown r') = shown r"
    using a shown_priority by (fastforce simp: upserting_def upsert_def fun_eq_iff split: option.splits)
qed (simp add: upserting_def upsert_empty)

subsection \<open>What was reported is on the canvas\<close>

text \<open>(C14) When the gateway reports a scene as drawn, the canvas shows exactly the elements that the scene compiles to, with its
  priority, whatever draws and clears failed before, with or without effect: an element of an older scene never remains.
  The device updates elements in place unless the priority drops, the resolver keeps the elements, and the hash separates
  the topologies of the run. Two conditions are on the run: a draw that the firmware refused has left the canvas empty,
  and after a draw that took effect although the gateway saw an error no draw of lower priority was sent.\<close>

theorem drawn_scene_is_shown:
  assumes "in_place dev" "resolver_keeps e" "reaches (gateway_step e) (newGateway True True) g"
    and "gateway_Render e (Some c) g = ((OutcomeDrawn, None), g')" "cd_BusyTimer c = None"
    and "topologies_separate e (gw_calls g')" "refusals_clean dev (gw_calls g')" "draws_level (gw_calls g')"
  shows "\<exists>req. scene_request e c g = Some req \<and> canvas_of dev (gw_calls g') = shown req"
proof -
  have run: "orderly e dev (gw_calls g')" using assms(6-8) by (simp add: orderly_def)
  have "canvas_inv e dev g" by (rule run_canvas_inv [OF assms(1-3) orderly_mono [OF run gateway_Render_grows [OF assms(4)]]])
  then show ?thesis using gateway_Render_canvas [OF assms(1,2,4) run] assms(5) by simp
qed

text \<open>(C27) When the gateway reports a scene as unchanged, without a call to the device, the canvas shows exactly that scene,
  provided no earlier draw or clear failed after the device had carried it out, every draw that the firmware refused has left the canvas
  empty, and the hash separates the requests of the run.\<close>

theorem unchanged_scene_is_shown:
  assumes "in_place dev" "resolver_keeps e" "reaches (gateway_step e) (newGateway True True) g"
    and "gateway_Render e (Some c) g = ((OutcomeUnchanged, None), g')" "scene_request e c g = Some req" "cd_BusyTimer c = None"
    and "topologies_separate e (gw_calls g)" "requests_separate e (req # drawn (gw_calls g))" "no_ghosts (gw_calls g)"
    and "refusals_clean dev (gw_calls g)"
  shows "canvas_of dev (gw_calls g') = shown req"
proof -
  have "orderly e dev (gw_calls g)" using assms(7,9,10) no_ghosts_level by (simp add: orderly_def)
  then have inv: "digest_inv e dev g" by (rule run_digest_inv [OF assms(1-3) _ assms(9)])
  from assms(4) show ?thesis
  proof (cases rule: gateway_Render_cases)
    case (scene rs req' audio g1)
    from scene(7) show ?thesis
    proof (cases rule: render_scene_cases)
      case unchanged
      have "gw_lastDigest g1 = gw_lastDigest g" "req' = req" using scene(3,5) assms(5) by (auto simp: quiet_def same_scene_def)
      then have digest: "request_digest e req = Some (gw_lastDigest g)" using unchanged by simp
      then have "gw_lastDigest g \<noteq> zero_digest" using assms(8) by (auto simp: requests_separate_def)
      then obtain r where r: "r \<in> set (drawn (gw_calls g))" "canvas_of dev (gw_calls g) = shown r"
          "request_digest e r = request_digest e req"
        using inv digest by (auto simp: digest_inv_def)
      then have "shown r = shown req" using requests_separateD [OF assms(8), of r req] by simp
      moreover have "quiet g g'" using scene(3) unchanged(1) by (rule quiet_trans)
      ultimately show ?thesis using r by (simp add: quiet_canvas)
    qed (auto dest: place_request_outcome)
  qed (use assms(6) in auto)
qed

text \<open>(C17) When the gateway is asked to show nothing and reports no error, the canvas is empty and the gateway owns neither
  a scene nor a timer, even if earlier calls were lost or carried out unseen, and whatever the device paints, provided
  that every draw that the firmware refused has left the canvas empty.\<close>

theorem cleared_device_is_empty:
  assumes "reaches (gateway_step e) (newGateway True True) g" "gateway_Render e None g = ((outcome, None), g')"
    and "refusals_clean dev (gw_calls g')"
  shows "canvas_of dev (gw_calls g') = Map.empty \<and> \<not> gw_hasScene g' \<and> gw_busyCardID g' = ''''"
proof -
  have "reaches (gateway_step e) (newGateway True True) g'"
    using assms(1) by (rule reaches_step [where e = "RenderEvent None"]) (simp add: gateway_step_def assms(2))
  from canvas.reach_inv [OF this] have "canvas_known dev g'" using assms(3) by blast
  moreover have "\<not> gw_hasScene g' \<and> gw_busyCardID g' = ''''"
  proof -
    have "render_none e g = ((outcome, None), g')" using assms(2) by (simp add: gateway_Render_def split: if_splits)
    then show ?thesis by (cases rule: render_none_cases) (auto simp: wiped_def)
  qed
  ultimately show ?thesis by (simp add: canvas_known_def)
qed

subsection \<open>The contract with the engine\<close>

lemma compile_failure:
  "compile_visual e c g = (Inl res, g') \<Longrightarrow> validateRenderResult x res \<and> snd res \<noteq> None"
  "compileAudioCue e c g = (Inl res, g') \<Longrightarrow> validateRenderResult x res \<and> snd res \<noteq> None"
  by (auto simp: compile_visual_def compileAudioCue_def validateRenderResult_def split: if_splits option.splits sum.splits prod.splits)

lemma render_none_contract: "validateRenderResult None (fst (render_none e g))"
  by (auto simp: render_none_def validateRenderResult_def split: sum.splits prod.splits option.splits)

lemma draw_request_contract: "validateRenderResult (Some c) (fst (draw_request e req d t audio g))"
  by (auto simp: draw_request_def validateRenderResult_def split: prod.splits reply.splits)

lemma place_request_contract: "validateRenderResult (Some c) (fst (place_request e req d t audio g))"
  using draw_request_contract by (auto simp: place_request_def validateRenderResult_def [of _ "(OutcomeDeviceUnavailable, Some _)"]
      split: prod.splits option.splits)

lemma render_scene_contract: "validateRenderResult (Some c) (fst (render_scene e rs req audio g))"
  using place_request_contract by (auto simp: render_scene_def Let_def validateRenderResult_def [of _ "(_ :: DeliveryOutcome, _)"]
      split: prod.splits option.splits sum.splits)

lemma startBusyTimer_contract: "validateRenderResult (Some c) (fst (startBusyTimer e i theme d ms g))"
  by (auto simp: startBusyTimer_def Let_def validateRenderResult_def split: prod.splits option.splits sum.splits)

lemma renderBusyTimer_contract: "validateRenderResult (Some c) (fst (renderBusyTimer e x theme g))"
  using startBusyTimer_contract by (auto simp: renderBusyTimer_def Let_def validateRenderResult_def [of _ "(_ :: DeliveryOutcome, _)"]
      split: prod.splits option.splits)

lemma gateway_contract: "validateRenderResult c (fst (gateway_Render e c g))"
proof (cases c)
  case None
  then show ?thesis using render_none_contract by (auto simp: gateway_Render_def validateRenderResult_def)
next
  case (Some x)
  obtain r g0 where v: "compile_visual e x g = (r, g0)" by (cases "compile_visual e x g")
  obtain r1 g1 where a: "compileAudioCue e x g0 = (r1, g1)" by (cases "compileAudioCue e x g0")
  show ?thesis
  proof (cases "\<not> gw_display g \<or> cd_Validate x \<noteq> [] \<or> isl r \<or> isl r1")
    case True
    then show ?thesis using compile_failure(1) [of e x g _ g0 c] compile_failure(2) [of e x g0 _ g1 c] v a
      by (auto simp: Some gateway_Render_def compileCandidate_def validateRenderResult_def split: sum.splits)
  next
    case False
    then obtain y cue where ready: "gw_display g" "cd_Validate x = []" "r = Inr y" "r1 = Inr cue" by (cases r; cases r1) auto
    show ?thesis
    proof (cases "cd_BusyTimer x")
      case (Some theme)
      then show ?thesis using renderBusyTimer_contract [of x e x theme g1] ready v a
        by (auto simp: \<open>c = Some x\<close> gateway_Render_def compileCandidate_def split: prod.splits option.splits)
    next
      case None
      then show ?thesis using render_scene_contract [of x e _ _ cue g1] ready v a
        by (auto simp: \<open>c = Some x\<close> gateway_Render_def compileCandidate_def validateRenderResult_def [of _ "(OutcomeInvalidPresentation, _)"]
            split: option.splits prod.splits)
    qed
  qed
qed

text \<open>A renderer all of whose answers are answers of a gateway.\<close>

definition rendered_by_gateway :: "gateway_env \<Rightarrow> Env \<Rightarrow> bool" where
  "rendered_by_gateway ge env \<longleftrightarrow> (\<forall>n c. \<exists>g. env_render env n c = fst (gateway_Render ge c g))"

lemma render_clear_contract:
  assumes "\<And>n c. validateRenderResult c (env_render env n c)"
  shows "render_clear env now decision e = (err, e') \<Longrightarrow> err \<noteq> Some ErrInvalidRendererResult"
  using assms [of None] by (auto simp: render_clear_def engine_render_def Let_def split: option.splits)

lemma render_winner_contract:
  assumes "\<And>n c. validateRenderResult c (env_render env n c)"
  shows "render_winner env now records decision w e = Inl (err, e') \<Longrightarrow> err \<noteq> Some ErrInvalidRendererResult"
  using assms [of "Some w"] by (auto simp: render_winner_def engine_render_def Let_def split: option.splits if_splits)

lemma step_once_contract:
  assumes contract: "\<And>n c. validateRenderResult c (env_render env n c)" and step: "step_once env now records e = Inl (err, e')"
  shows "err \<noteq> Some ErrInvalidRendererResult"
proof -
  note clear = render_clear_contract [of env now, OF contract]
  note winner = render_winner_contract [of env now records, OF contract]
  obtain cooling e1 where c: "presentationCooldownActive now e = (cooling, e1)" by (cases "presentationCooldownActive now e")
  show ?thesis
  proof (cases "fst (attention_Select records (resolveRecord env e) (en_history e) now)")
    case None
    then show ?thesis using step unfolding step_once_def Let_def c by (auto split: if_splits dest: clear)
  next
    case (Some w)
    then show ?thesis using step unfolding step_once_def Let_def c
      by (auto split: if_splits prod.splits bool.splits dest: clear winner)
  qed
qed

lemma step_loop_contract:
  assumes "\<And>n c. validateRenderResult c (env_render env n c)"
  shows "step_loop fuel env now records sequence e = Some (sq, err, e') \<Longrightarrow> err \<noteq> Some ErrInvalidRendererResult"
proof (induction fuel arbitrary: records sequence e)
  case (Suc fuel)
  then show ?case
    using step_once_contract [OF assms, of now records e] by (auto split: sum.splits prod.splits)
qed simp

text \<open>(C29) The gateway answers every call within the contract that the engine checks: a step of an engine that renders
  through it never ends with the error of an invalid renderer result.\<close>

theorem engine_accepts_gateway:
  assumes "rendered_by_gateway ge env" "engine_step fuel env now e = Some (sq, err, e')"
  shows "err \<noteq> Some ErrInvalidRendererResult"
proof -
  have "validateRenderResult c (env_render env n c)" for n c
    using assms(1) gateway_contract unfolding rendered_by_gateway_def by metis
  moreover obtain records sequence e1 where "engine_step fuel env now e = step_loop fuel env now records sequence e1"
    using engine_step_loop by (metis surj_pair)
  ultimately show ?thesis using assms(2) step_loop_contract [of env fuel now] by metis
qed

subsection \<open>A device to try it on\<close>

definition demo_gateway :: "(nat \<Rightarrow> reply) \<Rightarrow> gateway_env" where
  "demo_gateway replies =
     \<lparr>ge_lib = \<lparr>bl_Validate = (\<lambda>_. True), bl_Warnings = (\<lambda>_. False), bl_ThemeValid = (\<lambda>_. True), bl_AudioValid = (\<lambda>_. True)\<rparr>,
      ge_sha256 = (\<lambda>s. CHR ''h'' # s),
      ge_json_request = (\<lambda>r. Some (concat (map (\<lambda>d. case d of DrawRectangle b x \<Rightarrow> concat (dr_FillColors x) | _ \<Rightarrow> '''') (de_Elements r)))),
      ge_json_topology = (\<lambda>t. concat (map fst t)),
      ge_json_timer = (\<lambda>i t _. Some (i @ t)), ge_parse = (\<lambda>_. Some \<lparr>instant = 62135596800 * second, zone_offset = 0\<rparr>),
      ge_BusyTimerDisplay = True, ge_AudioDisplay = True, ge_AudioAssetResolver = True,
      ge_now = (\<lambda>_. zero_time), ge_reply = replies,
      ge_busy = (\<lambda>_. Inr \<lparr>sn_TimestampMS = 0, sn_Type = BusySnapshotNotStarted, sn_CardID = '''', sn_TimeLeftMS = None,
        sn_IsPaused = None, sn_BusyBarSettings = \<lparr>bs_Theme = '''', bs_rest = ''''\<rparr>\<rparr>),
      ge_time = (\<lambda>_. Inr ''''), ge_wait = (\<lambda>_. None),
      ge_ResolveScene = (\<lambda>_ _ s. Some (scene_ResolveScene s)),
      ge_ResolveAudioCue = (\<lambda>_ _ c. Some \<lparr>ra_AudioCue = c, ra_Path = StockName (audio_Asset c)\<rparr>)\<rparr>"

definition demo_box :: "string \<Rightarrow> Candidate" where
  "demo_box color = demo_call\<lparr>cd_BusyTimer := None,
     cd_Scene := [demo_badge\<lparr>el_Rectangle := Some \<lparr>rect_Width = 1, rect_Height = 1, rect_Color = color\<rparr>\<rparr>]\<rparr>"

definition demo_green :: Candidate where "demo_green = demo_box ''#00FF00FF''"
definition demo_red :: Candidate where "demo_red = demo_box ''#FF0000FF''"

definition demo_fill :: "string \<Rightarrow> DisplayElement" where
  "demo_fill color = DrawRectangle \<lparr>base_ID = ''badge'', base_X = 71, base_Y = 15, base_Display = DisplayFront, base_Align = ''''\<rparr>
     \<lparr>dr_Width = 1, dr_Height = 1, dr_Fill = RectangleFillSolid, dr_FillColors = [color], dr_BorderWidth = 0\<rparr>"

lemma demo_green_valid: "cd_Validate demo_green = []" "cd_Validate demo_red = []"
  by (simp_all add: validate_eval cd_Validate_def cd_require_def cd_name_errors_def demo_green_def demo_red_def demo_box_def demo_call_def demo_badge_def BandFor_def
      Identifier.Validate_def MaxBytes_def scene_Validate_def)

definition demo_draw :: "string \<Rightarrow> DisplayElements" where
  "demo_draw color = \<lparr>de_ApplicationName = ''bsbctl'', de_Priority = 100, de_Elements = [demo_fill color]\<rparr>"

lemma demo_box_request:
  assumes "gw_assets g" "color \<noteq> ''''"
  shows "scene_request (demo_gateway replies) (demo_box color) g = Some (demo_draw color)"
  using assms by (simp add: scene_request_def resolved_scene_def demo_gateway_def scene_ResolveScene_def CompileScene_def compile_element_def
      demo_box_def demo_call_def demo_badge_def compile_base_def compile_rectangle_def demo_draw_def demo_fill_def Let_def
      EffectiveDevicePriority_def device_ApplicationName_def)

lemma demo_Render:
  assumes "gw_display g" "gw_assets g" "gw_busyCardID g = ''''" "cd_Validate (demo_box color) = []" "color \<noteq> ''''"
  defines "g1 \<equiv> g\<lparr>gw_ticks := Suc (gw_ticks g)\<rparr>"
  shows "gateway_Render (demo_gateway replies) (Some (demo_box color)) g =
    (if gw_hasScene g \<and> CHR ''h'' # color = gw_lastDigest g then ((OutcomeUnchanged, None), g1)
     else place_request (demo_gateway replies) (demo_draw color) (CHR ''h'' # color) ''hbadge'' None g1)"
proof -
  have visual: "compile_visual (demo_gateway replies) (demo_box color) g =
      (Inr (Some (scene_ResolveScene (cd_Scene (demo_box color)), demo_draw color)), g1)"
    using assms by (simp add: compile_visual_def demo_gateway_def scene_ResolveScene_def CompileScene_def compile_element_def answer_def
        demo_box_def demo_call_def demo_badge_def compile_base_def compile_rectangle_def demo_draw_def demo_fill_def Let_def
        EffectiveDevicePriority_def device_ApplicationName_def)
  have audio: "compileAudioCue (demo_gateway replies) (demo_box color) g1 = (Inr None, g1)"
    by (simp add: compileAudioCue_def demo_box_def demo_call_def)
  have digest: "ge_json_request (demo_gateway replies) (demo_draw color) = Some color"
      "ge_json_topology (demo_gateway replies) (sceneTopology (scene_ResolveScene (cd_Scene (demo_box color)))) = ''badge''"
    by (simp_all add: demo_gateway_def demo_draw_def demo_fill_def sceneTopology_def scene_ResolveScene_def demo_box_def demo_badge_def)
  have sha: "ge_sha256 (demo_gateway replies) s = CHR ''h'' # s" for s by (simp add: demo_gateway_def)
  show ?thesis
    using assms visual audio digest
    by (simp add: gateway_Render_def compileCandidate_def render_scene_def sha Let_def stopOwnedBusyTimer_def playAudioCue_def
        demo_box_def [THEN arg_cong [where f = cd_BusyTimer]])
qed

definition demo_drawn :: Gateway where
  "demo_drawn = (newGateway True True)\<lparr>gw_hasScene := True, gw_lastDigest := ''h#00FF00FF'', gw_lastTopology := ''hbadge'',
     gw_lastPriority := 100, gw_ticks := 2, gw_calls := [DrawCall (demo_draw ''#00FF00FF'') Done]\<rparr>"

lemma demo_draws: "replies 1 = Done \<Longrightarrow>
  gateway_Render (demo_gateway replies) (Some demo_green) (newGateway True True) = ((OutcomeDrawn, None), demo_drawn)"
  unfolding demo_green_def
  by (subst demo_Render) (simp_all add: demo_green_valid [unfolded demo_green_def] newGateway_def place_request_def draw_request_def call_def playAudioCue_def
      demo_gateway_def demo_drawn_def demo_draw_def)

lemma demo_gateway_keeps: "resolver_keeps (demo_gateway replies)"
  by (simp add: resolver_keeps_def demo_gateway_def scene_ResolveScene_def comp_def)

lemma demo_topology: "draw_topology (de_Elements (demo_draw color)) = [(''badge'', ''rectangle'', DisplayFront)]"
    "topo_digest (demo_gateway replies) (demo_draw color) = ''hbadge''"
  by (simp_all add: topo_digest_def demo_gateway_def demo_draw_def demo_fill_def draw_topology_def)

lemma demo_boxes_separate: "set (drawn calls) \<subseteq> range demo_draw \<Longrightarrow> topologies_separate (demo_gateway replies) calls"
proof -
  assume boxes: "set (drawn calls) \<subseteq> range demo_draw"
  have "''hbadge'' \<noteq> zero_digest" by (simp add: zero_digest_def numeral_eq_Suc)
  moreover have "\<exists>color. r = demo_draw color" if "r \<in> set (drawn calls)" for r using that boxes by auto
  ultimately show ?thesis unfolding topologies_separate_def by (metis demo_topology)
qed

theorem drawn_scene_is_shown_witness:
  "canvas_of (upserting id) (gw_calls demo_drawn) = shown (demo_draw ''#00FF00FF'')"
proof -
  let ?e = "demo_gateway (\<lambda>_. Done)"
  have "\<exists>req. scene_request ?e demo_green (newGateway True True) = Some req \<and> canvas_of (upserting id) (gw_calls demo_drawn) = shown req"
    by (rule drawn_scene_is_shown [OF upsert_in_place demo_gateway_keeps reaches_refl demo_draws])
      (simp_all add: demo_green_def demo_box_def demo_boxes_separate demo_drawn_def refusals_clean_def)
  then show ?thesis by (simp add: demo_green_def demo_box_request newGateway_def demo_draw_def)
qed

lemma demo_repeats: "gateway_Render (demo_gateway replies) (Some demo_green) demo_drawn = ((OutcomeUnchanged, None), demo_drawn\<lparr>gw_ticks := 3\<rparr>)"
  unfolding demo_green_def
  by (subst demo_Render) (simp_all add: demo_green_valid [unfolded demo_green_def] demo_drawn_def newGateway_def)

lemma demo_drawn_reached: "replies 1 = Done \<Longrightarrow> reaches (gateway_step (demo_gateway replies)) (newGateway True True) demo_drawn"
  using demo_draws by (intro reachesI [where evs = "[RenderEvent (Some demo_green)]"]) (simp add: gateway_step_def)

theorem unchanged_scene_is_shown_witness:
  "canvas_of (upserting id) (gw_calls (demo_drawn\<lparr>gw_ticks := 3\<rparr>)) = shown (demo_draw ''#00FF00FF'')"
proof (rule unchanged_scene_is_shown [OF upsert_in_place demo_gateway_keeps demo_drawn_reached demo_repeats])
  show "(\<lambda>_. Done) 1 = Done" by simp
  show "scene_request (demo_gateway (\<lambda>_. Done)) demo_green demo_drawn = Some (demo_draw ''#00FF00FF'')"
    by (simp add: demo_green_def demo_box_request demo_drawn_def newGateway_def)
  show "cd_BusyTimer demo_green = None" by (simp add: demo_green_def demo_box_def)
  show "topologies_separate (demo_gateway (\<lambda>_. Done)) (gw_calls demo_drawn)" by (simp add: demo_boxes_separate demo_drawn_def)
  show "requests_separate (demo_gateway (\<lambda>_. Done)) (demo_draw ''#00FF00FF'' # drawn (gw_calls demo_drawn))"
    by (simp add: requests_separate_def request_digest_def demo_drawn_def demo_gateway_def demo_draw_def demo_fill_def zero_digest_def numeral_eq_Suc)
  show "no_ghosts (gw_calls demo_drawn)" by (simp add: no_ghosts_def demo_drawn_def)
  show "refusals_clean (upserting id) (gw_calls demo_drawn)" by (simp add: refusals_clean_def demo_drawn_def)
qed

text \<open>
  The green box is on the display; the red one is drawn, but the reply is lost. When the green box is selected
  again, the gateway takes it for unchanged, and the red one stays.
\<close>

theorem lost_draw_stays_on_screen:
  defines "e \<equiv> demo_gateway (\<lambda>n. if n = 3 then Failed ErrCanceled True else Done)"
  shows "\<exists>g g'. reaches (gateway_step e) (newGateway True True) g \<and>
    gateway_Render e (Some demo_green) g = ((OutcomeUnchanged, None), g') \<and>
    canvas_of (upserting id) (gw_calls g') = shown (demo_draw ''#FF0000FF'')"
proof -
  let ?lost = "demo_drawn\<lparr>gw_ticks := 4, gw_calls := [DrawCall (demo_draw ''#00FF00FF'') Done,
    DrawCall (demo_draw ''#FF0000FF'') (Failed ErrCanceled True)]\<rparr>"
  have first: "reaches (gateway_step e) (newGateway True True) demo_drawn" unfolding e_def by (rule demo_drawn_reached) simp
  have second: "gateway_Render e (Some demo_red) demo_drawn = ((OutcomeDeviceUnavailable, Some ErrCanceled), ?lost)"
    unfolding e_def demo_red_def
    by (subst demo_Render) (simp_all add: demo_green_valid [unfolded demo_red_def] demo_drawn_def newGateway_def place_request_def
        draw_request_def call_def demo_gateway_def demo_draw_def)
  have "gateway_Render e (Some demo_green) ?lost = ((OutcomeUnchanged, None), ?lost\<lparr>gw_ticks := 5\<rparr>)"
    unfolding e_def demo_green_def
    by (subst demo_Render) (simp_all add: demo_green_valid [unfolded demo_green_def] demo_drawn_def newGateway_def)
  moreover have "reaches (gateway_step e) (newGateway True True) ?lost"
    using first by (rule reaches_step [where e = "RenderEvent (Some demo_red)"]) (simp add: gateway_step_def second)
  moreover have "canvas_of (upserting id) (gw_calls (?lost\<lparr>gw_ticks := 5\<rparr>)) = shown (demo_draw ''#FF0000FF'')"
    by (auto simp: canvas_of_def upserting_def upsert_def shown_def demo_draw_def demo_fill_def fun_eq_iff split: option.splits)
  ultimately show ?thesis by blast
qed

theorem cleared_device_is_empty_witness:
  "canvas_of (upserting id) (gw_calls (snd (gateway_Render (demo_gateway (\<lambda>_. Done)) None demo_drawn))) = Map.empty"
proof -
  let ?e = "demo_gateway (\<lambda>_. Done)"
  let ?g = "snd (gateway_Render ?e None demo_drawn)"
  have "gateway_Render ?e None demo_drawn = ((OutcomeCleared, None), ?g)"
    by (simp add: gateway_Render_def render_none_def stopOwnedBusyTimer_def call_def demo_drawn_def newGateway_def demo_gateway_def)
  moreover have "refusals_clean (upserting id) (gw_calls ?g)"
    by (simp add: gateway_Render_def render_none_def stopOwnedBusyTimer_def call_def demo_drawn_def newGateway_def demo_gateway_def resetScene_def
        refusals_clean_def)
  ultimately show ?thesis using cleared_device_is_empty [OF demo_drawn_reached, of "\<lambda>_. Done"] by blast
qed

text \<open>
  The green box is on the display and the firmware refuses the red one. If the refusal leaves the green box, it stays:
  the gateway has forgotten it, and when nothing is selected any more it does not clear the canvas.
\<close>

theorem refused_draw_leaves_scene:
  defines "e \<equiv> demo_gateway (\<lambda>n. if n = 3 then Conflict else Done)"
  shows "\<exists>g g'. reaches (gateway_step e) (newGateway True True) g \<and>
    gateway_Render e None g = ((OutcomeUnchanged, None), g') \<and>
    canvas_of (upserting id) (gw_calls g') = shown (demo_draw ''#00FF00FF'')"
proof -
  let ?refused = "(newGateway True True)\<lparr>gw_ticks := 4, gw_calls := [DrawCall (demo_draw ''#00FF00FF'') Done, DrawCall (demo_draw ''#FF0000FF'') Conflict]\<rparr>"
  have first: "reaches (gateway_step e) (newGateway True True) demo_drawn" unfolding e_def by (rule demo_drawn_reached) simp
  have second: "gateway_Render e (Some demo_red) demo_drawn = ((OutcomeFirmwareSuppressed, None), ?refused)"
    unfolding e_def demo_red_def
    by (subst demo_Render) (simp_all add: demo_green_valid [unfolded demo_red_def] demo_drawn_def newGateway_def place_request_def
        draw_request_def call_def demo_gateway_def demo_draw_def resetScene_def resetBusyTimer_def)
  have "reaches (gateway_step e) (newGateway True True) ?refused"
    using first by (rule reaches_step [where e = "RenderEvent (Some demo_red)"]) (simp add: gateway_step_def second)
  moreover have "gateway_Render e None ?refused = ((OutcomeUnchanged, None), ?refused)"
    by (simp add: gateway_Render_def render_none_def stopOwnedBusyTimer_def newGateway_def)
  moreover have "canvas_of (upserting id) (gw_calls ?refused) = shown (demo_draw ''#00FF00FF'')"
    by (simp add: canvas_of_def upserting_def upsert_empty)
  ultimately show ?thesis by blast
qed

definition demo_gateway_renderer :: Env where
  "demo_gateway_renderer = demo_env\<lparr>env_render := (\<lambda>_ c. fst (gateway_Render (demo_gateway (\<lambda>_. Done)) c (newGateway False True)))\<rparr>"

lemma demo_gateway_step: "map_option (\<lambda>(_, err, _). err) (engine_step 1 demo_gateway_renderer demo_time demo_engine) = Some (Some (RenderFailed ErrDevice))"
  by code_simp

theorem engine_accepts_gateway_witness:
  "\<exists>sq err e'. engine_step 1 demo_gateway_renderer demo_time demo_engine = Some (sq, err, e') \<and> err \<noteq> Some ErrInvalidRendererResult"
proof -
  have "rendered_by_gateway (demo_gateway (\<lambda>_. Done)) demo_gateway_renderer"
    by (auto simp: rendered_by_gateway_def demo_gateway_renderer_def)
  then show ?thesis using demo_gateway_step engine_accepts_gateway by (fastforce simp: map_option_case split: option.splits)
qed

subsection \<open>Timers and sounds\<close>

text \<open>(C28) The gateway stops a native timer only right after reading back a card that it has itself started; a timer that
  the user or another application has started is never stopped.\<close>

theorem stops_only_own_timer:
  assumes "reaches (gateway_step e) (newGateway True True) g" "i < length (gw_calls g)" "stops (gw_calls g ! i)"
  shows "read_own_card (gw_calls g) i"
  using timers.reach_inv [OF assms(1)] assms(2,3) by (simp add: timer_inv_def)

text \<open>(C30) The table of played sounds never holds more than 256 entries. A sound that was played is not played again, however
  often its scene is rendered, as long as no clock reading has reached its expiry and at most 256 sounds that expire no
  earlier were played: sounds that expire earlier, or have expired, never displace it.\<close>

theorem sound_played_once:
  assumes "reaches (gateway_step e) (newGateway True True) g"
  shows "length (gw_playedAudio g) \<le> 256 \<and>
    (plays (gw_calls g) = before @ cue # after \<and> (\<forall>n<gw_ticks g. time_after (pa_expiresAt cue) (ge_now e n)) \<and>
     length (filter (\<lambda>c. \<not> time_before (pa_expiresAt c) (pa_expiresAt cue)) (plays (gw_calls g))) \<le> 256 \<longrightarrow>
       pa_identity cue \<notin> pa_identity ` set after)"
proof -
  have inv: "sound_inv e g" by (rule sounds.reach_inv [OF assms])
  have "pa_identity cue \<notin> pa_identity ` set after" if "plays (gw_calls g) = before @ cue # after" "sound_kept e g cue"
    using inv that by (cases "ge_AudioDisplay e") (auto simp: sound_inv_def sounds_known_def)
  then show ?thesis using inv by (auto simp: sound_inv_def sound_kept_def maxPlayedAudioCues_def)
qed

text \<open>A meeting with a native timer and a sound.\<close>

definition demo_soon :: gotime where "demo_soon = \<lparr>instant = 60 * second, zone_offset = 0\<rparr>"

definition demo_meeting :: Candidate where
  "demo_meeting = demo_call\<lparr>cd_ExpiresAt := demo_soon,
     cd_AudioCue := Some \<lparr>audio_ID = ''ring'', audio_Asset = \<lparr>PackagePath = '''', StockName = ''ring.snd''\<rparr>, audio_ExpiresAt = demo_soon\<rparr>\<rparr>"

lemma demo_meeting_valid: "cd_Validate demo_meeting = []"
  by (simp add: validate_eval cd_Validate_def cd_require_def cd_name_errors_def demo_meeting_def demo_call_def BandFor_def
      Identifier.Validate_def MaxBytes_def audio_Validate_def asset_Validate_def stockNamePattern_def demo_soon_def go_time second_def
      upper_alpha_def suffix_def zero_time_def)

definition demo_card :: string where "demo_card = busyCardID (demo_gateway (\<lambda>_. Done)) (cd_ID demo_meeting)"

lemma busyCardID_nonempty [simp]: "busyCardID e i \<noteq> ''''"
  by (simp add: busyCardID_def Let_def)

definition demo_snapshot :: "BusySnapshotType \<Rightarrow> string \<Rightarrow> int option \<Rightarrow> bool option \<Rightarrow> string \<Rightarrow> BusySnapshot" where
  "demo_snapshot kind i left paused theme = \<lparr>sn_TimestampMS = 1, sn_Type = kind, sn_CardID = i, sn_TimeLeftMS = left, sn_IsPaused = paused,
     sn_BusyBarSettings = \<lparr>bs_Theme = theme, bs_rest = ''''\<rparr>\<rparr>"

text \<open>The device reports the timer of the meeting as running.\<close>

definition demo_timer_gateway :: "(nat \<Rightarrow> reply) \<Rightarrow> gateway_env" where
  "demo_timer_gateway replies = (demo_gateway replies)\<lparr>ge_busy := (\<lambda>_. Inr (demo_snapshot BusySnapshotSimple demo_card (Some 1) (Some False) ''busy''))\<rparr>"

definition demo_ring :: preparedAudioCue where
  "demo_ring = \<lparr>pa_request = \<lparr>pa_ApplicationName = ''bsbctl'', pa_Path = '''', pa_StockPath = ''ring.snd''\<rparr>,
     pa_identity = \<lparr>ci_pluginID = ''calls'', ci_instanceID = ''desk'', ci_generation = 1, ci_cueID = ''ring'', ci_assetPath = ''ring.snd''\<rparr>,
     pa_expiresAt = demo_soon\<rparr>"

lemma demo_meeting_compiles:
  "gw_display g \<Longrightarrow> gw_assets g \<Longrightarrow>
     compileCandidate (demo_timer_gateway replies) demo_meeting g = (Inr (None, Some demo_ring), g\<lparr>gw_ticks := gw_ticks g + 2\<rparr>)"
  by (simp add: compileCandidate_def compile_visual_def compileAudioCue_def demo_timer_gateway_def demo_gateway_def demo_meeting_def demo_call_def
      CompileBusyTimer_def answer_def demo_soon_def go_time second_def zero_time_def CompileAudio_def Let_def device_ApplicationName_def demo_ring_def)

lemma newGateway_fields: "gw_display (newGateway d r) = d" "gw_assets (newGateway d r) = r" "gw_ticks (newGateway d r) = 0"
  by (simp_all add: newGateway_def)

definition demo_start :: device_call where
  "demo_start = SetBusy (demo_snapshot BusySnapshotSimple demo_card (Some 60000) (Some False) ''busy''\<lparr>sn_TimestampMS := 2\<rparr>) Done"

definition demo_running :: Gateway where
  "demo_running = (newGateway True True)\<lparr>gw_busyCardID := demo_card, gw_busyDigest := CHR ''h'' # demo_card @ ''busy'',
     gw_playedAudio := [(pa_identity demo_ring, demo_soon)], gw_audioAttempts := 1, gw_ticks := 10,
     gw_calls := [ClearCall ''bsbctl'' Done, ReadBusy (Inr (demo_snapshot BusySnapshotSimple demo_card (Some 1) (Some False) ''busy'')),
       ReadTime (Inr ''''), demo_start, ReadBusy (Inr (demo_snapshot BusySnapshotSimple demo_card (Some 1) (Some False) ''busy'')),
       PlayCall demo_ring Done]\<rparr>"

lemmas demo_timer_eval = demo_timer_gateway_def demo_gateway_def demo_snapshot_def demo_card_def [symmetric] answer_def call_def Let_def
  snapshot_timestamp_def UnixMilli_def time_add_def minute_def second_def millisecond_def int64_def device_ApplicationName_def
  resetScene_def resetBusyTimer_def newGateway_def

lemma demo_card_fold: "busyCardID (demo_timer_gateway replies) (cd_ID demo_meeting) = demo_card" "demo_card \<noteq> ''''"
  by (simp_all add: demo_card_def busyCardID_def demo_timer_gateway_def demo_gateway_def Let_def)

lemma demo_meeting_starts:
  "gateway_Render (demo_timer_gateway (\<lambda>_. Done)) (Some demo_meeting) (newGateway True True) = ((OutcomeDrawn, None), demo_running)"
proof -
  have timer: "renderBusyTimer (demo_timer_gateway (\<lambda>_. Done)) demo_meeting ''busy'' ((newGateway True True)\<lparr>gw_ticks := 2\<rparr>) =
      ((OutcomeDrawn, None), (newGateway True True)\<lparr>gw_busyCardID := demo_card, gw_busyDigest := CHR ''h'' # demo_card @ ''busy'', gw_ticks := 8,
        gw_calls := butlast (gw_calls demo_running)\<rparr>)"
    using demo_card_fold by (simp add: renderBusyTimer_def startBusyTimer_def demo_timer_eval timer_applied_def demo_running_def demo_start_def
        demo_meeting_def [THEN arg_cong [where f = cd_ExpiresAt]] demo_soon_def go_time zero_time_def numeral_3_eq_3)
  have fields: "cd_BusyTimer demo_meeting = Some ''busy''" by (simp add: demo_meeting_def demo_call_def)

  have sound: "playAudioCue (demo_timer_gateway (\<lambda>_. Done)) (Some demo_ring) ((newGateway True True)\<lparr>gw_busyCardID := demo_card,
      gw_busyDigest := CHR ''h'' # demo_card @ ''busy'', gw_ticks := 8, gw_calls := butlast (gw_calls demo_running)\<rparr>) = demo_running"
    by (simp add: playAudioCue_def demo_timer_eval demo_running_def remember_cue_def maxPlayedAudioCues_def demo_ring_def demo_soon_def go_time zero_time_def)
  show ?thesis
    using timer sound by (simp add: gateway_Render_def demo_meeting_valid demo_meeting_compiles fields newGateway_fields numeral_2_eq_2)
qed

text \<open>Rendered again, the meeting is unchanged and does not ring; then nothing is selected and its timer is stopped.\<close>

definition demo_quieter :: Gateway where
  "demo_quieter = demo_running\<lparr>gw_ticks := 13\<rparr>"

definition demo_stopped :: Gateway where
  "demo_stopped = demo_quieter\<lparr>gw_busyCardID := [], gw_busyDigest := zero_digest, gw_ticks := 16, gw_calls := gw_calls demo_running
     @ [ReadBusy (Inr (demo_snapshot BusySnapshotSimple demo_card (Some 1) (Some False) ''busy'')), ReadTime (Inr ''''),
        SetBusy (demo_snapshot BusySnapshotNotStarted [] None None ''busy''\<lparr>sn_TimestampMS := 2\<rparr>) Done]\<rparr>"

lemma demo_meeting_repeats:
  "gateway_Render (demo_timer_gateway (\<lambda>_. Done)) (Some demo_meeting) demo_running = ((OutcomeUnchanged, None), demo_quieter)"
proof -
  have timer: "renderBusyTimer (demo_timer_gateway (\<lambda>_. Done)) demo_meeting ''busy'' (demo_running\<lparr>gw_ticks := 12\<rparr>) =
      ((OutcomeUnchanged, None), demo_running\<lparr>gw_ticks := 12\<rparr>)"
    using demo_card_fold by (simp add: renderBusyTimer_def demo_timer_eval demo_running_def)
  have sound: "playAudioCue (demo_timer_gateway (\<lambda>_. Done)) (Some demo_ring) (demo_running\<lparr>gw_ticks := 12\<rparr>) = demo_quieter"
    by (simp add: playAudioCue_def demo_timer_eval demo_running_def demo_quieter_def demo_ring_def demo_soon_def go_time zero_time_def)
  have fields: "cd_BusyTimer demo_meeting = Some ''busy''" "gw_display demo_running" "gw_assets demo_running" "gw_ticks demo_running = 10"
    by (simp_all add: demo_meeting_def demo_call_def demo_running_def newGateway_def)
  show ?thesis using timer sound by (simp add: gateway_Render_def demo_meeting_valid demo_meeting_compiles fields)
qed

lemma demo_meeting_stops: "gateway_Render (demo_timer_gateway (\<lambda>_. Done)) None demo_quieter = ((OutcomeCleared, None), demo_stopped)"
  using demo_card_fold by (simp add: gateway_Render_def render_none_def stopOwnedBusyTimer_def demo_timer_eval demo_quieter_def demo_running_def demo_stopped_def)

lemma demo_stopped_reached: "reaches (gateway_step (demo_timer_gateway (\<lambda>_. Done))) (newGateway True True) demo_stopped"
  by (rule reachesI [where evs = "[RenderEvent (Some demo_meeting), RenderEvent (Some demo_meeting), RenderEvent None]"])
    (simp add: gateway_step_def demo_meeting_starts demo_meeting_repeats demo_meeting_stops)

theorem stops_only_own_timer_witness: "stops (gw_calls demo_stopped ! 8) \<and> read_own_card (gw_calls demo_stopped) 8"
  using stops_only_own_timer [OF demo_stopped_reached, of 8]
  by (simp add: demo_stopped_def demo_running_def demo_snapshot_def)

theorem sound_played_once_witness: "plays (gw_calls demo_stopped) = [] @ demo_ring # [] \<and> pa_identity demo_ring \<notin> pa_identity ` set []"
proof -
  have "plays (gw_calls demo_stopped) = [] @ demo_ring # []" by (simp add: demo_stopped_def demo_running_def demo_start_def)
  moreover have "time_after (pa_expiresAt demo_ring) (ge_now (demo_timer_gateway (\<lambda>_. Done)) n)" for n
    by (simp add: demo_timer_gateway_def demo_gateway_def demo_ring_def demo_soon_def go_time zero_time_def second_def)
  ultimately show ?thesis
    using sound_played_once [OF demo_stopped_reached, of "[]" demo_ring "[]"] by simp
qed

text \<open>The card of the timer that the device runs.\<close>

fun running_step :: "device_call \<Rightarrow> string \<Rightarrow> string" where
  "running_step (SetBusy s Done) c = sn_CardID s"
| "running_step (SetBusy s (Failed _ applied)) c = (if applied then sn_CardID s else c)"
| "running_step _ c = c"

definition running_card :: "device_call list \<Rightarrow> string" where
  "running_card calls = fold running_step calls []"

text \<open>The reply to the start of a timer is lost: the gateway does not own the timer, and later leaves it running.\<close>

theorem lost_timer_keeps_running:
  defines "e \<equiv> demo_timer_gateway (\<lambda>n. if n = 6 then Failed ErrCanceled True else Done)"
  shows "\<exists>g g' outcome. reaches (gateway_step e) (newGateway True True) g \<and> gateway_Render e None g = ((outcome, None), g') \<and>
    running_card (gw_calls g') = demo_card"
proof -
  let ?g1 = "(newGateway True True)\<lparr>gw_ticks := 2\<rparr>"
  let ?g = "snd (renderBusyTimer e demo_meeting ''busy'' ?g1)"
  have timer: "renderBusyTimer e demo_meeting ''busy'' ?g1 = ((OutcomeDeviceUnavailable, Some ErrCanceled), ?g) \<and>
      gw_busyCardID ?g = [] \<and> \<not> gw_hasScene ?g \<and> gw_display ?g \<and> running_card (gw_calls ?g) = demo_card"
    using demo_card_fold unfolding e_def by (simp add: renderBusyTimer_def startBusyTimer_def demo_timer_eval running_card_def reply_error_def
        demo_meeting_def [THEN arg_cong [where f = cd_ExpiresAt]] demo_soon_def go_time zero_time_def)
  have fields: "cd_BusyTimer demo_meeting = Some ''busy''" by (simp add: demo_meeting_def demo_call_def)
  have "gateway_Render e (Some demo_meeting) (newGateway True True) = ((OutcomeDeviceUnavailable, Some ErrCanceled), ?g)"
    using timer [THEN conjunct1] e_def by (cases "renderBusyTimer e demo_meeting ''busy'' ?g1") (simp add: gateway_Render_def demo_meeting_valid demo_meeting_compiles fields newGateway_fields numeral_2_eq_2)
  then have "reaches (gateway_step e) (newGateway True True) ?g"
    by (intro reachesI [where evs = "[RenderEvent (Some demo_meeting)]"]) (simp add: gateway_step_def)
  moreover have "gateway_Render e None ?g = ((OutcomeUnchanged, None), ?g)"
    using timer by (simp add: gateway_Render_def render_none_def stopOwnedBusyTimer_def)
  ultimately show ?thesis using timer by blast
qed

end
