(* ===== verification/AssetDelivery.thy ===== *)
theory AssetDelivery
  imports AssetProgress DeviceOutput
begin

text \<open>
  The properties of the asset reconciler, alone and behind the device gateway: a package that is ready is on the
  device, a scene is resolved to verified files only, and so is what the display shows.
\<close>

subsection \<open>Files of a package that is ready\<close>

lemma stored_of_complete:
  assumes "asset_inv e cat r" "complete e v paths (obs r pid)" "a \<in> set (slice_list (pk_Assets v))"
  obtains p where "derivedDevicePath (ae_ex e) (pk_PluginID v) a = Some p" "stored e r p (asset_SHA256 a)"
proof -
  obtain p where p: "derivedDevicePath (ae_ex e) (pk_PluginID v) a = Some p" "hash_at (obs r pid) p = Some (asset_SHA256 a)" "asset_SHA256 a \<noteq> []"
    using assms(2,3) unfolding complete_def by blast
  then have "stored e r p (asset_SHA256 a)" using assms(1) unfolding asset_inv_def table_valid_def by blast
  then show thesis using p that by blast
qed

text \<open>(C15) Whenever the reconciler reports a package as ready, every file that the package declares is on the device, at its
  derived path and with the declared hash: after any reconciliations, garbage collections, failed uploads, reads and
  removals, and new connections, also ones that come while a reconciliation runs and replace the content of the storage.
  It is assumed that a removal that fails has no effect, which \<open>lost_removal_reports_ready\<close> shows to be necessary; that the
  storage changes only through the reconciler or with a new connection, of which it is told at once; and that hashes
  separate the device paths and packages of the catalogue.\<close>

theorem ready_package_complete:
  assumes "removals_honest e" "paths_apart e cat" "fingerprints_apart e cat"
    and "reaches (asset_step e cat) (NewReconciler device storage) r" "v \<in> set cat" "ReadyFor e v r" "a \<in> set (slice_list (pk_Assets v))"
  shows "\<exists>p. derivedDevicePath (ae_ex e) (pk_PluginID v) a = Some p \<and> stored e r p (asset_SHA256 a)"
proof -
  have inv: "asset_inv e cat r" using assets.reach_inv [OF assms(4)] assms(1-3) by (simp add: separated_def)
  show ?thesis using stored_of_complete [OF inv ready_complete [OF inv assms(3,5,6)] assms(7)] by blast
qed

subsection \<open>Resolved scenes\<close>

lemma resolve_element_result:
  assumes "resolve_element ready paths el = Inr x"
  shows "re_Element x = el"
    and "resolvedElementAsset el = Some asset \<Longrightarrow> StockName asset = [] \<Longrightarrow> ready \<and> map_of paths (PackagePath asset) = Some (re_Path x)"
  using assms by (auto simp: resolve_element_def Let_def split: option.splits if_splits)

lemma resolve_elements_result: "resolve_elements ready paths els = Inr xs \<Longrightarrow> list_all2 (\<lambda>el x. resolve_element ready paths el = Inr x) els xs"
  by (induction els arbitrary: xs) (auto split: sum.splits)

lemma resolve_elements_keeps: "resolve_elements ready paths els = Inr xs \<Longrightarrow> map re_Element xs = els"
  by (drule resolve_elements_result, erule list_all2_induct) (auto dest: resolve_element_result(1))

text \<open>A path that \<open>ResolveScene\<close> gives to an asset of a package.\<close>

lemma resolved_path:
  assumes "assets_ResolveScene r pid scene = Inr xs" "x \<in> set xs" "resolvedElementAsset (re_Element x) = Some asset" "StockName asset = []"
  shows "assets_Ready pid r \<and> map_of (lookup_map (ar_paths r) pid) (PackagePath asset) = Some (re_Path x)"
proof -
  obtain el where "resolve_element (assets_Ready pid r) (lookup_map (ar_paths r) pid) el = Inr x"
    using resolve_elements_result assms(1,2) unfolding assets_ResolveScene_def list_all2_conv_all_nth in_set_conv_nth by metis
  then show ?thesis using resolve_element_result assms(3,4) by blast
qed

lemma ready_path:
  assumes inv: "asset_inv e cat r" and ready: "assets_Ready pid r" and path: "map_of (lookup_map (ar_paths r) pid) src = Some p"
  shows "\<exists>v\<in>set cat. \<exists>a\<in>set (slice_list (pk_Assets v)). pk_PluginID v = pid \<and> ReadyFor e v r \<and> asset_Source a = src \<and>
    derivedDevicePath (ae_ex e) pid a = Some p \<and> stored e r p (asset_SHA256 a)"
proof -
  obtain v where v: "v \<in> set cat" "pk_PluginID v = pid" "asset_fingerprint r pid = manifestFingerprint e v"
    and all: "complete e v (lookup_map (ar_paths r) pid) (obs r pid)"
    using inv ready unfolding asset_inv_def ready_ok_def by blast
  obtain a where a: "a \<in> set (slice_list (pk_Assets v))" "asset_Source a = src" "derivedDevicePath (ae_ex e) (pk_PluginID v) a = Some p"
    using all path unfolding complete_def by blast
  have "stored e r p (asset_SHA256 a)" using stored_of_complete [OF inv all a(1)] a(3) by auto
  moreover have "ReadyFor e v r" using v ready by (simp add: ReadyFor_def assets_Ready_def)
  ultimately show ?thesis using v a by blast
qed

text \<open>A scene is resolved to verified files only: when \<open>ResolveScene\<close> succeeds, an element that shows a file of its package
  gets the path of a file that a ready package of this plugin declares under exactly that name, and the device holds
  that file with the declared hash.\<close>

theorem resolved_scene_verified:
  assumes "removals_honest e" "paths_apart e cat" "fingerprints_apart e cat"
    and "reaches (asset_step e cat) (NewReconciler device storage) r" "assets_ResolveScene r pid scene = Inr xs"
    and "x \<in> set xs" "resolvedElementAsset (re_Element x) = Some asset" "StockName asset = ''''"
  shows "\<exists>v\<in>set cat. \<exists>a\<in>set (slice_list (pk_Assets v)). pk_PluginID v = pid \<and> ReadyFor e v r \<and> asset_Source a = PackagePath asset \<and>
    derivedDevicePath (ae_ex e) pid a = Some (re_Path x) \<and> stored e r (re_Path x) (asset_SHA256 a)"
proof -
  have inv: "asset_inv e cat r" using assets.reach_inv [OF assms(4)] assms(1-3) by (simp add: separated_def)
  have path: "assets_Ready pid r \<and> map_of (lookup_map (ar_paths r) pid) (PackagePath asset) = Some (re_Path x)"
    using resolved_path [OF assms(5-7)] assms(8) by simp
  then show ?thesis by (intro ready_path [OF inv]) simp_all
qed

subsection \<open>Behind the gateway\<close>

text \<open>The gateway asks a reconciler, whose state at the \<open>n\<close>-th question is \<open>rs n\<close>.\<close>

definition assets_behind :: "gateway_env \<Rightarrow> asset_env \<Rightarrow> Package list \<Rightarrow> (string \<rightharpoonup> string) \<Rightarrow> (nat \<Rightarrow> asset_Reconciler) \<Rightarrow> bool" where
  "assets_behind ge e cat storage rs \<longleftrightarrow>
     (\<forall>n. reaches (asset_step e cat) (NewReconciler True storage) (rs n) \<and>
        (\<forall>pid scene. ge_ResolveScene ge n pid scene = (case assets_ResolveScene (rs n) pid scene of Inl _ \<Rightarrow> None | Inr xs \<Rightarrow> Some xs)))"

lemma assets_behind_keeps: "assets_behind ge e cat storage rs \<Longrightarrow> resolver_keeps ge"
  by (auto simp: assets_behind_def resolver_keeps_def assets_ResolveScene_def resolve_elements_keeps split: sum.splits)

text \<open>The file of the application's directory that an element shows; stock images are elsewhere.\<close>

fun draw_file :: "DisplayElement \<Rightarrow> string" where
  "draw_file (DrawImage _ p _) = p"
| "draw_file (DrawAnimation _ p _ _) = p"
| "draw_file _ = ''''"

lemma compile_element_file:
  assumes "compile_element x = Some d" "draw_file d \<noteq> []"
  obtains asset where "resolvedElementAsset (re_Element x) = Some asset" "StockName asset = []" "draw_file d = re_Path x"
  using assms by (auto simp: compile_element_def resolvedElementAsset_def resolvedAssetPaths_def Let_def split: option.splits if_splits)

lemma compile_elements_origin: "compile_elements xs = Inr ds \<Longrightarrow> d \<in> set ds \<Longrightarrow> \<exists>x\<in>set xs. compile_element x = Some d"
  by (induction xs arbitrary: ds) (auto split: option.splits sum.splits)

lemma scene_request_file:
  assumes "assets_behind ge e cat storage rs" "scene_request ge c g = Some req" "d \<in> set (de_Elements req)" "draw_file d \<noteq> []"
  obtains src where "assets_Ready (cd_PluginID c) (rs (gw_ticks g))"
    "map_of (lookup_map (ar_paths (rs (gw_ticks g))) (cd_PluginID c)) src = Some (draw_file d)"
proof -
  obtain xs where xs: "resolved_scene ge c g = Some xs" "compile_elements xs = Inr (de_Elements req)"
    using assms(2) by (auto simp: scene_request_def CompileScene_def Let_def bind_eq_Some_conv split: sum.splits if_splits)
  obtain x where x: "x \<in> set xs" "compile_element x = Some d" using compile_elements_origin [OF xs(2) assms(3)] by blast
  obtain asset where asset: "resolvedElementAsset (re_Element x) = Some asset" "StockName asset = []" "draw_file d = re_Path x"
    by (rule compile_element_file [OF x(2) assms(4)])
  have "gw_assets g" using xs(1) x(1) asset(3) assms(4) by (auto simp: resolved_scene_def scene_ResolveScene_def split: if_splits)
  then have "assets_ResolveScene (rs (gw_ticks g)) (cd_PluginID c) (cd_Scene c) = Inr xs"
    using assms(1) xs(1) by (auto simp: assets_behind_def resolved_scene_def split: sum.splits)
  then show thesis using resolved_path [OF _ x(1)] asset that by metis
qed

text \<open>(C16) What the display shows is verified: when the gateway reports a scene as drawn, every element on the canvas that shows a
  file of the application shows one that a ready package of the candidate's plugin declares, and when the scene was
  resolved the device held this file with the declared hash. The conditions are those of the two parts: removals that fail
  have no effect, refused draws have left the canvas empty, and no draw of lower priority follows one that took effect unseen.\<close>

theorem drawn_files_verified:
  assumes "in_place dev" "assets_behind ge e cat storage rs" "removals_honest e" "paths_apart e cat" "fingerprints_apart e cat"
    and "reaches (gateway_step ge) (newGateway True True) g" "gateway_Render ge (Some c) g = ((OutcomeDrawn, None), g')"
    and "cd_BusyTimer c = None" "topologies_separate ge (gw_calls g')" "refusals_clean dev (gw_calls g')" "draws_level (gw_calls g')"
    and "canvas_of dev (gw_calls g') i = Some (p, d)" "draw_file d \<noteq> ''''"
  shows "\<exists>v\<in>set cat. \<exists>a\<in>set (slice_list (pk_Assets v)). pk_PluginID v = cd_PluginID c \<and> ReadyFor e v (rs (gw_ticks g)) \<and>
    derivedDevicePath (ae_ex e) (cd_PluginID c) a = Some (draw_file d) \<and> stored e (rs (gw_ticks g)) (draw_file d) (asset_SHA256 a)"
proof -
  note keeps = assets_behind_keeps [OF assms(2)]
  have run: "orderly ge dev (gw_calls g')" using assms(9-11) by (simp add: orderly_def)
  have "canvas_inv ge dev g" by (rule run_canvas_inv [OF assms(1) keeps assms(6) orderly_mono [OF run gateway_Render_grows [OF assms(7)]]])
  then obtain req where req: "scene_request ge c g = Some req" "canvas_of dev (gw_calls g') = shown req"
    using gateway_Render_canvas [OF assms(1) keeps assms(7) run] assms(8) by auto
  then have "d \<in> set (de_Elements req)" using shown_priority assms(12) by metis
  then obtain src where src: "assets_Ready (cd_PluginID c) (rs (gw_ticks g))"
      "map_of (lookup_map (ar_paths (rs (gw_ticks g))) (cd_PluginID c)) src = Some (draw_file d)"
    by (rule scene_request_file [OF assms(2) req(1) _ assms(13)])
  have "asset_inv e cat (rs (gw_ticks g))"
    using assets.reach_inv [of e cat True storage] assms(2-5) by (simp add: assets_behind_def separated_def)
  then show ?thesis using ready_path [OF _ src] by blast
qed

subsection \<open>A package on a device\<close>

definition demo_hash :: "string \<Rightarrow> string" where "demo_hash s = take 32 (s @ replicate 32 (CHR 0x00))"

definition demo_icon :: AssetDeclaration where
  "demo_icon = \<lparr>asset_Source = ''icon.png'', asset_SHA256 = hex_bytes (map of_char (demo_hash ''image'')), asset_Size = 5,
     asset_MediaType = ''image/png''\<rparr>"

definition demo_package :: "bool \<Rightarrow> Package" where
  "demo_package enabled = \<lparr>pk_PluginID = ''calls'', pk_Version = ''1'', pk_Root = ''/opt'', pk_Enabled = enabled, pk_Assets = Some [demo_icon]\<rparr>"

text \<open>Every call succeeds, apart from removals, which end as given.\<close>

definition demo_assets :: "storage_reply \<Rightarrow> asset_env" where
  "demo_assets removals =
     \<lparr>ae_ex = demo_externals\<lparr>ex_sha256 := demo_hash\<rparr>, ae_json_package = (\<lambda>v. if pk_Enabled v then ''on'' else ''off''),
      ae_file = (\<lambda>_ _. Some \<lparr>lf_regular = True, lf_size = 5, lf_content = Some ''image''\<rparr>), ae_now = (\<lambda>_. zero_time), ae_interrupt = (\<lambda>_. None),
      ae_upload = (\<lambda>_. Applied), ae_uploaded = (\<lambda>_ _. ''image''), ae_remove = (\<lambda>_. removals), ae_read = (\<lambda>_. True)\<rparr>"

definition demo_path :: string where "demo_path = ''pY2FsbHMAAA_aW1hZ2UAAAAAAA.png''"

definition demo_new :: asset_Reconciler where "demo_new = NewReconciler True (\<lambda>_. None)"

definition demo_ready :: asset_Reconciler where "demo_ready = assets_Reconcile (demo_assets Applied) [demo_package True] demo_new"

definition demo_catalogue :: "Package list" where "demo_catalogue = [demo_package True, demo_package False]"

lemma demo_derived: "derivedDevicePath (ae_ex (demo_assets removals)) ''calls'' demo_icon = Some demo_path"
proof -
  have "derivedDevicePath (ae_ex (demo_assets Applied)) ''calls'' demo_icon = Some demo_path" by code_simp
  then show ?thesis by (simp add: demo_assets_def)
qed

lemma demo_icon_valid: "length (asset_SHA256 demo_icon) = 64 \<and> isLowerHex (asset_SHA256 demo_icon) \<and> ValidatePackagePath (asset_Source demo_icon) = []"
  by code_simp

lemma demo_package_valid: "ValidatePackage (ae_ex (demo_assets removals)) ''calls'' ''1'' ''/opt'' [demo_icon]"
proof -
  have names: "\<not> blank_string ''calls'' \<and> \<not> blank_string ''1''" by (simp add: validate_eval)
  have sizes: "int64 5 \<le> MaxPackageAssetBytes" "asset_Size demo_icon = 5" "5 \<le> MaxAssetBytes"
    by (simp_all add: int64_def MaxPackageAssetBytes_def MaxAssetBytes_def demo_icon_def)
  have "ex_physical_ok (ae_ex (demo_assets removals)) demo_path" by (simp add: demo_assets_def demo_externals_def)
  then show ?thesis
    using names sizes demo_icon_valid demo_derived by (simp add: ValidatePackage_def filepath_IsAbs_def MaxAssets_def)
qed

lemma demo_apart: "paths_apart (demo_assets Applied) demo_catalogue" "fingerprints_apart (demo_assets Applied) demo_catalogue"
  by code_simp+

lemma demo_honest: "removals_honest (demo_assets Applied)"
  by (simp add: removals_honest_def demo_assets_def)

lemma demo_package_fields: "pk_PluginID (demo_package b) = ''calls''" "pk_Version (demo_package b) = ''1''" "pk_Root (demo_package b) = ''/opt''"
  "pk_Enabled (demo_package b) = b" "slice_list (pk_Assets (demo_package b)) = [demo_icon]"
  by (simp_all add: demo_package_def slice_list_def)

lemma demo_working: "undisturbed (demo_assets Applied)" "device_answers (demo_assets Applied)"
  by (simp_all add: undisturbed_def device_answers_def demo_assets_def)

lemma demo_local: "file_ok (demo_assets removals) ''/opt'' demo_icon ''image''"
proof -
  have "int (length ''image'') = asset_Size demo_icon \<and> sha256_hex (demo_assets Applied) ''image'' = asset_SHA256 demo_icon \<and>
      \<not> escapes_root ''/opt'' (filepath_Join ''/opt'' (asset_Source demo_icon))"
    by code_simp
  moreover have "sha256_hex (demo_assets removals) = sha256_hex (demo_assets Applied)" by (intro ext) (simp add: sha256_hex_def demo_assets_def)
  ultimately show ?thesis unfolding file_ok_def Let_def by (simp add: demo_assets_def demo_icon_def)
qed

lemma demo_files: "files_ok (demo_assets removals) (demo_package b)"
  using demo_local by (auto simp: files_ok_def demo_package_fields)

text \<open>A configuration with this package and an enabled app.\<close>

definition demo_configuration :: Document where
  "demo_configuration = demo_first\<lparr>doc_Plugins := [(''calls'', demo_plugin\<lparr>pl_PackageRoot := ''/opt'', pl_Assets := Some [demo_icon]\<rparr>)]\<rparr>"

lemma demo_configuration_packages: "assetPackages demo_configuration = [demo_package True]"
  by (simp add: assetPackages_def assetPackage_def demo_configuration_def demo_plugin_def demo_first_def ConfigStore.demo_app_def demo_package_def)

lemma demo_configuration_valid: "document_Validate (ae_ex (demo_assets Applied)) demo_configuration = []"
proof -
  let ?ex = "ae_ex (demo_assets Applied)" and ?plugin = "demo_plugin\<lparr>pl_PackageRoot := ''/opt'', pl_Assets := Some [demo_icon]\<rparr>"
  have p: "plugin_errors ?ex (''calls'', ?plugin) = []"
    using demo_package_valid by (simp add: plugin_errors_def demo_plugin_def fault_def identity_errors_def demo_names_valid filepath_IsAbs_def
        ValidateExecutionModes_def slice_list_def package_root_def protocol_Version_def)
  have ex: "ex_json_object ?ex x" "ex_schema ?ex y z = None" for x y z by (simp_all add: demo_assets_def demo_externals_def)
  have a: "app_errors ?ex demo_configuration (''desk'', ConfigStore.demo_app\<lparr>app_Generation := 1\<rparr>) = []"
    by (simp add: app_errors_def demo_configuration_def demo_first_def ConfigStore.demo_document_def ConfigStore.demo_app_def fault_def identity_errors_def demo_names_valid
        slice_list_def ValidateJSONObject_def MaxJSONObjectBytes_def ex configuration_schema_def plugin_schema_def demo_plugin_def)
  show ?thesis
    using p a by (simp add: document_Validate_def validateConfigEnvelope_def demo_configuration_def demo_first_def ConfigStore.demo_document_def fault_def
        CurrentVersion_def MaxPlugins_def MaxApps_def validatePluginHashCollisions_def)
qed

theorem reconciled_package_ready_witness: "ReadyFor (demo_assets Applied) (demo_package True) demo_ready"
proof -
  have "ReadyFor (demo_assets Applied) (demo_package True) (assets_Reconcile (demo_assets Applied) (assetPackages demo_configuration) demo_new)"
    by (rule reconciled_package_ready [OF demo_working _ demo_configuration_valid _ _ _ demo_files])
      (simp_all add: demo_new_def NewReconciler_def demo_package_fields demo_configuration_packages, simp add: demo_configuration_def)
  then show ?thesis by (simp add: demo_ready_def demo_configuration_packages)
qed

text \<open>The state after the package was uploaded.\<close>

definition demo_uploaded :: "storage_reply \<Rightarrow> asset_Reconciler" where
  "demo_uploaded removals = demo_new\<lparr>ar_states := [(''calls'', zero_asset_State\<lparr>st_PluginID := ''calls'', st_DesiredVersion := ''1'',
       st_Phase := AssetsReady, st_ObservedVersion := ''1'', st_FilesVerified := 1, st_BytesVerified := 5\<rparr>)],
     ar_paths := [(''calls'', [(''icon.png'', demo_path)])], ar_observed := [(''calls'', [(demo_path, asset_SHA256 demo_icon)])],
     ar_fingerprints := [(''calls'', manifestFingerprint (demo_assets removals) (demo_package True))],
     ar_storage := [storageAssetPath demo_path \<mapsto> ''image''], ar_ticks := 8\<rparr>"

lemma demo_verified: "verifiedLocalPath (demo_assets removals) ''/opt'' demo_icon r = (Some (filepath_Join ''/opt'' ''icon.png''), r\<lparr>ar_ticks := Suc (ar_ticks r)\<rparr>)"
proof -
  have "fst (verifiedLocalPath (demo_assets removals) ''/opt'' demo_icon r) = Some (filepath_Join ''/opt'' ''icon.png'')"
    using local_answers [OF demo_local, where r = r] by (simp add: demo_icon_def MaxAssetBytes_def)
  moreover have "snd (verifiedLocalPath (demo_assets removals) ''/opt'' demo_icon r) = r\<lparr>ar_ticks := Suc (ar_ticks r)\<rparr>"
    using demo_local by (simp add: file_ok_def verifiedLocalPath_def Let_def)
  ultimately show ?thesis by (simp add: prod_eq_iff)
qed

lemma demo_matches: "ar_storage r (storageAssetPath demo_path) = c \<Longrightarrow> c = None \<or> c = Some ''image'' \<Longrightarrow>
  deviceAssetMatches (demo_assets removals) demo_path demo_icon r = (c \<noteq> None, r\<lparr>ar_ticks := ar_ticks r + 2\<rparr>)"
  using demo_local [of removals] by (auto simp: deviceAssetMatches_def interrupted_def file_ok_def demo_assets_def Let_def)

lemma demo_upload: "device_UploadFile (demo_assets removals) demo_path l r =
    (True, r\<lparr>ar_storage := (ar_storage r)(storageAssetPath demo_path \<mapsto> ''image''), ar_ticks := ar_ticks r + 2\<rparr>)"
  by (simp add: device_UploadFile_def interrupted_def demo_assets_def Let_def)

lemma demo_icon_fields: "asset_Source demo_icon = ''icon.png''" "asset_Size demo_icon = 5"
  by (simp_all add: demo_icon_def)

lemmas demo_run = assets_Reconcile_def assets_reconcile_def reconcile_assets_def demo_package_fields demo_icon_fields demo_package_valid demo_verified demo_derived
  ensure_file_def demo_matches demo_upload lookup_map_def asset_state_def assets_commit_def interrupted_def retry_state_def Let_def

lemma demo_uploads: "assets_Reconcile (demo_assets removals) [demo_package True] demo_new = demo_uploaded removals"
proof -
  have "ae_interrupt (demo_assets removals) n = None" for n by (simp add: demo_assets_def)
  then show ?thesis
    by (simp add: demo_run demo_new_def NewReconciler_def put_map_def demo_uploaded_def zero_asset_State_def int64_def)
qed

lemma demo_ReadyFor: "ReadyFor (demo_assets Applied) (demo_package True) demo_ready"
  by (simp add: demo_ready_def demo_uploads demo_uploaded_def ReadyFor_def demo_package_fields asset_state_def asset_fingerprint_def)

lemma demo_reached: "reaches (asset_step (demo_assets Applied) demo_catalogue) (NewReconciler True (\<lambda>_. None)) demo_ready"
  by (rule reachesI [where evs = "[ReconcileEvent [demo_package True]]"])
    (simp add: asset_step_def demo_ready_def demo_new_def demo_catalogue_def)

theorem ready_package_complete_witness: "stored (demo_assets Applied) demo_ready demo_path (asset_SHA256 demo_icon)"
proof -
  have "\<exists>p. derivedDevicePath (ae_ex (demo_assets Applied)) (pk_PluginID (demo_package True)) demo_icon = Some p \<and>
      stored (demo_assets Applied) demo_ready p (asset_SHA256 demo_icon)"
    by (rule ready_package_complete [OF demo_honest demo_apart demo_reached _ demo_ReadyFor])
      (simp_all add: demo_catalogue_def, simp add: demo_package_def slice_list_def)
  then show ?thesis using demo_derived [of Applied] by (simp add: demo_package_def)
qed

definition demo_image :: Element where
  "demo_image = demo_badge\<lparr>el_Rectangle := None, el_Image := Some \<lparr>PackagePath = ''icon.png'', StockName = ''''\<rparr>\<rparr>"

lemma demo_paths: "lookup_map (ar_paths demo_ready) ''calls'' = [(''icon.png'', demo_path)]"
  by (simp add: demo_ready_def demo_uploads demo_uploaded_def lookup_map_def)

lemma demo_resolves: "assets_ResolveScene demo_ready ''calls'' [demo_image] = Inr [\<lparr>re_Element = demo_image, re_Path = demo_path\<rparr>]"
proof -
  have "assets_Ready ''calls'' demo_ready" using demo_ReadyFor by (simp add: ReadyFor_def assets_Ready_def demo_package_def)
  moreover have "packagePathMatchesKind demo_path ImageKind" by code_simp
  ultimately show ?thesis
    by (simp add: assets_ResolveScene_def demo_paths resolve_element_def resolvedElementAsset_def demo_image_def demo_badge_def Let_def)
qed

theorem resolved_scene_verified_witness:
  "\<exists>v\<in>set demo_catalogue. \<exists>a\<in>set (slice_list (pk_Assets v)). pk_PluginID v = ''calls'' \<and> ReadyFor (demo_assets Applied) v demo_ready \<and>
     asset_Source a = ''icon.png'' \<and> derivedDevicePath (ae_ex (demo_assets Applied)) ''calls'' a = Some demo_path \<and>
     stored (demo_assets Applied) demo_ready demo_path (asset_SHA256 a)"
  using resolved_scene_verified [OF demo_honest demo_apart demo_reached demo_resolves, of "\<lparr>re_Element = demo_image, re_Path = demo_path\<rparr>"
      "\<lparr>PackagePath = ''icon.png'', StockName = ''''\<rparr>"]
  by (simp add: resolvedElementAsset_def demo_image_def)

definition demo_asset_gateway :: gateway_env where
  "demo_asset_gateway = (demo_gateway (\<lambda>_. Done))\<lparr>ge_ResolveScene :=
     (\<lambda>_ pid scene. case assets_ResolveScene demo_ready pid scene of Inl _ \<Rightarrow> None | Inr xs \<Rightarrow> Some xs)\<rparr>"

definition demo_picture :: Candidate where
  "demo_picture = demo_call\<lparr>cd_BusyTimer := None, cd_Scene := [demo_image]\<rparr>"

definition demo_shown_image :: DisplayElement where
  "demo_shown_image = DrawImage \<lparr>base_ID = ''badge'', base_X = 71, base_Y = 15, base_Display = DisplayFront, base_Align = []\<rparr> demo_path []"

definition demo_image_request :: DisplayElements where
  "demo_image_request = \<lparr>de_ApplicationName = ''bsbctl'', de_Priority = 100, de_Elements = [demo_shown_image]\<rparr>"

definition demo_pictured :: Gateway where
  "demo_pictured = (newGateway True True)\<lparr>gw_hasScene := True, gw_lastDigest := ''h'', gw_lastTopology := ''hbadge'',
     gw_lastPriority := 100, gw_ticks := 2, gw_calls := [DrawCall demo_image_request Done]\<rparr>"

lemma demo_picture_valid: "cd_Validate demo_picture = []"
proof -
  have "ValidatePackagePath ''icon.png'' = []" using demo_icon_valid by (simp add: demo_icon_fields)
  then show ?thesis
    by (simp add: validate_eval cd_Validate_def cd_require_def cd_name_errors_def demo_picture_def demo_call_def demo_image_def demo_badge_def BandFor_def
        Identifier.Validate_def MaxBytes_def scene_Validate_def asset_Validate_def asset_errors_def)
qed

lemma demo_behind: "assets_behind demo_asset_gateway (demo_assets Applied) demo_catalogue (\<lambda>_. None) (\<lambda>_. demo_ready)"
  unfolding assets_behind_def using demo_reached by (simp add: demo_asset_gateway_def)

lemma demo_pictures: "gateway_Render demo_asset_gateway (Some demo_picture) (newGateway True True) = ((OutcomeDrawn, None), demo_pictured)"
proof -
  let ?g = "(newGateway True True)\<lparr>gw_ticks := 1\<rparr>" and ?rs = "[\<lparr>re_Element = demo_image, re_Path = demo_path\<rparr>]"
  have fields: "cd_PluginID demo_picture = ''calls''" "cd_Scene demo_picture = [demo_image]" "cd_BusyTimer demo_picture = None" "cd_AudioCue demo_picture = None"
    by (simp_all add: demo_picture_def demo_call_def)
  have compiled: "CompileScene (ge_lib demo_asset_gateway) device_ApplicationName (EffectiveDevicePriority demo_picture) ?rs = Inr demo_image_request"
    by (simp add: CompileScene_def compile_element_def demo_asset_gateway_def demo_gateway_def demo_image_request_def demo_shown_image_def demo_image_def
        demo_badge_def resolvedAssetPaths_def compile_base_def Let_def EffectiveDevicePriority_def device_ApplicationName_def demo_picture_def demo_call_def)
  have "compile_visual demo_asset_gateway demo_picture (newGateway True True) = (Inr (Some (?rs, demo_image_request)), ?g)"
    using compiled by (simp add: compile_visual_def fields answer_def newGateway_def demo_asset_gateway_def demo_resolves)
  then have c: "compileCandidate demo_asset_gateway demo_picture (newGateway True True) = (Inr (Some (?rs, demo_image_request), None), ?g)"
    by (simp add: compileCandidate_def compileAudioCue_def fields)
  have lib: "ge_json_request demo_asset_gateway demo_image_request = Some []" "ge_sha256 demo_asset_gateway x = CHR ''h'' # x"
      "ge_json_topology demo_asset_gateway (sceneTopology ?rs) = ''badge''" "ge_reply demo_asset_gateway n = Done" for n x
    by (simp_all add: demo_asset_gateway_def demo_gateway_def demo_image_request_def demo_shown_image_def sceneTopology_def demo_image_def demo_badge_def)
  have "gateway_Render demo_asset_gateway (Some demo_picture) (newGateway True True) = render_scene demo_asset_gateway ?rs demo_image_request None ?g"
    using c by (simp add: gateway_Render_def demo_picture_valid fields newGateway_fields)
  also have "\<dots> = ((OutcomeDrawn, None), demo_pictured)"
    by (simp add: render_scene_def lib stopOwnedBusyTimer_def place_request_def draw_request_def call_def playAudioCue_def Let_def newGateway_def demo_pictured_def)
      (simp add: demo_image_request_def)
  finally show ?thesis .
qed

lemma demo_pictures_separate: "topologies_separate demo_asset_gateway (gw_calls demo_pictured)"
  by (simp add: topologies_separate_def demo_pictured_def topo_digest_def demo_asset_gateway_def demo_gateway_def demo_image_request_def draw_topology_def
      demo_shown_image_def zero_digest_def numeral_eq_Suc)

theorem drawn_files_verified_witness:
  "\<exists>v\<in>set demo_catalogue. \<exists>a\<in>set (slice_list (pk_Assets v)). pk_PluginID v = ''calls'' \<and> ReadyFor (demo_assets Applied) v demo_ready \<and>
     derivedDevicePath (ae_ex (demo_assets Applied)) ''calls'' a = Some demo_path \<and> stored (demo_assets Applied) demo_ready demo_path (asset_SHA256 a)"
proof -
  have "canvas_of (upserting id) (gw_calls demo_pictured) ''badge'' = Some (de_Priority demo_image_request, demo_shown_image)"
    by (simp add: demo_pictured_def canvas_of_def upserting_def upsert_def shown_def demo_image_request_def demo_shown_image_def)
  from drawn_files_verified [OF upsert_in_place demo_behind demo_honest demo_apart reaches_refl demo_pictures _ demo_pictures_separate _ _ this]
  show ?thesis by (simp add: demo_picture_def demo_call_def demo_shown_image_def demo_path_def demo_pictured_def refusals_clean_def)
qed

text \<open>
  A removal fails after it has taken effect: the package is disabled, the reply is lost, and when the package is enabled
  again the reconciler reports it as ready although its file is gone.
\<close>

theorem lost_removal_reports_ready:
  defines "e \<equiv> demo_assets (Broken True)"
  shows "\<exists>r. reaches (asset_step e demo_catalogue) demo_new r \<and> ReadyFor e (demo_package True) r \<and> ar_storage r (storageAssetPath demo_path) = None"
proof -
  have calm: "ae_interrupt e n = None" "ae_remove e n = Broken True" for n by (simp_all add: e_def demo_assets_def)
  let ?off = "assets_Reconcile e [demo_package False] (demo_uploaded (Broken True))" and ?on = "assets_Reconcile e [demo_package True]"
  have off: "ar_device ?off" "ar_storage ?off (storageAssetPath demo_path) = None"
      "map_of (ar_observed ?off) ''calls'' = Some [(demo_path, asset_SHA256 demo_icon)]"
      "\<exists>st. map_of (ar_states ?off) ''calls'' = Some st \<and> st_Phase st \<noteq> AssetsReady"
    unfolding e_def
    by (simp_all add: demo_run reconcile_disabled_def device_Remove_def pendingObserved_def calm [unfolded e_def] demo_uploaded_def demo_new_def
        NewReconciler_def zero_asset_State_def)
  have on: "ReadyFor e (demo_package True) (?on r) \<and> ar_storage (?on r) = ar_storage r"
    if "ar_device r" "map_of (ar_observed r) ''calls'' = Some [(demo_path, asset_SHA256 demo_icon)]"
      "\<exists>st. map_of (ar_states r) ''calls'' = Some st \<and> st_Phase st \<noteq> AssetsReady" for r
    using that unfolding e_def by (auto simp: demo_run calm [unfolded e_def] ReadyFor_def asset_fingerprint_def go_alist)
  have "run_steps (asset_step e demo_catalogue) [ReconcileEvent [demo_package True], ReconcileEvent [demo_package False], ReconcileEvent [demo_package True]]
      demo_new = Some (?on ?off)"
    by (simp add: asset_step_def demo_catalogue_def e_def demo_uploads)
  then have "reaches (asset_step e demo_catalogue) demo_new (?on ?off)" by (rule reachesI)
  then show ?thesis using on [OF off(1,3,4)] off(2) by metis
qed

end
