(* ===== verification/Spec2Isabelle.thy ===== *)
theory Spec2Isabelle
  imports Policies System Broker InputCoordinator ConfigStore PluginLifecycle AssetDelivery
begin

text \<open>
  \<^bold>\<open>A verification library for the bsbctl daemon.\<close>

  bsbctl drives the two displays of a BUSY Bar. Plugins publish \<^emph>\<open>observations\<close> (a card to show, with an
  impact, a revision and a time until which it is valid); the daemon decides which one is on the
  display, hands the buttons to a plugin that has an interactive session, and lets a critical
  observation take the display over. This library models the core of the daemon in Isabelle/HOL and proves
  the properties that its parts owe each other.

  \<^bold>\<open>The parts and how they interact.\<close> A plugin's observation is validated (\<open>sdk/protocol\<close>) and kept in the
  observation store, which wakes the engine. A step of the engine takes a snapshot, resolves the policy of every
  record from the configuration and the sessions, selects a winner (attention selector and arbiter),
  acquires or releases the critical foreground, renders, and keeps what it delivered. Rendering goes through the
  device gateway, which resolves the files of a scene with the asset reconciler, compiles the scene, and draws it
  on the device or starts a native timer or a sound. Physical input
  enters the dispatcher, is handled one event at a time by the coordinator, and goes to the menu, to the
  foreground session through the broker, or to the engine (Back). The scheduling state and the configuration
  are files that are replaced atomically. Plugins are processes; each has a supervisor that starts, watches, restarts and stops it and
  tells the core which sessions have ended.

  \<^bold>\<open>Theories and sources\<close>, in the order of their dependence:

  \<^item> \<open>Bsb_Prelude\<close>: machine integers, Go's times, durations, maps and comparators; the interfaces \<open>go_map\<close>,
    \<open>comparator\<close>, \<open>keyed_comparator\<close> and \<open>guarded_component\<close>. \<open>Machines\<close>: step machines of components driven by
    several goroutines; the interfaces \<open>invariant_machine\<close> and \<open>refined_machine\<close>.
  \<^item> \<open>Identifier\<close> (\<open>internal/identifier/identifier.go\<close>): UTF-8 checks; the encoding of identities is injective
    and the prefix of an instance is exact.
  \<^item> \<open>Protocol\<close> (\<open>sdk/protocol\<close>): observations, scenes, cues and session input, with their validators.
  \<^item> \<open>Presentation\<close> (\<open>internal/presentation/model.go, arbiter.go\<close>): candidates, bands and the arbiter: who wins, that the
    band is maximal, that holds and cooldowns are respected and that the order of the candidates is irrelevant.
  \<^item> \<open>ObservationStore\<close> (\<open>internal/observation/store.go\<close>): every method; capacities, exact snapshots, dismissed
    revisions stay dismissed, every change wakes the engine.
  \<^item> \<open>LocalState\<close> (\<open>internal/localstate\<close>): atomic replacement and removal of a file on a disk whose calls fail
    and which can crash.
  \<^item> \<open>Attention\<close> (\<open>internal/attention/selector.go\<close>): eligibility, rotation, selection, explanations.
  \<^item> \<open>Configuration\<close> and \<open>ConfigStore\<close> (\<open>internal/config/store.go\<close>, the asset declarations of
    \<open>internal/assets/reconciler.go\<close>): the document, its validation, optimistic updates, generations of apps.
  \<^item> \<open>Sessions\<close> (\<open>internal/daemon/session_owner.go, session_runtime.go\<close>): pending, foreground, atomic execution and
    critical presentation; their exclusion in every reachable state.
  \<^item> \<open>Policies\<close> (\<open>internal/daemon/policy_resolver.go\<close>): what the daemon selects is enabled and current.
  \<^item> \<open>AttentionState\<close> (\<open>internal/attention/state.go, internal/daemon/attention_state.go\<close>): the durable scheduling
    state, its bounds, eviction and restart.
  \<^item> \<open>Engine\<close> (\<open>internal/daemon/engine.go\<close>): one function per operation, the renderer an arbitrary function.
  \<^item> \<open>System\<close>: the engine with the store and the sessions under all their callers, and the loop \<open>Run\<close>: it
    terminates, keeps its bounds, loses no wake-up and retries.
  \<^item> \<open>Broker\<close> (\<open>internal/eventbus/broker.go\<close>): publishers, session workers and cancellation as a machine over the critical
    sections of the code: every delivery is answered exactly once, in order, and never after a cancel.
  \<^item> \<open>InputDispatcher\<close>, \<open>Launcher\<close>, \<open>InputCoordinator\<close> (\<open>internal/input\<close>, with the connections made in
    \<open>internal/daemonrun/run.go\<close>): the bounded queue refines a queue of live inputs; the menu shows what the
    buttons act on; Back always leads out; the menu and a critical presentation exclude each other.
  \<^item> \<open>Backoff\<close>, \<open>Supervisor\<close>, \<open>Supervision\<close>, \<open>PluginLifecycle\<close> (\<open>internal/pluginhost/supervisor*.go\<close>): the delays of retries
    in floating point; every operation of the supervisor of a plugin process; its invariant; and that children
    obey an abstract life cycle, resident plugins are never forgotten, crash loops end in quarantine and no
    session is lost silently.
  \<^item> \<open>SceneCompiler\<close> (\<open>internal/presentation/compiler.go\<close>) and \<open>Gateway\<close> (\<open>internal/device/gateway.go\<close>): from a candidate to the
    calls of the device, every one of which may be refused or fail with or without effect. \<open>DeviceCanvas\<close> and \<open>DeviceCues\<close>
    have the invariants of the canvas, the native timer and the sounds; \<open>DeviceOutput\<close> the properties: what was
    reported as drawn, unchanged or cleared is on the canvas, only own timers are stopped, sounds are not repeated,
    and the engine accepts the answers.
  \<^item> \<open>AssetReconciler\<close> (\<open>internal/assets/reconciler.go\<close>): upload, readback, removal, garbage collection and invalidation, with
    a new connection possible between any two steps. \<open>AssetStorage\<close> has its invariant; \<open>AssetProgress\<close> that one
    reconciliation of a valid configuration makes its packages ready; \<open>AssetDelivery\<close> that a package which is ready
    is on the device and that the display shows verified files only.

  \<^bold>\<open>How code becomes definitions.\<close> A struct is a record, an enumeration a datatype with a constructor for
  other values, an error a value, a Go map an association list without repeated keys, a string the list
  of its bytes, \<open>uint64\<close> a word. What runs under one lock is one function or one step. Goroutines that
  interleave (broker, dispatcher, menu) are program counters of a machine whose events are critical
  sections, channel operations and returns of callbacks; histories in their states are ghosts that no
  operation reads. Callbacks, the renderer, clocks, faults of the disk and decoders are parameters or parts
  of an event, and properties hold for all of them.

  \<^bold>\<open>Loops and fuel.\<close> The loop inside a step of the engine excludes one observation each time it continues; it
  has the fuel \<open>step_fuel = 2049\<close>, one more than the store can hold, and \<open>system_step_returns\<close> proves that this
  is enough in every reachable state. Every other recursion is structural or has a measure.

  \<^bold>\<open>Assumptions.\<close> 64-bit counters of contexts and deliveries do not wrap around: the steps that would wrap
  are disabled. A step of the engine is atomic with respect to publications. The clock of an acknowledgement
  is not behind the entries it competes with. A POSIX disk: a rename is atomic, synchronised bytes survive a
  crash, and a directory that was not synchronised is found in its last synchronised or a later state. JSON
  decoding gives back the generation that was encoded. A supervisor that shuts down waits until its child is reaped.
  The device updates the elements of a request in place (\<open>in_place\<close>), a resolver does not change elements
  (\<open>resolver_keeps\<close>, proved for the asset reconciler), and hashes separate the topologies, requests, device paths and packages of a
  run (\<open>topologies_separate\<close>, \<open>requests_separate\<close>, \<open>paths_apart\<close>, \<open>fingerprints_apart\<close>). Where failures with an effect break a
  property, their absence is a hypothesis of it (\<open>no_ghosts\<close>, \<open>removals_honest\<close>).

  \<^bold>\<open>Findings.\<close> The bound of the scheduling tables is shared by presentations and acknowledgements, so it can
  evict the state of a live observation, against the comment in \<open>engine.go\<close>; the attention state is
  written without the size limit that reading it enforces. The supervisor reports a session as open although it has just
  stopped the child (\<open>invoke_succeeds_without_child\<close>), can strand the other session of an interactive plugin
  (\<open>failed_input_strands_other_session\<close>), and lets a ping end a quarantine (\<open>ping_ends_quarantine\<close>). A call of the device
  that fails after it has taken effect leaves a wrong record three times: a lost draw can leave the wrong scene on
  the display (\<open>lost_draw_stays_on_screen\<close>), a lost start of a timer a timer that nobody stops
  (\<open>lost_timer_keeps_running\<close>), and a lost removal a package that is ready without its file (\<open>lost_removal_reports_ready\<close>).

  \<^bold>\<open>Not modelled.\<close> The daemon's reconciler, which orchestrates plugins, assets and persistence; the processes and sockets
  behind a plugin's supervisor; the attention recorder and checkpoints; the transport to the device and its ownership (a
  package outside the repository makes the requests) and the live stream; the control API, the RPC transport and the
  plugin SDK; secrets (the macOS key chain); the first-party plugins; the installer, releases, launch agent and
  command line.
\<close>

end
